(* ===== verification/Prelude.thy ===== *)
theory Prelude
  imports Main "HOL-Library.Monad_Syntax"
begin

text \<open>
  The prelude of the development: the theorem collections the component theories extend and
  the generic facts on lists and options that more than one component uses. Nothing here
  models code.

  \<^item> \<open>kc_simps\<close>: rewrite rules of the C library and data model that component proofs unfold;
  \<^item> \<open>frame_simps\<close>: what an operation leaves unchanged.
\<close>

named_theorems kc_simps
named_theorems frame_simps

section \<open>Options and the option monad\<close>

lemma bind_Some_iff: "(Option.bind x f = Some y) \<longleftrightarrow> (\<exists>z. x = Some z \<and> f z = Some y)"
  by (cases x) auto

lemma bind_SomeE:
  assumes "Option.bind x f = Some y"
  obtains z where "x = Some z" and "f z = Some y"
  using assms by (cases x) auto

lemma not_None_bindI:
  assumes "x \<noteq> None" and "\<And>y. x = Some y \<Longrightarrow> f y \<noteq> None"
  shows "Option.bind x f \<noteq> None"
  using assms by (cases x) auto

section \<open>Lists\<close>

lemma takeWhile_append_not:
  assumes "\<forall>x \<in> set xs. P x" and "\<not> P y"
  shows "takeWhile P (xs @ y # ys) = xs"
  using assms by (induction xs) auto

lemma dropWhile_append_not:
  assumes "\<forall>x \<in> set xs. P x" and "\<not> P y"
  shows "dropWhile P (xs @ y # ys) = y # ys"
  using assms by (induction xs) auto

lemma dropWhile_hd_not: "dropWhile P xs = y # ys \<Longrightarrow> \<not> P y"
  by (induction xs) (auto split: if_splits)

lemma dropWhile_fixed: "(xs \<noteq> [] \<Longrightarrow> \<not> P (hd xs)) \<Longrightarrow> dropWhile P xs = xs"
  by (cases xs) auto

lemma find_SomeD: "find P xs = Some x \<Longrightarrow> P x \<and> x \<in> set xs"
  by (induction xs) (auto split: if_splits)

text \<open>The last element that satisfies a property, seen from the end.\<close>

lemma dropWhile_rev_snoc: "dropWhile P (rev (xs @ [x])) = (if P x then dropWhile P (rev xs) else x # rev xs)"
  by simp

end
