(* ===== verification/CString.thy ===== *)
theory CString
  imports Prelude "HOL-Library.Word"
begin

text \<open>
  The part of the C standard library the program relies on: the character classes of
  \<^verbatim>\<open><ctype.h>\<close> in the C locale, \<open>strcmp\<close> (only its sign is ever used), and the number
  scanners \<open>strtol\<close>, \<open>strtoll\<close>, \<open>strtoull\<close> and \<open>atoi\<close> with their clamping at the ends of
  the range, the tail pointer and \<open>ERANGE\<close>. A C string is the list of its characters without
  the terminating zero, so reading the terminator is the empty list.
\<close>

abbreviation char_code :: "char \<Rightarrow> nat" where
  "char_code c \<equiv> of_char c"

section \<open>Character classes\<close>

definition isspace :: "char \<Rightarrow> bool" where
  "isspace c \<longleftrightarrow> char_code c = 32 \<or> (9 \<le> char_code c \<and> char_code c \<le> 13)"

definition isdigit :: "char \<Rightarrow> bool" where
  "isdigit c \<longleftrightarrow> 48 \<le> char_code c \<and> char_code c \<le> 57"

definition isupper :: "char \<Rightarrow> bool" where
  "isupper c \<longleftrightarrow> 65 \<le> char_code c \<and> char_code c \<le> 90"

definition islower :: "char \<Rightarrow> bool" where
  "islower c \<longleftrightarrow> 97 \<le> char_code c \<and> char_code c \<le> 122"

definition isalnum :: "char \<Rightarrow> bool" where
  "isalnum c \<longleftrightarrow> isdigit c \<or> isupper c \<or> islower c"

definition isxdigit :: "char \<Rightarrow> bool" where
  "isxdigit c \<longleftrightarrow> isdigit c \<or> (65 \<le> char_code c \<and> char_code c \<le> 70)
     \<or> (97 \<le> char_code c \<and> char_code c \<le> 102)"

lemmas ctype_defs = isspace_def isdigit_def isupper_def islower_def isalnum_def isxdigit_def

text \<open>The value of a character as a digit (letters count from ten), if it is one.\<close>

definition digit_val :: "char \<Rightarrow> nat option" where
  "digit_val c =
     (if isdigit c then Some (char_code c - 48)
      else if isupper c then Some (char_code c - 55)
      else if islower c then Some (char_code c - 87)
      else None)"

definition is_base_digit :: "nat \<Rightarrow> char \<Rightarrow> bool" where
  "is_base_digit base c \<longleftrightarrow> (case digit_val c of None \<Rightarrow> False | Some d \<Rightarrow> d < base)"

section \<open>Comparison\<close>

fun strcmp :: "string \<Rightarrow> string \<Rightarrow> int" where
  "strcmp [] [] = 0"
| "strcmp [] (b # bs) = -1"
| "strcmp (a # as) [] = 1"
| "strcmp (a # as) (b # bs) =
     (if char_code a < char_code b then -1
      else if char_code b < char_code a then 1
      else strcmp as bs)"

lemma char_code_antisym: "\<not> char_code a < char_code b \<Longrightarrow> \<not> char_code b < char_code a \<Longrightarrow> a = b"
  by (metis of_char_eq_iff nat_neq_iff)

lemma strcmp_self [simp]: "strcmp a a = 0"
  by (induction a) simp_all

lemma strcmp_0_D: "strcmp a b = 0 \<Longrightarrow> a = b"
proof (induction a b rule: strcmp.induct)
  case (4 a as b bs)
  then have "\<not> char_code a < char_code b" and "\<not> char_code b < char_code a"
    by (simp_all split: if_splits)
  with 4 show ?case by (simp add: char_code_antisym)
qed simp_all

lemma strcmp_eq_0_iff: "strcmp a b = 0 \<longleftrightarrow> a = b"
  by (blast dest: strcmp_0_D intro: strcmp_self ssubst)

lemma strcmp_antisym: "strcmp b a = - strcmp a b"
  by (induction a b rule: strcmp.induct) auto

lemma strcmp_values: "strcmp a b \<in> {-1, 0, 1}"
  by (induction a b rule: strcmp.induct) auto

section \<open>Scanning numbers\<close>

text \<open>\<open>scan_digits base acc s\<close> reads the longest run of digits: its value and what follows.\<close>

fun scan_digits :: "nat \<Rightarrow> nat \<Rightarrow> string \<Rightarrow> nat \<times> string" where
  "scan_digits base acc [] = (acc, [])"
| "scan_digits base acc (c # cs) =
     (case digit_val c of
        None \<Rightarrow> (acc, c # cs)
      | Some d \<Rightarrow> if d < base then scan_digits base (base * acc + d) cs else (acc, c # cs))"

text \<open>
  \<open>scan_number base s\<close> is the subject sequence of \<open>strtol\<close>: leading white space, an optional
  sign, an optional \<open>0x\<close> prefix (base 16, and base 0 where it selects 16; a leading zero
  selects 8 there) and the digits. The result is the sign, the magnitude and the tail, or
  \<open>None\<close> when there is no digit (the tail pointer is then the start of the string).
  A prefix \<open>0x\<close> with no hexadecimal digit after it reads as the number 0 before the \<open>x\<close>.
\<close>

definition has_hex_prefix :: "string \<Rightarrow> bool" where
  "has_hex_prefix s =
     (case s of
        z # x # d # _ \<Rightarrow> z = CHR ''0'' \<and> (x = CHR ''x'' \<or> x = CHR ''X'') \<and> isxdigit d
      | _ \<Rightarrow> False)"

definition number_base :: "nat \<Rightarrow> string \<Rightarrow> nat" where
  "number_base base s =
     (if base = 0 then
        (if has_hex_prefix s then 16 else if s \<noteq> [] \<and> hd s = CHR ''0'' then 8 else 10)
      else base)"

definition scan_magnitude :: "nat \<Rightarrow> string \<Rightarrow> (nat \<times> string) option" where
  "scan_magnitude base s =
     (let b = number_base base s;
          s1 = (if b = 16 \<and> has_hex_prefix s then drop 2 s else s)
      in case s1 of
           [] \<Rightarrow> None
         | c # _ \<Rightarrow> if is_base_digit b c then Some (scan_digits b 0 s1) else None)"

definition scan_number :: "nat \<Rightarrow> string \<Rightarrow> (bool \<times> nat \<times> string) option" where
  "scan_number base s =
     (case dropWhile isspace s of
        [] \<Rightarrow> None
      | c # cs \<Rightarrow>
          (if c = CHR ''-'' then map_option (\<lambda>(m, t). (True, m, t)) (scan_magnitude base cs)
           else if c = CHR ''+'' then map_option (\<lambda>(m, t). (False, m, t)) (scan_magnitude base cs)
           else map_option (\<lambda>(m, t). (False, m, t)) (scan_magnitude base (c # cs))))"

text \<open>
  \<open>strtoll base s\<close> and \<open>strtoull base s\<close> give the value as a 64-bit word, the tail and
  whether \<open>errno\<close> is set (to \<open>ERANGE\<close>).
\<close>

definition LLONG_MAX :: int where "LLONG_MAX = 2 ^ 63 - 1"
definition LLONG_MIN :: int where "LLONG_MIN = - (2 ^ 63)"
definition ULLONG_MAX :: int where "ULLONG_MAX = 2 ^ 64 - 1"

definition clamp_ll :: "int \<Rightarrow> int" where
  "clamp_ll v = (if v < LLONG_MIN then LLONG_MIN else if LLONG_MAX < v then LLONG_MAX else v)"

definition strtoll_int :: "nat \<Rightarrow> string \<Rightarrow> int \<times> string \<times> bool" where
  "strtoll_int base s =
     (case scan_number base s of
        None \<Rightarrow> (0, s, False)
      | Some (neg, m, t) \<Rightarrow>
          let v = (if neg then - int m else int m)
          in (clamp_ll v, t, clamp_ll v \<noteq> v))"

definition strtoll :: "nat \<Rightarrow> string \<Rightarrow> 64 word \<times> string \<times> bool" where
  "strtoll base s = (case strtoll_int base s of (v, t, e) \<Rightarrow> (word_of_int v, t, e))"

definition strtoull :: "nat \<Rightarrow> string \<Rightarrow> 64 word \<times> string \<times> bool" where
  "strtoull base s =
     (case scan_number base s of
        None \<Rightarrow> (0, s, False)
      | Some (neg, m, t) \<Rightarrow>
          (if int m > ULLONG_MAX then (- 1, t, True)
           else ((if neg then - of_nat m else of_nat m), t, False)))"

text \<open>\<open>atoi\<close> is \<open>(int) strtol(s, NULL, 10)\<close>: the low 32 bits of a long.\<close>

definition atoi :: "string \<Rightarrow> int" where
  "atoi s = sint (word_of_int (fst (strtoll_int 10 s)) :: 32 word)"

lemma clamp_ll_bounds: "LLONG_MIN \<le> clamp_ll v \<and> clamp_ll v \<le> LLONG_MAX"
  by (auto simp: clamp_ll_def LLONG_MIN_def LLONG_MAX_def)

lemma strtoll_int_bounds:
  "LLONG_MIN \<le> fst (strtoll_int base s) \<and> fst (strtoll_int base s) \<le> LLONG_MAX"
proof (cases "scan_number base s")
  case None
  then show ?thesis by (simp add: strtoll_int_def LLONG_MIN_def LLONG_MAX_def)
next
  case (Some r)
  then show ?thesis
    by (cases r) (auto simp: strtoll_int_def Let_def clamp_ll_bounds)
qed

lemma sint_word_of_int_ll:
  assumes "LLONG_MIN \<le> v" and "v \<le> LLONG_MAX"
  shows "sint (word_of_int v :: 64 word) = v"
proof -
  have "sint (word_of_int v :: 64 word) = signed_take_bit 63 v"
    by (simp add: signed_of_int)
  also have "\<dots> = v"
    using assms by (intro signed_take_bit_int_eq_self) (auto simp: LLONG_MIN_def LLONG_MAX_def)
  finally show ?thesis .
qed

lemma sint_strtoll: "sint (fst (strtoll base s)) = fst (strtoll_int base s)"
  using strtoll_int_bounds [of base s]
  by (auto simp: strtoll_def sint_word_of_int_ll split: prod.splits)

section \<open>Printing numbers\<close>

text \<open>The conversion \<open>%d\<close> (and \<open>%u\<close>) of the \<open>printf\<close> family.\<close>

definition digit_char :: "nat \<Rightarrow> char" where
  "digit_char d = char_of (48 + d)"

fun nat_text :: "nat \<Rightarrow> string" where
  "nat_text n = (if n < 10 then [digit_char n] else nat_text (n div 10) @ [digit_char (n mod 10)])"

declare nat_text.simps [simp del]

definition int_text :: "int \<Rightarrow> string" where
  "int_text i = (if i < 0 then CHR ''-'' # nat_text (nat (- i)) else nat_text (nat i))"

lemma digit_char_code: "d < 10 \<Longrightarrow> char_code (digit_char d) = 48 + d"
  by (simp add: digit_char_def)

lemma digit_char_val: "d < 10 \<Longrightarrow> digit_val (digit_char d) = Some d"
  by (simp add: digit_val_def isdigit_def digit_char_code)

lemma digit_char_isdigit: "d < 10 \<Longrightarrow> isdigit (digit_char d)"
  by (simp add: isdigit_def digit_char_code)

lemma nat_text_digits: "list_all isdigit (nat_text n)"
  by (induction n rule: nat_text.induct)
     (subst nat_text.simps, simp add: digit_char_isdigit)

lemma nat_text_nonempty: "nat_text n \<noteq> []"
  by (subst nat_text.simps) simp

lemma isdigit_val: "isdigit c \<Longrightarrow> digit_val c = Some (char_code c - 48) \<and> char_code c - 48 < 10"
  by (auto simp: digit_val_def isdigit_def)

lemma scan_digits_append:
  "list_all isdigit ds \<Longrightarrow> d < 10 \<Longrightarrow>
   scan_digits 10 acc (ds @ [digit_char d]) = (10 * fst (scan_digits 10 acc ds) + d, [])"
  by (induction ds arbitrary: acc) (simp_all add: digit_char_val isdigit_val)

text \<open>Reading a printed number gives the number back.\<close>

lemma scan_nat_text: "scan_digits 10 0 (nat_text n) = (n, [])"
proof (induction n rule: nat_text.induct)
  case (1 n)
  show ?case
  proof (cases "n < 10")
    case True
    then show ?thesis by (subst nat_text.simps) (simp add: digit_char_val)
  next
    case False
    have d: "n mod 10 < 10" by simp
    from False 1 have "scan_digits 10 0 (nat_text n) = (10 * (n div 10) + n mod 10, [])"
      by (subst nat_text.simps) (simp add: scan_digits_append [OF nat_text_digits d])
    then show ?thesis by simp
  qed
qed

section \<open>Reading lines\<close>

text \<open>\<open>fgets\<close>: the line with its newline, or its part that fits; \<open>None\<close> at the end of the input.\<close>

definition fgets :: "nat \<Rightarrow> string \<Rightarrow> (string \<times> string) option" where
  "fgets sz t =
     (let l = takeWhile (\<lambda>d. d \<noteq> CHR 0x0A) t @ take 1 (dropWhile (\<lambda>d. d \<noteq> CHR 0x0A) t);
          l = take (sz - 1) l
      in if t = [] then None else Some (l, drop (length l) t))"

section \<open>Searching\<close>

text \<open>\<open>strchr\<close>: the text before the character and the text after it.\<close>

definition split_at :: "char \<Rightarrow> string \<Rightarrow> (string \<times> string) option" where
  "split_at c s =
     (case dropWhile (\<lambda>d. d \<noteq> c) s of [] \<Rightarrow> None | _ # rest \<Rightarrow> Some (takeWhile (\<lambda>d. d \<noteq> c) s, rest))"

lemma split_at_append:
  assumes "c \<notin> set a"
  shows "split_at c (a @ c # b) = Some (a, b)"
proof -
  have a: "\<forall>x \<in> set a. x \<noteq> c" using assms by auto
  show ?thesis
    by (simp add: split_at_def dropWhile_append_not [OF a] takeWhile_append_not [OF a])
qed

text \<open>The character at an index, and the terminator behind the text.\<close>

definition char_at :: "string \<Rightarrow> nat \<Rightarrow> char" where
  "char_at str i = (if i < length str then str ! i else CHR 0x00)"

end
