(* ===== verification/Kdata.thy ===== *)
theory Kdata
  imports CString
begin

text \<open>
  The data model of the Kconfig engine, from \<^verbatim>\<open>scripts/kconfig/parser/expr.h\<close>,
  \<^verbatim>\<open>lkc.h\<close> and \<^verbatim>\<open>internal.h\<close>: tristate values, expressions, properties, symbols, menu
  entries and the record of the global state. C pointers to symbols, menu entries and
  properties are identifiers into the maps of that record; the statically allocated objects
  (\<open>symbol_yes\<close>, \<open>symbol_mod\<close>, \<open>symbol_no\<close>, \<open>rootmenu\<close>) are constructors of their own.
  Expressions are hash-consed by the code, so a pointer to one is the tree itself (theory
  \<open>ExprIntern\<close> justifies this).
\<close>

section \<open>Tristate values\<close>

datatype tristate = tri_no | tri_mod | tri_yes

fun tri_num :: "tristate \<Rightarrow> nat" where
  "tri_num tri_no = 0"
| "tri_num tri_mod = 1"
| "tri_num tri_yes = 2"

lemma tri_num_inj [simp]: "tri_num a = tri_num b \<longleftrightarrow> a = b"
  by (cases a; cases b) simp_all

instantiation tristate :: linorder
begin

definition less_eq_tristate :: "tristate \<Rightarrow> tristate \<Rightarrow> bool" where
  "less_eq_tristate a b \<longleftrightarrow> tri_num a \<le> tri_num b"

definition less_tristate :: "tristate \<Rightarrow> tristate \<Rightarrow> bool" where
  "less_tristate a b \<longleftrightarrow> tri_num a < tri_num b"

instance
  by standard (auto simp: less_eq_tristate_def less_tristate_def dest: antisym)

end

lemma tri_less_simps [simp]:
  "tri_no < b \<longleftrightarrow> b \<noteq> tri_no"
  "\<not> (a::tristate) < tri_no"
  "a < tri_yes \<longleftrightarrow> a \<noteq> tri_yes"
  "\<not> tri_yes < b"
  "tri_mod < b \<longleftrightarrow> b = tri_yes"
  "a < tri_mod \<longleftrightarrow> a = tri_no"
  by (cases a; cases b; simp add: less_tristate_def)+

lemma tri_le_simps [simp]:
  "tri_no \<le> (b::tristate)"
  "(a::tristate) \<le> tri_no \<longleftrightarrow> a = tri_no"
  "(a::tristate) \<le> tri_yes"
  "tri_yes \<le> b \<longleftrightarrow> b = tri_yes"
  "tri_mod \<le> b \<longleftrightarrow> b \<noteq> tri_no"
  "a \<le> tri_mod \<longleftrightarrow> a \<noteq> tri_yes"
  by (cases a; cases b; simp add: less_eq_tristate_def)+

instantiation tristate :: bounded_lattice
begin

definition bot_tristate :: tristate where "bot_tristate = tri_no"
definition top_tristate :: tristate where "top_tristate = tri_yes"
definition inf_tristate :: "tristate \<Rightarrow> tristate \<Rightarrow> tristate" where "inf_tristate = min"
definition sup_tristate :: "tristate \<Rightarrow> tristate \<Rightarrow> tristate" where "sup_tristate = max"

instance
  by standard (auto simp: bot_tristate_def top_tristate_def inf_tristate_def sup_tristate_def)

end

definition EXPR_OR :: "tristate \<Rightarrow> tristate \<Rightarrow> tristate" where
  "EXPR_OR dep1 dep2 = (if dep1 > dep2 then dep1 else dep2)"

definition EXPR_AND :: "tristate \<Rightarrow> tristate \<Rightarrow> tristate" where
  "EXPR_AND dep1 dep2 = (if dep1 < dep2 then dep1 else dep2)"

fun EXPR_NOT :: "tristate \<Rightarrow> tristate" where
  "EXPR_NOT tri_no = tri_yes"
| "EXPR_NOT tri_mod = tri_mod"
| "EXPR_NOT tri_yes = tri_no"

lemma EXPR_OR_max [simp]: "EXPR_OR = max"
  by (auto simp: fun_eq_iff EXPR_OR_def max_def)

lemma EXPR_AND_min [simp]: "EXPR_AND = min"
  by (auto simp: fun_eq_iff EXPR_AND_def min_def)

text \<open>The macro computes \<open>2 - dep\<close> on the enumerators.\<close>

lemma tri_num_EXPR_NOT: "tri_num (EXPR_NOT a) = 2 - tri_num a"
  by (cases a) simp_all

lemma EXPR_NOT_NOT [simp]: "EXPR_NOT (EXPR_NOT a) = a"
  by (cases a) simp_all

lemma EXPR_NOT_max: "EXPR_NOT (max a b) = min (EXPR_NOT a) (EXPR_NOT b)"
  by (cases a; cases b) (simp_all add: max_def min_def)

lemma EXPR_NOT_min: "EXPR_NOT (min a b) = max (EXPR_NOT a) (EXPR_NOT b)"
  by (cases a; cases b) (simp_all add: max_def min_def)

lemma tri_minmax_simps [simp]:
  "min tri_no a = tri_no" "min a tri_no = tri_no" "min tri_yes a = a" "min a tri_yes = a"
  "max tri_no a = a" "max a tri_no = a" "max tri_yes a = tri_yes" "max a tri_yes = tri_yes"
  by (cases a; simp add: min_def max_def)+

section \<open>Identifiers and expressions\<close>

datatype sid = symbol_yes | symbol_mod | symbol_no | Sym nat

datatype mid = rootmenu | Menu nat

type_synonym pid = nat

text \<open>
  The node types of an expression. \<open>E_AND\<close>/\<open>E_OR\<close> and the six comparisons are two families
  with an operator each, because the code computes node types
  (\<open>expr_alloc_two(e->type, \<dots>)\<close>, \<open>expr_alloc_comp(type, \<dots>)\<close>); abbreviations give the
  enumerators of the source. \<open>E_NONE\<close> is never allocated. \<open>E_RANGE\<close> is only built by the
  parser as the expression of a \<open>range\<close> property and is a case of the type of that field.
\<close>

datatype bin_type = T_OR | T_AND

datatype comp_type = T_EQUAL | T_UNEQUAL | T_LTH | T_LEQ | T_GTH | T_GEQ

datatype expr =
    E_SYMBOL sid
  | E_NOT expr
  | E_BIN bin_type expr expr
  | E_COMP comp_type sid sid

abbreviation E_OR :: "expr \<Rightarrow> expr \<Rightarrow> expr" where "E_OR \<equiv> E_BIN T_OR"
abbreviation E_AND :: "expr \<Rightarrow> expr \<Rightarrow> expr" where "E_AND \<equiv> E_BIN T_AND"
abbreviation E_EQUAL :: "sid \<Rightarrow> sid \<Rightarrow> expr" where "E_EQUAL \<equiv> E_COMP T_EQUAL"
abbreviation E_UNEQUAL :: "sid \<Rightarrow> sid \<Rightarrow> expr" where "E_UNEQUAL \<equiv> E_COMP T_UNEQUAL"
abbreviation E_LTH :: "sid \<Rightarrow> sid \<Rightarrow> expr" where "E_LTH \<equiv> E_COMP T_LTH"
abbreviation E_LEQ :: "sid \<Rightarrow> sid \<Rightarrow> expr" where "E_LEQ \<equiv> E_COMP T_LEQ"
abbreviation E_GTH :: "sid \<Rightarrow> sid \<Rightarrow> expr" where "E_GTH \<equiv> E_COMP T_GTH"
abbreviation E_GEQ :: "sid \<Rightarrow> sid \<Rightarrow> expr" where "E_GEQ \<equiv> E_COMP T_GEQ"

fun expr_syms :: "expr \<Rightarrow> sid set" where
  "expr_syms (E_SYMBOL a) = {a}"
| "expr_syms (E_NOT e) = expr_syms e"
| "expr_syms (E_BIN t l r) = expr_syms l \<union> expr_syms r"
| "expr_syms (E_COMP t a b) = {a, b}"

definition oexpr_syms :: "expr option \<Rightarrow> sid set" where
  "oexpr_syms e = (case e of None \<Rightarrow> {} | Some e' \<Rightarrow> expr_syms e')"

lemma oexpr_syms_simps [simp]:
  "oexpr_syms None = {}" "oexpr_syms (Some e) = expr_syms e"
  by (simp_all add: oexpr_syms_def)

section \<open>Symbols, properties and menu entries\<close>

datatype symbol_type = S_UNKNOWN | S_BOOLEAN | S_TRISTATE | S_INT | S_HEX | S_STRING

datatype sdef_index = S_DEF_USER | S_DEF_AUTO | S_DEF_DEF3 | S_DEF_DEF4

text \<open>The bits of \<open>symbol.flags\<close>; \<open>SYMBOL_DEF i\<close> is the bit \<open>SYMBOL_DEF << i\<close>.\<close>

datatype symbol_flag =
    SYMBOL_CONST | SYMBOL_CHECK | SYMBOL_VALID | SYMBOL_TRANS | SYMBOL_WRITE
  | SYMBOL_WRITTEN | SYMBOL_CHECKED | SYMBOL_WARNED | SYMBOL_DEF sdef_index

abbreviation SYMBOL_DEF_USER :: symbol_flag where "SYMBOL_DEF_USER \<equiv> SYMBOL_DEF S_DEF_USER"
abbreviation SYMBOL_DEF_AUTO :: symbol_flag where "SYMBOL_DEF_AUTO \<equiv> SYMBOL_DEF S_DEF_AUTO"

text \<open>
  The string pointers a symbol value can hold: a literal of the program, the name of a symbol
  (\<open>sym->name\<close>) or a heap copy made by \<open>xstrdup\<close>/\<open>xmalloc\<close>, which its address tells from
  every other copy (values are compared as pointers by \<open>memcmp\<close>). \<open>str_of\<close> reads the string;
  reading through \<open>NULL\<close> is undefined in C and gives the empty string here.
\<close>

datatype strptr = NULL | Lit string | SymName sid string | Heap nat string

fun str_of :: "strptr \<Rightarrow> string" where
  "str_of NULL = ''''"
| "str_of (Lit s) = s"
| "str_of (SymName a s) = s"
| "str_of (Heap a s) = s"

record symbol_value =
  val :: strptr
  tri :: tristate

datatype prop_type =
  P_UNKNOWN | P_PROMPT | P_COMMENT | P_MENU | P_DEFAULT | P_SELECT | P_IMPLY | P_RANGE

datatype prop_expr = P_NONE | P_EXPR expr | E_RANGE sid sid

record property =
  p_type :: prop_type
  p_text :: "string option"
  p_visible_expr :: "expr option"
  p_visible_tri :: tristate
  p_expr :: prop_expr
  p_menu :: mid
  p_filename :: string
  p_lineno :: int

record symbol =
  s_name :: "string option"
  s_type :: symbol_type
  curr :: symbol_value
  sdef :: "sdef_index \<Rightarrow> symbol_value"
  visible :: tristate
  s_menus :: "mid list"
  choice_link :: bool
  s_flags :: "symbol_flag set"
  s_prop :: "pid list"
  dir_dep_expr :: "expr option"
  dir_dep_tri :: tristate
  rev_dep_expr :: "expr option"
  rev_dep_tri :: tristate
  implied_expr :: "expr option"
  implied_tri :: tristate

datatype menu_type = M_CHOICE | M_COMMENT | M_IF | M_MENU | M_NORMAL

datatype menu_flag = MENU_CHANGED | MENU_ROOT

record menu =
  m_type :: menu_type
  m_next :: "mid option"
  m_parent :: "mid option"
  m_list :: "mid option"
  m_sym :: "sid option"
  choice_members :: "sid list"
  m_prompt :: "pid option"
  m_visibility :: "expr option"
  m_dep :: "expr option"
  m_flags :: "menu_flag set"
  m_help :: "string option"
  m_filename :: string
  m_lineno :: int

section \<open>The global state\<close>

text \<open>
  \<open>sym_table\<close> is what \<open>for_all_symbols\<close> visits, in its order; theory \<open>HashTable\<close> relates it
  to the buckets. \<open>expr_val\<close> is the cached value of an expression, \<open>None\<close> where
  \<open>val_is_valid\<close> is false. \<open>next_addr\<close> is the address of the next heap string.
\<close>

record kstate =
  syms :: "sid \<Rightarrow> symbol"
  menus :: "mid \<Rightarrow> menu"
  props :: "pid \<Rightarrow> property"
  expr_val :: "expr \<Rightarrow> tristate option"
  sym_table :: "sid list"
  modules_sym :: sid
  modules_val :: tristate
  sym_warnings :: nat
  conf_changed :: bool
  next_addr :: nat
  stderr_out :: string

definition upd_sym :: "sid \<Rightarrow> (symbol \<Rightarrow> symbol) \<Rightarrow> kstate \<Rightarrow> kstate" where
  "upd_sym a f s = s\<lparr>syms := (syms s)(a := f (syms s a))\<rparr>"

definition upd_menu :: "mid \<Rightarrow> (menu \<Rightarrow> menu) \<Rightarrow> kstate \<Rightarrow> kstate" where
  "upd_menu m f s = s\<lparr>menus := (menus s)(m := f (menus s m))\<rparr>"

definition upd_prop :: "pid \<Rightarrow> (property \<Rightarrow> property) \<Rightarrow> kstate \<Rightarrow> kstate" where
  "upd_prop p f s = s\<lparr>props := (props s)(p := f (props s p))\<rparr>"

definition add_flags :: "symbol_flag set \<Rightarrow> symbol \<Rightarrow> symbol" where
  "add_flags F y = y\<lparr>s_flags := s_flags y \<union> F\<rparr>"

definition del_flags :: "symbol_flag set \<Rightarrow> symbol \<Rightarrow> symbol" where
  "del_flags F y = y\<lparr>s_flags := s_flags y - F\<rparr>"

lemma upd_sym_sel [simp]:
  "syms (upd_sym a f s) = (syms s)(a := f (syms s a))"
  "menus (upd_sym a f s) = menus s"
  "props (upd_sym a f s) = props s"
  "expr_val (upd_sym a f s) = expr_val s"
  "sym_table (upd_sym a f s) = sym_table s"
  "modules_sym (upd_sym a f s) = modules_sym s"
  "modules_val (upd_sym a f s) = modules_val s"
  "sym_warnings (upd_sym a f s) = sym_warnings s"
  "conf_changed (upd_sym a f s) = conf_changed s"
  "next_addr (upd_sym a f s) = next_addr s"
  "stderr_out (upd_sym a f s) = stderr_out s"
  by (simp_all add: upd_sym_def)

lemma upd_menu_sel [simp]:
  "syms (upd_menu m g s) = syms s"
  "menus (upd_menu m g s) = (menus s)(m := g (menus s m))"
  "props (upd_menu m g s) = props s"
  "expr_val (upd_menu m g s) = expr_val s"
  "sym_table (upd_menu m g s) = sym_table s"
  "modules_sym (upd_menu m g s) = modules_sym s"
  "modules_val (upd_menu m g s) = modules_val s"
  "sym_warnings (upd_menu m g s) = sym_warnings s"
  "conf_changed (upd_menu m g s) = conf_changed s"
  "next_addr (upd_menu m g s) = next_addr s"
  "stderr_out (upd_menu m g s) = stderr_out s"
  by (simp_all add: upd_menu_def)

lemma upd_prop_sel [simp]:
  "syms (upd_prop p h s) = syms s"
  "menus (upd_prop p h s) = menus s"
  "props (upd_prop p h s) = (props s)(p := h (props s p))"
  "expr_val (upd_prop p h s) = expr_val s"
  "sym_table (upd_prop p h s) = sym_table s"
  "modules_sym (upd_prop p h s) = modules_sym s"
  "modules_val (upd_prop p h s) = modules_val s"
  "sym_warnings (upd_prop p h s) = sym_warnings s"
  "conf_changed (upd_prop p h s) = conf_changed s"
  "next_addr (upd_prop p h s) = next_addr s"
  "stderr_out (upd_prop p h s) = stderr_out s"
  by (simp_all add: upd_prop_def)

lemma flags_sel [simp]:
  "s_flags (add_flags F y) = s_flags y \<union> F"
  "s_flags (del_flags F y) = s_flags y - F"
  by (simp_all add: add_flags_def del_flags_def)

lemma add_flags_frame [simp]:
  "s_name (add_flags F y) = s_name y" "s_type (add_flags F y) = s_type y"
  "curr (add_flags F y) = curr y" "sdef (add_flags F y) = sdef y"
  "visible (add_flags F y) = visible y" "s_menus (add_flags F y) = s_menus y"
  "choice_link (add_flags F y) = choice_link y" "s_prop (add_flags F y) = s_prop y"
  "dir_dep_expr (add_flags F y) = dir_dep_expr y" "dir_dep_tri (add_flags F y) = dir_dep_tri y"
  "rev_dep_expr (add_flags F y) = rev_dep_expr y" "rev_dep_tri (add_flags F y) = rev_dep_tri y"
  "implied_expr (add_flags F y) = implied_expr y" "implied_tri (add_flags F y) = implied_tri y"
  by (simp_all add: add_flags_def)

lemma del_flags_frame [simp]:
  "s_name (del_flags F y) = s_name y" "s_type (del_flags F y) = s_type y"
  "curr (del_flags F y) = curr y" "sdef (del_flags F y) = sdef y"
  "visible (del_flags F y) = visible y" "s_menus (del_flags F y) = s_menus y"
  "choice_link (del_flags F y) = choice_link y" "s_prop (del_flags F y) = s_prop y"
  "dir_dep_expr (del_flags F y) = dir_dep_expr y" "dir_dep_tri (del_flags F y) = dir_dep_tri y"
  "rev_dep_expr (del_flags F y) = rev_dep_expr y" "rev_dep_tri (del_flags F y) = rev_dep_tri y"
  "implied_expr (del_flags F y) = implied_expr y" "implied_tri (del_flags F y) = implied_tri y"
  by (simp_all add: del_flags_def)

text \<open>The inline helpers of \<^verbatim>\<open>lkc.h\<close> and \<^verbatim>\<open>expr.h\<close>.\<close>

definition sym_get_tristate_value :: "symbol \<Rightarrow> tristate" where
  "sym_get_tristate_value y = tri (curr y)"

definition sym_is_choice :: "symbol \<Rightarrow> bool" where
  "sym_is_choice y \<longleftrightarrow> s_name y = None"

definition sym_has_value :: "symbol \<Rightarrow> bool" where
  "sym_has_value y \<longleftrightarrow> SYMBOL_DEF_USER \<in> s_flags y"

definition sym_is_choice_value :: "symbol \<Rightarrow> bool" where
  "sym_is_choice_value y \<longleftrightarrow> choice_link y"

fun expr_is_yes :: "expr option \<Rightarrow> bool" where
  "expr_is_yes None = True"
| "expr_is_yes (Some e) = (e = E_SYMBOL symbol_yes)"

end
