(* ===== verification/ExprSimp.thy ===== *)
theory ExprSimp
  imports Kdata
begin

text \<open>
  The expression simplifier of \<^verbatim>\<open>parser/expr.c\<close>, as total functions on expression trees:
  constructors that absorb \<open>NULL\<close>, elimination of constants, comparison up to reordering,
  elimination of common operands, joining of redundant operands and the rewriting of
  negations and comparisons. Where the code reads \<open>sym->type\<close> or the \<open>SYMBOL_CONST\<close> bit the
  functions take the symbol map \<open>sy\<close>. The recursions are the ones of the code, with their
  termination proved here; what the functions preserve is in theory \<open>ExprSem\<close>.
\<close>

section \<open>Constructors\<close>

definition expr_alloc_symbol :: "sid \<Rightarrow> expr" where
  "expr_alloc_symbol a = E_SYMBOL a"

definition expr_alloc_and :: "expr option \<Rightarrow> expr option \<Rightarrow> expr option" where
  "expr_alloc_and e1 e2 =
     (case e1 of None \<Rightarrow> e2
      | Some a \<Rightarrow> (case e2 of None \<Rightarrow> e1 | Some b \<Rightarrow> Some (E_AND a b)))"

definition expr_alloc_or :: "expr option \<Rightarrow> expr option \<Rightarrow> expr option" where
  "expr_alloc_or e1 e2 =
     (case e1 of None \<Rightarrow> e2
      | Some a \<Rightarrow> (case e2 of None \<Rightarrow> e1 | Some b \<Rightarrow> Some (E_OR a b)))"

section \<open>Sizes and constants\<close>

fun expr_size :: "expr \<Rightarrow> nat" where
  "expr_size (E_SYMBOL a) = 1"
| "expr_size (E_NOT e) = Suc (expr_size e)"
| "expr_size (E_BIN t l r) = Suc (expr_size l + expr_size r)"
| "expr_size (E_COMP t a b) = 1"

lemma expr_size_pos [simp]: "0 < expr_size e"
  by (induction e) simp_all

lemma expr_size_ge1: "Suc 0 \<le> expr_size e"
  by (simp add: Suc_le_eq)

text \<open>The operands of a node of the given type.\<close>

fun as_bin :: "bin_type \<Rightarrow> expr \<Rightarrow> (expr \<times> expr) option" where
  "as_bin ty (E_BIN t l r) = (if t = ty then Some (l, r) else None)"
| "as_bin ty e = None"

lemma as_bin_SomeD: "as_bin ty e = Some (l, r) \<Longrightarrow> e = E_BIN ty l r"
  by (cases "(ty, e)" rule: as_bin.cases) (auto split: if_splits)

lemma as_bin_size: "as_bin ty e = Some (l, r) \<Longrightarrow> expr_size e = Suc (expr_size l + expr_size r)"
  by (auto dest: as_bin_SomeD)

text \<open>The constant that is neutral for an operator: what an eliminated operand becomes.\<close>

fun neutral :: "bin_type \<Rightarrow> expr" where
  "neutral T_OR = E_SYMBOL symbol_no"
| "neutral T_AND = E_SYMBOL symbol_yes"

lemma expr_size_neutral [simp]: "expr_size (neutral t) = 1"
  by (cases t) simp_all

definition is_yn :: "expr \<Rightarrow> bool" where
  "is_yn e \<longleftrightarrow> e = E_SYMBOL symbol_yes \<or> e = E_SYMBOL symbol_no"

section \<open>Elimination of constants\<close>

text \<open>
  Only a constant at the top of an operand (after the operand was simplified) is removed; when
  neither operand is a constant the original node is returned, not the simplified operands.
\<close>

fun expr_eliminate_yn :: "expr \<Rightarrow> expr" where
  "expr_eliminate_yn (E_BIN T_AND l0 r0) =
     (let l = expr_eliminate_yn l0; r = expr_eliminate_yn r0 in
      if l = E_SYMBOL symbol_no then l
      else if l = E_SYMBOL symbol_yes then r
      else if r = E_SYMBOL symbol_no then r
      else if r = E_SYMBOL symbol_yes then l
      else E_BIN T_AND l0 r0)"
| "expr_eliminate_yn (E_BIN T_OR l0 r0) =
     (let l = expr_eliminate_yn l0; r = expr_eliminate_yn r0 in
      if l = E_SYMBOL symbol_no then r
      else if l = E_SYMBOL symbol_yes then l
      else if r = E_SYMBOL symbol_no then l
      else if r = E_SYMBOL symbol_yes then r
      else E_BIN T_OR l0 r0)"
| "expr_eliminate_yn e = e"

lemma expr_eliminate_yn_size: "expr_size (expr_eliminate_yn e) \<le> expr_size e"
  by (induction e rule: expr_eliminate_yn.induct) (auto simp: Let_def)

section \<open>Equality up to reordering, and elimination of common operands\<close>

text \<open>
  \<open>expr_eq_node\<close> is \<open>expr_eq\<close> on two non-null expressions and \<open>expr_eliminate_eq_leaves\<close> is
  \<open>__expr_eliminate_eq\<close>; the counter is \<open>trans_count\<close>, which \<open>expr_eq\<close> saves and restores.
  For two nodes of the same type, \<open>expr_eliminate_eq\<close> runs one elimination pass and then
  \<open>expr_eliminate_yn\<close> on both; the equation of \<open>expr_eq_node\<close> has that inlined, and
  \<open>expr_eq_node_bin\<close> below gives it as the code has it.
\<close>

function (sequential) expr_eq_node :: "expr \<Rightarrow> expr \<Rightarrow> bool"
  and expr_eliminate_eq_leaves ::
    "bin_type \<Rightarrow> expr \<Rightarrow> expr \<Rightarrow> nat \<Rightarrow> expr \<times> expr \<times> nat" where
  "expr_eq_node (E_COMP t a b) (E_COMP t' c d) = (t = t' \<and> a = c \<and> b = d)"
| "expr_eq_node (E_SYMBOL a) (E_SYMBOL b) = (a = b)"
| "expr_eq_node (E_NOT a) (E_NOT b) = expr_eq_node a b"
| "expr_eq_node (E_BIN t a b) (E_BIN t' c d) =
     (if t = t' then
        (case expr_eliminate_eq_leaves t (E_BIN t a b) (E_BIN t c d) 0 of
           (e1, e2, n) \<Rightarrow>
             (case (expr_eliminate_yn e1, expr_eliminate_yn e2) of
                (E_SYMBOL p, E_SYMBOL q) \<Rightarrow> p = q
              | _ \<Rightarrow> False))
      else False)"
| "expr_eq_node e1 e2 = False"
| "expr_eliminate_eq_leaves ty e1 e2 n =
     (case as_bin ty e1 of
        Some (l, r) \<Rightarrow>
          (case expr_eliminate_eq_leaves ty l e2 n of
             (l', e2', n1) \<Rightarrow>
               (case expr_eliminate_eq_leaves ty r e2' n1 of
                  (r', e2'', n2) \<Rightarrow> (E_BIN ty l' r', e2'', n2)))
      | None \<Rightarrow>
          (case as_bin ty e2 of
             Some (l, r) \<Rightarrow>
               (case expr_eliminate_eq_leaves ty e1 l n of
                  (e1', l', n1) \<Rightarrow>
                    (case expr_eliminate_eq_leaves ty e1' r n1 of
                       (e1'', r', n2) \<Rightarrow> (e1'', E_BIN ty l' r', n2)))
           | None \<Rightarrow>
               (if e1 = e2 \<and> (e1 = E_SYMBOL symbol_yes \<or> e1 = E_SYMBOL symbol_no) then (e1, e2, n)
                else if \<not> expr_eq_node e1 e2 then (e1, e2, n)
                else (neutral ty, neutral ty, Suc n))))"
  by pat_completeness auto

text \<open>One elimination pass makes neither expression larger (for the termination proof).\<close>

lemma expr_eliminate_eq_leaves_size_dom:
  "expr_eq_node_expr_eliminate_eq_leaves_dom (Inl (a, b)) \<Longrightarrow> True"
  "expr_eq_node_expr_eliminate_eq_leaves_dom (Inr (ty, e1, e2, n)) \<Longrightarrow>
   expr_size (fst (expr_eliminate_eq_leaves ty e1 e2 n)) \<le> expr_size e1
   \<and> expr_size (fst (snd (expr_eliminate_eq_leaves ty e1 e2 n))) \<le> expr_size e2"
proof (induction a b and ty e1 e2 n rule: expr_eq_node_expr_eliminate_eq_leaves.pinduct)
  case (6 ty e1 e2 n)
  note ps = expr_eliminate_eq_leaves.psimps [OF "6.hyps"]
  show ?case
  proof (cases "as_bin ty e1")
    case (Some lr)
    obtain l r where lr: "lr = (l, r)" by (cases lr)
    obtain l' e2' n1 where 1: "expr_eliminate_eq_leaves ty l e2 n = (l', e2', n1)"
      by (metis prod_cases3)
    obtain r' e2'' n2 where 2: "expr_eliminate_eq_leaves ty r e2' n1 = (r', e2'', n2)"
      by (metis prod_cases3)
    from Some lr have "expr_size e1 = Suc (expr_size l + expr_size r)" by (simp add: as_bin_size)
    moreover from "6.IH"(4) [OF Some lr [symmetric]] 1
    have "expr_size l' \<le> expr_size l \<and> expr_size e2' \<le> expr_size e2" by simp
    moreover from "6.IH"(5) [OF Some lr [symmetric]] 1 2
    have "expr_size r' \<le> expr_size r \<and> expr_size e2'' \<le> expr_size e2'" by fastforce
    ultimately show ?thesis
      using Some lr 1 2 by (simp add: ps)
  next
    case e1: None
    show ?thesis
    proof (cases "as_bin ty e2")
      case (Some lr)
      obtain l r where lr: "lr = (l, r)" by (cases lr)
      obtain e1' l' n1 where 1: "expr_eliminate_eq_leaves ty e1 l n = (e1', l', n1)"
        by (metis prod_cases3)
      obtain e1'' r' n2 where 2: "expr_eliminate_eq_leaves ty e1' r n1 = (e1'', r', n2)"
        by (metis prod_cases3)
      from Some lr have "expr_size e2 = Suc (expr_size l + expr_size r)" by (simp add: as_bin_size)
      moreover from "6.IH"(2) [OF e1 Some lr [symmetric]] 1
      have "expr_size e1' \<le> expr_size e1 \<and> expr_size l' \<le> expr_size l" by simp
      moreover from "6.IH"(3) [OF e1 Some lr [symmetric]] 1 2
      have "expr_size e1'' \<le> expr_size e1' \<and> expr_size r' \<le> expr_size r" by fastforce
      ultimately show ?thesis
        using e1 Some lr 1 2 by (simp add: ps)
    next
      case None
      with e1 show ?thesis by (simp add: ps expr_size_ge1)
    qed
  qed
qed simp_all

lemma expr_eliminate_eq_leaves_sizeD:
  assumes "expr_eq_node_expr_eliminate_eq_leaves_dom (Inr (ty, e1, e2, n))"
    and "(x, y, m) = expr_eliminate_eq_leaves ty e1 e2 n"
  shows "expr_size x \<le> expr_size e1" and "expr_size y \<le> expr_size e2"
  using expr_eliminate_eq_leaves_size_dom(2) [OF assms(1)] assms(2) [symmetric] by simp_all

termination expr_eq_node
  by (relation "measure (\<lambda>x. case x of
      Inl (e1, e2) \<Rightarrow> 3 * (expr_size e1 + expr_size e2) + 1
    | Inr (ty, e1, e2, n) \<Rightarrow> 3 * (expr_size e1 + expr_size e2)
        + (if as_bin ty e1 = None \<and> as_bin ty e2 = None then 2 else 0))")
     (auto dest!: as_bin_size dest: expr_eliminate_eq_leaves_sizeD)

declare expr_eliminate_eq_leaves.simps [simp del]

text \<open>
  \<open>expr_eliminate_eq\<close> on two non-null expressions: a pass for the type of the first, a second
  one for the type of the other if the types then differ, and the constants away.
\<close>

fun same_type :: "expr \<Rightarrow> expr \<Rightarrow> bool" where
  "same_type (E_SYMBOL a) (E_SYMBOL b) = True"
| "same_type (E_NOT a) (E_NOT b) = True"
| "same_type (E_BIN t a b) (E_BIN t' c d) = (t = t')"
| "same_type (E_COMP t a b) (E_COMP t' c d) = (t = t')"
| "same_type e1 e2 = False"

definition expr_eliminate_eq_node :: "expr \<Rightarrow> expr \<Rightarrow> nat \<Rightarrow> expr \<times> expr \<times> nat" where
  "expr_eliminate_eq_node e1 e2 n =
     (case (case e1 of
              E_BIN t l r \<Rightarrow> expr_eliminate_eq_leaves t e1 e2 n
            | _ \<Rightarrow> (e1, e2, n)) of
        (a, b, n1) \<Rightarrow>
          (case (if same_type a b then (a, b, n1)
                 else (case b of
                         E_BIN t l r \<Rightarrow> expr_eliminate_eq_leaves t a b n1
                       | _ \<Rightarrow> (a, b, n1))) of
             (a', b', n2) \<Rightarrow> (expr_eliminate_yn a', expr_eliminate_yn b', n2)))"

definition expr_eliminate_eq ::
    "expr option \<Rightarrow> expr option \<Rightarrow> nat \<Rightarrow> expr option \<times> expr option \<times> nat" where
  "expr_eliminate_eq ep1 ep2 n =
     (case (ep1, ep2) of
        (Some e1, Some e2) \<Rightarrow>
          (case expr_eliminate_eq_node e1 e2 n of (a, b, m) \<Rightarrow> (Some a, Some b, m))
      | _ \<Rightarrow> (ep1, ep2, n))"

definition expr_eq :: "expr option \<Rightarrow> expr option \<Rightarrow> bool" where
  "expr_eq e1 e2 =
     (case (e1, e2) of
        (Some a, Some b) \<Rightarrow> expr_eq_node a b
      | _ \<Rightarrow> expr_is_yes e1 \<and> expr_is_yes e2)"

lemma expr_eliminate_eq_leaves_bin:
  "expr_eliminate_eq_leaves t (E_BIN t l r) e2 n =
     (case expr_eliminate_eq_leaves t l e2 n of
        (l', e2', n1) \<Rightarrow>
          (case expr_eliminate_eq_leaves t r e2' n1 of (r', e2'', n2) \<Rightarrow> (E_BIN t l' r', e2'', n2)))"
  by (simp add: expr_eliminate_eq_leaves.simps [of t "E_BIN t l r"])

lemma expr_eliminate_eq_leaves_leaf:
  "as_bin ty e1 = None \<Longrightarrow> as_bin ty e2 = None \<Longrightarrow>
   expr_eliminate_eq_leaves ty e1 e2 n =
     (if e1 = e2 \<and> (e1 = E_SYMBOL symbol_yes \<or> e1 = E_SYMBOL symbol_no) then (e1, e2, n)
      else if \<not> expr_eq_node e1 e2 then (e1, e2, n)
      else (neutral ty, neutral ty, Suc n))"
  by (simp add: expr_eliminate_eq_leaves.simps [of ty e1 e2])

lemma expr_eliminate_eq_leaves_leaf_bin:
  "as_bin ty e1 = None \<Longrightarrow> as_bin ty e2 = Some (l, r) \<Longrightarrow>
   expr_eliminate_eq_leaves ty e1 e2 n =
     (case expr_eliminate_eq_leaves ty e1 l n of
        (e1', l', n1) \<Rightarrow>
          (case expr_eliminate_eq_leaves ty e1' r n1 of
             (e1'', r', n2) \<Rightarrow> (e1'', E_BIN ty l' r', n2)))"
  by (simp add: expr_eliminate_eq_leaves.simps [of ty e1 e2])

text \<open>
  A pass over an expression of the type keeps its type, and so keeps the type of the second
  expression when that has the same type. Hence the second pass of \<open>expr_eliminate_eq\<close> does not
  run on two nodes of one type, which is what the inlined equation of \<open>expr_eq_node\<close> assumes.
\<close>

lemma pass_keeps_type:
  "expr_eliminate_eq_leaves t e1 (E_BIN t c d) n = (x, y, m) \<Longrightarrow> \<exists>c' d'. y = E_BIN t c' d'"
proof (induction e1 arbitrary: n x y m c d)
  case (E_BIN t' l r)
  show ?case
  proof (cases "t' = t")
    case True
    obtain l' e2' n1 where 1: "expr_eliminate_eq_leaves t l (E_BIN t c d) n = (l', e2', n1)"
      by (metis prod_cases3)
    obtain r' e2'' n2 where 2: "expr_eliminate_eq_leaves t r e2' n1 = (r', e2'', n2)"
      by (metis prod_cases3)
    from E_BIN.IH(1) [OF 1] obtain c1 d1 where "e2' = E_BIN t c1 d1" by blast
    with E_BIN.IH(2) 2 have "\<exists>c' d'. e2'' = E_BIN t c' d'" by blast
    moreover have "y = e2''"
      using E_BIN.prems True 1 2 by (simp add: expr_eliminate_eq_leaves_bin)
    ultimately show ?thesis by simp
  next
    case False
    with E_BIN.prems show ?thesis
      by (auto simp: expr_eliminate_eq_leaves_leaf_bin split: prod.splits)
  qed
qed (auto simp: expr_eliminate_eq_leaves_leaf_bin split: prod.splits)

lemma expr_eq_node_bin:
  "expr_eq_node (E_BIN t a b) (E_BIN t c d) \<longleftrightarrow>
     (case expr_eliminate_eq_node (E_BIN t a b) (E_BIN t c d) 0 of
        (e1, e2, n) \<Rightarrow> (\<exists>s. e1 = E_SYMBOL s \<and> e2 = E_SYMBOL s))"
proof -
  obtain x y m where p: "expr_eliminate_eq_leaves t (E_BIN t a b) (E_BIN t c d) 0 = (x, y, m)"
    by (metis prod_cases3)
  then obtain c' d' where y: "y = E_BIN t c' d'" using pass_keeps_type by blast
  from p obtain a' b' where "x = E_BIN t a' b'"
    by (auto simp: expr_eliminate_eq_leaves_bin split: prod.splits)
  with p y show ?thesis
    by (auto simp: expr_eliminate_eq_node_def split: expr.split)
qed

section \<open>Joining redundant operands\<close>

text \<open>
  The operand shapes \<open>expr_join_or\<close> and \<open>expr_join_and\<close> look at, and the symbol each operand
  is about (\<open>sym1\<close>, \<open>sym2\<close>): the second operand may be negated only in front of a symbol.
\<close>

fun join_shape :: "expr \<Rightarrow> bool" where
  "join_shape (E_COMP T_EQUAL a b) = True"
| "join_shape (E_COMP T_UNEQUAL a b) = True"
| "join_shape (E_SYMBOL a) = True"
| "join_shape (E_NOT e) = True"
| "join_shape e = False"

fun join_sym1 :: "expr \<Rightarrow> sid option" where
  "join_sym1 (E_NOT (E_COMP T_EQUAL a b)) = Some a"
| "join_sym1 (E_NOT (E_COMP T_UNEQUAL a b)) = Some a"
| "join_sym1 (E_NOT (E_SYMBOL a)) = Some a"
| "join_sym1 (E_COMP t a b) = Some a"
| "join_sym1 (E_SYMBOL a) = Some a"
| "join_sym1 e = None"

fun join_sym2 :: "expr \<Rightarrow> sid option" where
  "join_sym2 (E_NOT (E_SYMBOL a)) = Some a"
| "join_sym2 (E_COMP t a b) = Some a"
| "join_sym2 (E_SYMBOL a) = Some a"
| "join_sym2 e = None"

definition join_sym :: "(sid \<Rightarrow> symbol) \<Rightarrow> expr \<Rightarrow> expr \<Rightarrow> sid option" where
  "join_sym sy e1 e2 =
     (if \<not> join_shape e1 then None
      else if \<not> join_shape e2 then None
      else (case (join_sym1 e1, join_sym2 e2) of
              (Some sym1, Some sym2) \<Rightarrow>
                (if sym1 \<noteq> sym2 then None
                 else if s_type (sy sym1) \<noteq> S_BOOLEAN \<and> s_type (sy sym1) \<noteq> S_TRISTATE then None
                 else Some sym1)
            | _ \<Rightarrow> None))"

text \<open>Both orders of a pair of operands.\<close>

definition pair_of :: "expr \<Rightarrow> expr \<Rightarrow> expr \<Rightarrow> expr \<Rightarrow> bool" where
  "pair_of a b e1 e2 \<longleftrightarrow> (e1 = a \<and> e2 = b) \<or> (e1 = b \<and> e2 = a)"

definition expr_join_or :: "(sid \<Rightarrow> symbol) \<Rightarrow> expr \<Rightarrow> expr \<Rightarrow> expr option" where
  "expr_join_or sy e1 e2 =
     (if expr_eq_node e1 e2 then Some e1
      else (case join_sym sy e1 e2 of
              None \<Rightarrow> None
            | Some a \<Rightarrow>
                (if s_type (sy a) = S_TRISTATE \<and> pair_of (E_EQUAL a symbol_yes) (E_EQUAL a symbol_mod) e1 e2
                   then Some (E_UNEQUAL a symbol_no)
                 else if s_type (sy a) = S_TRISTATE \<and> pair_of (E_EQUAL a symbol_yes) (E_EQUAL a symbol_no) e1 e2
                   then Some (E_UNEQUAL a symbol_mod)
                 else if s_type (sy a) = S_TRISTATE \<and> pair_of (E_EQUAL a symbol_mod) (E_EQUAL a symbol_no) e1 e2
                   then Some (E_UNEQUAL a symbol_yes)
                 else if s_type (sy a) = S_BOOLEAN \<and> pair_of (E_NOT (E_SYMBOL a)) (E_SYMBOL a) e1 e2
                   then Some (expr_alloc_symbol symbol_yes)
                 else None)))"

definition is_const :: "(sid \<Rightarrow> symbol) \<Rightarrow> sid \<Rightarrow> bool" where
  "is_const sy a \<longleftrightarrow> SYMBOL_CONST \<in> s_flags (sy a)"

fun join_and_equal_unequal :: "(sid \<Rightarrow> symbol) \<Rightarrow> sid \<Rightarrow> expr \<Rightarrow> expr \<Rightarrow> expr option" where
  "join_and_equal_unequal sy a (E_COMP T_EQUAL _ b) (E_COMP T_UNEQUAL _ c) =
     (if is_const sy c \<and> is_const sy b
      then Some (if b \<noteq> c then E_EQUAL a b else expr_alloc_symbol symbol_no) else None)"
| "join_and_equal_unequal sy a (E_COMP T_UNEQUAL _ c) (E_COMP T_EQUAL _ b) =
     (if is_const sy c \<and> is_const sy b
      then Some (if b \<noteq> c then E_EQUAL a b else expr_alloc_symbol symbol_no) else None)"
| "join_and_equal_unequal sy a e1 e2 = None"

definition expr_join_and :: "(sid \<Rightarrow> symbol) \<Rightarrow> expr \<Rightarrow> expr \<Rightarrow> expr option" where
  "expr_join_and sy e1 e2 =
     (if expr_eq_node e1 e2 then Some e1
      else (case join_sym sy e1 e2 of
              None \<Rightarrow> None
            | Some a \<Rightarrow>
                (if pair_of (E_SYMBOL a) (E_EQUAL a symbol_yes) e1 e2
                   then Some (E_EQUAL a symbol_yes)
                 else if pair_of (E_SYMBOL a) (E_UNEQUAL a symbol_no) e1 e2
                   then Some (expr_alloc_symbol a)
                 else if pair_of (E_SYMBOL a) (E_UNEQUAL a symbol_mod) e1 e2
                   then Some (E_EQUAL a symbol_yes)
                 else if s_type (sy a) \<noteq> S_TRISTATE then None
                 else (case join_and_equal_unequal sy a e1 e2 of
                         Some e \<Rightarrow> Some e
                       | None \<Rightarrow>
                           (if pair_of (E_UNEQUAL a symbol_yes) (E_UNEQUAL a symbol_no) e1 e2
                              then Some (E_EQUAL a symbol_mod)
                            else if pair_of (E_UNEQUAL a symbol_yes) (E_UNEQUAL a symbol_mod) e1 e2
                              then Some (E_EQUAL a symbol_no)
                            else if pair_of (E_UNEQUAL a symbol_mod) (E_UNEQUAL a symbol_no) e1 e2
                              then Some (E_EQUAL a symbol_yes)
                            else None)))))"

definition expr_join :: "(sid \<Rightarrow> symbol) \<Rightarrow> bin_type \<Rightarrow> expr \<Rightarrow> expr \<Rightarrow> expr option" where
  "expr_join sy ty e1 e2 =
     (case ty of T_OR \<Rightarrow> expr_join_or sy e1 e2 | T_AND \<Rightarrow> expr_join_and sy e1 e2)"

section \<open>Removal of duplicate operands\<close>

text \<open>
  How many leaves of the \<open>&&\<close>/\<open>||\<close> structure are not one of the constants \<open>y\<close>, \<open>n\<close>. A
  negation or a comparison is one leaf.
\<close>

fun atoms :: "expr \<Rightarrow> nat" where
  "atoms (E_SYMBOL a) = (if a = symbol_yes \<or> a = symbol_no then 0 else 1)"
| "atoms (E_NOT e) = 1"
| "atoms (E_COMP t a b) = 1"
| "atoms (E_BIN t l r) = atoms l + atoms r"

lemma atoms_neutral [simp]: "atoms (neutral t) = 0"
  by (cases t) simp_all

lemma atoms_yn: "atoms (expr_eliminate_yn e) \<le> atoms e"
  by (induction e rule: expr_eliminate_yn.induct) (auto simp: Let_def)

lemma join_sym_SomeD:
  assumes "join_sym sy e1 e2 = Some a"
  shows "join_shape e1" "join_shape e2" "join_sym1 e1 = Some a" "join_sym2 e2 = Some a"
    "s_type (sy a) = S_BOOLEAN \<or> s_type (sy a) = S_TRISTATE"
  using assms by (auto simp: join_sym_def split: if_splits option.splits)

lemma join_and_equal_unequal_SomeD:
  "join_and_equal_unequal sy a e1 e2 = Some t \<Longrightarrow>
     expr_size t = 1 \<and> atoms t \<le> 1 \<and> atoms e1 = 1 \<and> atoms e2 = 1"
  by (induction sy a e1 e2 rule: join_and_equal_unequal.induct)
     (auto simp: expr_alloc_symbol_def split: if_splits)

text \<open>A join returns the first operand, when the two are equal, or one new leaf.\<close>

lemma expr_join_cases:
  assumes "expr_join sy ty e1 e2 = Some t"
  obtains "expr_eq_node e1 e2" "t = e1"
  | a where "\<not> expr_eq_node e1 e2" "join_sym sy e1 e2 = Some a" "expr_size t = 1"
proof (cases "expr_eq_node e1 e2")
  case True
  with assms have "t = e1" by (cases ty) (auto simp: expr_join_def expr_join_or_def expr_join_and_def)
  with True that show ?thesis by blast
next
  case False
  with assms obtain a where a: "join_sym sy e1 e2 = Some a"
    by (cases ty) (auto simp: expr_join_def expr_join_or_def expr_join_and_def split: option.splits)
  moreover from assms False have "expr_size t = 1"
    by (cases ty)
       (auto simp: expr_join_def expr_join_or_def expr_join_and_def expr_alloc_symbol_def
         dest: join_and_equal_unequal_SomeD split: option.splits if_splits)
  ultimately show ?thesis using False that by blast
qed

lemma expr_join_size:
  assumes "expr_join sy ty e1 e2 = Some t"
  shows "Suc (expr_size t) \<le> expr_size e1 + expr_size e2"
  using assms expr_size_ge1 [of e1] expr_size_ge1 [of e2] by (cases rule: expr_join_cases) simp_all

text \<open>Leaves added by a join: none, and one fewer when both operands are no constants.\<close>

lemma expr_eq_node_yn: "expr_eq_node e1 e2 \<Longrightarrow> is_yn e2 \<Longrightarrow> e1 = e2"
  by (cases e1) (auto simp: is_yn_def)

lemma atoms_le_size: "atoms e \<le> expr_size e"
  by (induction e) auto

lemma atoms_0_join_shape:
  "join_shape e \<Longrightarrow> atoms e = 0 \<Longrightarrow> join_sym1 e = Some a \<or> join_sym2 e = Some a \<Longrightarrow> e = E_SYMBOL a"
  by (cases e rule: join_shape.cases) (auto split: if_splits)

lemma expr_join_atoms:
  assumes j: "expr_join sy ty e1 e2 = Some t"
  shows "atoms t \<le> atoms e1 + atoms e2"
    and "0 < atoms e1 \<Longrightarrow> 0 < atoms e2 \<Longrightarrow> atoms t < atoms e1 + atoms e2"
proof -
  have "atoms t \<le> atoms e1 + atoms e2 \<and>
      (0 < atoms e1 \<longrightarrow> 0 < atoms e2 \<longrightarrow> atoms t < atoms e1 + atoms e2)"
    using j
  proof (cases rule: expr_join_cases)
    case (2 a)
    have "0 < atoms e1 + atoms e2"
    proof (rule ccontr)
      assume "\<not> 0 < atoms e1 + atoms e2"
      with join_sym_SomeD [OF 2(2)] have "e1 = E_SYMBOL a" and "e2 = E_SYMBOL a"
        by (auto intro: atoms_0_join_shape)
      with 2(1) show False by simp
    qed
    with 2(3) atoms_le_size [of t] show ?thesis by linarith
  qed simp
  then show "atoms t \<le> atoms e1 + atoms e2"
    and "0 < atoms e1 \<Longrightarrow> 0 < atoms e2 \<Longrightarrow> atoms t < atoms e1 + atoms e2"
    by blast+
qed

text \<open>
  \<open>expr_eliminate_dups1\<close>: every leaf of one operand against every leaf of the other; the
  counter is \<open>trans_count\<close>.
\<close>

function expr_eliminate_dups1 ::
    "(sid \<Rightarrow> symbol) \<Rightarrow> bin_type \<Rightarrow> expr \<Rightarrow> expr \<Rightarrow> nat \<Rightarrow> expr \<times> expr \<times> nat" where
  "expr_eliminate_dups1 sy ty e1 e2 n =
     (case as_bin ty e1 of
        Some (l, r) \<Rightarrow>
          (case expr_eliminate_dups1 sy ty l e2 n of
             (l', e2', n1) \<Rightarrow>
               (case expr_eliminate_dups1 sy ty r e2' n1 of
                  (r', e2'', n2) \<Rightarrow> (E_BIN ty l' r', e2'', n2)))
      | None \<Rightarrow>
          (case as_bin ty e2 of
             Some (l, r) \<Rightarrow>
               (case expr_eliminate_dups1 sy ty e1 l n of
                  (e1', l', n1) \<Rightarrow>
                    (case expr_eliminate_dups1 sy ty e1' r n1 of
                       (e1'', r', n2) \<Rightarrow> (e1'', E_BIN ty l' r', n2)))
           | None \<Rightarrow>
               (case expr_join sy ty e1 e2 of
                  None \<Rightarrow> (e1, e2, n)
                | Some t \<Rightarrow> (neutral ty, t, Suc n))))"
  by pat_completeness auto

lemma expr_eliminate_dups1_size_dom:
  "expr_eliminate_dups1_dom (sy, ty, e1, e2, n) \<Longrightarrow>
   expr_eliminate_dups1 sy ty e1 e2 n = (x, y, m) \<Longrightarrow>
   expr_size x + expr_size y \<le> expr_size e1 + expr_size e2"
proof (induction sy ty e1 e2 n arbitrary: x y m rule: expr_eliminate_dups1.pinduct)
  case (1 sy ty e1 e2 n)
  note ps = expr_eliminate_dups1.psimps [OF "1.hyps"]
  show ?case
  proof (cases "as_bin ty e1")
    case (Some lr)
    obtain l r where lr: "lr = (l, r)" by (cases lr)
    obtain l' e2' n1 where 1: "expr_eliminate_dups1 sy ty l e2 n = (l', e2', n1)"
      by (metis prod_cases3)
    obtain r' e2'' n2 where 2: "expr_eliminate_dups1 sy ty r e2' n1 = (r', e2'', n2)"
      by (metis prod_cases3)
    have "expr_size l' + expr_size e2' \<le> expr_size l + expr_size e2"
      using "1.IH" Some lr 1 by fastforce
    moreover have "expr_size r' + expr_size e2'' \<le> expr_size r + expr_size e2'"
      using "1.IH" Some lr 1 2 by fastforce
    ultimately show ?thesis
      using "1.prems" Some lr 1 2 by (auto simp: ps dest: as_bin_size)
  next
    case e1: None
    show ?thesis
    proof (cases "as_bin ty e2")
      case (Some lr)
      obtain l r where lr: "lr = (l, r)" by (cases lr)
      obtain e1' l' n1 where 1: "expr_eliminate_dups1 sy ty e1 l n = (e1', l', n1)"
        by (metis prod_cases3)
      obtain e1'' r' n2 where 2: "expr_eliminate_dups1 sy ty e1' r n1 = (e1'', r', n2)"
        by (metis prod_cases3)
      have "expr_size e1' + expr_size l' \<le> expr_size e1 + expr_size l"
        using "1.IH" e1 Some lr 1 by fastforce
      moreover have "expr_size e1'' + expr_size r' \<le> expr_size e1' + expr_size r"
        using "1.IH" e1 Some lr 1 2 by fastforce
      ultimately show ?thesis
        using "1.prems" e1 Some lr 1 2 by (auto simp: ps dest: as_bin_size)
    next
      case None
      with e1 "1.prems" show ?thesis
        by (auto simp: ps dest: expr_join_size split: option.splits)
    qed
  qed
qed

lemma expr_eliminate_dups1_sizeD:
  "expr_eliminate_dups1_dom (sy, ty, e1, e2, n) \<Longrightarrow>
   (x, y, m) = expr_eliminate_dups1 sy ty e1 e2 n \<Longrightarrow>
   expr_size x + expr_size y \<le> expr_size e1 + expr_size e2"
  by (rule expr_eliminate_dups1_size_dom [OF _ sym])

lemma size_sum_step: "a + b \<le> l + (c::nat) \<Longrightarrow> 0 < a \<Longrightarrow> r + b < Suc (l + r + c)"
  by simp

termination expr_eliminate_dups1
  by (relation "measure (\<lambda>(sy, ty, e1, e2, n). expr_size e1 + expr_size e2)")
     (auto dest!: as_bin_size expr_eliminate_dups1_sizeD)

declare expr_eliminate_dups1.simps [simp del]

section \<open>Passes over pairs of leaves\<close>

text \<open>
  Both \<open>expr_eliminate_eq_leaves\<close> and \<open>expr_eliminate_dups1\<close> walk all pairs of leaves of two
  expressions and replace the pair in place; they differ in what they do to a pair. \<open>pass\<close>
  records such a walk as a relation, so that facts about both follow by one rule induction.
\<close>

inductive pass ::
    "bin_type \<Rightarrow> (expr \<Rightarrow> expr \<Rightarrow> nat \<Rightarrow> expr \<Rightarrow> expr \<Rightarrow> nat \<Rightarrow> bool) \<Rightarrow>
     expr \<Rightarrow> expr \<Rightarrow> nat \<Rightarrow> expr \<Rightarrow> expr \<Rightarrow> nat \<Rightarrow> bool"
  for ty :: bin_type and R :: "expr \<Rightarrow> expr \<Rightarrow> nat \<Rightarrow> expr \<Rightarrow> expr \<Rightarrow> nat \<Rightarrow> bool"
where
  bin1: "pass ty R l e2 n l' e2' n1 \<Longrightarrow> pass ty R r e2' n1 r' e2'' n2 \<Longrightarrow>
     pass ty R (E_BIN ty l r) e2 n (E_BIN ty l' r') e2'' n2"
| bin2: "as_bin ty e1 = None \<Longrightarrow> pass ty R e1 l n e1' l' n1 \<Longrightarrow> pass ty R e1' r n1 e1'' r' n2 \<Longrightarrow>
     pass ty R e1 (E_BIN ty l r) n e1'' (E_BIN ty l' r') n2"
| leaf: "as_bin ty e1 = None \<Longrightarrow> as_bin ty e2 = None \<Longrightarrow> R e1 e2 n x y m \<Longrightarrow>
     pass ty R e1 e2 n x y m"

definition eq_leaf :: "bin_type \<Rightarrow> expr \<Rightarrow> expr \<Rightarrow> nat \<Rightarrow> expr \<Rightarrow> expr \<Rightarrow> nat \<Rightarrow> bool" where
  "eq_leaf ty e1 e2 n x y m \<longleftrightarrow>
     (x = e1 \<and> y = e2 \<and> m = n) \<or>
     (expr_eq_node e1 e2 \<and> x = neutral ty \<and> y = neutral ty \<and> m = Suc n)"

definition join_leaf ::
    "(sid \<Rightarrow> symbol) \<Rightarrow> bin_type \<Rightarrow> expr \<Rightarrow> expr \<Rightarrow> nat \<Rightarrow> expr \<Rightarrow> expr \<Rightarrow> nat \<Rightarrow> bool" where
  "join_leaf sy ty e1 e2 n x y m \<longleftrightarrow>
     (expr_join sy ty e1 e2 = None \<and> x = e1 \<and> y = e2 \<and> m = n) \<or>
     (expr_join sy ty e1 e2 = Some y \<and> x = neutral ty \<and> m = Suc n)"

lemma expr_eliminate_dups1_pass:
  "expr_eliminate_dups1 sy ty e1 e2 n = (x, y, m) \<Longrightarrow> pass ty (join_leaf sy ty) e1 e2 n x y m"
proof (induction sy ty e1 e2 n arbitrary: x y m rule: expr_eliminate_dups1.induct)
  case (1 sy ty e1 e2 n)
  note simps = expr_eliminate_dups1.simps [of sy ty e1 e2 n]
  show ?case
  proof (cases "as_bin ty e1")
    case (Some lr)
    then obtain l r where lr: "lr = (l, r)" "e1 = E_BIN ty l r" by (cases lr) (auto dest: as_bin_SomeD)
    with "1.prems" Some simps show ?thesis
      by (auto intro!: bin1 "1.IH" split: prod.splits)
  next
    case e1: None
    show ?thesis
    proof (cases "as_bin ty e2")
      case (Some lr)
      then obtain l r where lr: "lr = (l, r)" "e2 = E_BIN ty l r" by (cases lr) (auto dest: as_bin_SomeD)
      obtain e1' l' n1 where 1: "expr_eliminate_dups1 sy ty e1 l n = (e1', l', n1)" by (metis prod_cases3)
      obtain e1'' r' n2 where 2: "expr_eliminate_dups1 sy ty e1' r n1 = (e1'', r', n2)" by (metis prod_cases3)
      have "pass ty (join_leaf sy ty) e1 l n e1' l' n1"
        using "1.IH" e1 Some lr(1) 1 by fastforce
      moreover have "pass ty (join_leaf sy ty) e1' r n1 e1'' r' n2"
        using "1.IH" e1 Some lr(1) 1 2 by fastforce
      ultimately have "pass ty (join_leaf sy ty) e1 e2 n e1'' (E_BIN ty l' r') n2"
        unfolding lr(2) by (rule bin2 [OF e1])
      then show ?thesis using "1.prems" e1 Some lr(1) 1 2 simps by simp
    next
      case None
      with "1.prems" e1 simps show ?thesis
        by (auto intro!: leaf simp: join_leaf_def split: option.splits)
    qed
  qed
qed

lemma expr_eliminate_eq_leaves_pass:
  "expr_eliminate_eq_leaves ty e1 e2 n = (x, y, m) \<Longrightarrow> pass ty (eq_leaf ty) e1 e2 n x y m"
proof -
  have "True" and "\<And>x y m. expr_eliminate_eq_leaves ty e1 e2 n = (x, y, m) \<Longrightarrow>
    pass ty (eq_leaf ty) e1 e2 n x y m" for a b :: expr
  proof (induction a b and ty e1 e2 n rule: expr_eq_node_expr_eliminate_eq_leaves.induct)
    case (6 ty e1 e2 n)
    note simps = expr_eliminate_eq_leaves.simps [of ty e1 e2 n]
    show ?case
    proof (cases "as_bin ty e1")
      case (Some lr)
      then obtain l r where lr: "lr = (l, r)" "e1 = E_BIN ty l r" by (cases lr) (auto dest: as_bin_SomeD)
      with "6.prems" Some simps show ?thesis
        by (auto intro!: bin1 "6.IH" split: prod.splits)
    next
      case e1: None
      show ?thesis
      proof (cases "as_bin ty e2")
        case (Some lr)
        then obtain l r where lr: "lr = (l, r)" "e2 = E_BIN ty l r" by (cases lr) (auto dest: as_bin_SomeD)
        obtain e1' l' n1 where 1: "expr_eliminate_eq_leaves ty e1 l n = (e1', l', n1)" by (metis prod_cases3)
        obtain e1'' r' n2 where 2: "expr_eliminate_eq_leaves ty e1' r n1 = (e1'', r', n2)" by (metis prod_cases3)
        have "pass ty (eq_leaf ty) e1 l n e1' l' n1"
          using "6.IH" e1 Some lr(1) 1 by fastforce
        moreover have "pass ty (eq_leaf ty) e1' r n1 e1'' r' n2"
          using "6.IH" e1 Some lr(1) 1 2 by fastforce
        ultimately have "pass ty (eq_leaf ty) e1 e2 n e1'' (E_BIN ty l' r') n2"
          unfolding lr(2) by (rule bin2 [OF e1])
        then show ?thesis using "6.prems" e1 Some lr(1) 1 2 simps by simp
      next
        case None
        with "6.prems" e1 simps show ?thesis
          by (auto intro!: leaf simp: eq_leaf_def split: if_splits)
      qed
    qed
  qed simp_all
  then show "expr_eliminate_eq_leaves ty e1 e2 n = (x, y, m) \<Longrightarrow> ?thesis" by blast
qed

subsection \<open>What a join pass does to sizes and leaves\<close>

fun leaves_pos :: "bin_type \<Rightarrow> expr \<Rightarrow> bool" where
  "leaves_pos ty (E_BIN t l r) =
     (if t = ty then leaves_pos ty l \<and> leaves_pos ty r else 0 < atoms l + atoms r)"
| "leaves_pos ty e = (0 < atoms e)"

lemma leaves_pos_leaf: "as_bin ty e = None \<Longrightarrow> leaves_pos ty e \<longleftrightarrow> 0 < atoms e"
  by (cases e) (auto split: if_splits)

lemma join_pass_count: "pass ty (join_leaf sy ty) e1 e2 n x y m \<Longrightarrow> n \<le> m"
  by (induction rule: pass.induct) (auto simp: join_leaf_def)

lemma join_pass_unchanged:
  "pass ty (join_leaf sy ty) e1 e2 n x y m \<Longrightarrow> m = n \<Longrightarrow> x = e1 \<and> y = e2"
proof (induction rule: pass.induct)
  case (bin1 l e2 n l' e2' n1 r r' e2'' n2)
  then have "n1 = n" using join_pass_count by (metis le_antisym)
  with bin1 show ?case by simp
next
  case (bin2 e1 l n e1' l' n1 r e1'' r' n2)
  then have "n1 = n" using join_pass_count by (metis le_antisym)
  with bin2 show ?case by simp
qed (auto simp: join_leaf_def)

lemma join_pass_size:
  "pass ty (join_leaf sy ty) e1 e2 n x y m \<Longrightarrow> expr_size x + expr_size y \<le> expr_size e1 + expr_size e2"
  by (induction rule: pass.induct) (auto simp: join_leaf_def dest: expr_join_size)

lemma join_pass_atoms:
  "pass ty (join_leaf sy ty) e1 e2 n x y m \<Longrightarrow> atoms x + atoms y \<le> atoms e1 + atoms e2"
  by (induction rule: pass.induct) (auto simp: join_leaf_def dest: expr_join_atoms(1))

lemma join_pass_atoms_left:
  "pass ty (join_leaf sy ty) e1 e2 n x y m \<Longrightarrow> atoms x \<le> atoms e1"
  by (induction rule: pass.induct) (auto simp: join_leaf_def)

lemma join_pass_leaf:
  "pass ty (join_leaf sy ty) e1 e2 n x y m \<Longrightarrow> as_bin ty e1 = None \<Longrightarrow>
   (m = n \<and> x = e1) \<or> (n < m \<and> x = neutral ty)"
proof (induction rule: pass.induct)
  case (bin2 e1 l n e1' l' n1 r e1'' r' n2)
  have "as_bin ty (neutral ty) = None" by (cases ty) simp_all
  with bin2 show ?case by fastforce
qed (auto simp: join_leaf_def)

lemma join_pass_left_less:
  "pass ty (join_leaf sy ty) e1 e2 n x y m \<Longrightarrow> n < m \<Longrightarrow> leaves_pos ty e1 \<Longrightarrow> atoms x < atoms e1"
proof (induction rule: pass.induct)
  case (bin1 l e2 n l' e2' n1 r r' e2'' n2)
  show ?case
  proof (cases "n < n1")
    case True
    with bin1 have "atoms l' < atoms l" by simp
    moreover have "atoms r' \<le> atoms r" using bin1 join_pass_atoms_left by blast
    ultimately show ?thesis by simp
  next
    case False
    with bin1 join_pass_count have "n1 = n" by fastforce
    with bin1 have "atoms r' < atoms r" by simp
    moreover have "atoms l' \<le> atoms l" using bin1 join_pass_atoms_left by blast
    ultimately show ?thesis by simp
  qed
next
  case (bin2 e1 l n e1' l' n1 r e1'' r' n2)
  have "pass ty (join_leaf sy ty) e1 (E_BIN ty l r) n e1'' (E_BIN ty l' r') n2"
    using bin2 by (auto intro: pass.bin2)
  with bin2 show ?case
    by (auto dest!: join_pass_leaf simp: leaves_pos_leaf)
next
  case (leaf e1 e2 n x y m)
  then show ?case by (auto simp: join_leaf_def leaves_pos_leaf)
qed

lemma join_pass_atoms_less:
  "pass ty (join_leaf sy ty) e1 e2 n x y m \<Longrightarrow> n < m \<Longrightarrow> leaves_pos ty e1 \<Longrightarrow> leaves_pos ty e2 \<Longrightarrow>
   atoms x + atoms y < atoms e1 + atoms e2"
proof (induction rule: pass.induct)
  case (bin1 l e2 n l' e2' n1 r r' e2'' n2)
  show ?case
  proof (cases "n < n1")
    case True
    with bin1 have "atoms l' + atoms e2' < atoms l + atoms e2" by simp
    moreover have "atoms r' + atoms e2'' \<le> atoms r + atoms e2'" using bin1 join_pass_atoms by blast
    ultimately show ?thesis by simp
  next
    case False
    with bin1 join_pass_count have "n1 = n" by fastforce
    moreover from this bin1 have "l' = l \<and> e2' = e2" using join_pass_unchanged by blast
    ultimately show ?thesis using bin1 by simp
  qed
next
  case (bin2 e1 l n e1' l' n1 r e1'' r' n2)
  show ?case
  proof (cases "n < n1")
    case True
    with bin2 have "atoms e1' + atoms l' < atoms e1 + atoms l" by simp
    moreover have "atoms e1'' + atoms r' \<le> atoms e1' + atoms r" using bin2 join_pass_atoms by blast
    ultimately show ?thesis by simp
  next
    case False
    with bin2 join_pass_count have "n1 = n" by fastforce
    moreover from this bin2 have "e1' = e1 \<and> l' = l" using join_pass_unchanged by blast
    ultimately show ?thesis using bin2 by simp
  qed
next
  case (leaf e1 e2 n x y m)
  then show ?case by (auto simp: join_leaf_def leaves_pos_leaf dest: expr_join_atoms(2))
qed

subsection \<open>The loop\<close>

text \<open>No operand of a node of the \<open>&&\<close>/\<open>||\<close> structure is a constant.\<close>

fun clean :: "expr \<Rightarrow> bool" where
  "clean (E_BIN t l r) = (clean l \<and> clean r \<and> \<not> is_yn l \<and> \<not> is_yn r)"
| "clean e = True"

lemma is_yn_simps [simp]:
  "is_yn (E_BIN t l r) = False" "is_yn (E_NOT e) = False" "is_yn (E_COMP c a b) = False"
  "is_yn (E_SYMBOL a) = (a = symbol_yes \<or> a = symbol_no)" "is_yn (neutral t)"
  by (auto simp: is_yn_def intro: bin_type.exhaust [of t])

lemma clean_yn_fixed: "clean e \<Longrightarrow> expr_eliminate_yn e = e"
  by (induction e rule: expr_eliminate_yn.induct) auto

lemma clean_yn_bin: "clean l \<Longrightarrow> clean r \<Longrightarrow> clean (expr_eliminate_yn (E_BIN t l r))"
  by (cases t) (auto simp: clean_yn_fixed Let_def is_yn_def)

lemma clean_atoms: "clean e \<Longrightarrow> 0 < atoms e \<longleftrightarrow> \<not> is_yn e"
  by (induction e) auto

lemma clean_leaves_pos: "clean e \<Longrightarrow> \<not> is_yn e \<Longrightarrow> leaves_pos ty e"
  by (induction e) (auto simp: clean_atoms)

lemma yn_bin_cases:
  "expr_eliminate_yn (E_BIN t l r) = E_BIN t l r \<or>
   expr_eliminate_yn (E_BIN t l r) \<in> {expr_eliminate_yn l, expr_eliminate_yn r}"
  by (cases t) (auto simp: Let_def)

lemma yn_bin_size:
  "expr_eliminate_yn (E_BIN t l r) = E_BIN t l r \<or>
   expr_size (expr_eliminate_yn (E_BIN t l r)) < expr_size (E_BIN t l r)"
  using yn_bin_cases [of t l r] expr_eliminate_yn_size [of l] expr_eliminate_yn_size [of r] by auto

lemma yn_bin_neutral: "expr_eliminate_yn (E_BIN t (neutral t) r) = expr_eliminate_yn r"
  by (cases t) (simp_all add: Let_def)

text \<open>
  \<open>expr_eliminate_dups\<close> on a non-null expression: one round simplifies the operands, joins
  across them and removes constants; rounds repeat while \<open>trans_count\<close> is not zero. The inner
  calls restore \<open>trans_count\<close>, so it counts the joins of this round only. A round that joined
  something has fewer leaves, or is smaller, or has just moved a constant out of the second
  operand (which can happen once): the order below.
\<close>

definition zero_right :: "expr \<Rightarrow> nat" where
  "zero_right e = (case e of E_BIN t l r \<Rightarrow> if atoms r = 0 then 1 else 0 | _ \<Rightarrow> 0)"

definition dups_order :: "(expr \<times> expr) set" where
  "dups_order = measures [atoms, expr_size, zero_right]"

lemma dups_order_I:
  "atoms a < atoms b \<Longrightarrow> (a, b) \<in> dups_order"
  "atoms a \<le> atoms b \<Longrightarrow> expr_size a < expr_size b \<Longrightarrow> (a, b) \<in> dups_order"
  "atoms a \<le> atoms b \<Longrightarrow> expr_size a \<le> expr_size b \<Longrightarrow> zero_right a < zero_right b \<Longrightarrow> (a, b) \<in> dups_order"
  by (auto simp: dups_order_def)

lemma dups_round_decreases:
  assumes l: "clean l" "atoms l \<le> atoms l0" "expr_size l \<le> expr_size l0"
    and r: "clean r" "atoms r \<le> atoms r0" "expr_size r \<le> expr_size r0"
    and p: "expr_eliminate_dups1 sy ty l r 0 = (x, y, n)" and n: "n \<noteq> 0"
  shows "(expr_eliminate_yn (E_BIN ty x y), E_BIN ty l0 r0) \<in> dups_order"
proof -
  let ?e' = "expr_eliminate_yn (E_BIN ty x y)"
  have pass: "pass ty (join_leaf sy ty) l r 0 x y n"
    using p by (rule expr_eliminate_dups1_pass)
  have atoms: "atoms x + atoms y \<le> atoms l + atoms r"
    using pass by (rule join_pass_atoms)
  have size: "expr_size x + expr_size y \<le> expr_size l + expr_size r"
    using pass by (rule join_pass_size)
  have a': "atoms ?e' \<le> atoms x + atoms y"
    using atoms_yn [of "E_BIN ty x y"] by simp
  have s': "expr_size ?e' \<le> Suc (expr_size x + expr_size y)"
    using expr_eliminate_yn_size [of "E_BIN ty x y"] by simp
  show ?thesis
  proof (cases "is_yn l")
    case True
    then have "as_bin ty l = None" by (auto simp: is_yn_def)
    with pass n have x: "x = neutral ty" using join_pass_leaf by blast
    then have "expr_size ?e' \<le> expr_size y"
      by (simp add: yn_bin_neutral expr_eliminate_yn_size)
    with size x l(3) r(3) expr_size_ge1 [of l0] True have "expr_size ?e' < expr_size (E_BIN ty l0 r0)"
      by (auto simp: is_yn_def)
    with a' atoms l(2) r(2) show ?thesis by (intro dups_order_I(2)) auto
  next
    case nl: False
    with l(1) have lp: "leaves_pos ty l" by (rule clean_leaves_pos)
    have less: "atoms x < atoms l" using join_pass_left_less [OF pass _ lp] n by simp
    show ?thesis
    proof (cases "atoms x + atoms y < atoms l0 + atoms r0")
      case True
      with a' show ?thesis by (intro dups_order_I(1)) simp
    next
      case eq: False
      have r0: "is_yn r"
      proof (rule ccontr)
        assume "\<not> is_yn r"
        with r(1) have "leaves_pos ty r" by (rule clean_leaves_pos)
        from join_pass_atoms_less [OF pass _ lp this] n eq l(2) r(2) show False by simp
      qed
      then have "atoms r = 0" by (auto simp: is_yn_def)
      with eq atoms l(2) r(2) less have y: "0 < atoms y" and zr: "atoms r0 = 0" by linarith+
      show ?thesis
      proof (cases "?e' = E_BIN ty x y")
        case True
        with y zr have "zero_right ?e' < zero_right (E_BIN ty l0 r0)"
          by (simp add: zero_right_def)
        with a' s' atoms size l r show ?thesis by (intro dups_order_I(3)) auto
      next
        case False
        then have "expr_size ?e' < Suc (expr_size x + expr_size y)"
          using yn_bin_size [of ty x y] by simp
        with a' atoms size l r show ?thesis by (intro dups_order_I(2)) auto
      qed
    qed
  qed
qed

function expr_eliminate_dups_node :: "(sid \<Rightarrow> symbol) \<Rightarrow> expr \<Rightarrow> expr" where
  "expr_eliminate_dups_node sy e =
     (case e of
        E_BIN ty l0 r0 \<Rightarrow>
          (case expr_eliminate_dups1 sy ty (expr_eliminate_dups_node sy l0)
                  (expr_eliminate_dups_node sy r0) 0 of
             (l, r, n) \<Rightarrow>
               (let e' = expr_eliminate_yn (E_BIN ty l r)
                in if n \<noteq> 0 then expr_eliminate_dups_node sy e' else e'))
      | _ \<Rightarrow> expr_eliminate_yn e)"
  by pat_completeness auto

lemma expr_eliminate_dups_node_dom:
  "expr_eliminate_dups_node_dom (sy, e) \<Longrightarrow>
   clean (expr_eliminate_dups_node sy e)
   \<and> atoms (expr_eliminate_dups_node sy e) \<le> atoms e
   \<and> expr_size (expr_eliminate_dups_node sy e) \<le> expr_size e"
proof (induction sy e rule: expr_eliminate_dups_node.pinduct)
  case (1 sy e)
  note ps = expr_eliminate_dups_node.psimps [OF "1.hyps"]
  show ?case
  proof (cases e)
    case (E_BIN ty l0 r0)
    define l where "l = expr_eliminate_dups_node sy l0"
    define r where "r = expr_eliminate_dups_node sy r0"
    obtain x y n where p: "expr_eliminate_dups1 sy ty l r 0 = (x, y, n)"
      by (metis prod_cases3)
    have l: "clean l \<and> atoms l \<le> atoms l0 \<and> expr_size l \<le> expr_size l0"
      unfolding l_def by (rule "1.IH"(1) [OF E_BIN])
    have r: "clean r \<and> atoms r \<le> atoms r0 \<and> expr_size r \<le> expr_size r0"
      unfolding r_def by (rule "1.IH"(2) [OF E_BIN])
    have pass: "pass ty (join_leaf sy ty) l r 0 x y n"
      using p by (rule expr_eliminate_dups1_pass)
    have e': "atoms (expr_eliminate_yn (E_BIN ty x y)) \<le> atoms e"
      "expr_size (expr_eliminate_yn (E_BIN ty x y)) \<le> expr_size e"
      using E_BIN l r join_pass_atoms [OF pass] join_pass_size [OF pass]
        atoms_yn [of "E_BIN ty x y"] expr_eliminate_yn_size [of "E_BIN ty x y"] by simp_all
    have res: "expr_eliminate_dups_node sy e =
        (if n \<noteq> 0 then expr_eliminate_dups_node sy (expr_eliminate_yn (E_BIN ty x y))
         else expr_eliminate_yn (E_BIN ty x y))"
      using ps p unfolding E_BIN by (simp add: l_def [symmetric] r_def [symmetric])
    show ?thesis
    proof (cases "n = 0")
      case True
      with join_pass_unchanged [OF pass] have "x = l \<and> y = r" by simp
      with True l r e' show ?thesis unfolding res by (simp add: clean_yn_bin)
    next
      case False
      from "1.IH"(3) [OF E_BIN p [unfolded l_def r_def, symmetric] refl refl False]
      show ?thesis unfolding res using False e' by simp
    qed
  qed (use ps in simp_all)
qed

termination expr_eliminate_dups_node
proof (relation "inv_image dups_order snd", goal_cases)
  case 1
  show ?case by (simp add: dups_order_def)
next
  case (2 sy e ty l0 r0)
  then show ?case by (simp add: dups_order_I(2))
next
  case (3 sy e ty l0 r0)
  then show ?case by (simp add: dups_order_I(2))
next
  case prems: (4 sy e ty l0 r0 x q y n e')
  have "(expr_eliminate_yn (E_BIN ty x y), E_BIN ty l0 r0) \<in> dups_order"
    using prems(2,3) expr_eliminate_dups_node_dom [OF prems(6)] expr_eliminate_dups_node_dom [OF prems(7)]
    by (intro dups_round_decreases [OF _ _ _ _ _ _ _ prems(5)]) simp_all
  with prems(1,4) show ?case by simp
qed

declare expr_eliminate_dups_node.simps [simp del]

definition expr_eliminate_dups :: "(sid \<Rightarrow> symbol) \<Rightarrow> expr option \<Rightarrow> expr option" where
  "expr_eliminate_dups sy e = map_option (expr_eliminate_dups_node sy) e"

section \<open>Rewriting of negations and comparisons\<close>

fun dual :: "bin_type \<Rightarrow> bin_type" where
  "dual T_OR = T_AND"
| "dual T_AND = T_OR"

fun neg_comp :: "comp_type \<Rightarrow> comp_type" where
  "neg_comp T_EQUAL = T_UNEQUAL"
| "neg_comp T_UNEQUAL = T_EQUAL"
| "neg_comp T_LEQ = T_GTH"
| "neg_comp T_GEQ = T_LTH"
| "neg_comp T_LTH = T_GEQ"
| "neg_comp T_GTH = T_LEQ"

text \<open>
  The second \<open>switch\<close> of \<open>expr_transform\<close> on a comparison. For \<open>A!=y\<close> with a boolean \<open>A\<close> the
  code allocates \<open>E_NOT\<close> over \<open>e->left.expr\<close>; the node is a comparison, so that member of the
  union holds a pointer to the symbol, and reading it as an expression is undefined. That
  branch is \<open>None\<close>. (The diagnostics on standard output are not modelled.)
\<close>

definition transform_comp :: "(sid \<Rightarrow> symbol) \<Rightarrow> comp_type \<Rightarrow> sid \<Rightarrow> sid \<Rightarrow> expr option" where
  "transform_comp sy t a b =
     (case t of
        T_EQUAL \<Rightarrow>
          (if s_type (sy a) \<noteq> S_BOOLEAN then Some (E_COMP t a b)
           else if b = symbol_no then Some (E_NOT (expr_alloc_symbol a))
           else if b = symbol_mod then Some (expr_alloc_symbol symbol_no)
           else if b = symbol_yes then Some (expr_alloc_symbol a)
           else Some (E_COMP t a b))
      | T_UNEQUAL \<Rightarrow>
          (if s_type (sy a) \<noteq> S_BOOLEAN then Some (E_COMP t a b)
           else if b = symbol_no then Some (expr_alloc_symbol a)
           else if b = symbol_mod then Some (expr_alloc_symbol symbol_yes)
           else if b = symbol_yes then None
           else Some (E_COMP t a b))
      | _ \<Rightarrow> Some (E_COMP t a b))"

function expr_transform_node :: "(sid \<Rightarrow> symbol) \<Rightarrow> expr \<Rightarrow> expr option" where
  "expr_transform_node sy e =
     (case e of
        E_SYMBOL a \<Rightarrow> Some e
      | E_COMP t a b \<Rightarrow> transform_comp sy t a b
      | E_BIN t l0 r0 \<Rightarrow>
          (case expr_transform_node sy l0 of None \<Rightarrow> None
           | Some l \<Rightarrow>
               (case expr_transform_node sy r0 of None \<Rightarrow> None
                | Some r \<Rightarrow> Some (E_BIN t l r)))
      | E_NOT c0 \<Rightarrow>
          (case expr_transform_node sy c0 of None \<Rightarrow> None
           | Some c \<Rightarrow>
               (case c of
                  E_NOT x \<Rightarrow> Some x
                | E_COMP t a b \<Rightarrow> Some (E_COMP (neg_comp t) a b)
                | E_BIN t l r \<Rightarrow> expr_transform_node sy (E_BIN (dual t) (E_NOT l) (E_NOT r))
                | E_SYMBOL a \<Rightarrow>
                    (if a = symbol_yes then Some (expr_alloc_symbol symbol_no)
                     else if a = symbol_mod then Some (expr_alloc_symbol symbol_mod)
                     else if a = symbol_no then Some (expr_alloc_symbol symbol_yes)
                     else Some (E_NOT c)))))"
  by pat_completeness auto

text \<open>The measure doubles at a negation, so that pushing one inwards decreases it.\<close>

fun transform_size :: "expr \<Rightarrow> nat" where
  "transform_size (E_SYMBOL a) = 1"
| "transform_size (E_COMP t a b) = 2"
| "transform_size (E_NOT e) = 2 * transform_size e"
| "transform_size (E_BIN t l r) = Suc (transform_size l + transform_size r)"

lemma transform_size_pos: "0 < transform_size e"
  by (induction e) simp_all

lemma transform_comp_size: "transform_comp sy t a b = Some e \<Longrightarrow> transform_size e \<le> 2"
  by (auto simp: transform_comp_def expr_alloc_symbol_def split: comp_type.splits if_splits)

lemma expr_transform_node_dom:
  "expr_transform_node_dom (sy, e) \<Longrightarrow> expr_transform_node sy e = Some e' \<Longrightarrow>
   transform_size e' \<le> transform_size e"
proof (induction sy e arbitrary: e' rule: expr_transform_node.pinduct)
  case (1 sy e)
  note ps = expr_transform_node.psimps [OF "1.hyps"]
  show ?case
  proof (cases e)
    case (E_BIN t l0 r0)
    with "1.prems" ps obtain l r where lr: "expr_transform_node sy l0 = Some l"
      "expr_transform_node sy r0 = Some r" "e' = E_BIN t l r"
      by (auto split: option.splits)
    then show ?thesis using "1.IH"(3) [OF E_BIN lr(1)] "1.IH"(4) [OF E_BIN lr(1) lr(2)] E_BIN by simp
  next
    case (E_NOT c0)
    with "1.prems" ps obtain c where c: "expr_transform_node sy c0 = Some c"
      by (auto split: option.splits)
    note le = "1.IH"(1) [OF E_NOT c]
    show ?thesis
    proof (cases c)
      case b: (E_BIN t l r)
      have "expr_transform_node sy (E_BIN (dual t) (E_NOT l) (E_NOT r)) = Some e'"
        using "1.prems" ps c unfolding E_NOT b by simp
      from "1.IH"(2) [OF E_NOT c b this] le b E_NOT show ?thesis by simp
    qed (use "1.prems" ps c E_NOT le transform_size_pos [of c0] in
        \<open>auto simp: expr_alloc_symbol_def split: if_splits\<close>)
  next
    case (E_COMP t a b)
    with "1.prems" ps show ?thesis by (simp add: transform_comp_size)
  next
    case (E_SYMBOL a)
    with "1.prems" ps show ?thesis by simp
  qed
qed

termination expr_transform_node
proof (relation "measure (\<lambda>(sy, e). transform_size e)", goal_cases)
  case (3 sy e c0 c t l r)
  then show ?case using expr_transform_node_dom [of sy c0 c] by simp
qed (simp_all add: transform_size_pos)

declare expr_transform_node.simps [simp del]

lemma expr_transform_node_simps:
  "expr_transform_node sy (E_SYMBOL a) = Some (E_SYMBOL a)"
  "expr_transform_node sy (E_COMP ty a b) = transform_comp sy ty a b"
  "expr_transform_node sy (E_BIN t l0 r0) =
     Option.bind (expr_transform_node sy l0) (\<lambda>l.
       Option.bind (expr_transform_node sy r0) (\<lambda>r. Some (E_BIN t l r)))"
  by (simp_all add: expr_transform_node.simps [of sy "E_SYMBOL a"]
      expr_transform_node.simps [of sy "E_COMP ty a b"]
      expr_transform_node.simps [of sy "E_BIN t l0 r0"] split: option.split)

lemma expr_transform_node_NOT:
  "expr_transform_node sy (E_NOT c0) =
     Option.bind (expr_transform_node sy c0) (\<lambda>c. case c of
        E_NOT x \<Rightarrow> Some x
      | E_COMP t a b \<Rightarrow> Some (E_COMP (neg_comp t) a b)
      | E_BIN t l r \<Rightarrow> expr_transform_node sy (E_BIN (dual t) (E_NOT l) (E_NOT r))
      | E_SYMBOL a \<Rightarrow>
          (if a = symbol_yes then Some (expr_alloc_symbol symbol_no)
           else if a = symbol_mod then Some (expr_alloc_symbol symbol_mod)
           else if a = symbol_no then Some (expr_alloc_symbol symbol_yes)
           else Some (E_NOT c)))"
  by (subst expr_transform_node.simps) (simp split: option.split)

definition expr_transform :: "(sid \<Rightarrow> symbol) \<Rightarrow> expr option \<Rightarrow> expr option option" where
  "expr_transform sy e =
     (case e of None \<Rightarrow> Some None
      | Some e' \<Rightarrow> map_option Some (expr_transform_node sy e'))"

section \<open>Questions about an expression\<close>

fun expr_contains_symbol :: "expr option \<Rightarrow> sid \<Rightarrow> bool" where
  "expr_contains_symbol None s = False"
| "expr_contains_symbol (Some (E_BIN t l r)) s =
     (expr_contains_symbol (Some l) s \<or> expr_contains_symbol (Some r) s)"
| "expr_contains_symbol (Some (E_SYMBOL a)) s = (a = s)"
| "expr_contains_symbol (Some (E_COMP t a b)) s = (a = s \<or> b = s)"
| "expr_contains_symbol (Some (E_NOT e)) s = expr_contains_symbol (Some e) s"

fun expr_depends_symbol :: "expr option \<Rightarrow> sid \<Rightarrow> bool" where
  "expr_depends_symbol None s = False"
| "expr_depends_symbol (Some (E_BIN T_AND l r)) s =
     (expr_depends_symbol (Some l) s \<or> expr_depends_symbol (Some r) s)"
| "expr_depends_symbol (Some (E_SYMBOL a)) s = (a = s)"
| "expr_depends_symbol (Some (E_COMP T_EQUAL a b)) s = (a = s \<and> (b = symbol_yes \<or> b = symbol_mod))"
| "expr_depends_symbol (Some (E_COMP T_UNEQUAL a b)) s = (a = s \<and> b = symbol_no)"
| "expr_depends_symbol (Some e) s = False"

lemma expr_contains_symbol_iff: "expr_contains_symbol e s \<longleftrightarrow> s \<in> oexpr_syms e"
  by (induction e s rule: expr_contains_symbol.induct) auto

section \<open>Explicit comparisons\<close>

text \<open>
  \<open>expr_trans_compare\<close>; \<open>ty\<close> is \<open>E_EQUAL\<close> or \<open>E_UNEQUAL\<close>. A comparison is left as \<open>NULL\<close>
  (the \<open>None\<close> of the result) when \<open>s\<close> is none of the three constants.
\<close>

fun expr_trans_compare_node :: "expr \<Rightarrow> comp_type \<Rightarrow> sid \<Rightarrow> expr option" where
  "expr_trans_compare_node (E_BIN T_AND l r) ty s =
     (let e1 = expr_trans_compare_node l T_EQUAL s;
          e2 = expr_trans_compare_node r T_EQUAL s;
          e = Some (E_BIN T_AND l r);
          e = (if s = symbol_yes then Option.bind e1 (\<lambda>a. map_option (E_BIN T_AND a) e2) else e);
          e = (if s = symbol_no then Option.bind e1 (\<lambda>a. map_option (E_BIN T_OR a) e2) else e)
      in if ty = T_UNEQUAL then map_option E_NOT e else e)"
| "expr_trans_compare_node (E_BIN T_OR l r) ty s =
     (let e1 = expr_trans_compare_node l T_EQUAL s;
          e2 = expr_trans_compare_node r T_EQUAL s;
          e = Some (E_BIN T_OR l r);
          e = (if s = symbol_yes then Option.bind e1 (\<lambda>a. map_option (E_BIN T_OR a) e2) else e);
          e = (if s = symbol_no then Option.bind e1 (\<lambda>a. map_option (E_BIN T_AND a) e2) else e)
      in if ty = T_UNEQUAL then map_option E_NOT e else e)"
| "expr_trans_compare_node (E_NOT e) ty s =
     expr_trans_compare_node e (if ty = T_EQUAL then T_UNEQUAL else T_EQUAL) s"
| "expr_trans_compare_node (E_COMP t a b) ty s =
     (if ty = T_EQUAL then
        (if s = symbol_yes then Some (E_COMP t a b)
         else if s = symbol_mod then Some (expr_alloc_symbol symbol_no)
         else if s = symbol_no then Some (E_NOT (E_COMP t a b))
         else None)
      else
        (if s = symbol_yes then Some (E_NOT (E_COMP t a b))
         else if s = symbol_mod then Some (expr_alloc_symbol symbol_yes)
         else if s = symbol_no then Some (E_COMP t a b)
         else None))"
| "expr_trans_compare_node (E_SYMBOL a) ty s = Some (E_COMP ty a s)"

definition expr_trans_compare :: "expr option \<Rightarrow> comp_type \<Rightarrow> sid \<Rightarrow> expr option" where
  "expr_trans_compare e ty s =
     (case e of
        None \<Rightarrow> Some (if ty = T_UNEQUAL then E_NOT (expr_alloc_symbol s) else expr_alloc_symbol s)
      | Some e' \<Rightarrow> expr_trans_compare_node e' ty s)"

section \<open>Module rewriting\<close>

text \<open>\<open>rewrite_m\<close> of \<^verbatim>\<open>parser/menu.c\<close>: a bare \<open>m\<close> becomes \<open>m && MODULES\<close>.\<close>

fun rewrite_m_node :: "sid \<Rightarrow> expr \<Rightarrow> expr" where
  "rewrite_m_node ms (E_NOT e) = E_NOT (rewrite_m_node ms e)"
| "rewrite_m_node ms (E_BIN t l r) = E_BIN t (rewrite_m_node ms l) (rewrite_m_node ms r)"
| "rewrite_m_node ms (E_SYMBOL a) =
     (if a = symbol_mod then E_AND (E_SYMBOL a) (expr_alloc_symbol ms) else E_SYMBOL a)"
| "rewrite_m_node ms (E_COMP t a b) = E_COMP t a b"

definition rewrite_m :: "sid \<Rightarrow> expr option \<Rightarrow> expr option" where
  "rewrite_m ms e = map_option (rewrite_m_node ms) e"

text \<open>
  Where \<open>expr_transform\<close> is defined: nowhere below the node is a boolean symbol compared
  with \<open>!= y\<close>.
\<close>

fun no_bool_unequal_y :: "(sid \<Rightarrow> symbol) \<Rightarrow> expr \<Rightarrow> bool" where
  "no_bool_unequal_y sy (E_SYMBOL a) = True"
| "no_bool_unequal_y sy (E_NOT e) = no_bool_unequal_y sy e"
| "no_bool_unequal_y sy (E_BIN t l r) = (no_bool_unequal_y sy l \<and> no_bool_unequal_y sy r)"
| "no_bool_unequal_y sy (E_COMP t a b) =
     (\<not> (t = T_UNEQUAL \<and> s_type (sy a) = S_BOOLEAN \<and> b = symbol_yes))"

text \<open>
  The normal form \<open>expr_transform\<close> produces: negations only on symbols other than the
  constants, and no boolean symbol compared with a constant by \<open>=\<close> or \<open>!=\<close>.
\<close>

fun transformed :: "(sid \<Rightarrow> symbol) \<Rightarrow> expr \<Rightarrow> bool" where
  "transformed sy (E_SYMBOL a) = True"
| "transformed sy (E_NOT e) =
     (case e of E_SYMBOL a \<Rightarrow> a \<notin> {symbol_yes, symbol_mod, symbol_no} | _ \<Rightarrow> False)"
| "transformed sy (E_BIN t l r) = (transformed sy l \<and> transformed sy r)"
| "transformed sy (E_COMP t a b) =
     (\<not> (t \<in> {T_EQUAL, T_UNEQUAL} \<and> s_type (sy a) = S_BOOLEAN
         \<and> b \<in> {symbol_yes, symbol_mod, symbol_no}))"

subsection \<open>The normal form\<close>

text \<open>
  What \<open>expr_eliminate_dups\<close> reaches: no constant is an operand, and no operand on the left of
  an operator joins with one on its right (in particular no two of them are equal).
\<close>

fun operands :: "bin_type \<Rightarrow> expr \<Rightarrow> expr list" where
  "operands ty (E_BIN t l r) =
     (if t = ty then operands ty l @ operands ty r else [E_BIN t l r])"
| "operands ty e = [e]"

fun reduced :: "(sid \<Rightarrow> symbol) \<Rightarrow> expr \<Rightarrow> bool" where
  "reduced sy (E_BIN t l r) =
     (reduced sy l \<and> reduced sy r \<and> \<not> is_yn l \<and> \<not> is_yn r
      \<and> (\<forall>u \<in> set (operands t l). \<forall>v \<in> set (operands t r). expr_join sy t u v = None))"
| "reduced sy e = True"

lemma operands_leaf: "as_bin ty e = None \<Longrightarrow> operands ty e = [e]"
  by (cases e) (auto split: if_splits)

lemma reduced_clean: "reduced sy e \<Longrightarrow> clean e"
  by (induction e) auto

lemma join_pass_none:
  "pass ty (join_leaf sy ty) e1 e2 n x y m \<Longrightarrow> m = n \<Longrightarrow>
   u \<in> set (operands ty e1) \<Longrightarrow> v \<in> set (operands ty e2) \<Longrightarrow> expr_join sy ty u v = None"
proof (induction rule: pass.induct)
  case (bin1 l e2 n l' e2' n1 r r' e2'' n2)
  then have "n1 = n" using join_pass_count by (metis le_antisym)
  moreover from this bin1 have "e2' = e2" using join_pass_unchanged by blast
  ultimately show ?case using bin1 by auto
next
  case (bin2 e1 l n e1' l' n1 r e1'' r' n2)
  then have "n1 = n" using join_pass_count by (metis le_antisym)
  moreover from this bin2 have "e1' = e1" using join_pass_unchanged by blast
  ultimately show ?case using bin2 by auto
next
  case (leaf e1 e2 n x y m)
  then show ?case by (auto simp: join_leaf_def operands_leaf)
qed

lemma dups1_unjoined:
  "(\<forall>u \<in> set (operands ty e1). \<forall>v \<in> set (operands ty e2). expr_join sy ty u v = None) \<Longrightarrow>
   expr_eliminate_dups1 sy ty e1 e2 n = (e1, e2, n)"
proof (induction sy ty e1 e2 n rule: expr_eliminate_dups1.induct)
  case (1 sy ty e1 e2 n)
  note simps = expr_eliminate_dups1.simps [of sy ty e1 e2 n]
  show ?case
  proof (cases "as_bin ty e1")
    case (Some lr)
    then obtain l r where lr: "lr = (l, r)" "e1 = E_BIN ty l r" by (cases lr) (auto dest: as_bin_SomeD)
    have "expr_eliminate_dups1 sy ty l e2 n = (l, e2, n)"
      using "1.IH"(3) [OF Some lr(1) [symmetric]] "1.prems" by (simp add: lr(2))
    moreover have "expr_eliminate_dups1 sy ty r e2 n = (r, e2, n)"
      using "1.IH"(4) [OF Some lr(1) [symmetric] calculation [symmetric] refl] "1.prems"
      by (simp add: lr(2))
    ultimately show ?thesis using simps Some lr by simp
  next
    case e1: None
    show ?thesis
    proof (cases "as_bin ty e2")
      case (Some lr)
      then obtain l r where lr: "lr = (l, r)" "e2 = E_BIN ty l r" by (cases lr) (auto dest: as_bin_SomeD)
      have "expr_eliminate_dups1 sy ty e1 l n = (e1, l, n)"
        using "1.IH"(1) [OF e1 Some lr(1) [symmetric]] "1.prems" by (simp add: lr(2))
      moreover have "expr_eliminate_dups1 sy ty e1 r n = (e1, r, n)"
        using "1.IH"(2) [OF e1 Some lr(1) [symmetric] calculation [symmetric] refl] "1.prems"
        by (simp add: lr(2))
      ultimately show ?thesis using simps e1 Some lr by simp
    next
      case None
      with e1 "1.prems" simps show ?thesis by (simp add: operands_leaf)
    qed
  qed
qed

lemma reduced_yn_bin:
  assumes "reduced sy l" "reduced sy r"
    and "\<forall>u \<in> set (operands t l). \<forall>v \<in> set (operands t r). expr_join sy t u v = None"
  shows "reduced sy (expr_eliminate_yn (E_BIN t l r))"
  using assms
  by (cases t) (auto simp: clean_yn_fixed reduced_clean Let_def is_yn_def)

lemma expr_eliminate_dups_reduced: "reduced sy (expr_eliminate_dups_node sy e)"
proof (induction sy e rule: expr_eliminate_dups_node.induct)
  case (1 sy e)
  note simps = expr_eliminate_dups_node.simps [of sy e]
  show ?case
  proof (cases e)
    case (E_BIN ty l0 r0)
    obtain x y n where p: "expr_eliminate_dups1 sy ty (expr_eliminate_dups_node sy l0)
        (expr_eliminate_dups_node sy r0) 0 = (x, y, n)" by (metis prod_cases3)
    note pass = expr_eliminate_dups1_pass [OF p]
    show ?thesis
    proof (cases "n = 0")
      case True
      with join_pass_unchanged [OF pass]
      have "x = expr_eliminate_dups_node sy l0 \<and> y = expr_eliminate_dups_node sy r0" by simp
      with "1.IH"(1,2) [OF E_BIN] join_pass_none [OF pass True]
      have "reduced sy (expr_eliminate_yn (E_BIN ty x y))" by (intro reduced_yn_bin) auto
      with True simps p show ?thesis unfolding E_BIN by simp
    next
      case False
      with "1.IH"(3) [OF E_BIN p [symmetric] refl refl False] simps p show ?thesis
        unfolding E_BIN by simp
    qed
  qed (use simps in simp_all)
qed

lemma reduced_fixed: "reduced sy e \<Longrightarrow> expr_eliminate_dups_node sy e = e"
proof (induction e)
  case (E_BIN t l r)
  have "clean (E_BIN t l r)" using E_BIN.prems by (rule reduced_clean)
  with E_BIN dups1_unjoined [of t l r sy 0] show ?case
    by (subst expr_eliminate_dups_node.simps) (simp add: clean_yn_fixed)
qed (simp_all add: expr_eliminate_dups_node.simps)

end
