(* ===== verification/ExprSem.thy ===== *)
theory ExprSem
  imports ExprSimp
begin

text \<open>
  What expressions mean, and that the simplifier of theory \<open>ExprSimp\<close> keeps it. The value of an
  expression is the one \<open>expr_calc_value\<close> computes once every symbol in it has its value
  (theory \<open>Symbol\<close> has the evaluation that also calculates the symbols). The simplifier relies
  on the values of the symbols only through a few laws, the locale \<open>valuation\<close>; the comparison
  of the code meets them.
\<close>

section \<open>Comparison of two symbols\<close>

definition sym_get_string_value :: "symbol \<Rightarrow> strptr" where
  "sym_get_string_value y =
     (case s_type y of
        S_BOOLEAN \<Rightarrow>
          (case sym_get_tristate_value y of
             tri_no \<Rightarrow> Lit ''n'' | tri_mod \<Rightarrow> Lit ''m'' | tri_yes \<Rightarrow> Lit ''y'')
      | S_TRISTATE \<Rightarrow>
          (case sym_get_tristate_value y of
             tri_no \<Rightarrow> Lit ''n'' | tri_mod \<Rightarrow> Lit ''m'' | tri_yes \<Rightarrow> Lit ''y'')
      | _ \<Rightarrow> val (curr y))"

datatype string_value_kind = k_string | k_signed | k_unsigned

text \<open>
  \<open>expr_parse_string\<close>: the kind and the value; the union of a signed and an unsigned number is
  one 64-bit word. The whole string must have been read and its last character must be a
  hexadecimal digit.
\<close>

definition parsed_all :: "string \<Rightarrow> string \<Rightarrow> bool \<Rightarrow> bool" where
  "parsed_all s t range_error \<longleftrightarrow> \<not> range_error \<and> t = [] \<and> s \<noteq> [] \<and> isxdigit (last s)"

definition expr_parse_string :: "string \<Rightarrow> symbol_type \<Rightarrow> string_value_kind \<times> 64 word" where
  "expr_parse_string s ty =
     (if ty = S_BOOLEAN \<or> ty = S_TRISTATE then
        (k_signed, if s = ''n'' then 0 else if s = ''m'' then 1 else if s = ''y'' then 2 else - 1)
      else if ty = S_INT then
        (case strtoll 10 s of (v, t, e) \<Rightarrow> (if parsed_all s t e then k_signed else k_string, v))
      else if ty = S_HEX then
        (case strtoull 16 s of (v, t, e) \<Rightarrow> (if parsed_all s t e then k_unsigned else k_string, v))
      else
        (case strtoll 0 s of (v, t, e) \<Rightarrow> (if parsed_all s t e then k_signed else k_string, v)))"

definition three_way :: "'a::linorder \<Rightarrow> 'a \<Rightarrow> int" where
  "three_way a b = (if a > b then 1 else 0) - (if a < b then 1 else 0)"

text \<open>\<open>res\<close> of \<open>__expr_calc_value\<close> for a comparison of two calculated symbols.\<close>

definition compare_values :: "symbol \<Rightarrow> symbol \<Rightarrow> int" where
  "compare_values y1 y2 =
     (let str1 = str_of (sym_get_string_value y1);
          str2 = str_of (sym_get_string_value y2);
          parse = (s_type y1 \<noteq> S_STRING \<or> s_type y2 \<noteq> S_STRING);
          (k1, lval) = (if parse then expr_parse_string str1 (s_type y1) else (k_string, 0));
          (k2, rval) = (if parse then expr_parse_string str2 (s_type y2) else (k_string, 0))
      in if k1 = k_string \<or> k2 = k_string then strcmp str1 str2
         else if k1 = k_unsigned \<or> k2 = k_unsigned then three_way lval rval
         else three_way (sint lval) (sint rval))"

fun comp_result :: "comp_type \<Rightarrow> int \<Rightarrow> tristate" where
  "comp_result T_EQUAL res = (if res \<noteq> 0 then tri_no else tri_yes)"
| "comp_result T_GEQ res = (if res \<ge> 0 then tri_yes else tri_no)"
| "comp_result T_GTH res = (if res > 0 then tri_yes else tri_no)"
| "comp_result T_LEQ res = (if res \<le> 0 then tri_yes else tri_no)"
| "comp_result T_LTH res = (if res < 0 then tri_yes else tri_no)"
| "comp_result T_UNEQUAL res = (if res \<noteq> 0 then tri_yes else tri_no)"

definition expr_compare :: "(sid \<Rightarrow> symbol) \<Rightarrow> sid \<Rightarrow> sid \<Rightarrow> int" where
  "expr_compare sy a b = compare_values (sy a) (sy b)"

definition curr_tri :: "(sid \<Rightarrow> symbol) \<Rightarrow> sid \<Rightarrow> tristate" where
  "curr_tri sy a = sym_get_tristate_value (sy a)"

section \<open>The value of an expression\<close>

fun bin_op :: "bin_type \<Rightarrow> tristate \<Rightarrow> tristate \<Rightarrow> tristate" where
  "bin_op T_OR a b = EXPR_OR a b"
| "bin_op T_AND a b = EXPR_AND a b"

fun expr_value :: "(sid \<Rightarrow> tristate) \<Rightarrow> (sid \<Rightarrow> sid \<Rightarrow> int) \<Rightarrow> expr \<Rightarrow> tristate" where
  "expr_value v cmp (E_SYMBOL a) = v a"
| "expr_value v cmp (E_BIN t l r) = bin_op t (expr_value v cmp l) (expr_value v cmp r)"
| "expr_value v cmp (E_NOT e) = EXPR_NOT (expr_value v cmp e)"
| "expr_value v cmp (E_COMP t a b) = comp_result t (cmp a b)"

definition value_in :: "(sid \<Rightarrow> symbol) \<Rightarrow> expr option \<Rightarrow> tristate" where
  "value_in sy e =
     (case e of None \<Rightarrow> tri_yes | Some e' \<Rightarrow> expr_value (curr_tri sy) (expr_compare sy) e')"

lemma value_in_simps [simp]:
  "value_in sy None = tri_yes"
  "value_in sy (Some e) = expr_value (curr_tri sy) (expr_compare sy) e"
  by (simp_all add: value_in_def)

lemma bin_op_ac:
  "bin_op t (bin_op t a b) c = bin_op t a (bin_op t b c)"
  "bin_op t a b = bin_op t b a"
  "bin_op t a (bin_op t b c) = bin_op t b (bin_op t a c)"
  by (cases t; simp add: max.assoc min.assoc max.commute min.commute max.left_commute min.left_commute)+

lemma bin_op_idem [simp]: "bin_op t a a = a"
  by (cases t) simp_all

lemma bin_op_mono: "a \<le> a' \<Longrightarrow> b \<le> b' \<Longrightarrow> bin_op t a b \<le> bin_op t a' b'"
  by (cases t) (auto simp: le_max_iff_disj min_le_iff_disj)

lemma comp_result_values: "comp_result t k \<noteq> tri_mod"
  by (cases t) auto

lemma comp_result_neg: "comp_result (neg_comp t) k = EXPR_NOT (comp_result t k)"
  by (cases t) auto

lemma bin_op_dual: "bin_op (dual t) (EXPR_NOT a) (EXPR_NOT b) = EXPR_NOT (bin_op t a b)"
  by (cases t) (simp_all add: EXPR_NOT_max EXPR_NOT_min)

text \<open>
  Only boolean and tristate symbols as operands, and no negated part with the value \<open>m\<close>
  (the value of a part is given by \<open>f\<close>).
\<close>

fun plain_leaves :: "(sid \<Rightarrow> symbol) \<Rightarrow> (expr \<Rightarrow> tristate) \<Rightarrow> expr \<Rightarrow> bool" where
  "plain_leaves sy f (E_SYMBOL a) = (s_type (sy a) = S_BOOLEAN \<or> s_type (sy a) = S_TRISTATE)"
| "plain_leaves sy f (E_NOT e) = (plain_leaves sy f e \<and> f e \<noteq> tri_mod)"
| "plain_leaves sy f (E_BIN t l r) = (plain_leaves sy f l \<and> plain_leaves sy f r)"
| "plain_leaves sy f (E_COMP t a b) = True"

section \<open>The laws the simplifier relies on\<close>

text \<open>
  \<open>ok\<close> is the condition on the symbols under which the laws hold: the constants have their
  values, a boolean is never \<open>m\<close>, comparing a boolean or tristate symbol with one of the
  three constants asks for its value, and a tristate symbol is not equal to two constants.
\<close>

locale valuation =
  fixes ok :: "(sid \<Rightarrow> symbol) \<Rightarrow> bool"
    and tri_of :: "(sid \<Rightarrow> symbol) \<Rightarrow> sid \<Rightarrow> tristate"
    and cmp :: "(sid \<Rightarrow> symbol) \<Rightarrow> sid \<Rightarrow> sid \<Rightarrow> int"
  assumes const_yes: "ok sy \<Longrightarrow> tri_of sy symbol_yes = tri_yes"
    and const_mod: "ok sy \<Longrightarrow> tri_of sy symbol_mod = tri_mod"
    and const_no: "ok sy \<Longrightarrow> tri_of sy symbol_no = tri_no"
    and bool_not_mod: "ok sy \<Longrightarrow> s_type (sy a) = S_BOOLEAN \<Longrightarrow> tri_of sy a \<noteq> tri_mod"
    and cmp_yes: "ok sy \<Longrightarrow> s_type (sy a) \<in> {S_BOOLEAN, S_TRISTATE} \<Longrightarrow>
      cmp sy a symbol_yes = 0 \<longleftrightarrow> tri_of sy a = tri_yes"
    and cmp_mod: "ok sy \<Longrightarrow> s_type (sy a) \<in> {S_BOOLEAN, S_TRISTATE} \<Longrightarrow>
      cmp sy a symbol_mod = 0 \<longleftrightarrow> tri_of sy a = tri_mod"
    and cmp_no: "ok sy \<Longrightarrow> s_type (sy a) \<in> {S_BOOLEAN, S_TRISTATE} \<Longrightarrow>
      cmp sy a symbol_no = 0 \<longleftrightarrow> tri_of sy a = tri_no"
    and cmp_consts: "ok sy \<Longrightarrow> s_type (sy a) = S_TRISTATE \<Longrightarrow> is_const sy b \<Longrightarrow>
      is_const sy c \<Longrightarrow> b \<noteq> c \<Longrightarrow> cmp sy a b = 0 \<Longrightarrow> cmp sy a c \<noteq> 0"
begin

abbreviation ev :: "(sid \<Rightarrow> symbol) \<Rightarrow> expr \<Rightarrow> tristate" where
  "ev sy e \<equiv> expr_value (tri_of sy) (cmp sy) e"

lemmas const_values = const_yes const_mod const_no
lemmas const_cmps = cmp_yes cmp_mod cmp_no

lemma neutral_value: "ok sy \<Longrightarrow> ev sy (neutral t) = (case t of T_OR \<Rightarrow> tri_no | T_AND \<Rightarrow> tri_yes)"
  by (cases t) (simp_all add: const_values)

lemma neutral_unit: "ok sy \<Longrightarrow> bin_op t (ev sy (neutral t)) x = x"
  by (cases t) (simp_all add: const_values)

lemma eliminate_yn_value: "ok sy \<Longrightarrow> ev sy (expr_eliminate_yn e) = ev sy e"
  by (induction e rule: expr_eliminate_yn.induct) (auto simp: Let_def const_values)

subsection \<open>Equality and elimination of common operands\<close>

definition cancels :: "(sid \<Rightarrow> symbol) \<Rightarrow> bin_type \<Rightarrow> expr \<Rightarrow> expr \<Rightarrow> expr \<Rightarrow> expr \<Rightarrow> bool" where
  "cancels sy t e1 e2 x y \<longleftrightarrow>
     (\<exists>g. ev sy e1 = bin_op t (ev sy x) g \<and> ev sy e2 = bin_op t (ev sy y) g)"

lemma cancels_refl: "ok sy \<Longrightarrow> cancels sy t e1 e2 e1 e2"
  unfolding cancels_def by (rule exI [of _ "ev sy (neutral t)"])
    (metis neutral_unit bin_op_ac(2))

lemma cancels_leaf: "ok sy \<Longrightarrow> ev sy e1 = ev sy e2 \<Longrightarrow> cancels sy t e1 e2 (neutral t) (neutral t)"
  unfolding cancels_def by (metis neutral_unit)

lemma cancels_bin1:
  "cancels sy t l e2 l' e2' \<Longrightarrow> cancels sy t r e2' r' e2'' \<Longrightarrow>
   cancels sy t (E_BIN t l r) e2 (E_BIN t l' r') e2''"
  unfolding cancels_def
proof (elim exE conjE)
  fix g g'
  assume "ev sy l = bin_op t (ev sy l') g" "ev sy e2 = bin_op t (ev sy e2') g"
    "ev sy r = bin_op t (ev sy r') g'" "ev sy e2' = bin_op t (ev sy e2'') g'"
  then show "\<exists>h. ev sy (E_BIN t l r) = bin_op t (ev sy (E_BIN t l' r')) h
      \<and> ev sy e2 = bin_op t (ev sy e2'') h"
    by (intro exI [of _ "bin_op t g g'"]) (simp add: bin_op_ac)
qed

lemma cancels_bin2:
  "cancels sy t e1 l e1' l' \<Longrightarrow> cancels sy t e1' r e1'' r' \<Longrightarrow>
   cancels sy t e1 (E_BIN t l r) e1'' (E_BIN t l' r')"
  unfolding cancels_def
proof (elim exE conjE)
  fix g g'
  assume "ev sy e1 = bin_op t (ev sy e1') g" "ev sy l = bin_op t (ev sy l') g"
    "ev sy e1' = bin_op t (ev sy e1'') g'" "ev sy r = bin_op t (ev sy r') g'"
  then show "\<exists>h. ev sy e1 = bin_op t (ev sy e1'') h
      \<and> ev sy (E_BIN t l r) = bin_op t (ev sy (E_BIN t l' r')) h"
    by (intro exI [of _ "bin_op t g g'"]) (simp add: bin_op_ac)
qed

lemma eq_leaves_sound:
  assumes ok: "ok sy"
  shows "expr_eq_node a b \<Longrightarrow> ev sy a = ev sy b"
    and "expr_eliminate_eq_leaves ty e1 e2 n = (x, y, m) \<Longrightarrow> cancels sy ty e1 e2 x y"
proof (induction a b and ty e1 e2 n arbitrary: and x y m
    rule: expr_eq_node_expr_eliminate_eq_leaves.induct)
  case (4 t a b t' c d)
  then obtain x y n p where t: "t = t'"
    and e: "expr_eliminate_eq_leaves t (E_BIN t a b) (E_BIN t c d) 0 = (x, y, n)"
    and p: "expr_eliminate_yn x = E_SYMBOL p" "expr_eliminate_yn y = E_SYMBOL p"
    by (auto split: if_splits prod.splits expr.splits)
  have "cancels sy t (E_BIN t a b) (E_BIN t c d) x y" using "4.IH" t e by simp
  moreover have "ev sy x = ev sy y"
    using p eliminate_yn_value [OF ok, of x] eliminate_yn_value [OF ok, of y] by simp
  ultimately show ?case using t by (auto simp: cancels_def)
next
  case (6 ty e1 e2 n)
  note simps = expr_eliminate_eq_leaves.simps [of ty e1 e2 n]
  show ?case
  proof (cases "as_bin ty e1")
    case (Some lr)
    then obtain l r where lr: "lr = (l, r)" "e1 = E_BIN ty l r" by (cases lr) (auto dest: as_bin_SomeD)
    with "6.prems" Some simps show ?thesis
      by (auto intro!: cancels_bin1 "6.IH" split: prod.splits)
  next
    case e1: None
    show ?thesis
    proof (cases "as_bin ty e2")
      case (Some lr)
      then obtain l r where lr: "lr = (l, r)" "e2 = E_BIN ty l r" by (cases lr) (auto dest: as_bin_SomeD)
      obtain e1' l' n1 where 1: "expr_eliminate_eq_leaves ty e1 l n = (e1', l', n1)" by (metis prod_cases3)
      obtain e1'' r' n2 where 2: "expr_eliminate_eq_leaves ty e1' r n1 = (e1'', r', n2)" by (metis prod_cases3)
      have "cancels sy ty e1 l e1' l'" using "6.IH" e1 Some lr(1) 1 by fastforce
      moreover have "cancels sy ty e1' r e1'' r'" using "6.IH" e1 Some lr(1) 1 2 by fastforce
      ultimately have "cancels sy ty e1 e2 e1'' (E_BIN ty l' r')"
        unfolding lr(2) by (rule cancels_bin2)
      then show ?thesis using "6.prems" e1 Some lr(1) 1 2 simps by simp
    next
      case None
      with "6.prems" e1 simps "6.IH"(1) ok show ?thesis
        by (auto intro!: cancels_refl cancels_leaf split: if_splits)
    qed
  qed
qed (auto split: if_splits)

end

text \<open>
  \<open>expr_eliminate_eq\<close>: the two old values come from the two new ones by one monotone function,
  the conjunction or disjunction with what was removed. So if the second expression is
  reduced to \<open>y\<close>, the first implies the second.
\<close>

context valuation
begin

lemma eliminate_eq_node_sound:
  assumes ok: "ok sy" and e: "expr_eliminate_eq_node e1 e2 n = (x, y, m)"
  shows "\<exists>g. mono g \<and> ev sy e1 = g (ev sy x) \<and> ev sy e2 = g (ev sy y)"
proof -
  have step: "\<exists>g. mono g \<and> ev sy p = g (ev sy p') \<and> ev sy q = g (ev sy q')"
    if "cancels sy t p q p' q'" for t p q p' q'
  proof -
    from that obtain g where "ev sy p = bin_op t (ev sy p') g" "ev sy q = bin_op t (ev sy q') g"
      by (auto simp: cancels_def)
    then show ?thesis
      by (intro exI [of _ "\<lambda>v. bin_op t v g"]) (auto intro!: monoI bin_op_mono)
  qed
  have id: "\<exists>g. mono g \<and> ev sy p = g (ev sy p) \<and> ev sy q = g (ev sy q)" for p q
    by (intro exI [of _ "\<lambda>v. v"]) (auto intro: monoI)
  obtain a b n1 where 1: "(case e1 of E_BIN t l r \<Rightarrow> expr_eliminate_eq_leaves t e1 e2 n
      | _ \<Rightarrow> (e1, e2, n)) = (a, b, n1)" by (metis prod_cases3)
  obtain a' b' n2 where 2: "(if same_type a b then (a, b, n1)
      else (case b of E_BIN t l r \<Rightarrow> expr_eliminate_eq_leaves t a b n1
            | _ \<Rightarrow> (a, b, n1))) = (a', b', n2)" by (metis prod_cases3)
  have A: "\<exists>g. mono g \<and> ev sy e1 = g (ev sy a) \<and> ev sy e2 = g (ev sy b)"
    using 1 step [OF eq_leaves_sound(2) [OF ok]] id by (auto split: expr.splits simp del: expr_value.simps)
  have B: "\<exists>g. mono g \<and> ev sy a = g (ev sy a') \<and> ev sy b = g (ev sy b')"
    using 2 step [OF eq_leaves_sound(2) [OF ok]] id
    by (auto split: if_splits expr.splits simp del: expr_value.simps)
  obtain g h where gh: "mono g" "ev sy e1 = g (ev sy a)" "ev sy e2 = g (ev sy b)"
    "mono h" "ev sy a = h (ev sy a')" "ev sy b = h (ev sy b')"
    using A B by blast
  have "x = expr_eliminate_yn a' \<and> y = expr_eliminate_yn b'"
    using e 1 2 by (simp add: expr_eliminate_eq_node_def)
  then have "ev sy x = ev sy a'" "ev sy y = ev sy b'"
    using eliminate_yn_value [OF ok] by simp_all
  with gh show ?thesis
    by (intro exI [of _ "\<lambda>v. g (h v)"]) (auto simp: mono_def)
qed

lemma eliminate_eq_implies:
  assumes "ok sy" "expr_eliminate_eq_node e1 e2 n = (x, E_SYMBOL symbol_yes, m)"
  shows "ev sy e1 \<le> ev sy e2"
proof -
  from eliminate_eq_node_sound [OF assms] obtain g where
    g: "mono g" "ev sy e1 = g (ev sy x)" "ev sy e2 = g (ev sy (E_SYMBOL symbol_yes))" by blast
  have "ev sy x \<le> ev sy (E_SYMBOL symbol_yes)" using assms(1) by (simp add: const_yes)
  with g show ?thesis by (simp add: monoD)
qed

subsection \<open>Joins and duplicate elimination\<close>

text \<open>The values of the operands the joins look for, and of a pair of them in either order.\<close>

lemma join_operand_values:
  assumes ok: "ok sy" and a: "s_type (sy a) = S_BOOLEAN \<or> s_type (sy a) = S_TRISTATE"
  shows "ev sy (E_EQUAL a symbol_yes) = (if tri_of sy a = tri_yes then tri_yes else tri_no)"
    and "ev sy (E_EQUAL a symbol_mod) = (if tri_of sy a = tri_mod then tri_yes else tri_no)"
    and "ev sy (E_EQUAL a symbol_no) = (if tri_of sy a = tri_no then tri_yes else tri_no)"
    and "ev sy (E_UNEQUAL a symbol_yes) = (if tri_of sy a = tri_yes then tri_no else tri_yes)"
    and "ev sy (E_UNEQUAL a symbol_mod) = (if tri_of sy a = tri_mod then tri_no else tri_yes)"
    and "ev sy (E_UNEQUAL a symbol_no) = (if tri_of sy a = tri_no then tri_no else tri_yes)"
  using a const_cmps [OF ok, of a] by auto

lemma pair_of_value:
  "pair_of a b e1 e2 \<Longrightarrow> bin_op t (ev sy e1) (ev sy e2) = bin_op t (ev sy a) (ev sy b)"
  by (auto simp: pair_of_def bin_op_ac(2))

lemma equal_unequal_value:
  assumes ok: "ok sy" and a: "s_type (sy a) = S_TRISTATE"
    and c: "is_const sy b" "is_const sy c"
  shows "bin_op T_AND (ev sy (E_EQUAL a b)) (ev sy (E_UNEQUAL a c))
    = ev sy (if b \<noteq> c then E_EQUAL a b else expr_alloc_symbol symbol_no)"
  using cmp_consts [OF ok a c] by (auto simp: expr_alloc_symbol_def const_no [OF ok])

lemma join_equal_unequal_sound:
  assumes ok: "ok sy" and a: "s_type (sy a) = S_TRISTATE"
    and j: "join_and_equal_unequal sy a e1 e2 = Some t"
    and s: "join_sym1 e1 = Some a" "join_sym2 e2 = Some a"
  shows "bin_op T_AND (ev sy e1) (ev sy e2) = ev sy t"
proof -
  obtain b c where bc: "is_const sy b" "is_const sy c"
    "t = (if b \<noteq> c then E_EQUAL a b else expr_alloc_symbol symbol_no)"
    "pair_of (E_EQUAL a b) (E_UNEQUAL a c) e1 e2"
    using j s by (cases "(sy, a, e1, e2)" rule: join_and_equal_unequal.cases)
      (auto simp: pair_of_def split: if_splits)
  then show ?thesis
    using pair_of_value [OF bc(4), of T_AND sy] equal_unequal_value [OF ok a bc(1,2)] by simp
qed

lemma join_or_sound:
  assumes ok: "ok sy" and s: "join_sym sy e1 e2 = Some a" and ne: "\<not> expr_eq_node e1 e2"
    and j: "expr_join_or sy e1 e2 = Some t"
  shows "bin_op T_OR (ev sy e1) (ev sy e2) = ev sy t"
proof -
  note vals = join_operand_values [OF ok join_sym_SomeD(5) [OF s]] const_values [OF ok]
    expr_value.simps(1) [where v = "tri_of sy"] expr_value.simps(3) [where v = "tri_of sy"]
  have nm: "s_type (sy a) = S_BOOLEAN \<Longrightarrow> tri_of sy a \<noteq> tri_mod"
    using bool_not_mod [OF ok] .
  show ?thesis
    using j ne s nm
    unfolding expr_join_or_def
    by (cases "tri_of sy a")
       (auto simp only: vals option.case if_False if_True simp_thms option.inject option.distinct
          expr_alloc_symbol_def bin_op.simps EXPR_OR_max tri_minmax_simps tristate.distinct
          EXPR_NOT.simps max.idem
          dest!: pair_of_value [where t = T_OR and sy = sy] split: if_split_asm)
qed

lemma join_and_sound:
  assumes ok: "ok sy" and s: "join_sym sy e1 e2 = Some a" and ne: "\<not> expr_eq_node e1 e2"
    and j: "expr_join_and sy e1 e2 = Some t"
  shows "bin_op T_AND (ev sy e1) (ev sy e2) = ev sy t"
proof (cases "s_type (sy a) = S_TRISTATE \<and> join_and_equal_unequal sy a e1 e2 = Some t")
  case True
  with join_equal_unequal_sound [OF ok _ _ join_sym_SomeD(3,4) [OF s]] show ?thesis by blast
next
  case False
  note vals = join_operand_values [OF ok join_sym_SomeD(5) [OF s]] const_values [OF ok]
    expr_value.simps(1) [where v = "tri_of sy"] expr_value.simps(3) [where v = "tri_of sy"]
  show ?thesis
    using j ne s False
    unfolding expr_join_and_def
    by (cases "tri_of sy a")
       (auto simp only: vals option.case if_False if_True simp_thms option.inject option.distinct
          expr_alloc_symbol_def bin_op.simps EXPR_AND_min tri_minmax_simps tristate.distinct
          EXPR_NOT.simps min.idem
          dest!: pair_of_value [where t = T_AND and sy = sy] split: if_split_asm option.split_asm)
qed

lemma join_sound:
  assumes ok: "ok sy" and j: "expr_join sy ty e1 e2 = Some t"
  shows "bin_op ty (ev sy e1) (ev sy e2) = ev sy t"
  using j
proof (cases rule: expr_join_cases)
  case 1
  with eq_leaves_sound(1) [OF ok] show ?thesis by simp
next
  case (2 a)
  with j join_or_sound [OF ok 2(2,1)] join_and_sound [OF ok 2(2,1)] show ?thesis
    by (cases ty) (simp_all only: expr_join_def bin_type.case)
qed

lemma join_pass_sound:
  assumes ok: "ok sy"
  shows "pass ty (join_leaf sy ty) e1 e2 n x y m \<Longrightarrow>
    bin_op ty (ev sy e1) (ev sy e2) = bin_op ty (ev sy x) (ev sy y)"
proof (induction rule: pass.induct)
  case (bin1 l e2 n l' e2' n1 r r' e2'' n2)
  have "bin_op ty (ev sy (E_BIN ty l r)) (ev sy e2) = bin_op ty (ev sy r) (bin_op ty (ev sy l) (ev sy e2))"
    by (simp add: bin_op_ac)
  also have "\<dots> = bin_op ty (ev sy l') (bin_op ty (ev sy r) (ev sy e2'))"
    unfolding bin1.IH(1) by (rule bin_op_ac(3))
  also have "\<dots> = bin_op ty (ev sy (E_BIN ty l' r')) (ev sy e2'')"
    unfolding bin1.IH(2) by (simp add: bin_op_ac)
  finally show ?case .
next
  case (bin2 e1 l n e1' l' n1 r e1'' r' n2)
  have "bin_op ty (ev sy e1) (ev sy (E_BIN ty l r)) = bin_op ty (ev sy r) (bin_op ty (ev sy e1) (ev sy l))"
    by (simp add: bin_op_ac)
  also have "\<dots> = bin_op ty (ev sy l') (bin_op ty (ev sy e1') (ev sy r))"
    unfolding bin2.IH(1) by (simp add: bin_op_ac)
  also have "\<dots> = bin_op ty (ev sy e1'') (ev sy (E_BIN ty l' r'))"
    unfolding bin2.IH(2) by (simp add: bin_op_ac)
  finally show ?case .
next
  case (leaf e1 e2 n x y m)
  then show ?case
    using join_sound [OF ok] neutral_unit [OF ok] by (auto simp: join_leaf_def)
qed

lemma eliminate_dups_value: "ok sy \<Longrightarrow> ev sy (expr_eliminate_dups_node sy e) = ev sy e"
proof (induction sy e rule: expr_eliminate_dups_node.induct)
  case (1 sy e)
  note simps = expr_eliminate_dups_node.simps [of sy e]
  show ?case
  proof (cases e)
    case (E_BIN ty l0 r0)
    obtain x y n where p: "expr_eliminate_dups1 sy ty (expr_eliminate_dups_node sy l0)
        (expr_eliminate_dups_node sy r0) 0 = (x, y, n)" by (metis prod_cases3)
    have "ev sy (E_BIN ty x y) = ev sy e"
      using join_pass_sound [OF "1.prems" expr_eliminate_dups1_pass [OF p]]
        "1.IH"(1) [OF E_BIN "1.prems"] "1.IH"(2) [OF E_BIN "1.prems"] E_BIN by simp
    then have v: "ev sy (expr_eliminate_yn (E_BIN ty x y)) = ev sy e"
      using eliminate_yn_value [OF "1.prems"] by simp
    show ?thesis
    proof (cases "n = 0")
      case True
      with simps p v show ?thesis unfolding E_BIN by simp
    next
      case False
      with "1.IH"(3) [OF E_BIN p [symmetric] refl refl False "1.prems"] simps p v show ?thesis
        unfolding E_BIN by simp
    qed
  qed (use simps in simp_all)
qed

end

context valuation
begin

subsection \<open>Rewriting of negations and comparisons\<close>

lemma transform_comp_value:
  assumes ok: "ok sy" and t: "transform_comp sy t a b = Some e"
  shows "ev sy e = ev sy (E_COMP t a b)"
proof (cases "s_type (sy a) = S_BOOLEAN \<and> b \<in> {symbol_yes, symbol_mod, symbol_no}")
  case True
  have nm: "tri_of sy a \<noteq> tri_mod" using True bool_not_mod [OF ok] by blast
  note vals = join_operand_values [OF ok, of a] const_values [OF ok]
  show ?thesis
    using t True nm vals
    by (cases "tri_of sy a"; cases t)
       (auto simp: transform_comp_def expr_alloc_symbol_def simp del: expr_value.simps(4))
next
  case False
  with t show ?thesis by (auto simp: transform_comp_def split: comp_type.splits if_splits)
qed

lemma transform_value:
  "ok sy \<Longrightarrow> expr_transform_node sy e = Some e' \<Longrightarrow> ev sy e' = ev sy e"
proof (induction sy e arbitrary: e' rule: expr_transform_node.induct)
  case (1 sy e)
  note ok = "1.prems"(1)
  show ?case
  proof (cases e)
    case (E_BIN t l0 r0)
    with "1.prems" obtain l r where lr: "expr_transform_node sy l0 = Some l"
      "expr_transform_node sy r0 = Some r" "e' = E_BIN t l r"
      by (auto simp: expr_transform_node_simps bind_Some_iff)
    then show ?thesis
      using "1.IH"(3) [OF E_BIN ok lr(1)] "1.IH"(4) [OF E_BIN lr(1) ok lr(2)] E_BIN by simp
  next
    case (E_NOT c0)
    with "1.prems" obtain c where c: "expr_transform_node sy c0 = Some c"
      by (auto simp: expr_transform_node_NOT bind_Some_iff)
    note v = "1.IH"(1) [OF E_NOT ok c]
    show ?thesis
    proof (cases c)
      case b: (E_BIN t l r)
      have "expr_transform_node sy (E_BIN (dual t) (E_NOT l) (E_NOT r)) = Some e'"
        using "1.prems" c unfolding E_NOT b by (simp add: expr_transform_node_NOT)
      from "1.IH"(2) [OF E_NOT c b ok this] v b E_NOT show ?thesis by (simp add: bin_op_dual)
    qed (use "1.prems" c E_NOT const_values [OF ok] in
        \<open>auto simp: expr_transform_node_NOT expr_alloc_symbol_def comp_result_neg v [symmetric]
          split: if_splits\<close>)
  qed (use "1.prems" transform_comp_value [OF ok] in \<open>auto simp: expr_transform_node_simps\<close>)
qed

subsection \<open>Explicit comparisons\<close>

text \<open>
  \<open>expr_trans_compare\<close> with the constant \<open>y\<close> or \<open>n\<close> gives an expression that tests the value
  for it, when no negated part has the value \<open>m\<close>. (It rewrites \<open>!A != n\<close> to \<open>A = n\<close>, which
  is not the same for \<open>A = m\<close>.) The symbols compared must be boolean or tristate.
\<close>

lemma trans_compare_value:
  assumes ok: "ok sy" and s: "s = symbol_yes \<or> s = symbol_no" and ty: "ty = T_EQUAL \<or> ty = T_UNEQUAL"
  shows "plain_leaves sy (ev sy) e \<Longrightarrow> \<exists>e'. expr_trans_compare_node e ty s = Some e'
    \<and> ev sy e' = (if (ev sy e = tri_of sy s) = (ty = T_EQUAL) then tri_yes else tri_no)"
  using s ty
proof (induction e ty s rule: expr_trans_compare_node.induct)
  case (1 l r ty s)
  then obtain e1 e2 where e: "expr_trans_compare_node l T_EQUAL s = Some e1"
     "expr_trans_compare_node r T_EQUAL s = Some e2"
    and v: "ev sy e1 = (if ev sy l = tri_of sy s then tri_yes else tri_no)"
      "ev sy e2 = (if ev sy r = tri_of sy s then tri_yes else tri_no)" by auto
  show ?case using "1.prems"(2,3)
    by (cases "ev sy l"; cases "ev sy r") (auto simp: e v const_values [OF ok] Let_def min_def)
next
  case (2 l r ty s)
  then obtain e1 e2 where e: "expr_trans_compare_node l T_EQUAL s = Some e1"
     "expr_trans_compare_node r T_EQUAL s = Some e2"
    and v: "ev sy e1 = (if ev sy l = tri_of sy s then tri_yes else tri_no)"
      "ev sy e2 = (if ev sy r = tri_of sy s then tri_yes else tri_no)" by auto
  show ?case using "2.prems"(2,3)
    by (cases "ev sy l"; cases "ev sy r") (auto simp: e v const_values [OF ok] Let_def max_def)
next
  case (3 e ty s)
  then show ?case
    by (cases "ev sy e") (auto simp: const_values [OF ok])
next
  case (4 t a b ty s)
  then show ?case using comp_result_values [of t "cmp sy a b"]
    by (cases "comp_result t (cmp sy a b)") (auto simp: const_values [OF ok] expr_alloc_symbol_def)
next
  case (5 a ty s)
  then show ?case using const_cmps [OF ok, of a]
    by (cases "tri_of sy a") (auto simp: const_values [OF ok])
qed

text \<open>\<open>rewrite_m\<close> makes a bare \<open>m\<close> worth at most the value of the symbol \<open>MODULES\<close>.\<close>

lemma rewrite_m_value:
  "ms \<noteq> symbol_mod \<Longrightarrow>
   ev sy (rewrite_m_node ms e)
     = expr_value ((tri_of sy)(symbol_mod := min (tri_of sy symbol_mod) (tri_of sy ms))) (cmp sy) e"
  by (induction e) (auto simp: expr_alloc_symbol_def)

end

section \<open>The normal form of \<open>expr_transform\<close>\<close>

definition const_tristate :: "(sid \<Rightarrow> symbol) \<Rightarrow> bool" where
  "const_tristate sy \<longleftrightarrow> s_type (sy symbol_yes) = S_TRISTATE
     \<and> s_type (sy symbol_mod) = S_TRISTATE \<and> s_type (sy symbol_no) = S_TRISTATE"

lemma transform_comp_transformed:
  "const_tristate sy \<Longrightarrow> transform_comp sy t a b = Some e \<Longrightarrow> transformed sy e"
  by (auto simp: transform_comp_def expr_alloc_symbol_def const_tristate_def
      split: comp_type.splits if_splits)

lemma expr_transform_transformed:
  "const_tristate sy \<Longrightarrow> expr_transform_node sy e = Some e' \<Longrightarrow> transformed sy e'"
proof (induction sy e arbitrary: e' rule: expr_transform_node.induct)
  case (1 sy e)
  note ct = "1.prems"(1)
  show ?case
  proof (cases e)
    case (E_BIN t l0 r0)
    with "1.prems" obtain l r where lr: "expr_transform_node sy l0 = Some l"
      "expr_transform_node sy r0 = Some r" "e' = E_BIN t l r"
      by (auto simp: expr_transform_node_simps bind_Some_iff)
    then show ?thesis
      using "1.IH"(3) [OF E_BIN ct lr(1)] "1.IH"(4) [OF E_BIN lr(1) ct lr(2)] by simp
  next
    case (E_NOT c0)
    with "1.prems" obtain c where c: "expr_transform_node sy c0 = Some c"
      by (auto simp: expr_transform_node_NOT bind_Some_iff)
    note v = "1.IH"(1) [OF E_NOT ct c]
    show ?thesis
    proof (cases c)
      case b: (E_BIN t l r)
      have "expr_transform_node sy (E_BIN (dual t) (E_NOT l) (E_NOT r)) = Some e'"
        using "1.prems" c unfolding E_NOT b by (simp add: expr_transform_node_NOT)
      from "1.IH"(2) [OF E_NOT c b ct this] show ?thesis .
    next
      case (E_COMP t a b)
      with v 1(6) "1.prems" c E_NOT show ?thesis
        by (cases t) (auto simp: expr_transform_node_NOT)
    qed (use "1.prems" c E_NOT v in
        \<open>auto simp: expr_transform_node_NOT expr_alloc_symbol_def split: if_splits expr.splits\<close>)
  qed (use "1.prems" transform_comp_transformed [OF ct] in \<open>auto simp: expr_transform_node_simps\<close>)
qed

lemma transformed_no_bool_unequal_y: "transformed sy e \<Longrightarrow> no_bool_unequal_y sy e"
  by (induction e) (auto split: expr.splits)

lemma expr_transform_defined:
  assumes ct: "const_tristate sy"
  shows "(expr_transform_node sy e \<noteq> None) = no_bool_unequal_y sy e"
  using ct
proof (induction sy e rule: expr_transform_node.induct)
  case (1 sy e)
  note ct = "1.prems"
  show ?case
  proof (cases e)
    case (E_BIN t l0 r0)
    then show ?thesis
      using "1.IH"(3) [OF E_BIN ct] "1.IH"(4) [OF E_BIN _ ct]
      by (cases "expr_transform_node sy l0"; cases "expr_transform_node sy r0")
         (auto simp: expr_transform_node_simps)
  next
    case (E_NOT c0)
    show ?thesis
    proof (cases "expr_transform_node sy c0")
      case None
      with "1.IH"(1) [OF E_NOT ct] show ?thesis by (simp add: E_NOT expr_transform_node_NOT)
    next
      case (Some c)
      with "1.IH"(1) [OF E_NOT ct] have n: "no_bool_unequal_y sy e" by (simp add: E_NOT)
      have tc: "no_bool_unequal_y sy c"
        using expr_transform_transformed [OF ct Some] by (rule transformed_no_bool_unequal_y)
      show ?thesis
      proof (cases c)
        case b: (E_BIN t l r)
        have "expr_transform_node sy e = expr_transform_node sy (E_BIN (dual t) (E_NOT l) (E_NOT r))"
          using Some unfolding E_NOT b by (simp add: expr_transform_node_NOT)
        with "1.IH"(2) [OF E_NOT Some b ct] tc b n show ?thesis by simp
      qed (use n Some in \<open>simp_all add: E_NOT expr_transform_node_NOT\<close>)
    qed
  qed (auto simp: expr_transform_node_simps transform_comp_def split: comp_type.splits)
qed

lemma expr_transform_fixed:
  "transformed sy e \<Longrightarrow> expr_transform_node sy e = Some e"
proof (induction e)
  case (E_NOT e)
  then show ?case by (auto simp: expr_transform_node_NOT expr_transform_node_simps split: expr.splits)
qed (auto simp: expr_transform_node_simps transform_comp_def split: comp_type.splits)

section \<open>The comparison of the code meets the laws\<close>

text \<open>
  \<open>consts_ok\<close>: the three constants are as \<^verbatim>\<open>symbol.c\<close> initialises them, no boolean symbol
  has the value \<open>m\<close>, and no other constant symbol (a quoted string) compares equal to a
  tristate value. The last condition excludes constants like \<open>"2"\<close>, which
  \<open>expr_parse_string\<close> reads as the number that stands for \<open>y\<close>.
\<close>

definition tristate_text :: "tristate \<Rightarrow> string" where
  "tristate_text t = (case t of tri_no \<Rightarrow> ''n'' | tri_mod \<Rightarrow> ''m'' | tri_yes \<Rightarrow> ''y'')"

definition tristate_symbol :: "string \<Rightarrow> tristate \<Rightarrow> symbol \<Rightarrow> bool" where
  "tristate_symbol nm t y \<longleftrightarrow> s_name y = Some nm \<and> s_type y = S_TRISTATE \<and> tri (curr y) = t
     \<and> SYMBOL_CONST \<in> s_flags y"

definition not_tristate_text :: "symbol \<Rightarrow> bool" where
  "not_tristate_text y \<longleftrightarrow> s_type y = S_UNKNOWN
     \<and> (case expr_parse_string (str_of (val (curr y))) (s_type y) of
          (k, w) \<Rightarrow>
            if k = k_string then str_of (val (curr y)) \<notin> {''n'', ''m'', ''y''}
            else sint w \<notin> {0, 1, 2})"

definition consts_ok :: "(sid \<Rightarrow> symbol) \<Rightarrow> bool" where
  "consts_ok sy \<longleftrightarrow>
     tristate_symbol ''y'' tri_yes (sy symbol_yes) \<and> tristate_symbol ''m'' tri_mod (sy symbol_mod)
     \<and> tristate_symbol ''n'' tri_no (sy symbol_no)
     \<and> (\<forall>i. (s_type (sy (Sym i)) = S_BOOLEAN \<longrightarrow> curr_tri sy (Sym i) \<noteq> tri_mod)
            \<and> (is_const sy (Sym i) \<longrightarrow> not_tristate_text (sy (Sym i))))"

lemma consts_ok_const_tristate: "consts_ok sy \<Longrightarrow> const_tristate sy"
  by (simp add: consts_ok_def tristate_symbol_def const_tristate_def)

lemma string_value_bool:
  "s_type y = S_BOOLEAN \<or> s_type y = S_TRISTATE \<Longrightarrow>
   sym_get_string_value y = Lit (tristate_text (tri (curr y)))"
  by (auto simp: sym_get_string_value_def sym_get_tristate_value_def tristate_text_def
      split: tristate.split)

lemma parse_tristate_text:
  "ty = S_BOOLEAN \<or> ty = S_TRISTATE \<Longrightarrow>
   expr_parse_string (tristate_text t) ty = (k_signed, of_nat (tri_num t))"
  by (cases t) (auto simp: expr_parse_string_def tristate_text_def)

lemma sint_tri_num [simp]: "sint (of_nat (tri_num t) :: 64 word) = int (tri_num t)"
  by (cases t) simp_all

lemma three_way_0_iff [simp]: "three_way a b = 0 \<longleftrightarrow> a = (b::'a::linorder)"
  by (auto simp: three_way_def)

lemma three_way_values: "three_way a b \<in> {-1, 0, 1}"
  by (auto simp: three_way_def)

text \<open>Two boolean or tristate symbols compare by their values.\<close>

lemma compare_tristates:
  assumes "s_type y1 = S_BOOLEAN \<or> s_type y1 = S_TRISTATE"
    and "s_type y2 = S_BOOLEAN \<or> s_type y2 = S_TRISTATE"
  shows "compare_values y1 y2 = three_way (int (tri_num (tri (curr y1)))) (int (tri_num (tri (curr y2))))"
  using assms
  by (auto simp: compare_values_def string_value_bool parse_tristate_text Let_def split: prod.splits)

lemma of_nat_tri_num_eq [simp]:
  "(of_nat (tri_num a) :: 64 word) = of_nat (tri_num b) \<longleftrightarrow> a = b"
  by (cases a; cases b) simp_all

text \<open>Comparing a tristate symbol with any other constant never gives equality.\<close>

lemma compare_not_tristate_text:
  assumes "s_type y1 = S_TRISTATE" and "not_tristate_text y2"
  shows "compare_values y1 y2 \<noteq> 0"
proof -
  obtain k w where p: "expr_parse_string (str_of (val (curr y2))) S_UNKNOWN = (k, w)"
    by (metis prod.exhaust)
  have t: "s_type y2 = S_UNKNOWN" using assms(2) by (simp add: not_tristate_text_def)
  have ks: "k \<noteq> k_unsigned"
    using p by (auto simp: expr_parse_string_def split: prod.splits if_splits)
  have sv: "sym_get_string_value y2 = val (curr y2)" using t by (simp add: sym_get_string_value_def)
  show ?thesis
  proof (cases "k = k_string")
    case True
    with assms p t sv show ?thesis
      by (cases "tri (curr y1)")
         (auto simp: compare_values_def string_value_bool parse_tristate_text Let_def
           not_tristate_text_def strcmp_eq_0_iff tristate_text_def expr_parse_string_def)
  next
    case False
    with ks have "k = k_signed" by (cases k) auto
    with assms p t sv show ?thesis
      by (cases "tri (curr y1)")
         (auto simp: compare_values_def string_value_bool parse_tristate_text Let_def
           not_tristate_text_def)
  qed
qed

lemma curr_tri_simp: "curr_tri sy a = tri (curr (sy a))"
  by (simp add: curr_tri_def sym_get_tristate_value_def)

lemma compare_const:
  assumes "s_type (sy a) \<in> {S_BOOLEAN, S_TRISTATE}" and "tristate_symbol nm t (sy b)"
  shows "expr_compare sy a b = 0 \<longleftrightarrow> curr_tri sy a = t"
  using assms by (simp add: expr_compare_def compare_tristates tristate_symbol_def curr_tri_simp)

lemma compare_two_consts:
  assumes ok: "consts_ok sy" and a: "s_type (sy a) = S_TRISTATE"
    and c: "is_const sy b" "is_const sy c" "b \<noteq> c" and e: "expr_compare sy a b = 0"
  shows "expr_compare sy a c \<noteq> 0"
proof -
  have other: "expr_compare sy a (Sym i) \<noteq> 0" if "is_const sy (Sym i)" for i
    using ok that a compare_not_tristate_text by (simp add: consts_ok_def expr_compare_def)
  have a': "s_type (sy a) \<in> {S_BOOLEAN, S_TRISTATE}" using a by simp
  have cs: "tristate_symbol ''y'' tri_yes (sy symbol_yes)" "tristate_symbol ''m'' tri_mod (sy symbol_mod)"
    "tristate_symbol ''n'' tri_no (sy symbol_no)" using ok by (auto simp: consts_ok_def)
  note cmp = compare_const [OF a' cs(1)] compare_const [OF a' cs(2)] compare_const [OF a' cs(3)]
  show ?thesis using c e other cmp by (cases b; cases c) auto
qed

interpretation expr_model: valuation consts_ok curr_tri expr_compare
proof
  fix sy :: "sid \<Rightarrow> symbol" and a b c :: sid
  assume ok: "consts_ok sy"
  then show "curr_tri sy symbol_yes = tri_yes" "curr_tri sy symbol_mod = tri_mod"
    "curr_tri sy symbol_no = tri_no"
    by (simp_all add: consts_ok_def tristate_symbol_def curr_tri_simp)
  show "curr_tri sy a \<noteq> tri_mod" if "s_type (sy a) = S_BOOLEAN"
    using ok that by (cases a) (auto simp: consts_ok_def tristate_symbol_def)
  show "(expr_compare sy a symbol_yes = 0) = (curr_tri sy a = tri_yes)"
    "(expr_compare sy a symbol_mod = 0) = (curr_tri sy a = tri_mod)"
    "(expr_compare sy a symbol_no = 0) = (curr_tri sy a = tri_no)"
    if "s_type (sy a) \<in> {S_BOOLEAN, S_TRISTATE}"
    using ok that by (auto simp: consts_ok_def intro!: compare_const)
  show "expr_compare sy a c \<noteq> 0" if "s_type (sy a) = S_TRISTATE" "is_const sy b" "is_const sy c"
    "b \<noteq> c" "expr_compare sy a b = 0"
    using compare_two_consts [OF ok that] .
qed

end
