(* ===== verification/ExprPrint.thy ===== *)
theory ExprPrint
  imports ExprSem
begin

text \<open>
  Growable strings (\<^verbatim>\<open>parser/util.c\<close>) and the printing of expressions
  (\<^verbatim>\<open>parser/expr.c\<close>). \<open>expr_print\<close> calls a function for every piece of text; here it
  gives the list of these calls, and the two call-backs of the program are folds over it.
\<close>

section \<open>Growable strings\<close>

record gstr =
  gs_len :: nat
  gs_s :: string
  gs_max_width :: nat

definition str_new :: gstr where
  "str_new = \<lparr>gs_len = 64, gs_s = '''', gs_max_width = 0\<rparr>"

text \<open>\<open>str_append\<close>; \<open>None\<close> is the null pointer.\<close>

definition str_append :: "gstr \<Rightarrow> string option \<Rightarrow> gstr" where
  "str_append gs s =
     (case s of
        None \<Rightarrow> gs
      | Some t \<Rightarrow>
          (let l = length (gs_s gs) + length t + 1;
               gs1 = (if l > gs_len gs then gs\<lparr>gs_len := l\<rparr> else gs)
           in gs1\<lparr>gs_s := gs_s gs1 @ t\<rparr>))"

text \<open>\<open>str_printf\<close> of an already formatted text, cut by \<open>vsnprintf\<close> to the 10000-byte buffer.\<close>

definition str_printf :: "gstr \<Rightarrow> string \<Rightarrow> gstr" where
  "str_printf gs text = str_append gs (Some (take 9999 text))"

definition str_get :: "gstr \<Rightarrow> string" where
  "str_get gs = gs_s gs"

text \<open>The allocation holds the string and its terminator.\<close>

definition gstr_ok :: "gstr \<Rightarrow> bool" where
  "gstr_ok gs \<longleftrightarrow> length (gs_s gs) + 1 \<le> gs_len gs"

lemma str_new_ok: "gstr_ok str_new"
  by (simp add: gstr_ok_def str_new_def)

lemma str_append_ok: "gstr_ok gs \<Longrightarrow> gstr_ok (str_append gs s)"
  by (auto simp: gstr_ok_def str_append_def Let_def split: option.split)

lemma str_append_text: "gs_s (str_append gs (Some t)) = gs_s gs @ t"
  by (simp add: str_append_def Let_def)

section \<open>Printing\<close>

datatype expr_token = TK_NONE | TK_OR | TK_AND | TK_NOT | TK_COMP comp_type | TK_SYMBOL

fun token_of :: "expr \<Rightarrow> expr_token" where
  "token_of (E_SYMBOL a) = TK_SYMBOL"
| "token_of (E_NOT e) = TK_NOT"
| "token_of (E_BIN T_OR l r) = TK_OR"
| "token_of (E_BIN T_AND l r) = TK_AND"
| "token_of (E_COMP t a b) = TK_COMP t"

text \<open>
  \<open>expr_compare_type\<close>, the fall-through cases of the code from each type downwards.
\<close>

definition expr_compare_type :: "expr_token \<Rightarrow> expr_token \<Rightarrow> int" where
  "expr_compare_type t1 t2 =
     (let from_and = (if t2 = TK_OR then 1 else 0);
          from_not = (if t2 = TK_AND then 1 else from_and);
          from_equal = (if t2 = TK_NOT then 1 else from_not);
          from_leq = (if t2 = TK_COMP T_EQUAL \<or> t2 = TK_COMP T_UNEQUAL then 1 else from_equal)
      in if t1 = t2 then 0
         else if t1 \<in> {TK_COMP T_LEQ, TK_COMP T_LTH, TK_COMP T_GEQ, TK_COMP T_GTH} then from_leq
         else if t1 \<in> {TK_COMP T_EQUAL, TK_COMP T_UNEQUAL} then from_equal
         else if t1 = TK_NOT then from_not
         else if t1 = TK_AND then from_and
         else 0)"

text \<open>A call of the printing function: the symbol, if one is passed, and the text.\<close>

type_synonym print_call = "sid option \<times> string"

fun comp_text :: "comp_type \<Rightarrow> string" where
  "comp_text T_EQUAL = ''=''"
| "comp_text T_LEQ = ''<=''"
| "comp_text T_LTH = ''<''"
| "comp_text T_GEQ = ''>=''"
| "comp_text T_GTH = ''>''"
| "comp_text T_UNEQUAL = ''!=''"

definition name_text :: "symbol \<Rightarrow> string" where
  "name_text y = (case s_name y of None \<Rightarrow> '''' | Some n \<Rightarrow> n)"

definition print_left :: "(sid \<Rightarrow> symbol) \<Rightarrow> sid \<Rightarrow> print_call" where
  "print_left sy a = (case s_name (sy a) of Some n \<Rightarrow> (Some a, n) | None \<Rightarrow> (None, ''<choice>''))"

fun expr_print_node :: "(sid \<Rightarrow> symbol) \<Rightarrow> expr \<Rightarrow> expr_token \<Rightarrow> print_call list" where
  "expr_print_node sy (E_SYMBOL a) prev =
     (if expr_compare_type prev TK_SYMBOL > 0 then [(None, ''('')] else [])
     @ [print_left sy a]
     @ (if expr_compare_type prev TK_SYMBOL > 0 then [(None, '')'')] else [])"
| "expr_print_node sy (E_NOT e) prev =
     (if expr_compare_type prev TK_NOT > 0 then [(None, ''('')] else [])
     @ [(None, ''!'')] @ expr_print_node sy e TK_NOT
     @ (if expr_compare_type prev TK_NOT > 0 then [(None, '')'')] else [])"
| "expr_print_node sy (E_COMP t a b) prev =
     (if expr_compare_type prev (TK_COMP t) > 0 then [(None, ''('')] else [])
     @ [print_left sy a, (None, comp_text t), (Some b, name_text (sy b))]
     @ (if expr_compare_type prev (TK_COMP t) > 0 then [(None, '')'')] else [])"
| "expr_print_node sy (E_BIN T_OR l r) prev =
     (if expr_compare_type prev TK_OR > 0 then [(None, ''('')] else [])
     @ expr_print_node sy l TK_OR @ [(None, '' || '')] @ expr_print_node sy r TK_OR
     @ (if expr_compare_type prev TK_OR > 0 then [(None, '')'')] else [])"
| "expr_print_node sy (E_BIN T_AND l r) prev =
     (if expr_compare_type prev TK_AND > 0 then [(None, ''('')] else [])
     @ expr_print_node sy l TK_AND @ [(None, '' && '')] @ expr_print_node sy r TK_AND
     @ (if expr_compare_type prev TK_AND > 0 then [(None, '')'')] else [])"

definition expr_print :: "(sid \<Rightarrow> symbol) \<Rightarrow> expr option \<Rightarrow> expr_token \<Rightarrow> print_call list" where
  "expr_print sy e prev =
     (case e of None \<Rightarrow> [(None, ''y'')] | Some e' \<Rightarrow> expr_print_node sy e' prev)"

text \<open>\<open>expr_fprint\<close>: the text written to the file.\<close>

definition expr_fprint :: "(sid \<Rightarrow> symbol) \<Rightarrow> expr option \<Rightarrow> string" where
  "expr_fprint sy e = concat (map snd (expr_print sy e TK_NONE))"

text \<open>\<open>expr_print_gstr_helper\<close> and \<open>expr_gstr_print\<close>.\<close>

definition last_line_length :: "string \<Rightarrow> nat" where
  "last_line_length s =
     (if CHR 0x0A \<in> set s then length (takeWhile (\<lambda>c. c \<noteq> CHR 0x0A) (rev s)) + 1 else length s)"

definition expr_print_gstr_helper :: "(sid \<Rightarrow> symbol) \<Rightarrow> gstr \<Rightarrow> print_call \<Rightarrow> gstr" where
  "expr_print_gstr_helper sy gs call =
     (case call of (a, str) \<Rightarrow>
        (let sym_str = Option.bind a (\<lambda>b.
               (case sym_get_string_value (sy b) of NULL \<Rightarrow> None | p \<Rightarrow> Some (str_of p)));
             extra = length str + (case sym_str of None \<Rightarrow> 0 | Some t \<Rightarrow> 4 + length t);
             gs1 = (if gs_max_width gs > 0 \<and> last_line_length (gs_s gs) + extra > gs_max_width gs
                    then str_append gs (Some [CHR 0x5C, CHR 0x0A]) else gs);
             gs2 = str_append gs1 (Some str)
         in case a of
              None \<Rightarrow> gs2
            | Some b \<Rightarrow>
                (if s_type (sy b) \<noteq> S_UNKNOWN
                 then str_printf gs2 ('' [='' @ case_option ''(null)'' id sym_str @ '']'')
                 else gs2)))"

definition expr_gstr_print :: "(sid \<Rightarrow> symbol) \<Rightarrow> expr option \<Rightarrow> gstr \<Rightarrow> gstr" where
  "expr_gstr_print sy e gs = foldl (expr_print_gstr_helper sy) gs (expr_print sy e TK_NONE)"

lemma expr_print_gstr_helper_ok: "gstr_ok gs \<Longrightarrow> gstr_ok (expr_print_gstr_helper sy gs c)"
  by (cases c) (auto simp: expr_print_gstr_helper_def Let_def str_printf_def intro!: str_append_ok
      split: option.split)

lemma expr_gstr_print_ok: "gstr_ok gs \<Longrightarrow> gstr_ok (expr_gstr_print sy e gs)"
proof -
  have "gstr_ok gs \<Longrightarrow> gstr_ok (foldl (expr_print_gstr_helper sy) gs cs)" for cs
    by (induction cs arbitrary: gs) (simp_all add: expr_print_gstr_helper_ok)
  then show "gstr_ok gs \<Longrightarrow> ?thesis" by (simp add: expr_gstr_print_def)
qed

end
