(* ===== verification/MenuTree.thy ===== *)
theory MenuTree
  imports Kdata
begin

text \<open>
  The menu tree of \<^verbatim>\<open>parser/menu.c\<close> as the pointers \<open>list\<close>, \<open>next\<close> and \<open>parent\<close> of the
  entries, its depth-first traversal (\<open>menu_next\<close> and the macro \<open>menu_for_each_sub_entry\<close>),
  and the two look-ups of \<^verbatim>\<open>symbol.c\<close> that walk it. The loops follow pointers and may not
  end on a damaged structure, so they are partial: \<open>None\<close> is no result (an endless walk or a
  null pointer followed). For a tree of entries the results are proved to exist.
\<close>

type_synonym menu_map = "mid \<Rightarrow> menu"

section \<open>Traversal\<close>

partial_function (option) menu_up :: "menu_map \<Rightarrow> mid option \<Rightarrow> mid option \<Rightarrow> mid option option" where
  "menu_up M root m =
     (if m = root then Some None
      else (case m of
              None \<Rightarrow> None
            | Some i \<Rightarrow>
                (case m_next (M i) of
                   Some n \<Rightarrow> Some (Some n)
                 | None \<Rightarrow> menu_up M root (m_parent (M i)))))"

definition menu_next :: "menu_map \<Rightarrow> mid \<Rightarrow> mid option \<Rightarrow> mid option option" where
  "menu_next M m root =
     (case m_list (M m) of
        Some c \<Rightarrow> Some (Some c)
      | None \<Rightarrow> menu_up M root (Some m))"

text \<open>\<open>menu_for_each_sub_entry(m, root)\<close>: the entries visited, in order.\<close>

partial_function (option) sub_entries_from :: "menu_map \<Rightarrow> mid \<Rightarrow> mid \<Rightarrow> mid list option" where
  "sub_entries_from M root m =
     (case menu_next M m (Some root) of
        None \<Rightarrow> None
      | Some None \<Rightarrow> Some []
      | Some (Some n) \<Rightarrow> Option.bind (sub_entries_from M root n) (\<lambda>l. Some (n # l)))"

definition sub_entries :: "menu_map \<Rightarrow> mid \<Rightarrow> mid list option" where
  "sub_entries M root = sub_entries_from M root root"

section \<open>Look-ups for a symbol\<close>

fun first_prompt_menu :: "menu_map \<Rightarrow> mid list \<Rightarrow> mid option" where
  "first_prompt_menu M [] = None"
| "first_prompt_menu M (m # ms) = (if m_prompt (M m) \<noteq> None then Some m else first_prompt_menu M ms)"

definition sym_get_prompt_menu :: "menu_map \<Rightarrow> symbol \<Rightarrow> mid option" where
  "sym_get_prompt_menu M y = first_prompt_menu M (s_menus y)"

text \<open>The loop \<open>do menu = menu->parent; while (menu && !menu->sym)\<close>.\<close>

partial_function (option) up_to_sym :: "menu_map \<Rightarrow> mid \<Rightarrow> mid option option" where
  "up_to_sym M m =
     (case m_parent (M m) of
        None \<Rightarrow> Some None
      | Some p \<Rightarrow> (if m_sym (M p) \<noteq> None then Some (Some p) else up_to_sym M p))"

definition sym_get_choice_menu :: "(sid \<Rightarrow> symbol) \<Rightarrow> menu_map \<Rightarrow> symbol \<Rightarrow> mid option option" where
  "sym_get_choice_menu sy M y =
     (case sym_get_prompt_menu M y of
        None \<Rightarrow> Some None
      | Some m \<Rightarrow>
          (case up_to_sym M m of
             None \<Rightarrow> None
           | Some None \<Rightarrow> Some None
           | Some (Some p) \<Rightarrow>
               Some (case m_sym (M p) of
                       None \<Rightarrow> None
                     | Some c \<Rightarrow> if sym_is_choice (sy c) then Some p else None)))"

declare menu_up.simps [code] sub_entries_from.simps [code] up_to_sym.simps [code]

section \<open>Trees of entries\<close>

datatype mtree = MNode (entry: mid) (children: "mtree list")

fun first_entry :: "mtree list \<Rightarrow> mid option" where
  "first_entry [] = None"
| "first_entry (t # ts) = Some (entry t)"

fun tree_ok :: "menu_map \<Rightarrow> mtree \<Rightarrow> bool"
  and forest_ok :: "menu_map \<Rightarrow> mid \<Rightarrow> mtree list \<Rightarrow> bool" where
  "tree_ok M (MNode m ts) = (m_list (M m) = first_entry ts \<and> forest_ok M m ts)"
| "forest_ok M p [] = True"
| "forest_ok M p (t # ts) =
     (m_parent (M (entry t)) = Some p \<and> m_next (M (entry t)) = first_entry ts
      \<and> tree_ok M t \<and> forest_ok M p ts)"

fun preorder :: "mtree \<Rightarrow> mid list"
  and forest_preorder :: "mtree list \<Rightarrow> mid list" where
  "preorder (MNode m ts) = m # forest_preorder ts"
| "forest_preorder [] = []"
| "forest_preorder (t # ts) = preorder t @ forest_preorder ts"

lemma entry_in_preorder [simp]: "entry t \<in> set (preorder t)"
  by (cases t) simp

lemma preorder_hd: "preorder t = entry t # forest_preorder (children t)"
  by (cases t) simp

text \<open>What a traversal still visits from a position: nothing, or an entry and what follows it.\<close>

definition rest_from :: "menu_map \<Rightarrow> mid \<Rightarrow> mid option \<Rightarrow> mid list option" where
  "rest_from M r k =
     (case k of None \<Rightarrow> Some [] | Some n \<Rightarrow> Option.bind (sub_entries_from M r n) (\<lambda>l. Some (n # l)))"

lemma sub_entries_from_rest:
  "sub_entries_from M r m = Option.bind (menu_next M m (Some r)) (rest_from M r)"
  by (subst sub_entries_from.simps)
     (auto simp: rest_from_def split: option.splits)

text \<open>
  Inside a tree that does not contain the root of the traversal: from an entry the traversal
  visits the entries below it and then continues upwards.
\<close>

lemma traverse_below:
  "tree_ok M t \<Longrightarrow> r \<notin> set (preorder t) \<Longrightarrow> menu_up M (Some r) (Some (entry t)) = Some k \<Longrightarrow>
     rest_from M r k = Some rest \<Longrightarrow>
     sub_entries_from M r (entry t) = Some (forest_preorder (children t) @ rest)"
  "forest_ok M p ts \<Longrightarrow> r \<notin> set (forest_preorder ts) \<Longrightarrow> menu_up M (Some r) (Some p) = Some k \<Longrightarrow>
     rest_from M r k = Some rest \<Longrightarrow> ts \<noteq> [] \<Longrightarrow>
     rest_from M r (first_entry ts) = Some (forest_preorder ts @ rest)"
proof (induction t and ts arbitrary: k rest and p k rest rule: preorder_forest_preorder.induct)
  case (1 m ts)
  show ?case
  proof (cases ts)
    case Nil
    with "1.prems" show ?thesis by (simp add: sub_entries_from_rest menu_next_def)
  next
    case (Cons t ts')
    have "rest_from M r (first_entry ts) = Some (forest_preorder ts @ rest)"
      using "1.IH" [of m k rest] "1.prems" Cons by simp
    with Cons "1.prems"(1) show ?thesis by (simp add: sub_entries_from_rest [of M r m] menu_next_def)
  qed
next
  case (3 t ts)
  show ?case
  proof (cases ts)
    case Nil
    have "entry t \<noteq> r" using "3.prems"(2) entry_in_preorder [of t] by auto
    then have "menu_up M (Some r) (Some (entry t)) = Some k"
      using "3.prems" Nil by (subst menu_up.simps) simp
    then have "sub_entries_from M r (entry t) = Some (forest_preorder (children t) @ rest)"
      using "3.IH"(1) [of k rest] "3.prems" by simp
    then show ?thesis by (simp add: rest_from_def preorder_hd Nil)
  next
    case (Cons t' ts')
    have "entry t \<noteq> r" using "3.prems"(2) entry_in_preorder [of t] by auto
    then have up: "menu_up M (Some r) (Some (entry t)) = Some (first_entry ts)"
      using "3.prems" Cons by (subst menu_up.simps) simp
    have "rest_from M r (first_entry ts) = Some (forest_preorder ts @ rest)"
      using "3.IH"(2) [of p k rest] "3.prems" Cons by simp
    with up have "sub_entries_from M r (entry t)
        = Some (forest_preorder (children t) @ forest_preorder ts @ rest)"
      using "3.IH"(1) [of "first_entry ts" "forest_preorder ts @ rest"] "3.prems" by simp
    then show ?thesis by (simp add: rest_from_def preorder_hd)
  qed
qed simp_all

lemma sub_entries_preorder:
  assumes "tree_ok M (MNode r ts)" and "r \<notin> set (forest_preorder ts)"
  shows "sub_entries M r = Some (forest_preorder ts)"
proof -
  have up: "menu_up M (Some r) (Some r) = Some None" by (subst menu_up.simps) simp
  show ?thesis
  proof (cases ts)
    case Nil
    with assms up show ?thesis
      by (simp add: sub_entries_def sub_entries_from_rest menu_next_def rest_from_def)
  next
    case (Cons t ts')
    with assms up traverse_below(2) [of M r ts r None "[]"]
    have "rest_from M r (first_entry ts) = Some (forest_preorder ts)"
      by (simp add: rest_from_def)
    with assms Cons show ?thesis
      by (simp add: sub_entries_def sub_entries_from_rest [of M r r] menu_next_def)
  qed
qed

text \<open>The upward walk of \<open>sym_get_choice_menu\<close> ends for every entry of a tree.\<close>

lemma up_to_sym_step:
  "m_parent (M m) = Some p \<Longrightarrow> up_to_sym M p \<noteq> None \<Longrightarrow> up_to_sym M m \<noteq> None"
  by (subst up_to_sym.simps) simp

lemma up_to_sym_below:
  "tree_ok M t \<Longrightarrow> up_to_sym M (entry t) \<noteq> None \<Longrightarrow> m \<in> set (preorder t) \<Longrightarrow> up_to_sym M m \<noteq> None"
  "forest_ok M p ts \<Longrightarrow> up_to_sym M p \<noteq> None \<Longrightarrow> m \<in> set (forest_preorder ts) \<Longrightarrow>
     up_to_sym M m \<noteq> None"
proof (induction t and ts arbitrary: and p rule: preorder_forest_preorder.induct)
  case (3 t ts)
  then have "up_to_sym M (entry t) \<noteq> None"
    by (intro up_to_sym_step [of M "entry t" p]) simp_all
  with "3.IH"(1) "3.IH"(2) [of p] "3.prems" show ?case by auto
qed auto

lemma up_to_sym_tree:
  assumes "tree_ok M t" and "m_parent (M (entry t)) = None" and "m \<in> set (preorder t)"
  shows "up_to_sym M m \<noteq> None"
proof -
  have "up_to_sym M (entry t) \<noteq> None" using assms(2) by (subst up_to_sym.simps) simp
  with up_to_sym_below(1) [OF assms(1) _ assms(3)] show ?thesis by simp
qed

end
