(* ===== verification/Symbol.thy ===== *)
theory Symbol
  imports ExprPrint MenuTree
begin

text \<open>
  The evaluation of symbols, \<^verbatim>\<open>parser/symbol.c\<close>, and of expressions in the running state,
  \<^verbatim>\<open>parser/expr.c\<close>. \<open>sym_calc_value\<close> calls itself through expressions, properties, ranges,
  choices and the warning it prints, and it marks a symbol valid before it looks at anything
  else. Every function that may call it takes it as the argument \<open>calc\<close>; the recursion is
  closed at the end with a bound on the depth of nested evaluations, and the bound is proved
  to be met by the number of symbols not yet valid. \<open>None\<close> is no result: the bound was not
  enough, a walk over the menu pointers did not end, or a null pointer was followed.
\<close>

type_synonym calc = "sid \<Rightarrow> kstate \<Rightarrow> kstate option"

section \<open>Initial values\<close>

text \<open>
  A symbol just allocated (\<open>memset\<close> to zero), the three constants of \<^verbatim>\<open>symbol.c\<close>, and
  the state before anything is parsed. A symbol identifier not yet handed out counts as valid,
  so that the symbols that are not valid are the ones still to be calculated.
\<close>

definition blank_value :: symbol_value where
  "blank_value = \<lparr>val = NULL, tri = tri_no\<rparr>"

definition blank_symbol :: symbol where
  "blank_symbol = \<lparr>s_name = None, s_type = S_UNKNOWN, curr = blank_value, sdef = (\<lambda>_. blank_value),
     visible = tri_no, s_menus = [], choice_link = False, s_flags = {}, s_prop = [],
     dir_dep_expr = None, dir_dep_tri = tri_no, rev_dep_expr = None, rev_dep_tri = tri_no,
     implied_expr = None, implied_tri = tri_no\<rparr>"

definition const_symbol :: "string \<Rightarrow> tristate \<Rightarrow> symbol" where
  "const_symbol nm t = blank_symbol\<lparr>s_name := Some nm, s_type := S_TRISTATE,
     curr := \<lparr>val = Lit nm, tri = t\<rparr>, s_flags := {SYMBOL_CONST, SYMBOL_VALID}\<rparr>"

definition blank_menu :: menu where
  "blank_menu = \<lparr>m_type = M_CHOICE, m_next = None, m_parent = None, m_list = None, m_sym = None,
     choice_members = [], m_prompt = None, m_visibility = None, m_dep = None, m_flags = {},
     m_help = None, m_filename = '''', m_lineno = 0\<rparr>"

definition blank_prop :: property where
  "blank_prop = \<lparr>p_type = P_UNKNOWN, p_text = None, p_visible_expr = None, p_visible_tri = tri_no,
     p_expr = P_NONE, p_menu = rootmenu, p_filename = '''', p_lineno = 0\<rparr>"

definition init_syms :: "sid \<Rightarrow> symbol" where
  "init_syms a = (case a of
       symbol_yes \<Rightarrow> const_symbol ''y'' tri_yes
     | symbol_mod \<Rightarrow> const_symbol ''m'' tri_mod
     | symbol_no \<Rightarrow> const_symbol ''n'' tri_no
     | Sym i \<Rightarrow> blank_symbol\<lparr>s_flags := {SYMBOL_VALID}\<rparr>)"

definition init_state :: kstate where
  "init_state = \<lparr>syms = init_syms,
     menus = (\<lambda>m. if m = rootmenu then blank_menu\<lparr>m_type := M_MENU\<rparr> else blank_menu),
     props = (\<lambda>_. blank_prop), expr_val = (\<lambda>_. None), sym_table = [], modules_sym = symbol_no,
     modules_val = tri_no, sym_warnings = 0, conf_changed = False, next_addr = 0, stderr_out = ''''\<rparr>"

section \<open>Expressions\<close>

text \<open>\<open>expr_calc_value\<close>: the cached value, or the one \<open>__expr_calc_value\<close> computes, cached.\<close>

definition cached :: "expr \<Rightarrow> (kstate \<Rightarrow> (tristate \<times> kstate) option) \<Rightarrow> kstate \<Rightarrow> (tristate \<times> kstate) option" where
  "cached e f s =
     (case expr_val s e of
        Some v \<Rightarrow> Some (v, s)
      | None \<Rightarrow> do {
          (v, s) \<leftarrow> f s;
          Some (v, s\<lparr>expr_val := (expr_val s)(e := Some v)\<rparr>)
        })"

fun expr_calc_node :: "calc \<Rightarrow> expr \<Rightarrow> kstate \<Rightarrow> (tristate \<times> kstate) option" where
  "expr_calc_node calc (E_SYMBOL a) s =
     cached (E_SYMBOL a) (\<lambda>s. do {
       s \<leftarrow> calc a s;
       Some (sym_get_tristate_value (syms s a), s)
     }) s"
| "expr_calc_node calc (E_BIN t l r) s =
     cached (E_BIN t l r) (\<lambda>s. do {
       (val1, s) \<leftarrow> expr_calc_node calc l s;
       (val2, s) \<leftarrow> expr_calc_node calc r s;
       Some (bin_op t val1 val2, s)
     }) s"
| "expr_calc_node calc (E_NOT e) s =
     cached (E_NOT e) (\<lambda>s. do {
       (val1, s) \<leftarrow> expr_calc_node calc e s;
       Some (EXPR_NOT val1, s)
     }) s"
| "expr_calc_node calc (E_COMP t a b) s =
     cached (E_COMP t a b) (\<lambda>s. do {
       s \<leftarrow> calc a s;
       s \<leftarrow> calc b s;
       Some (comp_result t (expr_compare (syms s) a b), s)
     }) s"

definition expr_calc_value :: "calc \<Rightarrow> expr option \<Rightarrow> kstate \<Rightarrow> (tristate \<times> kstate) option" where
  "expr_calc_value calc e s =
     (case e of None \<Rightarrow> Some (tri_yes, s) | Some e' \<Rightarrow> expr_calc_node calc e' s)"

definition expr_invalidate_all :: "kstate \<Rightarrow> kstate" where
  "expr_invalidate_all s = s\<lparr>expr_val := (\<lambda>_. None)\<rparr>"

section \<open>Types, properties and ranges\<close>

definition sym_get_type :: "kstate \<Rightarrow> symbol \<Rightarrow> symbol_type" where
  "sym_get_type s y =
     (if s_type y = S_TRISTATE \<and> modules_val s = tri_no then S_BOOLEAN else s_type y)"

fun sym_type_name :: "symbol_type \<Rightarrow> string" where
  "sym_type_name S_BOOLEAN = ''bool''"
| "sym_type_name S_TRISTATE = ''tristate''"
| "sym_type_name S_INT = ''integer''"
| "sym_type_name S_HEX = ''hex''"
| "sym_type_name S_STRING = ''string''"
| "sym_type_name S_UNKNOWN = ''unknown''"

definition prop_get_symbol :: "property \<Rightarrow> sid option" where
  "prop_get_symbol p = (case p_expr p of P_EXPR (E_SYMBOL a) \<Rightarrow> Some a | _ \<Rightarrow> None)"

text \<open>The loop of \<open>sym_get_default_prop\<close> and \<open>sym_get_range_prop\<close>.\<close>

definition calc_prop_visible :: "calc \<Rightarrow> pid \<Rightarrow> kstate \<Rightarrow> (tristate \<times> kstate) option" where
  "calc_prop_visible calc p s = do {
     (v, s) \<leftarrow> expr_calc_value calc (p_visible_expr (props s p)) s;
     Some (v, upd_prop p (\<lambda>q. q\<lparr>p_visible_tri := v\<rparr>) s)
   }"

fun first_visible_prop :: "calc \<Rightarrow> prop_type \<Rightarrow> pid list \<Rightarrow> kstate \<Rightarrow> (pid option \<times> kstate) option" where
  "first_visible_prop calc ty [] s = Some (None, s)"
| "first_visible_prop calc ty (p # ps) s =
     (if p_type (props s p) \<noteq> ty then first_visible_prop calc ty ps s
      else do {
        (v, s) \<leftarrow> calc_prop_visible calc p s;
        if v \<noteq> tri_no then Some (Some p, s) else first_visible_prop calc ty ps s
      })"

definition sym_get_default_prop :: "calc \<Rightarrow> sid \<Rightarrow> kstate \<Rightarrow> (pid option \<times> kstate) option" where
  "sym_get_default_prop calc a s = first_visible_prop calc P_DEFAULT (s_prop (syms s a)) s"

definition sym_get_range_prop :: "calc \<Rightarrow> sid \<Rightarrow> kstate \<Rightarrow> (pid option \<times> kstate) option" where
  "sym_get_range_prop calc a s = first_visible_prop calc P_RANGE (s_prop (syms s a)) s"

definition sym_get_range_val :: "calc \<Rightarrow> sid \<Rightarrow> nat \<Rightarrow> kstate \<Rightarrow> (int \<times> kstate) option" where
  "sym_get_range_val calc a base s = do {
     s \<leftarrow> calc a s;
     let base = (case s_type (syms s a) of S_INT \<Rightarrow> 10 | S_HEX \<Rightarrow> 16 | _ \<Rightarrow> base);
     Some (fst (strtoll_int base (str_of (val (curr (syms s a))))), s)
   }"

definition set_curr_val :: "sid \<Rightarrow> strptr \<Rightarrow> kstate \<Rightarrow> kstate" where
  "set_curr_val a v s = upd_sym a (\<lambda>y. y\<lparr>curr := (curr y)\<lparr>val := v\<rparr>\<rparr>) s"

text \<open>The two bounds of a range property; \<open>None\<close> if its expression is not a range.\<close>

definition range_of :: "property \<Rightarrow> (sid \<times> sid) option" where
  "range_of p = (case p_expr p of E_RANGE l r \<Rightarrow> Some (l, r) | _ \<Rightarrow> None)"

definition apply_range :: "calc \<Rightarrow> sid \<Rightarrow> nat \<Rightarrow> sid \<Rightarrow> sid \<Rightarrow> kstate \<Rightarrow> kstate option" where
  "apply_range calc a base l r s = do {
     let v = fst (strtoll_int base (str_of (val (curr (syms s a)))));
     (v2, s) \<leftarrow> sym_get_range_val calc l base s;
     if v \<ge> v2 then do {
       (v2, s) \<leftarrow> sym_get_range_val calc r base s;
       Some (if v \<le> v2 then s else set_curr_val a (val (curr (syms s r))) s)
     }
     else Some (set_curr_val a (val (curr (syms s l))) s)
   }"

definition sym_validate_range :: "calc \<Rightarrow> sid \<Rightarrow> kstate \<Rightarrow> kstate option" where
  "sym_validate_range calc a s =
     (if s_type (syms s a) \<noteq> S_INT \<and> s_type (syms s a) \<noteq> S_HEX then Some s
      else do {
        let base = (if s_type (syms s a) = S_INT then 10 else 16);
        (prop, s) \<leftarrow> sym_get_range_prop calc a s;
        case prop of
          None \<Rightarrow> Some s
        | Some p \<Rightarrow> do {
            (l, r) \<leftarrow> range_of (props s p);
            apply_range calc a base l r s
          }
      })"

section \<open>Change marks\<close>

definition mark_menu :: "mid \<Rightarrow> kstate \<Rightarrow> kstate" where
  "mark_menu m s = upd_menu m (\<lambda>x. x\<lparr>m_flags := insert MENU_CHANGED (m_flags x)\<rparr>) s"

definition sym_set_changed :: "sid \<Rightarrow> kstate \<Rightarrow> kstate option" where
  "sym_set_changed a s = do {
     let s = fold mark_menu (s_menus (syms s a)) s;
     choice \<leftarrow> sym_get_choice_menu (syms s) (menus s) (syms s a);
     Some (case choice of None \<Rightarrow> s | Some m \<Rightarrow> mark_menu m s)
   }"

fun set_changed_list :: "sid list \<Rightarrow> kstate \<Rightarrow> kstate option" where
  "set_changed_list [] s = Some s"
| "set_changed_list (a # as) s = do { s \<leftarrow> sym_set_changed a s; set_changed_list as s }"

definition sym_set_all_changed :: "kstate \<Rightarrow> kstate option" where
  "sym_set_all_changed s = set_changed_list (sym_table s) s"

section \<open>Visibility\<close>

fun calc_prompts :: "calc \<Rightarrow> pid list \<Rightarrow> tristate \<Rightarrow> kstate \<Rightarrow> (tristate \<times> kstate) option" where
  "calc_prompts calc [] t s = Some (t, s)"
| "calc_prompts calc (p # ps) t s =
     (if p_text (props s p) = None then calc_prompts calc ps t s
      else do {
        (v, s) \<leftarrow> calc_prop_visible calc p s;
        calc_prompts calc ps (EXPR_OR t v) s
      })"

text \<open>
  The value of one of the three dependency expressions, \<open>dflt\<close> when there is none, with \<open>m\<close>
  promoted for a boolean.
\<close>

definition calc_dep :: "calc \<Rightarrow> sid \<Rightarrow> expr option \<Rightarrow> tristate \<Rightarrow> kstate \<Rightarrow> (tristate \<times> kstate) option" where
  "calc_dep calc a e dflt s = do {
     (t, s) \<leftarrow> (case e of None \<Rightarrow> Some (dflt, s) | Some e' \<Rightarrow> expr_calc_value calc (Some e') s);
     Some (if t = tri_mod \<and> sym_get_type s (syms s a) = S_BOOLEAN then tri_yes else t, s)
   }"

text \<open>\<open>if (field != tri) { field = tri; sym_set_changed(sym); }\<close>\<close>

definition set_if_changed ::
    "sid \<Rightarrow> (symbol \<Rightarrow> tristate) \<Rightarrow> (tristate \<Rightarrow> symbol \<Rightarrow> symbol) \<Rightarrow> tristate \<Rightarrow> kstate \<Rightarrow> kstate option" where
  "set_if_changed a get put t s =
     (if get (syms s a) \<noteq> t then sym_set_changed a (upd_sym a (put t) s) else Some s)"

definition set_visible :: "tristate \<Rightarrow> symbol \<Rightarrow> symbol" where
  "set_visible t y = y\<lparr>visible := t\<rparr>"
definition set_dir_dep :: "tristate \<Rightarrow> symbol \<Rightarrow> symbol" where
  "set_dir_dep t y = y\<lparr>dir_dep_tri := t\<rparr>"
definition set_rev_dep :: "tristate \<Rightarrow> symbol \<Rightarrow> symbol" where
  "set_rev_dep t y = y\<lparr>rev_dep_tri := t\<rparr>"
definition set_implied :: "tristate \<Rightarrow> symbol \<Rightarrow> symbol" where
  "set_implied t y = y\<lparr>implied_tri := t\<rparr>"

definition sym_calc_visibility :: "calc \<Rightarrow> sid \<Rightarrow> kstate \<Rightarrow> kstate option" where
  "sym_calc_visibility calc a s =
     (if SYMBOL_TRANS \<in> s_flags (syms s a) then Some (upd_sym a (set_visible tri_yes) s)
      else do {
        (t, s) \<leftarrow> calc_prompts calc (s_prop (syms s a)) tri_no s;
        let t = (if t = tri_mod \<and> (s_type (syms s a) \<noteq> S_TRISTATE \<or> modules_val s = tri_no)
                 then tri_yes else t);
        s \<leftarrow> set_if_changed a visible set_visible t s;
        if sym_is_choice_value (syms s a) then Some s
        else do {
          (t, s) \<leftarrow> calc_dep calc a (dir_dep_expr (syms s a)) tri_yes s;
          s \<leftarrow> set_if_changed a dir_dep_tri set_dir_dep t s;
          (t, s) \<leftarrow> calc_dep calc a (rev_dep_expr (syms s a)) tri_no s;
          s \<leftarrow> set_if_changed a rev_dep_tri set_rev_dep t s;
          (t, s) \<leftarrow> calc_dep calc a (implied_expr (syms s a)) tri_no s;
          set_if_changed a implied_tri set_implied t s
        }
      })"

section \<open>Choices\<close>

fun choice_default_prop :: "calc \<Rightarrow> pid list \<Rightarrow> kstate \<Rightarrow> (sid option \<times> kstate) option" where
  "choice_default_prop calc [] s = Some (None, s)"
| "choice_default_prop calc (p # ps) s =
     (if p_type (props s p) \<noteq> P_DEFAULT then choice_default_prop calc ps s
      else do {
        (v, s) \<leftarrow> calc_prop_visible calc p s;
        if v = tri_no then choice_default_prop calc ps s
        else do {
          def_sym \<leftarrow> prop_get_symbol (props s p);
          if visible (syms s def_sym) \<noteq> tri_no then Some (Some def_sym, s)
          else choice_default_prop calc ps s
        }
      })"

definition entry_syms :: "kstate \<Rightarrow> mid list \<Rightarrow> sid list" where
  "entry_syms s ms = List.map_filter (\<lambda>m. m_sym (menus s m)) ms"

definition sym_choice_default :: "calc \<Rightarrow> mid \<Rightarrow> kstate \<Rightarrow> (sid option \<times> kstate) option" where
  "sym_choice_default calc c s = do {
     csym \<leftarrow> m_sym (menus s c);
     (d, s) \<leftarrow> choice_default_prop calc (s_prop (syms s csym)) s;
     case d of
       Some def_sym \<Rightarrow> Some (Some def_sym, s)
     | None \<Rightarrow> do {
         ms \<leftarrow> sub_entries (menus s) c;
         Some (find (\<lambda>a. visible (syms s a) \<noteq> tri_no) (entry_syms s ms), s)
       }
   }"

text \<open>The four attempts of \<open>sym_calc_choice\<close>, and its final loop.\<close>

fun choice_user_yes :: "calc \<Rightarrow> sid list \<Rightarrow> kstate \<Rightarrow> (sid option \<times> kstate) option" where
  "choice_user_yes calc [] s = Some (None, s)"
| "choice_user_yes calc (a # as) s = do {
     s \<leftarrow> sym_calc_visibility calc a s;
     if visible (syms s a) = tri_no then choice_user_yes calc as s
     else if sym_has_value (syms s a) \<and> tri (sdef (syms s a) S_DEF_USER) = tri_yes
       then Some (Some a, s)
     else choice_user_yes calc as s
   }"

definition choice_default :: "calc \<Rightarrow> mid \<Rightarrow> kstate \<Rightarrow> (sid option \<times> kstate) option" where
  "choice_default calc c s = do {
     (res, s) \<leftarrow> sym_choice_default calc c s;
     Some (case res of
             None \<Rightarrow> None
           | Some a \<Rightarrow>
               (if sym_has_value (syms s a) \<and> tri (sdef (syms s a) S_DEF_USER) = tri_no then None
                else Some a), s)
   }"

definition choice_unspecified :: "kstate \<Rightarrow> mid list \<Rightarrow> sid option" where
  "choice_unspecified s ms =
     find (\<lambda>a. visible (syms s a) \<noteq> tri_no \<and> \<not> sym_has_value (syms s a)) (entry_syms s ms)"

definition choice_last_visible :: "kstate \<Rightarrow> mid \<Rightarrow> sid option" where
  "choice_last_visible s c =
     find (\<lambda>a. visible (syms s a) \<noteq> tri_no) (rev (choice_members (menus s c)))"

fun choice_assign :: "sid option \<Rightarrow> mid list \<Rightarrow> kstate \<Rightarrow> kstate option" where
  "choice_assign res [] s = Some s"
| "choice_assign res (m # ms) s =
     (case m_sym (menus s m) of
        None \<Rightarrow> choice_assign res ms s
      | Some a \<Rightarrow>
          (if visible (syms s a) = tri_no then choice_assign res ms s
           else do {
             let v = (if Some a = res then tri_yes else tri_no);
             s \<leftarrow> (if tri (curr (syms s a)) \<noteq> v then sym_set_changed a s else Some s);
             let s = upd_sym a (\<lambda>y. y\<lparr>curr := (curr y)\<lparr>tri := v\<rparr>\<rparr>) s;
             choice_assign res ms (upd_sym a (add_flags {SYMBOL_VALID, SYMBOL_WRITE}) s)
           }))"

definition sym_calc_choice :: "calc \<Rightarrow> mid \<Rightarrow> kstate \<Rightarrow> (sid option \<times> kstate) option" where
  "sym_calc_choice calc c s = do {
     (res, s) \<leftarrow> choice_user_yes calc (choice_members (menus s c)) s;
     (res, s) \<leftarrow> (if res = None then choice_default calc c s else Some (res, s));
     ms \<leftarrow> sub_entries (menus s) c;
     let res = (if res = None then choice_unspecified s ms else res);
     let res = (if res = None then choice_last_visible s c else res);
     s \<leftarrow> choice_assign res ms s;
     Some (res, s)
   }"

section \<open>Warnings\<close>

text \<open>\<open>expr_print_revdep\<close>: the title is printed in front of the first line.\<close>

fun expr_print_revdep ::
    "calc \<Rightarrow> expr \<Rightarrow> tristate \<Rightarrow> string option \<Rightarrow> gstr \<Rightarrow> kstate \<Rightarrow> (string option \<times> gstr \<times> kstate) option" where
  "expr_print_revdep calc (E_BIN T_OR l r) pr title gs s = do {
     (title, gs, s) \<leftarrow> expr_print_revdep calc l pr title gs s;
     expr_print_revdep calc r pr title gs s
   }"
| "expr_print_revdep calc e pr title gs s = do {
     (v, s) \<leftarrow> expr_calc_value calc (Some e) s;
     if v = pr then
       (let calls = (case title of None \<Rightarrow> [] | Some t \<Rightarrow> [(None, t)]) @ [(None, ''  - '')]
              @ expr_print (syms s) (Some e) TK_NONE @ [(None, [CHR 0x0A])]
        in Some (None, foldl (expr_print_gstr_helper (syms s)) gs calls, s))
     else Some (title, gs, s)
   }"

definition expr_gstr_print_revdep ::
    "calc \<Rightarrow> expr option \<Rightarrow> gstr \<Rightarrow> tristate \<Rightarrow> string \<Rightarrow> kstate \<Rightarrow> (gstr \<times> kstate) option" where
  "expr_gstr_print_revdep calc e gs pr title s = do {
     e \<leftarrow> e;
     (title, gs, s) \<leftarrow> expr_print_revdep calc e pr (Some title) gs s;
     Some (gs, s)
   }"

definition sym_warn_unmet_dep :: "calc \<Rightarrow> sid \<Rightarrow> kstate \<Rightarrow> kstate option" where
  "sym_warn_unmet_dep calc a s = do {
     let y = syms s a;
     let gs = str_printf str_new ([CHR 0x0A] @ ''WARNING: unmet direct dependencies detected for ''
                @ name_text y @ [CHR 0x0A]);
     let gs = str_printf gs (''  Depends on ['' @ (if dir_dep_tri y = tri_mod then ''m'' else ''n'')
                @ '']: '');
     let gs = expr_gstr_print (syms s) (dir_dep_expr y) gs;
     let gs = str_printf gs [CHR 0x0A];
     (gs, s) \<leftarrow> expr_gstr_print_revdep calc (rev_dep_expr (syms s a)) gs tri_yes
                (''  Selected by [y]:'' @ [CHR 0x0A]) s;
     (gs, s) \<leftarrow> expr_gstr_print_revdep calc (rev_dep_expr (syms s a)) gs tri_mod
                (''  Selected by [m]:'' @ [CHR 0x0A]) s;
     Some (s\<lparr>stderr_out := stderr_out s @ str_get gs, sym_warnings := Suc (sym_warnings s)\<rparr>)
   }"

definition sym_dep_errors :: "kstate \<Rightarrow> string option \<Rightarrow> bool" where
  "sym_dep_errors s werror = (sym_warnings s \<noteq> 0 \<and> werror \<noteq> None)"

section \<open>The value of a symbol\<close>

fun default_newval :: "symbol_type \<Rightarrow> strptr" where
  "default_newval S_INT = Lit ''0''"
| "default_newval S_HEX = Lit ''0x0''"
| "default_newval S_STRING = Lit ''''"
| "default_newval S_BOOLEAN = Lit ''n''"
| "default_newval S_TRISTATE = Lit ''n''"
| "default_newval S_UNKNOWN = NULL"

text \<open>The value of an expression in a property; a range there prints a message and is \<open>n\<close>.\<close>

definition calc_prop_expr :: "calc \<Rightarrow> pid \<Rightarrow> kstate \<Rightarrow> (tristate \<times> kstate) option" where
  "calc_prop_expr calc p s =
     (case p_expr (props s p) of
        P_NONE \<Rightarrow> Some (tri_yes, s)
      | P_EXPR e \<Rightarrow> expr_calc_value calc (Some e) s
      | E_RANGE l r \<Rightarrow> Some (tri_no, s))"

definition set_flag :: "sid \<Rightarrow> symbol_flag \<Rightarrow> kstate \<Rightarrow> kstate" where
  "set_flag a f s = upd_sym a (add_flags {f}) s"

definition clear_flag :: "sid \<Rightarrow> symbol_flag \<Rightarrow> kstate \<Rightarrow> kstate" where
  "clear_flag a f s = upd_sym a (del_flags {f}) s"

text \<open>The default of a boolean or tristate symbol: its default property and what implies it.\<close>

definition calc_tristate_default :: "calc \<Rightarrow> sid \<Rightarrow> kstate \<Rightarrow> (tristate \<times> pid option \<times> kstate) option" where
  "calc_tristate_default calc a s = do {
     let s = (if rev_dep_tri (syms s a) \<noteq> tri_no then set_flag a SYMBOL_WRITE s else s);
     if sym_is_choice (syms s a) then Some (tri_no, None, s)
     else do {
       (prop, s) \<leftarrow> sym_get_default_prop calc a s;
       (v, s) \<leftarrow> (case prop of
           None \<Rightarrow> Some (tri_no, s)
         | Some p \<Rightarrow> do {
             (v, s) \<leftarrow> calc_prop_expr calc p s;
             let v = EXPR_AND v (p_visible_tri (props s p));
             Some (v, if v \<noteq> tri_no then set_flag a SYMBOL_WRITE s else s)
           });
       if implied_tri (syms s a) \<noteq> tri_no then
         (let s = set_flag a SYMBOL_WRITE s
          in Some (EXPR_AND (EXPR_OR v (implied_tri (syms s a))) (dir_dep_tri (syms s a)), prop, s))
       else Some (v, prop, s)
     }
   }"

text \<open>The branch for a symbol that is in no choice, with the label \<open>calc_newval\<close>.\<close>

definition calc_outside_choice :: "calc \<Rightarrow> sid \<Rightarrow> kstate \<Rightarrow> (tristate \<times> pid option \<times> kstate) option" where
  "calc_outside_choice calc a s = do {
     (v, prop, s) \<leftarrow>
       (if visible (syms s a) \<noteq> tri_no \<and> sym_has_value (syms s a)
        then Some (EXPR_AND (tri (sdef (syms s a) S_DEF_USER)) (visible (syms s a)), None, s)
        else calc_tristate_default calc a s);
     s \<leftarrow> (if dir_dep_tri (syms s a) < rev_dep_tri (syms s a)
           then sym_warn_unmet_dep calc a s else Some s);
     Some (EXPR_OR v (rev_dep_tri (syms s a)), prop, s)
   }"

definition calc_tristate :: "calc \<Rightarrow> sid \<Rightarrow> kstate \<Rightarrow> (tristate \<times> pid option \<times> kstate) option" where
  "calc_tristate calc a s = do {
     choice_menu \<leftarrow> sym_get_choice_menu (syms s) (menus s) (syms s a);
     (v, prop, s) \<leftarrow> (case choice_menu of
         Some c \<Rightarrow> do {
           (res, s) \<leftarrow> sym_calc_choice calc c s;
           Some (tri (curr (syms s a)), None, s)
         }
       | None \<Rightarrow> calc_outside_choice calc a s);
     Some (if v = tri_mod \<and> sym_get_type s (syms s a) = S_BOOLEAN then tri_yes else v, prop, s)
   }"

definition calc_string :: "calc \<Rightarrow> sid \<Rightarrow> strptr \<Rightarrow> kstate \<Rightarrow> (strptr \<times> pid option \<times> kstate) option" where
  "calc_string calc a v s =
     (if visible (syms s a) \<noteq> tri_no \<and> sym_has_value (syms s a)
      then Some (val (sdef (syms s a) S_DEF_USER), None, s)
      else do {
        (prop, s) \<leftarrow> sym_get_default_prop calc a s;
        case Option.bind prop (\<lambda>p. prop_get_symbol (props s p)) of
          None \<Rightarrow> Some (v, prop, s)
        | Some ds \<Rightarrow> do {
            let s = set_flag a SYMBOL_WRITE s;
            s \<leftarrow> calc ds s;
            Some (val (curr (syms s ds)), prop, s)
          }
      })"

text \<open>A default that is one transitional symbol with a user value counts as a user value.\<close>

definition adopt_transitional :: "sid \<Rightarrow> pid option \<Rightarrow> symbol_value \<Rightarrow> kstate \<Rightarrow> kstate" where
  "adopt_transitional a prop newval s =
     (case prop of
        None \<Rightarrow> s
      | Some p \<Rightarrow>
          (if sym_has_value (syms s a) then s
           else (case prop_get_symbol (props s p) of
                   None \<Rightarrow> s
                 | Some ds \<Rightarrow>
                     (if SYMBOL_TRANS \<in> s_flags (syms s ds) \<and> sym_has_value (syms s ds)
                      then set_flag a SYMBOL_DEF_USER
                             (upd_sym a (\<lambda>y. y\<lparr>sdef := (sdef y)(S_DEF_USER := newval)\<rparr>) s)
                      else s))))"

definition set_curr :: "sid \<Rightarrow> symbol_value \<Rightarrow> kstate \<Rightarrow> kstate" where
  "set_curr a v s = upd_sym a (\<lambda>y. y\<lparr>curr := v\<rparr>) s"

text \<open>
  The part of \<open>sym_calc_value\<close> after the new value is known. \<open>memcmp\<close> compares the two
  members (the padding of the structure is taken to be equal).
\<close>

definition finish_value :: "calc \<Rightarrow> sid \<Rightarrow> symbol_value \<Rightarrow> symbol_value \<Rightarrow> pid option \<Rightarrow> kstate \<Rightarrow> kstate option" where
  "finish_value calc a oldval newval prop s = do {
     let s = set_curr a newval (adopt_transitional a prop newval s);
     s \<leftarrow> sym_validate_range calc a s;
     s \<leftarrow> (if oldval \<noteq> curr (syms s a) then do {
             s \<leftarrow> sym_set_changed a s;
             if modules_sym s = a then do {
               s \<leftarrow> sym_set_all_changed s;
               Some (s\<lparr>modules_val := tri (curr (syms s (modules_sym s)))\<rparr>)
             } else Some s
           } else Some s);
     Some (if sym_is_choice (syms s a) \<or> SYMBOL_TRANS \<in> s_flags (syms s a)
           then clear_flag a SYMBOL_WRITE s else s)
   }"

text \<open>The second \<open>switch\<close> of \<open>sym_calc_value\<close>: the new value by the type of the symbol.\<close>

definition calc_by_type :: "calc \<Rightarrow> sid \<Rightarrow> symbol_value \<Rightarrow> symbol_value \<Rightarrow> kstate \<Rightarrow> kstate option" where
  "calc_by_type calc a oldval v0 s =
     (if s_type (syms s a) = S_BOOLEAN \<or> s_type (syms s a) = S_TRISTATE then do {
        (t, prop, s) \<leftarrow> calc_tristate calc a s;
        finish_value calc a oldval (v0\<lparr>tri := t\<rparr>) prop s
      } else do {
        (v, prop, s) \<leftarrow> calc_string calc a (val v0) s;
        finish_value calc a oldval (v0\<lparr>val := v\<rparr>) prop s
      })"

definition sym_calc_value_step :: "calc \<Rightarrow> sid \<Rightarrow> kstate \<Rightarrow> kstate option" where
  "sym_calc_value_step calc a s =
     (if SYMBOL_VALID \<in> s_flags (syms s a) then Some s
      else
        let s = set_flag a SYMBOL_VALID s;
            oldval = curr (syms s a);
            v0 = \<lparr>val = default_newval (s_type (syms s a)), tri = tri_no\<rparr>
        in if s_type (syms s a) = S_UNKNOWN
           then Some (set_curr a \<lparr>val = (case s_name (syms s a) of None \<Rightarrow> NULL | Some n \<Rightarrow> SymName a n),
                                  tri = tri_no\<rparr> s)
           else do {
             s \<leftarrow> sym_calc_visibility calc a (clear_flag a SYMBOL_WRITE s);
             let s = (if visible (syms s a) \<noteq> tri_no then set_flag a SYMBOL_WRITE s else s);
             calc_by_type calc a oldval v0 (set_curr a v0 s)
           })"

fun sym_calc_value :: "nat \<Rightarrow> sid \<Rightarrow> kstate \<Rightarrow> kstate option" where
  "sym_calc_value 0 a s = None"
| "sym_calc_value (Suc n) a s = sym_calc_value_step (sym_calc_value n) a s"

definition sym_clear_all_valid :: "calc \<Rightarrow> kstate \<Rightarrow> kstate option" where
  "sym_clear_all_valid calc s =
     (let s = fold (\<lambda>a. upd_sym a (del_flags {SYMBOL_VALID})) (sym_table s) s;
          s = expr_invalidate_all s
      in calc (modules_sym s) (s\<lparr>conf_changed := True\<rparr>))"

end
