(* ===== verification/SymbolRun.thy ===== *)
theory SymbolRun
  imports Symbol
begin

text \<open>
  What an evaluation can do to the state. \<open>prim\<close> lists the single writes of the functions of
  theory \<open>Symbol\<close>; every evaluation is a sequence of them, and that sequence exists when the
  menu structure is sound and the recursion bound exceeds the number of symbols not yet
  valid. Invariants of the evaluation follow by induction over the sequence.
\<close>

section \<open>Single writes\<close>

definition legal_value :: "symbol \<Rightarrow> symbol_value \<Rightarrow> bool" where
  "legal_value y v \<longleftrightarrow> (s_type y = S_BOOLEAN \<longrightarrow> tri v \<noteq> tri_mod)"

inductive prim :: "kstate \<Rightarrow> kstate \<Rightarrow> bool" where
  p_cache: "prim s (s\<lparr>expr_val := c\<rparr>)"
| p_prop: "prim s (upd_prop p (\<lambda>q. q\<lparr>p_visible_tri := v\<rparr>) s)"
| p_mark: "prim s (mark_menu m s)"
| p_visible: "prim s (upd_sym a (set_visible t) s)"
| p_dir_dep: "prim s (upd_sym a (set_dir_dep t) s)"
| p_rev_dep: "(rev_dep_expr (syms s a) = None \<Longrightarrow> t = tri_no) \<Longrightarrow> prim s (upd_sym a (set_rev_dep t) s)"
| p_implied: "prim s (upd_sym a (set_implied t) s)"
| p_set_flag: "f \<in> {SYMBOL_VALID, SYMBOL_WRITE, SYMBOL_DEF_USER} \<Longrightarrow> prim s (set_flag a f s)"
| p_clear_flag: "prim s (clear_flag a SYMBOL_WRITE s)"
| p_curr: "legal_value (syms s a) v \<Longrightarrow> prim s (set_curr a v s)"
| p_user: "\<not> sym_has_value (syms s a) \<Longrightarrow>
     prim s (upd_sym a (\<lambda>y. y\<lparr>sdef := (sdef y)(S_DEF_USER := v)\<rparr>) s)"
| p_modules: "prim s (s\<lparr>modules_val := v\<rparr>)"
| p_warn: "prim s (s\<lparr>stderr_out := out, sym_warnings := n\<rparr>)"

section \<open>What stays\<close>

definition menu_links :: "menu_map \<Rightarrow> menu_map \<Rightarrow> bool" where
  "menu_links M M' \<longleftrightarrow> (\<forall>m. m_next (M' m) = m_next (M m) \<and> m_list (M' m) = m_list (M m)
     \<and> m_parent (M' m) = m_parent (M m) \<and> m_sym (M' m) = m_sym (M m)
     \<and> m_prompt (M' m) = m_prompt (M m))"

definition menu_eq :: "menu_map \<Rightarrow> menu_map \<Rightarrow> bool" where
  "menu_eq M M' \<longleftrightarrow> menu_links M M' \<and> (\<forall>m. choice_members (M' m) = choice_members (M m))"

lemma menu_linksD:
  assumes "menu_links M M'"
  shows "m_next (M' m) = m_next (M m)" "m_list (M' m) = m_list (M m)"
    "m_parent (M' m) = m_parent (M m)" "m_sym (M' m) = m_sym (M m)"
    "m_prompt (M' m) = m_prompt (M m)"
  using assms by (auto simp: menu_links_def)

lemma menu_links_sym: "menu_links M M' \<Longrightarrow> menu_links M' M"
  by (simp add: menu_links_def)

lemma menu_eqD:
  assumes "menu_eq M M'"
  shows "m_next (M' m) = m_next (M m)" "m_list (M' m) = m_list (M m)"
    "m_parent (M' m) = m_parent (M m)" "m_sym (M' m) = m_sym (M m)"
    "m_prompt (M' m) = m_prompt (M m)" "choice_members (M' m) = choice_members (M m)"
  using assms by (auto simp: menu_eq_def menu_links_def)

lemma menu_up_links:
  assumes "menu_links M M'"
  shows "menu_up M r m = menu_up M' r m"
proof -
  have "menu_up N' r m = Some k" if "menu_up N r m = Some k" "menu_links N N'" for N N' k m
    using that
  proof (induction N r m k rule: menu_up.raw_induct [rotated, consumes 1, case_names 1])
    case (1 f M root m y)
    then show ?case
      by (subst menu_up.simps) (auto simp: menu_linksD split: if_splits option.splits)
  qed
  from this [OF _ assms] this [OF _ menu_links_sym [OF assms]] show ?thesis
    by (metis not_None_eq)
qed

lemma menu_next_links: "menu_links M M' \<Longrightarrow> menu_next M' m r = menu_next M m r"
  by (simp add: menu_next_def menu_linksD menu_up_links split: option.split)

lemma sub_entries_links:
  assumes "menu_links M M'"
  shows "sub_entries M' r = sub_entries M r"
proof -
  have "sub_entries_from N' r m = Some k" if "sub_entries_from N r m = Some k" "menu_links N N'" for N N' k m
    using that
  proof (induction N r m k rule: sub_entries_from.raw_induct [rotated, consumes 1, case_names 1])
    case (1 f M root m y)
    then show ?case
      by (subst sub_entries_from.simps)
         (auto simp: menu_next_links bind_Some_iff split: option.splits)
  qed
  from this [OF _ assms] this [OF _ menu_links_sym [OF assms]] show ?thesis
    unfolding sub_entries_def by (metis not_None_eq)
qed

lemma up_to_sym_links:
  assumes "menu_links M M'"
  shows "up_to_sym M' m = up_to_sym M m"
proof -
  have "up_to_sym N' m = Some k" if "up_to_sym N m = Some k" "menu_links N N'" for N N' k m
    using that
  proof (induction N m k rule: up_to_sym.raw_induct [rotated, consumes 1, case_names 1])
    case (1 f M m y)
    then show ?case
      by (subst up_to_sym.simps) (auto simp: menu_linksD split: option.splits if_splits)
  qed
  from this [OF _ assms] this [OF _ menu_links_sym [OF assms]] show ?thesis
    by (metis not_None_eq)
qed

lemma sub_entries_eq: "menu_eq M M' \<Longrightarrow> sub_entries M' r = sub_entries M r"
  by (simp add: menu_eq_def sub_entries_links)

lemma up_to_sym_eq: "menu_eq M M' \<Longrightarrow> up_to_sym M' m = up_to_sym M m"
  by (simp add: menu_eq_def up_to_sym_links)

definition sym_eq :: "symbol \<Rightarrow> symbol \<Rightarrow> bool" where
  "sym_eq y y' \<longleftrightarrow> s_name y' = s_name y \<and> s_type y' = s_type y \<and> s_menus y' = s_menus y
     \<and> choice_link y' = choice_link y \<and> s_prop y' = s_prop y \<and> dir_dep_expr y' = dir_dep_expr y
     \<and> rev_dep_expr y' = rev_dep_expr y \<and> implied_expr y' = implied_expr y
     \<and> (SYMBOL_CONST \<in> s_flags y' \<longleftrightarrow> SYMBOL_CONST \<in> s_flags y)
     \<and> (SYMBOL_TRANS \<in> s_flags y' \<longleftrightarrow> SYMBOL_TRANS \<in> s_flags y)
     \<and> (SYMBOL_VALID \<in> s_flags y \<longrightarrow> SYMBOL_VALID \<in> s_flags y')"

definition prop_eq :: "property \<Rightarrow> property \<Rightarrow> bool" where
  "prop_eq p p' \<longleftrightarrow> p' = p\<lparr>p_visible_tri := p_visible_tri p'\<rparr>"

text \<open>The part of the state no evaluation changes; valid symbols also stay valid.\<close>

definition same_structure :: "kstate \<Rightarrow> kstate \<Rightarrow> bool" where
  "same_structure s s' \<longleftrightarrow> menu_eq (menus s) (menus s') \<and> (\<forall>a. sym_eq (syms s a) (syms s' a))
     \<and> (\<forall>p. prop_eq (props s p) (props s' p)) \<and> sym_table s' = sym_table s
     \<and> modules_sym s' = modules_sym s"

lemma same_structure_refl: "same_structure s s"
  by (simp add: same_structure_def menu_eq_def menu_links_def sym_eq_def prop_eq_def)

lemma prop_eq_trans: "prop_eq p q \<Longrightarrow> prop_eq q r \<Longrightarrow> prop_eq p r"
  unfolding prop_eq_def by (cases p; cases q; cases r) simp

lemma sym_eq_trans: "sym_eq x y \<Longrightarrow> sym_eq y z \<Longrightarrow> sym_eq x z"
  unfolding sym_eq_def by simp

lemma same_structure_trans: "same_structure s t \<Longrightarrow> same_structure t u \<Longrightarrow> same_structure s u"
  unfolding same_structure_def
  by (auto intro: prop_eq_trans sym_eq_trans simp: menu_eq_def menu_links_def)

lemmas set_defs = set_visible_def set_dir_dep_def set_rev_dep_def set_implied_def
lemmas upd_defs = set_flag_def clear_flag_def set_curr_def mark_menu_def

lemma prim_same_structure: "prim s s' \<Longrightarrow> same_structure s s'"
  by (induction rule: prim.induct)
     (auto simp: same_structure_def menu_eq_def menu_links_def sym_eq_def prop_eq_def set_defs upd_defs)

lemma prims_same_structure: "prim\<^sup>*\<^sup>* s s' \<Longrightarrow> same_structure s s'"
  by (induction rule: rtranclp_induct)
     (auto intro: same_structure_refl same_structure_trans prim_same_structure)

section \<open>Runs\<close>

text \<open>
  \<open>returns T m Q\<close>: the result of \<open>m\<close> satisfies \<open>Q\<close>, and there is one if \<open>T\<close> holds. So one
  set of lemmas gives both what a run does if it returns and that it returns.
\<close>

definition returns :: "bool \<Rightarrow> 'a option \<Rightarrow> ('a \<Rightarrow> bool) \<Rightarrow> bool" where
  "returns T m Q \<longleftrightarrow> (case m of None \<Rightarrow> \<not> T | Some r \<Rightarrow> Q r)"

lemma returns_Some [simp]: "returns T (Some r) Q = Q r"
  by (simp add: returns_def)

lemma returns_bind:
  "returns T m P \<Longrightarrow> (\<And>r. P r \<Longrightarrow> returns T (f r) Q) \<Longrightarrow> returns T (Option.bind m f) Q"
  by (cases m) (simp_all add: returns_def)

lemma returns_mono: "returns T m P \<Longrightarrow> (\<And>r. P r \<Longrightarrow> Q r) \<Longrightarrow> returns T m Q"
  by (cases m) (simp_all add: returns_def)

lemma returns_False: "returns False m Q \<longleftrightarrow> (\<forall>r. m = Some r \<longrightarrow> Q r)"
  by (cases m) (simp_all add: returns_def)

lemma returns_True: "returns True m Q \<longleftrightarrow> (\<exists>r. m = Some r \<and> Q r)"
  by (cases m) (simp_all add: returns_def)

text \<open>The structure an evaluation needs in order not to get stuck.\<close>

definition wf_state :: "kstate \<Rightarrow> bool" where
  "wf_state s \<longleftrightarrow>
     (\<forall>m. up_to_sym (menus s) m \<noteq> None)
     \<and> (\<forall>m c. m_sym (menus s m) = Some c \<longrightarrow> sym_is_choice (syms s c) \<longrightarrow>
          sub_entries (menus s) m \<noteq> None
          \<and> (\<forall>p \<in> set (s_prop (syms s c)). p_type (props s p) = P_DEFAULT \<longrightarrow>
                prop_get_symbol (props s p) \<noteq> None))
     \<and> (\<forall>p. p_type (props s p) = P_RANGE \<longrightarrow> range_of (props s p) \<noteq> None)
     \<and> (\<forall>a. rev_dep_expr (syms s a) = None \<longrightarrow> rev_dep_tri (syms s a) = tri_no)"

lemma prop_eqD:
  assumes "prop_eq p p'"
  shows "p_type p' = p_type p" "p_text p' = p_text p" "p_visible_expr p' = p_visible_expr p"
    "p_expr p' = p_expr p" "prop_get_symbol p' = prop_get_symbol p" "range_of p' = range_of p"
proof -
  have "p' = p\<lparr>p_visible_tri := p_visible_tri p'\<rparr>" using assms by (simp add: prop_eq_def)
  then obtain v where p': "p' = p\<lparr>p_visible_tri := v\<rparr>" by blast
  show "p_type p' = p_type p" "p_text p' = p_text p" "p_visible_expr p' = p_visible_expr p"
    "p_expr p' = p_expr p" "prop_get_symbol p' = prop_get_symbol p" "range_of p' = range_of p"
    by (simp_all add: p' prop_get_symbol_def range_of_def)
qed

lemma prim_rev_dep:
  "prim s s' \<Longrightarrow> (\<forall>a. rev_dep_expr (syms s a) = None \<longrightarrow> rev_dep_tri (syms s a) = tri_no) \<Longrightarrow>
   \<forall>a. rev_dep_expr (syms s' a) = None \<longrightarrow> rev_dep_tri (syms s' a) = tri_no"
  by (induction rule: prim.induct) (auto simp: set_defs upd_defs)

lemma same_structureD:
  assumes "same_structure s s'"
  shows "menu_eq (menus s) (menus s')" "sym_eq (syms s a) (syms s' a)" "prop_eq (props s p) (props s' p)"
    "sym_table s' = sym_table s" "modules_sym s' = modules_sym s"
  using assms by (auto simp: same_structure_def)

lemma same_structure_simps:
  assumes "same_structure s s'"
  shows "up_to_sym (menus s') m = up_to_sym (menus s) m"
    "sub_entries (menus s') m = sub_entries (menus s) m"
    "m_sym (menus s' m) = m_sym (menus s m)"
    "choice_members (menus s' m) = choice_members (menus s m)"
    "s_name (syms s' a) = s_name (syms s a)" "s_type (syms s' a) = s_type (syms s a)"
    "s_prop (syms s' a) = s_prop (syms s a)" "rev_dep_expr (syms s' a) = rev_dep_expr (syms s a)"
    "sym_is_choice (syms s' a) = sym_is_choice (syms s a)"
    "p_type (props s' p) = p_type (props s p)"
    "prop_get_symbol (props s' p) = prop_get_symbol (props s p)"
    "range_of (props s' p) = range_of (props s p)"
  using same_structureD [OF assms] up_to_sym_eq sub_entries_eq menu_eqD prop_eqD
  by (simp_all add: sym_eq_def sym_is_choice_def)

lemma prims_wf:
  assumes "prim\<^sup>*\<^sup>* s s'" and wf: "wf_state s"
  shows "wf_state s'"
proof -
  have "\<forall>a. rev_dep_expr (syms s' a) = None \<longrightarrow> rev_dep_tri (syms s' a) = tri_no"
    using assms by (induction rule: rtranclp_induct) (auto simp: wf_state_def dest: prim_rev_dep)
  with wf show ?thesis
    unfolding wf_state_def
    by (simp add: same_structure_simps [OF prims_same_structure [OF assms(1)]])
qed

lemma get_choice_menu_defined: "wf_state s \<Longrightarrow> sym_get_choice_menu (syms s) (menus s) y \<noteq> None"
proof -
  assume "wf_state s"
  then have "\<forall>m. \<exists>k. up_to_sym (menus s) m = Some k" by (simp add: wf_state_def)
  then obtain k where "up_to_sym (menus s) m = Some (k m)" for m by metis
  then show ?thesis by (auto simp: sym_get_choice_menu_def split: option.splits)
qed

lemma get_choice_menu_choice:
  "sym_get_choice_menu (syms s) (menus s) y = Some (Some c) \<Longrightarrow>
   \<exists>a. m_sym (menus s c) = Some a \<and> sym_is_choice (syms s a)"
  by (auto simp: sym_get_choice_menu_def split: option.splits if_splits)

subsection \<open>The interface of the recursion\<close>

text \<open>
  From the state \<open>s0\<close> on, \<open>calc\<close> performs single writes only, and it returns if \<open>T\<close> holds.
  Every function that calls it then does the same.
\<close>

locale calc_runs =
  fixes T :: bool and calc :: calc and s0 :: kstate
  assumes wf: "T \<Longrightarrow> wf_state s0"
    and calc_run: "prim\<^sup>*\<^sup>* s0 s \<Longrightarrow> returns T (calc a s) (\<lambda>s'. prim\<^sup>*\<^sup>* s0 s')"
begin

abbreviation R :: "kstate \<Rightarrow> bool" where
  "R s \<equiv> prim\<^sup>*\<^sup>* s0 s"

lemma R_step: "R s \<Longrightarrow> prim s s' \<Longrightarrow> R s'"
  by (rule rtranclp.rtrancl_into_rtrancl)

lemma R_wf: "R s \<Longrightarrow> T \<Longrightarrow> wf_state s"
  using wf prims_wf by blast

lemma bind_state: "returns T m R \<Longrightarrow> (\<And>s'. R s' \<Longrightarrow> returns T (f s') Q) \<Longrightarrow> returns T (Option.bind m f) Q"
  by (rule returns_bind)

lemma bind_pair:
  "returns T m (\<lambda>(r, s'). R s') \<Longrightarrow> (\<And>r s'. R s' \<Longrightarrow> returns T (f (r, s')) Q) \<Longrightarrow>
   returns T (Option.bind m f) Q"
  by (rule returns_bind [where P = "\<lambda>(r, s'). R s'"]) auto

lemma bind_triple:
  "returns T m (\<lambda>(r, q, s'). R s') \<Longrightarrow> (\<And>r q s'. R s' \<Longrightarrow> returns T (f (r, q, s')) Q) \<Longrightarrow>
   returns T (Option.bind m f) Q"
  by (rule returns_bind [where P = "\<lambda>(r, q, s'). R s'"]) auto

lemma cached_run:
  "R s \<Longrightarrow> (\<And>s. R s \<Longrightarrow> returns T (f s) (\<lambda>(v, s'). R s')) \<Longrightarrow> returns T (cached e f s) (\<lambda>(v, s'). R s')"
  by (auto simp: cached_def intro!: bind_pair R_step [OF _ p_cache] split: option.split)

lemma expr_node_run: "R s \<Longrightarrow> returns T (expr_calc_node calc e s) (\<lambda>(v, s'). R s')"
proof (induction e arbitrary: s)
  case (E_SYMBOL a)
  then show ?case by (auto intro!: cached_run bind_state calc_run)
next
  case (E_NOT e)
  then show ?case by (auto intro!: cached_run bind_pair)
next
  case (E_BIN t l r)
  show ?case
    using E_BIN.prems by (auto intro!: cached_run bind_pair E_BIN.IH)
next
  case (E_COMP t a b)
  then show ?case by (auto intro!: cached_run bind_state calc_run)
qed

lemma expr_run: "R s \<Longrightarrow> returns T (expr_calc_value calc e s) (\<lambda>(v, s'). R s')"
  by (auto simp: expr_calc_value_def intro!: expr_node_run split: option.split)

lemma prop_visible_run: "R s \<Longrightarrow> returns T (calc_prop_visible calc p s) (\<lambda>(v, s'). R s')"
  by (auto simp: calc_prop_visible_def intro!: bind_pair expr_run R_step [OF _ p_prop])

lemma first_visible_run: "R s \<Longrightarrow> returns T (first_visible_prop calc ty ps s) (\<lambda>(v, s'). R s')"
  by (induction ps arbitrary: s) (auto intro!: bind_pair prop_visible_run)

lemma default_prop_run: "R s \<Longrightarrow> returns T (sym_get_default_prop calc a s) (\<lambda>(v, s'). R s')"
  by (simp add: sym_get_default_prop_def first_visible_run)

lemma range_prop_run: "R s \<Longrightarrow> returns T (sym_get_range_prop calc a s) (\<lambda>(v, s'). R s')"
  by (simp add: sym_get_range_prop_def first_visible_run)

lemma range_val_run: "R s \<Longrightarrow> returns T (sym_get_range_val calc a b s) (\<lambda>(v, s'). R s')"
  by (auto simp: sym_get_range_val_def Let_def intro!: bind_state calc_run)

lemma mark_run: "R s \<Longrightarrow> R (mark_menu m s)"
  by (rule R_step [OF _ p_mark])

lemma mark_all_run: "R s \<Longrightarrow> R (fold mark_menu ms s)"
  by (induction ms arbitrary: s) (simp_all add: mark_run)

lemma choice_menu_run:
  "R s \<Longrightarrow> (\<And>c. sym_get_choice_menu (syms s) (menus s) y = Some c \<Longrightarrow> returns T (f c) Q) \<Longrightarrow>
   returns T (Option.bind (sym_get_choice_menu (syms s) (menus s) y) f) Q"
  using get_choice_menu_defined [of s y] R_wf [of s]
  by (cases "sym_get_choice_menu (syms s) (menus s) y") (auto simp: returns_def)

lemma set_changed_run: "R s \<Longrightarrow> returns T (sym_set_changed a s) R"
  by (auto simp: sym_set_changed_def Let_def mark_all_run mark_run intro!: choice_menu_run split: option.split)

lemma set_all_changed_run: "R s \<Longrightarrow> returns T (sym_set_all_changed s) R"
proof -
  have "R s \<Longrightarrow> returns T (set_changed_list as s) R" for as
    by (induction as arbitrary: s) (auto intro!: bind_state set_changed_run)
  then show "R s \<Longrightarrow> ?thesis" by (simp add: sym_set_all_changed_def)
qed

lemma prompts_run: "R s \<Longrightarrow> returns T (calc_prompts calc ps t s) (\<lambda>(v, s'). R s')"
  by (induction ps arbitrary: s t) (auto simp del: EXPR_OR_max intro!: bind_pair prop_visible_run)

end

context calc_runs
begin

text \<open>
  The structure of every state of the run is that of \<open>s0\<close>. It is written with another name for
  \<open>s0\<close>, so that the facts below rewrite to it and stop.
\<close>

definition base :: kstate where
  "base = s0"

lemma R_struct: "R s \<Longrightarrow> same_structure base s"
  unfolding base_def by (rule prims_same_structure)

lemma wf_base: "T \<Longrightarrow> wf_state base"
  unfolding base_def by (rule wf)

lemma R_struct_simps:
  assumes "R s"
  shows "up_to_sym (menus s) m = up_to_sym (menus base) m"
    "sub_entries (menus s) m = sub_entries (menus base) m"
    "m_sym (menus s m) = m_sym (menus base m)"
    "choice_members (menus s m) = choice_members (menus base m)"
    "s_name (syms s a) = s_name (syms base a)" "s_type (syms s a) = s_type (syms base a)"
    "s_prop (syms s a) = s_prop (syms base a)" "rev_dep_expr (syms s a) = rev_dep_expr (syms base a)"
    "sym_is_choice (syms s a) = sym_is_choice (syms base a)"
    "p_type (props s p) = p_type (props base p)"
    "prop_get_symbol (props s p) = prop_get_symbol (props base p)"
    "range_of (props s p) = range_of (props base p)"
  by (rule same_structure_simps [OF R_struct [OF assms]])+

lemma wf_facts:
  assumes T
  shows "p_type (props base p) = P_RANGE \<Longrightarrow> range_of (props base p) \<noteq> None"
    and "m_sym (menus base m) = Some c \<Longrightarrow> sym_is_choice (syms base c) \<Longrightarrow> sub_entries (menus base) m \<noteq> None"
    and "m_sym (menus base m) = Some c \<Longrightarrow> sym_is_choice (syms base c) \<Longrightarrow> p \<in> set (s_prop (syms base c)) \<Longrightarrow>
      p_type (props base p) = P_DEFAULT \<Longrightarrow> prop_get_symbol (props base p) \<noteq> None"
  using wf_base [OF assms] unfolding wf_state_def by blast+

lemma first_visible_type:
  "R s \<Longrightarrow> (\<And>p. p_type (props base p) = ty \<Longrightarrow> good p) \<Longrightarrow>
   returns T (first_visible_prop calc ty ps s) (\<lambda>(v, s'). R s' \<and> (\<forall>p. v = Some p \<longrightarrow> good p))"
proof (induction ps arbitrary: s)
  case (Cons p ps)
  then show ?case
    by (auto simp: R_struct_simps intro!: bind_pair [OF prop_visible_run])
qed simp

lemma set_curr_val_run: "R s \<Longrightarrow> s_type (syms base a) \<noteq> S_BOOLEAN \<Longrightarrow> R (set_curr_val a v s)"
proof -
  assume R: "R s" and ty: "s_type (syms base a) \<noteq> S_BOOLEAN"
  have "set_curr_val a v s = set_curr a ((curr (syms s a))\<lparr>val := v\<rparr>) s"
    by (simp add: set_curr_val_def set_curr_def upd_sym_def)
  then show ?thesis
    using R_step [OF R p_curr, of a] R ty by (simp add: legal_value_def R_struct_simps)
qed

lemma option_run: "(T \<Longrightarrow> m \<noteq> None) \<Longrightarrow> (\<And>x. m = Some x \<Longrightarrow> returns T (f x) Q) \<Longrightarrow> returns T (Option.bind m f) Q"
  by (cases m) (auto simp: returns_def)

lemma range_prop_bind:
  assumes R: "R s"
    and f: "\<And>v s'. R s' \<Longrightarrow> (\<And>p. v = Some p \<Longrightarrow> T \<Longrightarrow> range_of (props s' p) \<noteq> None) \<Longrightarrow> returns T (f (v, s')) Q"
  shows "returns T (Option.bind (sym_get_range_prop calc a s) f) Q"
  unfolding sym_get_range_prop_def
proof (rule returns_bind [OF first_visible_type [OF R, of P_RANGE "\<lambda>p. T \<longrightarrow> range_of (props base p) \<noteq> None"]])
  fix r
  assume "case r of (v, s') \<Rightarrow> R s' \<and> (\<forall>p. v = Some p \<longrightarrow> T \<longrightarrow> range_of (props base p) \<noteq> None)"
  then show "returns T (f r) Q" by (cases r) (auto intro: f simp: R_struct_simps)
qed (use wf_facts(1) in blast)

lemma apply_range_run:
  "R s \<Longrightarrow> s_type (syms base a) \<noteq> S_BOOLEAN \<Longrightarrow> returns T (apply_range calc a b l r s) R"
  unfolding apply_range_def Let_def
  by (auto intro!: bind_pair [OF range_val_run] set_curr_val_run)

lemma validate_range_run: "R s \<Longrightarrow> returns T (sym_validate_range calc a s) R"
  unfolding sym_validate_range_def Let_def
  by (auto simp: R_struct_simps intro!: range_prop_bind option_run [where m = "range_of p" for p]
      apply_range_run split: option.split)

lemma set_if_changed_run:
  "R s \<Longrightarrow> prim s (upd_sym a (put t) s) \<Longrightarrow> returns T (set_if_changed a get put t s) R"
  by (auto simp: set_if_changed_def intro!: set_changed_run intro: R_step)

lemma dep_run: "R s \<Longrightarrow> returns T (calc_dep calc a e d s) (\<lambda>(t, s'). R s' \<and> (e = None \<and> d = tri_no \<longrightarrow> t = tri_no))"
  by (cases e) (auto simp: calc_dep_def intro!: bind_pair expr_run)

lemma dep_bind:
  assumes R: "R s"
    and f: "\<And>t s'. R s' \<Longrightarrow> (e = None \<and> d = tri_no \<longrightarrow> t = tri_no) \<Longrightarrow> returns T (f (t, s')) Q"
  shows "returns T (Option.bind (calc_dep calc a e d s) f) Q"
  by (rule returns_bind [OF dep_run [OF R]]) (auto intro: f)

lemma visibility_run: "R s \<Longrightarrow> returns T (sym_calc_visibility calc a s) R"
  unfolding sym_calc_visibility_def Let_def
  by (auto simp: R_struct_simps intro!: R_step [OF _ p_visible] bind_pair prompts_run bind_state dep_bind
      set_if_changed_run p_visible p_dir_dep p_rev_dep p_implied)

subsection \<open>Choices\<close>

definition choice_entry :: "mid \<Rightarrow> bool" where
  "choice_entry c \<longleftrightarrow> (\<exists>a. m_sym (menus base c) = Some a \<and> sym_is_choice (syms base a))"

lemma choice_menu_entry:
  "R s \<Longrightarrow> sym_get_choice_menu (syms s) (menus s) y = Some (Some c) \<Longrightarrow> choice_entry c"
  using get_choice_menu_choice [of s y c] by (auto simp: choice_entry_def R_struct_simps)

lemma choice_default_prop_run:
  assumes "\<And>p. T \<Longrightarrow> p \<in> set ps \<Longrightarrow> p_type (props base p) = P_DEFAULT \<Longrightarrow> prop_get_symbol (props base p) \<noteq> None"
  shows "R s \<Longrightarrow> returns T (choice_default_prop calc ps s) (\<lambda>(v, s'). R s')"
  using assms
proof (induction ps arbitrary: s)
  case (Cons p ps)
  show ?case
    using Cons.prems
    by (auto simp: R_struct_simps intro!: Cons.IH bind_pair [OF prop_visible_run]
        option_run [where m = "prop_get_symbol p" for p])
qed simp

lemma sub_entries_bind:
  "choice_entry c \<Longrightarrow> (\<And>ms. sub_entries (menus base) c = Some ms \<Longrightarrow> returns T (f ms) Q) \<Longrightarrow>
   returns T (Option.bind (sub_entries (menus base) c) f) Q"
  using wf_facts(2) by (intro option_run) (auto simp: choice_entry_def)

lemma sym_choice_default_run:
  "R s \<Longrightarrow> choice_entry c \<Longrightarrow> returns T (sym_choice_default calc c s) (\<lambda>(v, s'). R s')"
  unfolding sym_choice_default_def
  using wf_facts(3)
  by (auto intro!: option_run [where m = "m_sym m" for m] bind_pair [OF choice_default_prop_run]
      sub_entries_bind simp: choice_entry_def R_struct_simps split: option.split)

lemma choice_default_run:
  "R s \<Longrightarrow> choice_entry c \<Longrightarrow> returns T (choice_default calc c s) (\<lambda>(v, s'). R s')"
  unfolding choice_default_def by (auto intro!: bind_pair sym_choice_default_run)

lemma choice_user_yes_run: "R s \<Longrightarrow> returns T (choice_user_yes calc as s) (\<lambda>(v, s'). R s')"
  by (induction as arbitrary: s) (auto intro!: bind_state visibility_run)

lemma set_curr_tri_run:
  "R s \<Longrightarrow> t \<noteq> tri_mod \<Longrightarrow> R (upd_sym a (\<lambda>y. y\<lparr>curr := (curr y)\<lparr>tri := t\<rparr>\<rparr>) s)"
proof -
  assume "R s" "t \<noteq> tri_mod"
  moreover have "upd_sym a (\<lambda>y. y\<lparr>curr := (curr y)\<lparr>tri := t\<rparr>\<rparr>) s = set_curr a ((curr (syms s a))\<lparr>tri := t\<rparr>) s"
    by (simp add: set_curr_def upd_sym_def)
  ultimately show ?thesis
    using R_step [OF _ p_curr, of s a "(curr (syms s a))\<lparr>tri := t\<rparr>"] by (simp add: legal_value_def)
qed

lemma set_valid_write_run: "R s \<Longrightarrow> R (upd_sym a (add_flags {SYMBOL_VALID, SYMBOL_WRITE}) s)"
proof -
  assume "R s"
  then have "R (set_flag a SYMBOL_VALID (set_flag a SYMBOL_WRITE s))"
    by (auto intro!: R_step [OF _ p_set_flag])
  moreover have "set_flag a SYMBOL_VALID (set_flag a SYMBOL_WRITE s)
      = upd_sym a (add_flags {SYMBOL_VALID, SYMBOL_WRITE}) s"
    by (simp add: set_flag_def upd_sym_def add_flags_def insert_commute)
  ultimately show ?thesis by simp
qed

lemma choice_assign_run: "R s \<Longrightarrow> returns T (choice_assign res ms s) R"
  by (induction ms arbitrary: s)
     (auto simp: Let_def intro!: bind_state set_changed_run set_valid_write_run set_curr_tri_run
       split: option.split)

lemma calc_choice_run:
  "R s \<Longrightarrow> choice_entry c \<Longrightarrow> returns T (sym_calc_choice calc c s) (\<lambda>(v, s'). R s')"
  unfolding sym_calc_choice_def Let_def
  by (auto simp: R_struct_simps intro!: bind_pair [OF choice_user_yes_run] bind_pair [OF choice_default_run]
      sub_entries_bind bind_state [OF choice_assign_run])

end

context calc_runs
begin

subsection \<open>Warnings and values\<close>

lemma print_revdep_run:
  "R s \<Longrightarrow> returns T (expr_print_revdep calc e pr title gs s) (\<lambda>(t, g, s'). R s')"
proof (induction e arbitrary: title gs s)
  case (E_BIN t l r)
  show ?case
    by (cases t) (auto simp: Let_def intro!: bind_pair [OF expr_run] bind_triple E_BIN)
qed (auto simp: Let_def intro!: bind_pair [OF expr_run])

lemma gstr_print_revdep_run:
  "R s \<Longrightarrow> (T \<Longrightarrow> e \<noteq> None) \<Longrightarrow>
   returns T (expr_gstr_print_revdep calc e gs pr title s) (\<lambda>(g, s'). R s')"
  unfolding expr_gstr_print_revdep_def
  by (auto intro!: option_run [where m = e] bind_triple [OF print_revdep_run])

lemma warn_run:
  "R s \<Longrightarrow> (T \<Longrightarrow> rev_dep_expr (syms base a) \<noteq> None) \<Longrightarrow> returns T (sym_warn_unmet_dep calc a s) R"
  unfolding sym_warn_unmet_dep_def Let_def
  by (auto simp: R_struct_simps intro!: bind_pair [OF gstr_print_revdep_run] R_step [OF _ p_warn])

lemma rev_dep_set: "R s \<Longrightarrow> T \<Longrightarrow> rev_dep_tri (syms s a) \<noteq> tri_no \<Longrightarrow> rev_dep_expr (syms base a) \<noteq> None"
  using R_wf [of s] by (auto simp: wf_state_def R_struct_simps)

lemma prop_expr_run: "R s \<Longrightarrow> returns T (calc_prop_expr calc p s) (\<lambda>(v, s'). R s')"
  by (auto simp: calc_prop_expr_def intro!: expr_run split: prop_expr.split)

lemma flag_run: "f \<in> {SYMBOL_VALID, SYMBOL_WRITE, SYMBOL_DEF_USER} \<Longrightarrow> R s \<Longrightarrow> R (set_flag a f s)"
  by (rule R_step [OF _ p_set_flag])

lemma tristate_default_run: "R s \<Longrightarrow> returns T (calc_tristate_default calc a s) (\<lambda>(v, p, s'). R s')"
  unfolding calc_tristate_default_def Let_def
  by (auto intro!: flag_run bind_pair [OF default_prop_run] bind_pair [OF prop_expr_run]
      bind_pair default_prop_run prop_expr_run split: option.split simp del: EXPR_AND_min EXPR_OR_max)

lemma outside_choice_run: "R s \<Longrightarrow> returns T (calc_outside_choice calc a s) (\<lambda>(v, p, s'). R s')"
  unfolding calc_outside_choice_def
proof (rule bind_triple)
  assume R: "R s"
  show "returns T (if visible (syms s a) \<noteq> tri_no \<and> sym_has_value (syms s a)
            then Some (EXPR_AND (tri (sdef (syms s a) S_DEF_USER)) (visible (syms s a)), None, s)
            else calc_tristate_default calc a s) (\<lambda>(r, q, s'). R s')"
    using R tristate_default_run by simp
next
  fix v q s'
  assume R': "R s'"
  have "returns T (if dir_dep_tri (syms s' a) < rev_dep_tri (syms s' a)
               then sym_warn_unmet_dep calc a s' else Some s') R"
    using R' rev_dep_set [OF R', of a] by (cases "rev_dep_tri (syms s' a)") (auto intro!: warn_run)
  then show "returns T (case (v, q, s') of (v, prop, s) \<Rightarrow>
      (if dir_dep_tri (syms s a) < rev_dep_tri (syms s a) then sym_warn_unmet_dep calc a s else Some s)
      \<bind> (\<lambda>s. Some (EXPR_OR v (rev_dep_tri (syms s a)), prop, s))) (\<lambda>(v, p, s'). R s')"
    by (auto intro!: bind_state)
qed

lemma tristate_run:
  "R s \<Longrightarrow> returns T (calc_tristate calc a s)
     (\<lambda>(v, p, s'). R s' \<and> (s_type (syms base a) = S_BOOLEAN \<longrightarrow> v \<noteq> tri_mod))"
proof -
  assume R: "R s"
  have 1: "returns T (sym_calc_choice calc c s \<bind> (\<lambda>(res, s). Some (tri (curr (syms s a)), None, s)))
      (\<lambda>(v, p, s'). R s')" if "sym_get_choice_menu (syms s) (menus s) (syms s a) = Some (Some c)" for c
    using R choice_menu_entry [OF R that] by (auto intro!: bind_pair [OF calc_choice_run])
  show ?thesis
    unfolding calc_tristate_def
    by (rule choice_menu_run [OF R], rule bind_triple)
       (use 1 outside_choice_run [OF R] in
        \<open>auto simp: R_struct_simps sym_get_type_def split: option.split\<close>)
qed

lemma string_run: "R s \<Longrightarrow> returns T (calc_string calc a v s) (\<lambda>(v, p, s'). R s')"
  unfolding calc_string_def Let_def
  by (auto intro!: bind_pair [OF default_prop_run] bind_state [OF calc_run] flag_run split: option.split)

lemma adopt_run: "R s \<Longrightarrow> R (adopt_transitional a prop newval s)"
  by (auto simp: adopt_transitional_def intro!: flag_run R_step [OF _ p_user] split: option.split)

lemma finish_run:
  "R s \<Longrightarrow> (s_type (syms base a) = S_BOOLEAN \<Longrightarrow> tri newval \<noteq> tri_mod) \<Longrightarrow>
   returns T (finish_value calc a oldval newval prop s) R"
proof -
  assume R: "R s" and leg: "s_type (syms base a) = S_BOOLEAN \<Longrightarrow> tri newval \<noteq> tri_mod"
  have "R (adopt_transitional a prop newval s)" using R by (rule adopt_run)
  then have 1: "R (set_curr a newval (adopt_transitional a prop newval s))"
    using leg by (auto intro!: R_step [OF _ p_curr] simp: legal_value_def R_struct_simps)
  show ?thesis
    unfolding finish_value_def Let_def
    by (auto intro!: bind_state [OF validate_range_run [OF 1]] bind_state [OF set_changed_run]
        bind_state [OF set_all_changed_run] bind_state set_changed_run set_all_changed_run
        R_step [OF _ p_modules] R_step [OF _ p_clear_flag])
qed

lemma by_type_run:
  "R s \<Longrightarrow> tri v0 = tri_no \<Longrightarrow> returns T (calc_by_type calc a oldval v0 s) R"
  unfolding calc_by_type_def
  by (auto intro!: returns_bind [OF tristate_run] finish_run bind_triple [OF string_run])

lemma step_run:
  assumes "SYMBOL_VALID \<notin> s_flags (syms s a)" and s0: "s0 = set_flag a SYMBOL_VALID s"
  shows "returns T (sym_calc_value_step calc a s) R"
proof -
  let ?v0 = "\<lparr>val = default_newval (s_type (syms s0 a)), tri = tri_no\<rparr>"
  have R0: "R s0" by simp
  have c: "R (clear_flag a SYMBOL_WRITE s0)" by (rule R_step [OF R0 p_clear_flag])
  have set: "R s' \<Longrightarrow> R (set_curr a ?v0 s')" for s'
    by (auto intro!: R_step [OF _ p_curr] simp: legal_value_def)
  have unk: "R (set_curr a v s0)" if "s_type (syms s0 a) = S_UNKNOWN" for v
    using that by (auto intro!: R_step [OF R0 p_curr] simp: legal_value_def)
  show ?thesis
    using assms(1) unk
    unfolding sym_calc_value_step_def Let_def s0 [symmetric]
    by (auto intro!: bind_state [OF visibility_run [OF c]] by_type_run set flag_run)
qed

end

section \<open>The recursion bound\<close>

definition invalid :: "kstate \<Rightarrow> sid set" where
  "invalid s = {a. SYMBOL_VALID \<notin> s_flags (syms s a)}"

lemma prims_invalid: "prim\<^sup>*\<^sup>* s s' \<Longrightarrow> invalid s' \<subseteq> invalid s"
  using prims_same_structure [of s s'] by (auto simp: invalid_def same_structure_def sym_eq_def)

lemma calc_value_runs:
  "(T \<Longrightarrow> wf_state s \<and> finite (invalid s) \<and> card (invalid s) < n) \<Longrightarrow>
   returns T (sym_calc_value n a s) (\<lambda>s'. prim\<^sup>*\<^sup>* s s')"
proof (induction n arbitrary: a s)
  case 0
  then show ?case by (auto simp: returns_def)
next
  case (Suc n)
  show ?case
  proof (cases "SYMBOL_VALID \<in> s_flags (syms s a)")
    case True
    then show ?thesis by (simp add: sym_calc_value_step_def)
  next
    case False
    let ?s0 = "set_flag a SYMBOL_VALID s"
    have st: "prim s ?s0" by (simp add: p_set_flag)
    then have "prim\<^sup>*\<^sup>* s ?s0" by simp
    note wf = prims_wf [OF this]
    have inv: "invalid ?s0 = invalid s - {a}" and mem: "a \<in> invalid s"
      using False by (auto simp: invalid_def set_flag_def)
    have good: "wf_state ?s0 \<and> finite (invalid ?s0) \<and> card (invalid ?s0) < n" if T
      using Suc.prems [OF that] wf mem card_gt_0_iff [of "invalid s"] unfolding inv
      by (auto simp: card_Diff_singleton)
    have runs: "returns T (sym_calc_value n b s1) (\<lambda>s'. prim\<^sup>*\<^sup>* ?s0 s')" if r: "prim\<^sup>*\<^sup>* ?s0 s1" for b s1
    proof (rule returns_mono)
      show "returns T (sym_calc_value n b s1) (\<lambda>s'. prim\<^sup>*\<^sup>* s1 s')"
      proof (rule Suc.IH)
        assume T
        with good have g: "wf_state ?s0" "finite (invalid ?s0)" "card (invalid ?s0) < n" by auto
        with prims_wf [OF r] prims_invalid [OF r] show "wf_state s1 \<and> finite (invalid s1) \<and> card (invalid s1) < n"
          by (auto intro: finite_subset le_less_trans [OF card_mono])
      qed
    qed (use r in simp)
    have "calc_runs T (sym_calc_value n) ?s0"
      using good runs by (intro calc_runs.intro) auto
    from calc_runs.step_run [OF this False refl] show ?thesis
      using st by (auto intro: returns_mono converse_rtranclp_into_rtranclp)
  qed
qed

text \<open>The two instances of the interface: runs of any bound, and runs with a sufficient one.\<close>

interpretation run: calc_runs False "sym_calc_value n" s0 for n s0
  by unfold_locales (auto intro: returns_mono [OF calc_value_runs])

theorem sym_calc_value_prims: "sym_calc_value n a s = Some s' \<Longrightarrow> prim\<^sup>*\<^sup>* s s'"
  using calc_value_runs [of False s n a] by (simp add: returns_False)

theorem sym_calc_value_total:
  assumes "wf_state s" "finite (invalid s)" "card (invalid s) < n"
  shows "\<exists>s'. sym_calc_value n a s = Some s' \<and> prim\<^sup>*\<^sup>* s s'"
  using calc_value_runs [of True s n a] assms by (simp add: returns_True)

lemma set_flag_same: "f \<in> s_flags (syms s a) \<Longrightarrow> set_flag a f s = s"
  by (simp add: set_flag_def upd_sym_def add_flags_def insert_absorb)

text \<open>An evaluation starts by marking the symbol valid, whatever it then does.\<close>

lemma sym_calc_value_from:
  assumes "sym_calc_value n a s = Some s'"
  shows "prim\<^sup>*\<^sup>* (set_flag a SYMBOL_VALID s) s'"
proof (cases "SYMBOL_VALID \<in> s_flags (syms s a)")
  case True
  with assms sym_calc_value_prims show ?thesis by (simp add: set_flag_same)
next
  case False
  from assms obtain m where n: "n = Suc m" by (cases n) auto
  from assms run.step_run [OF False refl, of m] show ?thesis by (simp add: n returns_False)
qed

lemma sym_calc_value_valid:
  assumes "sym_calc_value n a s = Some s'"
  shows "SYMBOL_VALID \<in> s_flags (syms s' a)"
  using prims_invalid [OF sym_calc_value_from [OF assms]] by (auto simp: invalid_def set_flag_def)

lemma sym_calc_value_done: "SYMBOL_VALID \<in> s_flags (syms s a) \<Longrightarrow> sym_calc_value (Suc n) a s = Some s"
  by (simp add: sym_calc_value_step_def)

section \<open>Invariants of every evaluation\<close>

definition bools_ok :: "kstate \<Rightarrow> bool" where
  "bools_ok s \<longleftrightarrow> (\<forall>a. s_type (syms s a) = S_BOOLEAN \<longrightarrow> tri (curr (syms s a)) \<noteq> tri_mod)"

lemma prim_bools_ok: "prim s s' \<Longrightarrow> bools_ok s \<Longrightarrow> bools_ok s'"
  by (induction rule: prim.induct)
     (auto simp: bools_ok_def legal_value_def set_defs upd_defs)

lemma prims_bools_ok: "prim\<^sup>*\<^sup>* s s' \<Longrightarrow> bools_ok s \<Longrightarrow> bools_ok s'"
  by (induction rule: rtranclp_induct) (auto dest: prim_bools_ok)

text \<open>A user value, once there, is not touched by evaluation.\<close>

lemma prims_has_value: "prim\<^sup>*\<^sup>* s s' \<Longrightarrow> sym_has_value (syms s a) \<Longrightarrow> sym_has_value (syms s' a)"
proof (induction rule: rtranclp_induct)
  case (step t u)
  from step(2,3,4) show ?case
    by (induction rule: prim.induct) (auto simp: sym_has_value_def set_defs upd_defs)
qed

lemma prims_user_value:
  "prim\<^sup>*\<^sup>* s s' \<Longrightarrow> sym_has_value (syms s a) \<Longrightarrow>
   sdef (syms s' a) S_DEF_USER = sdef (syms s a) S_DEF_USER"
proof (induction rule: rtranclp_induct)
  case (step t u)
  have "sym_has_value (syms t a)" using prims_has_value [OF step(1) step.prems] .
  with step(2) have "sdef (syms u a) S_DEF_USER = sdef (syms t a) S_DEF_USER"
    by (induction rule: prim.induct) (auto simp: set_defs upd_defs)
  with step show ?case by simp
qed simp

end
