(* ===== verification/SymbolSem.thy ===== *)
theory SymbolSem
  imports SymbolRun
begin

text \<open>
  What the evaluation computes: expressions of calculated symbols have the value of theory
  \<open>ExprSem\<close>, selected symbols are at least as high as what selects them, a visible user value
  is used, ranges are enforced, and a choice has one chosen member.
\<close>

section \<open>Expressions of calculated symbols\<close>

text \<open>\<open>coherent s\<close>: every cached value is the value of the expression in the state.\<close>

definition coherent :: "kstate \<Rightarrow> bool" where
  "coherent s \<longleftrightarrow> (\<forall>e v. expr_val s e = Some v \<longrightarrow> v = value_in (syms s) (Some e))"

definition all_valid :: "kstate \<Rightarrow> expr \<Rightarrow> bool" where
  "all_valid s e \<longleftrightarrow> (\<forall>a \<in> expr_syms e. SYMBOL_VALID \<in> s_flags (syms s a))"

lemma cached_value:
  assumes coh: "coherent s"
    and f: "f s = Some (value_in (syms s) (Some e), s\<lparr>expr_val := c\<rparr>)" "coherent (s\<lparr>expr_val := c\<rparr>)"
  shows "\<exists>c'. cached e f s = Some (value_in (syms s) (Some e), s\<lparr>expr_val := c'\<rparr>)
    \<and> coherent (s\<lparr>expr_val := c'\<rparr>)"
proof (cases "expr_val s e")
  case None
  with f show ?thesis
    by (intro exI [of _ "c(e := Some (value_in (syms s) (Some e)))"]) (auto simp: cached_def coherent_def)
next
  case (Some v)
  with coh show ?thesis
    by (intro exI [of _ "expr_val s"]) (auto simp: cached_def coherent_def)
qed

lemma expr_calc_node_value:
  assumes valid_done: "\<And>a s. SYMBOL_VALID \<in> s_flags (syms s a) \<Longrightarrow> calc a s = Some s"
  shows "all_valid s e \<Longrightarrow> coherent s \<Longrightarrow>
    \<exists>c. expr_calc_node calc e s = Some (value_in (syms s) (Some e), s\<lparr>expr_val := c\<rparr>)
      \<and> coherent (s\<lparr>expr_val := c\<rparr>)"
proof (induction e arbitrary: s)
  case (E_SYMBOL a)
  then show ?case
    unfolding expr_calc_node.simps
    by (intro cached_value [where c = "expr_val s"]) (simp_all add: valid_done all_valid_def curr_tri_def)
next
  case (E_NOT e)
  from E_NOT.prems E_NOT.IH [of s] obtain c where
    "expr_calc_node calc e s = Some (value_in (syms s) (Some e), s\<lparr>expr_val := c\<rparr>)"
    "coherent (s\<lparr>expr_val := c\<rparr>)" by (auto simp: all_valid_def)
  then show ?case
    using E_NOT.prems unfolding expr_calc_node.simps
    by (intro cached_value [where c = c]) simp_all
next
  case (E_BIN t l r)
  from E_BIN.prems E_BIN.IH(1) [of s] obtain c where c:
    "expr_calc_node calc l s = Some (value_in (syms s) (Some l), s\<lparr>expr_val := c\<rparr>)"
    "coherent (s\<lparr>expr_val := c\<rparr>)" by (auto simp: all_valid_def)
  from E_BIN.prems c E_BIN.IH(2) [of "s\<lparr>expr_val := c\<rparr>"] obtain d where
    "expr_calc_node calc r (s\<lparr>expr_val := c\<rparr>) = Some (value_in (syms s) (Some r), s\<lparr>expr_val := d\<rparr>)"
    "coherent (s\<lparr>expr_val := d\<rparr>)" by (auto simp: all_valid_def)
  then show ?case
    using E_BIN.prems c unfolding expr_calc_node.simps
    by (intro cached_value [where c = d]) simp_all
next
  case (E_COMP t a b)
  then show ?case
    unfolding expr_calc_node.simps
    by (intro cached_value [where c = "expr_val s"]) (simp_all add: valid_done all_valid_def)
qed

section \<open>What an update of the marks leaves\<close>

lemma mark_menu_syms [simp]: "syms (mark_menu m s) = syms s"
  by (simp add: mark_menu_def)

lemma fold_mark_menu_syms [simp]: "syms (fold mark_menu ms s) = syms s"
  by (induction ms arbitrary: s) simp_all

lemma set_changed_syms: "sym_set_changed a s = Some s' \<Longrightarrow> syms s' = syms s"
  by (auto simp: sym_set_changed_def Let_def bind_Some_iff split: option.splits)

lemma set_changed_list_syms: "set_changed_list as s = Some s' \<Longrightarrow> syms s' = syms s"
  by (induction as arbitrary: s) (auto simp: bind_Some_iff dest: set_changed_syms)

lemma set_all_changed_syms: "sym_set_all_changed s = Some s' \<Longrightarrow> syms s' = syms s"
  by (auto simp: sym_set_all_changed_def dest: set_changed_list_syms)

text \<open>The fields of a symbol the end of an evaluation leaves alone.\<close>

definition same_deps :: "symbol \<Rightarrow> symbol \<Rightarrow> bool" where
  "same_deps y y' \<longleftrightarrow> visible y' = visible y \<and> dir_dep_tri y' = dir_dep_tri y
     \<and> rev_dep_tri y' = rev_dep_tri y \<and> implied_tri y' = implied_tri y \<and> s_type y' = s_type y"

lemma adopt_same_deps: "same_deps (syms s b) (syms (adopt_transitional a prop v s) b)"
  by (auto simp: adopt_transitional_def same_deps_def set_flag_def split: option.split)

lemma finish_value_post:
  assumes "finish_value calc a oldval newval q s = Some s'"
    and "s_type (syms s a) \<noteq> S_INT" "s_type (syms s a) \<noteq> S_HEX"
  shows "curr (syms s' a) = newval" and "same_deps (syms s a) (syms s' a)"
proof -
  let ?s1 = "set_curr a newval (adopt_transitional a q newval s)"
  have d: "same_deps (syms s a) (syms ?s1 a)"
    using adopt_same_deps [of s a a q newval] by (simp add: same_deps_def set_curr_def)
  have "s_type (syms ?s1 a) \<noteq> S_INT \<and> s_type (syms ?s1 a) \<noteq> S_HEX"
    using d assms(2,3) by (simp add: same_deps_def)
  then have v: "sym_validate_range calc a ?s1 = Some ?s1"
    by (simp add: sym_validate_range_def)
  from assms(1) obtain s2 where
    ch: "(if oldval \<noteq> curr (syms ?s1 a) then do {
             s \<leftarrow> sym_set_changed a ?s1;
             if modules_sym s = a then do {
               s \<leftarrow> sym_set_all_changed s;
               Some (s\<lparr>modules_val := tri (curr (syms s (modules_sym s)))\<rparr>)
             } else Some s
           } else Some ?s1) = Some s2"
    and s': "s' = (if sym_is_choice (syms s2 a) \<or> SYMBOL_TRANS \<in> s_flags (syms s2 a)
           then clear_flag a SYMBOL_WRITE s2 else s2)"
    unfolding finish_value_def Let_def v by (elim bind_SomeE) (simp only: option.inject)
  from ch have s2: "syms s2 = syms ?s1"
    by (elim if_split [THEN iffD1, elim_format] conjE) (auto elim!: bind_SomeE
      dest!: set_changed_syms set_all_changed_syms split: if_split_asm)
  have "curr (syms s' a) = curr (syms ?s1 a)" "same_deps (syms ?s1 a) (syms s' a)"
    using s' s2 by (auto simp: clear_flag_def same_deps_def)
  with d show "curr (syms s' a) = newval" "same_deps (syms s a) (syms s' a)"
    by (auto simp: set_curr_def same_deps_def)
qed

section \<open>Selected symbols\<close>

definition promote :: "kstate \<Rightarrow> symbol \<Rightarrow> tristate \<Rightarrow> tristate" where
  "promote s y v = (if v = tri_mod \<and> sym_get_type s y = S_BOOLEAN then tri_yes else v)"

lemma promote_ge: "v \<le> promote s y v"
  by (simp add: promote_def)

text \<open>The value of a symbol outside choices, before the promotion.\<close>

lemma outside_choice_cases:
  assumes "calc_outside_choice calc a s = Some (v, q, s')"
  obtains v0 s1 where "v = EXPR_OR v0 (rev_dep_tri (syms s' a))"
    and "(if visible (syms s a) \<noteq> tri_no \<and> sym_has_value (syms s a)
          then Some (EXPR_AND (tri (sdef (syms s a) S_DEF_USER)) (visible (syms s a)), None, s)
          else calc_tristate_default calc a s) = Some (v0, q, s1)"
    and "(if dir_dep_tri (syms s1 a) < rev_dep_tri (syms s1 a)
          then sym_warn_unmet_dep calc a s1 else Some s1) = Some s'"
  using assms unfolding calc_outside_choice_def
  by (elim bind_SomeE) (auto simp only: case_prod_conv split: prod.splits elim!: bind_SomeE intro: that)

lemma calc_tristate_cases:
  assumes r: "calc_tristate calc a s = Some (v, q, s')"
    and c: "sym_get_choice_menu (syms s) (menus s) (syms s a) = Some None"
  obtains v0 where "calc_outside_choice calc a s = Some (v0, q, s')" "v = promote s' (syms s' a) v0"
  using r unfolding calc_tristate_def c
  by (auto simp: bind_Some_iff promote_def)

lemma calc_tristate_select:
  assumes "calc_tristate calc a s = Some (v, q, s')"
    and "sym_get_choice_menu (syms s) (menus s) (syms s a) = Some None"
  shows "rev_dep_tri (syms s' a) \<le> v"
  using assms
  by (elim calc_tristate_cases outside_choice_cases)
     (auto simp only: EXPR_OR_max intro: order_trans [OF max.cobounded2 promote_ge])

text \<open>A run on a boolean or tristate symbol that is not yet valid, taken apart.\<close>

definition bool_start :: "calc \<Rightarrow> sid \<Rightarrow> kstate \<Rightarrow> kstate option" where
  "bool_start calc a s = map_option
     (\<lambda>s. set_curr a \<lparr>val = Lit ''n'', tri = tri_no\<rparr>
            (if visible (syms s a) \<noteq> tri_no then set_flag a SYMBOL_WRITE s else s))
     (sym_calc_visibility calc a (clear_flag a SYMBOL_WRITE (set_flag a SYMBOL_VALID s)))"

lemma bool_start_prims:
  assumes "bool_start (sym_calc_value m) a s = Some s2"
  shows "prim\<^sup>*\<^sup>* s s2"
proof -
  let ?s0 = "clear_flag a SYMBOL_WRITE (set_flag a SYMBOL_VALID s)"
  have 0: "prim\<^sup>*\<^sup>* s ?s0"
    by (rule run.R_step [OF run.R_step p_clear_flag], rule rtranclp.rtrancl_refl) (simp add: p_set_flag)
  from assms obtain s1 where s1: "sym_calc_visibility (sym_calc_value m) a ?s0 = Some s1"
    and s2: "s2 = set_curr a \<lparr>val = Lit ''n'', tri = tri_no\<rparr>
            (if visible (syms s1 a) \<noteq> tri_no then set_flag a SYMBOL_WRITE s1 else s1)"
    by (auto simp: bool_start_def)
  from run.visibility_run [OF 0, of m a] s1 have "prim\<^sup>*\<^sup>* s s1" by (simp add: returns_False)
  then have "prim\<^sup>*\<^sup>* s (if visible (syms s1 a) \<noteq> tri_no then set_flag a SYMBOL_WRITE s1 else s1)"
    by (simp add: run.flag_run)
  then show ?thesis unfolding s2
    by (rule run.R_step) (simp add: p_curr legal_value_def)
qed

lemma choice_menu_same:
  assumes "same_structure s s'"
  shows "sym_get_choice_menu (syms s') (menus s') (syms s' a) = sym_get_choice_menu (syms s) (menus s) (syms s a)"
proof -
  have m: "s_menus (syms s' a) = s_menus (syms s a)"
    using same_structureD(2) [OF assms, of a] by (simp add: sym_eq_def)
  have p: "first_prompt_menu (menus s') ms = first_prompt_menu (menus s) ms" for ms
    by (induction ms) (simp_all add: menu_eqD [OF same_structureD(1) [OF assms]])
  show ?thesis
    unfolding sym_get_choice_menu_def sym_get_prompt_menu_def m p
    by (auto simp: same_structure_simps [OF assms] split: option.split)
qed

lemma calc_value_tristate_cases:
  assumes r: "sym_calc_value (Suc m) a s = Some s'"
    and a: "SYMBOL_VALID \<notin> s_flags (syms s a)" "s_type (syms s a) = S_BOOLEAN \<or> s_type (syms s a) = S_TRISTATE"
  obtains s2 t q s3 where "bool_start (sym_calc_value m) a s = Some s2"
    and "calc_tristate (sym_calc_value m) a s2 = Some (t, q, s3)"
    and "tri (curr (syms s' a)) = t" and "same_deps (syms s3 a) (syms s' a)"
proof -
  let ?s0 = "set_flag a SYMBOL_VALID s"
  have ty: "s_type (syms ?s0 a) = s_type (syms s a)" by (simp add: set_flag_def)
  from r a(1) obtain s1 where s1: "sym_calc_visibility (sym_calc_value m) a (clear_flag a SYMBOL_WRITE ?s0) = Some s1"
    and f: "calc_by_type (sym_calc_value m) a (curr (syms ?s0 a))
          \<lparr>val = default_newval (s_type (syms s a)), tri = tri_no\<rparr>
          (set_curr a \<lparr>val = default_newval (s_type (syms s a)), tri = tri_no\<rparr>
            (if visible (syms s1 a) \<noteq> tri_no then set_flag a SYMBOL_WRITE s1 else s1)) = Some s'"
    using a(2) by (auto simp: sym_calc_value_step_def Let_def ty bind_Some_iff)
  define s2 where "s2 = set_curr a \<lparr>val = Lit ''n'', tri = tri_no\<rparr>
            (if visible (syms s1 a) \<noteq> tri_no then set_flag a SYMBOL_WRITE s1 else s1)"
  have dn: "default_newval (s_type (syms s a)) = Lit ''n''" using a(2) by auto
  have b: "bool_start (sym_calc_value m) a s = Some s2"
    using s1 by (simp add: bool_start_def s2_def)
  note str2 = prims_same_structure [OF bool_start_prims [OF b]]
  have ty2: "s_type (syms s2 a) = s_type (syms s a)" by (simp add: same_structure_simps [OF str2])
  from f a(2) obtain t q s3 where c: "calc_tristate (sym_calc_value m) a s2 = Some (t, q, s3)"
    and fin: "finish_value (sym_calc_value m) a (curr (syms ?s0 a)) \<lparr>val = Lit ''n'', tri = t\<rparr> q s3 = Some s'"
    unfolding dn s2_def [symmetric] by (auto simp: calc_by_type_def ty2 bind_Some_iff)
  have "prim\<^sup>*\<^sup>* s2 s3" using run.tristate_run [of s2 s2 m a] c by (simp add: returns_False)
  then have "s_type (syms s3 a) = s_type (syms s a)"
    using ty2 by (simp add: same_structure_simps [OF prims_same_structure])
  with finish_value_post [OF fin] a(2) that [OF b c] show ?thesis by auto
qed

lemma sym_calc_value_select:
  assumes r: "sym_calc_value n a s = Some s'"
    and a: "SYMBOL_VALID \<notin> s_flags (syms s a)" "s_type (syms s a) = S_BOOLEAN \<or> s_type (syms s a) = S_TRISTATE"
    and c: "sym_get_choice_menu (syms s) (menus s) (syms s a) = Some None"
  shows "rev_dep_tri (syms s' a) \<le> curr_tri (syms s') a"
proof -
  from r obtain m where n: "n = Suc m" by (cases n) auto
  obtain s2 t q s3 where 1: "bool_start (sym_calc_value m) a s = Some s2"
    "calc_tristate (sym_calc_value m) a s2 = Some (t, q, s3)"
    "tri (curr (syms s' a)) = t" "same_deps (syms s3 a) (syms s' a)"
    using calc_value_tristate_cases [OF r [unfolded n] a] .
  note str2 = prims_same_structure [OF bool_start_prims [OF 1(1)]]
  from calc_tristate_select [OF 1(2)] c have "rev_dep_tri (syms s3 a) \<le> t"
    by (simp add: choice_menu_same [OF str2])
  with 1(3,4) show ?thesis by (simp add: curr_tri_simp same_deps_def)
qed

text \<open>
  A visible symbol with a user value, none of whose selects is unmet, gets that value, limited
  by its visibility and raised to what selects it.
\<close>

lemma sym_calc_value_user:
  assumes r: "sym_calc_value (Suc m) a s = Some s'"
    and a: "SYMBOL_VALID \<notin> s_flags (syms s a)" "s_type (syms s a) = S_BOOLEAN \<or> s_type (syms s a) = S_TRISTATE"
    and c: "sym_get_choice_menu (syms s) (menus s) (syms s a) = Some None"
    and v: "bool_start (sym_calc_value m) a s = Some s2"
    and u: "visible (syms s2 a) \<noteq> tri_no" "sym_has_value (syms s2 a)"
    and d: "rev_dep_tri (syms s2 a) \<le> dir_dep_tri (syms s2 a)"
  shows "curr_tri (syms s') a = promote s2 (syms s2 a)
    (max (min (tri (sdef (syms s2 a) S_DEF_USER)) (visible (syms s2 a))) (rev_dep_tri (syms s2 a)))"
proof -
  obtain t q s3 where 1: "calc_tristate (sym_calc_value m) a s2 = Some (t, q, s3)"
    "tri (curr (syms s' a)) = t" "same_deps (syms s3 a) (syms s' a)"
    by (rule calc_value_tristate_cases [OF r a]) (use v in auto)
  note str2 = prims_same_structure [OF bool_start_prims [OF v]]
  obtain v0 where v0: "calc_outside_choice (sym_calc_value m) a s2 = Some (v0, q, s3)"
    "t = promote s3 (syms s3 a) v0"
    using calc_tristate_cases [OF 1(1)] c by (auto simp: choice_menu_same [OF str2])
  from u d v0(1) have "s3 = s2" and
    "v0 = max (min (tri (sdef (syms s2 a) S_DEF_USER)) (visible (syms s2 a))) (rev_dep_tri (syms s2 a))"
    by (auto simp: calc_outside_choice_def leD [OF d])
  with v0(2) 1(2) show ?thesis by (simp add: curr_tri_simp)
qed

section \<open>Choices\<close>

text \<open>
  After the final loop of \<open>sym_calc_choice\<close> every visible entry has \<open>y\<close> if it is the chosen
  one and \<open>n\<close> otherwise.
\<close>

lemma entry_syms_simps [simp]:
  "entry_syms s [] = []"
  "entry_syms s (m # ms) = (case m_sym (menus s m) of None \<Rightarrow> entry_syms s ms | Some a \<Rightarrow> a # entry_syms s ms)"
  by (simp_all add: entry_syms_def map_filter_simps split: option.split)

lemma entry_syms_cong:
  "(\<And>m. m_sym (menus s' m) = m_sym (menus s m)) \<Longrightarrow> entry_syms s' ms = entry_syms s ms"
  by (induction ms) (simp_all split: option.split)

lemma set_changed_m_sym: "sym_set_changed a s = Some s' \<Longrightarrow> m_sym (menus s' m) = m_sym (menus s m)"
  using run.set_changed_run [of s s a] same_structure_simps(3) [OF prims_same_structure, of s s' m]
  by (simp add: returns_False)

definition assigned :: "sid option \<Rightarrow> sid \<Rightarrow> symbol \<Rightarrow> symbol" where
  "assigned res a y = add_flags {SYMBOL_VALID, SYMBOL_WRITE}
     (y\<lparr>curr := (curr y)\<lparr>tri := (if Some a = res then tri_yes else tri_no)\<rparr>\<rparr>)"

lemma assigned_sel [simp]:
  "visible (assigned res a y) = visible y"
  "tri (curr (assigned res a y)) = (if Some a = res then tri_yes else tri_no)"
  "s_flags (assigned res a y) = s_flags y \<union> {SYMBOL_VALID, SYMBOL_WRITE}"
  by (simp_all add: assigned_def)

lemma assigned_idem [simp]: "assigned res a (assigned res a y) = assigned res a y"
  by (simp add: assigned_def add_flags_def insert_commute)

lemma choice_assign_step:
  assumes "choice_assign res (m # ms) s = Some s'" and "m_sym (menus s m) = Some a"
    and "visible (syms s a) \<noteq> tri_no"
  obtains s1 where "choice_assign res ms s1 = Some s'" "syms s1 = (syms s)(a := assigned res a (syms s a))"
    "\<And>m. m_sym (menus s1 m) = m_sym (menus s m)"
proof -
  let ?v = "if Some a = res then tri_yes else tri_no"
  from assms obtain s0 where s0: "(if tri (curr (syms s a)) \<noteq> ?v then sym_set_changed a s else Some s) = Some s0"
    and r: "choice_assign res ms (upd_sym a (add_flags {SYMBOL_VALID, SYMBOL_WRITE})
        (upd_sym a (\<lambda>y. y\<lparr>curr := (curr y)\<lparr>tri := ?v\<rparr>\<rparr>) s0)) = Some s'"
    by (auto simp: Let_def bind_Some_iff)
  from s0 have y: "syms s0 = syms s" and m: "\<And>m. m_sym (menus s0 m) = m_sym (menus s m)"
    by (auto split: if_splits dest: set_changed_syms set_changed_m_sym)
  show ?thesis
    by (rule that [OF r]) (simp_all add: y m assigned_def)
qed

lemma choice_assign_syms:
  "choice_assign res ms s = Some s' \<Longrightarrow>
   syms s' a = (if a \<in> set (entry_syms s ms) \<and> visible (syms s a) \<noteq> tri_no
                then assigned res a (syms s a) else syms s a)
   \<and> m_sym (menus s' m) = m_sym (menus s m)"
proof (induction ms arbitrary: s)
  case (Cons m ms)
  show ?case
  proof (cases "m_sym (menus s m)")
    case None
    with Cons show ?thesis by auto
  next
    case (Some b)
    show ?thesis
    proof (cases "visible (syms s b) = tri_no")
      case True
      with Some Cons show ?thesis by auto
    next
      case False
      with Some Cons.prems obtain s1 where s1: "choice_assign res ms s1 = Some s'"
        "syms s1 = (syms s)(b := assigned res b (syms s b))" "\<And>m. m_sym (menus s1 m) = m_sym (menus s m)"
        using choice_assign_step by blast
      from Cons.IH [OF s1(1)] entry_syms_cong [of s1 s ms, OF s1(3)] s1(2,3) Some False
      show ?thesis by auto
    qed
  qed
qed auto

text \<open>The four attempts look only for visible symbols.\<close>

lemma choice_user_yes_visible:
  "choice_user_yes calc as s = Some (Some r, s') \<Longrightarrow> visible (syms s' r) \<noteq> tri_no \<and> r \<in> set as"
  by (induction as arbitrary: s) (auto simp: bind_Some_iff split: if_splits)

lemma prop_visible_structure:
  "calc_prop_visible (sym_calc_value n) p s = Some (v, s') \<Longrightarrow> same_structure s s'"
  using run.prop_visible_run [of s s n p] by (auto simp: returns_False dest: prims_same_structure)

lemma choice_default_prop_visible:
  "choice_default_prop (sym_calc_value n) ps s = Some (Some r, s') \<Longrightarrow>
   visible (syms s' r) \<noteq> tri_no
   \<and> (\<exists>p \<in> set ps. p_type (props s p) = P_DEFAULT \<and> prop_get_symbol (props s p) = Some r)"
proof (induction ps arbitrary: s)
  case (Cons p ps)
  show ?case
  proof (cases "p_type (props s p) \<noteq> P_DEFAULT")
    case True
    with Cons show ?thesis by auto
  next
    case False
    with Cons.prems obtain v s1 where 1: "calc_prop_visible (sym_calc_value n) p s = Some (v, s1)"
      and r: "(if v = tri_no then choice_default_prop (sym_calc_value n) ps s1
        else do {
          def_sym \<leftarrow> prop_get_symbol (props s1 p);
          if visible (syms s1 def_sym) \<noteq> tri_no then Some (Some def_sym, s1)
          else choice_default_prop (sym_calc_value n) ps s1
        }) = Some (Some r, s')" by (auto simp: bind_Some_iff)
    note str = same_structure_simps(10,11) [OF prop_visible_structure [OF 1]]
    from r False show ?thesis
      using Cons.IH [of s1] by (auto simp: bind_Some_iff str split: if_splits)
  qed
qed simp

text \<open>
  What \<open>menu_finalize\<close> builds: the members of a choice are the symbols of its entries, and its
  defaults are members.
\<close>

definition members_ok :: "kstate \<Rightarrow> mid \<Rightarrow> bool" where
  "members_ok s c \<longleftrightarrow>
     (\<forall>ms. sub_entries (menus s) c = Some ms \<longrightarrow>
        set (choice_members (menus s c)) = set (entry_syms s ms))
     \<and> (\<forall>a p r. m_sym (menus s c) = Some a \<longrightarrow> p \<in> set (s_prop (syms s a)) \<longrightarrow>
          p_type (props s p) = P_DEFAULT \<longrightarrow> prop_get_symbol (props s p) = Some r \<longrightarrow>
          r \<in> set (choice_members (menus s c)))"

lemma members_ok_same:
  assumes "same_structure s s'" and "members_ok s c"
  shows "members_ok s' c"
  using assms(2) unfolding members_ok_def
  by (simp add: same_structure_simps [OF assms(1)] entry_syms_cong [of s' s, OF same_structure_simps(3) [OF assms(1)]])

lemma sym_choice_default_visible:
  assumes d: "sym_choice_default (sym_calc_value n) c s = Some (Some r, s')" and m: "members_ok s c"
  shows "visible (syms s' r) \<noteq> tri_no \<and> r \<in> set (choice_members (menus s c))"
proof -
  from d obtain a q where a: "m_sym (menus s c) = Some a"
    and q: "choice_default_prop (sym_calc_value n) (s_prop (syms s a)) s = Some (q, s')"
    by (auto simp: sym_choice_default_def bind_Some_iff split: option.splits)
  have str: "same_structure s s'"
  proof -
    have "returns False (choice_default_prop (sym_calc_value n) (s_prop (syms s a)) s)
        (\<lambda>(v, s'). prim\<^sup>*\<^sup>* s s')"
      by (rule run.choice_default_prop_run) simp_all
    with q show ?thesis by (simp add: returns_False prims_same_structure)
  qed
  show ?thesis
  proof (cases q)
    case None
    with d a q obtain ms where "sub_entries (menus s') c = Some ms"
      "find (\<lambda>a. visible (syms s' a) \<noteq> tri_no) (entry_syms s' ms) = Some r"
      by (auto simp: sym_choice_default_def bind_Some_iff)
    with members_ok_same [OF str m] show ?thesis
      by (auto simp: members_ok_def same_structure_simps [OF str] dest!: find_SomeD)
  next
    case (Some b)
    with d a q have "b = r" by (auto simp: sym_choice_default_def)
    with choice_default_prop_visible [OF q [unfolded Some]] m a show ?thesis
      by (auto simp: members_ok_def)
  qed
qed

text \<open>Taking \<open>sym_calc_choice\<close> apart: what it chose, in the state before its final loop.\<close>

lemma choice_unspecified_visible:
  "choice_unspecified s ms = Some r \<Longrightarrow> visible (syms s r) \<noteq> tri_no \<and> r \<in> set (entry_syms s ms)"
  by (auto simp: choice_unspecified_def dest: find_SomeD)

lemma choice_last_visible_visible:
  "choice_last_visible s c = Some r \<Longrightarrow> visible (syms s r) \<noteq> tri_no \<and> r \<in> set (choice_members (menus s c))"
  by (auto simp: choice_last_visible_def dest: find_SomeD)

lemma choice_last_visible_None:
  "choice_last_visible s c = None \<Longrightarrow> a \<in> set (choice_members (menus s c)) \<Longrightarrow> visible (syms s a) = tri_no"
  by (auto simp: choice_last_visible_def find_None_iff)

definition choice_picked :: "nat \<Rightarrow> mid \<Rightarrow> kstate \<Rightarrow> sid option \<Rightarrow> kstate \<Rightarrow> bool" where
  "choice_picked n c s r s1 \<longleftrightarrow> prim\<^sup>*\<^sup>* s s1 \<and>
     (\<forall>a. r = Some a \<longrightarrow> visible (syms s1 a) \<noteq> tri_no \<and> a \<in> set (choice_members (menus s c)))"

lemma choice_user_yes_picked:
  "choice_user_yes (sym_calc_value n) (choice_members (menus s c)) s = Some (r, s1) \<Longrightarrow> choice_picked n c s r s1"
  using run.choice_user_yes_run [of s s n "choice_members (menus s c)"]
  by (auto simp: choice_picked_def returns_False dest: choice_user_yes_visible)

lemma choice_default_picked:
  assumes d: "choice_default (sym_calc_value n) c s = Some (r, s1)" and m: "members_ok s c"
  shows "choice_picked n c s r s1"
proof -
  from d obtain q where q: "sym_choice_default (sym_calc_value n) c s = Some (q, s1)"
    and r: "r = q \<or> r = None"
    by (auto simp: choice_default_def bind_Some_iff split: option.splits if_splits)
  from q obtain a p where a: "m_sym (menus s c) = Some a"
    and p: "choice_default_prop (sym_calc_value n) (s_prop (syms s a)) s = Some (p, s1)"
    by (auto simp: sym_choice_default_def bind_Some_iff split: option.splits)
  have "returns False (choice_default_prop (sym_calc_value n) (s_prop (syms s a)) s) (\<lambda>(v, s'). prim\<^sup>*\<^sup>* s s')"
    by (rule run.choice_default_prop_run) simp_all
  with p have "prim\<^sup>*\<^sup>* s s1" by (simp add: returns_False)
  with q r sym_choice_default_visible [OF _ m] show ?thesis by (auto simp: choice_picked_def)
qed

lemma choice_picked_trans:
  "choice_picked n c s r s1 \<Longrightarrow> choice_picked n c s1 q s2 \<Longrightarrow> choice_picked n c s q s2"
  using same_structure_simps(4) [OF prims_same_structure, of s s1 c]
  by (auto simp: choice_picked_def)

theorem calc_choice_values:
  assumes r: "sym_calc_choice (sym_calc_value n) c s = Some (res, s')" and m: "members_ok s c"
  shows "\<And>r. res = Some r \<Longrightarrow> visible (syms s' r) \<noteq> tri_no \<and> r \<in> set (choice_members (menus s c))"
    and "\<And>a. a \<in> set (choice_members (menus s c)) \<Longrightarrow> visible (syms s' a) \<noteq> tri_no \<Longrightarrow>
           res \<noteq> None \<and> SYMBOL_VALID \<in> s_flags (syms s' a)
           \<and> tri (curr (syms s' a)) = (if Some a = res then tri_yes else tri_no)"
proof -
  from r obtain r0 s0 r1 s1 ms where
    u: "choice_user_yes (sym_calc_value n) (choice_members (menus s c)) s = Some (r0, s0)"
    and d: "(if r0 = None then choice_default (sym_calc_value n) c s0 else Some (r0, s0)) = Some (r1, s1)"
    and ms: "sub_entries (menus s1) c = Some ms"
    and res: "res = (if (if r1 = None then choice_unspecified s1 ms else r1) = None
        then choice_last_visible s1 c else (if r1 = None then choice_unspecified s1 ms else r1))"
    and as: "choice_assign res ms s1 = Some s'"
    by (auto simp: sym_calc_choice_def Let_def bind_Some_iff simp del: not_None_eq)
  have p0: "choice_picked n c s r0 s0" using u by (rule choice_user_yes_picked)
  then have "prim\<^sup>*\<^sup>* s s0" by (simp add: choice_picked_def)
  then have "members_ok s0 c" using members_ok_same [OF prims_same_structure m] by blast
  then have p1: "choice_picked n c s r1 s1"
    using d p0 choice_picked_trans [OF p0 choice_default_picked] by (auto split: if_splits)
  then have str: "same_structure s s1" by (auto simp: choice_picked_def prims_same_structure)
  have m1: "members_ok s1 c" using members_ok_same [OF str m] .
  note mem = same_structure_simps(4) [OF str]
  have ent: "set (entry_syms s1 ms) = set (choice_members (menus s c))"
    using m1 ms mem by (simp add: members_ok_def)
  have v: "visible (syms s1 r) \<noteq> tri_no \<and> r \<in> set (choice_members (menus s c))" if "res = Some r" for r
    using that res p1 choice_unspecified_visible [of s1 ms r] choice_last_visible_visible [of s1 c r] ent mem
    by (auto simp: choice_picked_def split: if_splits)
  have n: "visible (syms s1 a) = tri_no" if "res = None" "a \<in> set (choice_members (menus s c))" for a
    using that res choice_last_visible_None [of s1 c a] mem by (auto split: if_splits)
  note post = choice_assign_syms [OF as, THEN conjunct1, unfolded ent]
  show "visible (syms s' r) \<noteq> tri_no \<and> r \<in> set (choice_members (menus s c))" if "res = Some r" for r
    using v [OF that] post [of r] by auto
  show "res \<noteq> None \<and> SYMBOL_VALID \<in> s_flags (syms s' a)
           \<and> tri (curr (syms s' a)) = (if Some a = res then tri_yes else tri_no)"
    if "a \<in> set (choice_members (menus s c))" "visible (syms s' a) \<noteq> tri_no" for a
    using that post [of a] n [of a] by (auto split: if_splits)
qed

section \<open>Ranges\<close>

text \<open>
  After \<open>sym_validate_range\<close> a number with an active range is the lower bound, the upper bound,
  or lies between them. The bounds are read with the base of their own type.
\<close>

definition sym_number :: "nat \<Rightarrow> symbol \<Rightarrow> int" where
  "sym_number base y =
     fst (strtoll_int (case s_type y of S_INT \<Rightarrow> 10 | S_HEX \<Rightarrow> 16 | _ \<Rightarrow> base) (str_of (val (curr y))))"

definition number_base_of :: "symbol \<Rightarrow> nat" where
  "number_base_of y = (if s_type y = S_INT then 10 else 16)"

text \<open>A bound that is a constant or has the type of the symbol is read with the same base.\<close>

definition same_base :: "symbol \<Rightarrow> symbol \<Rightarrow> bool" where
  "same_base y b \<longleftrightarrow> s_type b = s_type y \<or> (s_type b \<noteq> S_INT \<and> s_type b \<noteq> S_HEX)"

lemma same_base_number:
  "same_base y b \<Longrightarrow> s_type y = S_INT \<or> s_type y = S_HEX \<Longrightarrow>
   sym_number (number_base_of y) b = fst (strtoll_int (number_base_of y) (str_of (val (curr b))))"
  by (auto simp: same_base_def sym_number_def number_base_of_def split: symbol_type.splits)

lemma sym_number_set_curr_val:
  "sym_number b (syms (set_curr_val a v s) a)
     = fst (strtoll_int (case s_type (syms s a) of S_INT \<Rightarrow> 10 | S_HEX \<Rightarrow> 16 | _ \<Rightarrow> b) (str_of v))"
  by (simp add: sym_number_def set_curr_val_def)

theorem apply_range_bounds:
  assumes valid_done: "\<And>a s. SYMBOL_VALID \<in> s_flags (syms s a) \<Longrightarrow> calc a s = Some s"
    and valid: "SYMBOL_VALID \<in> s_flags (syms s l)" "SYMBOL_VALID \<in> s_flags (syms s h)"
    and ty: "s_type (syms s a) = S_INT \<or> s_type (syms s a) = S_HEX"
    and base: "same_base (syms s a) (syms s l)" "same_base (syms s a) (syms s h)"
    and le: "sym_number (number_base_of (syms s a)) (syms s l) \<le> sym_number (number_base_of (syms s a)) (syms s h)"
  shows "\<exists>s'. apply_range calc a (number_base_of (syms s a)) l h s = Some s'
     \<and> sym_number (number_base_of (syms s a)) (syms s l) \<le> sym_number 0 (syms s' a)
     \<and> sym_number 0 (syms s' a) \<le> sym_number (number_base_of (syms s a)) (syms s h)"
proof -
  let ?b = "number_base_of (syms s a)"
  let ?v = "fst (strtoll_int ?b (str_of (val (curr (syms s a)))))"
  have rv: "sym_get_range_val calc x ?b s = Some (sym_number ?b (syms s x), s)"
    if "SYMBOL_VALID \<in> s_flags (syms s x)" for x
    using that by (simp add: sym_get_range_val_def sym_number_def valid_done Let_def)
  have num: "sym_number 0 (syms (set_curr_val a v s) a) = fst (strtoll_int ?b (str_of v))" for v
    using ty by (auto simp: sym_number_set_curr_val number_base_of_def)
  have self: "sym_number 0 (syms s a) = ?v"
    using ty by (auto simp: sym_number_def number_base_of_def)
  show ?thesis
    using le by (auto simp: apply_range_def rv [OF valid(1)] rv [OF valid(2)] Let_def num self
        same_base_number [OF base(1) ty, symmetric] same_base_number [OF base(2) ty, symmetric])
qed

end
