(* ===== verification/SymSet.thy ===== *)
theory SymSet
  imports SymbolSem
begin

text \<open>
  Setting symbols, \<^verbatim>\<open>parser/symbol.c\<close>: the ranges of tristate and text values, the user's
  assignments to symbols and choices, toggling, and the default shown to the user. Functions
  that evaluate symbols take \<open>calc\<close> as in theory \<open>Symbol\<close>.
\<close>

section \<open>Tristate values\<close>

definition sym_tristate_within_range :: "kstate \<Rightarrow> sid \<Rightarrow> tristate \<Rightarrow> bool" where
  "sym_tristate_within_range s a v =
     (let y = syms s a; ty = sym_get_type s y in
      if visible y = tri_no then False
      else if ty \<noteq> S_BOOLEAN \<and> ty \<noteq> S_TRISTATE then False
      else if ty = S_BOOLEAN \<and> v = tri_mod then False
      else if visible y \<le> rev_dep_tri y then False
      else v \<ge> rev_dep_tri y \<and> v \<le> visible y)"

definition set_user_tri :: "sid \<Rightarrow> tristate \<Rightarrow> kstate \<Rightarrow> kstate" where
  "set_user_tri a v s =
     upd_sym a (\<lambda>y. y\<lparr>sdef := (sdef y)(S_DEF_USER := (sdef y S_DEF_USER)\<lparr>tri := v\<rparr>)\<rparr>) s"

definition sym_set_tristate_value :: "calc \<Rightarrow> sid \<Rightarrow> tristate \<Rightarrow> kstate \<Rightarrow> (bool \<times> kstate) option" where
  "sym_set_tristate_value calc a v s =
     (let oldval = sym_get_tristate_value (syms s a) in
      if \<not> sym_tristate_within_range s a v then Some (False, s)
      else do {
        s \<leftarrow> (if SYMBOL_DEF_USER \<notin> s_flags (syms s a) \<or> tri (sdef (syms s a) S_DEF_USER) \<noteq> v
              then sym_set_changed a (set_flag a SYMBOL_DEF_USER (set_user_tri a v s))
              else Some s);
        s \<leftarrow> (if oldval \<noteq> v then sym_clear_all_valid calc s else Some s);
        Some (True, s)
      })"

section \<open>Choices\<close>

text \<open>\<open>list_move\<close>: unlink the symbol from the list it is in and link it at the head of this one.\<close>

definition list_move_choice :: "sid \<Rightarrow> mid \<Rightarrow> kstate \<Rightarrow> kstate" where
  "list_move_choice a c s =
     (let M = (\<lambda>m. (menus s m)\<lparr>choice_members := removeAll a (choice_members (menus s m))\<rparr>)
      in upd_sym a (\<lambda>y. y\<lparr>choice_link := True\<rparr>)
           (s\<lparr>menus := M(c := (M c)\<lparr>choice_members := a # choice_members (M c)\<rparr>)\<rparr>))"

fun choice_set_loop :: "mid \<Rightarrow> sid \<Rightarrow> mid list \<Rightarrow> bool \<Rightarrow> kstate \<Rightarrow> bool \<times> kstate" where
  "choice_set_loop c a [] changed s = (changed, s)"
| "choice_set_loop c a (m # ms) changed s =
     (case m_sym (menus s m) of
        None \<Rightarrow> choice_set_loop c a ms changed s
      | Some b \<Rightarrow>
          (if visible (syms s b) = tri_no then choice_set_loop c a ms changed s
           else
             let v = (if b = a then tri_yes else tri_no);
                 changed = (if tri (curr (syms s b)) \<noteq> v then True else changed);
                 s = set_flag b SYMBOL_DEF_USER (set_user_tri b v s)
             in choice_set_loop c a ms changed (list_move_choice b c s)))"

definition choice_set_value :: "calc \<Rightarrow> mid \<Rightarrow> sid \<Rightarrow> kstate \<Rightarrow> kstate option" where
  "choice_set_value calc c a s = do {
     ms \<leftarrow> sub_entries (menus s) c;
     let (changed, s) = choice_set_loop c a ms False s;
     if changed then sym_clear_all_valid calc s else Some s
   }"

fun next_tristate :: "tristate \<Rightarrow> tristate" where
  "next_tristate tri_no = tri_mod"
| "next_tristate tri_mod = tri_yes"
| "next_tristate tri_yes = tri_no"

text \<open>The loop of \<open>sym_toggle_tristate_value\<close>, with the number of rounds it may still do.\<close>

fun toggle_loop :: "calc \<Rightarrow> nat \<Rightarrow> sid \<Rightarrow> tristate \<Rightarrow> tristate \<Rightarrow> kstate \<Rightarrow> (tristate \<times> kstate) option" where
  "toggle_loop calc 0 a oldval newval s = None"
| "toggle_loop calc (Suc n) a oldval newval s =
     (let newval = next_tristate newval in do {
        (ok, s) \<leftarrow> sym_set_tristate_value calc a newval s;
        if ok then Some (newval, s)
        else if oldval \<noteq> newval then toggle_loop calc n a oldval newval s
        else Some (newval, s)
      })"

definition sym_toggle_tristate_value :: "calc \<Rightarrow> sid \<Rightarrow> kstate \<Rightarrow> (tristate \<times> kstate) option" where
  "sym_toggle_tristate_value calc a s = do {
     choice \<leftarrow> sym_get_choice_menu (syms s) (menus s) (syms s a);
     case choice of
       Some c \<Rightarrow> do { s \<leftarrow> choice_set_value calc c a s; Some (tri_yes, s) }
     | None \<Rightarrow>
         (let oldval = sym_get_tristate_value (syms s a)
          in toggle_loop calc 3 a oldval oldval s)
   }"

section \<open>Text values\<close>

text \<open>
  \<open>sym_string_valid\<close>. Reading the character behind the end of a text gives the terminator.
\<close>

definition int_string_valid :: "string \<Rightarrow> bool" where
  "int_string_valid str =
     (let str = (if char_at str 0 = CHR ''-'' then tl str else str) in
      if \<not> isdigit (char_at str 0) then False
      else if char_at str 0 = CHR ''0'' \<and> tl str \<noteq> [] then False
      else list_all isdigit (tl str))"

definition hex_string_valid :: "string \<Rightarrow> bool" where
  "hex_string_valid str =
     (let str = (if char_at str 0 = CHR ''0'' \<and> (char_at str 1 = CHR ''x'' \<or> char_at str 1 = CHR ''X'')
                 then drop 2 str else str) in
      isxdigit (char_at str 0) \<and> list_all isxdigit (tl str))"

definition tristate_letter :: "char \<Rightarrow> tristate option" where
  "tristate_letter c =
     (if c = CHR ''y'' \<or> c = CHR ''Y'' then Some tri_yes
      else if c = CHR ''m'' \<or> c = CHR ''M'' then Some tri_mod
      else if c = CHR ''n'' \<or> c = CHR ''N'' then Some tri_no
      else None)"

definition sym_string_valid :: "symbol \<Rightarrow> string \<Rightarrow> bool" where
  "sym_string_valid y str =
     (case s_type y of
        S_STRING \<Rightarrow> True
      | S_INT \<Rightarrow> int_string_valid str
      | S_HEX \<Rightarrow> hex_string_valid str
      | S_BOOLEAN \<Rightarrow> tristate_letter (char_at str 0) \<noteq> None
      | S_TRISTATE \<Rightarrow> tristate_letter (char_at str 0) \<noteq> None
      | S_UNKNOWN \<Rightarrow> False)"

definition number_within_range :: "calc \<Rightarrow> sid \<Rightarrow> nat \<Rightarrow> string \<Rightarrow> kstate \<Rightarrow> (bool \<times> kstate) option" where
  "number_within_range calc a base str s =
     (if \<not> sym_string_valid (syms s a) str then Some (False, s)
      else do {
        (prop, s) \<leftarrow> sym_get_range_prop calc a s;
        case prop of
          None \<Rightarrow> Some (True, s)
        | Some p \<Rightarrow> do {
            (l, r) \<leftarrow> range_of (props s p);
            let v = fst (strtoll_int base str);
            (lo, s) \<leftarrow> sym_get_range_val calc l base s;
            if v \<ge> lo then do {
              (hi, s) \<leftarrow> sym_get_range_val calc r base s;
              Some (v \<le> hi, s)
            } else Some (False, s)
          }
      })"

definition sym_string_within_range :: "calc \<Rightarrow> sid \<Rightarrow> string \<Rightarrow> kstate \<Rightarrow> (bool \<times> kstate) option" where
  "sym_string_within_range calc a str s =
     (case s_type (syms s a) of
        S_STRING \<Rightarrow> Some (sym_string_valid (syms s a) str, s)
      | S_INT \<Rightarrow> number_within_range calc a 10 str s
      | S_HEX \<Rightarrow> number_within_range calc a 16 str s
      | S_UNKNOWN \<Rightarrow> Some (False, s)
      | _ \<Rightarrow> (case tristate_letter (char_at str 0) of
                None \<Rightarrow> Some (False, s)
              | Some t \<Rightarrow> Some (sym_tristate_within_range s a t, s)))"

text \<open>\<open>xmalloc\<close> of a new text: a heap string at a new address.\<close>

definition new_heap_string :: "string \<Rightarrow> kstate \<Rightarrow> strptr \<times> kstate" where
  "new_heap_string t s = (Heap (next_addr s) t, s\<lparr>next_addr := Suc (next_addr s)\<rparr>)"

definition set_user_val :: "sid \<Rightarrow> string \<Rightarrow> kstate \<Rightarrow> kstate" where
  "set_user_val a t s =
     (case new_heap_string t s of (p, s) \<Rightarrow>
        upd_sym a (\<lambda>y. y\<lparr>sdef := (sdef y)(S_DEF_USER := (sdef y S_DEF_USER)\<lparr>val := p\<rparr>)\<rparr>) s)"

definition has_0x :: "string \<Rightarrow> bool" where
  "has_0x str = (char_at str 0 = CHR ''0'' \<and> (char_at str 1 = CHR ''x'' \<or> char_at str 1 = CHR ''X''))"

definition sym_set_string_value :: "calc \<Rightarrow> sid \<Rightarrow> string \<Rightarrow> kstate \<Rightarrow> (bool \<times> kstate) option" where
  "sym_set_string_value calc a newval s =
     (if s_type (syms s a) = S_BOOLEAN \<or> s_type (syms s a) = S_TRISTATE then
        (case tristate_letter (char_at newval 0) of
           None \<Rightarrow> Some (False, s)
         | Some t \<Rightarrow> sym_set_tristate_value calc a t s)
      else do {
        (ok, s) \<leftarrow> sym_string_within_range calc a newval s;
        if \<not> ok then Some (False, s)
        else do {
          s \<leftarrow> (if SYMBOL_DEF_USER \<notin> s_flags (syms s a)
                then sym_set_changed a (set_flag a SYMBOL_DEF_USER s) else Some s);
          let oldval = val (sdef (syms s a) S_DEF_USER);
          if s_type (syms s a) = S_HEX \<and> \<not> has_0x newval then do {
            s \<leftarrow> sym_clear_all_valid calc (set_user_val a (''0x'' @ newval) s);
            Some (True, s)
          }
          else if oldval = NULL \<or> strcmp (str_of oldval) newval \<noteq> 0 then do {
            s \<leftarrow> sym_clear_all_valid calc (set_user_val a newval s);
            Some (True, s)
          }
          else Some (True, s)
        }
      })"

section \<open>The default shown to the user\<close>

definition string_default_text :: "symbol_type \<Rightarrow> tristate \<Rightarrow> string \<Rightarrow> string" where
  "string_default_text ty v str =
     (case ty of
        S_BOOLEAN \<Rightarrow> tristate_text v
      | S_TRISTATE \<Rightarrow> tristate_text v
      | S_INT \<Rightarrow> if str = '''' then ''0'' else str
      | S_HEX \<Rightarrow> if str = '''' then ''0x0'' else str
      | _ \<Rightarrow> str)"

definition sym_get_string_default :: "calc \<Rightarrow> sid \<Rightarrow> kstate \<Rightarrow> (string \<times> kstate) option" where
  "sym_get_string_default calc a s = do {
     s \<leftarrow> sym_calc_visibility calc a s;
     s \<leftarrow> calc (modules_sym s) s;
     let v = tri (curr (syms s symbol_no));
     (prop, s) \<leftarrow> sym_get_default_prop calc a s;
     (v, str, s) \<leftarrow> (case prop of
         None \<Rightarrow> Some (v, '''', s)
       | Some p \<Rightarrow>
           (if s_type (syms s a) = S_BOOLEAN \<or> s_type (syms s a) = S_TRISTATE then do {
              (w, s) \<leftarrow> calc_prop_expr calc p s;
              Some (EXPR_AND w (p_visible_tri (props s p)), '''', s)
            } else (case prop_get_symbol (props s p) of
                      None \<Rightarrow> Some (v, '''', s)
                    | Some ds \<Rightarrow> do {
                        s \<leftarrow> calc ds s;
                        Some (v, str_of (val (curr (syms s ds))), s)
                      })));
     let y = syms s a;
     let v = EXPR_OR v (rev_dep_tri y);
     let v = (if v = tri_mod \<and> \<not> sym_is_choice_value y \<and> tri (curr (syms s (modules_sym s))) = tri_no
              then tri_yes else v);
     let v = (if s_type y = S_BOOLEAN \<and> v = tri_mod then tri_yes else v);
     let v = (if v < implied_tri y then implied_tri y else v);
     Some (string_default_text (s_type y) v str, s)
   }"

definition sym_is_changeable :: "symbol \<Rightarrow> bool" where
  "sym_is_changeable y \<longleftrightarrow> \<not> sym_is_choice y \<and> visible y > rev_dep_tri y"

section \<open>What a setting does\<close>

lemma within_range_bounds:
  "sym_tristate_within_range s a v \<Longrightarrow>
   rev_dep_tri (syms s a) \<le> v \<and> v \<le> visible (syms s a) \<and> visible (syms s a) \<noteq> tri_no
   \<and> (sym_get_type s (syms s a) = S_BOOLEAN \<longrightarrow> v \<noteq> tri_mod)"
  by (auto simp: sym_tristate_within_range_def Let_def split: if_splits)

definition user_tri :: "kstate \<Rightarrow> sid \<Rightarrow> tristate option" where
  "user_tri s a = (if sym_has_value (syms s a) then Some (tri (sdef (syms s a) S_DEF_USER)) else None)"

definition user_text :: "kstate \<Rightarrow> sid \<Rightarrow> string option" where
  "user_text s a = (if sym_has_value (syms s a) then Some (str_of (val (sdef (syms s a) S_DEF_USER))) else None)"

lemma user_tri_syms: "syms s' = syms s \<Longrightarrow> user_tri s' = user_tri s \<and> user_text s' = user_text s"
  by (auto simp: user_tri_def user_text_def)

lemma fold_del_valid:
  "s_flags (syms (fold (\<lambda>a. upd_sym a (del_flags {SYMBOL_VALID})) as s) b) - {SYMBOL_VALID} = s_flags (syms s b) - {SYMBOL_VALID}"
  "sdef (syms (fold (\<lambda>a. upd_sym a (del_flags {SYMBOL_VALID})) as s) b) = sdef (syms s b)"
  by (induction as arbitrary: s) auto

lemma clear_all_valid_user:
  assumes "sym_clear_all_valid (sym_calc_value n) s = Some s'" and "sym_has_value (syms s a)"
  shows "user_tri s' a = user_tri s a" and "user_text s' a = user_text s a"
proof -
  let ?s1 = "(expr_invalidate_all (fold (\<lambda>a. upd_sym a (del_flags {SYMBOL_VALID})) (sym_table s) s))\<lparr>conf_changed := True\<rparr>"
  have fl: "s_flags (syms ?s1 a) - {SYMBOL_VALID} = s_flags (syms s a) - {SYMBOL_VALID}"
    and sd: "sdef (syms ?s1 a) = sdef (syms s a)"
    by (simp_all add: expr_invalidate_all_def fold_del_valid)
  from assms(1) have "prim\<^sup>*\<^sup>* ?s1 s'"
    by (auto simp: sym_clear_all_valid_def Let_def dest: sym_calc_value_prims)
  moreover have h: "sym_has_value (syms ?s1 a)"
    using assms(2) fl by (auto simp: sym_has_value_def)
  ultimately show "user_tri s' a = user_tri s a" "user_text s' a = user_text s a"
    using prims_has_value prims_user_value assms(2) sd by (auto simp: user_tri_def user_text_def)
qed

lemma set_user_tri_user [simp]:
  "user_tri (set_flag a SYMBOL_DEF_USER (set_user_tri a v s)) a = Some v"
  by (simp add: user_tri_def set_flag_def set_user_tri_def sym_has_value_def)

lemma set_tristate_value_result:
  assumes r: "sym_set_tristate_value (sym_calc_value n) a v s = Some (b, s')"
  shows "b = sym_tristate_within_range s a v" and "b \<Longrightarrow> user_tri s' a = Some v" and "\<not> b \<Longrightarrow> s' = s"
proof -
  show b: "b = sym_tristate_within_range s a v" and "\<not> b \<Longrightarrow> s' = s"
    using r by (auto simp: sym_set_tristate_value_def Let_def bind_Some_iff split: if_splits)
  assume t: b
  with r b obtain s1 where
    s1: "(if SYMBOL_DEF_USER \<notin> s_flags (syms s a) \<or> tri (sdef (syms s a) S_DEF_USER) \<noteq> v
              then sym_set_changed a (set_flag a SYMBOL_DEF_USER (set_user_tri a v s))
              else Some s) = Some s1"
    and s': "(if sym_get_tristate_value (syms s a) \<noteq> v then sym_clear_all_valid (sym_calc_value n) s1 else Some s1) = Some s'"
    by (auto simp: sym_set_tristate_value_def Let_def bind_Some_iff)
  have u: "user_tri s1 a = Some v"
  proof (cases "SYMBOL_DEF_USER \<notin> s_flags (syms s a) \<or> tri (sdef (syms s a) S_DEF_USER) \<noteq> v")
    case True
    with s1 have "sym_set_changed a (set_flag a SYMBOL_DEF_USER (set_user_tri a v s)) = Some s1" by simp
    from user_tri_syms [OF set_changed_syms [OF this]] show ?thesis by simp
  next
    case False
    with s1 show ?thesis by (auto simp: user_tri_def sym_has_value_def)
  qed
  then have "sym_has_value (syms s1 a)" by (simp add: user_tri_def split: if_splits)
  with s' u show "user_tri s' a = Some v"
    using clear_all_valid_user(1) by (auto split: if_splits)
qed

text \<open>Toggling: three rounds are enough, and try every value once.\<close>

lemma toggle_loop_result:
  assumes "toggle_loop (sym_calc_value n) 3 a (sym_get_tristate_value (syms s a)) (sym_get_tristate_value (syms s a)) s = Some (w, s')"
  shows "(sym_tristate_within_range s a w \<and> user_tri s' a = Some w)
    \<or> ((\<forall>v. \<not> sym_tristate_within_range s a v) \<and> w = sym_get_tristate_value (syms s a) \<and> s' = s)"
proof -
  have step: "(b = sym_tristate_within_range t a v) \<and> (b \<longrightarrow> user_tri t' a = Some v) \<and> (\<not> b \<longrightarrow> t' = t)"
    if "sym_set_tristate_value (sym_calc_value n) a v t = Some (b, t')" for v t b t'
    using set_tristate_value_result [OF that] by blast
  have all: "(\<forall>v. P v) \<longleftrightarrow> P tri_no \<and> P tri_mod \<and> P tri_yes" for P
    by (metis tristate.exhaust)
  show ?thesis
    using assms
    by (cases "sym_get_tristate_value (syms s a)")
       (auto simp: numeral_3_eq_3 Let_def bind_Some_iff all split: if_splits dest!: step)
qed

lemma toggle_loop_defined:
  assumes "\<And>v. sym_set_tristate_value calc a v s \<noteq> None"
    and keep: "\<And>v t. sym_set_tristate_value calc a v s = Some (False, t) \<Longrightarrow> t = s"
  shows "toggle_loop calc 3 a old old s \<noteq> None"
proof -
  have "\<exists>b t. sym_set_tristate_value calc a v s = Some (b, t) \<and> (\<not> b \<longrightarrow> t = s)" for v
    using assms(1) [of v] keep [of v] by (cases "sym_set_tristate_value calc a v s") auto
  then obtain b t where bt: "sym_set_tristate_value calc a v s = Some (b v, t v)" "\<not> b v \<Longrightarrow> t v = s" for v
    by metis
  show ?thesis
    by (cases old) (auto simp: numeral_3_eq_3 Let_def bt)
qed

section \<open>Texts of numbers\<close>

lemma scan_digits_all:
  "list_all (is_base_digit b) s \<Longrightarrow> snd (scan_digits b acc s) = []"
  by (induction b acc s rule: scan_digits.induct)
     (auto simp: is_base_digit_def split: option.splits)

lemma isdigit_base: "isdigit c \<Longrightarrow> is_base_digit 10 c"
  by (auto simp: is_base_digit_def digit_val_def isdigit_def)

lemma isxdigit_base: "isxdigit c \<Longrightarrow> is_base_digit 16 c"
  by (auto simp: is_base_digit_def digit_val_def isxdigit_def isdigit_def isupper_def islower_def
      of_char_eq_iff)

text \<open>
  The grammar of the integer texts that are accepted: an optional minus sign and decimal digits
  without a leading zero, except for zero itself.
\<close>

definition decimal :: "string \<Rightarrow> bool" where
  "decimal ds \<longleftrightarrow> ds \<noteq> [] \<and> list_all isdigit ds \<and> (hd ds = CHR ''0'' \<longrightarrow> ds = ''0'')"

lemma decimal_cases: "decimal (c # cs) \<longleftrightarrow> isdigit c \<and> list_all isdigit cs \<and> (c = CHR ''0'' \<longrightarrow> cs = [])"
  by (auto simp: decimal_def)

lemma not_digit_minus [simp]: "\<not> isdigit (CHR ''-'')" "\<not> isdigit (CHR 0x00)" "\<not> isxdigit (CHR 0x00)"
  by (simp_all add: isdigit_def isxdigit_def)

lemma int_string_valid_iff:
  "int_string_valid str \<longleftrightarrow> decimal str \<or> (\<exists>ds. str = CHR ''-'' # ds \<and> decimal ds)"
proof (cases str)
  case Nil
  then show ?thesis by (simp add: int_string_valid_def char_at_def decimal_def)
next
  case (Cons c cs)
  have pos: "(isdigit (char_at s 0) \<and> \<not> (char_at s 0 = CHR ''0'' \<and> tl s \<noteq> []) \<and> list_all isdigit (tl s)) \<longleftrightarrow> decimal s" for s
    by (cases s) (auto simp: char_at_def decimal_def)
  show ?thesis
  proof (cases "c = CHR ''-''")
    case True
    then show ?thesis using pos [of cs] by (auto simp: Cons int_string_valid_def Let_def decimal_cases char_at_def)
  next
    case False
    then show ?thesis using pos [of str] by (auto simp: Cons int_string_valid_def Let_def char_at_def)
  qed
qed

text \<open>\<open>strtoll\<close> reads an accepted text to its end, so the range check sees the whole number.\<close>

lemma decimal_scan:
  assumes "decimal ds"
  obtains m where "scan_magnitude 10 ds = Some (m, [])"
proof -
  from assms obtain c cs where ds: "ds = c # cs" by (cases ds) (auto simp: decimal_def)
  then have "list_all (is_base_digit 10) ds" "is_base_digit 10 c"
    using assms by (auto simp: decimal_def list_all_iff isdigit_base)
  moreover obtain m where "scan_digits 10 0 (c # cs) = (m, [])"
    using calculation scan_digits_all [of 10 ds 0] by (cases "scan_digits 10 0 (c # cs)") (simp add: ds)
  ultimately have "scan_magnitude 10 ds = Some (m, [])"
    by (simp add: scan_magnitude_def number_base_def ds Let_def del: scan_digits.simps)
  then show thesis by (rule that)
qed

lemma isspace_not_digit: "isdigit c \<Longrightarrow> \<not> isspace c \<and> c \<noteq> CHR ''-'' \<and> c \<noteq> CHR ''+''"
  by (auto simp: isdigit_def isspace_def)

lemma int_string_read:
  assumes "int_string_valid str"
  shows "fst (snd (strtoll_int 10 str)) = []"
proof -
  from assms consider "decimal str" | ds where "str = CHR ''-'' # ds" "decimal ds"
    by (auto simp: int_string_valid_iff)
  then show ?thesis
  proof cases
    case 1
    then obtain c cs where "str = c # cs" "isdigit c" by (cases str) (auto simp: decimal_def)
    moreover obtain m where "scan_magnitude 10 str = Some (m, [])" using decimal_scan [OF 1] .
    ultimately show ?thesis
      using isspace_not_digit [of c] by (auto simp: strtoll_int_def scan_number_def Let_def)
  next
    case 2
    obtain m where "scan_magnitude 10 ds = Some (m, [])" using decimal_scan [OF 2(2)] .
    moreover have "\<not> isspace (CHR ''-'')" by (simp add: isspace_def)
    ultimately show ?thesis
      by (auto simp: 2(1) strtoll_int_def scan_number_def Let_def)
  qed
qed

lemma hex_string_read:
  assumes "hex_string_valid str"
  shows "fst (snd (strtoll_int 16 str)) = []"
proof -
  define d where "d = (if has_0x str then drop 2 str else str)"
  have v: "isxdigit (char_at d 0)" "list_all isxdigit (tl d)"
    using assms by (auto simp: hex_string_valid_def Let_def d_def has_0x_def)
  then obtain c cs where d: "d = c # cs" by (cases d) (auto simp: char_at_def)
  with v have x: "isxdigit c" "list_all (is_base_digit 16) d"
    by (auto simp: char_at_def list_all_iff isxdigit_base)
  have pre: "has_hex_prefix str = has_0x str"
  proof (cases "has_0x str")
    case True
    with d d_def obtain a b where "str = a # b # c # cs"
      by (cases str rule: remdups_adj.cases) (auto simp: has_0x_def char_at_def)
    with True x show ?thesis by (auto simp: has_hex_prefix_def has_0x_def char_at_def)
  next
    case False
    then show ?thesis by (auto simp: has_hex_prefix_def has_0x_def char_at_def split: list.splits)
  qed
  obtain m where "scan_digits 16 0 (c # cs) = (m, [])"
    using scan_digits_all [OF x(2), of 0] by (cases "scan_digits 16 0 (c # cs)") (simp add: d)
  then have "scan_magnitude 16 str = Some (m, [])"
    using isxdigit_base [OF x(1)]
    by (simp add: scan_magnitude_def number_base_def pre d_def [symmetric] d Let_def del: scan_digits.simps)
  moreover obtain z zs where "str = z # zs" "isxdigit z"
    using d d_def v by (cases str) (auto simp: has_0x_def char_at_def isxdigit_def isdigit_def split: if_splits)
  moreover have "isxdigit z \<Longrightarrow> \<not> isspace z \<and> z \<noteq> CHR ''-'' \<and> z \<noteq> CHR ''+''"
    by (auto simp: isxdigit_def isdigit_def isspace_def)
  ultimately show ?thesis by (auto simp: strtoll_int_def scan_number_def Let_def)
qed

section \<open>Setting a choice\<close>

lemma list_move_sel [simp]:
  "visible (syms (list_move_choice a c s) b) = visible (syms s b)"
  "curr (syms (list_move_choice a c s) b) = curr (syms s b)"
  "sdef (syms (list_move_choice a c s) b) = sdef (syms s b)"
  "s_flags (syms (list_move_choice a c s) b) = s_flags (syms s b)"
  "m_sym (menus (list_move_choice a c s) m) = m_sym (menus s m)"
  "choice_members (menus (list_move_choice a c s) c) = a # removeAll a (choice_members (menus s c))"
  by (simp_all add: list_move_choice_def Let_def)

definition user_set :: "sid \<Rightarrow> tristate \<Rightarrow> mid \<Rightarrow> kstate \<Rightarrow> kstate" where
  "user_set b v c s = list_move_choice b c (set_flag b SYMBOL_DEF_USER (set_user_tri b v s))"

lemma user_set_sel [simp]:
  "visible (syms (user_set b v c s) x) = visible (syms s x)"
  "curr (syms (user_set b v c s) x) = curr (syms s x)"
  "user_tri (user_set b v c s) x = (if x = b then Some v else user_tri s x)"
  "m_sym (menus (user_set b v c s) m) = m_sym (menus s m)"
  "choice_members (menus (user_set b v c s) c) = b # removeAll b (choice_members (menus s c))"
  by (simp_all add: user_set_def user_tri_def sym_has_value_def set_flag_def set_user_tri_def)

lemma choice_set_loop_step:
  "m_sym (menus s m) = Some b \<Longrightarrow> visible (syms s b) \<noteq> tri_no \<Longrightarrow>
   choice_set_loop c a (m # ms) ch s =
     choice_set_loop c a ms (ch \<or> tri (curr (syms s b)) \<noteq> (if b = a then tri_yes else tri_no))
       (user_set b (if b = a then tri_yes else tri_no) c s)"
  by (simp add: Let_def user_set_def)

lemma choice_set_loop_result:
  "choice_set_loop c a ms ch s = (ch', s') \<Longrightarrow>
   (\<forall>x. visible (syms s' x) = visible (syms s x) \<and> curr (syms s' x) = curr (syms s x))
   \<and> (\<forall>x. user_tri s' x = (if x \<in> set (entry_syms s ms) \<and> visible (syms s x) \<noteq> tri_no
          then Some (if x = a then tri_yes else tri_no) else user_tri s x))
   \<and> set (choice_members (menus s' c)) = set (choice_members (menus s c))
       \<union> {x \<in> set (entry_syms s ms). visible (syms s x) \<noteq> tri_no}
   \<and> (distinct (choice_members (menus s c)) \<longrightarrow> distinct (choice_members (menus s' c)))
   \<and> ch' = (ch \<or> (\<exists>x \<in> set (entry_syms s ms). visible (syms s x) \<noteq> tri_no
          \<and> tri (curr (syms s x)) \<noteq> (if x = a then tri_yes else tri_no)))"
proof (induction ms arbitrary: ch s)
  case (Cons m ms)
  show ?case
  proof (cases "m_sym (menus s m)")
    case None
    with Cons show ?thesis by auto
  next
    case (Some b)
    show ?thesis
    proof (cases "visible (syms s b) = tri_no")
      case True
      with Some Cons.prems have "choice_set_loop c a ms ch s = (ch', s')" by simp
      from Cons.IH [OF this] Some True show ?thesis by auto
    next
      case False
      let ?v = "if b = a then tri_yes else tri_no"
      let ?s = "user_set b ?v c s"
      have p: "choice_set_loop c a ms (ch \<or> tri (curr (syms s b)) \<noteq> ?v) ?s = (ch', s')"
        using Cons.prems choice_set_loop_step [of s m b c a ms ch, OF Some False] by simp
      have ent: "entry_syms ?s ms = entry_syms s ms" by (rule entry_syms_cong) simp
      from Cons.IH [OF p] Some False show ?thesis
        by (simp add: ent distinct_removeAll) blast
    qed
  qed
qed auto

section \<open>Setting a text\<close>

lemma number_within_range_result:
  assumes "number_within_range (sym_calc_value n) a b t s = Some (ok, s')"
  shows "prim\<^sup>*\<^sup>* s s'" and "ok \<Longrightarrow> sym_string_valid (syms s a) t"
proof -
  have rv: "prim\<^sup>*\<^sup>* u u'" if "sym_get_range_val (sym_calc_value n) x b u = Some (v, u')" for x u v u'
    using run.range_val_run [of u u n x b] that by (simp add: returns_False)
  have rp: "prim\<^sup>*\<^sup>* s u" if "sym_get_range_prop (sym_calc_value n) a s = Some (q, u)" for q u
    using run.range_prop_run [of s s n a] that by (simp add: returns_False)
  show "prim\<^sup>*\<^sup>* s s'" and "ok \<Longrightarrow> sym_string_valid (syms s a) t"
    using assms
    by (auto simp: number_within_range_def bind_Some_iff Let_def split: if_splits option.splits
        dest!: rp rv intro: rtranclp_trans)
qed

lemma string_within_range_result:
  assumes "sym_string_within_range (sym_calc_value n) a t s = Some (ok, s')"
    and "s_type (syms s a) \<noteq> S_BOOLEAN" "s_type (syms s a) \<noteq> S_TRISTATE"
  shows "prim\<^sup>*\<^sup>* s s' \<and> (ok \<longrightarrow> sym_string_valid (syms s a) t)"
  using assms number_within_range_result
  by (auto simp: sym_string_within_range_def split: symbol_type.splits)

lemma set_user_val_sel [simp]:
  "sym_has_value (syms (set_user_val a t s) a) = sym_has_value (syms s a)"
  "str_of (val (sdef (syms (set_user_val a t s) a) S_DEF_USER)) = t"
  by (simp_all add: set_user_val_def new_heap_string_def sym_has_value_def)

lemma set_string_value_result:
  assumes r: "sym_set_string_value (sym_calc_value n) a t s = Some (True, s')"
    and ty: "s_type (syms s a) \<noteq> S_BOOLEAN" "s_type (syms s a) \<noteq> S_TRISTATE"
  shows "user_text s' a = Some (if s_type (syms s a) = S_HEX \<and> \<not> has_0x t then ''0x'' @ t else t)
    \<and> sym_string_valid (syms s a) t"
proof -
  from r ty obtain s1 s2 where
    1: "sym_string_within_range (sym_calc_value n) a t s = Some (True, s1)"
    and 2: "(if SYMBOL_DEF_USER \<notin> s_flags (syms s1 a)
              then sym_set_changed a (set_flag a SYMBOL_DEF_USER s1) else Some s1) = Some s2"
    and 3: "(if s_type (syms s2 a) = S_HEX \<and> \<not> has_0x t then do {
            s \<leftarrow> sym_clear_all_valid (sym_calc_value n) (set_user_val a (''0x'' @ t) s2);
            Some (True, s)
          }
          else if val (sdef (syms s2 a) S_DEF_USER) = NULL \<or> strcmp (str_of (val (sdef (syms s2 a) S_DEF_USER))) t \<noteq> 0 then do {
            s \<leftarrow> sym_clear_all_valid (sym_calc_value n) (set_user_val a t s2);
            Some (True, s)
          }
          else Some (True, s2)) = Some (True, s')"
    by (auto simp: sym_set_string_value_def Let_def bind_Some_iff split: if_splits)
  from string_within_range_result [OF 1 ty] have ok: "prim\<^sup>*\<^sup>* s s1" "sym_string_valid (syms s a) t" by auto
  have s2: "syms s2 = (if SYMBOL_DEF_USER \<notin> s_flags (syms s1 a) then syms (set_flag a SYMBOL_DEF_USER s1) else syms s1)"
    using 2 by (auto split: if_splits dest: set_changed_syms)
  then have h: "sym_has_value (syms s2 a)" by (auto simp: sym_has_value_def set_flag_def)
  have ty2: "s_type (syms s2 a) = s_type (syms s a)"
    using s2 same_structure_simps(6) [OF prims_same_structure [OF ok(1)], of a] by (auto simp: set_flag_def)
  have set: "user_text s3 a = Some u" if "sym_clear_all_valid (sym_calc_value n) (set_user_val a u s2) = Some s3" for u s3
    using clear_all_valid_user(2) [OF that, of a] h by (simp add: user_text_def)
  let ?h = "s_type (syms s a) = S_HEX \<and> \<not> has_0x t"
  consider (hex) "?h" "sym_clear_all_valid (sym_calc_value n) (set_user_val a (''0x'' @ t) s2) = Some s'"
    | (new) "\<not> ?h" "sym_clear_all_valid (sym_calc_value n) (set_user_val a t s2) = Some s'"
    | (same) "\<not> ?h" "s' = s2" "str_of (val (sdef (syms s2 a) S_DEF_USER)) = t"
    using 3 unfolding ty2 by (auto simp: bind_Some_iff strcmp_eq_0_iff split: if_splits)
  then have "user_text s' a = Some (if ?h then ''0x'' @ t else t)"
    by cases (use set h in \<open>auto simp: user_text_def split del: if_split\<close>)
  with ok(2) show ?thesis by simp
qed

section \<open>The setters return\<close>

text \<open>
  The states in which a setting returns: an evaluation may start from every symbol of the table
  being invalid, and the recursion bound allows for it.
\<close>

definition settable :: "nat \<Rightarrow> kstate \<Rightarrow> bool" where
  "settable n s \<longleftrightarrow> wf_state s \<and> finite (invalid s) \<and> card (invalid s \<union> set (sym_table s)) < n"

text \<open>What the writes of the setters leave alone.\<close>

definition set_eq :: "kstate \<Rightarrow> kstate \<Rightarrow> bool" where
  "set_eq s s' \<longleftrightarrow> menu_links (menus s) (menus s') \<and> props s' = props s \<and> sym_table s' = sym_table s
     \<and> (\<forall>a. s_name (syms s' a) = s_name (syms s a) \<and> s_prop (syms s' a) = s_prop (syms s a)
          \<and> rev_dep_expr (syms s' a) = rev_dep_expr (syms s a) \<and> rev_dep_tri (syms s' a) = rev_dep_tri (syms s a))"

lemma set_eq_trans: "set_eq s t \<Longrightarrow> set_eq t u \<Longrightarrow> set_eq s u"
  by (simp add: set_eq_def menu_links_def)

lemma set_eq_wf:
  assumes "set_eq s s'" "wf_state s"
  shows "wf_state s'"
proof -
  from assms(1) have l: "menu_links (menus s) (menus s')" by (simp add: set_eq_def)
  have "m_sym (menus s' m) = m_sym (menus s m)" for m using l by (simp add: menu_links_def)
  then show ?thesis
    using assms sub_entries_links [OF l] up_to_sym_links [OF l]
    unfolding wf_state_def set_eq_def sym_is_choice_def by simp
qed

lemma settable_set_eq:
  assumes "settable n s" "set_eq s s'" "invalid s' \<subseteq> invalid s"
  shows "settable n s'"
proof -
  have "finite (invalid s \<union> set (sym_table s))" using assms(1) by (simp add: settable_def)
  with assms(3) have "card (invalid s' \<union> set (sym_table s)) \<le> card (invalid s \<union> set (sym_table s))"
    by (intro card_mono) auto
  with assms set_eq_wf [OF assms(2)] show ?thesis
    by (auto simp: settable_def set_eq_def intro: finite_subset)
qed

lemma prims_settable:
  assumes "settable n s" "prim\<^sup>*\<^sup>* s s'"
  shows "settable n s'"
proof -
  have t: "sym_table s' = sym_table s"
    using prims_same_structure [OF assms(2)] by (simp add: same_structure_def)
  have "finite (invalid s \<union> set (sym_table s))" using assms(1) by (simp add: settable_def)
  with prims_invalid [OF assms(2)]
  have "card (invalid s' \<union> set (sym_table s)) \<le> card (invalid s \<union> set (sym_table s))"
    by (intro card_mono) auto
  with assms(1) prims_wf [OF assms(2)] prims_invalid [OF assms(2)] show ?thesis
    by (auto simp: settable_def t intro: finite_subset)
qed

lemma clear_valid_sel:
  "sym_table (fold (\<lambda>a. upd_sym a (del_flags {SYMBOL_VALID})) as s) = sym_table s"
  "menus (fold (\<lambda>a. upd_sym a (del_flags {SYMBOL_VALID})) as s) = menus s"
  "props (fold (\<lambda>a. upd_sym a (del_flags {SYMBOL_VALID})) as s) = props s"
  "modules_sym (fold (\<lambda>a. upd_sym a (del_flags {SYMBOL_VALID})) as s) = modules_sym s"
  "invalid (fold (\<lambda>a. upd_sym a (del_flags {SYMBOL_VALID})) as s) = invalid s \<union> set as"
  "set_eq s (fold (\<lambda>a. upd_sym a (del_flags {SYMBOL_VALID})) as s)"
  by (induction as arbitrary: s) (auto simp: invalid_def set_eq_def menu_links_def)

lemma clear_all_valid_total:
  assumes "settable n s"
  shows "\<exists>s'. sym_clear_all_valid (sym_calc_value n) s = Some s'"
proof -
  let ?f = "fold (\<lambda>a. upd_sym a (del_flags {SYMBOL_VALID})) (sym_table s) s"
  let ?s = "(expr_invalidate_all ?f)\<lparr>conf_changed := True\<rparr>"
  have "set_eq ?f ?s" by (simp add: set_eq_def expr_invalidate_all_def menu_links_def)
  then have wf: "wf_state ?s"
    using assms set_eq_wf [OF set_eq_trans [OF clear_valid_sel(6) [of s "sym_table s"]], of ?s]
    by (simp add: settable_def)
  have "invalid ?s = invalid s \<union> set (sym_table s)"
    using clear_valid_sel(5) [of "sym_table s" s] by (simp add: invalid_def expr_invalidate_all_def)
  then show ?thesis
    using sym_calc_value_total [OF wf, of n "modules_sym s"] assms
    by (auto simp: sym_clear_all_valid_def Let_def settable_def expr_invalidate_all_def clear_valid_sel)
qed

lemma set_changed_returns:
  assumes "settable n s"
  shows "\<exists>s'. sym_set_changed a s = Some s' \<and> settable n s'"
proof -
  have m: "prim\<^sup>*\<^sup>* t (fold mark_menu ms t)" for ms t
    by (induction ms arbitrary: t) (auto intro: p_mark converse_rtranclp_into_rtranclp)
  let ?s = "fold mark_menu (s_menus (syms s a)) s"
  have "sym_get_choice_menu (syms ?s) (menus ?s) (syms ?s a) \<noteq> None"
    using prims_settable [OF assms m] by (intro get_choice_menu_defined) (simp add: settable_def)
  then obtain s' where "sym_set_changed a s = Some s'"
    by (auto simp: sym_set_changed_def Let_def)
  moreover have "prim\<^sup>*\<^sup>* s s'"
    using run.set_changed_run [of s s a] calculation by (simp add: returns_False)
  ultimately show ?thesis using prims_settable [OF assms] by blast
qed

lemma user_set_settable:
  assumes "settable n s"
  shows "settable n (set_flag a SYMBOL_DEF_USER (set_user_tri a v s))"
    and "settable n (user_set a v c s)"
    and "settable n (set_user_val a t s)"
  by (rule settable_set_eq [OF assms];
      auto simp: set_eq_def menu_links_def invalid_def set_flag_def set_user_tri_def user_set_def
        list_move_choice_def set_user_val_def new_heap_string_def)+

lemma set_tristate_value_returns:
  assumes "settable n s"
  shows "\<exists>b s'. sym_set_tristate_value (sym_calc_value n) a v s = Some (b, s')"
proof (cases "sym_tristate_within_range s a v")
  case True
  obtain s1 where s1: "(if SYMBOL_DEF_USER \<notin> s_flags (syms s a) \<or> tri (sdef (syms s a) S_DEF_USER) \<noteq> v
        then sym_set_changed a (set_flag a SYMBOL_DEF_USER (set_user_tri a v s)) else Some s) = Some s1"
    and "settable n s1"
    using set_changed_returns [OF user_set_settable(1) [OF assms], of a a v] assms by metis
  with clear_all_valid_total [OF this(2)] True show ?thesis
    by (auto simp: sym_set_tristate_value_def Let_def)
qed (auto simp: sym_set_tristate_value_def intro: exI [of _ False])

lemma choice_set_loop_settable:
  "settable n s \<Longrightarrow> choice_set_loop c a ms ch s = (ch', s') \<Longrightarrow> settable n s'"
proof (induction ms arbitrary: ch s)
  case (Cons m ms)
  show ?case
  proof (cases "m_sym (menus s m)")
    case None
    then show ?thesis using Cons by auto
  next
    case (Some b)
    show ?thesis
    proof (cases "visible (syms s b) = tri_no")
      case True
      then show ?thesis using Some Cons by simp
    next
      case False
      show ?thesis
        by (rule Cons.IH [OF user_set_settable(2) [OF Cons.prems(1)]])
           (use Cons.prems(2) choice_set_loop_step [OF Some False] in auto)
    qed
  qed
qed simp

lemma choice_set_value_returns:
  assumes "settable n s" "sub_entries (menus s) c \<noteq> None"
  shows "\<exists>s'. choice_set_value (sym_calc_value n) c a s = Some s'"
proof -
  obtain ms ch t where 1: "sub_entries (menus s) c = Some ms" "choice_set_loop c a ms False s = (ch, t)"
    using assms(2) by (cases "choice_set_loop c a (the (sub_entries (menus s) c)) False s") auto
  from clear_all_valid_total [OF choice_set_loop_settable [OF assms(1) 1(2)]] 1 show ?thesis
    by (auto simp: choice_set_value_def)
qed

lemma toggle_returns:
  assumes "settable n s"
  shows "\<exists>w s'. sym_toggle_tristate_value (sym_calc_value n) a s = Some (w, s')"
proof -
  have wf: "wf_state s" using assms by (simp add: settable_def)
  show ?thesis
  proof (cases "sym_get_choice_menu (syms s) (menus s) (syms s a)")
    case None
    with get_choice_menu_defined [OF wf, of "syms s a"] show ?thesis by simp
  next
    case (Some ch)
    have "toggle_loop (sym_calc_value n) 3 a old old s \<noteq> None" for old
      using set_tristate_value_returns [OF assms, of a] set_tristate_value_result(3) [of n a _ s False]
      by (intro toggle_loop_defined) fastforce+
    moreover have "sub_entries (menus s) c \<noteq> None" if "ch = Some c" for c
      using get_choice_menu_choice Some that wf by (fastforce simp: wf_state_def)
    ultimately show ?thesis
      using Some choice_set_value_returns [OF assms, of _ a]
      by (cases ch) (auto simp: sym_toggle_tristate_value_def Let_def, metis bind.bind_lunit)
  qed
qed

end
