(* ===== verification/Preprocess.thy ===== *)
theory Preprocess
  imports ExprPrint
begin

text \<open>
  The macro language of Kconfig, \<^verbatim>\<open>parser/preprocess.c\<close>: variables, user-defined functions with
  arguments, the built-in functions and the environment.

  A function that may call \<open>pperror\<close> gives an \<open>outcome\<close>: \<open>Done\<close> with a result, \<open>Exit\<close> when the
  program has printed its message and left with status 1, or \<open>Fault\<close> when it has read a value
  that was freed or never written. The expansion functions call each other without a
  structural bound, so they take fuel; \<open>None\<close> means it has run out, and \<open>expand_returns\<close>
  shows how much is enough.
\<close>

section \<open>State\<close>

datatype variable_flavor = VAR_SIMPLE | VAR_RECURSIVE | VAR_APPEND

text \<open>\<open>v_value\<close> is \<open>None\<close> while the pointer is dangling or not initialised.\<close>

record variable =
  v_name :: string
  v_value :: "string option"
  v_flavor :: variable_flavor
  v_exp_count :: int

record pstate =
  env_list :: "(string \<times> string) list"
  variable_list :: "variable list"
  cur_filename :: string
  yylineno :: int
  p_stdout :: string
  p_stderr :: string
  shell_log :: "string list"

text \<open>
  The outside: the environment of the process, and what a shell command gives, which may depend
  on the commands that were run before it.
\<close>

datatype shell_result = No_pipe string | Output string | No_close string

record world =
  getenv :: "string \<Rightarrow> string option"
  popen :: "string list \<Rightarrow> string \<Rightarrow> shell_result"

datatype 'a outcome = Done 'a pstate | Exit pstate | Fault

type_synonym 'a run = "'a outcome option"

fun pbind :: "'a run \<Rightarrow> ('a \<Rightarrow> pstate \<Rightarrow> 'b run) \<Rightarrow> 'b run" where
  "pbind None f = None"
| "pbind (Some (Done x s)) f = f x s"
| "pbind (Some (Exit s)) f = Some (Exit s)"
| "pbind (Some Fault) f = Some Fault"

text \<open>A text in single quotes, as in the messages.\<close>

definition quoted :: "string \<Rightarrow> string" where
  "quoted t = CHR 0x27 # t @ [CHR 0x27]"

text \<open>\<open>pperror\<close>: the message on standard error, and \<open>exit(1)\<close>.\<close>

definition pperror :: "string \<Rightarrow> pstate \<Rightarrow> 'a outcome" where
  "pperror msg s =
     Exit (s\<lparr>p_stderr := p_stderr s @ cur_filename s @ '':'' @ int_text (yylineno s) @ '': '' @ msg @ ''\<newline>''\<rparr>)"

section \<open>Environment variables\<close>

definition env_add :: "string \<Rightarrow> string \<Rightarrow> pstate \<Rightarrow> pstate" where
  "env_add name value s = s\<lparr>env_list := env_list s @ [(name, value)]\<rparr>"

definition env_expand :: "world \<Rightarrow> string \<Rightarrow> pstate \<Rightarrow> string option \<times> pstate" where
  "env_expand w name s =
     (if name = '''' then (None, s)
      else case map_of (env_list s) name of
             Some value \<Rightarrow> (Some value, s)
           | None \<Rightarrow>
               (case getenv w name of
                  None \<Rightarrow> (None, s)
                | Some value \<Rightarrow> (Some value, env_add name value s)))"

definition env_dep_text :: "string \<times> string \<Rightarrow> string" where
  "env_dep_text e =
     ''\<newline>ifneq \"$('' @ fst e @ '')\" \"'' @ snd e @ ''\"\<newline>$(autoconfig): FORCE\<newline>endif\<newline>''"

definition env_write_dep :: "gstr \<Rightarrow> pstate \<Rightarrow> gstr \<times> pstate" where
  "env_write_dep gs s =
     (fold (\<lambda>e gs. str_printf gs (env_dep_text e)) (env_list s) gs, s\<lparr>env_list := []\<rparr>)"

section \<open>Built-in functions\<close>

text \<open>A function is called with as many arguments as its entry of the table allows.\<close>

type_synonym builtin = "world \<Rightarrow> string list \<Rightarrow> pstate \<Rightarrow> string outcome"

definition do_error_if :: builtin where
  "do_error_if w argv s = (if strcmp (argv ! 0) ''y'' = 0 then pperror (argv ! 1) s else Done '''' s)"

definition do_filename :: builtin where
  "do_filename w argv s = Done (cur_filename s) s"

definition do_info :: builtin where
  "do_info w argv s = Done '''' (s\<lparr>p_stdout := p_stdout s @ argv ! 0 @ ''\<newline>''\<rparr>)"

definition do_lineno :: builtin where
  "do_lineno w argv s = Done (int_text (yylineno s)) s"

text \<open>
  What \<open>do_shell\<close> makes of the output of the command: at most 4095 characters, without the
  newlines at their end, the others replaced by spaces, as a C string.
\<close>

definition shell_text :: "string \<Rightarrow> string" where
  "shell_text out =
     (let nread = min (length out) 4096;
          nread = (if nread = 4096 then nread - 1 else nread);
          buf = rev (dropWhile (\<lambda>c. c = CHR 0x0A) (rev (take nread out)))
      in takeWhile (\<lambda>c. c \<noteq> CHR 0x00) (map (\<lambda>c. if c = CHR 0x0A then CHR '' '' else c) buf))"

definition do_shell :: builtin where
  "do_shell w argv s =
     (let cmd = argv ! 0; s' = s\<lparr>shell_log := shell_log s @ [cmd]\<rparr> in
      case popen w (shell_log s) cmd of
        No_pipe msg \<Rightarrow> Exit (s'\<lparr>p_stderr := p_stderr s @ cmd @ '': '' @ msg @ ''\<newline>''\<rparr>)
      | Output out \<Rightarrow> Done (shell_text out) s'
      | No_close msg \<Rightarrow> Exit (s'\<lparr>p_stderr := p_stderr s @ cmd @ '': '' @ msg @ ''\<newline>''\<rparr>))"

definition do_warning_if :: builtin where
  "do_warning_if w argv s =
     Done '''' (if strcmp (argv ! 0) ''y'' = 0
                then s\<lparr>p_stderr := p_stderr s @ cur_filename s @ '':'' @ int_text (yylineno s)
                          @ '': '' @ argv ! 1 @ ''\<newline>''\<rparr>
                else s)"

record function_entry =
  f_name :: string
  min_args :: nat
  max_args :: nat
  f_func :: builtin

definition function_table :: "function_entry list" where
  "function_table =
     [\<lparr>f_name = ''error-if'', min_args = 2, max_args = 2, f_func = do_error_if\<rparr>,
      \<lparr>f_name = ''filename'', min_args = 0, max_args = 0, f_func = do_filename\<rparr>,
      \<lparr>f_name = ''info'', min_args = 1, max_args = 1, f_func = do_info\<rparr>,
      \<lparr>f_name = ''lineno'', min_args = 0, max_args = 0, f_func = do_lineno\<rparr>,
      \<lparr>f_name = ''shell'', min_args = 1, max_args = 1, f_func = do_shell\<rparr>,
      \<lparr>f_name = ''warning-if'', min_args = 2, max_args = 2, f_func = do_warning_if\<rparr>]"

definition FUNCTION_MAX_ARGS :: nat where "FUNCTION_MAX_ARGS = 16"

fun function_search :: "function_entry list \<Rightarrow> world \<Rightarrow> string \<Rightarrow> string list \<Rightarrow> pstate \<Rightarrow> string option outcome" where
  "function_search [] w name argv s = Done None s"
| "function_search (f # fs) w name argv s =
     (if strcmp (f_name f) name \<noteq> 0 then function_search fs w name argv s
      else if length argv < min_args f then pperror (''too few function arguments passed to '' @ quoted name) s
      else if length argv > max_args f then pperror (''too many function arguments passed to '' @ quoted name) s
      else case f_func f w argv s of Done r s \<Rightarrow> Done (Some r) s | Exit s \<Rightarrow> Exit s | Fault \<Rightarrow> Fault)"

definition function_expand :: "world \<Rightarrow> string \<Rightarrow> string list \<Rightarrow> pstate \<Rightarrow> string option outcome" where
  "function_expand = function_search function_table"

section \<open>Variables\<close>

definition variable_lookup :: "string \<Rightarrow> variable list \<Rightarrow> variable option" where
  "variable_lookup name vs = find (\<lambda>v. strcmp name (v_name v) = 0) vs"

text \<open>An update of the variable that \<open>variable_lookup\<close> gives.\<close>

fun upd_variable :: "string \<Rightarrow> (variable \<Rightarrow> variable) \<Rightarrow> variable list \<Rightarrow> variable list" where
  "upd_variable name f [] = []"
| "upd_variable name f (v # vs) =
     (if strcmp name (v_name v) = 0 then f v # vs else v # upd_variable name f vs)"

definition set_variable :: "string \<Rightarrow> (variable \<Rightarrow> variable) \<Rightarrow> pstate \<Rightarrow> pstate" where
  "set_variable name f s = s\<lparr>variable_list := upd_variable name f (variable_list s)\<rparr>"

definition variable_all_del :: "pstate \<Rightarrow> pstate" where
  "variable_all_del s = s\<lparr>variable_list := []\<rparr>"

section \<open>Clauses\<close>

text \<open>The search for the closing parenthesis: the text before it and the text after it.\<close>

fun close_paren :: "nat \<Rightarrow> string \<Rightarrow> (string \<times> string) option" where
  "close_paren nest [] = None"
| "close_paren nest (c # cs) =
     (if c = CHR ''('' then map_option (\<lambda>(a, b). (c # a, b)) (close_paren (Suc nest) cs)
      else if c = CHR '')'' then
        (case nest of
           0 \<Rightarrow> Some ([], cs)
         | Suc k \<Rightarrow> map_option (\<lambda>(a, b). (c # a, b)) (close_paren k cs))
      else map_option (\<lambda>(a, b). (c # a, b)) (close_paren nest cs))"

text \<open>The split of a clause at the commas outside parentheses.\<close>

definition cons_hd :: "char \<Rightarrow> string list \<Rightarrow> string list" where
  "cons_hd c ps = (c # hd ps) # tl ps"

fun split_clause :: "int \<Rightarrow> string \<Rightarrow> string list" where
  "split_clause nest [] = [[]]"
| "split_clause nest (c # cs) =
     (if nest = 0 \<and> c = CHR '','' then [] # split_clause nest cs
      else if c = CHR ''('' then cons_hd c (split_clause (nest + 1) cs)
      else if c = CHR '')'' then cons_hd c (split_clause (nest - 1) cs)
      else cons_hd c (split_clause nest cs))"

section \<open>Expansion\<close>

definition is_end_of_str :: "char \<Rightarrow> bool" where
  "is_end_of_str c \<longleftrightarrow> c = CHR 0x00"

definition is_end_of_token :: "char \<Rightarrow> bool" where
  "is_end_of_token c \<longleftrightarrow> \<not> (isalnum c \<or> c = CHR ''_'' \<or> c = CHR ''-'')"

text \<open>
  The functions below call \<open>expand_string_with_args\<close> for the texts nested in theirs; it is their
  parameter \<open>ex\<close>, and the recursion is closed at the end with the nesting depth as fuel. The
  list \<open>args\<close> is \<open>argc\<close>/\<open>argv\<close>.
\<close>

type_synonym expander = "string list \<Rightarrow> string \<Rightarrow> pstate \<Rightarrow> string run"

definition variable_expand :: "expander \<Rightarrow> string \<Rightarrow> string list \<Rightarrow> pstate \<Rightarrow> string option run" where
  "variable_expand ex name argv s =
     (case variable_lookup name (variable_list s) of
        None \<Rightarrow> Some (Done None s)
      | Some v \<Rightarrow>
          (if argv = [] \<and> v_exp_count v \<noteq> 0
           then Some (pperror (''Recursive variable '' @ quoted name @ '' references itself (eventually)'') s)
           else if v_exp_count v > 1000 then Some (pperror ''Too deep recursive expansion'' s)
           else
             let s = set_variable name (\<lambda>v. v\<lparr>v_exp_count := v_exp_count v + 1\<rparr>) s in
             case v_value v of
               None \<Rightarrow> Some Fault
             | Some t \<Rightarrow>
                 pbind (if v_flavor v = VAR_RECURSIVE then ex argv t s else Some (Done t s)) (\<lambda>res s.
                 Some (Done (Some res) (set_variable name (\<lambda>v. v\<lparr>v_exp_count := v_exp_count v - 1\<rparr>) s)))))"

fun expand_list :: "expander \<Rightarrow> string list \<Rightarrow> string list \<Rightarrow> pstate \<Rightarrow> string list run" where
  "expand_list ex args [] s = Some (Done [] s)"
| "expand_list ex args (p # ps) s =
     pbind (ex args p s) (\<lambda>x s. pbind (expand_list ex args ps s) (\<lambda>xs s. Some (Done (x # xs) s)))"

text \<open>What a name with its arguments stands for: a variable, a built-in, the environment, or nothing.\<close>

definition expand_name :: "expander \<Rightarrow> world \<Rightarrow> string \<Rightarrow> string list \<Rightarrow> pstate \<Rightarrow> string run" where
  "expand_name ex w name argv s =
     pbind (variable_expand ex name argv s) (\<lambda>res s.
     case res of
       Some r \<Rightarrow> Some (Done r s)
     | None \<Rightarrow>
         pbind (Some (function_expand w name argv s)) (\<lambda>res s.
         case res of
           Some r \<Rightarrow> Some (Done r s)
         | None \<Rightarrow>
             (if argv = [] then
                (case env_expand w name s of
                   (Some r, s) \<Rightarrow> Some (Done r s)
                 | (None, s) \<Rightarrow> Some (Done '''' s))
              else Some (Done '''' s))))"

definition eval_clause :: "expander \<Rightarrow> world \<Rightarrow> string list \<Rightarrow> string \<Rightarrow> pstate \<Rightarrow> string run" where
  "eval_clause ex w args tmp s =
     (case strtoull 10 tmp of (n, endptr, _) \<Rightarrow>
        if endptr = [] \<and> n > 0 \<and> unat n \<le> length args then Some (Done (args ! (unat n - 1)) s)
        else
          let new_argv = split_clause 0 tmp in
          if length new_argv > FUNCTION_MAX_ARGS then Some (pperror ''too many function arguments'' s)
          else
            pbind (ex args (hd new_argv) s) (\<lambda>name s.
            pbind (expand_list ex args (tl new_argv) s) (\<lambda>argv s.
            expand_name ex w name argv s)))"

text \<open>The text after a dollar sign: its expansion, and the text that follows.\<close>

definition expand_dollar_with_args :: "expander \<Rightarrow> world \<Rightarrow> string list \<Rightarrow> string \<Rightarrow> pstate \<Rightarrow> (string \<times> string) run" where
  "expand_dollar_with_args ex w args str s =
     (case str of
        [] \<Rightarrow> Some (Done (''$'', []) s)
      | c # p \<Rightarrow>
          (if c \<noteq> CHR ''('' then Some (Done (''$'', c # p) s)
           else case close_paren 0 p of
             None \<Rightarrow> Some (pperror (''unterminated reference to '' @ quoted p @ '': missing '' @ quoted '')'') s)
           | Some (clause, rest) \<Rightarrow>
               pbind (eval_clause ex w args clause s) (\<lambda>res s. Some (Done (res, rest) s))))"

text \<open>
  The loop of \<open>__expand_string\<close>: what is put out, and the text from the end character on. Its
  first argument is \<open>expand_dollar_with_args\<close>. The number of rounds is bounded by the text.
\<close>

fun expand_loop :: "(string \<Rightarrow> pstate \<Rightarrow> (string \<times> string) run) \<Rightarrow> nat \<Rightarrow> (char \<Rightarrow> bool) \<Rightarrow> string \<Rightarrow> pstate
    \<Rightarrow> (string \<times> string) run" where
  "expand_loop dollar 0 is_end p s = None"
| "expand_loop dollar (Suc k) is_end p s =
     (case p of
        [] \<Rightarrow> Some (if is_end (CHR 0x00) then Done ([], []) s else Fault)
      | c # cs \<Rightarrow>
          (if c = CHR ''$'' then
             pbind (dollar cs s) (\<lambda>(expansion, rest) s.
             pbind (expand_loop dollar k is_end rest s) (\<lambda>(out, rest) s.
             Some (Done (expansion @ out, rest) s)))
           else if is_end c then Some (Done ([], c # cs) s)
           else pbind (expand_loop dollar k is_end cs s) (\<lambda>(out, rest) s.
             Some (Done (c # out, rest) s))))"

definition expand_str :: "expander \<Rightarrow> world \<Rightarrow> (char \<Rightarrow> bool) \<Rightarrow> string list \<Rightarrow> string \<Rightarrow> pstate \<Rightarrow> (string \<times> string) run" where
  "expand_str ex w is_end args str s =
     expand_loop (expand_dollar_with_args ex w args) (Suc (length str)) is_end str s"

fun expand_string_with_args :: "world \<Rightarrow> nat \<Rightarrow> expander" where
  "expand_string_with_args w 0 args str s = None"
| "expand_string_with_args w (Suc n) args str s =
     pbind (expand_str (expand_string_with_args w n) w is_end_of_str args str s) (\<lambda>(out, _) s.
     Some (Done out s))"

definition expand_string :: "world \<Rightarrow> nat \<Rightarrow> string \<Rightarrow> pstate \<Rightarrow> string run" where
  "expand_string w n str s = expand_string_with_args w n [] str s"

definition expand_dollar :: "world \<Rightarrow> nat \<Rightarrow> string \<Rightarrow> pstate \<Rightarrow> (string \<times> string) run" where
  "expand_dollar w n str s = expand_dollar_with_args (expand_string_with_args w n) w [] str s"

definition expand_one_token :: "world \<Rightarrow> nat \<Rightarrow> string \<Rightarrow> pstate \<Rightarrow> (string \<times> string) run" where
  "expand_one_token w n str s = expand_str (expand_string_with_args w n) w is_end_of_token [] str s"

text \<open>
  \<open>variable_add\<close>. Its old value is freed before a simple variable's new value is expanded, and
  that of a new variable is not yet written.
\<close>

definition variable_add :: "world \<Rightarrow> nat \<Rightarrow> string \<Rightarrow> string \<Rightarrow> variable_flavor \<Rightarrow> pstate \<Rightarrow> unit run" where
  "variable_add w n name value flavor s =
     (let v = variable_lookup name (variable_list s);
          append = (v \<noteq> None \<and> flavor = VAR_APPEND);
          flavor = (if flavor = VAR_APPEND then (case v of Some v \<Rightarrow> v_flavor v | None \<Rightarrow> VAR_RECURSIVE)
                    else flavor);
          s = (if v \<noteq> None
               then (if append then s else set_variable name (\<lambda>v. v\<lparr>v_value := None\<rparr>) s)
               else s\<lparr>variable_list := variable_list s
                       @ [\<lparr>v_name = name, v_value = None, v_flavor = flavor, v_exp_count = 0\<rparr>]\<rparr>);
          s = set_variable name (\<lambda>v. v\<lparr>v_flavor := flavor\<rparr>) s
      in pbind (if flavor = VAR_SIMPLE then expand_string w n value s else Some (Done value s)) (\<lambda>new_value s.
         if append then
           (case variable_lookup name (variable_list s) of
              Some v \<Rightarrow>
                (case v_value v of
                   Some old \<Rightarrow>
                     Some (Done () (set_variable name (\<lambda>v. v\<lparr>v_value := Some (old @ '' '' @ new_value)\<rparr>) s))
                 | None \<Rightarrow> Some Fault)
            | None \<Rightarrow> Some Fault)
         else Some (Done () (set_variable name (\<lambda>v. v\<lparr>v_value := Some new_value\<rparr>) s))))"

section \<open>What an expansion changes\<close>

lemma run_cases:
  obtains "(m :: 'a run) = None" | x s where "m = Some (Done x s)" | s where "m = Some (Exit s)" | "m = Some Fault"
proof (cases m)
  case (Some r)
  then show thesis using that by (cases r) auto
qed (use that in auto)

lemma pbind_Done:
  "pbind m f = Some (Done y s2) \<longleftrightarrow> (\<exists>x s1. m = Some (Done x s1) \<and> f x s1 = Some (Done y s2))"
  by (cases m rule: run_cases) auto

text \<open>\<open>fine m\<close>: the run ends, and not with a fault.\<close>

definition fine :: "'a run \<Rightarrow> bool" where
  "fine m \<longleftrightarrow> m \<noteq> None \<and> m \<noteq> Some Fault"

lemma fine_simps [simp]:
  "fine (Some (Done x s))" "fine (Some (Exit s))" "\<not> fine None" "\<not> fine (Some Fault)"
  "fine (Some (pperror msg s))"
  by (simp_all add: fine_def pperror_def)

lemma fine_pbind:
  "fine m \<Longrightarrow> (\<And>x s. m = Some (Done x s) \<Longrightarrow> fine (f x s)) \<Longrightarrow> fine (pbind m f)"
  by (cases m rule: run_cases) auto

lemma pperror_not_Done [simp]: "pperror msg s \<noteq> Done x s'" "Done x s' \<noteq> pperror msg s"
  by (simp_all add: pperror_def)

text \<open>
  The recorded environment: every variable asked for is recorded once, with the value the
  process has for it.
\<close>

definition env_inv :: "world \<Rightarrow> pstate \<Rightarrow> bool" where
  "env_inv w s \<longleftrightarrow> distinct (map fst (env_list s))
     \<and> (\<forall>(x, v) \<in> set (env_list s). x \<noteq> '''' \<and> getenv w x = Some v)"

definition keeps :: "world \<Rightarrow> pstate \<Rightarrow> pstate \<Rightarrow> bool" where
  "keeps w s s' \<longleftrightarrow> variable_list s' = variable_list s \<and> cur_filename s' = cur_filename s
     \<and> yylineno s' = yylineno s \<and> set (env_list s) \<subseteq> set (env_list s') \<and> (env_inv w s \<longrightarrow> env_inv w s')"

lemma keeps_refl [simp]: "keeps w s s"
  by (simp add: keeps_def)

lemma keeps_trans: "keeps w s t \<Longrightarrow> keeps w t u \<Longrightarrow> keeps w s u"
  by (auto simp: keeps_def)

lemma env_expand_keeps: "env_expand w name s = (r, s') \<Longrightarrow> keeps w s s'"
  by (auto simp: env_expand_def env_add_def keeps_def env_inv_def map_of_eq_None_iff image_iff
      split: if_splits option.splits)

lemma function_search_keeps:
  "\<forall>f \<in> set fs. \<forall>argv s r s'. f_func f w argv s = Done r s' \<longrightarrow> keeps w s s' \<Longrightarrow>
   function_search fs w name argv s = Done r s' \<Longrightarrow> keeps w s s'"
  by (induction fs) (auto split: if_splits outcome.splits)

lemmas builtin_defs = do_error_if_def do_filename_def do_info_def do_lineno_def do_shell_def do_warning_if_def

lemma function_expand_keeps:
  assumes "function_expand w name argv s = Done r s'"
  shows "keeps w s s'"
proof -
  have "\<forall>f \<in> set function_table. \<forall>argv s r s'. f_func f w argv s = Done r s' \<longrightarrow> keeps w s s'"
    by (auto simp: function_table_def builtin_defs Let_def keeps_def env_inv_def
        split: if_splits shell_result.splits)
  from function_search_keeps [OF this] assms show ?thesis by (simp add: function_expand_def)
qed

lemma function_search_no_fault:
  "\<forall>f \<in> set fs. \<forall>argv s. f_func f w argv s \<noteq> Fault \<Longrightarrow> function_search fs w name argv s \<noteq> Fault"
  by (induction fs) (auto simp: pperror_def split: outcome.splits)

lemma function_expand_fine [simp]: "fine (Some (function_expand w name argv s))"
proof -
  have "function_expand w name argv s \<noteq> Fault"
    unfolding function_expand_def
    by (rule function_search_no_fault)
       (auto simp: function_table_def builtin_defs Let_def pperror_def split: shell_result.splits)
  then show ?thesis by (simp add: fine_def)
qed

section \<open>Variables that are being expanded\<close>

lemma lookup_name: "variable_lookup name vs = Some v \<Longrightarrow> v \<in> set vs \<and> v_name v = name"
  unfolding variable_lookup_def
  by (induction vs) (auto simp: strcmp_eq_0_iff split: if_splits)

lemma upd_variable_undo:
  "(\<And>v. v_name (f v) = v_name v) \<Longrightarrow> (\<And>v. g (f v) = v) \<Longrightarrow> upd_variable name g (upd_variable name f vs) = vs"
  by (induction vs) auto

text \<open>
  The variables an expansion can deal with: their values are there and at most \<open>M\<close> characters
  long. \<open>budget\<close> counts the expansions that may still be nested.
\<close>

definition vars_ok :: "nat \<Rightarrow> variable list \<Rightarrow> bool" where
  "vars_ok M vs \<longleftrightarrow> (\<forall>v \<in> set vs. \<exists>t. v_value v = Some t \<and> length t \<le> M)"

definition budget :: "variable list \<Rightarrow> nat" where
  "budget vs = sum_list (map (\<lambda>v. nat (1001 - v_exp_count v)) vs)"

lemma upd_count_ok:
  "vars_ok M vs \<Longrightarrow> vars_ok M (upd_variable name (\<lambda>v. v\<lparr>v_exp_count := n v\<rparr>) vs)"
  by (induction vs) (auto simp: vars_ok_def)

lemma budget_enter:
  "variable_lookup name vs = Some v \<Longrightarrow> v_exp_count v \<le> 1000 \<Longrightarrow>
   budget vs = Suc (budget (upd_variable name (\<lambda>v. v\<lparr>v_exp_count := v_exp_count v + 1\<rparr>) vs))"
  unfolding variable_lookup_def budget_def
  by (induction vs) (auto split: if_splits)

section \<open>Texts in clauses are shorter\<close>

lemma close_paren_length:
  "close_paren nest p = Some (a, b) \<Longrightarrow> length a + length b < length p"
  by (induction nest p arbitrary: a rule: close_paren.induct) (auto split: if_splits nat.splits)

lemma split_clause_nonempty [simp]: "split_clause nest cs \<noteq> []"
  by (induction nest cs rule: split_clause.induct) (auto simp: cons_hd_def)

lemma split_clause_length: "p \<in> set (split_clause nest cs) \<Longrightarrow> length p \<le> length cs"
proof (induction nest cs arbitrary: p rule: split_clause.induct)
  case (2 nest c cs)
  have "p \<in> set (cons_hd c ps) \<Longrightarrow> ps \<noteq> [] \<Longrightarrow> (\<And>q. q \<in> set ps \<Longrightarrow> length q \<le> length cs) \<Longrightarrow>
      length p \<le> Suc (length cs)" for ps
    by (cases ps) (auto simp: cons_hd_def intro: le_SucI)
  with 2 show ?case by (auto split: if_splits intro: le_SucI)
qed simp

section \<open>The recursion\<close>

text \<open>
  What the functions rely on from the expansion of nested texts: it leaves the variables and
  the recorded environment in order, and it ends well whenever the budget of the variables and
  the length of the text allow for it within the depth \<open>d\<close>.
\<close>

locale expansion =
  fixes w :: world and ex :: expander and d :: nat and M :: nat
  assumes ex_keeps: "ex args str s = Some (Done r s') \<Longrightarrow> keeps w s s'"
    and ex_fine: "vars_ok M (variable_list s) \<Longrightarrow> budget (variable_list s) * Suc M + length str < d
      \<Longrightarrow> fine (ex args str s)"
begin

lemma list_keeps: "expand_list ex args ps s = Some (Done r s') \<Longrightarrow> keeps w s s'"
  by (induction ps arbitrary: s r) (auto simp: pbind_Done dest: ex_keeps intro: keeps_trans)

lemma list_fine:
  "vars_ok M (variable_list s) \<Longrightarrow>
   (\<And>p. p \<in> set ps \<Longrightarrow> budget (variable_list s) * Suc M + length p < d) \<Longrightarrow> fine (expand_list ex args ps s)"
proof (induction ps arbitrary: s)
  case (Cons p ps)
  then have "fine (ex args p s)" by (auto intro: ex_fine)
  moreover have "fine (expand_list ex args ps s')" if "ex args p s = Some (Done x s')" for x s'
    using Cons ex_keeps [OF that] by (simp add: keeps_def)
  ultimately show ?case by (auto intro!: fine_pbind)
qed simp

lemma variable_keeps:
  assumes "variable_expand ex name argv s = Some (Done r s')"
  shows "keeps w s s'"
proof -
  have undo: "keeps w s (set_variable name (\<lambda>v. v\<lparr>v_exp_count := v_exp_count v - 1\<rparr>) t)"
    if "keeps w (set_variable name (\<lambda>v. v\<lparr>v_exp_count := v_exp_count v + 1\<rparr>) s) t" for t
    using that by (auto simp: keeps_def set_variable_def env_inv_def upd_variable_undo)
  from assms show ?thesis
    by (auto simp: variable_expand_def Let_def pbind_Done dest!: ex_keeps intro!: undo split: option.splits if_splits)
qed

lemma variable_fine:
  assumes ok: "vars_ok M (variable_list s)" and b: "budget (variable_list s) * Suc M \<le> d"
  shows "fine (variable_expand ex name argv s)"
proof (cases "variable_lookup name (variable_list s)")
  case (Some v)
  let ?s = "set_variable name (\<lambda>v. v\<lparr>v_exp_count := v_exp_count v + 1\<rparr>) s"
  from lookup_name [OF Some] ok obtain t where t: "v_value v = Some t" "length t \<le> M"
    by (auto simp: vars_ok_def)
  have "fine (ex argv t ?s)" if "v_exp_count v \<le> 1000"
  proof (rule ex_fine)
    show "vars_ok M (variable_list ?s)" using ok by (simp add: set_variable_def upd_count_ok)
    show "budget (variable_list ?s) * Suc M + length t < d"
      using budget_enter [OF Some that] b t by (simp add: set_variable_def)
  qed
  then show ?thesis using Some t by (auto simp: variable_expand_def Let_def intro!: fine_pbind)
qed (simp add: variable_expand_def)

lemma name_keeps: "expand_name ex w name argv s = Some (Done r s') \<Longrightarrow> keeps w s s'"
  by (auto simp: expand_name_def pbind_Done split: option.splits if_splits prod.splits
      dest!: variable_keeps function_expand_keeps env_expand_keeps intro: keeps_trans)

lemma name_fine:
  "vars_ok M (variable_list s) \<Longrightarrow> budget (variable_list s) * Suc M \<le> d \<Longrightarrow> fine (expand_name ex w name argv s)"
  unfolding expand_name_def
  by (intro fine_pbind variable_fine) (auto intro!: fine_pbind split: option.split prod.split)

lemma clause_keeps: "eval_clause ex w args tmp s = Some (Done r s') \<Longrightarrow> keeps w s s'"
  by (auto simp: eval_clause_def Let_def pbind_Done split: if_splits prod.splits
      dest!: ex_keeps list_keeps name_keeps intro: keeps_trans)

lemma clause_fine:
  assumes ok: "vars_ok M (variable_list s)" and b: "budget (variable_list s) * Suc M + length tmp < d"
  shows "fine (eval_clause ex w args tmp s)"
proof -
  have p: "budget (variable_list s) * Suc M + length p < d" if "p \<in> set (split_clause 0 tmp)" for p
    using split_clause_length [OF that] b by simp
  have "fine (ex args (hd (split_clause 0 tmp)) s)"
    by (rule ex_fine [OF ok p]) simp
  moreover have "fine (pbind (expand_list ex args (tl (split_clause 0 tmp)) s1) (\<lambda>argv s. expand_name ex w name argv s))"
    if "ex args (hd (split_clause 0 tmp)) s = Some (Done name s1)" for name s1
  proof (rule fine_pbind)
    have v: "variable_list s1 = variable_list s" using ex_keeps [OF that] by (simp add: keeps_def)
    show "fine (expand_list ex args (tl (split_clause 0 tmp)) s1)"
      using ok p by (intro list_fine) (auto simp: v dest: list.set_sel(2) [OF split_clause_nonempty])
    show "fine (expand_name ex w name argv s2)"
      if "expand_list ex args (tl (split_clause 0 tmp)) s1 = Some (Done argv s2)" for argv s2
      using list_keeps [OF that] ok b by (intro name_fine) (auto simp: keeps_def v)
  qed
  ultimately have "fine (pbind (ex args (hd (split_clause 0 tmp)) s) (\<lambda>name s.
      pbind (expand_list ex args (tl (split_clause 0 tmp)) s) (\<lambda>argv s. expand_name ex w name argv s)))"
    by (rule fine_pbind)
  then show ?thesis by (simp add: eval_clause_def Let_def split: prod.split)
qed

lemma dollar_keeps:
  "expand_dollar_with_args ex w args str s = Some (Done (x, rest) s') \<Longrightarrow> keeps w s s' \<and> length rest \<le> length str"
  by (auto simp: expand_dollar_with_args_def pbind_Done split: list.splits if_splits option.splits
      dest: clause_keeps close_paren_length)

lemma dollar_fine:
  "vars_ok M (variable_list s) \<Longrightarrow> budget (variable_list s) * Suc M + length str < Suc d \<Longrightarrow>
   fine (expand_dollar_with_args ex w args str s)"
  by (auto simp: expand_dollar_with_args_def split: list.split option.split
      intro!: fine_pbind clause_fine dest!: close_paren_length)

lemma loop_keeps:
  "expand_loop (expand_dollar_with_args ex w args) k is_end p s = Some (Done (x, rest) s') \<Longrightarrow> keeps w s s'"
  by (induction k arbitrary: p s x rest)
     (auto simp: pbind_Done split: list.splits if_splits dest!: dollar_keeps intro: keeps_trans)

lemma loop_fine:
  "is_end (CHR 0x00) \<Longrightarrow> vars_ok M (variable_list s) \<Longrightarrow> length p < k \<Longrightarrow>
   budget (variable_list s) * Suc M + length p < Suc (Suc d) \<Longrightarrow>
   fine (expand_loop (expand_dollar_with_args ex w args) k is_end p s)"
proof (induction k arbitrary: p s)
  case (Suc k)
  note IH = Suc.IH [OF Suc.prems(1)]
  show ?case
  proof (cases p)
    case (Cons c cs)
    have "fine (pbind (expand_dollar_with_args ex w args cs s) (\<lambda>(expansion, rest) s.
        pbind (expand_loop (expand_dollar_with_args ex w args) k is_end rest s) (\<lambda>(out, rest) s.
        Some (Done (expansion @ out, rest) s))))"
      using Suc.prems IH by (auto simp: Cons keeps_def intro!: fine_pbind dollar_fine dest!: dollar_keeps)
    moreover have "fine (expand_loop (expand_dollar_with_args ex w args) k is_end cs s)"
      using Suc.prems by (intro IH) (auto simp: Cons)
    ultimately show ?thesis by (auto simp: Cons intro!: fine_pbind)
  qed (use Suc.prems in simp)
qed simp

end

lemma expansion_step:
  assumes "expansion w (expand_string_with_args w n) n M"
  shows "expansion w (expand_string_with_args w (Suc n)) (Suc n) M"
proof
  fix args str s r s'
  assume "expand_string_with_args w (Suc n) args str s = Some (Done r s')"
  then show "keeps w s s'"
    by (auto simp: pbind_Done expand_str_def simp del: expand_loop.simps dest: expansion.loop_keeps [OF assms])
next
  fix s :: pstate and args and str :: string
  assume "vars_ok M (variable_list s)" "budget (variable_list s) * Suc M + length str < Suc n"
  then have "fine (expand_str (expand_string_with_args w n) w is_end_of_str args str s)"
    unfolding expand_str_def by (intro expansion.loop_fine [OF assms]) (auto simp: is_end_of_str_def)
  then show "fine (expand_string_with_args w (Suc n) args str s)"
    by (auto intro: fine_pbind)
qed

lemma expansion_all: "expansion w (expand_string_with_args w n) n M"
proof (induction n)
  case 0
  show ?case by standard auto
next
  case (Suc n)
  then show ?case by (rule expansion_step)
qed

interpretation ev: expansion w "expand_string_with_args w n" n M for w n M
  by (rule expansion_all)

lemma one_token_fine:
  "vars_ok M (variable_list s) \<Longrightarrow> budget (variable_list s) * Suc M + length str < Suc n \<Longrightarrow>
   fine (expand_one_token w n str s)"
  unfolding expand_one_token_def expand_str_def
  by (rule ev.loop_fine) (auto simp: is_end_of_token_def isalnum_def isdigit_def isupper_def islower_def)

section \<open>Expansion of the parts of a text\<close>

text \<open>A text without a dollar sign stands for itself, in front of any text.\<close>

lemma expand_loop_plain:
  "CHR ''$'' \<notin> set a \<Longrightarrow> \<forall>c \<in> set a. \<not> is_end c \<Longrightarrow>
   expand_loop dl (length a + k) is_end (a @ b) s =
     pbind (expand_loop dl k is_end b s) (\<lambda>(out, rest) s. Some (Done (a @ out, rest) s))"
proof (induction a)
  case Nil
  show ?case by (cases "expand_loop dl k is_end b s" rule: run_cases) auto
next
  case (Cons c a)
  have "pbind (pbind m (\<lambda>(out, rest) s. Some (Done (a @ out, rest) s))) (\<lambda>(out, rest) s. Some (Done (c # out, rest) s))
      = pbind m (\<lambda>(out, rest) s. Some (Done (c # a @ out, rest) s))" for m :: "(string \<times> string) run"
    by (cases m rule: run_cases) auto
  with Cons show ?case by auto
qed

lemma expand_loop_end: "is_end (CHR 0x00) \<Longrightarrow> expand_loop dl (Suc k) is_end [] s = Some (Done ([], []) s)"
  by simp

lemma end_of_str [simp]: "is_end_of_str (CHR 0x00)"
  by (simp add: is_end_of_str_def)

lemma expand_loop_all_plain:
  assumes "CHR ''$'' \<notin> set str" and "CHR 0x00 \<notin> set str"
  shows "expand_loop dl (Suc (length str + k)) is_end_of_str str s = Some (Done (str, []) s)"
proof -
  have "\<forall>c \<in> set str. \<not> is_end_of_str c" using assms(2) by (auto simp: is_end_of_str_def)
  from expand_loop_plain [OF assms(1) this, of dl "Suc k" "[]" s] show ?thesis
    by (simp add: expand_loop_end del: expand_loop.simps)
qed

lemma expand_plain:
  assumes "CHR ''$'' \<notin> set str" and "CHR 0x00 \<notin> set str"
  shows "expand_string_with_args w (Suc n) args str s = Some (Done str s)"
  using expand_loop_all_plain [OF assms, of _ 0] by (simp add: expand_str_def del: expand_loop.simps)

section \<open>References\<close>

text \<open>A name without characters the macro language gives a meaning to.\<close>

definition plain_name :: "string \<Rightarrow> bool" where
  "plain_name x \<longleftrightarrow> (\<forall>c \<in> set x. c \<notin> {CHR ''$'', CHR ''('', CHR '')'', CHR '','', CHR 0x00})"

definition reference :: "string \<Rightarrow> string" where
  "reference x = ''$('' @ x @ '')''"

lemma close_paren_plain: "plain_name x \<Longrightarrow> close_paren 0 (x @ CHR '')'' # rest) = Some (x, rest)"
  by (induction x) (auto simp: plain_name_def)

lemma split_clause_plain: "plain_name x \<Longrightarrow> split_clause 0 x = [x]"
  by (induction x) (auto simp: plain_name_def cons_hd_def)

lemma eval_clause_name:
  assumes "plain_name x"
  shows "eval_clause (expand_string_with_args w (Suc n)) w [] x s
    = expand_name (expand_string_with_args w (Suc n)) w x [] s"
proof -
  have "expand_string_with_args w (Suc n) [] x s = Some (Done x s)"
    using assms by (intro expand_plain) (auto simp: plain_name_def)
  then show ?thesis
    by (simp add: eval_clause_def split_clause_plain [OF assms] FUNCTION_MAX_ARGS_def Let_def
        del: expand_string_with_args.simps split: prod.split) (auto simp: unat_eq_0)
qed

lemma expand_reference:
  assumes "plain_name x"
  shows "expand_string w (Suc (Suc n)) (reference x) s
    = expand_name (expand_string_with_args w (Suc n)) w x [] s"
proof -
  have e: "expand_loop dl (Suc (Suc k)) is_end_of_str (reference x) s
      = pbind (dl (CHR ''('' # x @ '')'') s) (\<lambda>(y, rest) s. pbind (expand_loop dl (Suc k) is_end_of_str rest s)
          (\<lambda>(out, rest) s. Some (Done (y @ out, rest) s)))" for dl k
    by (simp add: reference_def)
  have d: "expand_dollar_with_args ex w [] (CHR ''('' # x @ '')'') s
      = pbind (eval_clause ex w [] x s) (\<lambda>res s. Some (Done (res, []) s))" for ex
    by (simp add: expand_dollar_with_args_def close_paren_plain [OF assms])
  have l: "Suc (length (reference x)) = Suc (Suc (Suc (Suc (length x))))" by (simp add: reference_def)
  show ?thesis
    unfolding expand_string_def expand_string_with_args.simps(2) [of w "Suc n"] expand_str_def l e d eval_clause_name [OF assms]
    by (cases "expand_name (expand_string_with_args w (Suc n)) w x [] s" rule: run_cases)
       (simp_all add: expand_loop_end del: expand_loop.simps)
qed

text \<open>A reference to a simple variable is its value.\<close>

lemma expand_simple_reference:
  assumes "plain_name x" and "variable_lookup x (variable_list s) = Some v"
    and "v_flavor v = VAR_SIMPLE" "v_value v = Some t" "v_exp_count v = 0"
  shows "expand_string w (Suc (Suc n)) (reference x) s = Some (Done t s)"
  unfolding expand_reference [OF assms(1)]
  using assms by (simp add: expand_name_def variable_expand_def Let_def set_variable_def upd_variable_undo)

text \<open>A reference to a variable that is already being expanded ends the program.\<close>

lemma expand_nested_reference:
  assumes "plain_name x" and "variable_lookup x (variable_list s) = Some v" "v_exp_count v \<noteq> 0"
  shows "expand_string w (Suc (Suc n)) (reference x) s
    = Some (pperror (''Recursive variable '' @ quoted x @ '' references itself (eventually)'') s)"
  unfolding expand_reference [OF assms(1)]
  using assms by (simp add: expand_name_def variable_expand_def pperror_def)

text \<open>A number stands for the argument of that position.\<close>

lemma eval_clause_argument:
  assumes "0 < k" "k \<le> length args" "length args < 2 ^ 64"
  shows "eval_clause ex w args (nat_text k) s = Some (Done (args ! (k - 1)) s)"
proof -
  obtain c cs where n: "nat_text k = c # cs" by (cases "nat_text k") (auto simp: nat_text_nonempty)
  have "list_all isdigit (c # cs)" using nat_text_digits [of k] by (simp add: n)
  then have c: "isdigit c" by simp
  then have "\<not> isspace c" "c \<noteq> CHR ''-''" "c \<noteq> CHR ''+''" "is_base_digit 10 c"
    by (auto simp: isdigit_def isspace_def is_base_digit_def isdigit_val)
  then have "scan_number 10 (nat_text k) = Some (False, k, [])"
    using scan_nat_text [of k] by (simp add: scan_number_def scan_magnitude_def number_base_def n Let_def)
  moreover have "int k \<le> ULLONG_MAX" using assms by (simp add: ULLONG_MAX_def)
  ultimately have s: "strtoull 10 (nat_text k) = (of_nat k, [], False)" by (simp add: strtoull_def)
  have k: "unat (of_nat k :: 64 word) = k" using assms by (simp add: unat_of_nat take_bit_nat_eq_self)
  moreover have "(of_nat k :: 64 word) > 0" using k assms(1) by (metis unat_eq_0 word_gt_0 not_gr_zero)
  ultimately show ?thesis using assms by (simp add: eval_clause_def s)
qed

section \<open>Definitions of variables\<close>

lemma lookup_set_variable:
  assumes "\<And>v. v_name (f v) = v_name v"
  shows "variable_lookup y (variable_list (set_variable x f s))
    = (if y = x then map_option f (variable_lookup x (variable_list s)) else variable_lookup y (variable_list s))"
proof -
  have "variable_lookup y (upd_variable x f vs)
      = (if y = x then map_option f (variable_lookup x vs) else variable_lookup y vs)" for vs
    by (induction vs) (auto simp: variable_lookup_def strcmp_eq_0_iff assms)
  then show ?thesis by (simp add: set_variable_def)
qed

lemma lookup_append_new:
  "variable_lookup y (vs @ [v]) = (case variable_lookup y vs of None \<Rightarrow> if v_name v = y then Some v else None | r \<Rightarrow> r)"
  unfolding variable_lookup_def by (induction vs) (auto simp: strcmp_eq_0_iff)

text \<open>The variable while its new value is expanded: it has its flavor, and no value.\<close>

definition start_variable :: "string \<Rightarrow> variable_flavor \<Rightarrow> pstate \<Rightarrow> pstate" where
  "start_variable name flavor s =
     set_variable name (\<lambda>v. v\<lparr>v_flavor := flavor\<rparr>)
       (if variable_lookup name (variable_list s) \<noteq> None then set_variable name (\<lambda>v. v\<lparr>v_value := None\<rparr>) s
        else s\<lparr>variable_list := variable_list s
                 @ [\<lparr>v_name = name, v_value = None, v_flavor = flavor, v_exp_count = 0\<rparr>]\<rparr>)"

lemma start_variable_lookup:
  "variable_lookup name (variable_list (start_variable name flavor s))
    = Some (case variable_lookup name (variable_list s) of
              None \<Rightarrow> \<lparr>v_name = name, v_value = None, v_flavor = flavor, v_exp_count = 0\<rparr>
            | Some v \<Rightarrow> v\<lparr>v_value := None, v_flavor := flavor\<rparr>)"
  by (auto simp: start_variable_def lookup_set_variable lookup_append_new split: option.split)

lemma variable_add_simple:
  "variable_add w n name value VAR_SIMPLE s =
     pbind (expand_string w n value (start_variable name VAR_SIMPLE s)) (\<lambda>new_value s.
       Some (Done () (set_variable name (\<lambda>v. v\<lparr>v_value := Some new_value\<rparr>) s)))"
  by (simp add: variable_add_def Let_def start_variable_def)

lemma variable_add_recursive:
  "variable_add w n name value VAR_RECURSIVE s =
     Some (Done () (set_variable name (\<lambda>v. v\<lparr>v_value := Some value\<rparr>) (start_variable name VAR_RECURSIVE s)))"
  by (simp add: variable_add_def Let_def start_variable_def)

lemma expand_string_keeps:
  "expand_string w n str s = Some (Done r s') \<Longrightarrow> keeps w s s'"
  by (simp add: expand_string_def ev.ex_keeps)

lemma variable_add_simple_value:
  assumes "variable_add w n x value VAR_SIMPLE s = Some (Done () s')"
    and "\<forall>v. variable_lookup x (variable_list s) = Some v \<longrightarrow> v_exp_count v = 0"
  obtains r s1 v where "expand_string w n value (start_variable x VAR_SIMPLE s) = Some (Done r s1)"
    and "variable_lookup x (variable_list s') = Some v" "v_flavor v = VAR_SIMPLE" "v_value v = Some r" "v_exp_count v = 0"
proof -
  from assms(1) obtain r s1 where
    r: "expand_string w n value (start_variable x VAR_SIMPLE s) = Some (Done r s1)"
    and s': "s' = set_variable x (\<lambda>v. v\<lparr>v_value := Some r\<rparr>) s1"
    by (auto simp: variable_add_simple pbind_Done)
  have "variable_list s1 = variable_list (start_variable x VAR_SIMPLE s)"
    using expand_string_keeps [OF r] by (simp add: keeps_def)
  then show thesis
    using assms(2) by (intro that [OF r]) (auto simp: s' lookup_set_variable start_variable_lookup split: option.split)
qed

text \<open>A simple variable cannot be defined from itself.\<close>

lemma variable_add_self:
  assumes "plain_name x" and "\<forall>v. variable_lookup x (variable_list s) = Some v \<longrightarrow> v_exp_count v = 0"
  shows "variable_add w (Suc (Suc n)) x (reference x) VAR_SIMPLE s = Some Fault"
  unfolding variable_add_simple expand_reference [OF assms(1)]
  using assms(2) by (auto simp: expand_name_def variable_expand_def start_variable_lookup Let_def split: option.split)

text \<open>A recursive variable is expanded where it is used.\<close>

definition enter :: "string \<Rightarrow> pstate \<Rightarrow> pstate" where
  "enter x = set_variable x (\<lambda>v. v\<lparr>v_exp_count := v_exp_count v + 1\<rparr>)"

definition leave :: "string \<Rightarrow> pstate \<Rightarrow> pstate" where
  "leave x = set_variable x (\<lambda>v. v\<lparr>v_exp_count := v_exp_count v - 1\<rparr>)"

lemma expand_recursive_reference:
  assumes "plain_name x" and "variable_lookup x (variable_list s) = Some v"
    and "v_flavor v = VAR_RECURSIVE" "v_value v = Some t" "v_exp_count v = 0"
  shows "expand_string w (Suc (Suc n)) (reference x) s
    = pbind (expand_string w (Suc n) t (enter x s)) (\<lambda>r s. Some (Done r (leave x s)))"
proof -
  have "expand_name (expand_string_with_args w (Suc n)) w x [] s
      = pbind (pbind (expand_string_with_args w (Suc n) [] t (enter x s)) (\<lambda>r s. Some (Done (Some r) (leave x s))))
          (\<lambda>res s. case res of Some r \<Rightarrow> Some (Done r s) | None \<Rightarrow> Some (Done '''' s))"
    using assms
    by (cases "expand_string_with_args w (Suc n) [] t (enter x s)" rule: run_cases)
       (simp_all add: expand_name_def variable_expand_def Let_def enter_def leave_def
          del: expand_string_with_args.simps)
  also have "\<dots> = pbind (expand_string w (Suc n) t (enter x s)) (\<lambda>r s. Some (Done r (leave x s)))"
    unfolding expand_string_def
    by (cases "expand_string_with_args w (Suc n) [] t (enter x s)" rule: run_cases)
       (simp_all del: expand_string_with_args.simps)
  finally show ?thesis by (simp only: expand_reference [OF assms(1)])
qed

text \<open>A recursive variable whose value is a reference to itself ends the program when it is used.\<close>

lemma expand_self_reference:
  assumes "plain_name x" and "variable_lookup x (variable_list s) = Some v"
    and "v_flavor v = VAR_RECURSIVE" "v_value v = Some (reference x)" "v_exp_count v = 0"
  shows "expand_string w (Suc (Suc (Suc n))) (reference x) s
    = Some (pperror (''Recursive variable '' @ quoted x @ '' references itself (eventually)'') (enter x s))"
proof -
  have "variable_lookup x (variable_list (enter x s)) = Some (v\<lparr>v_exp_count := 1\<rparr>)"
    using assms by (simp add: enter_def lookup_set_variable)
  from expand_nested_reference [OF assms(1) this] show ?thesis
    unfolding expand_recursive_reference [OF assms] by (simp add: pperror_def)
qed

lemma variable_add_append:
  assumes "variable_lookup x (variable_list s) = Some v" "v_flavor v = VAR_RECURSIVE" "v_value v = Some old"
  shows "variable_add w n x value VAR_APPEND s
    = Some (Done () (set_variable x (\<lambda>v. v\<lparr>v_value := Some (old @ '' '' @ value)\<rparr>)
        (set_variable x (\<lambda>v. v\<lparr>v_flavor := VAR_RECURSIVE\<rparr>) s)))"
  using assms by (simp add: variable_add_def Let_def lookup_set_variable)

end
