(* ===== verification/HashTable.thy ===== *)
theory HashTable
  imports ExprPrint Symbol "HOL-Library.Multiset"
begin

text \<open>
  The hash tables of \<^verbatim>\<open>include/hash.h\<close> and \<^verbatim>\<open>include/hashtable.h\<close> and the three objects the
  program keeps in them: symbols (\<open>sym_lookup\<close>, \<open>sym_find\<close>), expressions (\<open>expr_lookup\<close>, which
  makes equal expressions the same node) and file names (\<open>file_lookup\<close>). A table is the list
  of its buckets, a bucket the list of its entries from the head on. The locale
  \<open>interning\<close> is the contract of a lookup that inserts what it does not find.
\<close>

section \<open>Hash functions\<close>

text \<open>\<open>*s\<close> is a signed character, promoted to an \<open>int\<close>.\<close>

definition char_int :: "char \<Rightarrow> 32 word" where
  "char_int c = scast (of_nat (char_code c) :: 8 word)"

definition hash_str :: "string \<Rightarrow> 32 word" where
  "hash_str s = fold (\<lambda>c hash. xor hash (char_int c) * 0x01000193) s 2166136261"

definition hash_32 :: "32 word \<Rightarrow> 32 word" where
  "hash_32 v = 0x61C88647 * v"

definition hash_ptr :: "64 word \<Rightarrow> 32 word" where
  "hash_ptr p = hash_32 (ucast p)"

section \<open>Tables\<close>

type_synonym 'a table = "'a list list"

text \<open>The key is an \<open>int\<close>, the size of the table a \<open>size_t\<close>.\<close>

definition hash_head :: "'a table \<Rightarrow> 32 word \<Rightarrow> nat" where
  "hash_head t key = unat (scast key :: 64 word) mod length t"

definition hash_possible :: "'a table \<Rightarrow> 32 word \<Rightarrow> 'a list" where
  "hash_possible t key = t ! hash_head t key"

definition hash_add :: "'a \<Rightarrow> 32 word \<Rightarrow> 'a table \<Rightarrow> 'a table" where
  "hash_add x key t = t[hash_head t key := x # t ! hash_head t key]"

definition hash_for_each :: "'a table \<Rightarrow> 'a list" where
  "hash_for_each t = concat t"

definition HASHTABLE_DEFINE :: "nat \<Rightarrow> 'a table" where
  "HASHTABLE_DEFINE n = replicate n []"

text \<open>Every entry is in the bucket of its hash value.\<close>

definition placed :: "('a \<Rightarrow> 32 word) \<Rightarrow> 'a table \<Rightarrow> bool" where
  "placed h t \<longleftrightarrow> t \<noteq> [] \<and> (\<forall>i < length t. \<forall>x \<in> set (t ! i). hash_head t (h x) = i)"

lemma hash_head_less: "t \<noteq> [] \<Longrightarrow> hash_head t key < length t"
  by (simp add: hash_head_def)

lemma hash_add_length [simp]: "length (hash_add x key t) = length t" "hash_add x key t = [] \<longleftrightarrow> t = []"
  by (simp_all add: hash_add_def)

lemma hash_head_add [simp]: "hash_head (hash_add x key t) k = hash_head t k"
  by (simp add: hash_head_def)

lemma placed_empty: "0 < n \<Longrightarrow> placed h (HASHTABLE_DEFINE n)"
  by (simp add: placed_def HASHTABLE_DEFINE_def)

lemma placed_add: "placed h t \<Longrightarrow> placed h (hash_add x (h x) t)"
  unfolding placed_def by (auto simp: hash_add_def nth_list_update hash_head_less split: if_splits)
    (auto simp: hash_head_def)

lemma hash_for_each_add:
  "t \<noteq> [] \<Longrightarrow> mset (hash_for_each (hash_add x key t)) = add_mset x (mset (hash_for_each t))"
proof -
  assume "t \<noteq> []"
  then have i: "hash_head t key < length t" by (rule hash_head_less)
  have "mset (concat (t[i := x # t ! i])) = add_mset x (mset (concat t))" if "i < length t" for i
    using that
  proof (induction t arbitrary: i)
    case (Cons b t)
    then show ?case by (cases i) auto
  qed simp
  with i show ?thesis by (simp add: hash_for_each_def hash_add_def)
qed

lemma placed_possible:
  "placed h t \<Longrightarrow> x \<in> set (hash_possible t key) \<Longrightarrow> x \<in> set (hash_for_each t)"
  unfolding placed_def hash_possible_def hash_for_each_def
  by (metis hash_head_less nth_mem UN_I set_concat)

lemma placed_found:
  assumes "placed h t" "x \<in> set (hash_for_each t)"
  shows "x \<in> set (hash_possible t (h x))"
proof -
  from assms(2) obtain b where b: "b \<in> set t" "x \<in> set b"
    by (auto simp: hash_for_each_def)
  then obtain i where "i < length t" "x \<in> set (t ! i)" by (metis in_set_conv_nth)
  with assms(1) show ?thesis by (auto simp: placed_def hash_possible_def)
qed

section \<open>Interning\<close>

text \<open>
  A lookup that inserts. \<open>ok\<close> is the invariant of the state, \<open>entries\<close> what the table holds,
  \<open>matches\<close> when an entry answers a key.
\<close>

locale interning =
  fixes ok :: "'s \<Rightarrow> bool"
    and entries :: "'s \<Rightarrow> 'a set"
    and key_ok :: "'k \<Rightarrow> bool"
    and matches :: "'s \<Rightarrow> 'k \<Rightarrow> 'a \<Rightarrow> bool"
    and lookup :: "'k \<Rightarrow> 's \<Rightarrow> 'a \<times> 's"
  assumes lookup_ok: "ok s \<Longrightarrow> key_ok k \<Longrightarrow> lookup k s = (x, s') \<Longrightarrow> ok s'"
    and lookup_matches: "ok s \<Longrightarrow> key_ok k \<Longrightarrow> lookup k s = (x, s') \<Longrightarrow> x \<in> entries s' \<and> matches s' k x"
    and lookup_hit: "ok s \<Longrightarrow> key_ok k \<Longrightarrow> lookup k s = (x, s') \<Longrightarrow> y \<in> entries s \<Longrightarrow> matches s k y \<Longrightarrow> s' = s"
    and lookup_keeps: "ok s \<Longrightarrow> key_ok k \<Longrightarrow> lookup k s = (x, s') \<Longrightarrow> y \<in> entries s \<Longrightarrow>
      y \<in> entries s' \<and> (\<forall>k'. matches s' k' y \<longleftrightarrow> matches s k' y)"
    and matches_unique: "ok s \<Longrightarrow> x \<in> entries s \<Longrightarrow> y \<in> entries s \<Longrightarrow> matches s k x \<Longrightarrow> matches s k y \<Longrightarrow> x = y"
    and matches_key: "matches s k x \<Longrightarrow> matches s k' x \<Longrightarrow> k = k'"
begin

text \<open>Other lookups in between change nothing for an entry.\<close>

fun lookups :: "'k list \<Rightarrow> 's \<Rightarrow> 's" where
  "lookups [] s = s"
| "lookups (k # ks) s = lookups ks (snd (lookup k s))"

lemma lookups_keep:
  "ok s \<Longrightarrow> \<forall>k \<in> set ks. key_ok k \<Longrightarrow> y \<in> entries s \<Longrightarrow>
   ok (lookups ks s) \<and> y \<in> entries (lookups ks s) \<and> (\<forall>k. matches (lookups ks s) k y \<longleftrightarrow> matches s k y)"
proof (induction ks arbitrary: s)
  case (Cons k ks)
  obtain x s' where l: "lookup k s = (x, s')" by (cases "lookup k s")
  have k: "key_ok k" using Cons.prems(2) by simp
  from Cons.IH [of s'] lookup_ok [OF Cons.prems(1) k l] lookup_keeps [OF Cons.prems(1) k l Cons.prems(3)] Cons.prems(2)
  show ?case by (simp add: l)
qed simp

text \<open>Looking up again gives the same entry and inserts nothing.\<close>

lemma lookup_later:
  assumes "ok s" "key_ok k" "\<forall>k \<in> set ks. key_ok k" "lookup k s = (x, s')"
  shows "lookup k (lookups ks s') = (x, lookups ks s')"
proof -
  have ok': "ok s'" and x: "x \<in> entries s'" "matches s' k x"
    using assms lookup_ok lookup_matches by blast+
  from lookups_keep [OF ok' assms(3) x(1)] x(2) have
    r: "ok (lookups ks s')" "x \<in> entries (lookups ks s')" "matches (lookups ks s') k x" by auto
  obtain y s2 where y: "lookup k (lookups ks s') = (y, s2)" by (cases "lookup k (lookups ks s')")
  from lookup_hit [OF r(1) assms(2) y r(2,3)] have "s2 = lookups ks s'" .
  with lookup_matches [OF r(1) assms(2) y] matches_unique [OF r(1), of y x k] r y show ?thesis by simp
qed

text \<open>Different keys have different entries.\<close>

lemma lookup_distinct:
  assumes "ok s" "key_ok k" "\<forall>k \<in> set ks. key_ok k" "key_ok k'"
    and "lookup k s = (x, s1)" "lookup k' (lookups ks s1) = (x, s2)"
  shows "k = k'"
proof -
  have ok1: "ok s1" and x: "x \<in> entries s1" "matches s1 k x"
    using assms lookup_ok lookup_matches by blast+
  from lookups_keep [OF ok1 assms(3) x(1)] x(2) have
    r: "ok (lookups ks s1)" "x \<in> entries (lookups ks s1)" "matches (lookups ks s1) k x" by auto
  with lookup_keeps [OF r(1) assms(4,6) r(2)] lookup_matches [OF r(1) assms(4,6)] matches_key
  show ?thesis by blast
qed

end

section \<open>File names\<close>

record file_state =
  file_hashtable :: "string table"
  autoconf_cmd :: gstr

definition file_lookup :: "string \<Rightarrow> file_state \<Rightarrow> string \<times> file_state" where
  "file_lookup name s =
     (let hash = hash_str name in
      case find (\<lambda>f. strcmp name f = 0) (hash_possible (file_hashtable s) hash) of
        Some f \<Rightarrow> (f, s)
      | None \<Rightarrow>
          (name, \<lparr>file_hashtable = hash_add name hash (file_hashtable s),
                  autoconf_cmd = str_printf (autoconf_cmd s) (CHR 0x09 # name @ '' '' @ [CHR 0x5C, CHR 0x0A])\<rparr>))"

definition file_ok :: "file_state \<Rightarrow> bool" where
  "file_ok s \<longleftrightarrow> placed hash_str (file_hashtable s) \<and> distinct (hash_for_each (file_hashtable s))"

lemma placed_find:
  assumes "placed h t" "\<And>y. P y \<Longrightarrow> h y = key"
  shows "find P (hash_possible t key) = None \<longleftrightarrow> (\<forall>y \<in> set (hash_for_each t). \<not> P y)"
  unfolding find_None_iff
  using placed_possible [OF assms(1), of _ key] placed_found [OF assms(1)] assms(2) by metis

lemma distinct_hash_add:
  assumes "t \<noteq> []"
  shows "distinct (hash_for_each (hash_add x key t)) \<longleftrightarrow> x \<notin> set (hash_for_each t) \<and> distinct (hash_for_each t)"
proof -
  have "mset (hash_for_each (hash_add x key t)) = mset (x # hash_for_each t)"
    using hash_for_each_add [OF assms, of x key] by simp
  then have "distinct (hash_for_each (hash_add x key t)) \<longleftrightarrow> distinct (x # hash_for_each t)"
    by (rule mset_eq_imp_distinct_iff)
  then show ?thesis by simp
qed

lemma set_hash_add: "t \<noteq> [] \<Longrightarrow> set (hash_for_each (hash_add x key t)) = insert x (set (hash_for_each t))"
  by (metis hash_for_each_add set_mset_mset set_mset_add_mset_insert)

lemma placed_nonempty: "placed h t \<Longrightarrow> t \<noteq> []"
  by (simp add: placed_def)

lemma file_find: 
  assumes "file_ok s"
  shows "find (\<lambda>f. strcmp name f = 0) (hash_possible (file_hashtable s) (hash_str name))
    = (if name \<in> set (hash_for_each (file_hashtable s)) then Some name else None)"
proof -
  let ?f = "find (\<lambda>f. strcmp name f = 0) (hash_possible (file_hashtable s) (hash_str name))"
  have "?f = None \<longleftrightarrow> name \<notin> set (hash_for_each (file_hashtable s))"
    using placed_find [of hash_str "file_hashtable s" "\<lambda>f. strcmp name f = 0"] assms
    by (auto simp: file_ok_def strcmp_eq_0_iff)
  moreover have "?f = Some f \<Longrightarrow> f = name" for f by (auto dest: find_SomeD simp: strcmp_eq_0_iff)
  ultimately show ?thesis by (cases ?f) auto
qed

lemma file_lookup_cases:
  assumes "file_ok s"
  shows "file_lookup name s =
    (if name \<in> set (hash_for_each (file_hashtable s)) then (name, s)
     else (name, \<lparr>file_hashtable = hash_add name (hash_str name) (file_hashtable s),
                  autoconf_cmd = str_printf (autoconf_cmd s) (CHR 0x09 # name @ '' '' @ [CHR 0x5C, CHR 0x0A])\<rparr>))"
  by (simp add: file_lookup_def file_find [OF assms])

interpretation files: interning file_ok "\<lambda>s. set (hash_for_each (file_hashtable s))" "\<lambda>_. True"
    "\<lambda>s k x. x = k" file_lookup
  by unfold_locales
     (auto simp: file_lookup_cases file_ok_def placed_nonempty placed_add distinct_hash_add set_hash_add
        split: if_splits)

section \<open>Symbols\<close>

definition SYMBOL_HASHSIZE :: nat where "SYMBOL_HASHSIZE = 2 ^ 14"

record sym_state =
  kst :: kstate
  sym_hashtable :: "sid table"
  next_sym :: nat

text \<open>The constant symbols of one letter.\<close>

definition builtin_symbol :: "string \<Rightarrow> sid option" where
  "builtin_symbol name =
     (if name = ''y'' then Some symbol_yes
      else if name = ''m'' then Some symbol_mod
      else if name = ''n'' then Some symbol_no
      else None)"

definition name_is :: "sym_state \<Rightarrow> string \<Rightarrow> sid \<Rightarrow> bool" where
  "name_is s name a = (case s_name (syms (kst s) a) of None \<Rightarrow> False | Some t \<Rightarrow> strcmp t name = 0)"

text \<open>\<open>xmalloc\<close>, \<open>memset\<close> and the fields \<open>sym_lookup\<close> sets, and the insertion.\<close>

definition new_symbol :: "string option \<Rightarrow> symbol_flag set \<Rightarrow> 32 word \<Rightarrow> sym_state \<Rightarrow> sid \<times> sym_state" where
  "new_symbol name flags hash s =
     (let a = Sym (next_sym s);
          t = hash_add a hash (sym_hashtable s);
          k = upd_sym a (\<lambda>_. blank_symbol\<lparr>s_name := name, s_type := S_UNKNOWN, s_flags := flags\<rparr>) (kst s)
      in (a, \<lparr>kst = k\<lparr>sym_table := hash_for_each t\<rparr>, sym_hashtable = t, next_sym = Suc (next_sym s)\<rparr>))"

definition sym_lookup :: "string option \<Rightarrow> symbol_flag set \<Rightarrow> sym_state \<Rightarrow> sid \<times> sym_state" where
  "sym_lookup name flags s =
     (case name of
        None \<Rightarrow> new_symbol None flags 0 s
      | Some nm \<Rightarrow>
          (case builtin_symbol nm of
             Some a \<Rightarrow> (a, s)
           | None \<Rightarrow>
               (let hash = hash_str nm in
                case find (\<lambda>a. name_is s nm a
                       \<and> (if flags \<noteq> {} then s_flags (syms (kst s) a) \<inter> flags \<noteq> {}
                          else SYMBOL_CONST \<notin> s_flags (syms (kst s) a)))
                     (hash_possible (sym_hashtable s) hash) of
                  Some a \<Rightarrow> (a, s)
                | None \<Rightarrow> new_symbol (Some nm) flags hash s)))"

definition sym_find :: "string option \<Rightarrow> sym_state \<Rightarrow> sid option" where
  "sym_find name s =
     (case name of
        None \<Rightarrow> None
      | Some nm \<Rightarrow>
          (case builtin_symbol nm of
             Some a \<Rightarrow> Some a
           | None \<Rightarrow>
               find (\<lambda>a. name_is s nm a \<and> SYMBOL_CONST \<notin> s_flags (syms (kst s) a))
                 (hash_possible (sym_hashtable s) (hash_str nm))))"

text \<open>The two kinds of keys the parser uses: a name, constant (in quotes) or not.\<close>

type_synonym sym_key = "string \<times> bool"

definition key_flags :: "bool \<Rightarrow> symbol_flag set" where
  "key_flags c = (if c then {SYMBOL_CONST} else {})"

definition sym_key_ok :: "sym_key \<Rightarrow> bool" where
  "sym_key_ok k \<longleftrightarrow> builtin_symbol (fst k) = None"

definition sym_matches :: "sym_state \<Rightarrow> sym_key \<Rightarrow> sid \<Rightarrow> bool" where
  "sym_matches s k a \<longleftrightarrow>
     s_name (syms (kst s) a) = Some (fst k) \<and> (SYMBOL_CONST \<in> s_flags (syms (kst s) a)) = snd k"

definition sym_entries :: "sym_state \<Rightarrow> sid set" where
  "sym_entries s = set (hash_for_each (sym_hashtable s))"

definition sym_hash :: "sym_state \<Rightarrow> sid \<Rightarrow> 32 word" where
  "sym_hash s a = (case s_name (syms (kst s) a) of None \<Rightarrow> 0 | Some nm \<Rightarrow> hash_str nm)"

definition sym_ok :: "sym_state \<Rightarrow> bool" where
  "sym_ok s \<longleftrightarrow> placed (sym_hash s) (sym_hashtable s) \<and> sym_table (kst s) = hash_for_each (sym_hashtable s)
     \<and> distinct (sym_table (kst s)) \<and> sym_entries s \<subseteq> Sym ` {..< next_sym s}
     \<and> (\<forall>k. \<forall>a \<in> sym_entries s. \<forall>b \<in> sym_entries s. sym_matches s k a \<longrightarrow> sym_matches s k b \<longrightarrow> a = b)"

lemma sym_unique:
  "sym_ok s \<Longrightarrow> a \<in> sym_entries s \<Longrightarrow> b \<in> sym_entries s \<Longrightarrow> sym_matches s k a \<Longrightarrow> sym_matches s k b \<Longrightarrow> a = b"
  unfolding sym_ok_def by blast

lemma name_is_iff: "name_is s nm a \<longleftrightarrow> s_name (syms (kst s) a) = Some nm"
  by (auto simp: name_is_def strcmp_eq_0_iff split: option.split)

lemma sym_matches_code:
  "name_is s nm a \<and> (if key_flags c \<noteq> {} then s_flags (syms (kst s) a) \<inter> key_flags c \<noteq> {}
     else SYMBOL_CONST \<notin> s_flags (syms (kst s) a)) \<longleftrightarrow> sym_matches s (nm, c) a"
  by (auto simp: sym_matches_def name_is_iff key_flags_def)

lemma sym_find_match:
  assumes "sym_ok s"
  shows "find (sym_matches s k) (hash_possible (sym_hashtable s) (hash_str (fst k))) = None
    \<longleftrightarrow> (\<forall>a \<in> sym_entries s. \<not> sym_matches s k a)"
  unfolding sym_entries_def
  by (rule placed_find [where h = "sym_hash s"]) (use assms in \<open>auto simp: sym_ok_def sym_matches_def sym_hash_def\<close>)

lemma find_entry:
  assumes "sym_ok s" "find P (hash_possible (sym_hashtable s) h) = Some a"
  shows "a \<in> sym_entries s \<and> P a"
  using assms placed_possible [of "sym_hash s" "sym_hashtable s" a h]
  by (auto simp: sym_ok_def sym_entries_def dest: find_SomeD)

lemma sym_lookup_key:
  assumes "sym_key_ok k"
  shows "sym_lookup (Some (fst k)) (key_flags (snd k)) s =
    (case find (sym_matches s k) (hash_possible (sym_hashtable s) (hash_str (fst k))) of
       Some a \<Rightarrow> (a, s)
     | None \<Rightarrow> new_symbol (Some (fst k)) (key_flags (snd k)) (hash_str (fst k)) s)"
  using assms by (simp add: sym_lookup_def sym_key_ok_def Let_def sym_matches_code)

text \<open>An insertion of a new symbol keeps the table in order, if no entry has its key.\<close>

lemma new_symbol_sel:
  assumes "new_symbol name flags h s = (a, s')"
  shows "a = Sym (next_sym s)" "sym_hashtable s' = hash_add a h (sym_hashtable s)"
    "syms (kst s') = (syms (kst s))(a := blank_symbol\<lparr>s_name := name, s_type := S_UNKNOWN, s_flags := flags\<rparr>)"
    "sym_table (kst s') = hash_for_each (sym_hashtable s')" "next_sym s' = Suc (next_sym s)"
  using assms by (auto simp: new_symbol_def Let_def)

lemma placed_cong: "(\<And>x. x \<in> set (hash_for_each t) \<Longrightarrow> h x = h' x) \<Longrightarrow> placed h t = placed h' t"
  unfolding placed_def hash_for_each_def by (auto simp: set_concat) (metis nth_mem)+

lemma new_symbol_ok:
  assumes ok: "sym_ok s" and new: "new_symbol name flags h s = (a, s')"
    and h: "h = (case name of None \<Rightarrow> 0 | Some nm \<Rightarrow> hash_str nm)"
    and fresh: "\<And>nm b. name = Some nm \<Longrightarrow> b \<in> sym_entries s \<Longrightarrow> \<not> sym_matches s (nm, SYMBOL_CONST \<in> flags) b"
  shows "sym_ok s'" "sym_entries s' = insert a (sym_entries s)"
    "b \<in> sym_entries s \<Longrightarrow> sym_matches s' k b \<longleftrightarrow> sym_matches s k b"
    "sym_matches s' k a \<longleftrightarrow> name = Some (fst k) \<and> (SYMBOL_CONST \<in> flags) = snd k"
proof -
  note sel = new_symbol_sel [OF new]
  have ne: "sym_hashtable s \<noteq> []" using ok by (auto simp: sym_ok_def placed_def)
  have a: "a \<notin> sym_entries s" using ok by (auto simp: sym_ok_def sel(1))
  show ent: "sym_entries s' = insert a (sym_entries s)"
    by (simp add: sym_entries_def sel(2) set_hash_add [OF ne])
  show old: "sym_matches s' k b \<longleftrightarrow> sym_matches s k b" if "b \<in> sym_entries s" for b k
    using that a by (auto simp: sym_matches_def sel(3))
  show mine: "sym_matches s' k a \<longleftrightarrow> name = Some (fst k) \<and> (SYMBOL_CONST \<in> flags) = snd k" for k
    by (auto simp: sym_matches_def sel(3) blank_symbol_def)
  have ha: "sym_hash s' a = h" by (simp add: sym_hash_def sel(3) blank_symbol_def h split: option.split)
  have hb: "sym_hash s' b = sym_hash s b" if "b \<in> sym_entries s" for b
    using that a by (auto simp: sym_hash_def sel(3))
  have "placed (sym_hash s') (sym_hashtable s)"
    using ok placed_cong [of "sym_hashtable s" "sym_hash s'" "sym_hash s"] hb by (auto simp: sym_ok_def sym_entries_def)
  then have "placed (sym_hash s') (sym_hashtable s')"
    using placed_add [of "sym_hash s'" "sym_hashtable s" a] by (simp add: sel(2) ha)
  moreover have "distinct (hash_for_each (sym_hashtable s'))"
    using ok a by (auto simp: sel(2) distinct_hash_add [OF ne] sym_ok_def sym_entries_def)
  moreover have "b = c" if "b \<in> sym_entries s'" "c \<in> sym_entries s'" "sym_matches s' k b" "sym_matches s' k c" for k b c
  proof (cases "b \<in> sym_entries s \<and> c \<in> sym_entries s")
    case True
    with that old show ?thesis using sym_unique [OF ok, of b c k] by simp
  next
    case False
    with that ent have "(b = a \<or> b \<in> sym_entries s) \<and> (c = a \<or> c \<in> sym_entries s) \<and> (b = a \<or> c = a)" by auto
    moreover have "\<not> sym_matches s k d" if "d \<in> sym_entries s" "sym_matches s' k a" for d
      using fresh [of "fst k" d] that mine [of k] by (auto simp: prod_eq_iff)
    ultimately show ?thesis using that old [of b k] old [of c k] by auto
  qed
  moreover have "sym_entries s' \<subseteq> Sym ` {..< next_sym s'}"
    using ok ent by (auto simp: sym_ok_def sel(1,5) lessThan_Suc)
  ultimately show "sym_ok s'"
    unfolding sym_ok_def using sel(4) by (simp add: sym_entries_def)
qed

lemma sym_lookup_key_cases:
  assumes "sym_ok s" "sym_key_ok k" "sym_lookup (Some (fst k)) (key_flags (snd k)) s = (a, s')"
  obtains (hit) "s' = s" "a \<in> sym_entries s" "sym_matches s k a"
    | (new) "\<forall>b \<in> sym_entries s. \<not> sym_matches s k b" "sym_ok s'" "sym_entries s' = insert a (sym_entries s)"
        "\<forall>b \<in> sym_entries s. \<forall>k'. sym_matches s' k' b \<longleftrightarrow> sym_matches s k' b" "sym_matches s' k a"
proof (cases "find (sym_matches s k) (hash_possible (sym_hashtable s) (hash_str (fst k)))")
  case None
  with assms have new: "new_symbol (Some (fst k)) (key_flags (snd k)) (hash_str (fst k)) s = (a, s')"
    and f: "\<forall>b \<in> sym_entries s. \<not> sym_matches s k b"
    using sym_find_match [OF assms(1)] by (auto simp: sym_lookup_key)
  have c: "(SYMBOL_CONST \<in> key_flags (snd k)) = snd k" by (simp add: key_flags_def)
  have fr: "\<And>nm b. Some (fst k) = Some nm \<Longrightarrow> b \<in> sym_entries s \<Longrightarrow> \<not> sym_matches s (nm, SYMBOL_CONST \<in> key_flags (snd k)) b"
  proof -
    fix nm b
    assume "Some (fst k) = Some nm" and b: "b \<in> sym_entries s"
    then have "(nm, SYMBOL_CONST \<in> key_flags (snd k)) = k" using c by (simp add: prod_eq_iff)
    with f b show "\<not> sym_matches s (nm, SYMBOL_CONST \<in> key_flags (snd k)) b" by simp
  qed
  have "sym_matches s' k a"
    using new_symbol_ok(4) [OF assms(1) new _ fr] c by simp
  with new_symbol_ok(1-3) [OF assms(1) new _ fr] f show thesis by (intro that(2)) auto
next
  case (Some b)
  with assms find_entry [OF assms(1) Some] show thesis by (intro that(1)) (auto simp: sym_lookup_key)
qed

interpretation symbols: interning sym_ok sym_entries sym_key_ok sym_matches
    "\<lambda>k. sym_lookup (Some (fst k)) (key_flags (snd k))"
proof (standard, goal_cases)
  case (1 s k x s')
  then show ?case by (cases rule: sym_lookup_key_cases) (use 1 in auto)
next
  case (2 s k x s')
  then show ?case by (cases rule: sym_lookup_key_cases) auto
next
  case (3 s k x s' y)
  from 3(1-3) show ?case by (cases rule: sym_lookup_key_cases) (use 3 in auto)
next
  case (4 s k x s' y)
  from 4(1-3) show ?case by (cases rule: sym_lookup_key_cases) (use 4 in auto)
next
  case (5 s x y k)
  then show ?case by (rule sym_unique)
next
  case (6 s k x k')
  then show ?case by (auto simp: sym_matches_def prod_eq_iff)
qed

text \<open>\<open>sym_find\<close> finds what \<open>sym_lookup\<close> entered, and nothing else.\<close>

lemma sym_find_iff:
  assumes "sym_ok s" "builtin_symbol nm = None"
  shows "sym_find (Some nm) s = Some a \<longleftrightarrow> a \<in> sym_entries s \<and> sym_matches s (nm, False) a"
proof -
  have p: "(\<lambda>a. name_is s nm a \<and> SYMBOL_CONST \<notin> s_flags (syms (kst s) a)) = sym_matches s (nm, False)"
    by (auto simp: fun_eq_iff sym_matches_def name_is_iff)
  let ?f = "find (sym_matches s (nm, False)) (hash_possible (sym_hashtable s) (hash_str nm))"
  have f: "sym_find (Some nm) s = ?f" using assms(2) by (simp add: sym_find_def p)
  show ?thesis
  proof
    assume "sym_find (Some nm) s = Some a"
    with find_entry [OF assms(1)] f show "a \<in> sym_entries s \<and> sym_matches s (nm, False) a" by metis
  next
    assume a: "a \<in> sym_entries s \<and> sym_matches s (nm, False) a"
    then have "?f \<noteq> None" using sym_find_match [OF assms(1), of "(nm, False)"] by auto
    then obtain b where b: "?f = Some b" by auto
    with find_entry [OF assms(1) b] a assms(1) have "b = a" by (auto simp: sym_ok_def)
    with b f show "sym_find (Some nm) s = Some a" by simp
  qed
qed

end
