(* ===== verification/ExprIntern.thy ===== *)
theory ExprIntern
  imports HashTable
begin

text \<open>
  The nodes of expressions and their hash table, \<open>expr_lookup\<close> of \<^verbatim>\<open>parser/expr.c\<close>. Because
  every node is made by it, two nodes are the same exactly if they are the same tree, so the
  other theories take an expression to be its tree and the comparison of pointers to be the
  equality of trees.
\<close>

section \<open>Nodes\<close>

text \<open>What the two words of a node point to. The addresses are those of the allocator.\<close>

datatype eref = Rnull | Rsym sid | Rexpr nat

datatype enode =
    N_SYMBOL sid
  | N_NOT nat
  | N_BIN bin_type nat nat
  | N_COMP comp_type sid sid
  | N_RANGE sid sid

fun expr_type_num :: "enode \<Rightarrow> 32 word" where
  "expr_type_num (N_BIN T_OR l r) = 1"
| "expr_type_num (N_BIN T_AND l r) = 2"
| "expr_type_num (N_NOT l) = 3"
| "expr_type_num (N_COMP T_EQUAL l r) = 4"
| "expr_type_num (N_COMP T_UNEQUAL l r) = 5"
| "expr_type_num (N_COMP T_LTH l r) = 6"
| "expr_type_num (N_COMP T_LEQ l r) = 7"
| "expr_type_num (N_COMP T_GTH l r) = 8"
| "expr_type_num (N_COMP T_GEQ l r) = 9"
| "expr_type_num (N_SYMBOL l) = 10"
| "expr_type_num (N_RANGE l r) = 11"

fun left_ref :: "enode \<Rightarrow> eref" where
  "left_ref (N_SYMBOL a) = Rsym a"
| "left_ref (N_NOT l) = Rexpr l"
| "left_ref (N_BIN t l r) = Rexpr l"
| "left_ref (N_COMP t a b) = Rsym a"
| "left_ref (N_RANGE a b) = Rsym a"

fun right_ref :: "enode \<Rightarrow> eref" where
  "right_ref (N_SYMBOL a) = Rnull"
| "right_ref (N_NOT l) = Rnull"
| "right_ref (N_BIN t l r) = Rexpr r"
| "right_ref (N_COMP t a b) = Rsym b"
| "right_ref (N_RANGE a b) = Rsym b"

record expr_state =
  nodes :: "nat \<Rightarrow> enode"
  expr_hashtable :: "nat table"
  next_expr :: nat

definition EXPR_HASHSIZE :: nat where "EXPR_HASHSIZE = 2 ^ 14"

definition node_hash :: "(eref \<Rightarrow> 64 word) \<Rightarrow> enode \<Rightarrow> 32 word" where
  "node_hash addr n = hash_32 (xor (xor (expr_type_num n) (hash_ptr (addr (left_ref n)))) (hash_ptr (addr (right_ref n))))"

definition expr_lookup :: "(eref \<Rightarrow> 64 word) \<Rightarrow> enode \<Rightarrow> expr_state \<Rightarrow> nat \<times> expr_state" where
  "expr_lookup addr n s =
     (let hash = node_hash addr n in
      case find (\<lambda>e. expr_type_num (nodes s e) = expr_type_num n \<and> left_ref (nodes s e) = left_ref n
                   \<and> right_ref (nodes s e) = right_ref n) (hash_possible (expr_hashtable s) hash) of
        Some e \<Rightarrow> (e, s)
      | None \<Rightarrow>
          (next_expr s,
           \<lparr>nodes = (nodes s)(next_expr s := n),
            expr_hashtable = hash_add (next_expr s) hash (expr_hashtable s),
            next_expr = Suc (next_expr s)\<rparr>))"

text \<open>The three fields determine the node.\<close>

lemma node_fields:
  "expr_type_num m = expr_type_num n \<and> left_ref m = left_ref n \<and> right_ref m = right_ref n \<longleftrightarrow> m = n"
  by (cases m rule: expr_type_num.cases; cases n rule: expr_type_num.cases) auto

section \<open>The table\<close>

definition expr_entries :: "expr_state \<Rightarrow> nat set" where
  "expr_entries s = set (hash_for_each (expr_hashtable s))"

definition expr_matches :: "expr_state \<Rightarrow> enode \<Rightarrow> nat \<Rightarrow> bool" where
  "expr_matches s n e \<longleftrightarrow> nodes s e = n"

definition expr_ok :: "(eref \<Rightarrow> 64 word) \<Rightarrow> expr_state \<Rightarrow> bool" where
  "expr_ok addr s \<longleftrightarrow> placed (\<lambda>e. node_hash addr (nodes s e)) (expr_hashtable s)
     \<and> expr_entries s = {..< next_expr s} \<and> inj_on (nodes s) (expr_entries s)"

lemma expr_find:
  assumes "expr_ok addr s"
  shows "find (\<lambda>e. nodes s e = n) (hash_possible (expr_hashtable s) (node_hash addr n)) = None
    \<longleftrightarrow> (\<forall>e \<in> expr_entries s. nodes s e \<noteq> n)"
  unfolding expr_entries_def
  by (rule placed_find [where h = "\<lambda>e. node_hash addr (nodes s e)"]) (use assms in \<open>auto simp: expr_ok_def\<close>)

lemma expr_find_entry:
  assumes "expr_ok addr s" "find P (hash_possible (expr_hashtable s) h) = Some e"
  shows "e \<in> expr_entries s \<and> P e"
  using assms placed_possible [of "\<lambda>e. node_hash addr (nodes s e)" "expr_hashtable s" e h]
  by (auto simp: expr_ok_def expr_entries_def dest: find_SomeD)

lemma expr_lookup_cases [consumes 2, case_names hit new]:
  assumes "expr_ok addr s" "expr_lookup addr n s = (e, s')"
  obtains "s' = s" "e \<in> expr_entries s" "nodes s e = n"
    | "\<forall>i \<in> expr_entries s. nodes s i \<noteq> n" "expr_ok addr s'" "expr_entries s' = insert e (expr_entries s)"
      "e = next_expr s" "nodes s' = (nodes s)(e := n)"
proof (cases "find (\<lambda>e. nodes s e = n) (hash_possible (expr_hashtable s) (node_hash addr n))")
  case (Some i)
  with assms expr_find_entry [OF assms(1) Some] that(1) show thesis
    by (auto simp: expr_lookup_def node_fields)
next
  case None
  let ?s = "\<lparr>nodes = (nodes s)(next_expr s := n),
      expr_hashtable = hash_add (next_expr s) (node_hash addr n) (expr_hashtable s), next_expr = Suc (next_expr s)\<rparr>"
  have s': "s' = ?s" "e = next_expr s" using assms(2) None by (auto simp: expr_lookup_def node_fields)
  have f: "\<forall>i \<in> expr_entries s. nodes s i \<noteq> n" using None expr_find [OF assms(1)] by simp
  have ne: "expr_hashtable s \<noteq> []" and es: "expr_entries s = {..< next_expr s}"
    using assms(1) by (auto simp: expr_ok_def placed_def)
  have ent: "expr_entries ?s = insert (next_expr s) (expr_entries s)"
    by (simp add: expr_entries_def set_hash_add [OF ne])
  have "placed (\<lambda>e. node_hash addr (nodes ?s e)) (expr_hashtable s)"
    using assms(1) es placed_cong [of "expr_hashtable s" "\<lambda>e. node_hash addr (nodes ?s e)" "\<lambda>e. node_hash addr (nodes s e)"]
    by (auto simp: expr_ok_def expr_entries_def)
  from placed_add [OF this, of "next_expr s"] have "placed (\<lambda>e. node_hash addr (nodes ?s e)) (expr_hashtable ?s)" by simp
  moreover have "inj_on (nodes ?s) (expr_entries ?s)"
    using assms(1) f unfolding ent by (auto simp: expr_ok_def inj_on_def)
  ultimately have "expr_ok addr ?s" using ent es by (auto simp: expr_ok_def lessThan_Suc)
  with f ent show thesis by (intro that(2)) (simp_all add: s')
qed

interpretation exprs: interning "expr_ok addr" expr_entries "\<lambda>_. True" expr_matches "expr_lookup addr" for addr
proof (standard, goal_cases)
  case (1 s k x s')
  from 1(1,3) show ?case by (cases rule: expr_lookup_cases) (use 1 in auto)
next
  case (2 s k x s')
  from 2(1,3) show ?case by (cases rule: expr_lookup_cases) (auto simp: expr_matches_def)
next
  case (3 s k x s' y)
  from 3(1,3) show ?case by (cases rule: expr_lookup_cases) (use 3 in \<open>auto simp: expr_matches_def\<close>)
next
  case (4 s k x s' y)
  from 4(1,3) show ?case by (cases rule: expr_lookup_cases) (use 4 in \<open>auto simp: expr_matches_def expr_ok_def\<close>)
next
  case (5 s x y k)
  then show ?case by (auto simp: expr_ok_def expr_matches_def inj_on_def)
qed (simp add: expr_matches_def)

section \<open>Nodes and trees\<close>

text \<open>
  The tree below a node. Nodes point only to older ones; a node that does not is given some
  tree, so that the function is total.
\<close>

function tree_of :: "(nat \<Rightarrow> enode) \<Rightarrow> nat \<Rightarrow> expr" where
  "tree_of nd i =
     (case nd i of
        N_SYMBOL a \<Rightarrow> E_SYMBOL a
      | N_NOT l \<Rightarrow> if l < i then E_NOT (tree_of nd l) else E_SYMBOL symbol_no
      | N_BIN t l r \<Rightarrow> if l < i \<and> r < i then E_BIN t (tree_of nd l) (tree_of nd r) else E_SYMBOL symbol_no
      | N_COMP t a b \<Rightarrow> E_COMP t a b
      | N_RANGE a b \<Rightarrow> E_SYMBOL symbol_no)"
  by pat_completeness auto

termination tree_of
  by (relation "measure snd") auto

declare tree_of.simps [simp del]

definition older :: "(nat \<Rightarrow> enode) \<Rightarrow> nat \<Rightarrow> bool" where
  "older nd i \<longleftrightarrow>
     (case nd i of N_NOT l \<Rightarrow> l < i | N_BIN t l r \<Rightarrow> l < i \<and> r < i | N_RANGE a b \<Rightarrow> False | _ \<Rightarrow> True)"

lemma tree_of_inj:
  assumes "inj_on nd {..< n}" "\<forall>i < n. older nd i"
  shows "i < n \<Longrightarrow> j < n \<Longrightarrow> tree_of nd i = tree_of nd j \<Longrightarrow> i = j"
proof (induction i arbitrary: j rule: less_induct)
  case (less i)
  have o: "older nd i" "older nd j" using assms(2) less.prems by auto
  have IH: "k = l" if "k < i" "l < j" "tree_of nd k = tree_of nd l" for k l
    using less.IH [OF that(1) _ _ that(3)] that less.prems by simp
  have "nd i = nd j"
    using less.prems(3) o IH
    by (subst (asm) tree_of.simps, subst (asm) tree_of.simps)
       (auto simp: older_def split: enode.splits)
  with assms(1) less.prems show ?case by (auto simp: inj_on_def)
qed

text \<open>The invariant of the nodes, for the expressions that are trees.\<close>

definition expr_wf :: "(eref \<Rightarrow> 64 word) \<Rightarrow> expr_state \<Rightarrow> bool" where
  "expr_wf addr s \<longleftrightarrow> expr_ok addr s \<and> (\<forall>i < next_expr s. older (nodes s) i)"

definition node_fits :: "expr_state \<Rightarrow> enode \<Rightarrow> bool" where
  "node_fits s n \<longleftrightarrow>
     (case n of N_NOT l \<Rightarrow> l < next_expr s | N_BIN t l r \<Rightarrow> l < next_expr s \<and> r < next_expr s
      | N_RANGE a b \<Rightarrow> False | _ \<Rightarrow> True)"

lemma tree_of_cong: "(\<And>j. j \<le> i \<Longrightarrow> nd j = nd' j) \<Longrightarrow> tree_of nd i = tree_of nd' i"
proof (induction i rule: less_induct)
  case (less i)
  then have "nd i = nd' i" "\<And>j. j < i \<Longrightarrow> tree_of nd j = tree_of nd' j" by auto
  then show ?case
    by (subst (1 2) tree_of.simps) (auto split: enode.split)
qed

lemma expr_lookup_wf:
  assumes "expr_wf addr s" "node_fits s n" "expr_lookup addr n s = (e, s')"
  shows "expr_wf addr s' \<and> e < next_expr s' \<and> nodes s' e = n
    \<and> (\<forall>i < next_expr s. i < next_expr s' \<and> tree_of (nodes s') i = tree_of (nodes s) i)"
proof -
  have ok: "expr_ok addr s" and es: "expr_entries s = {..< next_expr s}"
    using assms(1) by (auto simp: expr_wf_def expr_ok_def)
  from ok assms(3) show ?thesis
  proof (cases rule: expr_lookup_cases)
    case hit
    then show ?thesis using assms(1) es by simp
  next
    case new
    have "expr_entries s' = {..< next_expr s'}" using new(2) by (simp add: expr_ok_def)
    with new es have nx: "next_expr s' = Suc (next_expr s)"
      by (metis lessThan_Suc lessThan_eq_iff)
    have "older (nodes s') i" if "i < next_expr s'" for i
      using that assms(1,2) new(4,5) nx
      by (cases "i = e") (auto simp: expr_wf_def older_def node_fits_def split: enode.splits)
    moreover have "tree_of (nodes s') i = tree_of (nodes s) i" if "i < next_expr s" for i
      using that new(4,5) by (intro tree_of_cong) auto
    ultimately show ?thesis using new nx by (simp add: expr_wf_def)
  qed
qed

end
