(* ===== verification/ConfText.thy ===== *)
theory ConfText
  imports SymSet
begin

text \<open>
  The text of configuration files, \<^verbatim>\<open>parser/confdata.c\<close>: how the value of a symbol is printed
  for \<^verbatim>\<open>.config\<close>, \<^verbatim>\<open>auto.conf\<close>, the C header and the Rust flags, how a line of a
  configuration file is read, and how its value is stored. The round trip of the two is in the
  last section.
\<close>

section \<open>Escaping\<close>

text \<open>\<open>strcspn\<close>/\<open>strpbrk\<close> with the set of a quote and a backslash.\<close>

abbreviation quote :: char where "quote \<equiv> CHR 0x22"
abbreviation backslash :: char where "backslash \<equiv> CHR 0x5C"

definition special :: "char \<Rightarrow> bool" where
  "special c \<longleftrightarrow> c = quote \<or> c = backslash"

text \<open>The copying loop of \<open>escape_string_value\<close>.\<close>

function escape_loop :: "string \<Rightarrow> string" where
  "escape_loop p =
     (let out = takeWhile (\<lambda>c. \<not> special c) p in
      case dropWhile (\<lambda>c. \<not> special c) p of
        [] \<Rightarrow> out
      | c # p \<Rightarrow> out @ backslash # c # escape_loop p)"
  by pat_completeness auto

lemma dropWhile_length: "dropWhile P p = c # q \<Longrightarrow> length q < length p"
  using length_dropWhile_le [of P p] by simp

termination escape_loop
  by (relation "measure length") (simp_all add: dropWhile_length)

declare escape_loop.simps [simp del]

definition escape_string_value :: "string \<Rightarrow> string" where
  "escape_string_value in_text = quote # escape_loop in_text @ [quote]"

text \<open>
  The loop of \<open>conf_set_sym_val\<close> over a string after its opening quote: a quote ends it, a
  backslash is removed and the character after it kept, whatever it is. A backslash at the end
  is removed with nothing kept, and the search ends on the terminator. \<open>None\<close> when the closing
  quote is missing.
\<close>

fun unescape :: "string \<Rightarrow> string option" where
  "unescape [] = None"
| "unescape (c # p) =
     (if c = quote then Some []
      else if c = backslash then
        (case p of
           [] \<Rightarrow> None
         | d # p \<Rightarrow> map_option ((#) d) (unescape p))
      else map_option ((#) c) (unescape p))"

section \<open>Printing\<close>

text \<open>\<open>CONFIG_prefix\<close>: the environment may replace the prefix of the names.\<close>

definition CONFIG_prefix :: "(string \<Rightarrow> string option) \<Rightarrow> string" where
  "CONFIG_prefix env = (case env ''CONFIG_'' of None \<Rightarrow> ''CONFIG_'' | Some p \<Rightarrow> p)"

datatype output_n = OUTPUT_N | OUTPUT_N_AS_UNSET | OUTPUT_N_NONE

text \<open>\<open>sym->name\<close> as an argument of \<open>fprintf\<close>.\<close>

definition name_text :: "symbol \<Rightarrow> string" where
  "name_text y = (case s_name y of None \<Rightarrow> ''(null)'' | Some t \<Rightarrow> t)"

text \<open>Each function gives what it writes to the file; \<open>cfg\<close> is the prefix.\<close>

definition print_symbol :: "string \<Rightarrow> symbol \<Rightarrow> output_n \<Rightarrow> bool \<Rightarrow> string" where
  "print_symbol cfg y on escape_string =
     (if s_type y = S_UNKNOWN then ''''
      else
        let v = str_of (sym_get_string_value y) in
        if (s_type y = S_BOOLEAN \<or> s_type y = S_TRISTATE) \<and> on \<noteq> OUTPUT_N \<and> char_at v 0 = CHR ''n'' then
          (if on = OUTPUT_N_AS_UNSET then ''# '' @ cfg @ name_text y @ '' is not set\<newline>'' else '''')
        else
          let v = (if s_type y = S_STRING \<and> escape_string then escape_string_value v else v)
          in cfg @ name_text y @ ''='' @ v @ ''\<newline>'')"

definition print_symbol_for_dotconfig :: "string \<Rightarrow> symbol \<Rightarrow> string" where
  "print_symbol_for_dotconfig cfg y = print_symbol cfg y OUTPUT_N_AS_UNSET True"

definition print_symbol_for_autoconf :: "string \<Rightarrow> symbol \<Rightarrow> string" where
  "print_symbol_for_autoconf cfg y = print_symbol cfg y OUTPUT_N_NONE False"

definition print_symbol_for_listconfig :: "string \<Rightarrow> symbol \<Rightarrow> string" where
  "print_symbol_for_listconfig cfg y = print_symbol cfg y OUTPUT_N True"

definition hex_prefix :: "string \<Rightarrow> string" where
  "hex_prefix v =
     (if char_at v 0 \<noteq> CHR ''0'' \<or> (char_at v 1 \<noteq> CHR ''x'' \<and> char_at v 1 \<noteq> CHR ''X'') then ''0x'' else '''')"

definition print_symbol_for_c :: "string \<Rightarrow> symbol \<Rightarrow> string" where
  "print_symbol_for_c cfg y =
     (let v = str_of (sym_get_string_value y);
          line = (\<lambda>suffix pre v. ''#define '' @ cfg @ name_text y @ suffix @ '' '' @ pre @ v @ ''\<newline>'')
      in case s_type y of
           S_UNKNOWN \<Rightarrow> ''''
         | S_HEX \<Rightarrow> line '''' (hex_prefix v) v
         | S_STRING \<Rightarrow> line '''' '''' (escape_string_value v)
         | S_INT \<Rightarrow> line '''' '''' v
         | _ \<Rightarrow> (if char_at v 0 = CHR ''n'' then ''''
                 else if char_at v 0 = CHR ''m'' then line ''_MODULE'' '''' ''1''
                 else line '''' '''' ''1''))"

definition print_symbol_for_rustccfg :: "string \<Rightarrow> symbol \<Rightarrow> string" where
  "print_symbol_for_rustccfg cfg y =
     (let v = str_of (sym_get_string_value y);
          flag = ''--cfg='' @ cfg @ name_text y;
          line = (\<lambda>v. flag @ ''='' @ escape_string_value v @ ''\<newline>'')
      in case s_type y of
           S_UNKNOWN \<Rightarrow> ''''
         | S_HEX \<Rightarrow> line (hex_prefix v @ v)
         | S_STRING \<Rightarrow> line v
         | S_INT \<Rightarrow> line v
         | _ \<Rightarrow> (if char_at v 0 = CHR ''n'' then '''' else flag @ ''\<newline>'' @ line v))"

section \<open>Reading a line\<close>

text \<open>
  What a line, without its newline, asks for: nothing, a warning, or a value for a name. The
  end of the buffer differs from every character of the prefix, so the comparison with it is
  the test for a prefix.
\<close>

datatype conf_line = Skip_line | Unexpected_data | Assign string string

fun strip_prefix :: "string \<Rightarrow> string \<Rightarrow> string option" where
  "strip_prefix [] s = Some s"
| "strip_prefix (c # cs) [] = None"
| "strip_prefix (c # cs) (d # ds) = (if c = d then strip_prefix cs ds else None)"

definition conf_read_line :: "string \<Rightarrow> string \<Rightarrow> conf_line" where
  "conf_read_line cfg line =
     (if line = [] then Skip_line
      else if char_at line 0 = CHR ''#'' then
        (if char_at line 1 \<noteq> CHR '' '' then Skip_line
         else case strip_prefix cfg (drop 2 line) of
           None \<Rightarrow> Skip_line
         | Some sym_name \<Rightarrow>
             (case split_at (CHR '' '') sym_name of
                None \<Rightarrow> Skip_line
              | Some (sym_name, p) \<Rightarrow>
                  (if strcmp p ''is not set'' \<noteq> 0 then Skip_line else Assign sym_name ''n'')))
      else
        (case strip_prefix cfg line of
           None \<Rightarrow> Unexpected_data
         | Some sym_name \<Rightarrow>
             (case split_at (CHR ''='') sym_name of
                None \<Rightarrow> Unexpected_data
              | Some (sym_name, v) \<Rightarrow> Assign sym_name v)))"

text \<open>The switch of \<open>conf_set_sym_val\<close>: what it stores, or the message it gives.\<close>

datatype set_result = Set_nothing | Set_tri tristate | Set_text string | Bad_value string | Bad_string

definition sym_val_of_text :: "symbol \<Rightarrow> sdef_index \<Rightarrow> string \<Rightarrow> set_result" where
  "sym_val_of_text y d p =
     (let text = (\<lambda>p. if sym_string_valid y p then Set_text p else Bad_value p);
          bool = (if char_at p 0 = CHR ''y'' then Set_tri tri_yes
                  else if char_at p 0 = CHR ''n'' then Set_tri tri_no
                  else Bad_value p)
      in case s_type y of
           S_TRISTATE \<Rightarrow> (if char_at p 0 = CHR ''m'' then Set_tri tri_mod else bool)
         | S_BOOLEAN \<Rightarrow> bool
         | S_STRING \<Rightarrow>
             (if d = S_DEF_AUTO then text p
              else if char_at p 0 \<noteq> quote then Set_nothing
              else case unescape (tl p) of None \<Rightarrow> Bad_string | Some p \<Rightarrow> text p)
         | S_INT \<Rightarrow> text p
         | S_HEX \<Rightarrow> text p
         | S_UNKNOWN \<Rightarrow> Set_nothing)"

section \<open>The round trip\<close>

lemma takeWhile_dropWhile_special:
  "dropWhile (\<lambda>c. \<not> special c) p = c # q \<Longrightarrow> p = takeWhile (\<lambda>c. \<not> special c) p @ c # q"
  using takeWhile_dropWhile_id [of "\<lambda>c. \<not> special c" p] by simp

lemma unescape_plain: "\<forall>c \<in> set a. \<not> special c \<Longrightarrow> unescape (a @ p) = map_option ((@) a) (unescape p)"
proof (induction a)
  case (Cons c a)
  then have "c \<noteq> quote" "c \<noteq> backslash" by (auto simp: special_def)
  with Cons show ?case by (simp add: option.map_comp comp_def)
qed (cases "unescape p"; simp)

lemma unescape_special: "special c \<Longrightarrow> unescape (backslash # c # p) = map_option ((#) c) (unescape p)"
  by simp

lemma unescape_escape_loop: "unescape (escape_loop p @ [quote]) = Some p"
proof (induction p rule: escape_loop.induct)
  case (1 p)
  let ?out = "takeWhile (\<lambda>c. \<not> special c) p"
  have out: "\<forall>c \<in> set ?out. \<not> special c" by (auto dest: set_takeWhileD)
  show ?case
  proof (cases "dropWhile (\<lambda>c. \<not> special c) p")
    case Nil
    then have "?out = p" by (metis append_Nil2 takeWhile_dropWhile_id)
    then have "escape_loop p = p" by (simp only: escape_loop.simps [of p] Nil Let_def list.case)
    with out \<open>?out = p\<close> show ?thesis by (simp add: unescape_plain)
  next
    case (Cons c q)
    then have p: "p = ?out @ c # q" by (rule takeWhile_dropWhile_special)
    have "unescape (escape_loop p @ [quote]) = map_option ((@) ?out) (map_option ((#) c) (unescape (escape_loop q @ [quote])))"
      by (subst escape_loop.simps) (simp add: Cons unescape_plain [OF out] Let_def)
    also have "\<dots> = Some (?out @ c # q)"
      using 1 [OF refl Cons] by simp
    finally show ?thesis using p by simp
  qed
qed

text \<open>Escaping is undone by reading: the closing quote found is the one that was put there.\<close>

lemma unescape_escape: "unescape (tl (escape_string_value p)) = Some p"
  by (simp add: escape_string_value_def unescape_escape_loop)

lemma strip_prefix_append [simp]: "strip_prefix p (p @ s) = Some s"
  by (induction p) simp_all

text \<open>
  The symbols whose line can be read back: the prefix does not start a comment, the name holds
  no separator, and the value is one of the type.
\<close>

definition printable_name :: "string \<Rightarrow> string \<Rightarrow> bool" where
  "printable_name cfg nm \<longleftrightarrow> cfg \<noteq> [] \<and> hd cfg \<noteq> CHR ''#'' \<and> CHR '' '' \<notin> set nm \<and> CHR ''='' \<notin> set nm
     \<and> CHR ''\<newline>'' \<notin> set cfg \<and> CHR ''\<newline>'' \<notin> set nm"

definition printable_value :: "symbol \<Rightarrow> bool" where
  "printable_value y \<longleftrightarrow>
     (case s_type y of
        S_BOOLEAN \<Rightarrow> tri (curr y) \<noteq> tri_mod
      | S_TRISTATE \<Rightarrow> True
      | S_UNKNOWN \<Rightarrow> False
      | S_STRING \<Rightarrow> CHR ''\<newline>'' \<notin> set (str_of (val (curr y)))
      | _ \<Rightarrow> sym_string_valid y (str_of (val (curr y))))"

definition saved_value :: "symbol \<Rightarrow> set_result" where
  "saved_value y =
     (if s_type y = S_BOOLEAN \<or> s_type y = S_TRISTATE then Set_tri (tri (curr y))
      else Set_text (str_of (val (curr y))))"

lemma escape_loop_set: "CHR ''\<newline>'' \<in> set (escape_loop p) \<Longrightarrow> CHR ''\<newline>'' \<in> set p"
proof (induction p rule: escape_loop.induct)
  case (1 p)
  show ?case
  proof (cases "dropWhile (\<lambda>c. \<not> special c) p")
    case Nil
    then show ?thesis using 1(2) by (simp only: escape_loop.simps [of p] Nil Let_def list.case) (auto dest: set_takeWhileD)
  next
    case (Cons c q)
    then have "set q \<subseteq> set p" "c \<in> set p" by (metis set_dropWhileD list.set_intros(1,2) subsetI)+
    moreover have "CHR ''\<newline>'' \<in> set (takeWhile (\<lambda>c. \<not> special c) p @ backslash # c # escape_loop q)"
      using 1(2) by (subst (asm) escape_loop.simps) (simp add: Cons Let_def)
    ultimately show ?thesis using 1(1) [OF refl Cons] by (auto dest: set_takeWhileD)
  qed
qed

lemma xdigit_no_newline: "\<not> isdigit (CHR ''\<newline>'')" "\<not> isxdigit (CHR ''\<newline>'')"
  by (simp_all add: isdigit_def isxdigit_def)

lemma digits_no_newline: "list_all isdigit ds \<Longrightarrow> CHR ''\<newline>'' \<notin> set ds"
  using xdigit_no_newline by (auto simp: list_all_iff)

lemma valid_text_no_newline:
  assumes "sym_string_valid y t" "s_type y = S_INT \<or> s_type y = S_HEX"
  shows "CHR ''\<newline>'' \<notin> set t"
proof (cases "s_type y = S_INT")
  case True
  then have "decimal t \<or> (\<exists>ds. t = CHR ''-'' # ds \<and> decimal ds)"
    using assms(1) by (simp add: sym_string_valid_def int_string_valid_iff)
  then show ?thesis by (auto simp: decimal_def dest: digits_no_newline)
next
  case False
  then have "hex_string_valid t" using assms by (simp add: sym_string_valid_def)
  moreover have "t = take 2 t @ drop 2 t" by simp
  ultimately have "isxdigit (char_at d 0) \<and> list_all isxdigit (tl d) \<Longrightarrow> CHR ''\<newline>'' \<notin> set d" for d
    by (cases d) (auto simp: char_at_def list_all_iff xdigit_no_newline)
  moreover have "CHR ''\<newline>'' \<in> set t \<Longrightarrow> char_at t 0 = CHR ''0'' \<Longrightarrow> char_at t 1 \<noteq> CHR ''\<newline>'' \<Longrightarrow>
      CHR ''\<newline>'' \<in> set (drop 2 t)"
    by (cases t rule: remdups_adj.cases) (auto simp: char_at_def)
  ultimately show ?thesis using \<open>hex_string_valid t\<close>
    by (auto simp: hex_string_valid_def Let_def split: if_splits)
qed

lemma tristate_text_simps:
  "char_at (tristate_text v) 0 = (case v of tri_no \<Rightarrow> CHR ''n'' | tri_mod \<Rightarrow> CHR ''m'' | tri_yes \<Rightarrow> CHR ''y'')"
  "tristate_text tri_no = ''n''" "tristate_text tri_mod = ''m''" "tristate_text tri_yes = ''y''"
  by (cases v) (simp_all add: tristate_text_def char_at_def)

lemma conf_read_line_assign:
  assumes "printable_name cfg nm"
  shows "conf_read_line cfg (cfg @ nm @ ''='' @ v) = Assign nm v"
    and "conf_read_line cfg (''# '' @ cfg @ nm @ '' is not set'') = Assign nm ''n''"
proof -
  obtain c cs where "cfg = c # cs" "c \<noteq> CHR ''#''" using assms by (cases cfg) (auto simp: printable_name_def)
  moreover have "strip_prefix cfg (cfg @ nm @ ''='' @ v) = Some (nm @ ''='' @ v)"
    "strip_prefix cfg (cfg @ nm @ '' is not set'') = Some (nm @ '' is not set'')" by simp_all
  ultimately show "conf_read_line cfg (cfg @ nm @ ''='' @ v) = Assign nm v"
    and "conf_read_line cfg (''# '' @ cfg @ nm @ '' is not set'') = Assign nm ''n''"
    using assms split_at_append [of "CHR ''=''" nm v] split_at_append [of "CHR '' ''" nm "''is not set''"]
    by (simp_all add: conf_read_line_def char_at_def printable_name_def)
qed

theorem dotconfig_line_round_trip:
  assumes "s_name y = Some nm" "printable_name cfg nm" "printable_value y"
  obtains line v where "print_symbol_for_dotconfig cfg y = line @ ''\<newline>''" "CHR ''\<newline>'' \<notin> set line"
    "conf_read_line cfg line = Assign nm v" "sym_val_of_text y S_DEF_USER v = saved_value y"
proof -
  let ?t = "str_of (val (curr y))"
  note read = conf_read_line_assign [OF assms(2)]
  note defs = print_symbol_for_dotconfig_def print_symbol_def name_text_def assms(1) sym_val_of_text_def saved_value_def
  have nl: "CHR ''\<newline>'' \<notin> set cfg" "CHR ''\<newline>'' \<notin> set nm" using assms(2) by (simp_all add: printable_name_def)
  consider (tristate) "s_type y = S_BOOLEAN \<or> s_type y = S_TRISTATE" | (str) "s_type y = S_STRING"
    | (number) "s_type y = S_INT \<or> s_type y = S_HEX"
    using assms(3) by (cases "s_type y") (auto simp: printable_value_def)
  then show thesis
  proof cases
    case tristate
    then have v: "str_of (sym_get_string_value y) = tristate_text (tri (curr y))" by (simp add: string_value_bool)
    show ?thesis
    proof (cases "tri (curr y) = tri_no")
      case True
      then show ?thesis using tristate nl
        by (intro that [OF _ _ read(2)]) (auto simp: defs v tristate_text_simps char_at_def)
    next
      case False
      then show ?thesis using tristate nl assms(3)
        by (intro that [OF _ _ read(1) [of "tristate_text (tri (curr y))"]]; cases "tri (curr y)")
           (auto simp: defs v tristate_text_simps char_at_def printable_value_def)
    qed
  next
    case str
    have "sym_val_of_text y S_DEF_USER (escape_string_value ?t) = saved_value y"
      using str unescape_escape [of ?t]
      by (simp add: defs char_at_def sym_string_valid_def escape_string_value_def)
    with str nl assms(3) show ?thesis
      by (intro that [OF _ _ read(1) [of "escape_string_value ?t"]])
         (auto simp: defs sym_get_string_value_def escape_string_value_def printable_value_def dest: escape_loop_set)
  next
    case number
    with assms(3) have ok: "sym_string_valid y ?t" by (auto simp: printable_value_def)
    from valid_text_no_newline [OF this number] number ok nl show ?thesis
      by (intro that [OF _ _ read(1) [of ?t]]) (auto simp: defs sym_get_string_value_def)
  qed
qed

end
