(* ===== verification/SymDeps.thy ===== *)
theory SymDeps
  imports ConfText
begin

text \<open>
  The check for recursive dependencies, \<open>sym_check_deps\<close> in \<^verbatim>\<open>parser/symbol.c\<close>: a depth-first
  search over the symbols an expression of a symbol mentions, with \<open>SYMBOL_CHECK\<close> on the
  symbols being searched and \<open>SYMBOL_CHECKED\<close> on all that were reached, and a stack of what led
  to the current symbol, from which the cycle is printed. The members of a choice are searched
  together with it.

  The functions take \<open>sym_check_deps\<close> as a parameter \<open>chk\<close>; the recursion is closed with fuel.
  \<open>None\<close> is also the outcome of taking the first element of an empty list.
\<close>

section \<open>The stack\<close>

text \<open>What \<open>stack->expr\<close> points to.\<close>

datatype expr_slot = Slot_none | Slot_dir_dep | Slot_rev_dep | Slot_implied | Slot_prop_expr

record dep_stack =
  d_sym :: sid
  d_prop :: "pid option"
  d_expr :: expr_slot

text \<open>The stack with its top first.\<close>

record chk_state =
  ck :: kstate
  check_stack :: "dep_stack list"

type_synonym chk = "sid \<Rightarrow> chk_state \<Rightarrow> (sid option \<times> chk_state) option"

definition dep_stack_insert :: "sid \<Rightarrow> chk_state \<Rightarrow> chk_state" where
  "dep_stack_insert a s = s\<lparr>check_stack := \<lparr>d_sym = a, d_prop = None, d_expr = Slot_none\<rparr> # check_stack s\<rparr>"

definition dep_stack_remove :: "chk_state \<Rightarrow> chk_state" where
  "dep_stack_remove s = s\<lparr>check_stack := tl (check_stack s)\<rparr>"

definition upd_top :: "(dep_stack \<Rightarrow> dep_stack) \<Rightarrow> chk_state \<Rightarrow> chk_state" where
  "upd_top f s = (case check_stack s of [] \<Rightarrow> s | d # ds \<Rightarrow> s\<lparr>check_stack := f d # ds\<rparr>)"

definition chk_print :: "string \<Rightarrow> chk_state \<Rightarrow> chk_state" where
  "chk_print t s = s\<lparr>ck := (ck s)\<lparr>stderr_out := stderr_out (ck s) @ t\<rparr>\<rparr>"

section \<open>The message\<close>

fun prop_get_type_name :: "prop_type \<Rightarrow> string" where
  "prop_get_type_name P_PROMPT = ''prompt''"
| "prop_get_type_name P_COMMENT = ''comment''"
| "prop_get_type_name P_MENU = ''menu''"
| "prop_get_type_name P_DEFAULT = ''default''"
| "prop_get_type_name P_SELECT = ''select''"
| "prop_get_type_name P_IMPLY = ''imply''"
| "prop_get_type_name P_RANGE = ''range''"
| "prop_get_type_name P_UNKNOWN = ''unknown''"

definition choice_text :: "symbol \<Rightarrow> string" where
  "choice_text y = (case s_name y of None \<Rightarrow> ''<choice>'' | Some t \<Rightarrow> t)"

text \<open>The line for one entry of the stack, \<open>next_sym\<close> being the symbol of the next one.\<close>

definition recursion_line :: "kstate \<Rightarrow> dep_stack \<Rightarrow> sid \<Rightarrow> string option" where
  "recursion_line k st next_sym =
     (let y = syms k (d_sym st); ny = syms k next_sym;
          ty = (case d_prop st of None \<Rightarrow> P_UNKNOWN | Some p \<Rightarrow> p_type (props k p));
          tab = CHR 0x09
      in if sym_is_choice ny then
           (case s_menus ny of
              [] \<Rightarrow> None
            | c # _ \<Rightarrow> Some (tab # ''symbol '' @ choice_text y @ '' is part of choice block at ''
                @ m_filename (menus k c) @ '':'' @ int_text (m_lineno (menus k c)) @ ''\<newline>''))
         else Some (case d_expr st of
             Slot_dir_dep \<Rightarrow> tab # ''symbol '' @ choice_text y @ '' depends on '' @ name_text ny @ ''\<newline>''
           | Slot_rev_dep \<Rightarrow> tab # ''symbol '' @ name_text y @ '' is selected by '' @ name_text ny @ ''\<newline>''
           | Slot_implied \<Rightarrow> tab # ''symbol '' @ name_text y @ '' is implied by '' @ name_text ny @ ''\<newline>''
           | Slot_prop_expr \<Rightarrow> tab # ''symbol '' @ choice_text y @ '' '' @ prop_get_type_name ty
               @ '' value contains '' @ name_text ny @ ''\<newline>''
           | Slot_none \<Rightarrow> tab # ''symbol '' @ choice_text y @ '' '' @ prop_get_type_name ty
               @ '' is visible depending on '' @ name_text ny @ ''\<newline>''))"

text \<open>The loop from the entry of \<open>last_sym\<close> up to the top.\<close>

fun print_recursion :: "sid \<Rightarrow> dep_stack list \<Rightarrow> chk_state \<Rightarrow> chk_state option" where
  "print_recursion last_sym [] s = Some s"
| "print_recursion last_sym (st # sts) s = do {
     let next_sym = (case sts of [] \<Rightarrow> last_sym | st' # _ \<Rightarrow> d_sym st');
     let s = (if d_sym st = last_sym then chk_print ''error: recursive dependency detected!\<newline>'' s else s);
     line \<leftarrow> recursion_line (ck s) st next_sym;
     print_recursion last_sym sts (chk_print line s)
   }"

text \<open>
  \<open>sym_check_print_recursive\<close>. When the symbol is not on the stack the entry that was pushed for
  a choice stays on it.
\<close>

definition sym_check_print_recursive :: "sid \<Rightarrow> chk_state \<Rightarrow> chk_state option" where
  "sym_check_print_recursive last_sym s = do {
     choice \<leftarrow> sym_get_choice_menu (syms (ck s)) (menus (ck s)) (syms (ck s) last_sym);
     (last_sym, s) \<leftarrow> (case choice of
         None \<Rightarrow> Some (last_sym, s)
       | Some c \<Rightarrow> do {
           a \<leftarrow> m_sym (menus (ck s) c);
           Some (a, dep_stack_insert last_sym s)
         });
     let above = takeWhile (\<lambda>d. d_sym d \<noteq> last_sym) (check_stack s);
     case dropWhile (\<lambda>d. d_sym d \<noteq> last_sym) (check_stack s) of
       [] \<Rightarrow> Some (chk_print ''unexpected recursive dependency error\<newline>'' s)
     | st # _ \<Rightarrow> do {
         s \<leftarrow> print_recursion last_sym (st # rev above) s;
         let s = chk_print (''For a resolution refer to Documentation/kbuild/kconfig-language.rst\<newline>''
             @ ''subsection \"Kconfig recursive dependency limitations\"\<newline>\<newline>'') s;
         Some (if choice \<noteq> None then dep_stack_remove s else s)
       }
   }"

section \<open>The search\<close>

text \<open>\<open>sym2 = f(...); if (sym2) return sym2; ...\<close>\<close>

definition or_else :: "(sid option \<times> chk_state) option \<Rightarrow> (chk_state \<Rightarrow> (sid option \<times> chk_state) option)
    \<Rightarrow> (sid option \<times> chk_state) option" where
  "or_else m f = do { (r, s) \<leftarrow> m; if r \<noteq> None then Some (r, s) else f s }"

fun check_expr :: "chk \<Rightarrow> expr \<Rightarrow> chk_state \<Rightarrow> (sid option \<times> chk_state) option" where
  "check_expr chk (E_BIN t l r) s = or_else (check_expr chk l s) (check_expr chk r)"
| "check_expr chk (E_NOT e) s = check_expr chk e s"
| "check_expr chk (E_COMP t a b) s = or_else (chk a s) (chk b)"
| "check_expr chk (E_SYMBOL a) s = chk a s"

definition sym_check_expr_deps :: "chk \<Rightarrow> expr option \<Rightarrow> chk_state \<Rightarrow> (sid option \<times> chk_state) option" where
  "sym_check_expr_deps chk e s = (case e of None \<Rightarrow> Some (None, s) | Some e \<Rightarrow> check_expr chk e s)"

definition sym_check_prop_deps :: "chk \<Rightarrow> prop_expr \<Rightarrow> chk_state \<Rightarrow> (sid option \<times> chk_state) option" where
  "sym_check_prop_deps chk e s =
     (case e of
        P_NONE \<Rightarrow> Some (None, s)
      | P_EXPR e \<Rightarrow> check_expr chk e s
      | E_RANGE a b \<Rightarrow> Some (None, chk_print ''Oops! How to check 11?\<newline>'' s))"

text \<open>The three dependencies of the symbol, and the loop over its properties.\<close>

fun check_slots :: "chk \<Rightarrow> (expr_slot \<times> expr option) list \<Rightarrow> chk_state \<Rightarrow> (sid option \<times> chk_state) option" where
  "check_slots chk [] s = Some (None, s)"
| "check_slots chk ((slot, e) # es) s =
     or_else (sym_check_expr_deps chk e (upd_top (\<lambda>d. d\<lparr>d_expr := slot\<rparr>) s)) (check_slots chk es)"

fun check_props :: "chk \<Rightarrow> sid \<Rightarrow> pid list \<Rightarrow> chk_state \<Rightarrow> (sid option \<times> chk_state) option" where
  "check_props chk a [] s = Some (None, s)"
| "check_props chk a (p # ps) s =
     (let q = props (ck s) p in
      if p_type q = P_SELECT \<or> p_type q = P_IMPLY then check_props chk a ps s
      else
        or_else (sym_check_expr_deps chk (p_visible_expr q) (upd_top (\<lambda>d. d\<lparr>d_prop := Some p\<rparr>) s)) (\<lambda>s.
        if p_type q \<noteq> P_DEFAULT \<or> sym_is_choice (syms (ck s) a) then check_props chk a ps s
        else
          or_else (sym_check_prop_deps chk (p_expr q) (upd_top (\<lambda>d. d\<lparr>d_expr := Slot_prop_expr\<rparr>) s)) (\<lambda>s.
          check_props chk a ps (upd_top (\<lambda>d. d\<lparr>d_expr := Slot_none\<rparr>) s))))"

definition sym_check_sym_deps :: "chk \<Rightarrow> sid \<Rightarrow> chk_state \<Rightarrow> (sid option \<times> chk_state) option" where
  "sym_check_sym_deps chk a s = do {
     let y = syms (ck s) a;
     let s = dep_stack_insert a s;
     (sym2, s) \<leftarrow> or_else
         (check_slots chk [(Slot_dir_dep, dir_dep_expr y), (Slot_rev_dep, rev_dep_expr y), (Slot_implied, implied_expr y)] s)
         (\<lambda>s. check_props chk a (s_prop y) (upd_top (\<lambda>d. d\<lparr>d_expr := Slot_none\<rparr>) s));
     Some (sym2, dep_stack_remove s)
   }"

definition chk_flags :: "(symbol \<Rightarrow> symbol) \<Rightarrow> sid \<Rightarrow> chk_state \<Rightarrow> chk_state" where
  "chk_flags f a s = s\<lparr>ck := upd_sym a f (ck s)\<rparr>"

fun flag_entries :: "(symbol \<Rightarrow> symbol) \<Rightarrow> mid list \<Rightarrow> chk_state \<Rightarrow> chk_state" where
  "flag_entries f [] s = s"
| "flag_entries f (m # ms) s =
     flag_entries f ms (case m_sym (menus (ck s) m) of None \<Rightarrow> s | Some a \<Rightarrow> chk_flags f a s)"

fun check_entries :: "chk \<Rightarrow> mid list \<Rightarrow> chk_state \<Rightarrow> (sid option \<times> chk_state) option" where
  "check_entries chk [] s = Some (None, s)"
| "check_entries chk (m # ms) s =
     (case m_sym (menus (ck s) m) of
        None \<Rightarrow> check_entries chk ms s
      | Some a \<Rightarrow> or_else (sym_check_sym_deps chk a s) (check_entries chk ms))"

definition sym_check_choice_deps :: "chk \<Rightarrow> sid \<Rightarrow> chk_state \<Rightarrow> (sid option \<times> chk_state) option" where
  "sym_check_choice_deps chk choice s = do {
     let s = dep_stack_insert choice s;
     choice_menu \<leftarrow> (case s_menus (syms (ck s) choice) of [] \<Rightarrow> None | m # _ \<Rightarrow> Some m);
     ms \<leftarrow> sub_entries (menus (ck s)) choice_menu;
     let s = flag_entries (add_flags {SYMBOL_CHECK, SYMBOL_CHECKED}) ms s;
     let s = chk_flags (add_flags {SYMBOL_CHECK, SYMBOL_CHECKED}) choice s;
     (sym2, s) \<leftarrow> sym_check_sym_deps chk choice s;
     let s = chk_flags (del_flags {SYMBOL_CHECK}) choice s;
     (sym2, s) \<leftarrow> (if sym2 \<noteq> None then Some (sym2, s) else check_entries chk ms s);
     let s = flag_entries (del_flags {SYMBOL_CHECK}) ms s;
     sym2 \<leftarrow> (case sym2 of
         None \<Rightarrow> Some None
       | Some a \<Rightarrow> do {
           c2 \<leftarrow> sym_get_choice_menu (syms (ck s)) (menus (ck s)) (syms (ck s) a);
           Some (if c2 = Some choice_menu then Some choice else Some a)
         });
     Some (sym2, dep_stack_remove s)
   }"

definition sym_check_deps_step :: "chk \<Rightarrow> chk" where
  "sym_check_deps_step chk a s =
     (if SYMBOL_CHECK \<in> s_flags (syms (ck s) a) then do {
        s \<leftarrow> sym_check_print_recursive a s;
        Some (Some a, s)
      }
      else if SYMBOL_CHECKED \<in> s_flags (syms (ck s) a) then Some (None, s)
      else do {
        choice \<leftarrow> sym_get_choice_menu (syms (ck s)) (menus (ck s)) (syms (ck s) a);
        case choice of
          Some c \<Rightarrow> do {
            b \<leftarrow> m_sym (menus (ck s) c);
            (sym2, s) \<leftarrow> chk b (dep_stack_insert a s);
            Some (sym2, dep_stack_remove s)
          }
        | None \<Rightarrow>
            (if sym_is_choice (syms (ck s) a) then sym_check_choice_deps chk a s
             else do {
               (sym2, s) \<leftarrow> sym_check_sym_deps chk a (chk_flags (add_flags {SYMBOL_CHECK, SYMBOL_CHECKED}) a s);
               Some (sym2, chk_flags (del_flags {SYMBOL_CHECK}) a s)
             })
      })"

fun sym_check_deps :: "nat \<Rightarrow> chk" where
  "sym_check_deps 0 a s = None"
| "sym_check_deps (Suc n) a s = sym_check_deps_step (sym_check_deps n) a s"

section \<open>What a successful search shows\<close>

text \<open>The symbols a symbol depends on: those the search visits from it.\<close>

definition prop_deps :: "symbol \<Rightarrow> property \<Rightarrow> sid set" where
  "prop_deps y q =
     (if p_type q = P_SELECT \<or> p_type q = P_IMPLY then {}
      else oexpr_syms (p_visible_expr q) \<union>
        (if p_type q \<noteq> P_DEFAULT \<or> sym_is_choice y then {}
         else case p_expr q of P_EXPR e \<Rightarrow> expr_syms e | _ \<Rightarrow> {}))"

definition sym_deps :: "kstate \<Rightarrow> sid \<Rightarrow> sid set" where
  "sym_deps k a =
     (let y = syms k a in
      oexpr_syms (dir_dep_expr y) \<union> oexpr_syms (rev_dep_expr y) \<union> oexpr_syms (implied_expr y)
      \<union> (\<Union>p \<in> set (s_prop y). prop_deps y (props k p)))"

text \<open>The members of a choice and the choice are one node of the search, the choice.\<close>

definition rep :: "kstate \<Rightarrow> sid \<Rightarrow> sid" where
  "rep k a =
     (case sym_get_choice_menu (syms k) (menus k) (syms k a) of
        Some (Some c) \<Rightarrow> (case m_sym (menus k c) of Some r \<Rightarrow> r | None \<Rightarrow> a)
      | _ \<Rightarrow> a)"

definition choices_ok :: "kstate \<Rightarrow> bool" where
  "choices_ok k \<longleftrightarrow>
     (\<forall>r. sym_is_choice (syms k r) \<longrightarrow> rep k r = r
        \<and> (\<forall>m ms. s_menus (syms k r) = m # ms \<longrightarrow>
             (\<forall>es. sub_entries (menus k) m = Some es \<longrightarrow> {a. rep k a = r} = insert r (set (entry_syms k es)))))
     \<and> (\<forall>a. \<forall>b \<in> sym_deps k a. \<not> sym_is_choice (syms k b))"

text \<open>The dependencies between the nodes of a set.\<close>

definition dep_edges :: "kstate \<Rightarrow> sid set \<Rightarrow> (sid \<times> sid) set" where
  "dep_edges k B = {(rep k a, rep k b) | a b. rep k a \<in> B \<and> b \<in> sym_deps k a}"

definition checked_ok :: "kstate \<Rightarrow> sid set \<Rightarrow> bool" where
  "checked_ok k B \<longleftrightarrow> (\<forall>a. rep k a \<in> B \<longrightarrow> rep k ` sym_deps k a \<subseteq> B) \<and> acyclic (dep_edges k B)"

lemma checked_ok_insert:
  assumes ok: "checked_ok k B" and r: "r \<notin> B" and d: "\<And>a. rep k a = r \<Longrightarrow> rep k ` sym_deps k a \<subseteq> B"
  shows "checked_ok k (insert r B)"
proof -
  let ?E = "dep_edges k (insert r B)"
  have new: "(x, y) \<in> ?E \<Longrightarrow> y \<in> B \<and> (x = r \<or> (x, y) \<in> dep_edges k B)" for x y
    using ok d unfolding dep_edges_def checked_ok_def by fastforce
  have inB: "(x, y) \<in> ?E\<^sup>+ \<Longrightarrow> y \<in> B \<and> (x \<in> B \<longrightarrow> (x, y) \<in> (dep_edges k B)\<^sup>+)" for x y
  proof (induction rule: trancl_induct)
    case (base y)
    with new r show ?case by blast
  next
    case (step y z)
    then show ?case using new [of y z] r by (auto intro: trancl_into_trancl)
  qed
  have "(x, x) \<notin> ?E\<^sup>+" for x
    using inB [of x x] ok by (auto simp: checked_ok_def acyclic_def)
  with ok d show ?thesis by (fastforce simp: checked_ok_def acyclic_def)
qed

text \<open>A search changes nothing but its two flags and the messages.\<close>

definition same_graph :: "kstate \<Rightarrow> kstate \<Rightarrow> bool" where
  "same_graph k k' \<longleftrightarrow> menus k' = menus k \<and> props k' = props k
     \<and> (\<forall>a. syms k' a = (syms k a)\<lparr>s_flags := s_flags (syms k' a)\<rparr>)"

lemma same_graph_syms:
  assumes "same_graph k k'"
  shows "s_name (syms k' a) = s_name (syms k a)" "s_menus (syms k' a) = s_menus (syms k a)"
    "s_prop (syms k' a) = s_prop (syms k a)" "dir_dep_expr (syms k' a) = dir_dep_expr (syms k a)"
    "rev_dep_expr (syms k' a) = rev_dep_expr (syms k a)" "implied_expr (syms k' a) = implied_expr (syms k a)"
    "sym_is_choice (syms k' a) = sym_is_choice (syms k a)"
proof -
  from assms have "syms k' a = (syms k a)\<lparr>s_flags := s_flags (syms k' a)\<rparr>" by (simp add: same_graph_def)
  then obtain F where "syms k' a = (syms k a)\<lparr>s_flags := F\<rparr>" ..
  then show "s_name (syms k' a) = s_name (syms k a)" "s_menus (syms k' a) = s_menus (syms k a)"
    "s_prop (syms k' a) = s_prop (syms k a)" "dir_dep_expr (syms k' a) = dir_dep_expr (syms k a)"
    "rev_dep_expr (syms k' a) = rev_dep_expr (syms k a)" "implied_expr (syms k' a) = implied_expr (syms k a)"
    "sym_is_choice (syms k' a) = sym_is_choice (syms k a)"
    by (simp_all add: sym_is_choice_def)
qed

lemma same_graph_choice:
  assumes "same_graph k k'"
  shows "sym_get_choice_menu (syms k') (menus k') (syms k' a) = sym_get_choice_menu (syms k) (menus k) (syms k a)"
proof -
  have "sym_get_prompt_menu (menus k') (syms k' a) = sym_get_prompt_menu (menus k) (syms k a)"
    using assms by (simp add: sym_get_prompt_menu_def same_graph_syms [OF assms] same_graph_def)
  then show ?thesis
    using assms by (auto simp: sym_get_choice_menu_def same_graph_def same_graph_syms [OF assms] split: option.split)
qed

text \<open>
  The state of the search: the nodes in \<open>G\<close> are being searched, those in \<open>B\<close> are done, and the
  others have no flags. \<open>X\<close> are the choices whose own flag is already cleared while their members
  are searched.
\<close>

definition node_flags :: "bool \<Rightarrow> bool \<Rightarrow> bool \<Rightarrow> symbol_flag set \<Rightarrow> bool" where
  "node_flags gray black off F \<longleftrightarrow>
     (gray \<longrightarrow> SYMBOL_CHECKED \<in> F \<and> (SYMBOL_CHECK \<in> F \<longleftrightarrow> \<not> off))
     \<and> (black \<longrightarrow> SYMBOL_CHECKED \<in> F \<and> SYMBOL_CHECK \<notin> F)
     \<and> (\<not> gray \<and> \<not> black \<longrightarrow> SYMBOL_CHECKED \<notin> F \<and> SYMBOL_CHECK \<notin> F)"

definition search_ok :: "kstate \<Rightarrow> sid set \<Rightarrow> sid set \<Rightarrow> sid set \<Rightarrow> chk_state \<Rightarrow> bool" where
  "search_ok k X G B s \<longleftrightarrow> choices_ok k \<and> same_graph k (ck s) \<and> checked_ok k B \<and> G \<inter> B = {} \<and> (\<forall>x \<in> X. x \<in> G \<and> rep k x = x \<and> sym_is_choice (syms k x))
     \<and> (\<forall>a. node_flags (rep k a \<in> G) (rep k a \<in> B) (a \<in> X) (s_flags (syms (ck s) a)))"

lemma search_okD: 
  assumes "search_ok k X G B s"
  shows "same_graph k (ck s)" "checked_ok k B" "G \<inter> B = {}" "\<forall>x \<in> X. x \<in> G \<and> rep k x = x \<and> sym_is_choice (syms k x)"
    "node_flags (rep k a \<in> G) (rep k a \<in> B) (a \<in> X) (s_flags (syms (ck s) a))"
    "choices_ok k"
  using assms unfolding search_ok_def by blast+

lemma search_okI:
  "choices_ok k \<Longrightarrow> same_graph k (ck s) \<Longrightarrow> checked_ok k B \<Longrightarrow> G \<inter> B = {} \<Longrightarrow> \<forall>x \<in> X. x \<in> G \<and> rep k x = x \<and> sym_is_choice (syms k x) \<Longrightarrow>
   (\<And>a. node_flags (rep k a \<in> G) (rep k a \<in> B) (a \<in> X) (s_flags (syms (ck s) a))) \<Longrightarrow>
   search_ok k X G B s"
  unfolding search_ok_def by blast

lemma search_ok_cong:
  assumes "syms (ck s') = syms (ck s)" "menus (ck s') = menus (ck s)" "props (ck s') = props (ck s)"
  shows "search_ok k X G B s' = search_ok k X G B s"
  unfolding search_ok_def same_graph_def assms by (rule refl)

lemma search_ok_stack [simp]:
  "search_ok k X G B (dep_stack_insert a s) = search_ok k X G B s"
  "search_ok k X G B (dep_stack_remove s) = search_ok k X G B s"
  "search_ok k X G B (upd_top f s) = search_ok k X G B s"
  "search_ok k X G B (chk_print t s) = search_ok k X G B s"
  by (rule search_ok_cong;
      simp add: dep_stack_insert_def dep_stack_remove_def upd_top_def chk_print_def split: list.split)+

lemma ck_stack [simp]:
  "ck (dep_stack_insert a s) = ck s" "ck (dep_stack_remove s) = ck s" "ck (upd_top f s) = ck s"
  by (auto simp: dep_stack_insert_def dep_stack_remove_def upd_top_def split: list.split)

lemma or_else_None:
  "or_else m f = Some (None, s') \<longleftrightarrow> (\<exists>s. m = Some (None, s) \<and> f s = Some (None, s'))"
  by (auto simp: or_else_def bind_Some_iff split: if_splits)

text \<open>
  What every function of the search does when it reports nothing: more nodes are done, among
  them those it was asked for.
\<close>

definition reaches :: "kstate \<Rightarrow> sid set \<Rightarrow> sid set \<Rightarrow> sid set \<Rightarrow> sid set \<Rightarrow> chk_state \<Rightarrow> bool" where
  "reaches k X G B D s' \<longleftrightarrow> (\<exists>B'. B \<subseteq> B' \<and> search_ok k X G B' s' \<and> rep k ` D \<subseteq> B')"

lemma reaches_refl: "search_ok k X G B s \<Longrightarrow> reaches k X G B {} s"
  by (auto simp: reaches_def)

lemma reaches_seq:
  assumes "reaches k X G B D s" "\<And>B'. B \<subseteq> B' \<Longrightarrow> search_ok k X G B' s \<Longrightarrow> reaches k X G B' D' s'" "D'' = D \<union> D'"
  shows "reaches k X G B D'' s'"
proof -
  from assms(1) obtain B1 where 1: "B \<subseteq> B1" "search_ok k X G B1 s" "rep k ` D \<subseteq> B1" by (auto simp: reaches_def)
  from assms(2) [OF 1(1,2)] obtain B2 where "B1 \<subseteq> B2" "search_ok k X G B2 s'" "rep k ` D' \<subseteq> B2"
    by (auto simp: reaches_def)
  with 1 assms(3) show ?thesis unfolding reaches_def by (intro exI [of _ B2]) auto
qed

locale dep_search =
  fixes k :: kstate and chk :: chk
  assumes chk_spec: "search_ok k X G B s \<Longrightarrow> a \<notin> X \<Longrightarrow> chk a s = Some (None, s') \<Longrightarrow>
      reaches k X G B {a} s'"
begin

lemma deps_not_choice: "search_ok k X G B s \<Longrightarrow> b \<in> sym_deps k a \<Longrightarrow> \<not> sym_is_choice (syms k b)"
  using search_okD(6) [of k X G B s] by (auto simp: choices_ok_def)

lemma chk_dep: "search_ok k X G B s \<Longrightarrow> \<not> sym_is_choice (syms k b) \<Longrightarrow> chk b s = Some (None, s') \<Longrightarrow> reaches k X G B {b} s'"
  using chk_spec search_okD(4) by blast

lemma expr_reaches:
  "search_ok k X G B s \<Longrightarrow> \<forall>b \<in> expr_syms e. \<not> sym_is_choice (syms k b) \<Longrightarrow> check_expr chk e s = Some (None, s') \<Longrightarrow>
   reaches k X G B (expr_syms e) s'"
proof (induction e arbitrary: s s' B)
  case (E_BIN t l r)
  then obtain s1 where s1: "check_expr chk l s = Some (None, s1)" "check_expr chk r s1 = Some (None, s')"
    by (auto simp: or_else_None)
  have "reaches k X G B (expr_syms l) s1" using E_BIN.prems by (intro E_BIN.IH(1) [OF _ _ s1(1)]) auto
  then show ?case
    by (rule reaches_seq) (rule E_BIN.IH(2) [OF _ _ s1(2)], use E_BIN.prems in auto)
next
  case (E_COMP t a b)
  then obtain s1 where s1: "chk a s = Some (None, s1)" "chk b s1 = Some (None, s')"
    by (auto simp: or_else_None)
  have "reaches k X G B {a} s1" using E_COMP.prems by (intro chk_dep [OF _ _ s1(1)]) auto
  then show ?case
    by (rule reaches_seq) (rule chk_dep [OF _ _ s1(2)], use E_COMP.prems in auto)
qed (auto intro: chk_dep)

lemma oexpr_reaches:
  "search_ok k X G B s \<Longrightarrow> \<forall>b \<in> oexpr_syms e. \<not> sym_is_choice (syms k b) \<Longrightarrow>
   sym_check_expr_deps chk e s = Some (None, s') \<Longrightarrow> reaches k X G B (oexpr_syms e) s'"
  by (cases e) (auto simp: sym_check_expr_deps_def intro: expr_reaches reaches_refl)

lemma slots_reach:
  "search_ok k X G B s \<Longrightarrow> \<forall>(t, e) \<in> set es. \<forall>b \<in> oexpr_syms e. \<not> sym_is_choice (syms k b) \<Longrightarrow>
   check_slots chk es s = Some (None, s') \<Longrightarrow> reaches k X G B (\<Union>(t, e) \<in> set es. oexpr_syms e) s'"
proof (induction es arbitrary: s B)
  case Nil
  then show ?case by (auto intro: reaches_refl)
next
  case (Cons te es)
  obtain t e where te: "te = (t, e)" by (cases te)
  with Cons.prems obtain s1 where
    s1: "sym_check_expr_deps chk e (upd_top (\<lambda>d. d\<lparr>d_expr := t\<rparr>) s) = Some (None, s1)" "check_slots chk es s1 = Some (None, s')"
    by (auto simp: or_else_None)
  have "reaches k X G B (oexpr_syms e) s1"
    using Cons.prems te by (intro oexpr_reaches [OF _ _ s1(1)]) auto
  then show ?case
    by (rule reaches_seq) (rule Cons.IH [OF _ _ s1(2)], use Cons.prems te in auto)
qed

lemma prop_expr_reaches:
  "search_ok k X G B s \<Longrightarrow> \<forall>b \<in> (case e of P_EXPR e \<Rightarrow> expr_syms e | _ \<Rightarrow> {}). \<not> sym_is_choice (syms k b) \<Longrightarrow>
   sym_check_prop_deps chk e s = Some (None, s') \<Longrightarrow>
   reaches k X G B (case e of P_EXPR e \<Rightarrow> expr_syms e | _ \<Rightarrow> {}) s'"
  by (cases e) (auto simp: sym_check_prop_deps_def intro: expr_reaches reaches_refl)

lemma search_graph: "search_ok k X G B s \<Longrightarrow> same_graph k (ck s)"
  by (simp add: search_ok_def)

lemma props_reach:
  "search_ok k X G B s \<Longrightarrow> \<forall>p \<in> set ps. \<forall>b \<in> prop_deps (syms k a) (props k p). \<not> sym_is_choice (syms k b) \<Longrightarrow>
   check_props chk a ps s = Some (None, s') \<Longrightarrow> reaches k X G B (\<Union>p \<in> set ps. prop_deps (syms k a) (props k p)) s'"
proof (induction ps arbitrary: s B)
  case Nil
  then show ?case by (auto intro: reaches_refl)
next
  case (Cons p ps)
  let ?q = "props k p"
  from search_graph [OF Cons.prems(1)] have q: "props (ck s) p = ?q" by (simp add: same_graph_def)
  have rest: "\<forall>p \<in> set ps. \<forall>b \<in> prop_deps (syms k a) (props k p). \<not> sym_is_choice (syms k b)" using Cons.prems(2) by simp
  have mine: "\<forall>b \<in> prop_deps (syms k a) ?q. \<not> sym_is_choice (syms k b)" using Cons.prems(2) by simp
  note IH = Cons.IH [OF _ rest]
  show ?case
  proof (cases "p_type ?q = P_SELECT \<or> p_type ?q = P_IMPLY")
    case True
    with Cons.prems(3) q have "check_props chk a ps s = Some (None, s')" by (simp add: Let_def)
    from IH [OF Cons.prems(1) this] True show ?thesis by (simp add: prop_deps_def)
  next
    case False
    let ?m = "sym_check_expr_deps chk (p_visible_expr ?q) (upd_top (\<lambda>d. d\<lparr>d_prop := Some p\<rparr>) s)"
    let ?f = "\<lambda>s. if p_type ?q \<noteq> P_DEFAULT \<or> sym_is_choice (syms (ck s) a) then check_props chk a ps s
        else or_else (sym_check_prop_deps chk (p_expr ?q) (upd_top (\<lambda>d. d\<lparr>d_expr := Slot_prop_expr\<rparr>) s)) (\<lambda>s.
          check_props chk a ps (upd_top (\<lambda>d. d\<lparr>d_expr := Slot_none\<rparr>) s))"
    from False have "check_props chk a (p # ps) s = or_else ?m ?f"
      by (simp only: check_props.simps Let_def q if_False)
    with Cons.prems(3) have "or_else ?m ?f = Some (None, s')" by (simp only:)
    from or_else_None [THEN iffD1, OF this] obtain s1 where s1: "?m = Some (None, s1)" and s2: "?f s1 = Some (None, s')"
      by blast
    have v: "reaches k X G B (oexpr_syms (p_visible_expr ?q)) s1"
    proof (rule oexpr_reaches [OF _ _ s1])
      have "oexpr_syms (p_visible_expr ?q) \<subseteq> prop_deps (syms k a) ?q" using False by (simp add: prop_deps_def)
      with mine show "\<forall>b \<in> oexpr_syms (p_visible_expr ?q). \<not> sym_is_choice (syms k b)" by blast
    qed (simp add: Cons.prems(1))
    let ?D = "if p_type ?q \<noteq> P_DEFAULT \<or> sym_is_choice (syms k a) then {} else case p_expr ?q of P_EXPR e \<Rightarrow> expr_syms e | _ \<Rightarrow> {}"
    have "reaches k X G B1 (?D \<union> (\<Union>p \<in> set ps. prop_deps (syms k a) (props k p))) s'" if B1: "search_ok k X G B1 s1" for B1
    proof (cases "p_type ?q \<noteq> P_DEFAULT \<or> sym_is_choice (syms k a)")
      case True
      with s2 IH [OF B1] show ?thesis by (simp add: same_graph_syms [OF search_graph [OF B1]])
    next
      case F: False
      with s2 obtain s3 where
        s3: "sym_check_prop_deps chk (p_expr ?q) (upd_top (\<lambda>d. d\<lparr>d_expr := Slot_prop_expr\<rparr>) s1) = Some (None, s3)"
        and s4: "check_props chk a ps (upd_top (\<lambda>d. d\<lparr>d_expr := Slot_none\<rparr>) s3) = Some (None, s')"
        using or_else_None by (auto simp: same_graph_syms [OF search_graph [OF B1]] or_else_None)
      have "reaches k X G B1 (case p_expr ?q of P_EXPR e \<Rightarrow> expr_syms e | _ \<Rightarrow> {}) s3"
      proof (rule prop_expr_reaches [OF _ _ s3])
        have "(case p_expr ?q of P_EXPR e \<Rightarrow> expr_syms e | _ \<Rightarrow> {}) \<subseteq> prop_deps (syms k a) ?q"
          using False F by (simp add: prop_deps_def)
        with mine show "\<forall>b \<in> (case p_expr ?q of P_EXPR e \<Rightarrow> expr_syms e | _ \<Rightarrow> {}). \<not> sym_is_choice (syms k b)" by blast
      qed (simp add: B1)
      then show ?thesis
        by (rule reaches_seq) (rule IH [OF _ s4], use F in auto)
    qed
    with v show ?thesis by (rule reaches_seq) (use False in \<open>auto simp: prop_deps_def\<close>)
  qed
qed

lemma sym_reaches:
  assumes s: "search_ok k X G B s" and r: "sym_check_sym_deps chk a s = Some (None, s')"
  shows "reaches k X G B (sym_deps k a) s'"
proof -
  let ?y = "syms (ck s) a"
  let ?es = "[(Slot_dir_dep, dir_dep_expr ?y), (Slot_rev_dep, rev_dep_expr ?y), (Slot_implied, implied_expr ?y)]"
  note y = same_graph_syms [OF search_graph [OF s], of a]
  from r obtain s1 s2 where
    1: "check_slots chk ?es (dep_stack_insert a s) = Some (None, s1)"
    and 2: "check_props chk a (s_prop ?y) (upd_top (\<lambda>d. d\<lparr>d_expr := Slot_none\<rparr>) s1) = Some (None, s2)"
    and s': "s' = dep_stack_remove s2"
    by (auto simp: sym_check_sym_deps_def bind_Some_iff or_else_None Let_def split: prod.splits)
  have es: "(\<Union>(t, e) \<in> set ?es. oexpr_syms e) \<subseteq> sym_deps k a"
    and ps: "(\<Union>p \<in> set (s_prop ?y). prop_deps (syms k a) (props k p)) \<subseteq> sym_deps k a"
    and all: "sym_deps k a = (\<Union>(t, e) \<in> set ?es. oexpr_syms e) \<union> (\<Union>p \<in> set (s_prop ?y). prop_deps (syms k a) (props k p))"
    by (auto simp: sym_deps_def Let_def y)
  have "reaches k X G B (\<Union>(t, e) \<in> set ?es. oexpr_syms e) s1"
    by (rule slots_reach [OF _ _ 1]) (use s es deps_not_choice [OF s] in \<open>simp, blast\<close>)
  then have "reaches k X G B (sym_deps k a) s2"
    by (rule reaches_seq [OF _ _ all]) (rule props_reach [OF _ _ 2], simp, use ps deps_not_choice [OF s] in blast)
  then show ?thesis by (simp add: reaches_def s')
qed

lemma entries_reach:
  "search_ok k X G B s \<Longrightarrow> check_entries chk ms s = Some (None, s') \<Longrightarrow>
   reaches k X G B (\<Union>a \<in> set (entry_syms k ms). sym_deps k a) s'"
proof (induction ms arbitrary: s B)
  case Nil
  then show ?case by (auto intro: reaches_refl)
next
  case (Cons m ms)
  have m: "menus (ck s) = menus k" using search_graph [OF Cons.prems(1)] by (simp add: same_graph_def)
  show ?case
  proof (cases "m_sym (menus k m)")
    case None
    with Cons m show ?thesis by simp
  next
    case (Some a)
    with Cons.prems(2) m obtain s1 where
      1: "sym_check_sym_deps chk a s = Some (None, s1)" and 2: "check_entries chk ms s1 = Some (None, s')"
      by (auto simp: or_else_None)
    show ?thesis
      by (rule reaches_seq [OF sym_reaches [OF Cons.prems(1) 1]]) (rule Cons.IH [OF _ 2], use Some in auto)
  qed
qed

end

section \<open>Flags of whole nodes\<close>

lemma chk_flags_sel [simp]:
  "menus (ck (chk_flags f a s)) = menus (ck s)" "props (ck (chk_flags f a s)) = props (ck s)"
  "syms (ck (chk_flags f a s)) = (syms (ck s))(a := f (syms (ck s) a))"
  by (simp_all add: chk_flags_def)

lemma entry_syms_eq: "menus k' = menus k \<Longrightarrow> entry_syms k' ms = entry_syms k ms"
  by (rule entry_syms_cong) simp

lemma flag_entries_sel:
  assumes "\<And>y. f (f y) = f y"
  shows "menus (ck (flag_entries f ms s)) = menus (ck s)" "props (ck (flag_entries f ms s)) = props (ck s)"
    "syms (ck (flag_entries f ms s)) a = (if a \<in> set (entry_syms (ck s) ms) then f (syms (ck s) a) else syms (ck s) a)"
proof -
  have "menus (ck (flag_entries f ms s)) = menus (ck s) \<and> props (ck (flag_entries f ms s)) = props (ck s) \<and>
    syms (ck (flag_entries f ms s)) a = (if a \<in> set (entry_syms (ck s) ms) then f (syms (ck s) a) else syms (ck s) a)"
  proof (induction ms arbitrary: s)
    case (Cons m ms)
    show ?case
    proof (cases "m_sym (menus (ck s) m)")
      case None
      with Cons show ?thesis by simp
    next
      case (Some b)
      have "entry_syms (ck (chk_flags f b s)) ms = entry_syms (ck s) ms" by (rule entry_syms_eq) simp
      with Cons [of "chk_flags f b s"] Some show ?thesis by (auto simp: assms)
    qed
  qed simp
  then show "menus (ck (flag_entries f ms s)) = menus (ck s)" "props (ck (flag_entries f ms s)) = props (ck s)"
    "syms (ck (flag_entries f ms s)) a = (if a \<in> set (entry_syms (ck s) ms) then f (syms (ck s) a) else syms (ck s) a)"
    by auto
qed

lemma same_graph_flags:
  assumes "same_graph k k'" "menus k'' = menus k'" "props k'' = props k'"
    and "\<And>a. syms k'' a = (syms k' a)\<lparr>s_flags := s_flags (syms k'' a)\<rparr>"
  shows "same_graph k k''"
proof -
  have "syms k'' a = (syms k a)\<lparr>s_flags := s_flags (syms k'' a)\<rparr>" for a
  proof -
    from assms(1) obtain F where "syms k' a = (syms k a)\<lparr>s_flags := F\<rparr>" unfolding same_graph_def by blast
    moreover from assms(4) obtain F' where "syms k'' a = (syms k' a)\<lparr>s_flags := F'\<rparr>" by blast
    ultimately show ?thesis by simp
  qed
  with assms(1-3) show ?thesis by (simp add: same_graph_def)
qed

lemma same_graph_chk_flags:
  "same_graph k (ck s) \<Longrightarrow> f = add_flags F \<or> f = del_flags F \<Longrightarrow> same_graph k (ck (chk_flags f a s))"
  by (erule same_graph_flags) (auto simp: add_flags_def del_flags_def)

lemma same_graph_flag_entries:
  assumes g: "same_graph k (ck s)" and f: "f = add_flags F \<or> f = del_flags F"
  shows "same_graph k (ck (flag_entries f ms s))"
proof (rule same_graph_flags [OF g])
  from f have i: "f (f y) = f y" for y by (auto simp: add_flags_def del_flags_def)
  show "menus (ck (flag_entries f ms s)) = menus (ck s)" "props (ck (flag_entries f ms s)) = props (ck s)"
    by (rule flag_entries_sel [OF i])+
  show "syms (ck (flag_entries f ms s)) a = (syms (ck s) a)\<lparr>s_flags := s_flags (syms (ck (flag_entries f ms s)) a)\<rparr>" for a
    using f by (auto simp: flag_entries_sel(3) [OF i] add_flags_def del_flags_def)
qed

text \<open>A node begins and ends its search when the flags of all its symbols are set and cleared.\<close>

lemma search_begin:
  assumes ok: "search_ok k X G B s" and r: "r \<notin> G \<union> B" and graph: "same_graph k (ck s')"
    and set: "\<And>a. rep k a = r \<Longrightarrow> {SYMBOL_CHECKED, SYMBOL_CHECK} \<subseteq> s_flags (syms (ck s') a)"
    and same: "\<And>a. rep k a \<noteq> r \<Longrightarrow> s_flags (syms (ck s') a) = s_flags (syms (ck s) a)"
  shows "search_ok k X (insert r G) B s'"
proof (rule search_okI [OF search_okD(6) [OF ok] graph search_okD(2) [OF ok]])
  show "insert r G \<inter> B = {}" using search_okD(3) [OF ok] r by auto
  show "\<forall>x \<in> X. x \<in> insert r G \<and> rep k x = x \<and> sym_is_choice (syms k x)" using search_okD(4) [OF ok] by simp
  show "node_flags (rep k a \<in> insert r G) (rep k a \<in> B) (a \<in> X) (s_flags (syms (ck s') a))" for a
  proof (cases "rep k a = r")
    case True
    then have "a \<notin> X" using search_okD(4) [OF ok] r by auto
    with True set [OF True] r show ?thesis by (simp add: node_flags_def)
  next
    case False
    then show ?thesis using search_okD(5) [OF ok, of a] same [OF False] by simp
  qed
qed

lemma search_end:
  assumes ok: "search_ok k X (insert r G) B s" and r: "r \<notin> G" and graph: "same_graph k (ck s')"
    and deps: "\<And>a. rep k a = r \<Longrightarrow> rep k ` sym_deps k a \<subseteq> B"
    and clear: "\<And>a. rep k a = r \<Longrightarrow> SYMBOL_CHECKED \<in> s_flags (syms (ck s') a) \<and> SYMBOL_CHECK \<notin> s_flags (syms (ck s') a)"
    and same: "\<And>a. rep k a \<noteq> r \<Longrightarrow> s_flags (syms (ck s') a) = s_flags (syms (ck s) a)"
  shows "search_ok k (X - {r}) G (insert r B) s'"
proof (rule search_okI [OF search_okD(6) [OF ok] graph])
  have rB: "r \<notin> B" using search_okD(3) [OF ok] by auto
  show "checked_ok k (insert r B)"
    by (rule checked_ok_insert [OF search_okD(2) [OF ok] rB deps])
  show "G \<inter> insert r B = {}" using search_okD(3) [OF ok] r by auto
  show "\<forall>x \<in> X - {r}. x \<in> G \<and> rep k x = x \<and> sym_is_choice (syms k x)" using search_okD(4) [OF ok] by auto
  show "node_flags (rep k a \<in> G) (rep k a \<in> insert r B) (a \<in> X - {r}) (s_flags (syms (ck s') a))" for a
  proof (cases "rep k a = r")
    case True
    with clear [OF True] r show ?thesis by (simp add: node_flags_def)
  next
    case False
    then have "a \<in> X - {r} \<longleftrightarrow> a \<in> X" using search_okD(4) [OF ok] by auto
    with False show ?thesis using search_okD(5) [OF ok, of a] same [OF False] by simp
  qed
qed

lemma rep_cases:
  obtains (self) "rep k a = a" | (member) c r where "sym_get_choice_menu (syms k) (menus k) (syms k a) = Some (Some c)"
      "m_sym (menus k c) = Some r" "rep k a = r" "sym_is_choice (syms k r)"
proof (cases "sym_get_choice_menu (syms k) (menus k) (syms k a)")
  case (Some o')
  show thesis
  proof (cases o')
    case None
    with Some that(1) show thesis by (simp add: rep_def)
  next
    case (Some c)
    with \<open>_ = Some o'\<close> get_choice_menu_choice [of k "syms k a" c] that(2) show thesis
      by (auto simp: rep_def)
  qed
qed (use that(1) in \<open>simp add: rep_def\<close>)

lemma rep_plain:
  assumes "\<not> sym_is_choice (syms k a)" "rep k b = a"
  shows "b = a"
  by (cases rule: rep_cases [of k b]) (use assms in auto)

context dep_search
begin

lemma choice_group:
  assumes choices: "choices_ok k" and "sym_is_choice (syms k r)" "s_menus (syms k r) = m # ms" "sub_entries (menus k) m = Some es"
  shows "rep k a = r \<longleftrightarrow> a = r \<or> a \<in> set (entry_syms k es)" and "rep k r = r"
proof -
  have "{a. rep k a = r} = insert r (set (entry_syms k es))" and "rep k r = r"
    using choices assms unfolding choices_ok_def by blast+
  then show "rep k a = r \<longleftrightarrow> a = r \<or> a \<in> set (entry_syms k es)" and "rep k r = r" by auto
qed

lemma choice_reaches:
  assumes s: "search_ok k X G B s" and c: "sym_is_choice (syms k r)" and w: "r \<notin> G \<union> B"
    and run: "sym_check_choice_deps chk r s = Some (None, s')"
  shows "reaches k X G B {r} s'"
proof -
  note g = search_okD(1) [OF s]
  have mk: "menus (ck s) = menus k" using g by (simp add: same_graph_def)
  from run obtain m ms es s1 s2 s3 s4 where
    m: "s_menus (syms k r) = m # ms" and es: "sub_entries (menus k) m = Some es"
    and s1: "s1 = chk_flags (add_flags {SYMBOL_CHECK, SYMBOL_CHECKED}) r
        (flag_entries (add_flags {SYMBOL_CHECK, SYMBOL_CHECKED}) es (dep_stack_insert r s))"
    and s2: "sym_check_sym_deps chk r s1 = Some (None, s2)"
    and s3: "s3 = chk_flags (del_flags {SYMBOL_CHECK}) r s2"
    and s4: "check_entries chk es s3 = Some (None, s4)"
    and s': "s' = dep_stack_remove (flag_entries (del_flags {SYMBOL_CHECK}) es s4)"
    by (auto simp: sym_check_choice_deps_def bind_Some_iff Let_def same_graph_syms [OF g] mk
        split: list.splits option.splits if_splits prod.splits)
  note grp = choice_group [OF search_okD(6) [OF s] c m es]
  let ?on = "add_flags {SYMBOL_CHECK, SYMBOL_CHECKED}" and ?off = "del_flags {SYMBOL_CHECK}"
  have on: "?on (?on y) = ?on y" and off: "?off (?off y) = ?off y" for y
    by (simp_all add: add_flags_def del_flags_def insert_commute)
  have g0: "same_graph k (ck (dep_stack_insert r s))" using g by simp
  have e0: "entry_syms (ck s) es = entry_syms k es" by (rule entry_syms_eq) (rule mk)
  have g1: "same_graph k (ck s1)"
    unfolding s1 by (rule same_graph_chk_flags [OF same_graph_flag_entries [OF g0 disjI1 [OF refl]] disjI1 [OF refl]])
  have ok1: "search_ok k X (insert r G) B s1"
  proof (rule search_begin [OF s w g1])
    show "{SYMBOL_CHECKED, SYMBOL_CHECK} \<subseteq> s_flags (syms (ck s1) a)" if "rep k a = r" for a
      using that by (auto simp: s1 grp flag_entries_sel(3) [OF on] e0)
    show "s_flags (syms (ck s1) a) = s_flags (syms (ck s) a)" if "rep k a \<noteq> r" for a
      using that by (auto simp: s1 grp flag_entries_sel(3) [OF on] e0)
  qed
  have rX: "r \<notin> X" using search_okD(4) [OF s] w by auto
  from sym_reaches [OF ok1 s2] obtain B2 where
    B2: "B \<subseteq> B2" "search_ok k X (insert r G) B2 s2" "rep k ` sym_deps k r \<subseteq> B2" by (auto simp: reaches_def)
  have ok3: "search_ok k (insert r X) (insert r G) B2 s3"
  proof (rule search_okI [OF search_okD(6) [OF s] _ search_okD(2,3) [OF B2(2)]])
    show "same_graph k (ck s3)"
      unfolding s3 by (rule same_graph_chk_flags [OF search_okD(1) [OF B2(2)] disjI2 [OF refl]])
    show "\<forall>x \<in> insert r X. x \<in> insert r G \<and> rep k x = x \<and> sym_is_choice (syms k x)"
      using search_okD(4) [OF B2(2)] c grp(2) by simp
    show "node_flags (rep k a \<in> insert r G) (rep k a \<in> B2) (a \<in> insert r X) (s_flags (syms (ck s3) a))" for a
      using search_okD(5) [OF B2(2), of a] grp(2) search_okD(3) [OF B2(2)]
      by (cases "a = r") (auto simp: s3 node_flags_def)
  qed
  from entries_reach [OF ok3 s4] obtain B4 where
    B4: "B2 \<subseteq> B4" "search_ok k (insert r X) (insert r G) B4 s4" "rep k ` (\<Union>a \<in> set (entry_syms k es). sym_deps k a) \<subseteq> B4"
    by (auto simp: reaches_def)
  note g4 = search_okD(1) [OF B4(2)]
  have e4: "entry_syms (ck s4) es = entry_syms k es"
    using g4 by (intro entry_syms_eq) (simp add: same_graph_def)
  have r4: "SYMBOL_CHECK \<notin> s_flags (syms (ck s4) r)"
    using search_okD(5) [OF B4(2), of r] grp(2) by (simp add: node_flags_def)
  have "search_ok k (insert r X - {r}) G (insert r B4) s'"
  proof (rule search_end [OF B4(2)])
    show "r \<notin> G" using w by simp
    show "same_graph k (ck s')" unfolding s' by (simp add: same_graph_flag_entries [OF g4 disjI2 [OF refl]])
    show "rep k ` sym_deps k a \<subseteq> B4" if "rep k a = r" for a
      using that B2(3) B4(1,3) unfolding grp by blast
    show "SYMBOL_CHECKED \<in> s_flags (syms (ck s') a) \<and> SYMBOL_CHECK \<notin> s_flags (syms (ck s') a)" if "rep k a = r" for a
      using that search_okD(5) [OF B4(2), of a] r4
      by (auto simp: s' grp flag_entries_sel(3) [OF off] e4 node_flags_def)
    show "s_flags (syms (ck s') a) = s_flags (syms (ck s4) a)" if "rep k a \<noteq> r" for a
      using that by (auto simp: s' grp flag_entries_sel(3) [OF off] e4)
  qed
  then have "search_ok k X G (insert r B4) s'" using rX by simp
  then show ?thesis unfolding reaches_def
    using B2(1) B4(1) grp(2) by (intro exI [of _ "insert r B4"]) auto
qed

lemma step_reaches:
  assumes s: "search_ok k X G B s" and a: "a \<notin> X" and run: "sym_check_deps_step chk a s = Some (None, s')"
  shows "reaches k X G B {a} s'"
proof -
  note g = search_okD(1) [OF s]
  let ?F = "s_flags (syms (ck s) a)"
  have nc: "SYMBOL_CHECK \<notin> ?F" using run by (auto simp: sym_check_deps_step_def bind_Some_iff split: if_splits)
  show ?thesis
  proof (cases "SYMBOL_CHECKED \<in> ?F")
    case True
    with run nc have "s' = s" by (simp add: sym_check_deps_step_def)
    moreover have "rep k a \<in> B" using search_okD(5) [OF s, of a] True nc a by (auto simp: node_flags_def)
    ultimately show ?thesis using s by (auto simp: reaches_def)
  next
    case False
    then have w: "rep k a \<notin> G \<union> B" using search_okD(5) [OF s, of a] by (auto simp: node_flags_def)
    let ?ch = "sym_get_choice_menu (syms k) (menus k) (syms k a)"
    have ch: "sym_get_choice_menu (syms (ck s)) (menus (ck s)) (syms (ck s) a) = ?ch"
      by (rule same_graph_choice [OF g])
    have mk: "menus (ck s) = menus k" using g by (simp add: same_graph_def)
    from run False nc ch obtain o' where o': "?ch = Some o'" by (auto simp: sym_check_deps_step_def bind_Some_iff)
    show ?thesis
    proof (cases o')
      case (Some c)
      then obtain b where b: "m_sym (menus k c) = Some b" "sym_is_choice (syms k b)" "rep k a = b"
        using get_choice_menu_choice [of k "syms k a" c] o' by (auto simp: rep_def)
      from run False nc ch o' Some b mk obtain s1 where
        1: "chk b (dep_stack_insert a s) = Some (None, s1)" and s': "s' = dep_stack_remove s1"
        by (auto simp: sym_check_deps_step_def bind_Some_iff)
      have "b \<notin> X" using w search_okD(4) [OF s] b by auto
      then have "reaches k X G B {b} s1" using s by (intro chk_spec [OF _ _ 1]) simp_all
      moreover have "rep k b = b" using search_okD(6) [OF s] b(2) by (auto simp: choices_ok_def)
      ultimately show ?thesis using b(3) by (simp add: reaches_def s')
    next
      case None
      then have ra: "rep k a = a" using o' by (simp add: rep_def)
      show ?thesis
      proof (cases "sym_is_choice (syms k a)")
        case True
        with run False nc ch o' None have "sym_check_choice_deps chk a s = Some (None, s')"
          by (simp add: sym_check_deps_step_def same_graph_syms [OF g])
        from choice_reaches [OF s True _ this] w ra show ?thesis by simp
      next
        case nch: False
        define s0 where "s0 = chk_flags (add_flags {SYMBOL_CHECK, SYMBOL_CHECKED}) a s"
        from run False nc ch o' None nch obtain s1 where
          1: "sym_check_sym_deps chk a s0 = Some (None, s1)" and s': "s' = chk_flags (del_flags {SYMBOL_CHECK}) a s1"
          by (auto simp: sym_check_deps_step_def same_graph_syms [OF g] bind_Some_iff s0_def)
        have grp: "rep k x = a \<longleftrightarrow> x = a" for x using rep_plain [OF nch] ra by auto
        have "search_ok k X (insert a G) B s0"
        proof (rule search_begin [OF s])
          show "same_graph k (ck s0)" unfolding s0_def by (rule same_graph_chk_flags [OF g disjI1 [OF refl]])
        qed (use w ra in \<open>auto simp: grp s0_def\<close>)
        from sym_reaches [OF this 1] obtain B1 where
          B1: "B \<subseteq> B1" "search_ok k X (insert a G) B1 s1" "rep k ` sym_deps k a \<subseteq> B1" by (auto simp: reaches_def)
        have "search_ok k (X - {a}) G (insert a B1) s'"
        proof (rule search_end [OF B1(2)])
          show "same_graph k (ck s')"
            unfolding s' by (rule same_graph_chk_flags [OF search_okD(1) [OF B1(2)] disjI2 [OF refl]])
          show "SYMBOL_CHECKED \<in> s_flags (syms (ck s') x) \<and> SYMBOL_CHECK \<notin> s_flags (syms (ck s') x)" if "rep k x = a" for x
            using that search_okD(5) [OF B1(2), of a] ra by (auto simp: grp s' node_flags_def)
        qed (use w ra B1(3) in \<open>auto simp: grp s'\<close>)
        with B1(1) ra a show ?thesis unfolding reaches_def by (intro exI [of _ "insert a B1"]) auto
      qed
    qed
  qed
qed

end

lemma dep_search_all: "dep_search k (sym_check_deps n)"
proof (induction n)
  case 0
  then show ?case by unfold_locales simp_all
next
  case (Suc n)
  from dep_search.step_reaches [OF Suc.IH] show ?case
    by unfold_locales simp_all
qed

interpretation deps: dep_search k "sym_check_deps n" for k n
  by (rule dep_search_all)

text \<open>
  The loop at the end of \<open>conf_parse\<close>: the parser checks the symbol of every menu entry, and
  counts an error for each check that reports one.
\<close>

fun check_all :: "nat \<Rightarrow> sid list \<Rightarrow> chk_state \<Rightarrow> (nat \<times> chk_state) option" where
  "check_all n [] s = Some (0, s)"
| "check_all n (a # as) s = do {
     (r, s) \<leftarrow> sym_check_deps n a s;
     (errors, s) \<leftarrow> check_all n as s;
     Some ((if r \<noteq> None then 1 else 0) + errors, s)
   }"

lemma check_all_reaches:
  "search_ok k {} G B s \<Longrightarrow> check_all n as s = Some (0, s') \<Longrightarrow> reaches k {} G B (set as) s'"
proof (induction as arbitrary: s B)
  case Nil
  then show ?case by (auto intro: reaches_refl)
next
  case (Cons a as)
  then obtain s1 where 1: "sym_check_deps n a s = Some (None, s1)" "check_all n as s1 = Some (0, s')"
    by (auto simp: bind_Some_iff split: if_splits)
  have "reaches k {} G B {a} s1"
    by (rule deps.chk_spec [OF Cons.prems(1) _ 1(1)]) simp
  then show ?case by (rule reaches_seq) (rule Cons.IH [OF _ 1(2)], auto)
qed

definition no_check_flags :: "kstate \<Rightarrow> bool" where
  "no_check_flags k \<longleftrightarrow> (\<forall>a. SYMBOL_CHECK \<notin> s_flags (syms k a) \<and> SYMBOL_CHECKED \<notin> s_flags (syms k a))"

lemma search_start:
  assumes "choices_ok (ck s)" "no_check_flags (ck s)"
  shows "search_ok (ck s) {} {} {} s"
  using assms by (auto simp: search_ok_def same_graph_def checked_ok_def dep_edges_def acyclic_def node_flags_def no_check_flags_def)

text \<open>A check that reports nothing has shown that there is no cycle among what it reached.\<close>

theorem check_all_acyclic:
  assumes "choices_ok (ck s)" "no_check_flags (ck s)" "check_all n as s = Some (0, s')"
  obtains B where "rep (ck s) ` set as \<subseteq> B" "\<And>a. rep (ck s) a \<in> B \<Longrightarrow> rep (ck s) ` sym_deps (ck s) a \<subseteq> B"
    "acyclic (dep_edges (ck s) B)"
  using check_all_reaches [OF search_start [OF assms(1,2)] assms(3)] that
  by (auto simp: reaches_def search_ok_def checked_ok_def)

end
