(* ===== verification/MenuBuild.thy ===== *)
theory MenuBuild
  imports ConfText
begin

text \<open>
  Building the menu tree, the functions of \<^verbatim>\<open>parser/menu.c\<close> that the grammar actions of the
  parser call, and the checks of the properties of a symbol. The parser keeps the entry it
  describes (\<open>current_entry\<close>), the innermost open menu (\<open>current_menu\<close>) and the address of the
  pointer that will refer to the next entry (\<open>last_entry_ptr\<close>). \<open>None\<close> is a null pointer
  followed, or an upward walk that does not end.
\<close>

section \<open>The state of the parser\<close>

text \<open>The fields \<open>last_entry_ptr\<close> can point to.\<close>

datatype menu_slot = List_of mid | Next_of mid

record build_state =
  bk :: kstate
  current_entry :: mid
  current_menu :: "mid option"
  last_entry_ptr :: menu_slot
  next_menu :: nat
  next_prop :: pid
  cur_filename :: string
  cur_lineno :: int

definition b_kstate :: "(kstate \<Rightarrow> kstate) \<Rightarrow> build_state \<Rightarrow> build_state" where
  "b_kstate f s = s\<lparr>bk := f (bk s)\<rparr>"

definition k_print :: "string \<Rightarrow> kstate \<Rightarrow> kstate" where
  "k_print t k = k\<lparr>stderr_out := stderr_out k @ t\<rparr>"

definition single_quoted :: "string \<Rightarrow> string" where
  "single_quoted t = CHR 0x27 # t @ [CHR 0x27]"

definition warn_at :: "string \<Rightarrow> int \<Rightarrow> string \<Rightarrow> string" where
  "warn_at file line msg = file @ '':'' @ int_text line @ '':warning: '' @ msg @ ''\<newline>''"

definition menu_warn :: "mid \<Rightarrow> string \<Rightarrow> kstate \<Rightarrow> kstate" where
  "menu_warn m msg k = k_print (warn_at (m_filename (menus k m)) (m_lineno (menus k m)) msg) k"

definition prop_warn :: "pid \<Rightarrow> string \<Rightarrow> kstate \<Rightarrow> kstate" where
  "prop_warn p msg k = k_print (warn_at (p_filename (props k p)) (p_lineno (props k p)) msg) k"

definition menu_init :: "build_state \<Rightarrow> build_state" where
  "menu_init s = s\<lparr>current_entry := rootmenu, current_menu := Some rootmenu, last_entry_ptr := List_of rootmenu\<rparr>"

section \<open>Entries and menus\<close>

definition set_slot :: "menu_slot \<Rightarrow> mid \<Rightarrow> kstate \<Rightarrow> kstate" where
  "set_slot p m k = (case p of
       List_of i \<Rightarrow> upd_menu i (\<lambda>e. e\<lparr>m_list := Some m\<rparr>) k
     | Next_of i \<Rightarrow> upd_menu i (\<lambda>e. e\<lparr>m_next := Some m\<rparr>) k)"

definition menu_add_entry :: "sid option \<Rightarrow> menu_type \<Rightarrow> build_state \<Rightarrow> build_state" where
  "menu_add_entry osym ty s =
     (let m = Menu (next_menu s);
          e = blank_menu\<lparr>m_type := ty, m_sym := osym, m_parent := current_menu s,
                m_filename := cur_filename s, m_lineno := cur_lineno s\<rparr>;
          k = set_slot (last_entry_ptr s) m (upd_menu m (\<lambda>_. e) (bk s));
          k = (case osym of None \<Rightarrow> k | Some a \<Rightarrow> upd_sym a (\<lambda>y. y\<lparr>s_menus := s_menus y @ [m]\<rparr>) k)
      in s\<lparr>bk := k, last_entry_ptr := Next_of m, current_entry := m, next_menu := Suc (next_menu s)\<rparr>)"

definition menu_add_menu :: "build_state \<Rightarrow> mid \<times> build_state" where
  "menu_add_menu s =
     (current_entry s, s\<lparr>last_entry_ptr := List_of (current_entry s), current_menu := Some (current_entry s)\<rparr>)"

definition menu_end_menu :: "build_state \<Rightarrow> build_state option" where
  "menu_end_menu s =
     (case current_menu s of
        None \<Rightarrow> None
      | Some m \<Rightarrow> Some (s\<lparr>last_entry_ptr := Next_of m, current_menu := m_parent (menus (bk s) m)\<rparr>))"

section \<open>Attributes of the current entry\<close>

definition menu_add_dep :: "expr option \<Rightarrow> build_state \<Rightarrow> build_state" where
  "menu_add_dep dep s =
     b_kstate (upd_menu (current_entry s) (\<lambda>e. e\<lparr>m_dep := expr_alloc_and (m_dep e) dep\<rparr>)) s"

definition menu_set_type :: "symbol_type \<Rightarrow> build_state \<Rightarrow> build_state option" where
  "menu_set_type ty s = do {
     a \<leftarrow> m_sym (menus (bk s) (current_entry s));
     let y = syms (bk s) a;
     Some (if s_type y = ty then s
           else if s_type y = S_UNKNOWN then b_kstate (upd_sym a (\<lambda>y. y\<lparr>s_type := ty\<rparr>)) s
           else b_kstate (menu_warn (current_entry s)
             (''ignoring type redefinition of '' @ single_quoted (case s_name y of None \<Rightarrow> ''<choice>'' | Some t \<Rightarrow> t)
               @ '' from '' @ single_quoted (sym_type_name (s_type y)) @ '' to '' @ single_quoted (sym_type_name ty))) s)
   }"

definition menu_add_prop :: "prop_type \<Rightarrow> prop_expr \<Rightarrow> expr option \<Rightarrow> build_state \<Rightarrow> pid \<times> build_state" where
  "menu_add_prop ty e dep s =
     (let p = next_prop s;
          q = blank_prop\<lparr>p_type := ty, p_filename := cur_filename s, p_lineno := cur_lineno s,
                p_menu := current_entry s, p_expr := e, p_visible_expr := dep\<rparr>;
          k = upd_prop p (\<lambda>_. q) (bk s);
          k = (case m_sym (menus k (current_entry s)) of
                 None \<Rightarrow> k
               | Some a \<Rightarrow> upd_sym a (\<lambda>y. y\<lparr>s_prop := s_prop y @ [p]\<rparr>) k)
      in (p, s\<lparr>bk := k, next_prop := Suc p\<rparr>))"

text \<open>The entries above an entry, from the inside.\<close>

partial_function (option) ancestors :: "menu_map \<Rightarrow> mid \<Rightarrow> mid list option" where
  "ancestors M m =
     (case m_parent (M m) of
        None \<Rightarrow> Some []
      | Some p \<Rightarrow> Option.bind (ancestors M p) (\<lambda>l. Some (p # l)))"

declare ancestors.simps [code]

definition menu_add_prompt :: "prop_type \<Rightarrow> string \<Rightarrow> expr option \<Rightarrow> build_state \<Rightarrow> (pid \<times> build_state) option" where
  "menu_add_prompt ty prompt dep s = do {
     let (p, s) = menu_add_prop ty P_NONE dep s;
     let s = (if prompt \<noteq> [] \<and> isspace (hd prompt)
              then b_kstate (prop_warn p ''leading whitespace ignored'') s else s);
     let prompt = dropWhile isspace prompt;
     let s = (if m_prompt (menus (bk s) (current_entry s)) \<noteq> None
              then b_kstate (prop_warn p ''prompt redefined'') s else s);
     s \<leftarrow> (if ty = P_PROMPT then do {
              above \<leftarrow> ancestors (menus (bk s)) (current_entry s);
              Some (b_kstate (upd_prop p (\<lambda>q. q\<lparr>p_visible_expr :=
                fold (\<lambda>m e. case m_visibility (menus (bk s) m) of None \<Rightarrow> e | Some v \<Rightarrow> expr_alloc_and e (Some v))
                  above (p_visible_expr q)\<rparr>)) s)
            } else Some s);
     let s = b_kstate (upd_menu (current_entry s) (\<lambda>e. e\<lparr>m_prompt := Some p\<rparr>)) s;
     let s = b_kstate (upd_prop p (\<lambda>q. q\<lparr>p_text := Some prompt\<rparr>)) s;
     Some (p, s)
   }"

definition menu_add_visibility :: "expr option \<Rightarrow> build_state \<Rightarrow> build_state" where
  "menu_add_visibility e s =
     b_kstate (upd_menu (current_entry s) (\<lambda>m. m\<lparr>m_visibility := expr_alloc_and (m_visibility m) e\<rparr>)) s"

definition menu_add_expr :: "prop_type \<Rightarrow> prop_expr \<Rightarrow> expr option \<Rightarrow> build_state \<Rightarrow> build_state" where
  "menu_add_expr ty e dep s = snd (menu_add_prop ty e dep s)"

definition menu_add_symbol :: "prop_type \<Rightarrow> sid \<Rightarrow> expr option \<Rightarrow> build_state \<Rightarrow> build_state" where
  "menu_add_symbol ty a dep s = snd (menu_add_prop ty (P_EXPR (expr_alloc_symbol a)) dep s)"

section \<open>Checks of properties\<close>

text \<open>
  \<open>menu_validate_number\<close>. The text of a symbol without a name (a choice) is read only for
  the types whose text is read.
\<close>

definition menu_validate_number :: "symbol \<Rightarrow> symbol \<Rightarrow> bool option" where
  "menu_validate_number y y2 =
     (if s_type y2 = S_INT \<or> s_type y2 = S_HEX then Some True
      else if s_type y2 \<noteq> S_UNKNOWN then Some False
      else case s_name y2 of
          Some nm \<Rightarrow> Some (sym_string_valid y nm)
        | None \<Rightarrow> (case s_type y of S_STRING \<Rightarrow> Some True | S_UNKNOWN \<Rightarrow> Some False | _ \<Rightarrow> None))"

definition is_symbol_expr :: "prop_expr \<Rightarrow> bool" where
  "is_symbol_expr e \<longleftrightarrow> (case e of P_EXPR (E_SYMBOL _) \<Rightarrow> True | _ \<Rightarrow> False)"

definition check_default_number :: "symbol \<Rightarrow> pid \<Rightarrow> symbol \<Rightarrow> kstate \<Rightarrow> kstate option" where
  "check_default_number y p y2 k =
     (if s_type y = S_HEX \<or> s_type y = S_INT then do {
        ok \<leftarrow> menu_validate_number y y2;
        Some (if ok then k else prop_warn p (single_quoted (name_text y) @ '': number is invalid'') k)
      } else Some k)"

definition check_default_member :: "sid \<Rightarrow> pid \<Rightarrow> symbol \<Rightarrow> kstate \<Rightarrow> kstate option" where
  "check_default_member a p y2 k =
     (if sym_is_choice (syms k a) then do {
        choice \<leftarrow> sym_get_choice_menu (syms k) (menus k) y2;
        Some (if (case choice of None \<Rightarrow> True | Some c \<Rightarrow> m_sym (menus k c) \<noteq> Some a)
              then prop_warn p (''choice default symbol '' @ single_quoted (name_text y2)
                     @ '' is not contained in the choice'') k
              else k)
      } else Some k)"

definition check_default :: "sid \<Rightarrow> pid \<Rightarrow> kstate \<Rightarrow> kstate option" where
  "check_default a p k =
     (let y = syms k a; e = p_expr (props k p);
          k1 = (if s_type y \<in> {S_STRING, S_INT, S_HEX} \<and> \<not> is_symbol_expr e
                then prop_warn p (''default for config symbol '' @ single_quoted (name_text y) @ '' must be a single symbol'') k
                else k)
      in if e = P_NONE then None
         else case prop_get_symbol (props k p) of
             None \<Rightarrow> Some k1
           | Some a2 \<Rightarrow> Option.bind (check_default_number y p (syms k a2) k1) (check_default_member a p (syms k a2)))"

definition check_select :: "sid \<Rightarrow> pid \<Rightarrow> kstate \<Rightarrow> kstate option" where
  "check_select a p k =
     (let y = syms k a;
          use = (if p_type (props k p) = P_SELECT then ''select'' else ''imply'')
      in if s_type y \<noteq> S_BOOLEAN \<and> s_type y \<noteq> S_TRISTATE
         then Some (prop_warn p (''config symbol '' @ single_quoted (name_text y) @ '' uses '' @ use
                @ '', but is not bool or tristate'') k)
         else do {
           a2 \<leftarrow> prop_get_symbol (props k p);
           let y2 = syms k a2;
           Some (if s_type y2 \<noteq> S_UNKNOWN \<and> s_type y2 \<noteq> S_BOOLEAN \<and> s_type y2 \<noteq> S_TRISTATE
                 then prop_warn p (single_quoted (name_text y2) @ '' has wrong type. '' @ single_quoted use
                        @ '' only accept arguments of bool and tristate type'') k
                 else k)
         })"

definition check_range :: "sid \<Rightarrow> pid \<Rightarrow> kstate \<Rightarrow> kstate option" where
  "check_range a p k = do {
     let y = syms k a;
     let k = (if s_type y \<noteq> S_INT \<and> s_type y \<noteq> S_HEX
              then prop_warn p ''range is only allowed for int or hex symbols'' k else k);
     (l, r) \<leftarrow> (case p_expr (props k p) of E_RANGE l r \<Rightarrow> Some (l, r) | _ \<Rightarrow> None);
     okl \<leftarrow> menu_validate_number y (syms k l);
     ok \<leftarrow> (if okl then menu_validate_number y (syms k r) else Some False);
     Some (if ok then k else prop_warn p ''range is invalid'' k)
   }"

definition check_prop :: "sid \<Rightarrow> pid \<Rightarrow> kstate \<Rightarrow> kstate option" where
  "check_prop a p k =
     (case p_type (props k p) of
        P_DEFAULT \<Rightarrow> check_default a p k
      | P_SELECT \<Rightarrow> check_select a p k
      | P_IMPLY \<Rightarrow> check_select a p k
      | P_RANGE \<Rightarrow> check_range a p k
      | _ \<Rightarrow> Some k)"

fun check_prop_list :: "sid \<Rightarrow> pid list \<Rightarrow> kstate \<Rightarrow> kstate option" where
  "check_prop_list a [] k = Some k"
| "check_prop_list a (p # ps) k = Option.bind (check_prop a p k) (check_prop_list a ps)"

definition sym_check_prop :: "sid \<Rightarrow> kstate \<Rightarrow> kstate option" where
  "sym_check_prop a k = check_prop_list a (s_prop (syms k a)) k"

end
