(* ===== verification/BuiltTree.thy ===== *)
theory BuiltTree
  imports MenuBuild
begin

text \<open>
  The state the parser builds. A right border of open menus describes where entries are added,
  \<open>built\<close> is the set of states the calls of the grammar actions reach, and every such state is a
  tree of the entries in the order they were added, with the lists of each symbol in that order
  and properties of the expected forms. In particular evaluations return in it.
\<close>

section \<open>Changes of a tree\<close>

definition links_at :: "menu_map \<Rightarrow> mid \<Rightarrow> mid option \<times> mid option \<times> mid option" where
  "links_at M m = (m_list (M m), m_next (M m), m_parent (M m))"

lemma links_atD:
  assumes "links_at M' m = links_at M m"
  shows "m_list (M' m) = m_list (M m)" "m_next (M' m) = m_next (M m)" "m_parent (M' m) = m_parent (M m)"
  using assms by (simp_all add: links_at_def)

lemma tree_ok_frame:
  "(\<And>x. x \<in> set (preorder t) \<Longrightarrow> links_at M' x = links_at M x) \<Longrightarrow> tree_ok M' t = tree_ok M t"
  "(\<And>x. x \<in> set (forest_preorder ts) \<Longrightarrow> links_at M' x = links_at M x) \<Longrightarrow> forest_ok M' p ts = forest_ok M p ts"
proof (induction t and ts arbitrary: and p rule: preorder_forest_preorder.induct)
  case (1 m ts)
  then show ?case using "1.prems" [of m] by (simp add: links_at_def)
next
  case (3 t ts)
  have "links_at M' (entry t) = links_at M (entry t)" by (rule "3.prems") simp
  with 3 show ?case by (simp add: links_at_def)
qed simp

text \<open>A segment of siblings, followed by \<open>e\<close>.\<close>

definition first_or :: "mtree list \<Rightarrow> mid option \<Rightarrow> mid option" where
  "first_or ts e = (case ts of [] \<Rightarrow> e | t # _ \<Rightarrow> Some (entry t))"

lemma first_or_simps [simp]:
  "first_or [] e = e" "first_or (t # ts) e = Some (entry t)" "first_or ts None = first_entry ts"
  "first_entry (ts @ us) = first_or ts (first_entry us)"
  "first_or (ts @ us) e = first_or ts (first_or us e)"
  by (auto simp: first_or_def split: list.split)

fun seg_ok :: "menu_map \<Rightarrow> mid \<Rightarrow> mtree list \<Rightarrow> mid option \<Rightarrow> bool" where
  "seg_ok M p [] e = True"
| "seg_ok M p (t # ts) e =
     (m_parent (M (entry t)) = Some p \<and> m_next (M (entry t)) = first_or ts e \<and> tree_ok M t \<and> seg_ok M p ts e)"

lemma seg_ok_forest: "seg_ok M p ts None = forest_ok M p ts"
  by (induction ts) auto

lemma forest_ok_append: "forest_ok M p (ts @ us) \<longleftrightarrow> seg_ok M p ts (first_entry us) \<and> forest_ok M p us"
  by (induction ts) auto

lemma seg_ok_append: "seg_ok M p (ts @ us) e \<longleftrightarrow> seg_ok M p ts (first_or us e) \<and> seg_ok M p us e"
  by (induction ts) auto

lemma forest_preorder_append [simp]: "forest_preorder (ts @ us) = forest_preorder ts @ forest_preorder us"
  by (induction ts) auto

lemma seg_ok_frame:
  "(\<And>x. x \<in> set (forest_preorder ts) \<Longrightarrow> links_at M' x = links_at M x) \<Longrightarrow> seg_ok M' p ts e = seg_ok M p ts e"
proof (induction ts)
  case (Cons t ts)
  have "links_at M' (entry t) = links_at M (entry t)" by (rule Cons.prems) simp
  moreover have "tree_ok M' t = tree_ok M t" by (rule tree_ok_frame) (simp add: Cons.prems)
  ultimately show ?case using Cons by (simp add: links_at_def)
qed simp

section \<open>The tree under construction\<close>

text \<open>The menu at depth \<open>d\<close> on the right border of the tree is open; entries are added at its end.\<close>

fun depth_ok :: "nat \<Rightarrow> mtree \<Rightarrow> bool" where
  "depth_ok 0 t = True"
| "depth_ok (Suc d) (MNode m ts) = (ts \<noteq> [] \<and> depth_ok d (last ts))"

fun open_menu :: "nat \<Rightarrow> mtree \<Rightarrow> mid" where
  "open_menu 0 t = entry t"
| "open_menu (Suc d) (MNode m ts) = open_menu d (last ts)"

fun open_slot :: "nat \<Rightarrow> mtree \<Rightarrow> menu_slot" where
  "open_slot 0 (MNode m ts) = (if ts = [] then List_of m else Next_of (entry (last ts)))"
| "open_slot (Suc d) (MNode m ts) = open_slot d (last ts)"

fun add_leaf :: "nat \<Rightarrow> mid \<Rightarrow> mtree \<Rightarrow> mtree" where
  "add_leaf 0 x (MNode m ts) = MNode m (ts @ [MNode x []])"
| "add_leaf (Suc d) x (MNode m ts) = MNode m (butlast ts @ [add_leaf d x (last ts)])"

lemma preorder_add_leaf: "depth_ok d t \<Longrightarrow> preorder (add_leaf d x t) = preorder t @ [x]"
proof (induction d x t rule: add_leaf.induct)
  case (2 d x m ts)
  then obtain bs l where "ts = bs @ [l]" by (cases ts rule: rev_cases) auto
  with 2 show ?case by simp
qed simp

lemma add_leaf_open:
  "depth_ok d t \<Longrightarrow> depth_ok d (add_leaf d x t) \<and> open_menu d (add_leaf d x t) = open_menu d t
     \<and> open_slot d (add_leaf d x t) = Next_of x \<and> entry (add_leaf d x t) = entry t"
  by (induction d x t rule: add_leaf.induct) simp_all

fun slot_owner :: "menu_slot \<Rightarrow> mid" where
  "slot_owner (List_of m) = m"
| "slot_owner (Next_of m) = m"

lemma last_preorder_in: "ts \<noteq> [] \<Longrightarrow> set (preorder (last ts)) \<subseteq> set (forest_preorder ts)"
  by (cases ts rule: rev_cases) auto

lemma open_in_tree:
  "depth_ok d t \<Longrightarrow> open_menu d t \<in> set (preorder t) \<and> slot_owner (open_slot d t) \<in> set (preorder t)
     \<and> (distinct (preorder t) \<longrightarrow> open_slot d t \<noteq> Next_of (entry t))"
proof (induction d t rule: open_slot.induct)
  case (1 m ts)
  have "ts \<noteq> [] \<Longrightarrow> entry (last ts) \<in> set (forest_preorder ts)"
    using last_preorder_in [of ts] entry_in_preorder [of "last ts"] by blast
  then show ?case by auto
next
  case (2 d m ts)
  then obtain bs l where "ts = bs @ [l]" by (cases ts rule: rev_cases) auto
  with 2 show ?case by (cases "open_slot d l") auto
qed

text \<open>Writing a new leaf into the open slot.\<close>

definition slot_menus :: "menu_slot \<Rightarrow> mid \<Rightarrow> menu_map \<Rightarrow> menu_map \<Rightarrow> bool" where
  "slot_menus s x M M' \<longleftrightarrow>
     (\<forall>y. y \<noteq> x \<longrightarrow> m_parent (M' y) = m_parent (M y)
        \<and> m_list (M' y) = (if s = List_of y then Some x else m_list (M y))
        \<and> m_next (M' y) = (if s = Next_of y then Some x else m_next (M y)))
     \<and> m_list (M' x) = None \<and> m_next (M' x) = None"

lemma slot_menus_links: "slot_menus s x M M' \<Longrightarrow> y \<noteq> x \<Longrightarrow> y \<noteq> slot_owner s \<Longrightarrow> links_at M' y = links_at M y"
  by (cases s) (auto simp: slot_menus_def links_at_def)

lemma tree_ok_add_leaf:
  assumes "depth_ok d t" "tree_ok M t" "distinct (preorder t)" "x \<notin> set (preorder t)"
    "slot_menus (open_slot d t) x M M'" "m_parent (M' x) = Some (open_menu d t)"
  shows "tree_ok M' (add_leaf d x t)"
  using assms
proof (induction d x t rule: add_leaf.induct)
  case (1 x m ts)
  show ?case
  proof (cases ts rule: rev_cases)
    case Nil
    with 1 show ?thesis by (auto simp: slot_menus_def)
  next
    case (snoc bs l)
    have slot: "slot_menus (Next_of (entry l)) x M M'" using 1(5) snoc by simp
    have nin: "x \<noteq> m" "entry l \<noteq> m" "x \<notin> set (forest_preorder bs)" "x \<notin> set (preorder l)" "x \<noteq> entry l"
      "entry l \<notin> set (forest_preorder bs)"
      using 1(3,4) snoc entry_in_preorder [of l] by auto
    have bs: "seg_ok M' m bs (Some (entry l)) = seg_ok M m bs (Some (entry l))"
      using nin by (intro seg_ok_frame slot_menus_links [OF slot]) auto
    have kids: "forest_ok M' (entry l) (children l) = forest_ok M (entry l) (children l)"
    proof (rule tree_ok_frame(2) [OF slot_menus_links [OF slot]])
      fix y assume "y \<in> set (forest_preorder (children l))"
      then show "y \<noteq> x" "y \<noteq> slot_owner (Next_of (entry l))" using nin 1(3) snoc by (auto simp: preorder_hd)
    qed
    obtain el cs where l: "l = MNode el cs" by (cases l)
    have "m_list (M' el) = m_list (M el)" "m_list (M' m) = m_list (M m)" "m_next (M' el) = Some x"
      "m_parent (M' el) = m_parent (M el)"
      using slot nin l by (auto simp: slot_menus_def)
    then show ?thesis
      using 1(2,6) snoc bs kids slot nin unfolding l
      by (auto simp: forest_ok_append slot_menus_def split: list.splits)
  qed
next
  case (2 d x m ts)
  then obtain bs l where ts: "ts = bs @ [l]" by (cases ts rule: rev_cases) auto
  have slot: "slot_menus (open_slot d l) x M M'" using 2 ts by simp
  have own: "slot_owner (open_slot d l) \<in> set (preorder l)" "open_slot d l \<noteq> Next_of (entry l)"
    using open_in_tree [of d l] 2 ts by auto
  have "tree_ok M' (add_leaf d x (last ts))" by (rule "2.IH") (use 2 ts in \<open>auto simp: forest_ok_append\<close>)
  moreover have "seg_ok M' m bs (Some (entry l)) = seg_ok M m bs (Some (entry l))"
    using own 2 ts by (intro seg_ok_frame slot_menus_links [OF slot]) auto
  moreover have "x \<noteq> entry l" "x \<noteq> m" "m \<noteq> slot_owner (open_slot d l)"
    using 2 ts own entry_in_preorder [of l] by auto
  moreover have "entry (add_leaf d x l) = entry l" using add_leaf_open 2 ts by simp
  ultimately show ?case
    using 2 ts slot own slot_menus_links [OF slot, of m]
    by (auto simp: forest_ok_append slot_menus_def links_at_def)
qed

text \<open>Opening the leaf just added, and closing the open menu.\<close>

lemma open_last:
  "depth_ok d t \<Longrightarrow> distinct (preorder t) \<Longrightarrow> open_slot d t = Next_of (last (preorder t)) \<Longrightarrow>
     depth_ok (Suc d) t \<and> open_menu (Suc d) t = last (preorder t) \<and> open_slot (Suc d) t = List_of (last (preorder t))"
proof (induction d t rule: open_slot.induct)
  case (1 m ts)
  show ?case
  proof (cases ts rule: rev_cases)
    case (snoc bs l)
    obtain e cs where l: "l = MNode e cs" by (cases l)
    have "last (preorder l) = e" using 1 snoc by (simp add: l)
    then have "cs = []" using 1(2) snoc l last_in_set [of "forest_preorder cs"]
      by (cases cs) (auto simp: preorder_hd split: if_splits)
    with snoc l show ?thesis by simp
  qed (use 1 in simp)
next
  case (2 d m ts)
  then obtain bs l where ts: "ts = bs @ [l]" by (cases ts rule: rev_cases) auto
  have "preorder l \<noteq> []" by (simp add: preorder_hd)
  then show ?case using 2 ts by simp
qed

lemma close_open:
  "depth_ok (Suc d) t \<Longrightarrow> tree_ok M t \<Longrightarrow>
     depth_ok d t \<and> m_parent (M (open_menu (Suc d) t)) = Some (open_menu d t) \<and> open_slot d t = Next_of (open_menu (Suc d) t)"
proof (induction d t rule: open_slot.induct)
  case (1 m ts)
  then obtain bs l where "ts = bs @ [l]" by (cases ts rule: rev_cases) auto
  with 1 show ?case by (simp add: forest_ok_append)
next
  case (2 d m ts)
  then obtain bs l where "ts = bs @ [l]" by (cases ts rule: rev_cases) auto
  with 2 show ?case by (simp add: forest_ok_append)
qed

section \<open>The sequences of calls the grammar makes\<close>

lemma k_print_sel [simp]:
  "syms (k_print t k) = syms k" "menus (k_print t k) = menus k" "props (k_print t k) = props k"
  "modules_sym (k_print t k) = modules_sym k" "sym_table (k_print t k) = sym_table k" "expr_val (k_print t k) = expr_val k"
  "modules_val (k_print t k) = modules_val k" "next_addr (k_print t k) = next_addr k"
  by (simp_all add: k_print_def)

lemma warn_sel [simp]:
  "syms (menu_warn m t k) = syms k" "menus (menu_warn m t k) = menus k" "props (menu_warn m t k) = props k"
  "modules_sym (menu_warn m t k) = modules_sym k" "sym_table (menu_warn m t k) = sym_table k"
  "syms (prop_warn p t k) = syms k" "menus (prop_warn p t k) = menus k" "props (prop_warn p t k) = props k"
  "modules_sym (prop_warn p t k) = modules_sym k" "sym_table (prop_warn p t k) = sym_table k"
  by (simp_all add: menu_warn_def prop_warn_def)

lemma b_kstate_sel [simp]:
  "bk (b_kstate f s) = f (bk s)" "current_entry (b_kstate f s) = current_entry s"
  "current_menu (b_kstate f s) = current_menu s" "last_entry_ptr (b_kstate f s) = last_entry_ptr s"
  "next_menu (b_kstate f s) = next_menu s" "next_prop (b_kstate f s) = next_prop s"
  "cur_filename (b_kstate f s) = cur_filename s" "cur_lineno (b_kstate f s) = cur_lineno s"
  by (simp_all add: b_kstate_def)

definition entry_sym :: "build_state \<Rightarrow> sid option" where
  "entry_sym s = m_sym (menus (bk s) (current_entry s))"

definition start_state :: "string \<Rightarrow> build_state" where
  "start_state fname = menu_init \<lparr>bk = init_state, current_entry = rootmenu, current_menu = None,
     last_entry_ptr = List_of rootmenu, next_menu = 0, next_prop = 0, cur_filename = fname, cur_lineno = 1\<rparr>"

text \<open>
  The conditions are those the grammar gives: a menu is opened for the entry just added, only an
  open menu is ended, only symbols have a type, the forms of the properties are those of the
  rules, and a symbol gets its name before it is used.
\<close>

inductive built :: "build_state \<Rightarrow> bool" where
  b_start: "built (start_state fname)"
| b_position: "built s \<Longrightarrow> built (s\<lparr>cur_filename := fname, cur_lineno := line\<rparr>)"
| b_symbol: "built s \<Longrightarrow> s_menus (syms (bk s) a) = [] \<Longrightarrow> s_prop (syms (bk s) a) = [] \<Longrightarrow>
    built (b_kstate (upd_sym a (\<lambda>y. y\<lparr>s_name := nm, s_flags := F\<rparr>)) s)"
| b_modules: "built s \<Longrightarrow> built (b_kstate (\<lambda>k. k\<lparr>modules_sym := a\<rparr>) s)"
| b_entry: "built s \<Longrightarrow> built (menu_add_entry osym ty s)"
| b_menu: "built s \<Longrightarrow> last_entry_ptr s = Next_of (current_entry s) \<Longrightarrow> built (snd (menu_add_menu s))"
| b_end: "built s \<Longrightarrow> current_menu s \<noteq> Some rootmenu \<Longrightarrow> menu_end_menu s = Some s' \<Longrightarrow> built s'"
| b_dep: "built s \<Longrightarrow> built (menu_add_dep e s)"
| b_type: "built s \<Longrightarrow> menu_set_type ty s = Some s' \<Longrightarrow> built s'"
| b_prompt: "built s \<Longrightarrow> ty \<in> {P_PROMPT, P_MENU, P_COMMENT} \<Longrightarrow> menu_add_prompt ty t dep s = Some (p, s') \<Longrightarrow> built s'"
| b_visibility: "built s \<Longrightarrow> built (menu_add_visibility e s)"
| b_default: "built s \<Longrightarrow> entry_sym s = Some a \<Longrightarrow> \<not> sym_is_choice (syms (bk s) a) \<Longrightarrow>
    built (menu_add_expr P_DEFAULT (P_EXPR e) dep s)"
| b_range: "built s \<Longrightarrow> built (menu_add_expr P_RANGE (E_RANGE l r) dep s)"
| b_prop_symbol: "built s \<Longrightarrow> ty \<in> {P_SELECT, P_IMPLY, P_DEFAULT} \<Longrightarrow> built (menu_add_symbol ty a dep s)"

section \<open>The tree\<close>

definition tree_at :: "mtree \<Rightarrow> nat \<Rightarrow> build_state \<Rightarrow> bool" where
  "tree_at t d s \<longleftrightarrow> tree_ok (menus (bk s)) t \<and> preorder t = rootmenu # map Menu [0 ..< next_menu s]
     \<and> depth_ok d t \<and> current_menu s = Some (open_menu d t) \<and> last_entry_ptr s = open_slot d t
     \<and> current_entry s = last (preorder t)
     \<and> m_parent (menus (bk s) rootmenu) = None \<and> m_next (menus (bk s) rootmenu) = None
     \<and> (\<forall>i \<ge> next_menu s. m_parent (menus (bk s) (Menu i)) = None \<and> m_sym (menus (bk s) (Menu i)) = None)
     \<and> m_sym (menus (bk s) rootmenu) = None"

lemma distinct_entries [simp]: "distinct (rootmenu # map Menu [0 ..< n])"
  by (auto simp: distinct_map inj_on_def)

text \<open>Steps that leave the pointers between entries alone.\<close>

definition same_tree :: "build_state \<Rightarrow> build_state \<Rightarrow> bool" where
  "same_tree s s' \<longleftrightarrow> (\<forall>m. links_at (menus (bk s')) m = links_at (menus (bk s)) m
       \<and> m_sym (menus (bk s') m) = m_sym (menus (bk s) m))
     \<and> next_menu s' = next_menu s \<and> current_menu s' = current_menu s
     \<and> last_entry_ptr s' = last_entry_ptr s \<and> current_entry s' = current_entry s"

lemma same_treeD:
  assumes "same_tree s s'"
  shows "tree_ok (menus (bk s')) t = tree_ok (menus (bk s)) t"
    and "m_list (menus (bk s') m) = m_list (menus (bk s) m)" "m_next (menus (bk s') m) = m_next (menus (bk s) m)"
    "m_parent (menus (bk s') m) = m_parent (menus (bk s) m)" "m_sym (menus (bk s') m) = m_sym (menus (bk s) m)"
    "next_menu s' = next_menu s" "current_menu s' = current_menu s" "last_entry_ptr s' = last_entry_ptr s"
    "current_entry s' = current_entry s"
  using assms tree_ok_frame(1) [of t "menus (bk s')" "menus (bk s)"] by (auto simp: same_tree_def links_at_def)

lemma same_tree_at: "same_tree s s' \<Longrightarrow> tree_at t d s' = tree_at t d s"
  by (simp add: tree_at_def same_treeD)

lemma tree_kept: "\<exists>t d. tree_at t d s \<Longrightarrow> same_tree s s' \<Longrightarrow> \<exists>t d. tree_at t d s'"
  by (simp add: same_tree_at)

lemma tree_add_entry:
  assumes "tree_at t d s"
  shows "tree_at (add_leaf d (Menu (next_menu s)) t) d (menu_add_entry osym ty s)"
proof -
  let ?x = "Menu (next_menu s)"
  from assms have t: "tree_ok (menus (bk s)) t" "depth_ok d t" "last_entry_ptr s = open_slot d t"
    and pre: "preorder t = rootmenu # map Menu [0 ..< next_menu s]"
    and cm: "current_menu s = Some (open_menu d t)" by (auto simp: tree_at_def)
  have x: "?x \<notin> set (preorder t)" by (auto simp: pre)
  with open_in_tree [OF t(2)] have own: "slot_owner (open_slot d t) \<noteq> ?x" "slot_owner (open_slot d t) \<in> set (preorder t)"
    "open_slot d t \<noteq> Next_of rootmenu"
    using pre distinct_entries [of "next_menu s"] preorder_hd [of t] by (auto split: if_splits)
  let ?s = "menu_add_entry osym ty s"
  have M: "menus (bk ?s) = menus (set_slot (open_slot d t) ?x (upd_menu ?x (\<lambda>_. blank_menu\<lparr>m_type := ty,
      m_sym := osym, m_parent := current_menu s, m_filename := cur_filename s, m_lineno := cur_lineno s\<rparr>) (bk s)))"
    by (simp add: menu_add_entry_def Let_def t(3) split: option.split)
  have slot: "slot_menus (open_slot d t) ?x (menus (bk s)) (menus (bk ?s))"
    using own by (cases "open_slot d t") (auto simp: slot_menus_def M set_slot_def blank_menu_def)
  have par: "m_parent (menus (bk ?s) ?x) = Some (open_menu d t)"
    using own by (cases "open_slot d t") (auto simp: M set_slot_def cm)
  have sym: "m_sym (menus (bk ?s) y) = m_sym (menus (bk s) y)" if "y \<noteq> ?x" for y
    using that by (cases "open_slot d t") (auto simp: M set_slot_def)
  have "tree_ok (menus (bk ?s)) (add_leaf d ?x t)"
    by (rule tree_ok_add_leaf [OF t(2,1) _ x slot par]) (simp only: pre distinct_entries)
  moreover have "next_menu ?s = Suc (next_menu s)" "current_entry ?s = ?x" "last_entry_ptr ?s = Next_of ?x"
    "current_menu ?s = current_menu s"
    by (simp_all add: menu_add_entry_def Let_def)
  ultimately show ?thesis
    using assms slot own add_leaf_open [OF t(2), of ?x] preorder_add_leaf [OF t(2), of ?x] pre
    by (auto simp: tree_at_def slot_menus_def sym)
qed

lemma built_tree: "built s \<Longrightarrow> \<exists>t d. tree_at t d s"
proof (induction rule: built.induct)
  case (b_start fname)
  have "tree_at (MNode rootmenu []) 0 (start_state fname)"
    by (simp add: tree_at_def start_state_def menu_init_def init_state_def blank_menu_def)
  then show ?case by blast
next
  case (b_entry s osym ty)
  then show ?case using tree_add_entry by blast
next
  case (b_menu s)
  then obtain t d where t: "tree_at t d s" by blast
  then have "distinct (preorder t)" unfolding tree_at_def by (simp only: distinct_entries)
  with open_last [of d t] t b_menu have "tree_at t (Suc d) (snd (menu_add_menu s))"
    by (auto simp: tree_at_def menu_add_menu_def)
  then show ?case by blast
next
  case (b_end s s')
  then obtain t d where t: "tree_at t d s" by blast
  have "entry t = rootmenu" using t by (simp add: tree_at_def preorder_hd)
  with b_end t obtain d' where d: "d = Suc d'" by (cases d) (auto simp: tree_at_def)
  with close_open [of d' t "menus (bk s)"] t b_end have "tree_at t d' s'"
    by (auto simp: tree_at_def menu_end_menu_def)
  then show ?case by blast
next
  case (b_type s ty s')
  then have "same_tree s s'"
    by (auto simp: menu_set_type_def bind_Some_iff Let_def same_tree_def links_at_def)
  with b_type show ?case by (simp add: same_tree_at)
next
  case (b_prompt s ty t dep p s')
  then have "same_tree s s'"
    by (auto simp: menu_add_prompt_def menu_add_prop_def bind_Some_iff Let_def same_tree_def links_at_def
        split: option.splits if_splits)
  with b_prompt show ?case by (simp add: same_tree_at)
qed (erule tree_kept, simp add: same_tree_def links_at_def menu_add_dep_def menu_add_visibility_def
      menu_add_expr_def menu_add_symbol_def menu_add_prop_def Let_def split: option.split)+

section \<open>The lists of a symbol\<close>

text \<open>
  The list of the entries of a symbol and the list of its properties hold what was added for it,
  in the order of the calls.
\<close>

definition lists_ok :: "build_state \<Rightarrow> bool" where
  "lists_ok s \<longleftrightarrow>
     (\<forall>a. s_menus (syms (bk s) a) = filter (\<lambda>m. m_sym (menus (bk s) m) = Some a) (map Menu [0 ..< next_menu s]))
     \<and> (\<forall>p < next_prop s. p_menu (props (bk s) p) \<in> insert rootmenu (Menu ` {..< next_menu s}))
     \<and> (\<forall>a. s_prop (syms (bk s) a) = filter (\<lambda>p. m_sym (menus (bk s) (p_menu (props (bk s) p))) = Some a) [0 ..< next_prop s])"

lemma lists_okD:
  assumes "lists_ok s"
  shows "s_menus (syms (bk s) a) = filter (\<lambda>m. m_sym (menus (bk s) m) = Some a) (map Menu [0 ..< next_menu s])"
    "p < next_prop s \<Longrightarrow> p_menu (props (bk s) p) \<in> insert rootmenu (Menu ` {..< next_menu s})"
    "s_prop (syms (bk s) a) = filter (\<lambda>p. m_sym (menus (bk s) (p_menu (props (bk s) p))) = Some a) [0 ..< next_prop s]"
  using assms by (auto simp: lists_ok_def)

lemma lists_ok_same:
  assumes "lists_ok s" "next_menu s' = next_menu s" "next_prop s' = next_prop s"
    "\<And>m. m_sym (menus (bk s') m) = m_sym (menus (bk s) m)" "\<And>p. p_menu (props (bk s') p) = p_menu (props (bk s) p)"
    "\<And>a. s_menus (syms (bk s') a) = s_menus (syms (bk s) a)" "\<And>a. s_prop (syms (bk s') a) = s_prop (syms (bk s) a)"
  shows "lists_ok s'"
  using assms by (simp add: lists_ok_def)

lemma lists_add_entry:
  assumes l: "lists_ok s" and t: "tree_at t d s"
  shows "lists_ok (menu_add_entry osym ty s)"
proof -
  let ?x = "Menu (next_menu s)" and ?s = "menu_add_entry osym ty s"
  have n: "next_menu ?s = Suc (next_menu s)" "next_prop ?s = next_prop s" by (simp_all add: menu_add_entry_def Let_def)
  have sym: "m_sym (menus (bk ?s) y) = (if y = ?x then osym else m_sym (menus (bk s) y))" for y
    by (cases "last_entry_ptr s") (auto simp: menu_add_entry_def Let_def set_slot_def split: option.split)
  have sl: "syms (set_slot q m k) = syms k" "props (set_slot q m k) = props k" for q m k
    by (cases q; simp add: set_slot_def)+
  have lists: "s_menus (syms (bk ?s) a) = s_menus (syms (bk s) a) @ (if osym = Some a then [?x] else [])"
    "s_prop (syms (bk ?s) a) = s_prop (syms (bk s) a)" "props (bk ?s) = props (bk s)" for a
    by (auto simp: menu_add_entry_def Let_def sl split: option.split)
  have old: "p_menu (props (bk s) p) \<noteq> ?x" if "p < next_prop s" for p
    using lists_okD(2) [OF l that] by auto
  show ?thesis
    unfolding lists_ok_def
  proof (intro conjI allI impI)
    fix a
    have "filter (\<lambda>m. m_sym (menus (bk ?s) m) = Some a) (map Menu [0 ..< next_menu s])
        = filter (\<lambda>m. m_sym (menus (bk s) m) = Some a) (map Menu [0 ..< next_menu s])"
      by (rule filter_cong) (auto simp: sym)
    then show "s_menus (syms (bk ?s) a) = filter (\<lambda>m. m_sym (menus (bk ?s) m) = Some a) (map Menu [0 ..< next_menu ?s])"
      by (simp add: n lists lists_okD(1) [OF l] sym)
    show "s_prop (syms (bk ?s) a)
        = filter (\<lambda>p. m_sym (menus (bk ?s) (p_menu (props (bk ?s) p))) = Some a) [0 ..< next_prop ?s]"
      unfolding n lists lists_okD(3) [OF l] by (rule filter_cong) (auto simp: sym old)
  next
    fix p assume "p < next_prop ?s"
    then show "p_menu (props (bk ?s) p) \<in> insert rootmenu (Menu ` {..< next_menu ?s})"
      using lists_okD(2) [OF l, of p] by (auto simp: n lists)
  qed
qed

lemma tree_current: "tree_at t d s \<Longrightarrow> current_entry s \<in> insert rootmenu (Menu ` {..< next_menu s})"
proof -
  assume t: "tree_at t d s"
  have "last (rootmenu # map Menu [0 ..< next_menu s]) \<in> set (rootmenu # map Menu [0 ..< next_menu s])"
    by (rule last_in_set) simp
  with t show ?thesis by (auto simp: tree_at_def)
qed

lemma add_prop_sel:
  "next_menu (snd (menu_add_prop ty e dep s)) = next_menu s"
  "next_prop (snd (menu_add_prop ty e dep s)) = Suc (next_prop s)"
  "menus (bk (snd (menu_add_prop ty e dep s))) = menus (bk s)"
  "props (bk (snd (menu_add_prop ty e dep s))) p =
     (if p = next_prop s then blank_prop\<lparr>p_type := ty, p_filename := cur_filename s, p_lineno := cur_lineno s,
                p_menu := current_entry s, p_expr := e, p_visible_expr := dep\<rparr> else props (bk s) p)"
  "syms (bk (snd (menu_add_prop ty e dep s))) a =
     (if entry_sym s = Some a then (syms (bk s) a)\<lparr>s_prop := s_prop (syms (bk s) a) @ [next_prop s]\<rparr> else syms (bk s) a)"
  "current_entry (snd (menu_add_prop ty e dep s)) = current_entry s"
  "fst (menu_add_prop ty e dep s) = next_prop s"
  by (auto simp: menu_add_prop_def Let_def entry_sym_def split: option.split)

lemma lists_add_prop:
  assumes l: "lists_ok s" and t: "tree_at t d s"
  shows "lists_ok (snd (menu_add_prop ty e dep s))"
proof -
  let ?s = "snd (menu_add_prop ty e dep s)"
  show ?thesis
    unfolding lists_ok_def
  proof (intro conjI allI impI)
    fix a
    show "s_menus (syms (bk ?s) a) = filter (\<lambda>m. m_sym (menus (bk ?s) m) = Some a) (map Menu [0 ..< next_menu ?s])"
      by (simp add: add_prop_sel lists_okD(1) [OF l])
    have "filter (\<lambda>p. m_sym (menus (bk s) (p_menu (props (bk ?s) p))) = Some a) [0 ..< next_prop s]
        = filter (\<lambda>p. m_sym (menus (bk s) (p_menu (props (bk s) p))) = Some a) [0 ..< next_prop s]"
      by (rule filter_cong) (auto simp: add_prop_sel)
    then show "s_prop (syms (bk ?s) a)
        = filter (\<lambda>p. m_sym (menus (bk ?s) (p_menu (props (bk ?s) p))) = Some a) [0 ..< next_prop ?s]"
      by (simp add: add_prop_sel lists_okD(3) [OF l] entry_sym_def)
  next
    fix p assume "p < next_prop ?s"
    then show "p_menu (props (bk ?s) p) \<in> insert rootmenu (Menu ` {..< next_menu ?s})"
      using lists_okD(2) [OF l, of p] tree_current [OF t] by (simp add: add_prop_sel)
  qed
qed

text \<open>A prompt is a property, and some fields of it and of the entry.\<close>

lemma add_prompt_sel:
  assumes "menu_add_prompt ty txt dep s = Some (p, s')"
  defines "s1 \<equiv> snd (menu_add_prop ty P_NONE dep s)"
  shows "next_menu s' = next_menu s1" "next_prop s' = next_prop s1" "syms (bk s') = syms (bk s1)"
    "m_sym (menus (bk s') m) = m_sym (menus (bk s1) m)"
    "p_menu (props (bk s') q) = p_menu (props (bk s1) q)" "p_type (props (bk s') q) = p_type (props (bk s1) q)"
    "p_expr (props (bk s') q) = p_expr (props (bk s1) q)"
  using assms(1) unfolding s1_def
  by (auto simp: menu_add_prompt_def bind_Some_iff Let_def split: prod.splits if_splits)

lemma built_lists: "built s \<Longrightarrow> lists_ok s"
proof (induction rule: built.induct)
  case (b_start fname)
  show ?case
    by (auto simp: lists_ok_def start_state_def menu_init_def init_state_def init_syms_def const_symbol_def
        blank_symbol_def split: sid.split)
next
  case (b_entry s osym ty)
  with built_tree show ?case by (blast intro: lists_add_entry)
next
  case (b_end s s')
  then show ?case by (auto simp: menu_end_menu_def intro: lists_ok_same split: option.splits)
next
  case (b_type s ty s')
  from b_type show ?case
    by (intro lists_ok_same [OF b_type.IH]) (auto simp: menu_set_type_def bind_Some_iff Let_def)
next
  case (b_prompt s ty t dep p s')
  with built_tree have "lists_ok (snd (menu_add_prop ty P_NONE dep s))" by (blast intro: lists_add_prop)
  then show ?case by (rule lists_ok_same) (simp_all add: add_prompt_sel [OF b_prompt(3)])
next
  case (b_default s a e dep)
  with built_tree show ?case unfolding menu_add_expr_def by (blast intro: lists_add_prop)
next
  case (b_range s l r dep)
  with built_tree show ?case unfolding menu_add_expr_def by (blast intro: lists_add_prop)
next
  case (b_prop_symbol s ty a dep)
  with built_tree show ?case unfolding menu_add_symbol_def by (blast intro: lists_add_prop)
qed (erule lists_ok_same; simp add: menu_add_menu_def menu_add_dep_def menu_add_visibility_def)+

section \<open>The forms of properties\<close>

definition prop_form :: "property \<Rightarrow> bool" where
  "prop_form q \<longleftrightarrow> (p_type q = P_RANGE \<longrightarrow> range_of q \<noteq> None)
     \<and> (p_type q \<in> {P_SELECT, P_IMPLY} \<longrightarrow> prop_get_symbol q \<noteq> None)
     \<and> (p_type q = P_DEFAULT \<longrightarrow> p_expr q \<noteq> P_NONE)"

definition forms_ok :: "build_state \<Rightarrow> bool" where
  "forms_ok s \<longleftrightarrow> (\<forall>p. prop_form (props (bk s) p))
     \<and> (\<forall>a. rev_dep_expr (syms (bk s) a) = None \<and> rev_dep_tri (syms (bk s) a) = tri_no)
     \<and> (\<forall>a p. sym_is_choice (syms (bk s) a) \<longrightarrow> p \<in> set (s_prop (syms (bk s) a)) \<longrightarrow> p_type (props (bk s) p) = P_DEFAULT
          \<longrightarrow> prop_get_symbol (props (bk s) p) \<noteq> None)"

lemma forms_same:
  assumes "forms_ok s"
    "\<And>p. p_type (props (bk s') p) = p_type (props (bk s) p)" "\<And>p. p_expr (props (bk s') p) = p_expr (props (bk s) p)"
    "\<And>a. s_prop (syms (bk s') a) = s_prop (syms (bk s) a)"
    "\<And>a. rev_dep_expr (syms (bk s') a) = rev_dep_expr (syms (bk s) a)"
    "\<And>a. rev_dep_tri (syms (bk s') a) = rev_dep_tri (syms (bk s) a)"
    "\<And>a. s_prop (syms (bk s) a) \<noteq> [] \<Longrightarrow> s_name (syms (bk s') a) = s_name (syms (bk s) a)"
  shows "forms_ok s'"
proof -
  have "prop_get_symbol (props (bk s') p) = prop_get_symbol (props (bk s) p)" "range_of (props (bk s') p) = range_of (props (bk s) p)" for p
    using assms(2,3) by (simp_all add: prop_get_symbol_def range_of_def)
  moreover have "p \<in> set (s_prop (syms (bk s) a)) \<Longrightarrow> s_name (syms (bk s') a) = s_name (syms (bk s) a)" for p a
    by (rule assms(7)) auto
  ultimately show ?thesis using assms unfolding forms_ok_def prop_form_def sym_is_choice_def by metis
qed

lemma forms_add_prop:
  assumes f: "forms_ok s" and l: "lists_ok s"
    and q: "prop_form (blank_prop\<lparr>p_type := ty, p_expr := e\<rparr>)"
    and c: "\<And>a. ty = P_DEFAULT \<Longrightarrow> entry_sym s = Some a \<Longrightarrow> sym_is_choice (syms (bk s) a) \<Longrightarrow>
       prop_get_symbol (blank_prop\<lparr>p_expr := e\<rparr>) \<noteq> None"
  shows "forms_ok (snd (menu_add_prop ty e dep s))"
proof -
  have old: "next_prop s \<notin> set (s_prop (syms (bk s) a))" for a by (simp add: lists_okD(3) [OF l])
  show ?thesis
    using assms unfolding forms_ok_def add_prop_sel
    by (auto simp: prop_form_def range_of_def prop_get_symbol_def sym_is_choice_def old split: if_splits)
qed

lemma built_forms: "built s \<Longrightarrow> forms_ok s"
proof (induction rule: built.induct)
  case (b_start fname)
  show ?case
    by (auto simp: forms_ok_def prop_form_def start_state_def menu_init_def init_state_def init_syms_def const_symbol_def
        blank_symbol_def blank_prop_def split: sid.split)
next
  case (b_end s s')
  then show ?case by (auto simp: menu_end_menu_def intro: forms_same split: option.splits)
next
  case (b_entry s osym ty)
  have sl: "syms (set_slot q m k) = syms k" "props (set_slot q m k) = props k" for q m k
    by (cases q; simp add: set_slot_def)+
  show ?case by (rule forms_same [OF b_entry.IH]) (auto simp: menu_add_entry_def Let_def sl split: option.split)
next
  case (b_type s ty s')
  from b_type show ?case
    by (intro forms_same [OF b_type.IH]) (auto simp: menu_set_type_def bind_Some_iff Let_def)
next
  case (b_prompt s ty t dep p s')
  with built_lists have "forms_ok (snd (menu_add_prop ty P_NONE dep s))"
    by (intro forms_add_prop) (auto simp: prop_form_def)
  then show ?case by (rule forms_same) (simp_all add: add_prompt_sel [OF b_prompt(3)])
next
  case (b_default s a e dep)
  with built_lists show ?case unfolding menu_add_expr_def
    by (intro forms_add_prop) (auto simp: prop_form_def)
next
  case (b_range s l r dep)
  with built_lists show ?case unfolding menu_add_expr_def
    by (intro forms_add_prop) (auto simp: prop_form_def range_of_def)
next
  case (b_prop_symbol s ty a dep)
  with built_lists show ?case unfolding menu_add_symbol_def
    by (intro forms_add_prop) (auto simp: prop_form_def prop_get_symbol_def expr_alloc_symbol_def)
qed (erule forms_same; auto simp: menu_add_menu_def menu_add_dep_def menu_add_visibility_def)+

section \<open>What the built tree is good for\<close>

lemma subtree:
  "m \<in> set (preorder t) \<Longrightarrow> tree_ok M t \<Longrightarrow> distinct (preorder t) \<Longrightarrow>
     \<exists>ts. tree_ok M (MNode m ts) \<and> m \<notin> set (forest_preorder ts)"
  "m \<in> set (forest_preorder ts) \<Longrightarrow> forest_ok M p ts \<Longrightarrow> distinct (forest_preorder ts) \<Longrightarrow>
     \<exists>us. tree_ok M (MNode m us) \<and> m \<notin> set (forest_preorder us)"
  by (induction t and ts arbitrary: and p rule: preorder_forest_preorder.induct) fastforce+

lemma ancestors_below:
  "tree_ok M t \<Longrightarrow> ancestors M (entry t) \<noteq> None \<Longrightarrow> m \<in> set (preorder t) \<Longrightarrow> ancestors M m \<noteq> None"
  "forest_ok M p ts \<Longrightarrow> ancestors M p \<noteq> None \<Longrightarrow> m \<in> set (forest_preorder ts) \<Longrightarrow> ancestors M m \<noteq> None"
proof (induction t and ts arbitrary: and p rule: preorder_forest_preorder.induct)
  case (3 t ts)
  then have "ancestors M (entry t) \<noteq> None" by (subst ancestors.simps) auto
  with "3.IH"(1) "3.IH"(2) [of p] "3.prems" show ?case by auto
qed auto

lemma tree_at_walks:
  assumes "tree_at t d s"
  shows "up_to_sym (menus (bk s)) m \<noteq> None" "ancestors (menus (bk s)) m \<noteq> None"
    "m_sym (menus (bk s) m) \<noteq> None \<Longrightarrow> sub_entries (menus (bk s)) m \<noteq> None"
proof -
  let ?M = "menus (bk s)"
  have t: "tree_ok ?M t" and pre: "preorder t = rootmenu # map Menu [0 ..< next_menu s]"
    and root: "m_parent (?M rootmenu) = None"
    and new: "\<And>i. next_menu s \<le> i \<Longrightarrow> m_parent (?M (Menu i)) = None \<and> m_sym (?M (Menu i)) = None"
    using assms by (auto simp: tree_at_def)
  have e: "entry t = rootmenu" using pre by (simp add: preorder_hd)
  have dist: "distinct (preorder t)" unfolding pre by (rule distinct_entries)
  have cases: "m \<in> set (preorder t) \<or> m_parent (?M m) = None \<and> m_sym (?M m) = None"
    using new by (cases m) (auto simp: pre image_iff not_le)
  have "ancestors ?M rootmenu \<noteq> None" by (subst ancestors.simps) (simp add: root)
  with cases ancestors_below(1) [OF t] show "ancestors ?M m \<noteq> None"
    by (subst (asm) e [symmetric], cases "m \<in> set (preorder t)") (blast, subst ancestors.simps, simp)
  show "up_to_sym ?M m \<noteq> None"
    using cases up_to_sym_tree [OF t] root e by (cases "m \<in> set (preorder t)") (simp, subst up_to_sym.simps, simp)
  show "sub_entries ?M m \<noteq> None" if "m_sym (?M m) \<noteq> None"
  proof -
    from cases that have "m \<in> set (preorder t)" by auto
    from subtree(1) [OF this t dist] show ?thesis by (auto simp: sub_entries_preorder)
  qed
qed

text \<open>The result of parsing is a state in which evaluations return.\<close>

theorem built_wf_state:
  assumes "built s"
  shows "wf_state (bk s)"
proof -
  from built_tree [OF assms] obtain t d where t: "tree_at t d s" by blast
  from built_forms [OF assms] have f: "forms_ok s" .
  show ?thesis
    unfolding wf_state_def
    using f tree_at_walks [OF t] by (auto simp: forms_ok_def prop_form_def)
qed

lemma menu_add_prompt_returns: "built s \<Longrightarrow> menu_add_prompt ty txt dep s \<noteq> None"
proof -
  assume "built s"
  then obtain t d where t: "tree_at t d s" using built_tree by blast
  have "\<exists>l. ancestors (menus (bk s)) m = Some l" for m using tree_at_walks(2) [OF t, of m] by auto
  moreover have "\<exists>p s1. menu_add_prop ty P_NONE dep s = (p, s1) \<and> menus (bk s1) = menus (bk s)"
    by (cases "menu_add_prop ty P_NONE dep s") (use add_prop_sel(3) [of ty P_NONE dep s] in auto)
  ultimately show ?thesis by (auto simp: menu_add_prompt_def Let_def bind_Some_iff split: prod.splits)
qed

end
