(* ===== verification/MenuFinal.thy ===== *)
theory MenuFinal
  imports BuiltTree
begin

text \<open>
  \<open>_menu_finalize\<close> of \<^verbatim>\<open>parser/menu.c\<close>: dependencies are handed down the menu tree, selects
  and implies are entered at their targets, entries that depend on the symbol before them become
  its submenu, and entries without a prompt give their submenu up again. Walks along the sibling
  pointers are partial functions; the recursion is closed with fuel, and the number of entries
  is enough of it.
\<close>

section \<open>Dependencies\<close>

definition finalize_dep :: "kstate \<Rightarrow> expr option \<Rightarrow> expr option \<Rightarrow> expr option option" where
  "finalize_dep k base_dep e = do {
     e \<leftarrow> expr_transform (syms k) (rewrite_m (modules_sym k) e);
     Some (expr_eliminate_dups (syms k) (expr_alloc_and base_dep e))
   }"

definition sym_dep_expr :: "kstate \<Rightarrow> mid \<Rightarrow> expr option \<Rightarrow> expr option option" where
  "sym_dep_expr k m dep = do {
     a \<leftarrow> m_sym (menus k m);
     Some (expr_alloc_and (Some (expr_alloc_symbol a)) dep)
   }"

text \<open>A select or imply of the entry enters its target.\<close>

definition enter_dep :: "mid \<Rightarrow> expr option \<Rightarrow> pid \<Rightarrow> kstate \<Rightarrow> kstate option" where
  "enter_dep m dep p k =
     (if p_type (props k p) = P_SELECT then do {
        es \<leftarrow> prop_get_symbol (props k p);
        e \<leftarrow> sym_dep_expr k m dep;
        Some (upd_sym es (\<lambda>y. y\<lparr>rev_dep_expr := expr_alloc_or (rev_dep_expr y) e\<rparr>) k)
      }
      else if p_type (props k p) = P_IMPLY then do {
        es \<leftarrow> prop_get_symbol (props k p);
        e \<leftarrow> sym_dep_expr k m dep;
        Some (upd_sym es (\<lambda>y. y\<lparr>implied_expr := expr_alloc_or (implied_expr y) e\<rparr>) k)
      }
      else Some k)"

definition finalize_prop :: "mid \<Rightarrow> expr option \<Rightarrow> pid \<Rightarrow> kstate \<Rightarrow> kstate option" where
  "finalize_prop m base_dep p k =
     (if p_menu (props k p) \<noteq> m then Some k
      else do {
        dep \<leftarrow> finalize_dep k base_dep (p_visible_expr (props k p));
        enter_dep m dep p (upd_prop p (\<lambda>q. q\<lparr>p_visible_expr := dep\<rparr>) k)
      })"

fun finalize_props :: "mid \<Rightarrow> expr option \<Rightarrow> pid list \<Rightarrow> kstate \<Rightarrow> kstate option" where
  "finalize_props m base_dep [] k = Some k"
| "finalize_props m base_dep (p # ps) k =
     Option.bind (finalize_prop m base_dep p k) (finalize_props m base_dep ps)"

definition entry_props :: "kstate \<Rightarrow> mid \<Rightarrow> pid list" where
  "entry_props k m =
     (case m_sym (menus k m) of
        Some a \<Rightarrow> s_prop (syms k a)
      | None \<Rightarrow> (case m_prompt (menus k m) of None \<Rightarrow> [] | Some p \<Rightarrow> [p]))"

definition finalize_child :: "mid \<Rightarrow> mid \<Rightarrow> kstate \<Rightarrow> kstate option" where
  "finalize_child parent m k = do {
     base_dep \<leftarrow> finalize_dep k (m_dep (menus k parent)) (m_dep (menus k m));
     let k = upd_menu m (\<lambda>e. e\<lparr>m_dep := base_dep\<rparr>) k;
     finalize_props m base_dep (entry_props k m) k
   }"

section \<open>Siblings\<close>

text \<open>\<open>for (menu = m; menu; menu = menu->next)\<close>, reading the pointer after the body.\<close>

partial_function (option) each_sibling :: "(mid \<Rightarrow> kstate \<Rightarrow> kstate option) \<Rightarrow> mid option \<Rightarrow> kstate \<Rightarrow> kstate option" where
  "each_sibling f m k =
     (case m of
        None \<Rightarrow> Some k
      | Some i \<Rightarrow> Option.bind (f i k) (\<lambda>k. each_sibling f (m_next (menus k i)) k))"

text \<open>The entries that become the submenu of \<open>parent\<close>; the result is the last of them.\<close>

definition entry_dep :: "kstate \<Rightarrow> mid \<Rightarrow> expr option" where
  "entry_dep k m =
     (case m_prompt (menus k m) of Some p \<Rightarrow> p_visible_expr (props k p) | None \<Rightarrow> m_dep (menus k m))"

definition superset_dep :: "kstate \<Rightarrow> expr option \<Rightarrow> expr option \<Rightarrow> bool option" where
  "superset_dep k base_dep dep = do {
     e \<leftarrow> expr_transform (syms k) (expr_trans_compare dep T_UNEQUAL symbol_no);
     let (_, dep2, _) = expr_eliminate_eq (expr_eliminate_dups (syms k) e) base_dep 0;
     Some (expr_is_yes dep2)
   }"

definition in_submenu :: "kstate \<Rightarrow> sid \<Rightarrow> expr option \<Rightarrow> mid \<Rightarrow> bool option" where
  "in_submenu k a base_dep m =
     (let dep = entry_dep k m in
      if \<not> expr_contains_symbol dep a then Some False
      else if expr_depends_symbol dep a then Some True
      else superset_dep k base_dep dep)"

partial_function (option) submenu_loop ::
  "(mid \<Rightarrow> bool \<Rightarrow> kstate \<Rightarrow> kstate option) \<Rightarrow> sid \<Rightarrow> expr option \<Rightarrow> mid \<Rightarrow> mid option \<Rightarrow> mid option
     \<Rightarrow> kstate \<Rightarrow> (mid option \<times> kstate) option" where
  "submenu_loop sub a base_dep parent m last_menu k =
     (case m of
        None \<Rightarrow> Some (last_menu, k)
      | Some i \<Rightarrow>
          Option.bind (in_submenu k a base_dep i) (\<lambda>enter.
            if \<not> enter then Some (last_menu, k)
            else Option.bind (sub i False k) (\<lambda>k.
              let k = upd_menu i (\<lambda>e. e\<lparr>m_parent := Some parent\<rparr>) k
              in submenu_loop sub a base_dep parent (m_next (menus k i)) (Some i) k)))"

definition auto_submenu ::
  "(mid \<Rightarrow> bool \<Rightarrow> kstate \<Rightarrow> kstate option) \<Rightarrow> mid \<Rightarrow> sid \<Rightarrow> kstate \<Rightarrow> kstate option" where
  "auto_submenu sub parent a k = do {
     let base_dep = (case m_prompt (menus k parent) of Some p \<Rightarrow> p_visible_expr (props k p) | None \<Rightarrow> None);
     e \<leftarrow> expr_transform (syms k) (expr_trans_compare base_dep T_UNEQUAL symbol_no);
     let base_dep = expr_eliminate_dups (syms k) e;
     (last_menu, k) \<leftarrow> submenu_loop sub a base_dep parent (m_next (menus k parent)) None k;
     let k = (case last_menu of
         None \<Rightarrow> k
       | Some l \<Rightarrow>
           let k = upd_menu parent (\<lambda>e. e\<lparr>m_list := m_next e\<rparr>) k;
               k = upd_menu parent (\<lambda>e. e\<lparr>m_next := m_next (menus k l)\<rparr>) k
           in upd_menu l (\<lambda>e. e\<lparr>m_next := None\<rparr>) k);
     Some (upd_sym a (\<lambda>y. y\<lparr>dir_dep_expr := expr_alloc_or (dir_dep_expr y) (m_dep (menus k parent))\<rparr>) k)
   }"

text \<open>The inner loop of the flattening: every entry gets the new parent; the result is the last.\<close>

partial_function (option) adopt :: "mid \<Rightarrow> mid \<Rightarrow> kstate \<Rightarrow> (mid \<times> kstate) option" where
  "adopt parent i k =
     (let k = upd_menu i (\<lambda>e. e\<lparr>m_parent := Some parent\<rparr>) k in
      case m_next (menus k i) of None \<Rightarrow> Some (i, k) | Some n \<Rightarrow> adopt parent n k)"

definition unprompted :: "kstate \<Rightarrow> mid \<Rightarrow> bool" where
  "unprompted k m \<longleftrightarrow>
     (case m_prompt (menus k m) of None \<Rightarrow> True | Some p \<Rightarrow> p_text (props k p) = None)"

definition flatten_entry :: "mid \<Rightarrow> mid \<Rightarrow> kstate \<Rightarrow> kstate option" where
  "flatten_entry parent m k =
     (case m_list (menus k m) of
        None \<Rightarrow> Some k
      | Some c \<Rightarrow>
          if \<not> unprompted k m then Some k
          else do {
            (last_menu, k) \<leftarrow> adopt parent c k;
            let k = upd_menu last_menu (\<lambda>e. e\<lparr>m_next := m_next (menus k m)\<rparr>) k;
            Some (upd_menu m (\<lambda>e. e\<lparr>m_next := m_list e, m_list := None\<rparr>) k)
          })"

section \<open>Finalization\<close>

definition finalize_end :: "mid \<Rightarrow> kstate \<Rightarrow> kstate option" where
  "finalize_end parent k =
     (case m_sym (menus k parent) of
        None \<Rightarrow> Some k
      | Some a \<Rightarrow>
          if SYMBOL_WARNED \<in> s_flags (syms k a) then Some k
          else do {
            let k = (if s_type (syms k a) = S_UNKNOWN
                     then menu_warn parent ''config symbol defined without type'' k else k);
            k \<leftarrow> sym_check_prop a k;
            Some (upd_sym a (add_flags {SYMBOL_WARNED}) k)
          })"

definition finalize_step :: "(mid \<Rightarrow> bool \<Rightarrow> kstate \<Rightarrow> kstate option) \<Rightarrow> mid \<Rightarrow> bool \<Rightarrow> kstate \<Rightarrow> kstate option" where
  "finalize_step sub parent inside_choice k = do {
     k \<leftarrow> (case m_list (menus k parent) of
         Some c \<Rightarrow> do {
           k \<leftarrow> each_sibling (finalize_child parent) (Some c) k;
           let in_choice = (case m_sym (menus k parent) of None \<Rightarrow> False | Some a \<Rightarrow> sym_is_choice (syms k a));
           each_sibling (\<lambda>m. sub m in_choice) (m_list (menus k parent)) k
         }
       | None \<Rightarrow>
           (case m_sym (menus k parent) of
              None \<Rightarrow> Some k
            | Some a \<Rightarrow> if inside_choice then Some k else auto_submenu sub parent a k));
     k \<leftarrow> each_sibling (flatten_entry parent) (m_list (menus k parent)) k;
     finalize_end parent k
   }"

fun menu_finalize_sub :: "nat \<Rightarrow> mid \<Rightarrow> bool \<Rightarrow> kstate \<Rightarrow> kstate option" where
  "menu_finalize_sub 0 m inside_choice k = None"
| "menu_finalize_sub (Suc n) m inside_choice k = finalize_step (menu_finalize_sub n) m inside_choice k"

definition menu_finalize :: "nat \<Rightarrow> kstate \<Rightarrow> kstate option" where
  "menu_finalize n k = menu_finalize_sub n rootmenu False k"

declare each_sibling.simps [code] submenu_loop.simps [code] adopt.simps [code]

end
