(* ===== verification/FinalTree.thy ===== *)
theory FinalTree
  imports MenuFinal
begin

text \<open>
  \<open>menu_finalize\<close> returns on every tree of entries, with fuel for as many nested calls as there are
  entries, and it keeps the depth-first order of the entries: submenus are formed and dissolved
  by moving entries down or up at their place. The lemmas follow the functions of \<open>MenuFinal\<close> in a
  locale whose parameter \<open>T\<close> is the condition under which no null pointer is followed; without it
  they still describe the result if there is one.
\<close>

section \<open>Expressions that can be transformed\<close>

definition expr_fine :: "(sid \<Rightarrow> symbol) \<Rightarrow> expr option \<Rightarrow> bool" where
  "expr_fine sy e \<longleftrightarrow> (case e of None \<Rightarrow> True | Some e' \<Rightarrow> no_bool_unequal_y sy e')"

lemma expr_fine_simps [simp]: "expr_fine sy None" "expr_fine sy (Some e) = no_bool_unequal_y sy e"
  by (simp_all add: expr_fine_def)

lemma no_bool_leaf:
  "no_bool_unequal_y sy (expr_alloc_symbol a)" "no_bool_unequal_y sy (neutral t)"
  "b \<noteq> symbol_yes \<Longrightarrow> no_bool_unequal_y sy (E_COMP c a b)"
  "s_type (sy a) \<noteq> S_BOOLEAN \<Longrightarrow> no_bool_unequal_y sy (E_COMP c a b)" "no_bool_unequal_y sy (E_EQUAL a b)"
  by (cases t; simp add: expr_alloc_symbol_def)+

lemma no_bool_rewrite_m: "no_bool_unequal_y sy (rewrite_m_node ms e) = no_bool_unequal_y sy e"
  by (induction e) (auto simp: expr_alloc_symbol_def)

lemma no_bool_yn: "no_bool_unequal_y sy e \<Longrightarrow> no_bool_unequal_y sy (expr_eliminate_yn e)"
  by (induction e rule: expr_eliminate_yn.induct) (auto simp: Let_def)

lemma no_bool_join:
  "expr_join sy ty e1 e2 = Some t \<Longrightarrow> no_bool_unequal_y sy e1 \<Longrightarrow> no_bool_unequal_y sy t"
proof (cases ty)
  case T_OR
  then show "expr_join sy ty e1 e2 = Some t \<Longrightarrow> no_bool_unequal_y sy e1 \<Longrightarrow> no_bool_unequal_y sy t"
    by (auto simp: expr_join_def expr_join_or_def no_bool_leaf split: option.splits if_splits)
next
  case T_AND
  have "join_and_equal_unequal sy a e1 e2 = Some e \<Longrightarrow> no_bool_unequal_y sy e" for a e
    by (induction sy a e1 e2 rule: join_and_equal_unequal.induct) (auto simp: no_bool_leaf split: if_splits)
  with T_AND show "expr_join sy ty e1 e2 = Some t \<Longrightarrow> no_bool_unequal_y sy e1 \<Longrightarrow> no_bool_unequal_y sy t"
    by (auto simp: expr_join_def expr_join_and_def no_bool_leaf split: option.splits if_splits)
qed

lemma no_bool_pass:
  "pass ty (join_leaf sy ty) e1 e2 n x y m \<Longrightarrow> no_bool_unequal_y sy e1 \<Longrightarrow> no_bool_unequal_y sy e2 \<Longrightarrow>
     no_bool_unequal_y sy x \<and> no_bool_unequal_y sy y"
  by (induction rule: pass.induct) (auto simp: join_leaf_def no_bool_leaf dest: no_bool_join)

lemma no_bool_dups: "no_bool_unequal_y sy e \<Longrightarrow> no_bool_unequal_y sy (expr_eliminate_dups_node sy e)"
proof (induction sy e rule: expr_eliminate_dups_node.induct)
  case (1 sy e)
  note simps = expr_eliminate_dups_node.simps [of sy e]
  show ?case
  proof (cases e)
    case (E_BIN ty l0 r0)
    obtain x y n where p: "expr_eliminate_dups1 sy ty (expr_eliminate_dups_node sy l0)
        (expr_eliminate_dups_node sy r0) 0 = (x, y, n)" by (metis prod_cases3)
    have "no_bool_unequal_y sy (E_BIN ty x y)"
      using no_bool_pass [OF expr_eliminate_dups1_pass [OF p]] "1.IH"(1) [OF E_BIN] "1.IH"(2) [OF E_BIN]
        "1.prems" E_BIN by simp
    then have v: "no_bool_unequal_y sy (expr_eliminate_yn (E_BIN ty x y))" by (rule no_bool_yn)
    show ?thesis
    proof (cases "n = 0")
      case True
      with simps p v show ?thesis unfolding E_BIN by simp
    next
      case False
      with "1.IH"(3) [OF E_BIN p [symmetric] refl refl False v] simps p show ?thesis
        unfolding E_BIN by simp
    qed
  qed (use simps "1.prems" no_bool_yn in simp_all)
qed

lemma no_bool_trans_compare:
  "expr_trans_compare_node e ty symbol_no = Some t \<Longrightarrow> no_bool_unequal_y sy e \<Longrightarrow> no_bool_unequal_y sy t"
  by (induction e ty symbol_no arbitrary: t rule: expr_trans_compare_node.induct)
     (auto simp: Let_def no_bool_leaf bind_Some_iff split: if_splits)

lemma expr_fine_trans_compare: "expr_fine sy e \<Longrightarrow> expr_fine sy (expr_trans_compare e ty symbol_no)"
  by (cases e) (auto simp: expr_trans_compare_def no_bool_leaf expr_fine_def no_bool_trans_compare split: option.split)

lemma expr_fine_alloc_and: "expr_fine sy a \<Longrightarrow> expr_fine sy b \<Longrightarrow> expr_fine sy (expr_alloc_and a b)"
  by (auto simp: expr_alloc_and_def split: option.split)

lemma expr_fine_dups: "expr_fine sy e \<Longrightarrow> expr_fine sy (expr_eliminate_dups sy e)"
  by (cases e) (simp_all add: expr_eliminate_dups_def no_bool_dups)

lemma transform_fine:
  assumes "const_tristate sy" "expr_fine sy e"
  shows "\<exists>e'. expr_transform sy e = Some e' \<and> expr_fine sy e'"
proof (cases e)
  case (Some x)
  with assms expr_transform_defined [of sy x] obtain y where y: "expr_transform_node sy x = Some y" by auto
  with expr_transform_transformed [OF assms(1)] have "no_bool_unequal_y sy y"
    by (blast intro: transformed_no_bool_unequal_y)
  with Some y show ?thesis by (simp add: expr_transform_def)
qed (simp add: expr_transform_def)

lemma finalize_dep_fine:
  assumes "const_tristate (syms k)" "expr_fine (syms k) b" "expr_fine (syms k) e"
  shows "\<exists>d. finalize_dep k b e = Some d \<and> expr_fine (syms k) d"
proof -
  have "expr_fine (syms k) (rewrite_m (modules_sym k) e)" using assms(3)
    by (cases e) (simp_all add: rewrite_m_def no_bool_rewrite_m)
  from transform_fine [OF assms(1) this] assms(2) show ?thesis
    by (auto simp: finalize_dep_def expr_fine_alloc_and expr_fine_dups)
qed

lemma superset_dep_fine:
  "const_tristate (syms k) \<Longrightarrow> expr_fine (syms k) dep \<Longrightarrow> superset_dep k b dep \<noteq> None"
  using transform_fine [OF _ expr_fine_trans_compare, of "syms k" dep T_UNEQUAL]
  by (auto simp: superset_dep_def split: prod.split)

lemma expr_fine_types: "(\<And>a. s_type (sy' a) = s_type (sy a)) \<Longrightarrow> expr_fine sy' e = expr_fine sy e"
proof -
  assume t: "\<And>a. s_type (sy' a) = s_type (sy a)"
  have "no_bool_unequal_y sy' x = no_bool_unequal_y sy x" for x by (induction x) (simp_all add: t)
  then show ?thesis by (cases e) simp_all
qed

section \<open>What a finalization keeps\<close>

definition kept :: "kstate \<Rightarrow> kstate \<Rightarrow> bool" where
  "kept k k' \<longleftrightarrow>
     (\<forall>m. m_sym (menus k' m) = m_sym (menus k m) \<and> m_prompt (menus k' m) = m_prompt (menus k m)
        \<and> m_type (menus k' m) = m_type (menus k m) \<and> choice_members (menus k' m) = choice_members (menus k m))
     \<and> (\<forall>a. s_name (syms k' a) = s_name (syms k a) \<and> s_type (syms k' a) = s_type (syms k a)
        \<and> s_prop (syms k' a) = s_prop (syms k a) \<and> s_menus (syms k' a) = s_menus (syms k a)
        \<and> rev_dep_tri (syms k' a) = rev_dep_tri (syms k a) \<and> curr (syms k' a) = curr (syms k a)
        \<and> sdef (syms k' a) = sdef (syms k a))
     \<and> (\<forall>p. p_type (props k' p) = p_type (props k p) \<and> p_text (props k' p) = p_text (props k p)
        \<and> p_expr (props k' p) = p_expr (props k p) \<and> p_menu (props k' p) = p_menu (props k p))
     \<and> modules_sym k' = modules_sym k \<and> sym_table k' = sym_table k"

lemma kept_refl: "kept k k"
  by (simp add: kept_def)

lemma kept_trans: "kept k1 k2 \<Longrightarrow> kept k2 k3 \<Longrightarrow> kept k1 k3"
  by (simp add: kept_def)

lemma kept_simps:
  assumes "kept k k'"
  shows "m_sym (menus k' m) = m_sym (menus k m)" "m_prompt (menus k' m) = m_prompt (menus k m)"
    "s_name (syms k' a) = s_name (syms k a)" "s_type (syms k' a) = s_type (syms k a)"
    "s_prop (syms k' a) = s_prop (syms k a)" "sym_is_choice (syms k' a) = sym_is_choice (syms k a)"
    "s_menus (syms k' a) = s_menus (syms k a)"
    "p_type (props k' p) = p_type (props k p)" "p_text (props k' p) = p_text (props k p)"
    "p_expr (props k' p) = p_expr (props k p)" "p_menu (props k' p) = p_menu (props k p)"
    "prop_get_symbol (props k' p) = prop_get_symbol (props k p)" "range_of (props k' p) = range_of (props k p)"
    "expr_fine (syms k') e = expr_fine (syms k) e" "entry_props k' m = entry_props k m"
proof -
  show *: "m_sym (menus k' m) = m_sym (menus k m)" "m_prompt (menus k' m) = m_prompt (menus k m)"
    "s_name (syms k' a) = s_name (syms k a)" "s_type (syms k' a) = s_type (syms k a)"
    "s_prop (syms k' a) = s_prop (syms k a)" "s_menus (syms k' a) = s_menus (syms k a)"
    "p_type (props k' p) = p_type (props k p)"
    "p_text (props k' p) = p_text (props k p)"
    "p_expr (props k' p) = p_expr (props k p)" "p_menu (props k' p) = p_menu (props k p)" for m a p
    using assms by (simp_all add: kept_def)
  then show "sym_is_choice (syms k' a) = sym_is_choice (syms k a)"
    "prop_get_symbol (props k' p) = prop_get_symbol (props k p)" "range_of (props k' p) = range_of (props k p)"
    "entry_props k' m = entry_props k m"
    by (simp_all add: sym_is_choice_def prop_get_symbol_def range_of_def entry_props_def split: option.split)
  show "expr_fine (syms k') e = expr_fine (syms k) e" by (rule expr_fine_types) (rule *)
qed

text \<open>
  What the code relies on so as not to follow a null pointer: the expressions it transforms have
  no boolean symbol compared with \<open>!= y\<close>, and the properties have their usual forms.
\<close>

definition exprs_fine :: "kstate \<Rightarrow> bool" where
  "exprs_fine k \<longleftrightarrow> (\<forall>m. expr_fine (syms k) (m_dep (menus k m))) \<and> (\<forall>p. expr_fine (syms k) (p_visible_expr (props k p)))"

fun value_syms :: "prop_expr \<Rightarrow> sid set" where
  "value_syms (P_EXPR (E_SYMBOL a)) = {a}"
| "value_syms (E_RANGE a b) = {a, b}"
| "value_syms _ = {}"

definition checkable :: "kstate \<Rightarrow> bool" where
  "checkable k \<longleftrightarrow> (\<forall>p. prop_form (props k p))
     \<and> (\<forall>p. p_type (props k p) \<in> {P_SELECT, P_IMPLY} \<longrightarrow> m_sym (menus k (p_menu (props k p))) \<noteq> None)
     \<and> (\<forall>p. \<forall>a \<in> value_syms (p_expr (props k p)). s_type (syms k a) = S_UNKNOWN \<longrightarrow> s_name (syms k a) \<noteq> None)
     \<and> const_tristate (syms k)"

lemma const_tristate_types: "(\<And>a. s_type (sy' a) = s_type (sy a)) \<Longrightarrow> const_tristate sy' = const_tristate sy"
  by (simp add: const_tristate_def)

text \<open>
  \<open>base\<close> is the state before the finalization, \<open>pos\<close> the position of an entry in its depth-first
  order; if \<open>T\<close> holds, nothing gets stuck.
\<close>

locale finalization =
  fixes T :: bool and start :: kstate and pos :: "mid \<Rightarrow> nat"
  assumes checks: "T \<Longrightarrow> checkable start"
begin

definition finv :: "kstate \<Rightarrow> bool" where
  "finv k \<longleftrightarrow> kept start k \<and> (\<forall>m p. m_parent (menus k m) = Some p \<longrightarrow> pos p < pos m) \<and> (T \<longrightarrow> exprs_fine k)"

lemma invD:
  assumes "finv k"
  shows "kept start k" "m_parent (menus k m) = Some p \<Longrightarrow> pos p < pos m" "T \<Longrightarrow> exprs_fine k"
  using assms unfolding finv_def by blast+

lemma inv_checkable:
  assumes "finv k" T
  shows "prop_form (props k p)" "p_type (props k p) \<in> {P_SELECT, P_IMPLY} \<Longrightarrow> m_sym (menus k (p_menu (props k p))) \<noteq> None"
    "a \<in> value_syms (p_expr (props k p)) \<Longrightarrow> s_type (syms k a) = S_UNKNOWN \<Longrightarrow> s_name (syms k a) \<noteq> None"
    "const_tristate (syms k)"
  using checks [OF assms(2)] const_tristate_types [OF kept_simps(4) [OF invD(1) [OF assms(1)]]]
  by (auto simp: checkable_def prop_form_def kept_simps [OF invD(1) [OF assms(1)]])

lemma inv_fine: "finv k \<Longrightarrow> T \<Longrightarrow> expr_fine (syms k) (m_dep (menus k m)) \<and> expr_fine (syms k) (p_visible_expr (props k p))"
  using invD(3) by (auto simp: exprs_fine_def)

text \<open>Steps that leave the pointers alone.\<close>

definition same_links :: "kstate \<Rightarrow> kstate \<Rightarrow> bool" where
  "same_links k k' \<longleftrightarrow> (\<forall>m. links_at (menus k') m = links_at (menus k) m)"

definition calm :: "kstate \<Rightarrow> kstate \<Rightarrow> bool" where
  "calm k k' \<longleftrightarrow> finv k' \<and> same_links k k'"

lemma same_links_trans: "same_links k1 k2 \<Longrightarrow> same_links k2 k3 \<Longrightarrow> same_links k1 k3"
  by (simp add: same_links_def)

lemma calm_refl: "finv k \<Longrightarrow> calm k k"
  by (simp add: calm_def same_links_def)

lemma calm_bind:
  assumes "returns T m (calm k)" "\<And>k1. calm k k1 \<Longrightarrow> finv k1 \<Longrightarrow> returns T (f k1) (calm k1)"
  shows "returns T (Option.bind m f) (calm k)"
proof (rule returns_bind [OF assms(1)])
  fix k1 assume k1: "calm k k1"
  then have "returns T (f k1) (calm k1)" by (intro assms(2)) (simp_all add: calm_def)
  then show "returns T (f k1) (calm k)"
    by (rule returns_mono) (use k1 in \<open>auto simp: calm_def intro: same_links_trans\<close>)
qed

text \<open>One write: to a dependency, a condition, or what a symbol is selected by.\<close>

lemma calm_write:
  assumes i: "finv k"
    and m: "\<And>m. m_sym (menus k' m) = m_sym (menus k m) \<and> m_prompt (menus k' m) = m_prompt (menus k m)
      \<and> m_type (menus k' m) = m_type (menus k m) \<and> choice_members (menus k' m) = choice_members (menus k m)
      \<and> links_at (menus k') m = links_at (menus k) m"
    and a: "\<And>a. s_name (syms k' a) = s_name (syms k a) \<and> s_type (syms k' a) = s_type (syms k a)
      \<and> s_prop (syms k' a) = s_prop (syms k a) \<and> s_menus (syms k' a) = s_menus (syms k a)
      \<and> rev_dep_tri (syms k' a) = rev_dep_tri (syms k a) \<and> curr (syms k' a) = curr (syms k a) \<and> sdef (syms k' a) = sdef (syms k a)"
    and p: "\<And>p. p_type (props k' p) = p_type (props k p) \<and> p_text (props k' p) = p_text (props k p)
      \<and> p_expr (props k' p) = p_expr (props k p) \<and> p_menu (props k' p) = p_menu (props k p)"
    and g: "modules_sym k' = modules_sym k" "sym_table k' = sym_table k"
    and f: "T \<Longrightarrow> (\<forall>m. expr_fine (syms k) (m_dep (menus k' m))) \<and> (\<forall>p. expr_fine (syms k) (p_visible_expr (props k' p)))"
  shows "calm k k'"
proof -
  have kk: "kept k k'" unfolding kept_def using m a p g by simp
  have "kept start k'" by (rule kept_trans [OF invD(1) [OF i] kk])
  moreover have "m_parent (menus k' m) = m_parent (menus k m)" for m using m [of m] by (simp add: links_at_def)
  moreover have "T \<Longrightarrow> exprs_fine k'" using f by (simp add: exprs_fine_def kept_simps [OF kk])
  ultimately show ?thesis using i m unfolding calm_def finv_def same_links_def by simp
qed

lemma calm_printed:
  assumes "finv k" "syms k' = syms k" "menus k' = menus k" "props k' = props k" "modules_sym k' = modules_sym k" "sym_table k' = sym_table k"
  shows "calm k k'"
  by (rule calm_write [OF assms(1)]) (use assms inv_fine in auto)

lemma finalize_dep_run:
  "finv k \<Longrightarrow> (T \<Longrightarrow> expr_fine (syms k) b) \<Longrightarrow> (T \<Longrightarrow> expr_fine (syms k) e) \<Longrightarrow>
     returns T (finalize_dep k b e) (\<lambda>d. T \<longrightarrow> expr_fine (syms k) d)"
  using finalize_dep_fine [of k b e] inv_checkable(4) [of k]
  by (cases T; cases "finalize_dep k b e") (auto simp: returns_def)

lemma enter_dep_run:
  assumes i: "finv k" and m: "p_menu (props k p) = m"
  shows "returns T (enter_dep m d p k) (calm k)"
proof -
  have w: "calm k (upd_sym es (\<lambda>y. y\<lparr>rev_dep_expr := f y\<rparr>) k)" "calm k (upd_sym es (\<lambda>y. y\<lparr>implied_expr := f y\<rparr>) k)" for es f
    by (rule calm_write [OF i]; use inv_fine [OF i] in auto)+
  have "T \<Longrightarrow> p_type (props k p) \<in> {P_SELECT, P_IMPLY} \<Longrightarrow> prop_get_symbol (props k p) \<noteq> None \<and> m_sym (menus k m) \<noteq> None"
    using inv_checkable(1,2) [OF i, of p] m by (auto simp: prop_form_def)
  with w calm_refl [OF i] show ?thesis
    by (cases "prop_get_symbol (props k p)"; cases "m_sym (menus k m)")
       (auto simp: enter_dep_def sym_dep_expr_def returns_def)
qed

lemma finalize_prop_run:
  assumes i: "finv k" and b: "T \<Longrightarrow> expr_fine (syms k) b"
  shows "returns T (finalize_prop m b p k) (calm k)"
proof (cases "p_menu (props k p) = m")
  case False
  then show ?thesis using calm_refl [OF i] by (simp add: finalize_prop_def)
next
  case True
  have dep: "returns T (finalize_dep k b (p_visible_expr (props k p))) (\<lambda>d. T \<longrightarrow> expr_fine (syms k) d)"
    by (rule finalize_dep_run) (use i b inv_fine in auto)
  have "returns T (enter_dep m d p (upd_prop p (\<lambda>q. q\<lparr>p_visible_expr := d\<rparr>) k)) (calm k)"
    if "T \<longrightarrow> expr_fine (syms k) d" for d
  proof -
    let ?k = "upd_prop p (\<lambda>q. q\<lparr>p_visible_expr := d\<rparr>) k"
    have c: "calm k ?k" by (rule calm_write [OF i]) (use that inv_fine [OF i] in auto)
    then have "returns T (enter_dep m d p ?k) (calm ?k)" by (intro enter_dep_run) (simp_all add: calm_def True)
    then show ?thesis by (rule returns_mono) (use c in \<open>auto simp: calm_def elim: same_links_trans\<close>)
  qed
  with dep True show ?thesis unfolding finalize_prop_def by simp (rule returns_bind)
qed

lemma finalize_props_run:
  "finv k \<Longrightarrow> (T \<Longrightarrow> expr_fine (syms k) b) \<Longrightarrow> returns T (finalize_props m b ps k) (calm k)"
proof (induction ps arbitrary: k)
  case (Cons p ps)
  show ?case
    unfolding finalize_props.simps
  proof (rule calm_bind [OF finalize_prop_run [OF Cons.prems]])
    fix k1 assume c: "calm k k1" and i: "finv k1"
    have "expr_fine (syms k1) b = expr_fine (syms k) b"
      using kept_simps(14) [OF invD(1) [OF i]] kept_simps(14) [OF invD(1) [OF Cons.prems(1)]] by simp
    with Cons.IH [OF i] Cons.prems(2) show "returns T (finalize_props m b ps k1) (calm k1)" by simp
  qed
qed (simp add: calm_refl)

lemma finalize_child_run:
  assumes i: "finv k"
  shows "returns T (finalize_child parent m k) (calm k)"
proof -
  have dep: "returns T (finalize_dep k (m_dep (menus k parent)) (m_dep (menus k m))) (\<lambda>d. T \<longrightarrow> expr_fine (syms k) d)"
    by (rule finalize_dep_run) (use i inv_fine in auto)
  have "returns T (let k' = upd_menu m (\<lambda>e. e\<lparr>m_dep := d\<rparr>) k in finalize_props m d (entry_props k' m) k') (calm k)"
    if "T \<longrightarrow> expr_fine (syms k) d" for d
  proof -
    let ?k = "upd_menu m (\<lambda>e. e\<lparr>m_dep := d\<rparr>) k"
    have c: "calm k ?k" by (rule calm_write [OF i]) (use that inv_fine [OF i] in \<open>auto simp: links_at_def\<close>)
    then have "returns T (finalize_props m d (entry_props ?k m) ?k) (calm ?k)"
      using that by (intro finalize_props_run) (simp_all add: calm_def)
    then show ?thesis unfolding Let_def by (rule returns_mono) (use c in \<open>auto simp: calm_def elim: same_links_trans\<close>)
  qed
  with dep show ?thesis unfolding finalize_child_def by (rule returns_bind)
qed

end

context finalization
begin

lemma finv_menus:
  assumes i: "finv k"
    and m: "\<And>m. m_sym (menus k' m) = m_sym (menus k m) \<and> m_prompt (menus k' m) = m_prompt (menus k m)
      \<and> m_type (menus k' m) = m_type (menus k m) \<and> choice_members (menus k' m) = choice_members (menus k m)
      \<and> m_dep (menus k' m) = m_dep (menus k m)"
    and g: "syms k' = syms k" "props k' = props k" "modules_sym k' = modules_sym k" "sym_table k' = sym_table k"
    and par: "\<And>m p. m_parent (menus k' m) = Some p \<Longrightarrow> pos p < pos m"
  shows "finv k'"
proof -
  have kk: "kept k k'" unfolding kept_def using m g by simp
  have "kept start k'" by (rule kept_trans [OF invD(1) [OF i] kk])
  moreover have "T \<longrightarrow> exprs_fine k'" using invD(3) [OF i] m g by (simp add: exprs_fine_def)
  ultimately show ?thesis using par unfolding finv_def by simp
qed

definition ordered :: "mid list \<Rightarrow> bool" where
  "ordered ms \<longleftrightarrow> sorted_wrt (\<lambda>x y. pos x < pos y) ms"

lemma ordered_simps [simp]:
  "ordered []" "ordered (x # ms) \<longleftrightarrow> (\<forall>y \<in> set ms. pos x < pos y) \<and> ordered ms"
  "ordered (ms @ ns) \<longleftrightarrow> ordered ms \<and> ordered ns \<and> (\<forall>x \<in> set ms. \<forall>y \<in> set ns. pos x < pos y)"
  by (auto simp: ordered_def sorted_wrt_append)

lemma ordered_distinct: "ordered ms \<Longrightarrow> distinct ms"
  by (induction ms) auto

lemma each_calm:
  assumes f: "\<And>i k1. finv k1 \<Longrightarrow> returns T (f i k1) (calm k1)"
  shows "forest_ok (menus k) p ts \<Longrightarrow> finv k \<Longrightarrow> returns T (each_sibling f (first_entry ts) k) (calm k)"
proof (induction ts arbitrary: k)
  case Nil
  then show ?case by (simp add: each_sibling.simps calm_refl)
next
  case (Cons t ts)
  show ?case
    unfolding first_entry.simps
    apply (subst each_sibling.simps)
    apply simp
  proof (rule calm_bind [OF f [OF Cons.prems(2)]])
    fix k1 assume c: "calm k k1" and i: "finv k1"
    then have l: "links_at (menus k1) x = links_at (menus k) x" for x by (simp add: calm_def same_links_def)
    have "forest_ok (menus k1) p ts" using tree_ok_frame(2) [of ts "menus k1" "menus k" p] l Cons.prems(1) by simp
    moreover have "m_next (menus k1 (entry t)) = first_entry ts"
      using links_atD(2) [OF l] Cons.prems(1) by simp
    ultimately show "returns T (each_sibling f (m_next (menus k1 (entry t))) k1) (calm k1)"
      using Cons.IH i by simp
  qed
qed

section \<open>The shape of the tree\<close>

definition spot :: "kstate \<Rightarrow> mid \<Rightarrow> mid \<Rightarrow> mtree list \<Rightarrow> mtree list \<Rightarrow> bool" where
  "spot k p m ts rest \<longleftrightarrow> tree_ok (menus k) (MNode m ts) \<and> m_next (menus k m) = first_entry rest
     \<and> forest_ok (menus k) p rest \<and> ordered (m # forest_preorder ts @ forest_preorder rest)"

definition same_outside :: "mid set \<Rightarrow> kstate \<Rightarrow> kstate \<Rightarrow> bool" where
  "same_outside A k k' \<longleftrightarrow> (\<forall>x. x \<notin> A \<longrightarrow> links_at (menus k') x = links_at (menus k) x)"

lemma same_outsideD: "same_outside A k k' \<Longrightarrow> x \<notin> A \<Longrightarrow> links_at (menus k') x = links_at (menus k) x"
  by (simp add: same_outside_def)

lemma same_outside_trans:
  "same_outside A k1 k2 \<Longrightarrow> same_outside B k2 k3 \<Longrightarrow> A \<subseteq> C \<Longrightarrow> B \<subseteq> C \<Longrightarrow> same_outside C k1 k3"
  unfolding same_outside_def by (metis subsetD)

lemma outside_tree: "same_outside A k k' \<Longrightarrow> set (preorder t) \<inter> A = {} \<Longrightarrow> tree_ok (menus k') t = tree_ok (menus k) t"
  by (rule tree_ok_frame) (auto simp: same_outside_def)

lemma outside_forest:
  "same_outside A k k' \<Longrightarrow> set (forest_preorder ts) \<inter> A = {} \<Longrightarrow> forest_ok (menus k') p ts = forest_ok (menus k) p ts"
  by (rule tree_ok_frame) (auto simp: same_outside_def)

lemma outside_seg:
  "same_outside A k k' \<Longrightarrow> set (forest_preorder ts) \<inter> A = {} \<Longrightarrow> seg_ok (menus k') p ts e = seg_ok (menus k) p ts e"
  by (rule seg_ok_frame) (auto simp: same_outside_def)

text \<open>
  The outcome for an entry: \<open>taken\<close> are the following siblings that became part of its submenu;
  the depth-first order of the entries is the same as before.
\<close>

definition settled :: "kstate \<Rightarrow> mid \<Rightarrow> mid \<Rightarrow> mtree list \<Rightarrow> mtree list \<Rightarrow> kstate \<Rightarrow> bool" where
  "settled k p m ts rest k' \<longleftrightarrow> finv k' \<and>
     (\<exists>ts' taken rest'. rest = taken @ rest' \<and> tree_ok (menus k') (MNode m ts')
        \<and> m_next (menus k' m) = first_entry rest' \<and> forest_ok (menus k') p rest'
        \<and> forest_preorder ts' = forest_preorder ts @ forest_preorder taken
        \<and> m_parent (menus k' m) = m_parent (menus k m)
        \<and> same_outside (insert m (set (forest_preorder ts @ forest_preorder taken))) k k')"

lemma settledI:
  "finv k' \<Longrightarrow> rest = taken @ rest' \<Longrightarrow> tree_ok (menus k') (MNode m ts') \<Longrightarrow> m_next (menus k' m) = first_entry rest' \<Longrightarrow>
   forest_ok (menus k') p rest' \<Longrightarrow> forest_preorder ts' = forest_preorder ts @ forest_preorder taken \<Longrightarrow>
   m_parent (menus k' m) = m_parent (menus k m) \<Longrightarrow>
   same_outside (insert m (set (forest_preorder ts @ forest_preorder taken))) k k' \<Longrightarrow> settled k p m ts rest k'"
  unfolding settled_def by blast

definition sub_spec :: "(mid \<Rightarrow> bool \<Rightarrow> kstate \<Rightarrow> kstate option) \<Rightarrow> nat \<Rightarrow> bool" where
  "sub_spec sub N \<longleftrightarrow> (\<forall>p m ts rest b k. finv k \<longrightarrow> spot k p m ts rest \<longrightarrow>
     length (m # forest_preorder ts @ forest_preorder rest) \<le> N \<longrightarrow> returns T (sub m b k) (settled k p m ts rest))"

lemma sub_specD:
  "sub_spec sub N \<Longrightarrow> finv k \<Longrightarrow> spot k p m ts rest \<Longrightarrow> length (m # forest_preorder ts @ forest_preorder rest) \<le> N \<Longrightarrow>
     returns T (sub m b k) (settled k p m ts rest)"
  by (simp add: sub_spec_def)

text \<open>The recursion over the children.\<close>

definition reshaped :: "kstate \<Rightarrow> mid \<Rightarrow> mtree list \<Rightarrow> kstate \<Rightarrow> bool" where
  "reshaped k p ts k' \<longleftrightarrow> finv k' \<and> (\<exists>ts'. forest_ok (menus k') p ts' \<and> forest_preorder ts' = forest_preorder ts
     \<and> first_entry ts' = first_entry ts \<and> same_outside (set (forest_preorder ts)) k k')"

lemma reshaped_refl: "finv k \<Longrightarrow> forest_ok (menus k) p ts \<Longrightarrow> reshaped k p ts k"
  by (auto simp: reshaped_def same_outside_def)

lemma children_run:
  assumes sub: "sub_spec sub N"
  shows "finv k \<Longrightarrow> forest_ok (menus k) p ts \<Longrightarrow> ordered (forest_preorder ts) \<Longrightarrow> length (forest_preorder ts) \<le> N \<Longrightarrow>
     returns T (each_sibling (\<lambda>m. sub m b) (first_entry ts) k) (reshaped k p ts)"
proof (induction "length ts" arbitrary: ts k rule: less_induct)
  case less
  show ?case
  proof (cases ts)
    case Nil
    with less.prems show ?thesis by (simp add: each_sibling.simps reshaped_refl)
  next
    case (Cons t rest)
    obtain m cs where t: "t = MNode m cs" by (cases t)
    have s: "spot k p m cs rest" using less.prems by (simp add: spot_def Cons t)
    have step: "each_sibling (\<lambda>m. sub m b) (first_entry ts) k
        = Option.bind (sub m b k) (\<lambda>k. each_sibling (\<lambda>m. sub m b) (m_next (menus k m)) k)"
      by (simp add: Cons t each_sibling.simps)
    have "returns T (sub m b k) (settled k p m cs rest)"
      using sub s less.prems unfolding sub_spec_def by (simp add: Cons t)
    then show ?thesis
      unfolding step
    proof (rule returns_bind)
      fix k1 assume "settled k p m cs rest k1"
      then obtain cs' taken rest' where 1: "finv k1" "rest = taken @ rest'" "tree_ok (menus k1) (MNode m cs')"
        "m_next (menus k1 m) = first_entry rest'" "forest_ok (menus k1) p rest'"
        "forest_preorder cs' = forest_preorder cs @ forest_preorder taken" "m_parent (menus k1 m) = m_parent (menus k m)"
        "same_outside (insert m (set (forest_preorder cs @ forest_preorder taken))) k k1"
        unfolding settled_def by blast
      have ord: "ordered (m # forest_preorder cs @ forest_preorder taken @ forest_preorder rest')"
        using less.prems(3) by (simp add: Cons t 1(2))
      have disj: "insert m (set (forest_preorder cs')) \<inter> set (forest_preorder rest') = {}"
        using ordered_distinct [OF ord] 1(6) by auto
      have par: "m_parent (menus k m) = Some p" using less.prems(2) by (simp add: Cons t)
      have "length rest' < length ts" "length (forest_preorder rest') \<le> N" "ordered (forest_preorder rest')"
        using less.prems(4) ord by (simp_all add: Cons t 1(2))
      from less.hyps [OF this(1) 1(1,5) this(3,2)]
      have "returns T (each_sibling (\<lambda>m. sub m b) (m_next (menus k1 m)) k1) (reshaped k1 p rest')" by (simp add: 1(4))
      then show "returns T (each_sibling (\<lambda>m. sub m b) (m_next (menus k1 m)) k1) (reshaped k p ts)"
      proof (rule returns_mono)
        fix k2 assume "reshaped k1 p rest' k2"
        then obtain us where 2: "finv k2" "forest_ok (menus k2) p us" "forest_preorder us = forest_preorder rest'"
          "first_entry us = first_entry rest'" "same_outside (set (forest_preorder rest')) k1 k2"
          unfolding reshaped_def by blast
        have "links_at (menus k2) m = links_at (menus k1) m" by (rule same_outsideD [OF 2(5)]) (use disj in auto)
        moreover have "tree_ok (menus k2) (MNode m cs') = tree_ok (menus k1) (MNode m cs')"
          by (rule outside_tree [OF 2(5)]) (use disj in auto)
        ultimately have "forest_ok (menus k2) p (MNode m cs' # us)"
          using 1 2 par by (simp add: links_at_def)
        moreover have "same_outside (set (forest_preorder ts)) k k2"
          by (rule same_outside_trans [OF 1(8) 2(5)]) (auto simp: Cons t 1(2))
        ultimately show "reshaped k p ts k2"
          unfolding reshaped_def using 2 1 by (intro conjI exI [of _ "MNode m cs' # us"]) (simp_all add: Cons t)
      qed
    qed
  qed
qed

end

context finalization
begin

text \<open>The entries that follow a symbol and become its submenu.\<close>

definition gathered :: "kstate \<Rightarrow> mid \<Rightarrow> mid \<Rightarrow> mtree list \<Rightarrow> mid option \<Rightarrow> mid option \<times> kstate \<Rightarrow> bool" where
  "gathered k p par rest last_menu r \<longleftrightarrow> (case r of (l, k') \<Rightarrow> finv k' \<and>
     (\<exists>ds taken rest'. rest = taken @ rest' \<and> seg_ok (menus k') par ds (first_entry rest') \<and> forest_ok (menus k') p rest'
        \<and> forest_preorder ds = forest_preorder taken \<and> first_or ds (first_entry rest') = first_entry rest
        \<and> l = (if ds = [] then last_menu else Some (entry (last ds)))
        \<and> same_outside (set (forest_preorder taken)) k k'))"

lemma gatheredI:
  "finv k' \<Longrightarrow> rest = taken @ rest' \<Longrightarrow> seg_ok (menus k') par ds (first_entry rest') \<Longrightarrow> forest_ok (menus k') p rest' \<Longrightarrow>
   forest_preorder ds = forest_preorder taken \<Longrightarrow> first_or ds (first_entry rest') = first_entry rest \<Longrightarrow>
   l = (if ds = [] then last_menu else Some (entry (last ds))) \<Longrightarrow> same_outside (set (forest_preorder taken)) k k' \<Longrightarrow>
   gathered k p par rest last_menu (l, k')"
  unfolding gathered_def by blast

lemma gathered_none: "finv k \<Longrightarrow> forest_ok (menus k) p rest \<Longrightarrow> gathered k p par rest l (l, k)"
  by (rule gatheredI [of k rest "[]" rest par "[]"]) (simp_all add: same_outside_def)

lemma in_submenu_run: "finv k \<Longrightarrow> returns T (in_submenu k a b m) (\<lambda>_. True)"
proof -
  assume i: "finv k"
  have "T \<Longrightarrow> in_submenu k a b m \<noteq> None"
    using superset_dep_fine [of k "entry_dep k m" b] inv_checkable(4) [OF i] inv_fine [OF i]
    by (auto simp: in_submenu_def Let_def entry_dep_def split: option.splits)
  then show ?thesis by (cases "in_submenu k a b m") (auto simp: returns_def)
qed

lemma submenu_run:
  assumes sub: "sub_spec sub N"
  shows "finv k \<Longrightarrow> forest_ok (menus k) p rest \<Longrightarrow> ordered (par # forest_preorder rest) \<Longrightarrow>
     length (forest_preorder rest) \<le> N \<Longrightarrow>
     returns T (submenu_loop sub a b par (first_entry rest) l k) (gathered k p par rest l)"
proof (induction "length rest" arbitrary: rest k l rule: less_induct)
  case less
  show ?case
  proof (cases rest)
    case Nil
    have "gathered k p par [] l (l, k)" by (rule gathered_none) (use less.prems in simp_all)
    with Nil show ?thesis by (simp add: submenu_loop.simps)
  next
    case (Cons t rest0)
    obtain i cs where t: "t = MNode i cs" by (cases t)
    let ?par = "\<lambda>k. upd_menu i (\<lambda>e. e\<lparr>m_parent := Some par\<rparr>) k"
    have step: "submenu_loop sub a b par (first_entry rest) l k
        = Option.bind (in_submenu k a b i) (\<lambda>enter. if \<not> enter then Some (l, k)
            else Option.bind (sub i False k) (\<lambda>k. submenu_loop sub a b par (m_next (menus (?par k) i)) (Some i) (?par k)))"
      by (simp add: Cons t submenu_loop.simps Let_def cong: if_cong)
    have s: "spot k p i cs rest0" using less.prems by (simp add: spot_def Cons t)
    have sub1: "returns T (sub i False k) (settled k p i cs rest0)"
      using sub s less.prems unfolding sub_spec_def by (simp add: Cons t)
    have cont: "returns T (submenu_loop sub a b par (m_next (menus (?par k1) i)) (Some i) (?par k1)) (gathered k p par rest l)"
      if "settled k p i cs rest0 k1" for k1
    proof -
      from that obtain cs' taken rest1 where 1: "finv k1" "rest0 = taken @ rest1" "tree_ok (menus k1) (MNode i cs')"
        "m_next (menus k1 i) = first_entry rest1" "forest_ok (menus k1) p rest1"
        "forest_preorder cs' = forest_preorder cs @ forest_preorder taken"
        "same_outside (insert i (set (forest_preorder cs @ forest_preorder taken))) k k1"
        unfolding settled_def by blast
      have ord: "ordered (par # i # forest_preorder cs @ forest_preorder taken @ forest_preorder rest1)"
        using less.prems(3) by (simp add: Cons t 1(2))
      note dist = ordered_distinct [OF ord]
      have k2: "finv (?par k1)"
        by (rule finv_menus [OF 1(1)]) (use invD(2) [OF 1(1)] ord in \<open>auto split: if_splits\<close>)
      have out: "same_outside {i} k1 (?par k1)" by (simp add: same_outside_def links_at_def)
      have r1: "forest_ok (menus (?par k1)) p rest1" using outside_forest [OF out] 1(5) dist by auto
      have "length rest1 < length rest" "ordered (par # forest_preorder rest1)" "length (forest_preorder rest1) \<le> N"
        using ord less.prems(4) by (simp_all add: Cons t 1(2))
      from less.hyps [OF this(1) k2 r1 this(2,3), of "Some i"]
      have "returns T (submenu_loop sub a b par (m_next (menus (?par k1) i)) (Some i) (?par k1))
          (gathered (?par k1) p par rest1 (Some i))" by (simp add: 1(4))
      then show ?thesis
      proof (rule returns_mono)
        fix r assume "gathered (?par k1) p par rest1 (Some i) r"
        then obtain l' k' ds taken1 rest' where 2: "r = (l', k')" "finv k'" "rest1 = taken1 @ rest'"
          "seg_ok (menus k') par ds (first_entry rest')" "forest_ok (menus k') p rest'"
          "forest_preorder ds = forest_preorder taken1" "first_or ds (first_entry rest') = first_entry rest1"
          "l' = (if ds = [] then Some i else Some (entry (last ds)))"
          "same_outside (set (forest_preorder taken1)) (?par k1) k'"
          unfolding gathered_def by (cases r) blast
        have d: "insert i (set (forest_preorder cs')) \<inter> set (forest_preorder taken1) = {}"
          using dist 1(6) by (auto simp: 2(3))
        have "links_at (menus k') i = links_at (menus (?par k1)) i"
          by (rule same_outsideD [OF 2(9)]) (use d in auto)
        moreover have "forest_ok (menus (?par k1)) i cs' = forest_ok (menus k1) i cs'"
          by (rule outside_forest [OF out]) (use dist 1(6) in auto)
        moreover have "forest_ok (menus k') i cs' = forest_ok (menus (?par k1)) i cs'"
          by (rule outside_forest [OF 2(9)]) (use d in auto)
        ultimately have "seg_ok (menus k') par (MNode i cs' # ds) (first_entry rest')"
          using 1 2 by (simp add: links_at_def)
        moreover have "same_outside (set (forest_preorder (t # taken @ taken1))) k k'"
        proof (rule same_outside_trans [OF same_outside_trans [OF 1(7) out] 2(9)])
          show "{i} \<subseteq> insert i (set (forest_preorder cs @ forest_preorder taken))" by simp
        qed (auto simp: t)
        ultimately show "gathered k p par rest l r"
          unfolding 2(1) using 2 1
          by (intro gatheredI [of k' rest "t # taken @ taken1" rest' par "MNode i cs' # ds"]) (simp_all add: Cons t)
      qed
    qed
    show ?thesis
      unfolding step
    proof (rule returns_bind [OF in_submenu_run [OF less.prems(1)]])
      fix enter
      show "returns T (if \<not> enter then Some (l, k)
            else Option.bind (sub i False k) (\<lambda>k. submenu_loop sub a b par (m_next (menus (?par k) i)) (Some i) (?par k)))
          (gathered k p par rest l)"
        using gathered_none [OF less.prems(1,2)] returns_bind [OF sub1 cont] by simp
    qed
  qed
qed

lemma auto_submenu_run:
  assumes sub: "sub_spec sub N" and i: "finv k" and s: "spot k p par [] rest" and n: "length (forest_preorder rest) \<le> N"
  shows "returns T (auto_submenu sub par a k) (settled k p par [] rest)"
proof -
  let ?b = "case m_prompt (menus k par) of Some q \<Rightarrow> p_visible_expr (props k q) | None \<Rightarrow> None"
  have tr: "returns T (expr_transform (syms k) (expr_trans_compare ?b T_UNEQUAL symbol_no)) (\<lambda>_. True)"
    using transform_fine [OF _ expr_fine_trans_compare, of "syms k" ?b T_UNEQUAL] inv_checkable(4) [OF i] inv_fine [OF i]
    by (cases T) (auto simp: returns_def split: option.splits)
  from s have ok: "forest_ok (menus k) p rest" "ordered (par # forest_preorder rest)"
    and nx: "m_next (menus k par) = first_entry rest" and ls: "m_list (menus k par) = None" by (simp_all add: spot_def)
  note dist = ordered_distinct [OF ok(2)]
  let ?fin_sym = "\<lambda>k. Some (upd_sym a (\<lambda>y. y\<lparr>dir_dep_expr := expr_alloc_or (dir_dep_expr y) (m_dep (menus k par))\<rparr>) k)"
  let ?put = "\<lambda>l k. let k = upd_menu par (\<lambda>e. e\<lparr>m_list := m_next e\<rparr>) k;
               k = upd_menu par (\<lambda>e. e\<lparr>m_next := m_next (menus k l)\<rparr>) k
           in upd_menu l (\<lambda>e. e\<lparr>m_next := None\<rparr>) k"
  have fin: "returns T (?fin_sym k2) (settled k p par [] rest)" if "settled k p par [] rest k2" for k2
  proof -
    let ?k = "upd_sym a (\<lambda>y. y\<lparr>dir_dep_expr := expr_alloc_or (dir_dep_expr y) (m_dep (menus k2 par))\<rparr>) k2"
    have f: "finv k2" using that by (simp add: settled_def)
    have "calm k2 ?k" by (rule calm_write [OF f]) (use inv_fine [OF f] in auto)
    then have "finv ?k" by (simp add: calm_def)
    moreover have "menus ?k = menus k2" by simp
    ultimately show ?thesis using that by (simp add: settled_def same_outside_def)
  qed
  have "settled k p par [] rest (case l of None \<Rightarrow> k1 | Some l \<Rightarrow> ?put l k1)"
    if "gathered k p par rest None (l, k1)" for l k1
  proof -
    from that obtain ds taken rest' where 1: "finv k1" "rest = taken @ rest'"
      "seg_ok (menus k1) par ds (first_entry rest')" "forest_ok (menus k1) p rest'"
      "forest_preorder ds = forest_preorder taken" "first_or ds (first_entry rest') = first_entry rest"
      "l = (if ds = [] then None else Some (entry (last ds)))" "same_outside (set (forest_preorder taken)) k k1"
      unfolding gathered_def by blast
    have par: "links_at (menus k1) par = links_at (menus k) par" by (rule same_outsideD [OF 1(8)]) (use dist 1(2) in auto)
    show ?thesis
    proof (cases ds rule: rev_cases)
      case Nil
      then have "taken = []" using 1(5) by (cases taken) (auto simp: preorder_hd)
      with 1 Nil par nx ls show ?thesis
        by (intro settledI [of _ rest taken rest' par "[]"]) (auto simp: links_at_def same_outside_def)
    next
      case (snoc bs d)
      obtain e cs where d: "d = MNode e cs" by (cases d)
      let ?k = "?put e k1"
      have ne: "par \<noteq> e" "par \<notin> set (forest_preorder ds)" "e \<notin> set (forest_preorder bs)" "e \<notin> set (forest_preorder cs)"
        "distinct (forest_preorder ds)" "e \<in> set (forest_preorder taken)" "set (forest_preorder ds) \<inter> set (forest_preorder rest') = {}"
        "par \<notin> set (forest_preorder rest')" "e \<notin> set (forest_preorder rest')"
        using dist 1(2) 1(5) [symmetric] by (auto simp: snoc d)
      have M: "m_list (menus ?k x) = (if x = par then m_next (menus k1 par) else m_list (menus k1 x))"
        "m_next (menus ?k x) = (if x = e then None else if x = par then m_next (menus k1 e) else m_next (menus k1 x))"
        "m_parent (menus ?k x) = m_parent (menus k1 x)" for x
        using ne(1) by (auto simp: Let_def)
      have out: "same_outside {par, e} k1 ?k" by (auto simp: same_outside_def links_at_def M)
      have k2: "finv ?k"
      proof (rule finv_menus [OF 1(1)])
        show "m_parent (menus ?k m) = Some q \<Longrightarrow> pos q < pos m" for m q
          using invD(2) [OF 1(1), of m q] M(3) [of m] by simp
      qed (auto simp: Let_def)
      have seg: "seg_ok (menus k1) par bs (Some e)" "m_parent (menus k1 e) = Some par"
        "m_next (menus k1 e) = first_entry rest'" "m_list (menus k1 e) = first_entry cs" "forest_ok (menus k1) e cs"
        using 1(3) by (simp_all add: snoc d seg_ok_append)
      have "seg_ok (menus ?k) par bs (Some e)" using outside_seg [OF out] seg(1) ne by (auto simp: snoc d)
      moreover have "forest_ok (menus ?k) e cs" using outside_forest [OF out] seg(5) ne by (auto simp: snoc d)
      ultimately have "forest_ok (menus ?k) par ds" using seg ne(1) by (auto simp: snoc d forest_ok_append M)
      moreover have "m_next (menus k1 par) = first_entry ds"
        using par nx 1(6) by (simp add: links_at_def snoc)
      ultimately have "tree_ok (menus ?k) (MNode par ds)" by (simp add: M)
      moreover have "forest_ok (menus ?k) p rest'" using outside_forest [OF out] 1(4) ne by auto
      moreover have "m_next (menus ?k par) = first_entry rest'" using seg ne by (simp add: M)
      moreover have "same_outside (insert par (set (forest_preorder taken))) k ?k"
        by (rule same_outside_trans [OF 1(8) out]) (use ne in auto)
      moreover have "m_parent (menus ?k par) = m_parent (menus k par)" using links_atD(3) [OF par] M(3) [of par] by simp
      moreover have "l = Some e" using 1(7) by (simp add: snoc d)
      ultimately show ?thesis
        using k2 1 by (intro settledI [of _ rest taken rest' par ds]) simp_all
    qed
  qed
  with fin have next_step: "returns T (?fin_sym (case l of None \<Rightarrow> k1 | Some l \<Rightarrow> ?put l k1)) (settled k p par [] rest)"
    if "gathered k p par rest None (l, k1)" for l k1
    using that by blast
  have "returns T (do { (l, k1) \<leftarrow> submenu_loop sub a b par (m_next (menus k par)) None k;
        ?fin_sym (case l of None \<Rightarrow> k1 | Some l \<Rightarrow> ?put l k1) }) (settled k p par [] rest)" for b
    unfolding nx
    by (rule returns_bind [OF submenu_run [OF sub i ok n]]) (use next_step in \<open>auto split: prod.split\<close>)
  then show ?thesis
    unfolding auto_submenu_def by (simp only: Let_def) (rule returns_bind [OF tr])
qed

end

context finalization
begin

text \<open>Giving a submenu up.\<close>

lemma adopt_run:
  "finv k \<Longrightarrow> forest_ok (menus k) q ts \<Longrightarrow> ts \<noteq> [] \<Longrightarrow> ordered (par # forest_preorder ts) \<Longrightarrow>
     \<exists>k'. adopt par (entry (hd ts)) k = Some (entry (last ts), k') \<and> finv k' \<and> forest_ok (menus k') par ts
       \<and> same_outside (set (forest_preorder ts)) k k'"
proof (induction ts arbitrary: k)
  case (Cons t ts)
  obtain i cs where t: "t = MNode i cs" by (cases t)
  let ?k = "upd_menu i (\<lambda>e. e\<lparr>m_parent := Some par\<rparr>) k"
  note dist = ordered_distinct [OF Cons.prems(4)]
  have out: "same_outside {i} k ?k" by (simp add: same_outside_def links_at_def)
  have k1: "finv ?k"
    by (rule finv_menus [OF Cons.prems(1)]) (use invD(2) [OF Cons.prems(1)] Cons.prems(4) in \<open>auto simp: t split: if_splits\<close>)
  have cs: "forest_ok (menus ?k) i cs" "forest_ok (menus ?k) q ts"
    using outside_forest [OF out] Cons.prems(2) dist by (auto simp: t)
  show ?case
  proof (cases ts)
    case Nil
    with k1 cs Cons.prems(2) out show ?thesis
      by (subst adopt.simps) (auto simp: t Let_def same_outside_def)
  next
    case (Cons u us)
    have nx: "m_next (menus k i) = Some (entry u)" using Cons.prems(2) by (simp add: t Cons)
    from Cons.IH [OF k1 cs(2)] Cons.prems(4) Cons obtain k' where
      k': "adopt par (entry (hd ts)) ?k = Some (entry (last ts), k')" "finv k'" "forest_ok (menus k') par ts"
        "same_outside (set (forest_preorder ts)) ?k k'" by auto
    have "adopt par (entry (hd (t # ts))) k = Some (entry (last (t # ts)), k')"
      using k'(1) nx Cons by (subst adopt.simps) (simp add: t Let_def)
    moreover have "links_at (menus k') i = links_at (menus ?k) i" by (rule same_outsideD [OF k'(4)]) (use dist t in auto)
    moreover have "forest_ok (menus k') i cs" using outside_forest [OF k'(4)] cs(1) dist t by auto
    moreover have "same_outside (set (forest_preorder (t # ts))) k k'"
      by (rule same_outside_trans [OF out k'(4)]) (auto simp: t)
    ultimately show ?thesis
      using k' Cons.prems(2) by (auto simp: t links_at_def)
  qed
qed simp

lemma flatten_entry_run:
  assumes i: "finv k" and ok: "forest_ok (menus k) par (MNode m cs # rest)"
    and ord: "ordered (par # m # forest_preorder cs @ forest_preorder rest)"
  shows "\<exists>k'. flatten_entry par m k = Some k' \<and> finv k' \<and> same_outside (set (m # forest_preorder cs)) k k'
    \<and> (forest_ok (menus k') par (MNode m cs # rest) \<or> cs \<noteq> [] \<and> forest_ok (menus k') par (MNode m [] # cs @ rest))"
proof (cases "cs \<noteq> [] \<and> unprompted k m")
  case False
  then have "flatten_entry par m k = Some k"
    using ok by (cases cs) (auto simp: flatten_entry_def)
  with i ok show ?thesis by (auto simp: same_outside_def)
next
  case True
  then obtain bs l where cs: "cs = bs @ [l]" by (cases cs rule: rev_cases) auto
  obtain e ds where l: "l = MNode e ds" by (cases l)
  have hd: "m_list (menus k m) = Some (entry (hd cs))" using ok True by (cases cs) auto
  have fk: "forest_ok (menus k) m cs" using ok by simp
  have "ordered (par # forest_preorder cs)" using ord by auto
  from adopt_run [OF i fk _ this] True obtain k1 where
    k1: "adopt par (entry (hd cs)) k = Some (e, k1)" "finv k1" "forest_ok (menus k1) par cs"
      "same_outside (set (forest_preorder cs)) k k1" by (auto simp: cs l)
  note dist = ordered_distinct [OF ord]
  define K where "K = upd_menu m (\<lambda>e. e\<lparr>m_next := m_list e, m_list := None\<rparr>) (upd_menu e (\<lambda>x. x\<lparr>m_next := m_next (menus k1 m)\<rparr>) k1)"
  have run: "flatten_entry par m k = Some K"
    using True k1(1) by (simp add: flatten_entry_def hd Let_def K_def)
  have ne: "m \<noteq> e" "e \<in> set (forest_preorder cs)" "m \<notin> set (forest_preorder cs)" "e \<notin> set (forest_preorder bs)"
    "e \<notin> set (forest_preorder ds)" "m \<notin> set (forest_preorder ds)" "m \<notin> set (forest_preorder bs)"
    "m \<notin> set (forest_preorder rest)" "e \<notin> set (forest_preorder rest)"
    "set (forest_preorder cs) \<inter> set (forest_preorder rest) = {}"
    using dist by (auto simp: cs l)
  have out: "same_outside {m, e} k1 K" by (auto simp: same_outside_def links_at_def K_def)
  have k2: "finv K"
  proof (rule finv_menus [OF k1(2)])
    show "m_parent (menus K x) = Some q \<Longrightarrow> pos q < pos x" for x q using invD(2) [OF k1(2), of x q] by (auto simp: K_def split: if_splits)
  qed (auto simp: K_def)
  have km: "links_at (menus k1) m = links_at (menus k) m" by (rule same_outsideD [OF k1(4)]) (use ne in simp)
  have r1: "forest_ok (menus k1) par rest" using outside_forest [OF k1(4)] ok ne by auto
  have "forest_ok (menus K) par rest" using outside_forest [OF out] r1 ne by auto
  moreover have "seg_ok (menus K) par bs (Some e)"
    using outside_seg [OF out, of bs par] k1(3) ne by (auto simp: cs l forest_ok_append)
  moreover have "forest_ok (menus K) e ds"
    using outside_forest [OF out, of ds e] k1(3) ne by (auto simp: cs l forest_ok_append)
  moreover have "m_parent (menus K e) = Some par" "m_list (menus K e) = first_entry ds"
    using k1(3) ne by (simp_all add: cs l forest_ok_append K_def)
  moreover have "m_next (menus K e) = first_entry rest" using ne links_atD(2) [OF km] ok by (simp add: K_def)
  moreover have "m_next (menus K m) = first_entry cs" using ne links_atD(1) [OF km] ok by (simp add: K_def)
  moreover have "m_list (menus K m) = None" "m_parent (menus K m) = Some par" using ne links_atD(3) [OF km] ok by (simp_all add: K_def)
  ultimately have "forest_ok (menus K) par (MNode m [] # cs @ rest)"
    by (simp add: cs l forest_ok_append seg_ok_append)
  moreover have "same_outside (set (m # forest_preorder cs)) k K"
    by (rule same_outside_trans [OF k1(4) out]) (use ne in auto)
  ultimately show ?thesis using run k2 True by blast
qed

lemma flatten_run:
  "finv k \<Longrightarrow> forest_ok (menus k) par ts \<Longrightarrow> ordered (par # forest_preorder ts) \<Longrightarrow>
     \<exists>k'. each_sibling (flatten_entry par) (first_entry ts) k = Some k' \<and> reshaped k par ts k'"
proof (induction "length (forest_preorder ts)" arbitrary: ts k rule: less_induct)
  case IH: less
  show ?case
  proof (cases ts)
    case Nil
    with IH.prems show ?thesis by (simp add: each_sibling.simps reshaped_refl)
  next
    case (Cons t rest)
    obtain m cs where t: "t = MNode m cs" by (cases t)
    have ord: "ordered (par # m # forest_preorder cs @ forest_preorder rest)" using IH.prems(3) by (simp add: Cons t)
    note dist = ordered_distinct [OF ord]
    from flatten_entry_run [OF IH.prems(1) _ ord] IH.prems(2) obtain k1 where
      k1: "flatten_entry par m k = Some k1" "finv k1" "same_outside (set (m # forest_preorder cs)) k k1"
        "forest_ok (menus k1) par (MNode m cs # rest) \<or> cs \<noteq> [] \<and> forest_ok (menus k1) par (MNode m [] # cs @ rest)"
      by (auto simp: Cons t)
    then obtain cs' us where us: "forest_ok (menus k1) par (MNode m cs' # us)"
      "forest_preorder cs' @ forest_preorder us = forest_preorder cs @ forest_preorder rest"
      by (metis append_Nil forest_preorder.simps(1) forest_preorder_append)
    have o: "ordered (par # m # forest_preorder cs' @ forest_preorder us)" using ord unfolding us(2) [symmetric] .
    note dist' = ordered_distinct [OF o]
    have sub: "set (forest_preorder us) \<subseteq> set (forest_preorder cs @ forest_preorder rest)"
      unfolding us(2) [symmetric] by simp
    have "length (forest_preorder us) \<le> length (forest_preorder cs @ forest_preorder rest)"
      unfolding us(2) [symmetric] by simp
    then have less: "length (forest_preorder us) < length (forest_preorder ts)" by (simp add: Cons t)
    have ous: "ordered (par # forest_preorder us)" and fus: "forest_ok (menus k1) par us" using o us(1) by simp_all
    from IH.hyps [OF less k1(2) fus ous] obtain k2 where
      k2: "each_sibling (flatten_entry par) (first_entry us) k1 = Some k2" "reshaped k1 par us k2" by blast
    then obtain us' where 2: "finv k2" "forest_ok (menus k2) par us'" "forest_preorder us' = forest_preorder us"
      "first_entry us' = first_entry us" "same_outside (set (forest_preorder us)) k1 k2"
      unfolding reshaped_def by blast
    have "each_sibling (flatten_entry par) (first_entry ts) k = Some k2"
      using k1(1) k2(1) us(1) by (subst each_sibling.simps) (simp add: Cons t)
    moreover have "links_at (menus k2) m = links_at (menus k1) m"
      by (rule same_outsideD [OF 2(5)]) (use dist' in auto)
    moreover have "forest_ok (menus k2) m cs' = forest_ok (menus k1) m cs'"
      by (rule outside_forest [OF 2(5)]) (use dist' in auto)
    moreover have "same_outside (set (forest_preorder ts)) k k2"
      by (rule same_outside_trans [OF k1(3) 2(5)]) (use sub in \<open>auto simp: Cons t\<close>)
    moreover have "forest_ok (menus k2) par (MNode m cs' # us')"
      using us(1) 2(2,4) calculation(2,3) by (simp add: links_at_def)
    moreover have "forest_preorder (MNode m cs' # us') = forest_preorder ts" using us(2) 2(3) by (simp add: Cons t)
    moreover have "first_entry (MNode m cs' # us') = first_entry ts" by (simp add: Cons t)
    ultimately show ?thesis using 2(1) unfolding reshaped_def by blast
  qed
qed

end

context finalization
begin

section \<open>The checks at the end\<close>

lemma up_defined: "finv k \<Longrightarrow> up_to_sym (menus k) m \<noteq> None"
proof (induction "pos m" arbitrary: m rule: less_induct)
  case less
  show ?case
  proof (cases "m_parent (menus k m)")
    case (Some p)
    with less invD(2) show ?thesis by (subst up_to_sym.simps) simp
  qed (subst up_to_sym.simps, simp)
qed

lemma choice_menu_defined: "finv k \<Longrightarrow> sym_get_choice_menu (syms k) (menus k) y \<noteq> None"
proof -
  assume "finv k"
  then have "\<exists>x. up_to_sym (menus k) m = Some x" for m using up_defined by auto
  then obtain f where "up_to_sym (menus k) m = Some (f m)" for m by metis
  then show ?thesis by (auto simp: sym_get_choice_menu_def split: option.splits)
qed

definition printed :: "kstate \<Rightarrow> kstate \<Rightarrow> bool" where
  "printed k k' \<longleftrightarrow> syms k' = syms k \<and> menus k' = menus k \<and> props k' = props k \<and> modules_sym k' = modules_sym k
     \<and> sym_table k' = sym_table k"

lemma printed_calm: "finv k \<Longrightarrow> printed k k' \<Longrightarrow> calm k k'"
  by (rule calm_printed) (simp_all add: printed_def)

lemma validate_defined:
  "finv k \<Longrightarrow> b \<in> value_syms (p_expr (props k p)) \<Longrightarrow> T \<Longrightarrow> menu_validate_number y (syms k b) \<noteq> None"
  using inv_checkable(3) [of k b p] by (auto simp: menu_validate_number_def split: option.split symbol_type.split)

lemma opt_run: "(T \<Longrightarrow> m \<noteq> None) \<Longrightarrow> (\<And>x. m = Some x \<Longrightarrow> returns T (f x) Q) \<Longrightarrow> returns T (Option.bind m f) Q"
  by (cases m) (auto simp: returns_def)

lemma printed_warn [simp]: "printed k (prop_warn p t k1) = printed k k1"
  by (simp add: printed_def)

lemma printed_refl [simp]: "printed k k"
  by (simp add: printed_def)

lemma printed_sel: "printed k k1 \<Longrightarrow> syms k1 = syms k \<and> menus k1 = menus k"
  by (simp add: printed_def)

lemma default_number_run:
  "finv k \<Longrightarrow> b \<in> value_syms (p_expr (props k q)) \<Longrightarrow> returns T (check_default_number y p (syms k b) k1) (printed k1)"
  using validate_defined [of k b q y] by (auto simp: check_default_number_def intro!: opt_run)

lemma default_member_run: "finv k \<Longrightarrow> returns T (check_default_member a p y k) (printed k)"
  using choice_menu_defined [of k y] by (auto simp: check_default_member_def intro!: opt_run)

lemma printed_finv: "finv k \<Longrightarrow> printed k k' \<Longrightarrow> finv k'"
  using printed_calm [of k k'] by (simp add: calm_def)

lemma printed_trans: "printed k k1 \<Longrightarrow> printed k1 k2 \<Longrightarrow> printed k k2"
  by (simp add: printed_def)

lemma check_default_run:
  assumes i: "finv k" and p: "T \<Longrightarrow> p_expr (props k p) \<noteq> P_NONE"
  shows "returns T (check_default a p k) (printed k)"
proof -
  define k1 where "k1 = (if s_type (syms k a) \<in> {S_STRING, S_INT, S_HEX} \<and> \<not> is_symbol_expr (p_expr (props k p))
                then prop_warn p (''default for config symbol '' @ single_quoted (name_text (syms k a)) @ '' must be a single symbol'') k
                else k)"
  have k1: "printed k k1" by (simp add: k1_def)
  have "returns T (Option.bind (check_default_number (syms k a) p (syms k b) k1) (check_default_member a p (syms k b))) (printed k)"
    if "prop_get_symbol (props k p) = Some b" for b
  proof (rule returns_bind [OF default_number_run [OF i, of b p]])
    show "b \<in> value_syms (p_expr (props k p))" using that by (auto simp: prop_get_symbol_def split: prop_expr.splits expr.splits)
  next
    fix k2 assume "printed k1 k2"
    then have k2: "printed k k2" using k1 printed_trans by blast
    show "returns T (check_default_member a p (syms k b) k2) (printed k)"
      by (rule returns_mono [OF default_member_run [OF printed_finv [OF i k2]]]) (rule printed_trans [OF k2])
  qed
  moreover have "returns T None (printed k)" if "p_expr (props k p) = P_NONE" using p that by (auto simp: returns_def)
  ultimately show ?thesis using k1 unfolding check_default_def Let_def k1_def [symmetric] by (simp split: option.split)
qed

lemma check_select_run:
  assumes "T \<Longrightarrow> prop_get_symbol (props k p) \<noteq> None"
  shows "returns T (check_select a p k) (printed k)"
  using assms by (cases "prop_get_symbol (props k p)") (auto simp: check_select_def Let_def returns_def)

lemma check_range_run:
  assumes i: "finv k" and p: "T \<Longrightarrow> range_of (props k p) \<noteq> None"
  shows "returns T (check_range a p k) (printed k)"
proof -
  define k1 where "k1 = (if s_type (syms k a) \<noteq> S_INT \<and> s_type (syms k a) \<noteq> S_HEX
              then prop_warn p ''range is only allowed for int or hex symbols'' k else k)"
  have k1: "printed k k1" "syms k1 = syms k" "props k1 = props k" by (simp_all add: k1_def)
  have "returns T (do { okl \<leftarrow> menu_validate_number (syms k a) (syms k l);
     ok \<leftarrow> (if okl then menu_validate_number (syms k a) (syms k r) else Some False);
     Some (if ok then k1 else prop_warn p ''range is invalid'' k1) }) (printed k)" if e: "p_expr (props k p) = E_RANGE l r" for l r
  proof -
    have v: "T \<Longrightarrow> menu_validate_number (syms k a) (syms k l) \<noteq> None \<and> menu_validate_number (syms k a) (syms k r) \<noteq> None"
      using validate_defined [OF i, of _ p] e by simp
    show ?thesis by (rule opt_run, use v in blast, rule opt_run) (use v k1 in \<open>auto split: if_splits\<close>)
  qed
  moreover have "T \<Longrightarrow> \<exists>l r. p_expr (props k p) = E_RANGE l r" using p by (auto simp: range_of_def split: prop_expr.splits)
  ultimately show ?thesis
    unfolding check_range_def Let_def k1_def [symmetric] k1
    by (cases "p_expr (props k p)") (auto simp: returns_def)
qed

lemma check_prop_run:
  assumes i: "finv k"
  shows "returns T (check_prop a p k) (calm k)"
proof -
  have f: "T \<Longrightarrow> prop_form (props k p)" by (rule inv_checkable(1) [OF i])
  have "returns T (check_prop a p k) (printed k)"
    unfolding check_prop_def using f check_default_run [OF i] check_select_run check_range_run [OF i]
    by (cases "p_type (props k p)") (auto simp: prop_form_def printed_def)
  then show ?thesis by (rule returns_mono) (rule printed_calm [OF i])
qed

lemma check_prop_list_run: "finv k \<Longrightarrow> returns T (check_prop_list a ps k) (calm k)"
  by (induction ps arbitrary: k) (auto simp: calm_refl intro: calm_bind [OF check_prop_run])

lemma finalize_end_run:
  assumes i: "finv k"
  shows "returns T (finalize_end m k) (calm k)"
proof (cases "m_sym (menus k m)")
  case None
  with i show ?thesis by (simp add: finalize_end_def calm_refl)
next
  case (Some a)
  define k1 where "k1 = (if s_type (syms k a) = S_UNKNOWN then menu_warn m ''config symbol defined without type'' k else k)"
  have c: "calm k k1" by (rule printed_calm [OF i]) (simp add: printed_def k1_def)
  then have i1: "finv k1" by (simp add: calm_def)
  have flag: "returns T (Some (upd_sym a (add_flags {SYMBOL_WARNED}) k2)) (calm k2)" if "finv k2" for k2
    using calm_write [OF that, of "upd_sym a (add_flags {SYMBOL_WARNED}) k2"] inv_fine [OF that] by simp
  have "returns T (do { k2 \<leftarrow> sym_check_prop a k1; Some (upd_sym a (add_flags {SYMBOL_WARNED}) k2) }) (calm k1)"
    unfolding sym_check_prop_def by (rule calm_bind [OF check_prop_list_run [OF i1]]) (rule flag)
  then have "returns T (do { k2 \<leftarrow> sym_check_prop a k1; Some (upd_sym a (add_flags {SYMBOL_WARNED}) k2) }) (calm k)"
    by (rule returns_mono) (use c in \<open>auto simp: calm_def elim: same_links_trans\<close>)
  then show ?thesis using calm_refl [OF i] by (simp add: finalize_end_def Some k1_def Let_def)
qed

section \<open>The whole recursion\<close>

lemma calm_outside: "calm k k' \<Longrightarrow> same_outside A k k'"
  by (simp add: calm_def same_links_def same_outside_def)

text \<open>After the first phase: flattening and the checks.\<close>

lemma settle_end:
  assumes "settled k p m ts rest k1" and ord: "ordered (m # forest_preorder ts @ forest_preorder rest)"
  shows "returns T (do { k \<leftarrow> each_sibling (flatten_entry m) (m_list (menus k1 m)) k1; finalize_end m k }) (settled k p m ts rest)"
proof -
  from assms obtain ts1 taken rest1 where 1: "finv k1" "rest = taken @ rest1" "tree_ok (menus k1) (MNode m ts1)"
    "m_next (menus k1 m) = first_entry rest1" "forest_ok (menus k1) p rest1"
    "forest_preorder ts1 = forest_preorder ts @ forest_preorder taken" "m_parent (menus k1 m) = m_parent (menus k m)"
    "same_outside (insert m (set (forest_preorder ts @ forest_preorder taken))) k k1"
    unfolding settled_def by blast
  have o: "ordered (m # forest_preorder ts1 @ forest_preorder rest1)" using ord by (simp add: 1(2,6))
  note dist = ordered_distinct [OF o]
  from flatten_run [OF 1(1), of m ts1] 1(3) o obtain k2 where
    k2: "each_sibling (flatten_entry m) (first_entry ts1) k1 = Some k2" "reshaped k1 m ts1 k2" by auto
  then obtain ts2 where 2: "finv k2" "forest_ok (menus k2) m ts2" "forest_preorder ts2 = forest_preorder ts1"
    "first_entry ts2 = first_entry ts1" "same_outside (set (forest_preorder ts1)) k1 k2"
    unfolding reshaped_def by blast
  have m2: "links_at (menus k2) m = links_at (menus k1) m" by (rule same_outsideD [OF 2(5)]) (use dist in auto)
  have r2: "forest_ok (menus k2) p rest1" using outside_forest [OF 2(5)] 1(5) dist by auto
  have end_ok: "settled k p m ts rest k3" if "calm k2 k3" for k3
  proof -
    note out = calm_outside [OF that]
    have m3: "links_at (menus k3) m = links_at (menus k1) m" using same_outsideD [OF out, of m "{}"] m2 by simp
    show ?thesis
    proof (rule settledI [of k3 rest taken rest1 m ts2])
      show "finv k3" using that by (simp add: calm_def)
      show "tree_ok (menus k3) (MNode m ts2)"
        using outside_forest [OF out, of ts2 "{}" m] 2(2,4) links_atD(1) [OF m3] 1(3) by simp
      show "forest_ok (menus k3) p rest1" using outside_forest [OF out, of rest1 "{}" p] r2 by simp
      show "same_outside (insert m (set (forest_preorder ts @ forest_preorder taken))) k k3"
        by (rule same_outside_trans [OF same_outside_trans [OF 1(8) 2(5)] out, where C = "insert m (set (forest_preorder ts @ forest_preorder taken))"
            and A = "insert m (set (forest_preorder ts @ forest_preorder taken))" and B = "{}"]) (auto simp: 1(6))
    qed (use 1 2 links_atD [OF m3] in simp_all)
  qed
  have "m_list (menus k1 m) = first_entry ts1" using 1(3) by simp
  then show ?thesis
    using returns_mono [OF finalize_end_run [OF 2(1)] end_ok] by (simp add: k2(1))
qed

lemma calm_settled:
  assumes "calm k k1" "spot k p m ts rest"
  shows "settled k p m ts rest k1"
proof -
  note out = calm_outside [OF assms(1), of "{}"]
  have l: "links_at (menus k1) x = links_at (menus k) x" for x by (rule same_outsideD [OF out]) simp
  show ?thesis
    by (rule settledI [of k1 rest "[]" rest m ts])
       (use assms out links_atD [OF l] tree_ok_frame(2) [of _ "menus k1" "menus k", OF l] in
         \<open>auto simp: spot_def calm_def same_outside_def\<close>)
qed

lemma step_spec:
  assumes sub: "sub_spec sub N"
  shows "sub_spec (finalize_step sub) (Suc N)"
  unfolding sub_spec_def
proof (intro allI impI)
  fix p m ts rest b k
  assume i: "finv k" and s: "spot k p m ts rest"
    and n: "length (m # forest_preorder ts @ forest_preorder rest) \<le> Suc N"
  have ord: "ordered (m # forest_preorder ts @ forest_preorder rest)" using s by (simp add: spot_def)
  note dist = ordered_distinct [OF ord]
  have fin: "returns T (do { k \<leftarrow> each_sibling (flatten_entry m) (m_list (menus k1 m)) k1; finalize_end m k }) (settled k p m ts rest)"
    if "settled k p m ts rest k1" for k1
    using settle_end [OF that ord] .
  show "returns T (finalize_step sub m b k) (settled k p m ts rest)"
    unfolding finalize_step_def
  proof (rule returns_bind [OF _ fin])
    show "returns T (case m_list (menus k m) of
         Some c \<Rightarrow> do {
           k \<leftarrow> each_sibling (finalize_child m) (Some c) k;
           let in_choice = (case m_sym (menus k m) of None \<Rightarrow> False | Some a \<Rightarrow> sym_is_choice (syms k a));
           each_sibling (\<lambda>m. sub m in_choice) (m_list (menus k m)) k
         }
       | None \<Rightarrow>
           (case m_sym (menus k m) of
              None \<Rightarrow> Some k
            | Some a \<Rightarrow> if b then Some k else auto_submenu sub m a k)) (settled k p m ts rest)"
    proof (cases ts)
      case Nil
      have l: "m_list (menus k m) = None" using s by (simp add: spot_def Nil)
      have "returns T (auto_submenu sub m a k) (settled k p m ts rest)" for a
        using auto_submenu_run [OF sub i _, of p m rest] s n by (simp add: Nil)
      then show ?thesis using calm_settled [OF calm_refl [OF i] s] by (simp add: l split: option.split)
    next
      case (Cons t us)
      have fk: "forest_ok (menus k) m ts" and l: "m_list (menus k m) = first_entry ts" using s by (simp_all add: spot_def)
      have each: "returns T (each_sibling (finalize_child m) (first_entry ts) k) (calm k)"
        by (rule each_calm [OF finalize_child_run fk i])
      have kids: "returns T (each_sibling (\<lambda>m. sub m c) (m_list (menus k1 m)) k1) (settled k p m ts rest)"
        if "calm k k1" for k1 c
      proof -
        note out = calm_outside [OF that, of "{}"]
        have l1: "links_at (menus k1) x = links_at (menus k) x" for x by (rule same_outsideD [OF out]) simp
        have i1: "finv k1" using that by (simp add: calm_def)
        have f1: "forest_ok (menus k1) m ts" and r1: "forest_ok (menus k1) p rest"
          using outside_forest [OF out] fk s by (simp_all add: spot_def)
        have "returns T (each_sibling (\<lambda>m. sub m c) (first_entry ts) k1) (reshaped k1 m ts)"
          by (rule children_run [OF sub i1 f1]) (use ord n in auto)
        moreover have "m_list (menus k1 m) = first_entry ts" using links_atD(1) [OF l1] l by simp
        moreover have "settled k p m ts rest k2" if r: "reshaped k1 m ts k2" for k2
        proof -
          from r obtain ts2 where 2: "finv k2" "forest_ok (menus k2) m ts2" "forest_preorder ts2 = forest_preorder ts"
            "first_entry ts2 = first_entry ts" "same_outside (set (forest_preorder ts)) k1 k2"
            unfolding reshaped_def by blast
          have m2: "links_at (menus k2) m = links_at (menus k) m"
            using same_outsideD [OF 2(5), of m] l1 dist by auto
          show ?thesis
          proof (rule settledI [of k2 rest "[]" rest m ts2])
            show "tree_ok (menus k2) (MNode m ts2)" using 2 links_atD(1) [OF m2] l by simp
            show "m_next (menus k2 m) = first_entry rest" using links_atD(2) [OF m2] s by (simp add: spot_def)
            show "forest_ok (menus k2) p rest" using outside_forest [OF 2(5)] r1 dist by auto
            show "m_parent (menus k2 m) = m_parent (menus k m)" by (rule links_atD(3) [OF m2])
            show "same_outside (insert m (set (forest_preorder ts @ forest_preorder []))) k k2"
              by (rule same_outside_trans [OF out 2(5)]) auto
          qed (use 2 in simp_all)
        qed
        ultimately show ?thesis using returns_mono by metis
      qed
      show ?thesis
        using returns_bind [OF each kids] l by (simp add: Cons Let_def)
    qed
  qed
qed

theorem sub_spec_n: "sub_spec (menu_finalize_sub n) n"
proof (induction n)
  case 0
  then show ?case by (simp add: sub_spec_def)
next
  case (Suc n)
  have "menu_finalize_sub (Suc n) = finalize_step (menu_finalize_sub n)" by (intro ext) simp
  then show ?case using step_spec [OF Suc] by simp
qed

end

section \<open>Finalizing the whole tree\<close>

definition menu_tree :: "kstate \<Rightarrow> mtree \<Rightarrow> bool" where
  "menu_tree k t \<longleftrightarrow> tree_ok (menus k) t \<and> entry t = rootmenu \<and> distinct (preorder t)
     \<and> m_parent (menus k rootmenu) = None \<and> m_next (menus k rootmenu) = None
     \<and> (\<forall>m. m \<notin> set (preorder t) \<longrightarrow> m_parent (menus k m) = None \<and> m_sym (menus k m) = None)"

definition index_in :: "mid list \<Rightarrow> mid \<Rightarrow> nat" where
  "index_in ms m = length (takeWhile (\<lambda>x. x \<noteq> m) ms)"

lemma index_in_ordered: "distinct ms \<Longrightarrow> sorted_wrt (\<lambda>x y. index_in ms x < index_in ms y) ms"
proof (induction ms)
  case (Cons m ms)
  have "index_in (m # ms) x = Suc (index_in ms x)" if "x \<in> set ms" for x
    using that Cons.prems by (auto simp: index_in_def)
  moreover have "sorted_wrt (\<lambda>x y. index_in (m # ms) x < index_in (m # ms) y) ms"
  proof (rule sorted_wrt_mono_rel [OF _ Cons.IH])
    fix x y assume "x \<in> set ms" "y \<in> set ms" "index_in ms x < index_in ms y"
    then show "index_in (m # ms) x < index_in (m # ms) y" using calculation by simp
  qed (use Cons.prems in simp)
  ultimately show ?case by (simp add: index_in_def)
qed simp

lemma parents_first:
  "tree_ok M t \<Longrightarrow> sorted_wrt (\<lambda>x y. f x < f y) (preorder t) \<Longrightarrow> m \<in> set (preorder t) \<Longrightarrow> m \<noteq> entry t \<Longrightarrow>
     m_parent (M m) = Some p \<Longrightarrow> f p < (f m :: nat)"
  "forest_ok M q ts \<Longrightarrow> sorted_wrt (\<lambda>x y. f x < f y) (q # forest_preorder ts) \<Longrightarrow> m \<in> set (forest_preorder ts) \<Longrightarrow>
     m_parent (M m) = Some p \<Longrightarrow> f p < f m"
proof (induction t and ts arbitrary: and q rule: preorder_forest_preorder.induct)
  case (3 t ts)
  show ?case
  proof (cases "m = entry t")
    case True
    with "3.prems" show ?thesis by auto
  next
    case False
    with "3.IH"(1) "3.IH"(2) [of q] "3.prems" show ?thesis by (auto simp: sorted_wrt_append)
  qed
qed auto

lemma menu_tree_parents:
  assumes "menu_tree k t" "m_parent (menus k m) = Some p"
  shows "index_in (preorder t) p < index_in (preorder t) m"
proof (rule parents_first(1) [of "menus k" t])
  show "sorted_wrt (\<lambda>x y. index_in (preorder t) x < index_in (preorder t) y) (preorder t)"
    using assms(1) by (intro index_in_ordered) (simp add: menu_tree_def)
qed (use assms in \<open>auto simp: menu_tree_def\<close>)

interpretation fin: finalization "checkable start" start pos for start pos
  by unfold_locales simp

theorem menu_finalize_tree:
  assumes t: "menu_tree k t" and T: "checkable k" "exprs_fine k" and n: "length (preorder t) \<le> n"
  obtains k' t' where "menu_finalize n k = Some k'" "menu_tree k' t'" "preorder t' = preorder t" "kept k k'"
proof -
  let ?pos = "index_in (preorder t)"
  obtain ts where ts: "t = MNode rootmenu ts" using t by (cases t) (auto simp: menu_tree_def)
  have i: "fin.finv k ?pos k"
    unfolding fin.finv_def using menu_tree_parents [OF t] T kept_refl by blast
  have s: "fin.spot ?pos k rootmenu rootmenu ts []"
    using t index_in_ordered [of "preorder t"] unfolding ts menu_tree_def fin.spot_def fin.ordered_def by auto
  have "length (rootmenu # forest_preorder ts @ forest_preorder []) \<le> n" using n by (simp add: ts)
  from fin.sub_specD [OF fin.sub_spec_n i s this, of False]
  have "returns (checkable k) (menu_finalize n k) (fin.settled k ?pos k rootmenu rootmenu ts [])"
    by (simp only: menu_finalize_def)
  then obtain k' where k': "menu_finalize n k = Some k'" "fin.settled k ?pos k rootmenu rootmenu ts [] k'"
    using T(1) by (cases "menu_finalize n k") (simp_all add: returns_def)
  then obtain ts' where 1: "fin.finv k ?pos k'" "tree_ok (menus k') (MNode rootmenu ts')" "m_next (menus k' rootmenu) = None"
    "forest_preorder ts' = forest_preorder ts" "m_parent (menus k' rootmenu) = m_parent (menus k rootmenu)"
    "fin.same_outside (insert rootmenu (set (forest_preorder ts))) k k'"
    using fin.settled_def [of k ?pos k rootmenu rootmenu ts "[]" k'] by auto
  note kk = fin.invD(1) [OF 1(1)]
  have out: "m_parent (menus k' m) = None \<and> m_sym (menus k' m) = None" if "m \<notin> set (preorder t)" for m
    using links_atD(3) [OF fin.same_outsideD [OF 1(6), of m]] that t kept_simps(1) [OF kk, of m] by (simp add: ts menu_tree_def)
  have "menu_tree k' (MNode rootmenu ts')"
    using 1(2,3,4,5) out t by (simp add: menu_tree_def ts)
  then show thesis by (rule that [OF k'(1) _ _ kk]) (simp add: ts 1(4))
qed

text \<open>So what is parsed and finalized is a state in which evaluations return.\<close>

lemma built_menu_tree:
  assumes "tree_at t d s"
  shows "menu_tree (bk s) t"
proof -
  have pre: "preorder t = rootmenu # map Menu [0 ..< next_menu s]" using assms by (simp add: tree_at_def)
  have "distinct (preorder t)" unfolding pre by (rule distinct_entries)
  moreover have "m_parent (menus (bk s) m) = None \<and> m_sym (menus (bk s) m) = None" if "m \<notin> set (preorder t)" for m
    using that assms by (cases m) (auto simp: tree_at_def image_iff not_le)
  ultimately show ?thesis using assms by (simp add: menu_tree_def tree_at_def preorder_hd)
qed

lemma menu_tree_wf:
  assumes t: "menu_tree k' t" and kk: "kept k k'" and wf: "wf_state k" and rev: "\<And>a. rev_dep_tri (syms k a) = tri_no"
  shows "wf_state k'"
proof -
  have tok: "tree_ok (menus k') t" and d: "distinct (preorder t)" using t by (simp_all add: menu_tree_def)
  have up: "up_to_sym (menus k') m \<noteq> None" for m
    using up_to_sym_tree [OF tok, of m] t
    by (cases "m \<in> set (preorder t)") (simp_all add: menu_tree_def, subst up_to_sym.simps, simp)
  have sub: "sub_entries (menus k') m \<noteq> None" if "m_sym (menus k' m) \<noteq> None" for m
  proof -
    have "m \<notin> set (preorder t) \<Longrightarrow> m_sym (menus k' m) = None" using t by (simp add: menu_tree_def)
    with that have "m \<in> set (preorder t)" by metis
    from subtree(1) [OF this tok d] show ?thesis by (auto simp: sub_entries_preorder)
  qed
  have "rev_dep_tri (syms k' a) = tri_no" for a using kk rev by (simp add: kept_def)
  with wf up sub show ?thesis unfolding wf_state_def kept_simps [OF kk] by auto
qed

theorem built_finalized:
  assumes b: "built s" and T: "checkable (bk s)" "exprs_fine (bk s)" and n: "next_menu s < n"
  obtains k' t' where "menu_finalize n (bk s) = Some k'" "menu_tree k' t'"
    "preorder t' = rootmenu # map Menu [0 ..< next_menu s]" "kept (bk s) k'" "wf_state k'"
proof -
  from built_tree [OF b] obtain t d where t: "tree_at t d s" by blast
  then have pre: "preorder t = rootmenu # map Menu [0 ..< next_menu s]" by (simp add: tree_at_def)
  from n pre have "length (preorder t) \<le> n" by simp
  from menu_finalize_tree [OF built_menu_tree [OF t] T this] obtain k' t' where
    k': "menu_finalize n (bk s) = Some k'" "menu_tree k' t'" "preorder t' = preorder t" "kept (bk s) k'" .
  have "wf_state k'"
    by (rule menu_tree_wf [OF k'(2,4) built_wf_state [OF b]]) (use built_forms [OF b] in \<open>simp add: forms_ok_def\<close>)
  with k' pre that show thesis by simp
qed

end
