(* ===== verification/MenuShow.thy ===== *)
theory MenuShow
  imports MenuBuild
begin

text \<open>
  What the front ends ask about a menu entry, \<^verbatim>\<open>parser/menu.c\<close>: whether it is visible, its
  prompt, its place, and the help text with the relations of its symbol; and the dump of the
  whole tree. Visibility evaluates symbols, so the functions take the evaluation as \<open>calc\<close> and
  return the new state. The depth of the tree bounds the recursion of \<open>menu_is_visible\<close>.
\<close>

section \<open>Visibility\<close>

definition menu_has_prompt :: "kstate \<Rightarrow> mid \<Rightarrow> bool" where
  "menu_has_prompt k m \<longleftrightarrow> m_prompt (menus k m) \<noteq> None"

text \<open>\<open>for (child = c; child; child = child->next) if (menu_is_visible(child)) return true;\<close>\<close>

partial_function (option) any_visible ::
  "(mid \<Rightarrow> kstate \<Rightarrow> (bool \<times> kstate) option) \<Rightarrow> mid option \<Rightarrow> kstate \<Rightarrow> (bool \<times> kstate) option" where
  "any_visible f c k =
     (case c of
        None \<Rightarrow> Some (False, k)
      | Some i \<Rightarrow> Option.bind (f i k) (\<lambda>(v, k). if v then Some (True, k) else any_visible f (m_next (menus k i)) k))"

declare any_visible.simps [code]

definition prompt_visible :: "calc \<Rightarrow> mid \<Rightarrow> pid \<Rightarrow> kstate \<Rightarrow> (tristate \<times> kstate) option" where
  "prompt_visible calc m p k =
     (case m_sym (menus k m) of
        Some a \<Rightarrow> do {
          k \<leftarrow> calc a k;
          Some (p_visible_tri (props k p), k)
        }
      | None \<Rightarrow> do {
          (v, k) \<leftarrow> expr_calc_value calc (p_visible_expr (props k p)) k;
          Some (v, upd_prop p (\<lambda>q. q\<lparr>p_visible_tri := v\<rparr>) k)
        })"

definition visible_step :: "calc \<Rightarrow> (mid \<Rightarrow> kstate \<Rightarrow> (bool \<times> kstate) option) \<Rightarrow> mid \<Rightarrow> kstate \<Rightarrow> (bool \<times> kstate) option" where
  "visible_step calc rec m k =
     (case m_prompt (menus k m) of
        None \<Rightarrow> Some (False, k)
      | Some p \<Rightarrow> do {
          (hidden, k) \<leftarrow> (case m_visibility (menus k m) of
              None \<Rightarrow> Some (False, k)
            | Some e \<Rightarrow> do {
                (v, k) \<leftarrow> expr_calc_value calc (Some e) k;
                Some (v = tri_no, k)
              });
          if hidden then Some (False, k)
          else do {
            (v, k) \<leftarrow> prompt_visible calc m p k;
            if v \<noteq> tri_no then Some (True, k)
            else (case m_sym (menus k m) of
                None \<Rightarrow> Some (False, k)
              | Some a \<Rightarrow>
                  if sym_get_tristate_value (syms k a) = tri_no then Some (False, k)
                  else any_visible rec (m_list (menus k m)) k)
          }
        })"

fun menu_is_visible :: "nat \<Rightarrow> calc \<Rightarrow> mid \<Rightarrow> kstate \<Rightarrow> (bool \<times> kstate) option" where
  "menu_is_visible 0 calc m k = None"
| "menu_is_visible (Suc n) calc m k = visible_step calc (menu_is_visible n calc) m k"

definition menu_is_empty :: "nat \<Rightarrow> calc \<Rightarrow> mid \<Rightarrow> kstate \<Rightarrow> (bool \<times> kstate) option" where
  "menu_is_empty n calc m k = do {
     (v, k) \<leftarrow> any_visible (menu_is_visible n calc) (m_list (menus k m)) k;
     Some (\<not> v, k)
   }"

section \<open>Prompts and places\<close>

definition menu_get_prompt :: "kstate \<Rightarrow> mid \<Rightarrow> string option" where
  "menu_get_prompt k m =
     (case m_prompt (menus k m) of
        Some p \<Rightarrow> p_text (props k p)
      | None \<Rightarrow> (case m_sym (menus k m) of Some a \<Rightarrow> s_name (syms k a) | None \<Rightarrow> None))"

partial_function (option) menu_get_parent_menu :: "kstate \<Rightarrow> mid \<Rightarrow> mid option option" where
  "menu_get_parent_menu k m =
     (case m_parent (menus k m) of
        None \<Rightarrow> Some None
      | Some p \<Rightarrow> if m_type (menus k p) = M_MENU then Some (Some p) else menu_get_parent_menu k p)"

partial_function (option) menu_get_menu_or_parent_menu :: "kstate \<Rightarrow> mid \<Rightarrow> mid option" where
  "menu_get_menu_or_parent_menu k m =
     (if m = rootmenu then Some m
      else if (case m_prompt (menus k m) of Some p \<Rightarrow> p_type (props k p) = P_MENU | None \<Rightarrow> False) then Some m
      else Option.bind (m_parent (menus k m)) (menu_get_menu_or_parent_menu k))"

declare menu_get_parent_menu.simps [code] menu_get_menu_or_parent_menu.simps [code]

section \<open>Help texts\<close>

definition str_text :: "string option \<Rightarrow> string" where
  "str_text s = (case s of None \<Rightarrow> ''(null)'' | Some t \<Rightarrow> t)"

definition get_def_str :: "kstate \<Rightarrow> mid \<Rightarrow> gstr \<Rightarrow> gstr" where
  "get_def_str k m r =
     str_printf r (''Defined at '' @ m_filename (menus k m) @ '':'' @ int_text (m_lineno (menus k m)) @ ''\<newline>'')"

definition get_dep_str :: "kstate \<Rightarrow> expr option \<Rightarrow> string \<Rightarrow> gstr \<Rightarrow> gstr" where
  "get_dep_str k e prefix r =
     (if expr_is_yes e then r
      else str_append (expr_gstr_print (syms k) e (str_append r (Some prefix))) (Some ''\<newline>''))"

text \<open>The case \<open>E_RANGE\<close> of \<open>expr_print\<close>.\<close>

definition prop_expr_gstr_print :: "(sid \<Rightarrow> symbol) \<Rightarrow> prop_expr \<Rightarrow> gstr \<Rightarrow> gstr" where
  "prop_expr_gstr_print sy e gs =
     (case e of
        P_NONE \<Rightarrow> expr_gstr_print sy None gs
      | P_EXPR e \<Rightarrow> expr_gstr_print sy (Some e) gs
      | E_RANGE a b \<Rightarrow> foldl (expr_print_gstr_helper sy) gs
          [(None, ''[''), (Some a, name_text (sy a)), (None, '' ''), (Some b, name_text (sy b)), (None, '']'')])"

record jump_key =
  jk_offset :: nat
  jk_target :: mid

text \<open>
  The loop that collects up to eight entries from the prompt upwards, and the innermost of them
  that is visible. \<open>d\<close> is the recursion depth for visibility.
\<close>

fun submenu_path :: "nat \<Rightarrow> nat \<Rightarrow> calc \<Rightarrow> mid \<Rightarrow> mid option \<Rightarrow> kstate \<Rightarrow> (mid list \<times> mid option \<times> kstate) option" where
  "submenu_path 0 d calc m location k = Some ([], location, k)"
| "submenu_path (Suc i) d calc m location k =
     (if m = rootmenu then Some ([], location, k)
      else do {
        (location, k) \<leftarrow> (if location \<noteq> None then Some (location, k)
          else do {
            (v, k) \<leftarrow> menu_is_visible d calc m k;
            Some (if v then Some m else None, k)
          });
        p \<leftarrow> m_parent (menus k m);
        (ms, location, k) \<leftarrow> submenu_path i d calc p location k;
        Some (m # ms, location, k)
      })"

text \<open>
  One line for each collected entry, from the outside; \<open>jk\<close> is the key shown at the location,
  where one is handed out.
\<close>

definition location_line :: "kstate \<Rightarrow> nat \<Rightarrow> int \<Rightarrow> mid \<Rightarrow> gstr \<Rightarrow> gstr" where
  "location_line k j jk m r =
     (let indent = 2 * j + 4;
          r = (if jk \<ge> 0 then str_printf r (''('' @ [char_of (nat jk)] @ '')'') else r);
          indent = (if jk \<ge> 0 then indent - 3 else indent);
          r = str_printf r (replicate indent (CHR '' '') @ ''-> '' @ str_text (menu_get_prompt k m));
          r = (case m_sym (menus k m) of
                 None \<Rightarrow> r
               | Some a \<Rightarrow> str_printf r ('' ('' @ (case s_name (syms k a) of None \<Rightarrow> ''<choice>'' | Some t \<Rightarrow> t)
                     @ '' [='' @ str_of (sym_get_string_value (syms k a)) @ ''])''))
      in str_append r (Some ''\<newline>''))"

fun location_lines :: "kstate \<Rightarrow> (nat \<Rightarrow> int) \<Rightarrow> mid option \<Rightarrow> nat \<Rightarrow> mid list \<Rightarrow> gstr \<times> jump_key list \<Rightarrow> gstr \<times> jump_key list" where
  "location_lines k keys jump j [] (r, head) = (r, head)"
| "location_lines k keys jump j (m # ms) (r, head) =
     (if jump = Some m then
        location_lines k keys jump (Suc j) ms
          (location_line k j (keys (length head)) m r, head @ [\<lparr>jk_offset = length (gs_s r), jk_target = m\<rparr>])
      else location_lines k keys jump (Suc j) ms (location_line k j (-1) m r, head))"

definition get_prompt_str ::
  "(nat \<Rightarrow> int) \<Rightarrow> nat \<Rightarrow> calc \<Rightarrow> pid \<Rightarrow> gstr \<times> jump_key list option \<Rightarrow> kstate \<Rightarrow> ((gstr \<times> jump_key list option) \<times> kstate) option" where
  "get_prompt_str keys d calc p = (\<lambda>(r, head) k. do {
     let q = props k p;
     let r = str_printf r (''  Prompt: '' @ str_text (p_text q) @ ''\<newline>'');
     let dep = m_dep (menus k (p_menu q));
     let r = get_dep_str k dep ''  Depends on: '' r;
     let r = (if expr_eq dep (p_visible_expr q) then r else get_dep_str k (p_visible_expr q) ''  Visible if: '' r);
     (ms, location, k) \<leftarrow> submenu_path 8 d calc (p_menu q) None k;
     let r = str_printf r ''  Location:\<newline>'';
     let (r, hs) = location_lines k keys (if head = None then None else location) 0 (rev ms) (r, case_option [] id head);
     Some ((r, map_option (\<lambda>_. hs) head), k)
   })"

definition get_symbol_props_str :: "kstate \<Rightarrow> symbol \<Rightarrow> prop_type \<Rightarrow> string \<Rightarrow> gstr \<Rightarrow> gstr" where
  "get_symbol_props_str k y tok prefix r =
     (case filter (\<lambda>p. p_type (props k p) = tok) (s_prop y) of
        [] \<Rightarrow> r
      | p # ps \<Rightarrow>
          (let r = prop_expr_gstr_print (syms k) (p_expr (props k p)) (str_append r (Some prefix));
               r = fold (\<lambda>p r. prop_expr_gstr_print (syms k) (p_expr (props k p)) (str_printf r '' && '')) ps r
           in str_append r (Some ''\<newline>'')))"

fun prompt_strs ::
  "(nat \<Rightarrow> int) \<Rightarrow> nat \<Rightarrow> calc \<Rightarrow> mid list \<Rightarrow> gstr \<times> jump_key list option \<Rightarrow> kstate \<Rightarrow> ((gstr \<times> jump_key list option) \<times> kstate) option" where
  "prompt_strs keys d calc [] rh k = Some (rh, k)"
| "prompt_strs keys d calc (m # ms) rh k =
     (case m_prompt (menus k m) of
        None \<Rightarrow> prompt_strs keys d calc ms rh k
      | Some p \<Rightarrow> do {
          (rh, k) \<leftarrow> get_prompt_str keys d calc p (get_def_str k m (fst rh), snd rh) k;
          prompt_strs keys d calc ms rh k
        })"

definition revdep_strs :: "calc \<Rightarrow> expr option \<Rightarrow> string \<Rightarrow> gstr \<Rightarrow> kstate \<Rightarrow> (gstr \<times> kstate) option" where
  "revdep_strs calc e title r k =
     (if e = None then Some (r, k)
      else do {
        (r, k) \<leftarrow> expr_gstr_print_revdep calc e r tri_yes (title @ '' by [y]:\<newline>'') k;
        (r, k) \<leftarrow> expr_gstr_print_revdep calc e r tri_mod (title @ '' by [m]:\<newline>'') k;
        expr_gstr_print_revdep calc e r tri_no (title @ '' by [n]:\<newline>'') k
      })"

definition symbol_head :: "calc \<Rightarrow> sid \<Rightarrow> gstr \<Rightarrow> kstate \<Rightarrow> (gstr \<times> kstate) option" where
  "symbol_head calc a r k =
     (case s_name (syms k a) of
        None \<Rightarrow> Some (r, k)
      | Some nm \<Rightarrow> do {
          let r = str_printf r (''Symbol: '' @ nm @ '' [='' @ str_of (sym_get_string_value (syms k a)) @ '']\<newline>'');
          let r = str_printf r (''Type  : '' @ sym_type_name (s_type (syms k a)) @ ''\<newline>'');
          if s_type (syms k a) = S_INT \<or> s_type (syms k a) = S_HEX then do {
            (p, k) \<leftarrow> sym_get_range_prop calc a k;
            Some (case p of
                None \<Rightarrow> r
              | Some p \<Rightarrow> str_append (prop_expr_gstr_print (syms k) (p_expr (props k p)) (str_printf r ''Range : '')) (Some ''\<newline>''), k)
          }
          else Some (r, k)
        })"

definition get_symbol_str ::
  "(nat \<Rightarrow> int) \<Rightarrow> nat \<Rightarrow> calc \<Rightarrow> sid \<Rightarrow> gstr \<times> jump_key list option \<Rightarrow> kstate \<Rightarrow> ((gstr \<times> jump_key list option) \<times> kstate) option" where
  "get_symbol_str keys d calc a = (\<lambda>(r, head) k. do {
     (r, k) \<leftarrow> symbol_head calc a r k;
     ((r, head), k) \<leftarrow> prompt_strs keys d calc (s_menus (syms k a)) (r, head) k;
     let r = fold (\<lambda>m r. get_dep_str k (m_dep (menus k m)) ''  Depends on: '' (get_def_str k m r))
           (filter (\<lambda>m. m_prompt (menus k m) = None) (s_menus (syms k a))) r;
     let r = get_symbol_props_str k (syms k a) P_SELECT ''Selects: '' r;
     (r, k) \<leftarrow> revdep_strs calc (rev_dep_expr (syms k a)) ''Selected'' r k;
     let r = get_symbol_props_str k (syms k a) P_IMPLY ''Implies: '' r;
     (r, k) \<leftarrow> revdep_strs calc (implied_expr (syms k a)) ''Implied'' r k;
     Some ((str_append r (Some ''\<newline>\<newline>''), head), k)
   })"

fun relation_strs ::
  "(nat \<Rightarrow> int) \<Rightarrow> nat \<Rightarrow> calc \<Rightarrow> sid list \<Rightarrow> gstr \<times> jump_key list option \<Rightarrow> kstate \<Rightarrow> ((gstr \<times> jump_key list option) \<times> kstate) option" where
  "relation_strs keys d calc [] rh k = Some (rh, k)"
| "relation_strs keys d calc (a # as) rh k =
     Option.bind (get_symbol_str keys d calc a rh k) (\<lambda>(rh, k). relation_strs keys d calc as rh k)"

text \<open>The null-terminated array of symbols is a list.\<close>

definition get_relations_str ::
  "(nat \<Rightarrow> int) \<Rightarrow> nat \<Rightarrow> calc \<Rightarrow> sid list \<Rightarrow> jump_key list option \<Rightarrow> kstate \<Rightarrow> ((gstr \<times> jump_key list option) \<times> kstate) option" where
  "get_relations_str keys d calc sym_arr head k = do {
     ((r, head), k) \<leftarrow> relation_strs keys d calc sym_arr (str_new, head) k;
     Some ((if sym_arr = [] then str_append r (Some ''No matches found.\<newline>'') else r, head), k)
   }"

definition nohelp_text :: string where
  "nohelp_text = ''There is no help available for this option.''"

definition menu_get_ext_help :: "string \<Rightarrow> (nat \<Rightarrow> int) \<Rightarrow> nat \<Rightarrow> calc \<Rightarrow> mid \<Rightarrow> gstr \<Rightarrow> kstate \<Rightarrow> (gstr \<times> kstate) option" where
  "menu_get_ext_help cfg keys d calc m help k = do {
     (help, help_text) \<leftarrow> (case m_help (menus k m) of
         None \<Rightarrow> Some (help, nohelp_text)
       | Some t \<Rightarrow> do {
           a \<leftarrow> m_sym (menus k m);
           Some (case s_name (syms k a) of
               None \<Rightarrow> help
             | Some nm \<Rightarrow> str_printf help (cfg @ nm @ '':\<newline>\<newline>''), t)
         });
     let help = str_printf help (help_text @ ''\<newline>'');
     case m_sym (menus k m) of
       None \<Rightarrow> Some (help, k)
     | Some a \<Rightarrow> do {
         ((help, _), k) \<leftarrow> get_symbol_str keys d calc a (help, None) k;
         Some (help, k)
       }
   }"

section \<open>The dump of the tree\<close>

text \<open>
  \<open>bits\<close> is a 64-bit word and a shift by 64 or more is undefined in C, so an entry below depth 64
  has no line.
\<close>

unbundle bit_operations_syntax

fun dump_indent :: "64 word \<Rightarrow> nat \<Rightarrow> string" where
  "dump_indent bits 0 = ''''"
| "dump_indent bits (Suc i) =
     (if bits AND push_bit i 1 \<noteq> 0 then (if i > 0 then ''|   '' else ''|-- '')
      else (if i > 0 then ''    '' else ''`-- '')) @ dump_indent bits i"

definition dump_entry :: "kstate \<Rightarrow> mid \<Rightarrow> string option" where
  "dump_entry k m =
     (let title = Option.bind (m_prompt (menus k m)) (\<lambda>p. Some (str_text (p_text (props k p))));
          symbol = Option.bind (m_sym (menus k m)) (\<lambda>a. Some (''symbol '' @ str_text (s_name (syms k a)) @ ''\<newline>''))
      in case m_type (menus k m) of
           M_CHOICE \<Rightarrow> Option.bind title (\<lambda>t. Some (''choice \"'' @ t @ ''\"\<newline>''))
         | M_COMMENT \<Rightarrow> Option.bind title (\<lambda>t. Some (''comment \"'' @ t @ ''\"\<newline>''))
         | M_IF \<Rightarrow> Some ''if\<newline>''
         | M_MENU \<Rightarrow> Option.bind title (\<lambda>t.
             if m_sym (menus k m) = None then Some (''menu \"'' @ t @ ''\"\<newline>'')
             else Option.bind symbol (\<lambda>y. Some (''menu \"'' @ t @ ''\" + '' @ y)))
         | M_NORMAL \<Rightarrow> symbol)"

definition next_bit :: "kstate \<Rightarrow> mid \<Rightarrow> 64 word \<Rightarrow> 64 word" where
  "next_bit k m bits = (if m_next (menus k m) \<noteq> None then bits OR 1 else bits AND NOT 1)"

partial_function (option) dump_up :: "kstate \<Rightarrow> mid option \<Rightarrow> 64 word \<Rightarrow> nat \<Rightarrow> (mid option \<times> 64 word \<times> nat) option" where
  "dump_up k m bits indent =
     (case m of
        None \<Rightarrow> Some (None, bits, indent)
      | Some i \<Rightarrow>
          if m_next (menus k i) \<noteq> None then Some (Some i, bits, indent)
          else dump_up k (m_parent (menus k i)) (drop_bit 1 bits) (indent - 1))"

partial_function (option) dump_from :: "kstate \<Rightarrow> mid option \<Rightarrow> 64 word \<Rightarrow> nat \<Rightarrow> string option" where
  "dump_from k m bits indent =
     (case m of
        None \<Rightarrow> Some ''''
      | Some i \<Rightarrow>
          if indent > 64 then None
          else Option.bind (dump_entry k i) (\<lambda>line.
            let out = dump_indent bits indent @ line in
            case m_list (menus k i) of
              Some c \<Rightarrow> Option.bind (dump_from k (Some c) (next_bit k c (push_bit 1 bits)) (Suc indent)) (\<lambda>rest. Some (out @ rest))
            | None \<Rightarrow>
                Option.bind (dump_up k (Some i) bits indent) (\<lambda>(j, bits, indent).
                  case j of
                    None \<Rightarrow> Some out
                  | Some i \<Rightarrow>
                      (case m_next (menus k i) of
                         None \<Rightarrow> None
                       | Some n \<Rightarrow> Option.bind (dump_from k (Some n) (next_bit k n bits) indent) (\<lambda>rest. Some (out @ rest))))))"

definition menu_dump :: "kstate \<Rightarrow> string option" where
  "menu_dump k = dump_from k (Some rootmenu) 0 0"

declare dump_up.simps [code] dump_from.simps [code]


section \<open>Visibility returns\<close>

text \<open>On a tree of entries a recursion depth of its height is enough.\<close>

fun height :: "mtree \<Rightarrow> nat"
  and forest_height :: "mtree list \<Rightarrow> nat" where
  "height (MNode m ts) = Suc (forest_height ts)"
| "forest_height [] = 0"
| "forest_height (t # ts) = max (height t) (forest_height ts)"

lemma any_visible_None [simp]: "any_visible f None k = Some (False, k)"
  by (subst any_visible.simps) simp

lemma any_visible_Some:
  "any_visible f (Some i) k =
     Option.bind (f i k) (\<lambda>(v, k). if v then Some (True, k) else any_visible f (m_next (menus k i)) k)"
  by (subst any_visible.simps) simp

lemma tree_links:
  "menu_links M M' \<Longrightarrow> tree_ok M t \<Longrightarrow> tree_ok M' t"
  "menu_links M M' \<Longrightarrow> forest_ok M p ts \<Longrightarrow> forest_ok M' p ts"
  by (induction t and ts arbitrary: and p rule: preorder_forest_preorder.induct) (simp_all add: menu_linksD)

lemma forest_tree: "forest_ok M p ts \<Longrightarrow> t \<in> set ts \<Longrightarrow> tree_ok M t"
  by (induction ts) auto

lemma height_le: "t \<in> set ts \<Longrightarrow> height t \<le> forest_height ts"
  by (induction ts) auto

context calc_runs
begin

lemma R_links: "R s \<Longrightarrow> menu_links (menus base) (menus s)"
  using R_struct by (simp add: same_structure_def menu_eq_def)

lemma prompt_visible_run:
  "R s \<Longrightarrow> returns T (prompt_visible calc m p s) (\<lambda>(v, s'). R s' \<and> v = p_visible_tri (props s' p))"
  by (auto simp: prompt_visible_def
      intro!: bind_state calc_run bind_pair expr_run R_step [OF _ p_prop] split: option.split)

lemma hidden_run:
  "R s \<Longrightarrow> returns T
     (case m_visibility (menus s m) of
        None \<Rightarrow> Some (False, s)
      | Some e \<Rightarrow> Option.bind (expr_calc_value calc (Some e) s) (\<lambda>(v, s). Some (v = tri_no, s)))
     (\<lambda>(h, s'). R s' \<and> (m_visibility (menus s m) = None \<longrightarrow> \<not> h))"
  by (auto intro!: bind_pair expr_run split: option.split)

lemma bind_pair_fact:
  "returns T m (\<lambda>(r, s'). R s' \<and> P r s') \<Longrightarrow> (\<And>r s'. R s' \<Longrightarrow> P r s' \<Longrightarrow> returns T (f (r, s')) Q) \<Longrightarrow>
   returns T (Option.bind m f) Q"
  by (rule returns_bind [where P = "\<lambda>(r, s'). R s' \<and> P r s'"]) auto

lemma visible_step_run:
  assumes R: "R s"
    and below: "\<And>s. R s \<Longrightarrow> returns T (any_visible rec (m_list (menus base m)) s) (\<lambda>(v, s'). R s')"
  shows "returns T (visible_step calc rec m s) (\<lambda>(v, s'). R s' \<and> (v \<longrightarrow> m_prompt (menus s m) \<noteq> None)
    \<and> (\<forall>p. m_prompt (menus s m) = Some p \<longrightarrow> m_visibility (menus s m) = None \<longrightarrow> m_list (menus base m) = None \<longrightarrow>
          (v \<longleftrightarrow> p_visible_tri (props s' p) \<noteq> tri_no)))"
proof (cases "m_prompt (menus s m)")
  case None
  with R show ?thesis by (simp add: visible_step_def)
next
  case (Some p)
  have leaf: "m_list (menus t m) = m_list (menus base m)" if "R t" for t
    using R_links [OF that] by (simp add: menu_linksD)
  show ?thesis
    unfolding visible_step_def Some option.case
  proof (rule bind_pair_fact [OF hidden_run [OF R]], goal_cases)
    case (1 h t)
    show ?case
    proof (cases h)
      case False
      show ?thesis
      proof (cases "m_list (menus base m)")
        case None
        show ?thesis
          unfolding case_prod_conv if_not_P [OF False]
          by (rule bind_pair_fact [OF prompt_visible_run [OF 1(1)]])
             (auto simp: leaf None split: option.split)
      next
        case (Some c)
        show ?thesis
          unfolding case_prod_conv if_not_P [OF False]
          by (rule bind_pair_fact [OF prompt_visible_run [OF 1(1)]])
             (auto simp: leaf Some split: option.split intro: returns_mono [OF below [unfolded Some]])
      qed
    qed (use 1 Some in auto)
  qed
qed

lemma any_visible_run:
  "(\<And>t s. t \<in> set ts \<Longrightarrow> R s \<Longrightarrow> returns T (f (entry t) s) (\<lambda>(v, s'). R s')) \<Longrightarrow>
   forest_ok (menus base) p ts \<Longrightarrow> R s \<Longrightarrow> returns T (any_visible f (first_entry ts) s) (\<lambda>(v, s'). R s')"
proof (induction ts arbitrary: s)
  case (Cons t ts)
  have next_ts: "m_next (menus s' (entry t)) = first_entry ts" if "R s'" for s'
    using R_links [OF that] Cons.prems(2) by (simp add: menu_linksD)
  show ?case
    unfolding first_entry.simps any_visible_Some
  proof (rule bind_pair [OF Cons.prems(1)], goal_cases)
    case (3 v s')
    with Cons.IH [of s'] Cons.prems show ?case by (auto simp: next_ts)
  qed (use Cons.prems in auto)
qed simp

lemma menu_is_visible_run:
  assumes "tree_ok (menus base) t" and "height t \<le> d" and "R s" and "entry t = m"
  shows "returns T (menu_is_visible d calc m s) (\<lambda>(v, s'). R s' \<and> (v \<longrightarrow> m_prompt (menus s m) \<noteq> None)
    \<and> (\<forall>p. m_prompt (menus s m) = Some p \<longrightarrow> m_visibility (menus s m) = None \<longrightarrow> m_list (menus base m) = None \<longrightarrow>
          (v \<longleftrightarrow> p_visible_tri (props s' p) \<noteq> tri_no)))"
  using assms
proof (induction d arbitrary: t s m)
  case 0
  then show ?case by (cases t) simp
next
  case (Suc d)
  obtain ts where t: "t = MNode m ts" using Suc.prems(4) by (cases t) simp
  with Suc.prems have ts: "forest_ok (menus base) m ts" "m_list (menus base m) = first_entry ts" "forest_height ts \<le> d"
    by auto
  show ?case
    unfolding menu_is_visible.simps
  proof (rule visible_step_run [OF Suc.prems(3)])
    fix r assume "R r"
    show "returns T (any_visible (menu_is_visible d calc) (m_list (menus base m)) r) (\<lambda>(v, s'). R s')"
      unfolding ts(2)
    proof (rule any_visible_run [OF _ ts(1) \<open>R r\<close>], goal_cases)
      case (1 u s)
      with Suc.IH [of u s] forest_tree [OF ts(1)] height_le [of u ts] ts(3) show ?case
        by (auto elim!: returns_mono)
    qed
  qed
qed

lemma menu_is_empty_run:
  assumes "tree_ok (menus base) t" and "height t \<le> Suc d" and "R s" and "entry t = m"
  shows "returns T (menu_is_empty d calc m s) (\<lambda>(v, s'). R s')"
proof -
  obtain ts where t: "t = MNode m ts" using assms(4) by (cases t) simp
  with assms have ts: "forest_ok (menus base) m ts" "m_list (menus s m) = first_entry ts" "forest_height ts \<le> d"
    using R_links [OF assms(3)] by (auto simp: menu_linksD)
  have "returns T (any_visible (menu_is_visible d calc) (first_entry ts) s) (\<lambda>(v, s'). R s')"
  proof (rule any_visible_run [OF _ ts(1) \<open>R s\<close>], goal_cases)
    case (1 u s)
    with menu_is_visible_run [of u d s] forest_tree [OF ts(1)] height_le [of u ts] ts(3) show ?case
      by (auto elim!: returns_mono)
  qed
  then show ?thesis
    unfolding menu_is_empty_def ts(2) by (auto intro!: bind_pair)
qed

end

section \<open>With the evaluation of symbols\<close>

lemma menu_is_visible_total:
  assumes "wf_state s" "finite (invalid s)" "card (invalid s) < n"
    and "tree_ok (menus s) t" "height t \<le> d" "entry t = m"
  shows "returns True (menu_is_visible d (sym_calc_value n) m s) (\<lambda>(v, s'). prim\<^sup>*\<^sup>* s s'
    \<and> (v \<longrightarrow> m_prompt (menus s m) \<noteq> None)
    \<and> (\<forall>p. m_prompt (menus s m) = Some p \<longrightarrow> m_visibility (menus s m) = None \<longrightarrow> m_list (menus s m) = None \<longrightarrow>
          (v \<longleftrightarrow> p_visible_tri (props s' p) \<noteq> tri_no)))"
proof -
  have "returns True (sym_calc_value n a u) (\<lambda>s'. prim\<^sup>*\<^sup>* s s')" if r: "prim\<^sup>*\<^sup>* s u" for a u
  proof -
    have "wf_state u \<and> finite (invalid u) \<and> card (invalid u) < n"
      using assms(1-3) prims_wf [OF r] prims_invalid [OF r] by (auto intro: finite_subset le_less_trans [OF card_mono])
    then show ?thesis using calc_value_runs [of True u n a] r by (auto elim: returns_mono)
  qed
  then have c: "calc_runs True (sym_calc_value n) s" using assms(1) by (intro calc_runs.intro) auto
  from calc_runs.menu_is_visible_run [OF c _ assms(5) _ assms(6)] assms(4)
  show ?thesis by (simp add: calc_runs.base_def [OF c])
qed

end
