(* ===== verification/ConfFiles.thy ===== *)
theory ConfFiles
  imports ConfText
begin

text \<open>
  The files of \<^verbatim>\<open>parser/confdata.c\<close> and \<^verbatim>\<open>parser/confpath.c\<close>: the file system as far as the
  program sees it, the checks on paths, the names of the configuration files, messages and the
  mark that the configuration has changed. What the operating system permits is a parameter
  (\<open>os\<close>) that may depend on the state of the file system; a name is resolved to the file it
  stands for by \<open>resolve\<close>.
\<close>

section \<open>The file system\<close>

record fsys =
  files :: "string \<Rightarrow> string option"
  dirs :: "string set"

record os =
  resolve :: "string \<Rightarrow> string"
  may_read :: "fsys \<Rightarrow> string \<Rightarrow> bool"
  may_create :: "fsys \<Rightarrow> string \<Rightarrow> bool"
  may_mkdir :: "fsys \<Rightarrow> string \<Rightarrow> bool"
  may_rename :: "fsys \<Rightarrow> string \<Rightarrow> string \<Rightarrow> bool"
  may_stat :: "fsys \<Rightarrow> string \<Rightarrow> bool"
  may_map :: "fsys \<Rightarrow> string \<Rightarrow> bool"
  stored :: "string \<Rightarrow> string \<Rightarrow> string \<times> bool"
  getpid :: int
  strerror :: string

text \<open>
  The state of the program: the symbols and menus, the file system, the environment (one
  variable of it is written to), the static variables of the two files, and what the callbacks
  are given.
\<close>

datatype message_callback = Msg_default | Msg_none | Msg_callback

record conf_state =
  ks :: kstate
  fs :: fsys
  environ :: "string \<Rightarrow> string option"
  conf_filename :: string
  conf_lineno :: int
  conf_warnings :: int
  s_configpath :: "string option"
  s_autoconfigpath :: "string option"
  s_autoheaderpath :: "string option"
  s_rustccfgpath :: "string option"
  depfile_path :: string
  depfile_prefix_len :: nat
  conf_message_callback :: message_callback
  conf_messages :: "string list"
  conf_stdout :: string
  conf_changed_callback :: bool
  conf_changed_log :: "bool list"
  autoconf_cmd_text :: string

text \<open>Functions on the symbols as functions on the whole state.\<close>

definition on_ks :: "(kstate \<Rightarrow> kstate) \<Rightarrow> conf_state \<Rightarrow> conf_state" where
  "on_ks f c = c\<lparr>ks := f (ks c)\<rparr>"

definition run_ks :: "(kstate \<Rightarrow> kstate option) \<Rightarrow> conf_state \<Rightarrow> conf_state option" where
  "run_ks f c = map_option (\<lambda>k. c\<lparr>ks := k\<rparr>) (f (ks c))"

definition run_ks_value :: "(kstate \<Rightarrow> ('a \<times> kstate) option) \<Rightarrow> conf_state \<Rightarrow> ('a \<times> conf_state) option" where
  "run_ks_value f c = map_option (\<lambda>(v, k). (v, c\<lparr>ks := k\<rparr>)) (f (ks c))"

text \<open>\<open>fprintf(stderr, \<dots>)\<close>\<close>

definition eprint :: "string \<Rightarrow> conf_state \<Rightarrow> conf_state" where
  "eprint t = on_ks (\<lambda>k. k\<lparr>stderr_out := stderr_out k @ t\<rparr>)"

section \<open>Calls of the system\<close>

definition file_text :: "os \<Rightarrow> string \<Rightarrow> conf_state \<Rightarrow> string option" where
  "file_text w path c = files (fs c) (resolve w path)"

definition is_present :: "os \<Rightarrow> string \<Rightarrow> conf_state \<Rightarrow> bool" where
  "is_present w path c \<longleftrightarrow> file_text w path c \<noteq> None \<or> resolve w path \<in> dirs (fs c)"

definition is_dir :: "os \<Rightarrow> string \<Rightarrow> conf_state \<Rightarrow> bool" where
  "is_dir w path c \<longleftrightarrow> resolve w path \<in> dirs (fs c)"

text \<open>
  \<open>fopen(path, "r")\<close> and reading to the end; \<open>None\<close> when the file cannot be opened. A directory
  can be opened, but nothing can be read from it.
\<close>

definition read_file :: "os \<Rightarrow> string \<Rightarrow> conf_state \<Rightarrow> string option" where
  "read_file w path c =
     (if \<not> may_read w (fs c) (resolve w path) then None
      else if resolve w path \<in> dirs (fs c) then Some ''''
      else file_text w path c)"

text \<open>\<open>fopen(path, "w")\<close>, which empties the file, and what is in it after the text is written.\<close>

definition set_file :: "os \<Rightarrow> string \<Rightarrow> string \<Rightarrow> conf_state \<Rightarrow> conf_state" where
  "set_file w path t c = c\<lparr>fs := (fs c)\<lparr>files := (files (fs c))(resolve w path := Some t)\<rparr>\<rparr>"

definition open_write :: "os \<Rightarrow> string \<Rightarrow> conf_state \<Rightarrow> conf_state option" where
  "open_write w path c =
     (if may_create w (fs c) (resolve w path) \<and> resolve w path \<notin> dirs (fs c)
      then Some (set_file w path '''' c) else None)"

text \<open>What reaches the file, and \<open>ferror\<close>.\<close>

definition write_file :: "os \<Rightarrow> string \<Rightarrow> string \<Rightarrow> conf_state \<Rightarrow> bool \<times> conf_state" where
  "write_file w path t c = (case stored w (resolve w path) t of (t, err) \<Rightarrow> (err, set_file w path t c))"

definition make_dir :: "os \<Rightarrow> string \<Rightarrow> conf_state \<Rightarrow> conf_state option" where
  "make_dir w path c =
     (if may_mkdir w (fs c) (resolve w path) \<and> \<not> is_present w path c
      then Some (c\<lparr>fs := (fs c)\<lparr>dirs := insert (resolve w path) (dirs (fs c))\<rparr>\<rparr>) else None)"

definition unlink_file :: "os \<Rightarrow> string \<Rightarrow> conf_state \<Rightarrow> conf_state" where
  "unlink_file w path c = c\<lparr>fs := (fs c)\<lparr>files := (files (fs c))(resolve w path := None)\<rparr>\<rparr>"

definition rename_file :: "os \<Rightarrow> string \<Rightarrow> string \<Rightarrow> conf_state \<Rightarrow> bool \<times> conf_state" where
  "rename_file w old new c =
     (case file_text w old c of
        None \<Rightarrow> (False, c)
      | Some t \<Rightarrow>
          if may_rename w (fs c) (resolve w old) (resolve w new) \<and> resolve w new \<notin> dirs (fs c)
          then (True, set_file w new t (if resolve w old = resolve w new then c else unlink_file w old c))
          else (False, c))"

text \<open>
  \<open>is_same\<close>. The variable \<open>ret\<close> holds the result of \<open>fstat\<close> when the function leaves after it,
  so a failing \<open>fstat\<close> (-1) makes the result true. Mapping an empty file or a directory fails.
\<close>

definition map_file :: "os \<Rightarrow> string \<Rightarrow> conf_state \<Rightarrow> string option" where
  "map_file w path c =
     (case file_text w path c of
        None \<Rightarrow> None
      | Some t \<Rightarrow> if t = [] \<or> \<not> may_map w (fs c) (resolve w path) then None else Some t)"

definition is_same :: "os \<Rightarrow> string \<Rightarrow> string \<Rightarrow> conf_state \<Rightarrow> bool" where
  "is_same w file1 file2 c =
     (if read_file w file1 c = None then False
      else if read_file w file2 c = None then False
      else if \<not> may_stat w (fs c) (resolve w file1) then True
      else if \<not> may_stat w (fs c) (resolve w file2) then True
      else (case map_file w file1 c of
              None \<Rightarrow> False
            | Some t1 \<Rightarrow> (case map_file w file2 c of None \<Rightarrow> False | Some t2 \<Rightarrow> t1 = t2)))"

section \<open>Directories\<close>

abbreviation slash :: char where "slash \<equiv> CHR ''/''"

abbreviation PATH_MAX :: nat where "PATH_MAX \<equiv> 4096"

text \<open>\<open>strrchr\<close>: the text up to the last occurrence of the character, which is included.\<close>

definition up_to_last :: "char \<Rightarrow> string \<Rightarrow> string option" where
  "up_to_last x s = (if x \<in> set s then Some (rev (dropWhile (\<lambda>d. d \<noteq> x) (rev s))) else None)"

text \<open>
  The loop of \<open>make_parent_dir\<close>: \<open>pre\<close> is the part of the path in front of \<open>p\<close>, \<open>rest\<close> the
  part from \<open>p\<close> on. The result is true when every directory is there.
\<close>

function make_dirs :: "os \<Rightarrow> string \<Rightarrow> string \<Rightarrow> conf_state \<Rightarrow> bool \<times> conf_state" where
  "make_dirs w pre rest c =
     (case split_at slash rest of
        None \<Rightarrow> (True, c)
      | Some (name, rest) \<Rightarrow>
          (let dir = pre @ name;
               slashes = slash # takeWhile (\<lambda>d. d = slash) rest;
               rest = dropWhile (\<lambda>d. d = slash) rest
           in if is_dir w dir c then make_dirs w (dir @ slashes) rest c
              else (case make_dir w dir c of
                      None \<Rightarrow> (False, c)
                    | Some c \<Rightarrow> make_dirs w (dir @ slashes) rest c)))"
  by pat_completeness auto

lemma split_at_length: "split_at x s = Some (a, b) \<Longrightarrow> length b < length s"
  using length_dropWhile_le [of "\<lambda>d. d \<noteq> x" s] by (auto simp: split_at_def split: list.splits)

lemma skip_length: "split_at x s = Some (a, b) \<Longrightarrow> length (dropWhile P b) < length s"
  using split_at_length [of x s a b] length_dropWhile_le [of P b] by simp

termination make_dirs
  by (relation "measure (\<lambda>(w, pre, rest, c). length rest)") (auto simp: skip_length)

declare make_dirs.simps [simp del]

definition make_parent_dir :: "os \<Rightarrow> string \<Rightarrow> conf_state \<Rightarrow> bool \<times> conf_state" where
  "make_parent_dir w path c =
     (case up_to_last slash (take PATH_MAX path) of
        None \<Rightarrow> (True, c)
      | Some tmp \<Rightarrow>
          make_dirs w (takeWhile (\<lambda>d. d = slash) tmp) (dropWhile (\<lambda>d. d = slash) tmp) c)"

text \<open>\<open>conf_touch_dep\<close>: true for the result 0.\<close>

definition conf_touch_dep :: "os \<Rightarrow> string \<Rightarrow> conf_state \<Rightarrow> bool \<times> conf_state" where
  "conf_touch_dep w name c =
     (if depfile_prefix_len c + length name + 1 > PATH_MAX then (False, c)
      else
        let c = c\<lparr>depfile_path := take (depfile_prefix_len c) (depfile_path c) @ name\<rparr>
        in case open_write w (depfile_path c) c of
             None \<Rightarrow> (False, c)
           | Some c \<Rightarrow> (True, c))"

section \<open>Messages\<close>

definition conf_errors :: "conf_state \<Rightarrow> bool" where
  "conf_errors c \<longleftrightarrow> conf_warnings c \<noteq> 0 \<and> environ c ''KCONFIG_WERROR'' \<noteq> None"

definition conf_warning :: "string \<Rightarrow> conf_state \<Rightarrow> conf_state" where
  "conf_warning msg c =
     (let c = eprint (conf_filename c @ '':'' @ int_text (conf_lineno c) @ '':warning: '' @ msg @ ''\<newline>'') c
      in c\<lparr>conf_warnings := conf_warnings c + 1\<rparr>)"

definition conf_default_message_callback :: "string \<Rightarrow> conf_state \<Rightarrow> conf_state" where
  "conf_default_message_callback t c = c\<lparr>conf_stdout := conf_stdout c @ ''#\<newline># '' @ t @ ''\<newline>#\<newline>''\<rparr>"

definition conf_set_message_callback :: "message_callback \<Rightarrow> conf_state \<Rightarrow> conf_state" where
  "conf_set_message_callback fn c = c\<lparr>conf_message_callback := fn\<rparr>"

text \<open>The buffer of \<open>conf_message\<close> holds 4095 characters.\<close>

definition conf_message :: "string \<Rightarrow> conf_state \<Rightarrow> conf_state" where
  "conf_message t c =
     (let buf = take 4095 t
      in case conf_message_callback c of
           Msg_none \<Rightarrow> c
         | Msg_default \<Rightarrow> conf_default_message_callback buf c
         | Msg_callback \<Rightarrow> c\<lparr>conf_messages := conf_messages c @ [buf]\<rparr>)"

section \<open>Names of files\<close>

definition set_configpath :: "string option \<Rightarrow> conf_state \<Rightarrow> conf_state" where
  "set_configpath path c = c\<lparr>s_configpath := path\<rparr>"
definition set_autoconfigpath :: "string option \<Rightarrow> conf_state \<Rightarrow> conf_state" where
  "set_autoconfigpath path c = c\<lparr>s_autoconfigpath := path\<rparr>"
definition set_autoheaderpath :: "string option \<Rightarrow> conf_state \<Rightarrow> conf_state" where
  "set_autoheaderpath path c = c\<lparr>s_autoheaderpath := path\<rparr>"
definition set_rustccfgpath :: "string option \<Rightarrow> conf_state \<Rightarrow> conf_state" where
  "set_rustccfgpath path c = c\<lparr>s_rustccfgpath := path\<rparr>"

definition config_file_name :: "string option \<Rightarrow> string option \<Rightarrow> string \<Rightarrow> string" where
  "config_file_name set_path env_path default_path =
     (case set_path of
        Some name \<Rightarrow> name
      | None \<Rightarrow> (case env_path of Some name \<Rightarrow> name | None \<Rightarrow> default_path))"

definition conf_get_configname :: "conf_state \<Rightarrow> string" where
  "conf_get_configname c = config_file_name (s_configpath c) (environ c ''KCONFIG_CONFIG'') ''.config''"
definition conf_get_autoconfig_name :: "conf_state \<Rightarrow> string" where
  "conf_get_autoconfig_name c =
     config_file_name (s_autoconfigpath c) (environ c ''KCONFIG_AUTOCONFIG'') ''include/config/auto.conf''"
definition conf_get_autoheader_name :: "conf_state \<Rightarrow> string" where
  "conf_get_autoheader_name c =
     config_file_name (s_autoheaderpath c) (environ c ''KCONFIG_AUTOHEADER'') ''include/generated/autoconf.h''"
definition conf_get_rustccfg_name :: "conf_state \<Rightarrow> string" where
  "conf_get_rustccfg_name c =
     config_file_name (s_rustccfgpath c) (environ c ''KCONFIG_RUSTCCFG'') ''include/generated/rustc_cfg''"

section \<open>The mark of a change\<close>

definition conf_set_changed :: "bool \<Rightarrow> conf_state \<Rightarrow> conf_state" where
  "conf_set_changed v c =
     (let c = (if conf_changed_callback c \<and> conf_changed (ks c) \<noteq> v
               then c\<lparr>conf_changed_log := conf_changed_log c @ [v]\<rparr> else c)
      in on_ks (\<lambda>k. k\<lparr>conf_changed := v\<rparr>) c)"

definition conf_get_changed :: "conf_state \<Rightarrow> bool" where
  "conf_get_changed c = conf_changed (ks c)"

definition conf_set_changed_callback :: "bool \<Rightarrow> conf_state \<Rightarrow> conf_state" where
  "conf_set_changed_callback fn c = c\<lparr>conf_changed_callback := fn\<rparr>"

text \<open>\<open>sym_clear_all_valid\<close> calls \<open>conf_set_changed(true)\<close>.\<close>

definition clear_all_valid :: "calc \<Rightarrow> conf_state \<Rightarrow> conf_state option" where
  "clear_all_valid calc c = run_ks (sym_clear_all_valid calc) (conf_set_changed True c)"

end
