(* ===== verification/ConfRead.thy ===== *)
theory ConfRead
  imports ConfFiles HashTable
begin

text \<open>
  Reading configuration files, \<^verbatim>\<open>parser/confdata.c\<close>: the lines of a file, what each of them
  does, \<open>conf_read_simple\<close> with its search for a file, and \<open>conf_read\<close>.
\<close>

section \<open>Lines\<close>

text \<open>
  \<open>getline_stripped\<close> until the end of the file: a newline and a carriage return in front of it
  are removed, a carriage return at the end of a last line without newline is kept. The code
  looks at a line as a C string, which ends at a null character.
\<close>

definition strip_cr :: "string \<Rightarrow> string" where
  "strip_cr l = (if l \<noteq> [] \<and> last l = CHR 0x0D then butlast l else l)"

definition c_string :: "string \<Rightarrow> string" where
  "c_string = takeWhile (\<lambda>d. d \<noteq> CHR 0x00)"

function file_lines :: "string \<Rightarrow> string list" where
  "file_lines t =
     (if t = [] then []
      else case split_at (CHR 0x0A) t of
        None \<Rightarrow> [c_string t]
      | Some (l, rest) \<Rightarrow> c_string (strip_cr l) # file_lines rest)"
  by pat_completeness auto

termination file_lines
  by (relation "measure length") (auto simp: split_at_length)

declare file_lines.simps [simp del]

section \<open>Storing a value\<close>

definition sdef_upd :: "sdef_index \<Rightarrow> (symbol_value \<Rightarrow> symbol_value) \<Rightarrow> symbol \<Rightarrow> symbol" where
  "sdef_upd d f y = y\<lparr>sdef := (sdef y)(d := f (sdef y d))\<rparr>"

definition symbol_name :: "kstate \<Rightarrow> sid \<Rightarrow> string" where
  "symbol_name k a = ConfText.name_text (syms k a)"

text \<open>\<open>conf_set_sym_val\<close>: true for the result 0.\<close>

definition conf_set_sym_val :: "sid \<Rightarrow> sdef_index \<Rightarrow> string \<Rightarrow> conf_state \<Rightarrow> bool \<times> conf_state" where
  "conf_set_sym_val a d p c =
     (case sym_val_of_text (syms (ks c) a) d p of
        Set_nothing \<Rightarrow> (True, c)
      | Set_tri t \<Rightarrow>
          (True, on_ks (upd_sym a (\<lambda>y. add_flags {SYMBOL_DEF d} (sdef_upd d (\<lambda>v. v\<lparr>tri := t\<rparr>) y))) c)
      | Set_text t \<Rightarrow>
          (True, on_ks (\<lambda>k. case new_heap_string t k of
             (q, k) \<Rightarrow> upd_sym a (\<lambda>y. add_flags {SYMBOL_DEF d} (sdef_upd d (\<lambda>v. v\<lparr>val := q\<rparr>) y)) k) c)
      | Bad_value t \<Rightarrow>
          (False, if d = S_DEF_AUTO then c
                  else conf_warning (''symbol value '' @ CHR 0x27 # t @ CHR 0x27 # '' invalid for '' @ symbol_name (ks c) a) c)
      | Bad_string \<Rightarrow> (False, conf_warning ''invalid string found'' c))"

text \<open>\<open>sym_find\<close> on the table of symbols, in its order.\<close>

definition find_symbol :: "kstate \<Rightarrow> string \<Rightarrow> sid option" where
  "find_symbol k nm =
     (case builtin_symbol nm of
        Some a \<Rightarrow> Some a
      | None \<Rightarrow> find (\<lambda>a. s_name (syms k a) = Some nm \<and> SYMBOL_CONST \<notin> s_flags (syms k a)) (sym_table k))"

text \<open>The end of the loop body: a member of a choice gets the highest priority.\<close>

definition raise_choice_member :: "sid \<Rightarrow> conf_state \<Rightarrow> conf_state option" where
  "raise_choice_member a c = do {
     choice \<leftarrow> sym_get_choice_menu (syms (ks c)) (menus (ks c)) (syms (ks c) a);
     Some (case choice of None \<Rightarrow> c | Some m \<Rightarrow> on_ks (list_move_choice a m) c)
   }"

definition conf_assign :: "os \<Rightarrow> sdef_index \<Rightarrow> bool \<Rightarrow> string \<Rightarrow> string \<Rightarrow> conf_state \<Rightarrow> conf_state option" where
  "conf_assign w d warn_unknown nm v c =
     (case find_symbol (ks c) nm of
        None \<Rightarrow>
          Some (if d = S_DEF_AUTO then snd (conf_touch_dep w nm c)
                else conf_set_changed True (if warn_unknown then conf_warning (''unknown symbol: '' @ nm) c else c))
      | Some a \<Rightarrow>
          (let c = (if SYMBOL_DEF d \<in> s_flags (syms (ks c) a)
                    then conf_warning (''override: reassigning to symbol '' @ symbol_name (ks c) a) c else c)
           in case conf_set_sym_val a d v c of
                (False, c) \<Rightarrow> Some c
              | (True, c) \<Rightarrow> if d \<noteq> S_DEF_USER then Some c else raise_choice_member a c))"

definition conf_line_step :: "os \<Rightarrow> sdef_index \<Rightarrow> bool \<Rightarrow> string \<Rightarrow> conf_state \<Rightarrow> conf_state option" where
  "conf_line_step w d warn_unknown line c =
     (let c = c\<lparr>conf_lineno := conf_lineno c + 1\<rparr>
      in case conf_read_line (CONFIG_prefix (environ c)) line of
           Skip_line \<Rightarrow> Some c
         | Unexpected_data \<Rightarrow> Some (conf_warning (''unexpected data: '' @ line) c)
         | Assign nm v \<Rightarrow> conf_assign w d warn_unknown nm v c)"

fun conf_lines :: "os \<Rightarrow> sdef_index \<Rightarrow> bool \<Rightarrow> string list \<Rightarrow> conf_state \<Rightarrow> conf_state option" where
  "conf_lines w d warn_unknown [] c = Some c"
| "conf_lines w d warn_unknown (l # ls) c =
     Option.bind (conf_line_step w d warn_unknown l c) (conf_lines w d warn_unknown ls)"

section \<open>Reading a file\<close>

text \<open>The preparation at the label \<open>load\<close>: every symbol loses its value and its mark.\<close>

definition forget_value :: "sdef_index \<Rightarrow> symbol \<Rightarrow> symbol" where
  "forget_value d y = sdef_upd d (\<lambda>v. v\<lparr>val := NULL, tri := tri_no\<rparr>) (del_flags {SYMBOL_DEF d} y)"

definition all_symbols :: "(symbol \<Rightarrow> symbol) \<Rightarrow> kstate \<Rightarrow> kstate" where
  "all_symbols f k = fold (\<lambda>a. upd_sym a f) (sym_table k) k"

definition conf_load_start :: "string \<Rightarrow> sdef_index \<Rightarrow> conf_state \<Rightarrow> conf_state" where
  "conf_load_start name d c =
     (let c = c\<lparr>conf_filename := name, conf_lineno := 0, conf_warnings := 0\<rparr>;
          c = on_ks (all_symbols (forget_value d)) c
      in if d = S_DEF_USER then on_ks (\<lambda>k. expr_invalidate_all (all_symbols (del_flags {SYMBOL_VALID}) k)) c
         else c)"

definition conf_load :: "os \<Rightarrow> sdef_index \<Rightarrow> bool \<Rightarrow> string \<Rightarrow> string \<Rightarrow> conf_state \<Rightarrow> conf_state option" where
  "conf_load w d warn_unknown name contents c =
     conf_lines w d warn_unknown (file_lines contents) (conf_load_start name d c)"

text \<open>\<open>zconf_fopen\<close> of \<^verbatim>\<open>lexer.l\<close>: the name as it is, or below the source tree.\<close>

definition zconf_fopen :: "os \<Rightarrow> string \<Rightarrow> conf_state \<Rightarrow> string option" where
  "zconf_fopen w name c =
     (case read_file w name c of
        Some t \<Rightarrow> Some t
      | None \<Rightarrow>
          if name \<noteq> [] \<and> hd name = slash then None
          else (case environ c ''srctree'' of
                  None \<Rightarrow> None
                | Some tree \<Rightarrow> read_file w (take PATH_MAX (tree @ slash # name)) c))"

text \<open>The names in \<open>KCONFIG_DEFCONFIG_LIST\<close>, separated by white space.\<close>

function env_words :: "string \<Rightarrow> string list" where
  "env_words env =
     (let env = dropWhile isspace env
      in if env = [] then []
         else takeWhile (\<lambda>d. \<not> isspace d) env # env_words (tl (dropWhile (\<lambda>d. \<not> isspace d) env)))"
  by pat_completeness auto

lemma env_words_shorter:
  assumes "dropWhile isspace env \<noteq> []"
  shows "length (tl (dropWhile (\<lambda>d. \<not> isspace d) (dropWhile isspace env))) < length env"
proof -
  have "length (tl (dropWhile (\<lambda>d. \<not> isspace d) (dropWhile isspace env))) < length (dropWhile isspace env)"
    using assms length_dropWhile_le [of "\<lambda>d. \<not> isspace d" "dropWhile isspace env"]
    by (cases "dropWhile isspace env") auto
  with length_dropWhile_le [of isspace env] show ?thesis by simp
qed

termination env_words
  by (relation "measure length") (use env_words_shorter in auto)

declare env_words.simps [simp del]

text \<open>
  The search writes a null character behind each name into the environment itself, so a later
  \<open>getenv\<close> gives what is in front of the first of them.
\<close>

definition cut_env :: "string \<Rightarrow> string" where
  "cut_env env = takeWhile isspace env @ takeWhile (\<lambda>d. \<not> isspace d) (dropWhile isspace env)"

fun first_file :: "os \<Rightarrow> string list \<Rightarrow> conf_state \<Rightarrow> (string \<times> string) option" where
  "first_file w [] c = None"
| "first_file w (name # names) c =
     (case zconf_fopen w name c of Some t \<Rightarrow> Some (name, t) | None \<Rightarrow> first_file w names c)"

definition search_default ::
  "os \<Rightarrow> conf_state \<Rightarrow> (string \<times> string) option \<times> conf_state" where
  "search_default w c =
     (case environ c ''KCONFIG_DEFCONFIG_LIST'' of
        None \<Rightarrow> (None, c)
      | Some env \<Rightarrow>
          (let c = c\<lparr>environ := (environ c)(''KCONFIG_DEFCONFIG_LIST'' := Some (cut_env env))\<rparr>
           in case first_file w (env_words env) c of
                None \<Rightarrow> (None, c)
              | Some (name, t) \<Rightarrow> (Some (name, t), conf_message (''using defaults found in '' @ name) c)))"

text \<open>The file to read and its name, with the state after looking for it.\<close>

definition conf_open :: "os \<Rightarrow> string option \<Rightarrow> conf_state \<Rightarrow> (string \<times> string) option \<times> conf_state" where
  "conf_open w name c =
     (case name of
        Some name \<Rightarrow> (map_option (Pair name) (zconf_fopen w name c), c)
      | None \<Rightarrow>
          (let name = conf_get_configname c
           in case zconf_fopen w name c of
                Some t \<Rightarrow> (Some (name, t), c)
              | None \<Rightarrow> search_default w (conf_set_changed True c)))"

text \<open>\<open>conf_read_simple\<close>: true for the result 0, a file was read.\<close>

definition conf_read_simple :: "os \<Rightarrow> string option \<Rightarrow> sdef_index \<Rightarrow> conf_state \<Rightarrow> (bool \<times> conf_state) option" where
  "conf_read_simple w name d c =
     (let warn_unknown = environ c ''KCONFIG_WARN_UNKNOWN_SYMBOLS'' \<noteq> None
      in case conf_open w name c of
           (None, c) \<Rightarrow> Some (False, c)
         | (Some (name, t), c) \<Rightarrow> map_option (Pair True) (conf_load w d warn_unknown name t c))"

section \<open>Reading and evaluating\<close>

text \<open>The check that the calculated value agrees with the saved one; true when it does not.\<close>

definition differs_from_saved :: "symbol \<Rightarrow> bool" where
  "differs_from_saved y \<longleftrightarrow>
     (if sym_is_choice y then False
      else if sym_has_value y \<and> SYMBOL_WRITE \<in> s_flags y then
        (if s_type y = S_BOOLEAN \<or> s_type y = S_TRISTATE
         then tri (sdef y S_DEF_USER) \<noteq> sym_get_tristate_value y
         else str_of (val (curr y)) \<noteq> str_of (val (sdef y S_DEF_USER)))
      else \<not> (\<not> sym_has_value y \<and> SYMBOL_WRITE \<notin> s_flags y))"

fun conf_read_check :: "calc \<Rightarrow> sid list \<Rightarrow> conf_state \<Rightarrow> conf_state option" where
  "conf_read_check calc [] c = Some c"
| "conf_read_check calc (a # as) c = do {
     c \<leftarrow> run_ks (calc a) c;
     conf_read_check calc as (if differs_from_saved (syms (ks c) a) then conf_set_changed True c else c)
   }"

text \<open>\<open>conf_read\<close>: true for the result 0.\<close>

definition conf_read :: "os \<Rightarrow> calc \<Rightarrow> string option \<Rightarrow> conf_state \<Rightarrow> (bool \<times> conf_state) option" where
  "conf_read w calc name c = do {
     (ok, c) \<leftarrow> conf_read_simple w name S_DEF_USER (conf_set_changed False c);
     c \<leftarrow> run_ks (calc (modules_sym (ks c))) c;
     if \<not> ok then Some (False, c)
     else do {
       c \<leftarrow> conf_read_check calc (sym_table (ks c)) c;
       Some (True, if conf_warnings c \<noteq> 0 then conf_set_changed True c else c)
     }
   }"

section \<open>What reading keeps\<close>

text \<open>The symbols keep their names and types, the table its order and the menus their links.\<close>

definition read_eq :: "symbol \<Rightarrow> symbol \<Rightarrow> bool" where
  "read_eq y y' \<longleftrightarrow> s_name y' = s_name y \<and> s_type y' = s_type y \<and> s_menus y' = s_menus y
     \<and> curr y' = curr y \<and> (SYMBOL_CONST \<in> s_flags y' \<longleftrightarrow> SYMBOL_CONST \<in> s_flags y)
     \<and> (SYMBOL_WRITE \<in> s_flags y' \<longleftrightarrow> SYMBOL_WRITE \<in> s_flags y)"

definition read_frame :: "kstate \<Rightarrow> kstate \<Rightarrow> bool" where
  "read_frame k k' \<longleftrightarrow> sym_table k' = sym_table k \<and> modules_sym k' = modules_sym k \<and> props k' = props k
     \<and> menu_links (menus k) (menus k') \<and> (\<forall>a. read_eq (syms k a) (syms k' a))"

lemma read_eq_refl [simp]: "read_eq y y"
  by (simp add: read_eq_def)

lemma read_eq_simps [simp]:
  "read_eq y (add_flags {SYMBOL_DEF d} z) = read_eq y z"
  "read_eq y (del_flags {SYMBOL_DEF d} z) = read_eq y z"
  "read_eq y (del_flags {SYMBOL_VALID} z) = read_eq y z"
  "read_eq y (sdef_upd d f z) = read_eq y z"
  "read_eq y (z\<lparr>choice_link := b\<rparr>) = read_eq y z"
  by (auto simp: read_eq_def sdef_upd_def)

lemma read_eq_trans: "read_eq x y \<Longrightarrow> read_eq y z \<Longrightarrow> read_eq x z"
  by (simp add: read_eq_def)

lemma menu_links_refl [simp]: "menu_links M M"
  by (simp add: menu_links_def)

lemma read_frame_refl [simp]: "read_frame k k"
  by (simp add: read_frame_def)

lemma read_frame_trans: "read_frame k l \<Longrightarrow> read_frame l m \<Longrightarrow> read_frame k m"
  unfolding read_frame_def by (auto simp: menu_links_def intro: read_eq_trans)

lemma read_frameD:
  assumes "read_frame k k'"
  shows "sym_table k' = sym_table k" "s_name (syms k' a) = s_name (syms k a)" "s_type (syms k' a) = s_type (syms k a)"
    "SYMBOL_CONST \<in> s_flags (syms k' a) \<longleftrightarrow> SYMBOL_CONST \<in> s_flags (syms k a)"
  using assms by (auto simp: read_frame_def read_eq_def)

lemma find_symbol_frame: "read_frame k k' \<Longrightarrow> find_symbol k' nm = find_symbol k nm"
  by (simp add: read_frameD find_symbol_def split: option.split)

lemma sym_string_valid_type: "s_type y' = s_type y \<Longrightarrow> sym_string_valid y' p = sym_string_valid y p"
  by (simp add: sym_string_valid_def)

lemma sym_val_of_text_type: "s_type y' = s_type y \<Longrightarrow> sym_val_of_text y' d p = sym_val_of_text y d p"
  by (simp add: sym_val_of_text_def sym_string_valid_type [of y' y] Let_def)

lemma on_ks_sel [simp]: "ks (on_ks f c) = f (ks c)" "fs (on_ks f c) = fs c" "environ (on_ks f c) = environ c"
  "conf_warnings (on_ks f c) = conf_warnings c"
  by (simp_all add: on_ks_def)

lemma conf_warning_sel [simp]:
  "ks (conf_warning t c) = (ks c)\<lparr>stderr_out := stderr_out (ks c) @ conf_filename c @ '':''
     @ int_text (conf_lineno c) @ '':warning: '' @ t @ ''\<newline>''\<rparr>"
  "environ (conf_warning t c) = environ c" "fs (conf_warning t c) = fs c"
  by (simp_all add: conf_warning_def eprint_def Let_def)

lemma conf_set_changed_sel [simp]:
  "ks (conf_set_changed v c) = (ks c)\<lparr>conf_changed := v\<rparr>"
  "environ (conf_set_changed v c) = environ c" "fs (conf_set_changed v c) = fs c"
  "conf_warnings (conf_set_changed v c) = conf_warnings c"
  by (simp_all add: conf_set_changed_def Let_def)

lemma conf_touch_dep_sel [simp]:
  "ks (snd (conf_touch_dep w nm c)) = ks c" "environ (snd (conf_touch_dep w nm c)) = environ c"
  by (auto simp: conf_touch_dep_def open_write_def set_file_def Let_def split: option.split)

section \<open>The last assignment wins\<close>

text \<open>The value a symbol has stored, and the value a line stores in it.\<close>

definition stored_value :: "sdef_index \<Rightarrow> symbol \<Rightarrow> set_result option" where
  "stored_value d y =
     (if SYMBOL_DEF d \<in> s_flags y
      then Some (if s_type y = S_BOOLEAN \<or> s_type y = S_TRISTATE then Set_tri (tri (sdef y d))
                 else Set_text (str_of (val (sdef y d))))
      else None)"

definition text_value :: "kstate \<Rightarrow> sdef_index \<Rightarrow> sid \<Rightarrow> string \<Rightarrow> set_result option" where
  "text_value k d a v =
     (case sym_val_of_text (syms k a) d v of
        Set_tri t \<Rightarrow> Some (Set_tri t) | Set_text t \<Rightarrow> Some (Set_text t) | _ \<Rightarrow> None)"

definition line_value :: "kstate \<Rightarrow> sdef_index \<Rightarrow> string \<Rightarrow> sid \<Rightarrow> string \<Rightarrow> set_result option" where
  "line_value k d cfg a line =
     (case conf_read_line cfg line of
        Assign nm v \<Rightarrow>
          if find_symbol k nm = Some a then
            text_value k d a v
          else None
      | _ \<Rightarrow> None)"

definition newer :: "'a option \<Rightarrow> 'a option \<Rightarrow> 'a option" where
  "newer old new = (case new of None \<Rightarrow> old | Some v \<Rightarrow> Some v)"

definition last_value :: "kstate \<Rightarrow> sdef_index \<Rightarrow> string \<Rightarrow> string list \<Rightarrow> sid \<Rightarrow> set_result option" where
  "last_value k d cfg ls a = foldl newer None (map (line_value k d cfg a) ls)"

lemma line_value_frame:
  assumes "read_frame k k'"
  shows "line_value k' d cfg a l = line_value k d cfg a l"
proof -
  have "sym_val_of_text (syms k' a) d v = sym_val_of_text (syms k a) d v" for v
    by (rule sym_val_of_text_type) (simp add: read_frameD [OF assms])
  then show ?thesis by (simp add: line_value_def text_value_def find_symbol_frame [OF assms] split: conf_line.split)
qed

lemma stored_value_simps [simp]:
  "stored_value d (y\<lparr>choice_link := b\<rparr>) = stored_value d y"
  "stored_value d (add_flags {SYMBOL_DEF d} (sdef_upd d (\<lambda>v. v\<lparr>tri := t\<rparr>) y)) =
     (if s_type y = S_BOOLEAN \<or> s_type y = S_TRISTATE then Some (Set_tri t) else Some (Set_text (str_of (val (sdef y d)))))"
  "stored_value d (add_flags {SYMBOL_DEF d} (sdef_upd d (\<lambda>v. v\<lparr>val := p\<rparr>) y)) =
     (if s_type y = S_BOOLEAN \<or> s_type y = S_TRISTATE then Some (Set_tri (tri (sdef y d))) else Some (Set_text (str_of p)))"
  by (simp_all add: stored_value_def sdef_upd_def)

lemma newer_simps [simp]: "newer v None = v" "newer v (Some x) = Some x"
  by (simp_all add: newer_def)

lemma read_frame_simps [simp]:
  "read_frame k (k\<lparr>stderr_out := t\<rparr>)" "read_frame k (k\<lparr>conf_changed := b\<rparr>)"
  "read_frame k (k\<lparr>stderr_out := t, conf_changed := b\<rparr>)"
  by (simp_all add: read_frame_def)

text \<open>What \<open>sym_val_of_text\<close> stores fits the type.\<close>

lemma sym_val_of_text_kind:
  "sym_val_of_text y d p = Set_tri t \<Longrightarrow> s_type y = S_BOOLEAN \<or> s_type y = S_TRISTATE"
  "sym_val_of_text y d p = Set_text u \<Longrightarrow> s_type y \<noteq> S_BOOLEAN \<and> s_type y \<noteq> S_TRISTATE"
  by (auto simp: sym_val_of_text_def Let_def split: symbol_type.splits if_splits option.splits)

lemma set_sym_val_result:
  assumes "conf_set_sym_val a d p c = (b, c')"
  shows "read_frame (ks c) (ks c') \<and> environ c' = environ c
     \<and> stored_value d (syms (ks c') x) = newer (stored_value d (syms (ks c) x)) (if x = a then text_value (ks c) d a p else None)"
proof (cases "sym_val_of_text (syms (ks c) a) d p")
  case (Set_tri t)
  from assms Set_tri have c': "c' = on_ks (upd_sym a (\<lambda>y. add_flags {SYMBOL_DEF d} (sdef_upd d (\<lambda>v. v\<lparr>tri := t\<rparr>) y))) c"
    by (simp add: conf_set_sym_val_def)
  show ?thesis
    unfolding c' using sym_val_of_text_kind(1) [OF Set_tri] Set_tri by (simp add: read_frame_def text_value_def)
next
  case (Set_text t)
  define q where "q = Heap (next_addr (ks c)) t"
  from assms Set_text have c': "c' = on_ks (\<lambda>k. upd_sym a (\<lambda>y. add_flags {SYMBOL_DEF d} (sdef_upd d (\<lambda>v. v\<lparr>val := q\<rparr>) y))
      (k\<lparr>next_addr := Suc (next_addr k)\<rparr>)) c"
    by (simp add: conf_set_sym_val_def new_heap_string_def on_ks_def q_def)
  have "str_of q = t" by (simp add: q_def)
  then show ?thesis
    unfolding c' using sym_val_of_text_kind(2) [OF Set_text] Set_text by (simp add: read_frame_def text_value_def)
qed (use assms in \<open>auto simp: conf_set_sym_val_def text_value_def\<close>)

lemma raise_result:
  assumes "raise_choice_member a c = Some c'"
  shows "read_frame (ks c) (ks c') \<and> environ c' = environ c
    \<and> stored_value d (syms (ks c') x) = stored_value d (syms (ks c) x)"
proof -
  have "read_frame (ks c) (list_move_choice a m (ks c))"
    "stored_value d (syms (list_move_choice a m (ks c)) x) = stored_value d (syms (ks c) x)" for m
    by (simp_all add: list_move_choice_def Let_def read_frame_def menu_links_def)
  with assms show ?thesis
    by (auto simp: raise_choice_member_def bind_eq_Some_conv split: option.splits)
qed

lemma conf_assign_result:
  assumes "conf_assign w d wu nm v c = Some c'"
  shows "read_frame (ks c) (ks c') \<and> environ c' = environ c
    \<and> stored_value d (syms (ks c') x) = newer (stored_value d (syms (ks c) x))
        (if find_symbol (ks c) nm = Some x then text_value (ks c) d x v else None)"
proof (cases "find_symbol (ks c) nm")
  case None
  with assms show ?thesis by (cases "d = S_DEF_AUTO"; cases wu) (auto simp: conf_assign_def)
next
  case (Some a)
  define c0 where "c0 = (if SYMBOL_DEF d \<in> s_flags (syms (ks c) a)
     then conf_warning (''override: reassigning to symbol '' @ symbol_name (ks c) a) c else c)"
  have c0: "syms (ks c0) = syms (ks c)" "read_frame (ks c) (ks c0)" "environ c0 = environ c"
    by (simp_all add: c0_def)
  obtain b c1 where s: "conf_set_sym_val a d v c0 = (b, c1)" by fastforce
  from assms Some have r: "c' = c1 \<or> raise_choice_member a c1 = Some c'"
    by (auto simp: conf_assign_def c0_def [symmetric] s split: bool.splits if_splits)
  have "read_frame (ks c1) (ks c') \<and> environ c' = environ c1 \<and> stored_value d (syms (ks c') x) = stored_value d (syms (ks c1) x)"
    using r raise_result [of a c1 c' d x] by auto
  with set_sym_val_result [OF s, of x] c0 Some show ?thesis
    by (auto simp: text_value_def intro: read_frame_trans)
qed

lemma conf_line_step_result:
  assumes "conf_line_step w d wu l c = Some c'"
  shows "read_frame (ks c) (ks c') \<and> environ c' = environ c
    \<and> stored_value d (syms (ks c') x) =
      newer (stored_value d (syms (ks c) x)) (line_value (ks c) d (CONFIG_prefix (environ c)) x l)"
proof (cases "conf_read_line (CONFIG_prefix (environ c)) l")
  case (Assign nm v)
  with assms have "conf_assign w d wu nm v (c\<lparr>conf_lineno := conf_lineno c + 1\<rparr>) = Some c'"
    by (simp add: conf_line_step_def Let_def)
  from conf_assign_result [OF this, of x] Assign show ?thesis by (simp add: line_value_def)
qed (use assms in \<open>auto simp: conf_line_step_def Let_def line_value_def\<close>)

lemma conf_lines_result:
  "conf_lines w d wu ls c = Some c' \<Longrightarrow>
   read_frame (ks c) (ks c') \<and> environ c' = environ c
   \<and> stored_value d (syms (ks c') x) =
       foldl newer (stored_value d (syms (ks c) x)) (map (line_value (ks c) d (CONFIG_prefix (environ c)) x) ls)"
proof (induction ls arbitrary: c)
  case (Cons l ls)
  then obtain c1 where c1: "conf_line_step w d wu l c = Some c1" "conf_lines w d wu ls c1 = Some c'"
    by (auto simp: bind_eq_Some_conv)
  note s = conf_line_step_result [OF c1(1), of x]
  have "line_value (ks c1) d (CONFIG_prefix (environ c1)) x = line_value (ks c) d (CONFIG_prefix (environ c)) x"
    by (rule ext) (use s line_value_frame [of "ks c" "ks c1"] in simp)
  with Cons.IH [OF c1(2)] s show ?case by (auto intro: read_frame_trans)
qed simp

lemma all_symbols_syms:
  assumes "\<And>y. f (f y) = f y"
  shows "syms (all_symbols f k) x = (if x \<in> set (sym_table k) then f (syms k x) else syms k x)"
proof -
  have "syms (fold (\<lambda>a. upd_sym a f) as k) x = (if x \<in> set as then f (syms k x) else syms k x)" for as k
    by (induction as arbitrary: k) (auto simp: assms)
  then show ?thesis by (simp add: all_symbols_def)
qed

lemma all_symbols_sel [simp]:
  "menus (all_symbols f k) = menus k" "props (all_symbols f k) = props k" "sym_table (all_symbols f k) = sym_table k"
  "modules_sym (all_symbols f k) = modules_sym k"
proof -
  have "menus (fold (\<lambda>a. upd_sym a f) as k) = menus k \<and> props (fold (\<lambda>a. upd_sym a f) as k) = props k
    \<and> sym_table (fold (\<lambda>a. upd_sym a f) as k) = sym_table k \<and> modules_sym (fold (\<lambda>a. upd_sym a f) as k) = modules_sym k" for as k
    by (induction as arbitrary: k) auto
  then show "menus (all_symbols f k) = menus k" "props (all_symbols f k) = props k" "sym_table (all_symbols f k) = sym_table k"
    "modules_sym (all_symbols f k) = modules_sym k"
    by (simp_all add: all_symbols_def)
qed

lemma forget_value_twice: "forget_value d (forget_value d y) = forget_value d y"
  by (auto simp: forget_value_def sdef_upd_def del_flags_def)

lemma del_valid_twice: "del_flags F (del_flags F y) = del_flags F y"
  by (auto simp: del_flags_def)

lemma stored_forget [simp]:
  "stored_value d (forget_value d y) = None" "stored_value d (del_flags {SYMBOL_VALID} y) = stored_value d y"
  by (simp_all add: stored_value_def forget_value_def sdef_upd_def)

lemma read_eq_forget [simp]: "read_eq y (forget_value d y)"
  by (simp add: forget_value_def)

lemma conf_load_start_result:
  "read_frame (ks c) (ks (conf_load_start name d c))" "environ (conf_load_start name d c) = environ c"
  "a \<in> set (sym_table (ks c)) \<Longrightarrow> stored_value d (syms (ks (conf_load_start name d c)) a) = None"
  by (simp_all add: conf_load_start_def Let_def expr_invalidate_all_def read_frame_def
      all_symbols_syms [OF forget_value_twice] all_symbols_syms [OF del_valid_twice])

lemma conf_message_sel [simp]: "ks (conf_message t c) = ks c" "environ (conf_message t c) = environ c" "fs (conf_message t c) = fs c"
  by (simp_all add: conf_message_def conf_default_message_callback_def Let_def split: message_callback.split)

lemma conf_open_result:
  assumes "conf_open w name c = (r, c')"
  shows "syms (ks c') = syms (ks c)" and "read_frame (ks c) (ks c')" and "menus (ks c') = menus (ks c)"
    and "CONFIG_prefix (environ c') = CONFIG_prefix (environ c)"
  using assms
  by (auto simp: conf_open_def search_default_def CONFIG_prefix_def Let_def split: option.splits)

text \<open>Reading does not get stuck on sound menus.\<close>

lemma get_choice_menu_frame:
  assumes "read_frame k k'"
  shows "sym_get_choice_menu (syms k') (menus k') (syms k' a) = sym_get_choice_menu (syms k) (menus k) (syms k a)"
proof -
  have l: "menu_links (menus k) (menus k')" and s: "s_menus (syms k' a) = s_menus (syms k a)" for a
    using assms by (auto simp: read_frame_def read_eq_def)
  have "first_prompt_menu (menus k') ms = first_prompt_menu (menus k) ms" for ms
    by (induction ms) (simp_all add: menu_linksD [OF l])
  then show ?thesis
    by (simp add: sym_get_choice_menu_def sym_get_prompt_menu_def s up_to_sym_links [OF l] menu_linksD [OF l]
        sym_is_choice_def read_frameD [OF assms] split: option.split)
qed

lemma conf_lines_returns:
  "(\<And>a. sym_get_choice_menu (syms (ks c)) (menus (ks c)) (syms (ks c) a) \<noteq> None) \<Longrightarrow> conf_lines w d wu ls c \<noteq> None"
proof (induction ls arbitrary: c)
  case (Cons l ls)
  have assign: "conf_assign w d wu nm v c0 \<noteq> None" if c0: "read_frame (ks c) (ks c0)" for nm v c0
  proof (cases "find_symbol (ks c0) nm")
    case (Some a)
    define c1 where "c1 = (if SYMBOL_DEF d \<in> s_flags (syms (ks c0) a)
       then conf_warning (''override: reassigning to symbol '' @ symbol_name (ks c0) a) c0 else c0)"
    have c1: "read_frame (ks c) (ks c1)" using c0 by (auto simp: c1_def intro: read_frame_trans)
    obtain b c2 where s: "conf_set_sym_val a d v c1 = (b, c2)" by fastforce
    have "read_frame (ks c) (ks c2)" using set_sym_val_result [OF s, of a] c1 by (auto intro: read_frame_trans)
    with Cons.prems [of a] get_choice_menu_frame [of "ks c" "ks c2" a]
    have "raise_choice_member a c2 \<noteq> None" by (auto simp: raise_choice_member_def)
    with Some show ?thesis
      by (cases b) (auto simp: conf_assign_def c1_def [symmetric] s)
  qed (simp add: conf_assign_def)
  have "conf_line_step w d wu l c \<noteq> None"
    using assign [of "c\<lparr>conf_lineno := conf_lineno c + 1\<rparr>"]
    by (auto simp: conf_line_step_def Let_def split: conf_line.splits)
  then obtain c1 where c1: "conf_line_step w d wu l c = Some c1" by blast
  have "read_frame (ks c) (ks c1)" using conf_line_step_result [OF c1] by blast
  from Cons.IH [of c1] Cons.prems get_choice_menu_frame [OF this] c1 show ?case by simp
qed simp

theorem conf_read_simple_result:
  assumes wf: "\<And>a. sym_get_choice_menu (syms (ks c)) (menus (ks c)) (syms (ks c) a) \<noteq> None"
    and r: "conf_open w name c = (r, c1)"
  shows "\<exists>c'. conf_read_simple w name d c = Some (r \<noteq> None, c') \<and> read_frame (ks c) (ks c')
    \<and> (case r of None \<Rightarrow> syms (ks c') = syms (ks c)
       | Some (nm, t) \<Rightarrow> \<forall>a \<in> set (sym_table (ks c)).
           stored_value d (syms (ks c') a) = last_value (ks c) d (CONFIG_prefix (environ c)) (file_lines t) a)"
proof (cases r)
  case None
  with r have "conf_read_simple w name d c = Some (r \<noteq> None, c1)" by (simp add: conf_read_simple_def)
  with conf_open_result [OF r] None show ?thesis by simp
next
  case (Some p)
  obtain nm t where p: "p = (nm, t)" by (cases p)
  note o = conf_open_result [OF r]
  let ?wu = "environ c ''KCONFIG_WARN_UNKNOWN_SYMBOLS'' \<noteq> None"
  let ?c2 = "conf_load_start nm d c1"
  note s = conf_load_start_result [where c = c1 and name = nm and d = d]
  have f2: "read_frame (ks c) (ks ?c2)" using o(2) s(1) by (rule read_frame_trans)
  have "conf_lines w d ?wu (file_lines t) ?c2 \<noteq> None"
    by (rule conf_lines_returns) (simp add: get_choice_menu_frame [OF f2] wf)
  then obtain c' where c': "conf_lines w d ?wu (file_lines t) ?c2 = Some c'" by blast
  have v: "stored_value d (syms (ks c') a) = last_value (ks c) d (CONFIG_prefix (environ c)) (file_lines t) a"
    if "a \<in> set (sym_table (ks c))" for a
  proof -
    have "a \<in> set (sym_table (ks c1))" using that o(2) by (simp add: read_frameD)
    from s(3) [OF this] conf_lines_result [OF c', of a]
    have "stored_value d (syms (ks c') a) =
        foldl newer None (map (line_value (ks ?c2) d (CONFIG_prefix (environ c)) a) (file_lines t))"
      by (simp add: s(2) o(4))
    also have "line_value (ks ?c2) d (CONFIG_prefix (environ c)) a = line_value (ks c) d (CONFIG_prefix (environ c)) a"
      by (rule ext) (rule line_value_frame [OF f2])
    finally show ?thesis by (simp add: last_value_def)
  qed
  have "conf_read_simple w name d c = Some (r \<noteq> None, c')"
    using r c' Some p by (simp add: conf_read_simple_def conf_load_def)
  moreover have "read_frame (ks c) (ks c')"
    using f2 conf_lines_result [OF c'] by (auto intro: read_frame_trans)
  ultimately show ?thesis using v Some p by simp
qed

text \<open>The look-up by name is the one of the hash table.\<close>

lemma find_symbol_is_sym_find:
  assumes "sym_ok s"
  shows "find_symbol (kst s) nm = sym_find (Some nm) s"
proof (cases "builtin_symbol nm")
  case None
  have set: "set (sym_table (kst s)) = sym_entries s" using assms by (simp add: sym_ok_def sym_entries_def)
  have iff: "sym_find (Some nm) s = Some a \<longleftrightarrow> a \<in> sym_entries s \<and> sym_matches s (nm, False) a" for a
    by (rule sym_find_iff [OF assms None])
  let ?P = "\<lambda>a. s_name (syms (kst s) a) = Some nm \<and> SYMBOL_CONST \<notin> s_flags (syms (kst s) a)"
  have P: "?P a \<longleftrightarrow> sym_matches s (nm, False) a" for a by (auto simp: sym_matches_def)
  have "find ?P (sym_table (kst s)) = sym_find (Some nm) s"
  proof (cases "find ?P (sym_table (kst s))")
    case None
    then have "\<forall>a \<in> sym_entries s. \<not> sym_matches s (nm, False) a" by (simp add: find_None_iff set P)
    with iff None show ?thesis by (metis not_None_eq)
  next
    case (Some a)
    then have "a \<in> sym_entries s" "sym_matches s (nm, False) a"
      using P by (auto simp: find_Some_iff set [symmetric])
    with iff [of a] have "sym_find (Some nm) s = Some a" by blast
    with Some show ?thesis by simp
  qed
  with None show ?thesis by (simp add: find_symbol_def)
qed (simp add: find_symbol_def sym_find_def)

end
