(* ===== verification/ConfWrite.thy ===== *)
theory ConfWrite
  imports ConfRead MenuShow
begin

text \<open>
  Writing configuration files, \<^verbatim>\<open>parser/confdata.c\<close>: \<^verbatim>\<open>.config\<close> with the structure of the menus
  as comments, the minimal configuration, and the files generated for the build
  (\<^verbatim>\<open>auto.conf\<close>, the C header, the Rust flags, the dependency file). Functions that write give
  the text they write; \<open>calc\<close> evaluates symbols and \<open>d\<close> bounds the depth of menus.
\<close>

section \<open>Headings\<close>

record comment_style =
  decoration :: string
  prefix :: string
  postfix :: string

definition comment_style_pound :: comment_style where
  "comment_style_pound = \<lparr>decoration = ''#'', prefix = ''#'', postfix = ''#''\<rparr>"

definition comment_style_c :: comment_style where
  "comment_style_c = \<lparr>decoration = '' *'', prefix = ''/*'', postfix = '' */''\<rparr>"

text \<open>\<open>rootmenu.prompt->text\<close>: without a prompt the code follows a null pointer.\<close>

definition conf_write_heading :: "kstate \<Rightarrow> comment_style option \<Rightarrow> string option" where
  "conf_write_heading k cs =
     (case cs of
        None \<Rightarrow> Some ''''
      | Some cs \<Rightarrow> do {
          p \<leftarrow> m_prompt (menus k rootmenu);
          Some (prefix cs @ ''\<newline>''
            @ decoration cs @ '' Automatically generated file; DO NOT EDIT.\<newline>''
            @ decoration cs @ '' '' @ str_text (p_text (props k p)) @ ''\<newline>''
            @ postfix cs @ ''\<newline>'')
        })"

section \<open>The minimal configuration\<close>

text \<open>What one entry of the menu tree adds.\<close>

definition defconfig_entry :: "calc \<Rightarrow> string \<Rightarrow> mid \<Rightarrow> kstate \<Rightarrow> (string \<times> kstate) option" where
  "defconfig_entry calc cfg m k =
     (case m_sym (menus k m) of
        None \<Rightarrow> Some ('''', k)
      | Some a \<Rightarrow>
          if sym_is_choice (syms k a) then Some ('''', k)
          else do {
            k \<leftarrow> calc a k;
            if SYMBOL_WRITE \<notin> s_flags (syms k a) then Some ('''', k)
            else do {
              let k = clear_flag a SYMBOL_WRITE k;
              if \<not> sym_is_changeable (syms k a) then Some ('''', k)
              else do {
                let v = str_of (sym_get_string_value (syms k a));
                (default, k) \<leftarrow> sym_get_string_default calc a k;
                if strcmp v default = 0 then Some ('''', k)
                else do {
                  choice \<leftarrow> sym_get_choice_menu (syms k) (menus k) (syms k a);
                  (ds, k) \<leftarrow> (case choice of None \<Rightarrow> Some (None, k) | Some c \<Rightarrow> sym_choice_default calc c k);
                  if choice \<noteq> None \<and> ds = Some a \<and> sym_get_tristate_value (syms k a) = tri_yes then Some ('''', k)
                  else Some (print_symbol_for_dotconfig cfg (syms k a), k)
                }
              }
            }
          })"

fun defconfig_entries :: "calc \<Rightarrow> string \<Rightarrow> mid list \<Rightarrow> kstate \<Rightarrow> (string \<times> kstate) option" where
  "defconfig_entries calc cfg [] k = Some ('''', k)"
| "defconfig_entries calc cfg (m # ms) k = do {
     (t, k) \<leftarrow> defconfig_entry calc cfg m k;
     (ts, k) \<leftarrow> defconfig_entries calc cfg ms k;
     Some (t @ ts, k)
   }"

text \<open>\<open>menu_for_each_entry\<close> visits the entries below the root menu; true for the result 0.\<close>

definition conf_write_defconfig :: "os \<Rightarrow> calc \<Rightarrow> string \<Rightarrow> conf_state \<Rightarrow> (bool \<times> conf_state) option" where
  "conf_write_defconfig w calc filename c =
     (case open_write w filename c of
        None \<Rightarrow> Some (False, c)
      | Some c \<Rightarrow> do {
          c \<leftarrow> clear_all_valid calc c;
          ms \<leftarrow> sub_entries (menus (ks c)) rootmenu;
          (t, c) \<leftarrow> run_ks_value (defconfig_entries calc (CONFIG_prefix (environ c)) ms) c;
          Some (True, snd (write_file w filename t c))
        })"

section \<open>The configuration\<close>

text \<open>
  What \<open>conf_write\<close> prints at an entry on the way down, and behind its last sub-entry. The flag
  is \<open>need_newline\<close>.
\<close>

type_synonym wstate = "bool \<times> kstate"

definition conf_write_entry :: "nat \<Rightarrow> calc \<Rightarrow> string \<Rightarrow> mid \<Rightarrow> wstate \<Rightarrow> (string \<times> wstate) option" where
  "conf_write_entry d calc cfg m = (\<lambda>(need_newline, k).
     case m_sym (menus k m) of
       None \<Rightarrow> do {
         (v, k) \<leftarrow> menu_is_visible d calc m k;
         if \<not> v then Some ('''', need_newline, k)
         else Some (''\<newline>#\<newline># '' @ str_text (menu_get_prompt k m) @ ''\<newline>#\<newline>'', False, k)
       }
     | Some a \<Rightarrow>
         if sym_is_choice (syms k a) \<or> SYMBOL_WRITTEN \<in> s_flags (syms k a) then Some ('''', need_newline, k)
         else do {
           k \<leftarrow> calc a k;
           if SYMBOL_WRITE \<notin> s_flags (syms k a) then Some ('''', need_newline, k)
           else do {
             let k = set_flag a SYMBOL_WRITTEN k;
             Some ((if need_newline then ''\<newline>'' else '''') @ print_symbol_for_dotconfig cfg (syms k a), False, k)
           }
         })"

definition conf_write_end :: "nat \<Rightarrow> calc \<Rightarrow> mid \<Rightarrow> wstate \<Rightarrow> (string \<times> wstate) option" where
  "conf_write_end d calc m = (\<lambda>(need_newline, k).
     if m_sym (menus k m) \<noteq> None then Some ('''', need_newline, k)
     else do {
       (v, k) \<leftarrow> menu_is_visible d calc m k;
       if v \<and> m \<noteq> rootmenu then do {
         p \<leftarrow> m_prompt (menus k m);
         if p_type (props k p) = P_MENU
         then Some (''# end of '' @ str_text (menu_get_prompt k m) @ ''\<newline>'', True, k)
         else Some ('''', need_newline, k)
       }
       else Some ('''', need_newline, k)
     })"

text \<open>From the label \<open>end_check\<close>: up to the next entry, if there is one.\<close>

partial_function (option) conf_write_up ::
  "nat \<Rightarrow> calc \<Rightarrow> mid \<Rightarrow> wstate \<Rightarrow> (string \<times> mid option \<times> wstate) option" where
  "conf_write_up d calc m s =
     Option.bind (conf_write_end d calc m s) (\<lambda>(t, s).
       case m_next (menus (snd s) m) of
         Some n \<Rightarrow> Some (t, Some n, s)
       | None \<Rightarrow>
           (case m_parent (menus (snd s) m) of
              None \<Rightarrow> Some (t, None, s)
            | Some p \<Rightarrow> Option.bind (conf_write_up d calc p s) (\<lambda>(t', r). Some (t @ t', r))))"

partial_function (option) conf_write_walk ::
  "nat \<Rightarrow> calc \<Rightarrow> string \<Rightarrow> mid option \<Rightarrow> wstate \<Rightarrow> (string \<times> wstate) option" where
  "conf_write_walk d calc cfg m s =
     (case m of
        None \<Rightarrow> Some ('''', s)
      | Some m \<Rightarrow>
          Option.bind (conf_write_entry d calc cfg m s) (\<lambda>(t, s).
            case m_list (menus (snd s) m) of
              Some n \<Rightarrow> Option.bind (conf_write_walk d calc cfg (Some n) s) (\<lambda>(t', s). Some (t @ t', s))
            | None \<Rightarrow>
                Option.bind (conf_write_up d calc m s) (\<lambda>(t', n, s).
                  Option.bind (conf_write_walk d calc cfg n s) (\<lambda>(t'', s). Some (t @ t' @ t'', s)))))"

declare conf_write_up.simps [code] conf_write_walk.simps [code]

definition conf_write_text :: "nat \<Rightarrow> calc \<Rightarrow> conf_state \<Rightarrow> (string \<times> conf_state) option" where
  "conf_write_text d calc c = do {
     heading \<leftarrow> conf_write_heading (ks c) (Some comment_style_pound);
     c \<leftarrow> (if conf_get_changed c then Some c else clear_all_valid calc c);
     (t, c) \<leftarrow> run_ks_value (\<lambda>k. do {
        (t, _, k) \<leftarrow> conf_write_walk d calc (CONFIG_prefix (environ c)) (m_list (menus k rootmenu)) (False, k);
        Some (t, k)
      }) c;
     Some (heading @ t, on_ks (all_symbols (del_flags {SYMBOL_WRITTEN})) c)
   }"

text \<open>
  \<open>conf_write\<close> and its results -1, 0 and 1. The new file takes the place of the old one unless
  their contents are the same, and the old one is kept under the name with \<open>.old\<close>.
\<close>

definition conf_write_replace :: "os \<Rightarrow> string \<Rightarrow> string \<Rightarrow> conf_state \<Rightarrow> int \<times> conf_state" where
  "conf_write_replace w name tmpname c =
     (if is_same w name tmpname c then
        (0, conf_set_changed False (unlink_file w tmpname (conf_message (''No change to '' @ name) c)))
      else
        (let (_, c) = rename_file w name (take PATH_MAX (name @ ''.old'')) c;
             (ok, c) = rename_file w tmpname name c
         in if \<not> ok then (1, c)
            else (0, conf_set_changed False (conf_message (''configuration written to '' @ name) c))))"

definition conf_write :: "os \<Rightarrow> nat \<Rightarrow> calc \<Rightarrow> string option \<Rightarrow> conf_state \<Rightarrow> (int \<times> conf_state) option" where
  "conf_write w d calc name c =
     (let name = (case name of Some n \<Rightarrow> n | None \<Rightarrow> conf_get_configname c) in
      if name = [] then Some (-1, eprint ''config name is empty\<newline>'' c)
      else if is_dir w name c then Some (-1, eprint (name @ '': Is a directory\<newline>'') c)
      else case make_parent_dir w name c of
        (False, c) \<Rightarrow> Some (-1, c)
      | (True, c) \<Rightarrow>
          (let overwrite = (case environ c ''KCONFIG_OVERWRITECONFIG'' of None \<Rightarrow> False | Some e \<Rightarrow> e \<noteq> []);
               out = (if overwrite then name
                      else take PATH_MAX (name @ ''.'' @ int_text (getpid w) @ ''.tmp''))
           in case open_write w out c of
                None \<Rightarrow> Some (1, c)
              | Some c \<Rightarrow> do {
                  (t, c) \<leftarrow> conf_write_text d calc c;
                  let c = snd (write_file w out t c);
                  if overwrite
                  then Some (0, conf_set_changed False (conf_message (''configuration written to '' @ name) c))
                  else Some (conf_write_replace w name out c)
                }))"

section \<open>The files for the build\<close>

text \<open>\<open>perror\<close>; the text for the error number is a parameter.\<close>

definition perror :: "os \<Rightarrow> string \<Rightarrow> conf_state \<Rightarrow> conf_state" where
  "perror w what = eprint (what @ '': '' @ strerror w @ ''\<newline>'')"

text \<open>
  Opening, writing and renaming, common to the generated files; true for success. The text is
  computed after the file is opened, and may follow a null pointer.
\<close>

definition write_and_rename :: "os \<Rightarrow> string \<Rightarrow> string \<Rightarrow> string option \<Rightarrow> conf_state \<Rightarrow> (bool \<times> conf_state) option" where
  "write_and_rename w tmp name text c =
     (case open_write w tmp c of
        None \<Rightarrow> Some (False, perror w ''fopen'' c)
      | Some c \<Rightarrow> do {
          t \<leftarrow> text;
          Some (case write_file w tmp t c of
              (True, c) \<Rightarrow> (False, c)
            | (False, c) \<Rightarrow>
                (case rename_file w tmp name c of
                   (False, c) \<Rightarrow> (False, perror w ''rename'' c)
                 | (True, c) \<Rightarrow> (True, c)))
        })"

text \<open>\<open>conf_write_autoconf_cmd\<close>: true for the result 0.\<close>

definition conf_write_autoconf_cmd :: "os \<Rightarrow> string \<Rightarrow> conf_state \<Rightarrow> (bool \<times> conf_state) option" where
  "conf_write_autoconf_cmd w autoconf_name c =
     (let name = autoconf_name @ ''.cmd'' in
      if length name \<ge> PATH_MAX then Some (False, c)
      else case make_parent_dir w name c of
        (False, c) \<Rightarrow> Some (False, c)
      | (True, c) \<Rightarrow>
          (let tmp = autoconf_name @ ''.cmd.tmp'' in
           if length tmp \<ge> PATH_MAX then Some (False, c)
           else write_and_rename w tmp name (Some (''autoconfig := '' @ autoconf_name @ ''\<newline>'' @ autoconf_cmd_text c)) c))"

text \<open>Whether the dependency file of a symbol has to be touched.\<close>

definition value_changed :: "symbol \<Rightarrow> bool" where
  "value_changed y \<longleftrightarrow>
     (if sym_is_choice y then False
      else if SYMBOL_WRITE \<in> s_flags y then
        (if SYMBOL_DEF_AUTO \<in> s_flags y then
           (case s_type y of
              S_BOOLEAN \<Rightarrow> sym_get_tristate_value y \<noteq> tri (sdef y S_DEF_AUTO)
            | S_TRISTATE \<Rightarrow> sym_get_tristate_value y \<noteq> tri (sdef y S_DEF_AUTO)
            | S_UNKNOWN \<Rightarrow> True
            | _ \<Rightarrow> strcmp (str_of (sym_get_string_value y)) (str_of (val (sdef y S_DEF_AUTO))) \<noteq> 0)
         else if s_type y = S_BOOLEAN \<or> s_type y = S_TRISTATE then sym_get_tristate_value y \<noteq> tri_no
         else True)
      else SYMBOL_DEF_AUTO \<in> s_flags y)"

text \<open>The loop stops at the first file that cannot be touched.\<close>

fun touch_changed :: "os \<Rightarrow> sid list \<Rightarrow> conf_state \<Rightarrow> bool \<times> conf_state" where
  "touch_changed w [] c = (True, c)"
| "touch_changed w (a # as) c =
     (if value_changed (syms (ks c) a) then
        (case conf_touch_dep w (symbol_name (ks c) a) c of
           (False, c) \<Rightarrow> (False, c)
         | (True, c) \<Rightarrow> touch_changed w as c)
      else touch_changed w as c)"

text \<open>\<open>conf_touch_deps\<close>: true for the result 0.\<close>

definition conf_touch_deps :: "os \<Rightarrow> conf_state \<Rightarrow> (bool \<times> conf_state) option" where
  "conf_touch_deps w c =
     (let name = conf_get_autoconfig_name c;
          dir = (case up_to_last slash name of None \<Rightarrow> '''' | Some t \<Rightarrow> t);
          c = c\<lparr>depfile_prefix_len := length dir\<rparr>
      in if length dir + 1 > PATH_MAX then Some (False, c)
         else do {
           (_, c) \<leftarrow> conf_read_simple w (Some name) S_DEF_AUTO (c\<lparr>depfile_path := dir\<rparr>);
           Some (touch_changed w (sym_table (ks c)) c)
         })"

text \<open>The text of a generated file: the heading and the symbols that are written.\<close>

definition autoconf_text :: "(symbol \<Rightarrow> string) \<Rightarrow> comment_style option \<Rightarrow> kstate \<Rightarrow> string option" where
  "autoconf_text printer style k = do {
     heading \<leftarrow> conf_write_heading k style;
     Some (heading @ concat (map (\<lambda>a. printer (syms k a))
       (filter (\<lambda>a. SYMBOL_WRITE \<in> s_flags (syms k a) \<and> s_name (syms k a) \<noteq> None) (sym_table k))))
   }"

text \<open>\<open>__conf_write_autoconf\<close>: true for the result 0.\<close>

definition write_autoconf_file ::
  "os \<Rightarrow> string \<Rightarrow> (symbol \<Rightarrow> string) \<Rightarrow> comment_style option \<Rightarrow> conf_state \<Rightarrow> (bool \<times> conf_state) option" where
  "write_autoconf_file w filename printer style c =
     (case make_parent_dir w filename c of
        (False, c) \<Rightarrow> Some (False, c)
      | (True, c) \<Rightarrow>
          (let tmp = filename @ ''.tmp'' in
           if length tmp \<ge> PATH_MAX then Some (False, c)
           else write_and_rename w tmp filename (autoconf_text printer style (ks c)) c))"

fun calc_all :: "calc \<Rightarrow> sid list \<Rightarrow> kstate \<Rightarrow> kstate option" where
  "calc_all calc [] k = Some k"
| "calc_all calc (a # as) k = Option.bind (calc a k) (calc_all calc as)"

text \<open>\<open>conf_write_autoconf\<close> and its results -1, 0 and 1.\<close>

definition conf_write_autoconf :: "os \<Rightarrow> calc \<Rightarrow> bool \<Rightarrow> conf_state \<Rightarrow> (int \<times> conf_state) option" where
  "conf_write_autoconf w calc overwrite c =
     (let autoconf_name = conf_get_autoconfig_name c; cfg = CONFIG_prefix (environ c) in
      if \<not> overwrite \<and> is_present w autoconf_name c then Some (0, c)
      else do {
        (ok, c) \<leftarrow> conf_write_autoconf_cmd w autoconf_name c;
        if \<not> ok then Some (-1, c)
        else do {
          c \<leftarrow> run_ks (calc_all calc (sym_table (ks c))) c;
          (ok, c) \<leftarrow> conf_touch_deps w c;
          if \<not> ok then Some (1, c)
          else do {
            (ok, c) \<leftarrow> write_autoconf_file w (conf_get_autoheader_name c) (print_symbol_for_c cfg) (Some comment_style_c) c;
            if \<not> ok then Some (-1, c)
            else do {
              (ok, c) \<leftarrow> write_autoconf_file w (conf_get_rustccfg_name c) (print_symbol_for_rustccfg cfg) None c;
              if \<not> ok then Some (-1, c)
              else do {
                (ok, c) \<leftarrow> write_autoconf_file w (conf_get_autoconfig_name c) (print_symbol_for_autoconf cfg)
                  (Some comment_style_pound) c;
                Some (if ok then 0 else -1, c)
              }
            }
          }
        }
      })"

end
