(* ===== verification/ConfRound.thy ===== *)
theory ConfRound
  imports ConfWrite
begin

text \<open>
  What is written is read back. The text of a file is a list of lines; reading gives those lines
  again when none of them holds a character that ends a line or the string. From this follow the
  round trip of \<^verbatim>\<open>auto.conf\<close>, by which a build touches nothing when no value has changed, and
  the one of \<^verbatim>\<open>.config\<close>.
\<close>

section \<open>Lines\<close>

definition join_lines :: "string list \<Rightarrow> string" where
  "join_lines ls = concat (map (\<lambda>l. l @ ''\<newline>'') ls)"

lemma join_lines_simps [simp]:
  "join_lines [] = ''''" "join_lines (l # ls) = l @ CHR 0x0A # join_lines ls"
  "join_lines (xs @ ys) = join_lines xs @ join_lines ys"
  by (simp_all add: join_lines_def)

lemma join_lines_concat: "join_lines (concat lss) = concat (map join_lines lss)"
  by (induction lss) simp_all

definition clean_line :: "string \<Rightarrow> bool" where
  "clean_line l \<longleftrightarrow> CHR 0x0A \<notin> set l \<and> CHR 0x00 \<notin> set l \<and> (l \<noteq> [] \<longrightarrow> last l \<noteq> CHR 0x0D)"

lemma file_lines_line:
  assumes "clean_line l"
  shows "file_lines (l @ CHR 0x0A # t) = l # file_lines t"
proof -
  have "c_string (strip_cr l) = l"
    using assms by (auto simp: clean_line_def strip_cr_def c_string_def takeWhile_eq_all_conv)
  then show ?thesis
    using assms by (subst file_lines.simps) (simp add: split_at_append clean_line_def)
qed

lemma file_lines_join: "\<forall>l \<in> set ls. clean_line l \<Longrightarrow> file_lines (join_lines ls) = ls"
proof (induction ls)
  case Nil
  then show ?case by (subst file_lines.simps) simp
qed (simp add: file_lines_line)

lemma foldl_newer:
  "(\<And>x. x \<in> set xs \<Longrightarrow> x = None \<or> x = Some v) \<Longrightarrow> foldl newer w xs = (if Some v \<in> set xs then Some v else w)"
proof (induction xs arbitrary: w)
  case (Cons x xs)
  then have ih: "foldl newer w xs = (if Some v \<in> set xs then Some v else w)" for w by simp
  have "x = None \<or> x = Some v" using Cons.prems by simp
  then show ?case by (auto simp: ih)
qed simp

text \<open>The value of a symbol that only gets one value.\<close>

lemma last_value_unique:
  assumes "\<And>l. l \<in> set ls \<Longrightarrow> line_value k d cfg a l = None \<or> line_value k d cfg a l = Some v"
  shows "last_value k d cfg ls a = (if Some v \<in> line_value k d cfg a ` set ls then Some v else None)"
  unfolding last_value_def by (subst foldl_newer [where v = v]) (use assms in auto)

section \<open>Headings\<close>

definition heading_lines :: "string \<Rightarrow> string list" where
  "heading_lines title = [''#'', ''# Automatically generated file; DO NOT EDIT.'', ''# '' @ title, ''#'']"

lemma heading_text:
  "conf_write_heading k (Some comment_style_pound) =
     map_option (\<lambda>p. join_lines (heading_lines (str_text (p_text (props k p))))) (m_prompt (menus k rootmenu))"
  by (cases "m_prompt (menus k rootmenu)")
     (simp_all add: conf_write_heading_def comment_style_pound_def heading_lines_def)

text \<open>A comment that is not read as a value.\<close>

definition quiet_comment :: "string \<Rightarrow> string \<Rightarrow> bool" where
  "quiet_comment cfg t \<longleftrightarrow> clean_line (''# '' @ t) \<and> conf_read_line cfg (''# '' @ t) = Skip_line"

definition quiet_heading :: "string \<Rightarrow> kstate \<Rightarrow> bool" where
  "quiet_heading cfg k \<longleftrightarrow> quiet_comment cfg ''Automatically generated file; DO NOT EDIT.''
     \<and> (case m_prompt (menus k rootmenu) of None \<Rightarrow> False | Some p \<Rightarrow> quiet_comment cfg (str_text (p_text (props k p))))"

lemma skip_hash [simp]: "conf_read_line cfg ''#'' = Skip_line" "clean_line ''#''"
  by (simp_all add: conf_read_line_def char_at_def clean_line_def)

lemma skip_blank [simp]: "conf_read_line cfg '''' = Skip_line" "clean_line ''''"
  by (simp_all add: conf_read_line_def clean_line_def)

lemma heading_quiet:
  assumes "quiet_comment cfg ''Automatically generated file; DO NOT EDIT.''" "quiet_comment cfg title"
  shows "\<forall>l \<in> set (heading_lines title). clean_line l \<and> conf_read_line cfg l = Skip_line"
  using assms by (simp add: heading_lines_def quiet_comment_def)

section \<open>The file for the build\<close>

definition auto_lines :: "string \<Rightarrow> symbol \<Rightarrow> string list" where
  "auto_lines cfg y =
     (if s_type y = S_UNKNOWN \<or> (s_type y = S_BOOLEAN \<or> s_type y = S_TRISTATE) \<and> tri (curr y) = tri_no then []
      else [cfg @ ConfText.name_text y @ ''='' @ str_of (sym_get_string_value y)])"

lemma auto_lines_text: "print_symbol_for_autoconf cfg y = join_lines (auto_lines cfg y)"
  by (cases "tri (curr y)")
     (auto simp: print_symbol_for_autoconf_def print_symbol_def auto_lines_def string_value_bool tristate_text_simps char_at_def Let_def)

definition auto_written :: "kstate \<Rightarrow> sid list" where
  "auto_written k = filter (\<lambda>a. SYMBOL_WRITE \<in> s_flags (syms k a) \<and> s_name (syms k a) \<noteq> None) (sym_table k)"

text \<open>The symbols written have names and values that can be read back.\<close>

definition auto_readable :: "string \<Rightarrow> kstate \<Rightarrow> bool" where
  "auto_readable cfg k \<longleftrightarrow> quiet_heading cfg k \<and> (\<forall>a \<in> set (auto_written k).
     case s_name (syms k a) of None \<Rightarrow> True
     | Some nm \<Rightarrow> find_symbol k nm = Some a \<and> printable_name cfg nm \<and> printable_value (syms k a)
         \<and> clean_line (cfg @ nm @ ''='' @ str_of (sym_get_string_value (syms k a))))"

lemma auto_text_value:
  assumes "printable_value (syms k a)" and "auto_lines cfg (syms k a) \<noteq> []"
  shows "text_value k S_DEF_AUTO a (str_of (sym_get_string_value (syms k a))) = Some (saved_value (syms k a))"
proof (cases "s_type (syms k a) = S_BOOLEAN \<or> s_type (syms k a) = S_TRISTATE")
  case True
  with assms show ?thesis
    by (cases "tri (curr (syms k a))")
       (auto simp: text_value_def sym_val_of_text_def saved_value_def string_value_bool tristate_text_simps
         auto_lines_def printable_value_def char_at_def Let_def)
next
  case False
  with assms have "str_of (sym_get_string_value (syms k a)) = str_of (val (curr (syms k a)))"
    "sym_string_valid (syms k a) (str_of (val (curr (syms k a))))"
    by (auto simp: printable_value_def sym_get_string_value_def sym_string_valid_def split: symbol_type.splits)
  with False assms show ?thesis
    by (auto simp: text_value_def sym_val_of_text_def saved_value_def printable_value_def Let_def split: symbol_type.split)
qed


lemma auto_file_lines:
  assumes "auto_readable cfg k" and "autoconf_text (print_symbol_for_autoconf cfg) (Some comment_style_pound) k = Some t"
  obtains title where "file_lines t = heading_lines title @ concat (map (\<lambda>a. auto_lines cfg (syms k a)) (auto_written k))"
    and "quiet_comment cfg title"
proof -
  obtain p where p: "m_prompt (menus k rootmenu) = Some p"
    using assms(1) by (auto simp: auto_readable_def quiet_heading_def split: option.splits)
  let ?title = "str_text (p_text (props k p))"
  let ?ls = "heading_lines ?title @ concat (map (\<lambda>a. auto_lines cfg (syms k a)) (auto_written k))"
  have q: "quiet_comment cfg ''Automatically generated file; DO NOT EDIT.''" "quiet_comment cfg ?title"
    using assms(1) p by (simp_all add: auto_readable_def quiet_heading_def)
  have "t = join_lines ?ls"
    using assms(2) by (simp add: autoconf_text_def heading_text p auto_written_def auto_lines_text join_lines_concat comp_def)
  moreover have "clean_line l" if "a \<in> set (auto_written k)" "l \<in> set (auto_lines cfg (syms k a))" for a l
    using assms(1) that
    by (auto simp: auto_readable_def auto_lines_def auto_written_def ConfText.name_text_def split: if_splits option.splits)
  ultimately have "file_lines t = ?ls"
    using heading_quiet [OF q] by (intro trans [OF arg_cong [of t "join_lines ?ls" file_lines] file_lines_join]) auto
  with that q(2) show thesis by blast
qed

text \<open>What each symbol has after the file is read: its value, unless it is the value \<open>n\<close>.\<close>

lemma auto_last_value:
  assumes ok: "auto_readable cfg k"
    and t: "autoconf_text (print_symbol_for_autoconf cfg) (Some comment_style_pound) k = Some t"
  shows "last_value k S_DEF_AUTO cfg (file_lines t) a =
    (if a \<in> set (auto_written k) \<and> auto_lines cfg (syms k a) \<noteq> [] then Some (saved_value (syms k a)) else None)"
proof -
  obtain title where ls: "file_lines t = heading_lines title @ concat (map (\<lambda>a. auto_lines cfg (syms k a)) (auto_written k))"
    and title: "quiet_comment cfg title"
    using auto_file_lines [OF assms] .
  have head: "line_value k S_DEF_AUTO cfg a l = None" if "l \<in> set (heading_lines title)" for l
    using heading_quiet [OF _ title] ok that by (simp add: auto_readable_def quiet_heading_def line_value_def)
  have sym: "line_value k S_DEF_AUTO cfg a l = (if b = a then Some (saved_value (syms k a)) else None)"
    if b: "b \<in> set (auto_written k)" and l: "l \<in> set (auto_lines cfg (syms k b))" for b l
  proof -
    obtain nm where nm: "s_name (syms k b) = Some nm" "find_symbol k nm = Some b" "printable_name cfg nm"
        "printable_value (syms k b)"
      using ok b by (auto simp: auto_readable_def auto_written_def split: option.splits)
    then have "l = cfg @ nm @ ''='' @ str_of (sym_get_string_value (syms k b))"
      using l by (simp add: auto_lines_def ConfText.name_text_def split: if_splits)
    moreover have "auto_lines cfg (syms k b) \<noteq> []" using l by auto
    ultimately show ?thesis
      using conf_read_line_assign(1) [OF nm(3)] nm(2) auto_text_value [OF nm(4)]
      by (auto simp: line_value_def)
  qed
  have all: "line_value k S_DEF_AUTO cfg a l = None \<or> line_value k S_DEF_AUTO cfg a l = Some (saved_value (syms k a))"
    if "l \<in> set (file_lines t)" for l
    using that head sym by (auto simp: ls)
  let ?v = "Some (saved_value (syms k a))"
  have "?v \<in> line_value k S_DEF_AUTO cfg a ` set (file_lines t) \<longleftrightarrow>
      a \<in> set (auto_written k) \<and> auto_lines cfg (syms k a) \<noteq> []" (is "?l \<longleftrightarrow> ?r")
  proof
    assume ?l
    then obtain l where "l \<in> set (file_lines t)" "line_value k S_DEF_AUTO cfg a l = ?v" by auto
    with head [of l] obtain b where "b \<in> set (auto_written k)" "l \<in> set (auto_lines cfg (syms k b))"
      by (auto simp: ls)
    moreover from this sym [of b l] \<open>line_value k S_DEF_AUTO cfg a l = ?v\<close> have "b = a" by (auto split: if_splits)
    ultimately show ?r by auto
  next
    assume r: ?r
    then obtain l where l: "l \<in> set (auto_lines cfg (syms k a))" by (cases "auto_lines cfg (syms k a)") auto
    with r have "l \<in> set (file_lines t)" by (auto simp: ls)
    with sym [of a l] r l show ?l by force
  qed
  with last_value_unique [of "file_lines t", OF all] show ?thesis by simp
qed

section \<open>Nothing is touched\<close>

text \<open>Reading touches a dependency file only for a name that no symbol has.\<close>

definition names_known :: "kstate \<Rightarrow> string \<Rightarrow> string list \<Rightarrow> bool" where
  "names_known k cfg ls \<longleftrightarrow> (\<forall>l \<in> set ls. \<forall>nm v. conf_read_line cfg l = Assign nm v \<longrightarrow> find_symbol k nm \<noteq> None)"

lemma set_sym_val_fs: "conf_set_sym_val a d p c = (b, c') \<Longrightarrow> fs c' = fs c"
  by (auto simp: conf_set_sym_val_def split: set_result.splits if_splits)

lemma raise_fs: "raise_choice_member a c = Some c' \<Longrightarrow> fs c' = fs c"
  by (auto simp: raise_choice_member_def bind_eq_Some_conv split: option.splits)

lemma conf_assign_fs:
  assumes "conf_assign w d wu nm v c = Some c'" and "find_symbol (ks c) nm = Some a"
  shows "fs c' = fs c"
proof -
  define c1 where "c1 = (if SYMBOL_DEF d \<in> s_flags (syms (ks c) a)
     then conf_warning (''override: reassigning to symbol '' @ symbol_name (ks c) a) c else c)"
  have c1: "fs c1 = fs c" by (simp add: c1_def)
  obtain b c2 where s: "conf_set_sym_val a d v c1 = (b, c2)" by fastforce
  have "c' = c2 \<or> raise_choice_member a c2 = Some c'"
    using assms by (auto simp: conf_assign_def c1_def [symmetric] s split: bool.splits if_splits)
  with set_sym_val_fs [OF s] c1 show ?thesis by (auto dest: raise_fs)
qed

lemma conf_line_step_fs:
  assumes "conf_line_step w d wu l c = Some c'" and "names_known (ks c) (CONFIG_prefix (environ c)) [l]"
  shows "fs c' = fs c"
proof (cases "conf_read_line (CONFIG_prefix (environ c)) l")
  case (Assign nm v)
  with assms have "conf_assign w d wu nm v (c\<lparr>conf_lineno := conf_lineno c + 1\<rparr>) = Some c'"
    by (simp add: conf_line_step_def Let_def)
  with assms(2) Assign show ?thesis by (auto simp: names_known_def dest: conf_assign_fs)
qed (use assms in \<open>auto simp: conf_line_step_def Let_def\<close>)

lemma conf_lines_fs:
  "conf_lines w d wu ls c = Some c' \<Longrightarrow> names_known (ks c) (CONFIG_prefix (environ c)) ls \<Longrightarrow> fs c' = fs c"
proof (induction ls arbitrary: c)
  case (Cons l ls)
  then obtain c1 where c1: "conf_line_step w d wu l c = Some c1" "conf_lines w d wu ls c1 = Some c'"
    by (auto simp: bind_eq_Some_conv)
  from conf_line_step_result [OF c1(1)] have f: "read_frame (ks c) (ks c1)" "environ c1 = environ c" by auto
  have "names_known (ks c) (CONFIG_prefix (environ c)) ls" "names_known (ks c) (CONFIG_prefix (environ c)) [l]"
    using Cons.prems(2) by (simp_all add: names_known_def)
  with Cons.IH [OF c1(2)] conf_line_step_fs [OF c1(1)] f show ?case
    by (simp add: names_known_def find_symbol_frame [OF f(1)])
qed simp

lemma conf_load_start_fs [simp]: "fs (conf_load_start name d c) = fs c"
  by (simp add: conf_load_start_def Let_def)

lemma conf_read_simple_fs:
  assumes "conf_read_simple w (Some name) d c = Some (b, c')" and "zconf_fopen w name c = Some t"
    and "names_known (ks c) (CONFIG_prefix (environ c)) (file_lines t)"
  shows "fs c' = fs c"
proof -
  let ?c2 = "conf_load_start name d c"
  from assms(1,2) have "conf_lines w d (environ c ''KCONFIG_WARN_UNKNOWN_SYMBOLS'' \<noteq> None) (file_lines t) ?c2 = Some c'"
    by (simp add: conf_read_simple_def conf_open_def conf_load_def)
  moreover have "names_known (ks ?c2) (CONFIG_prefix (environ ?c2)) (file_lines t)"
    using assms(3) conf_load_start_result(1,2) [where c = c and name = name and d = d]
    by (simp add: names_known_def find_symbol_frame)
  ultimately have "fs c' = fs ?c2" by (rule conf_lines_fs)
  then show ?thesis by simp
qed

lemma auto_names_known:
  assumes ok: "auto_readable cfg k"
    and t: "autoconf_text (print_symbol_for_autoconf cfg) (Some comment_style_pound) k = Some t"
  shows "names_known k cfg (file_lines t)"
proof -
  obtain title where ls: "file_lines t = heading_lines title @ concat (map (\<lambda>a. auto_lines cfg (syms k a)) (auto_written k))"
    and title: "quiet_comment cfg title"
    using auto_file_lines [OF assms] .
  have head: "conf_read_line cfg l = Skip_line" if "l \<in> set (heading_lines title)" for l
    using heading_quiet [OF _ title] ok that by (simp add: auto_readable_def quiet_heading_def)
  have sym: "find_symbol k nm \<noteq> None"
    if b: "b \<in> set (auto_written k)" and l: "l \<in> set (auto_lines cfg (syms k b))" "conf_read_line cfg l = Assign nm v" for b l nm v
  proof -
    obtain n where n: "s_name (syms k b) = Some n" "find_symbol k n = Some b" "printable_name cfg n"
      using ok b by (auto simp: auto_readable_def auto_written_def split: option.splits)
    then have "l = cfg @ n @ ''='' @ str_of (sym_get_string_value (syms k b))"
      using l by (simp add: auto_lines_def ConfText.name_text_def split: if_splits)
    with conf_read_line_assign(1) [OF n(3)] n(2) l(2) show ?thesis by simp
  qed
  show ?thesis using head sym by (fastforce simp: names_known_def ls)
qed

text \<open>A symbol whose stored value is its value is not touched.\<close>

lemma value_unchanged:
  assumes f: "read_eq y z"
    and v: "stored_value S_DEF_AUTO z = (if SYMBOL_WRITE \<in> s_flags y \<and> auto_lines cfg y \<noteq> [] then Some (saved_value y) else None)"
    and ok: "SYMBOL_WRITE \<in> s_flags y \<Longrightarrow> s_name y \<noteq> None \<Longrightarrow> s_type y \<noteq> S_UNKNOWN"
  shows "\<not> value_changed z"
proof (cases "sym_is_choice y")
  case False
  have e: "s_name z = s_name y" "s_type z = s_type y" "curr z = curr y"
      "SYMBOL_WRITE \<in> s_flags z \<longleftrightarrow> SYMBOL_WRITE \<in> s_flags y"
    using f by (simp_all add: read_eq_def)
  have nm: "s_name y \<noteq> None" using False by (simp add: sym_is_choice_def)
  have strcmp_same: "strcmp s s = 0" for s by (simp add: strcmp_eq_0_iff)
  show ?thesis
  proof (cases "SYMBOL_WRITE \<in> s_flags y \<and> auto_lines cfg y \<noteq> []")
    case True
    with v have "SYMBOL_DEF_AUTO \<in> s_flags z" "stored_value S_DEF_AUTO z = Some (saved_value y)"
      by (auto simp: stored_value_def split: if_splits)
    with True e nm ok show ?thesis
      by (cases "s_type y")
         (auto simp: value_changed_def stored_value_def saved_value_def sym_get_tristate_value_def sym_get_string_value_def strcmp_same)
  next
    case w: False
    with v have "SYMBOL_DEF_AUTO \<notin> s_flags z" by (auto simp: stored_value_def split: if_splits)
    with w e nm ok show ?thesis
      by (auto simp: value_changed_def auto_lines_def sym_get_tristate_value_def split: if_splits)
  qed
qed (use f in \<open>simp add: value_changed_def sym_is_choice_def read_eq_def\<close>)

lemma touch_unchanged: "(\<And>a. a \<in> set as \<Longrightarrow> \<not> value_changed (syms (ks c) a)) \<Longrightarrow> touch_changed w as c = (True, c)"
  by (induction as) simp_all

theorem touch_nothing:
  assumes wf: "\<And>a. sym_get_choice_menu (syms (ks c)) (menus (ks c)) (syms (ks c) a) \<noteq> None"
    and ok: "auto_readable (CONFIG_prefix (environ c)) (ks c)"
    and t: "autoconf_text (print_symbol_for_autoconf (CONFIG_prefix (environ c))) (Some comment_style_pound) (ks c) = Some t"
    and f: "read_file w (conf_get_autoconfig_name c) c = Some t"
    and len: "length (conf_get_autoconfig_name c) < PATH_MAX"
  shows "\<exists>c'. conf_touch_deps w c = Some (True, c') \<and> fs c' = fs c"
proof -
  let ?name = "conf_get_autoconfig_name c"
  let ?cfg = "CONFIG_prefix (environ c)"
  define dir where "dir = (case up_to_last slash ?name of None \<Rightarrow> '''' | Some t \<Rightarrow> t)"
  have "length dir \<le> length ?name"
    using length_dropWhile_le [of "\<lambda>d. d \<noteq> slash" "rev ?name"] by (auto simp: dir_def up_to_last_def split: option.split)
  with len have len: "\<not> length dir + 1 > PATH_MAX" by simp
  let ?c = "c\<lparr>depfile_prefix_len := length dir, depfile_path := dir\<rparr>"
  have "read_file w ?name ?c = read_file w ?name c" by (simp add: read_file_def file_text_def)
  with f have o: "zconf_fopen w ?name ?c = Some t" by (simp add: zconf_fopen_def)
  then have "conf_open w (Some ?name) ?c = (Some (?name, t), ?c)" by (simp add: conf_open_def)
  from conf_read_simple_result [OF _ this, of S_DEF_AUTO] wf obtain c'
    where r: "conf_read_simple w (Some ?name) S_DEF_AUTO ?c = Some (True, c')" and fr: "read_frame (ks c) (ks c')"
      and v: "\<And>a. a \<in> set (sym_table (ks c)) \<Longrightarrow> stored_value S_DEF_AUTO (syms (ks c') a) = last_value (ks c) S_DEF_AUTO ?cfg (file_lines t) a"
    by fastforce
  have fs: "fs c' = fs c"
    using conf_read_simple_fs [OF r o] auto_names_known [OF ok t] by simp
  have "\<not> value_changed (syms (ks c') a)" if a: "a \<in> set (sym_table (ks c))" for a
  proof (cases "s_name (syms (ks c) a)")
    case None
    with fr show ?thesis by (simp add: value_changed_def sym_is_choice_def read_frameD)
  next
    case (Some nm)
    show ?thesis
    proof (rule value_unchanged)
      show "read_eq (syms (ks c) a) (syms (ks c') a)" using fr by (simp add: read_frame_def)
      show "stored_value S_DEF_AUTO (syms (ks c') a) = (if SYMBOL_WRITE \<in> s_flags (syms (ks c) a) \<and> auto_lines ?cfg (syms (ks c) a) \<noteq> []
          then Some (saved_value (syms (ks c) a)) else None)"
        using v [OF a] auto_last_value [OF ok t, of a] a Some by (simp add: auto_written_def)
      show "SYMBOL_WRITE \<in> s_flags (syms (ks c) a) \<Longrightarrow> s_name (syms (ks c) a) \<noteq> None \<Longrightarrow> s_type (syms (ks c) a) \<noteq> S_UNKNOWN"
        using ok a Some by (auto simp: auto_readable_def auto_written_def printable_value_def)
    qed
  qed
  then have "touch_changed w (sym_table (ks c')) c' = (True, c')"
    using fr by (intro touch_unchanged) (simp add: read_frameD)
  then have "conf_touch_deps w c = Some (True, c')"
    using r len by (simp add: conf_touch_deps_def dir_def [symmetric] Let_def)
  with fs show ?thesis by blast
qed

end
