(* ===== verification/DotRound.thy ===== *)
theory DotRound
  imports ConfRound FinalTree
begin

text \<open>
  The round trip of \<^verbatim>\<open>.config\<close>. On a tree of entries \<open>conf_write\<close> ends, it writes every symbol
  at most once, and reading the text gives each symbol the value that was written for it. The
  walk over the menus is followed along the tree; \<open>outputs\<close> is what a part of it does.
\<close>

section \<open>What evaluation and the marks leave alone\<close>

definition static_eq :: "kstate \<Rightarrow> kstate \<Rightarrow> bool" where
  "static_eq k k' \<longleftrightarrow> sym_table k' = sym_table k \<and> menu_links (menus k) (menus k')
     \<and> (\<forall>p. p_text (props k' p) = p_text (props k p) \<and> p_type (props k' p) = p_type (props k p))
     \<and> (\<forall>a. s_name (syms k' a) = s_name (syms k a) \<and> s_type (syms k' a) = s_type (syms k a)
           \<and> (SYMBOL_CONST \<in> s_flags (syms k' a) \<longleftrightarrow> SYMBOL_CONST \<in> s_flags (syms k a)))"

lemma static_eq_refl [simp]: "static_eq k k"
  by (simp add: static_eq_def)

lemma static_eq_trans: "static_eq k l \<Longrightarrow> static_eq l m \<Longrightarrow> static_eq k m"
  by (simp add: static_eq_def menu_links_def)

lemma static_eqD:
  assumes "static_eq k k'"
  shows "sym_table k' = sym_table k" "menu_links (menus k) (menus k')" "p_text (props k' p) = p_text (props k p)"
    "p_type (props k' p) = p_type (props k p)" "s_name (syms k' a) = s_name (syms k a)"
    "s_type (syms k' a) = s_type (syms k a)" "SYMBOL_CONST \<in> s_flags (syms k' a) \<longleftrightarrow> SYMBOL_CONST \<in> s_flags (syms k a)"
    "m_prompt (menus k' m) = m_prompt (menus k m)" "m_sym (menus k' m) = m_sym (menus k m)"
    "m_list (menus k' m) = m_list (menus k m)" "m_next (menus k' m) = m_next (menus k m)"
    "m_parent (menus k' m) = m_parent (menus k m)"
  using assms by (auto simp: static_eq_def menu_links_def)

lemma static_prims: "prim\<^sup>*\<^sup>* k k' \<Longrightarrow> static_eq k k'"
  using prims_same_structure [of k k'] prop_eqD [of "props k p" "props k' p" for p]
  by (auto simp: static_eq_def same_structure_def menu_eq_def sym_eq_def)

definition written :: "kstate \<Rightarrow> sid set" where
  "written k = {a. SYMBOL_WRITTEN \<in> s_flags (syms k a)}"

lemma prims_written: "prim\<^sup>*\<^sup>* k k' \<Longrightarrow> written k' = written k"
proof (induction rule: rtranclp_induct)
  case (step t u)
  from step(2) have "written u = written t"
    by (induction rule: prim.induct) (auto simp: written_def set_defs upd_defs)
  with step(3) show ?case by simp
qed simp

lemma static_line_value:
  assumes "static_eq k k'"
  shows "line_value k' d cfg a l = line_value k d cfg a l"
proof -
  have "find_symbol k' nm = find_symbol k nm" for nm
    by (simp add: find_symbol_def static_eqD [OF assms] split: option.split)
  moreover have "sym_val_of_text (syms k' a) d v = sym_val_of_text (syms k a) d v" for v
    by (rule sym_val_of_text_type) (simp add: static_eqD [OF assms])
  ultimately show ?thesis by (simp add: line_value_def text_value_def split: conf_line.split)
qed

section \<open>What a part of the walk does\<close>

definition dot_printable :: "string \<Rightarrow> kstate \<Rightarrow> sid \<Rightarrow> symbol \<Rightarrow> bool" where
  "dot_printable cfg k a y \<longleftrightarrow> (case s_name y of None \<Rightarrow> False
     | Some nm \<Rightarrow> find_symbol k nm = Some a \<and> printable_name cfg nm \<and> printable_value y
         \<and> clean_line (butlast (print_symbol_for_dotconfig cfg y)))"

text \<open>A line gives no value, or the one of a listed symbol; a listed symbol has a line.\<close>

definition line_listed :: "string \<Rightarrow> kstate \<Rightarrow> (sid \<times> symbol) set \<Rightarrow> string \<Rightarrow> bool" where
  "line_listed cfg k Y l \<longleftrightarrow> clean_line l \<and> (\<forall>a. line_value k S_DEF_USER cfg a l = None
     \<or> (\<exists>y. (a, y) \<in> Y \<and> line_value k S_DEF_USER cfg a l = Some (saved_value y)))"

definition has_line :: "string \<Rightarrow> kstate \<Rightarrow> string set \<Rightarrow> sid \<times> symbol \<Rightarrow> bool" where
  "has_line cfg k L ay \<longleftrightarrow> (\<exists>l \<in> L. line_value k S_DEF_USER cfg (fst ay) l = Some (saved_value (snd ay)))"

lemma line_listed_mono: "line_listed cfg k Y l \<Longrightarrow> Y \<subseteq> Z \<Longrightarrow> line_listed cfg k Z l"
  unfolding line_listed_def by blast

lemma has_line_mono: "has_line cfg k L ay \<Longrightarrow> L \<subseteq> M \<Longrightarrow> has_line cfg k M ay"
  unfolding has_line_def by blast

definition renders :: "string \<Rightarrow> kstate \<Rightarrow> string \<Rightarrow> (sid \<times> symbol) list \<Rightarrow> bool" where
  "renders cfg k x ys \<longleftrightarrow> (\<exists>ls. x = join_lines ls \<and> (\<forall>l \<in> set ls. line_listed cfg k (set ys) l)
     \<and> (\<forall>ay \<in> set ys. has_line cfg k (set ls) ay))"

lemma renders_nil [simp]: "renders cfg k '''' []"
  unfolding renders_def by (rule exI [of _ "[]"]) simp

lemma renders_append:
  assumes "renders cfg k x ys" "renders cfg k x' ys'"
  shows "renders cfg k (x @ x') (ys @ ys')"
proof -
  obtain ls ls' where e: "x = join_lines ls" "x' = join_lines ls'"
    and 1: "\<forall>l \<in> set ls. line_listed cfg k (set ys) l" "\<forall>ay \<in> set ys. has_line cfg k (set ls) ay"
    and 2: "\<forall>l \<in> set ls'. line_listed cfg k (set ys') l" "\<forall>ay \<in> set ys'. has_line cfg k (set ls') ay"
    using assms unfolding renders_def by auto
  have "\<forall>l \<in> set (ls @ ls'). line_listed cfg k (set (ys @ ys')) l"
    using 1(1) 2(1) by (auto intro: line_listed_mono)
  moreover have "\<forall>ay \<in> set (ys @ ys'). has_line cfg k (set (ls @ ls')) ay"
    using 1(2) 2(2) by (auto intro: has_line_mono)
  ultimately show ?thesis
    unfolding renders_def by (intro exI [of _ "ls @ ls'"]) (simp add: e)
qed

lemma renders_skip:
  assumes "\<forall>l \<in> set ls. clean_line l \<and> conf_read_line cfg l = Skip_line"
  shows "renders cfg k (join_lines ls) []"
  unfolding renders_def by (rule exI [of _ ls]) (use assms in \<open>simp add: line_value_def line_listed_def\<close>)

lemma renders_symbol:
  assumes ok: "dot_printable cfg k a y" and ty: "s_type y = s_type (syms k a)"
  shows "renders cfg k (print_symbol_for_dotconfig cfg y) [(a, y)]"
proof -
  obtain nm where nm: "s_name y = Some nm" "find_symbol k nm = Some a" "printable_name cfg nm" "printable_value y"
      "clean_line (butlast (print_symbol_for_dotconfig cfg y))"
    using ok by (auto simp: dot_printable_def split: option.splits)
  obtain line v where line: "print_symbol_for_dotconfig cfg y = line @ ''\<newline>''"
      "conf_read_line cfg line = Assign nm v" "sym_val_of_text y S_DEF_USER v = saved_value y"
    by (rule dotconfig_line_round_trip [OF nm(1,3,4)])
  have "sym_val_of_text (syms k a) S_DEF_USER v = saved_value y"
    using line(3) sym_val_of_text_type [of "syms k a" y] ty by simp
  then have "text_value k S_DEF_USER a v = Some (saved_value y)"
    by (simp add: text_value_def saved_value_def)
  then have "line_value k S_DEF_USER cfg b line = (if b = a then Some (saved_value y) else None)" for b
    using line(2) nm(2) by (auto simp: line_value_def)
  with nm(5) line(1) show ?thesis
    unfolding renders_def by (intro exI [of _ "[line]"]) (simp add: line_listed_def has_line_def)
qed

definition wrote :: "kstate \<Rightarrow> kstate \<Rightarrow> kstate \<Rightarrow> (sid \<times> symbol) list \<Rightarrow> bool" where
  "wrote base k k' ys \<longleftrightarrow> distinct (map fst ys) \<and> fst ` set ys \<inter> written k = {} \<and> written k' = written k \<union> fst ` set ys
     \<and> (\<forall>(a, y) \<in> set ys. SYMBOL_WRITE \<in> s_flags y \<and> SYMBOL_VALID \<in> s_flags y \<and> s_name y = s_name (syms base a)
          \<and> s_type y = s_type (syms base a))"

lemma wrote_append: "wrote base k l ys \<Longrightarrow> wrote base l m zs \<Longrightarrow> wrote base k m (ys @ zs)"
  unfolding wrote_def by auto

definition outputs :: "string \<Rightarrow> nat \<Rightarrow> kstate \<Rightarrow> kstate \<Rightarrow> string \<Rightarrow> kstate \<Rightarrow> bool" where
  "outputs cfg n base k x k' \<longleftrightarrow> settable n k' \<and> static_eq base k'
     \<and> (\<exists>ys. wrote base k k' ys \<and> ((\<forall>(a, y) \<in> set ys. dot_printable cfg base a y) \<longrightarrow> renders cfg base x ys))"

lemma outputs_append:
  assumes "outputs cfg n base k x l" "outputs cfg n base l x' m"
  shows "outputs cfg n base k (x @ x') m"
proof -
  obtain ys where ys: "wrote base k l ys" "(\<forall>(a, y) \<in> set ys. dot_printable cfg base a y) \<longrightarrow> renders cfg base x ys"
    using assms(1) by (auto simp: outputs_def)
  obtain zs where zs: "wrote base l m zs" "(\<forall>(a, y) \<in> set zs. dot_printable cfg base a y) \<longrightarrow> renders cfg base x' zs"
    using assms(2) by (auto simp: outputs_def)
  have "(\<forall>(a, y) \<in> set (ys @ zs). dot_printable cfg base a y) \<longrightarrow> renders cfg base (x @ x') (ys @ zs)"
    using ys(2) zs(2) by (auto intro: renders_append)
  with assms(2) wrote_append [OF ys(1) zs(1)] show ?thesis unfolding outputs_def by blast
qed

lemma outputs_skip:
  assumes "settable n k" "static_eq base k" "prim\<^sup>*\<^sup>* k k'"
    and "\<forall>l \<in> set ls. clean_line l \<and> conf_read_line cfg l = Skip_line"
  shows "outputs cfg n base k (join_lines ls) k'"
proof -
  have "wrote base k k' []" using prims_written [OF assms(3)] by (simp add: wrote_def)
  moreover have "settable n k'" "static_eq base k'"
    using prims_settable [OF assms(1,3)] static_eq_trans [OF assms(2) static_prims [OF assms(3)]] by auto
  ultimately show ?thesis
    unfolding outputs_def using renders_skip [OF assms(4)] by (intro conjI exI [of _ "[]"]) auto
qed

lemmas outputs_none = outputs_skip [where ls = "[]", simplified]

section \<open>The entries\<close>

definition quiet_menus :: "string \<Rightarrow> kstate \<Rightarrow> bool" where
  "quiet_menus cfg k \<longleftrightarrow> (\<forall>m p. m_prompt (menus k m) = Some p \<longrightarrow>
     quiet_comment cfg (str_text (p_text (props k p))) \<and> quiet_comment cfg (''end of '' @ str_text (p_text (props k p))))"

text \<open>What the steps of the walk need of the state they start in.\<close>

definition ready :: "nat \<Rightarrow> kstate \<Rightarrow> kstate \<Rightarrow> bool" where
  "ready n base k \<longleftrightarrow> settable n k \<and> static_eq base k"

lemma ready_card: "ready n base k \<Longrightarrow> wf_state k \<and> finite (invalid k) \<and> card (invalid k) < n"
  using card_mono [of "invalid k \<union> set (sym_table k)" "invalid k"] by (auto simp: ready_def settable_def)

lemma visible_outputs:
  assumes "ready n base k" "tree_ok (menus base) t" "height t \<le> d" "entry t = m"
  shows "returns True (menu_is_visible d (sym_calc_value n) m k)
     (\<lambda>(v, k'). outputs cfg n base k '''' k' \<and> (v \<longrightarrow> m_prompt (menus base m) \<noteq> None))"
proof -
  have "tree_ok (menus k) t" using assms(1,2) tree_links(1) [OF static_eqD(2)] by (auto simp: ready_def)
  with ready_card [OF assms(1)] assms(3,4)
  have "returns True (menu_is_visible d (sym_calc_value n) m k)
     (\<lambda>(v, k'). prim\<^sup>*\<^sup>* k k' \<and> (v \<longrightarrow> m_prompt (menus k m) \<noteq> None))"
    by (intro returns_mono [OF menu_is_visible_total [of k n t d m]]) auto
  then show ?thesis
    by (rule returns_mono)
       (use assms(1) in \<open>auto simp: ready_def static_eqD intro: outputs_none\<close>)
qed

lemma outputs_ready: "outputs cfg n base k x k' \<Longrightarrow> ready n base k'"
  by (simp add: outputs_def ready_def)

lemma prompt_text:
  "static_eq base k \<Longrightarrow> m_prompt (menus base m) = Some p \<Longrightarrow> menu_get_prompt k m = p_text (props base p)"
  by (simp add: menu_get_prompt_def static_eqD)

lemma comment_outputs:
  assumes "outputs cfg n base k '''' k'" "\<forall>l \<in> set ls. clean_line l \<and> conf_read_line cfg l = Skip_line"
  shows "outputs cfg n base k (join_lines ls) k'"
proof -
  have "outputs cfg n base k' (join_lines ls) k'"
    using assms(1) by (intro outputs_skip assms(2)) (simp_all add: outputs_def)
  from outputs_append [OF assms(1) this] show ?thesis by simp
qed

lemma symbol_outputs:
  assumes r: "ready n base k" and k1: "sym_calc_value n a k = Some k1" and w: "SYMBOL_WRITE \<in> s_flags (syms k1 a)"
    and "SYMBOL_WRITTEN \<notin> s_flags (syms k a)"
  shows "outputs cfg n base k ((if nl then ''\<newline>'' else '''')
      @ print_symbol_for_dotconfig cfg (syms (set_flag a SYMBOL_WRITTEN k1) a)) (set_flag a SYMBOL_WRITTEN k1)"
proof -
  let ?k = "set_flag a SYMBOL_WRITTEN k1" and ?y = "syms (set_flag a SYMBOL_WRITTEN k1) a"
  have p: "prim\<^sup>*\<^sup>* k k1" using k1 by (rule sym_calc_value_prims)
  from r p have o: "outputs cfg n base k '''' k1" by (auto simp: ready_def intro: outputs_none)
  then have s1: "settable n k1" "static_eq base k1" by (simp_all add: outputs_def)
  have "set_eq k1 ?k" "invalid ?k = invalid k1" by (auto simp: set_eq_def set_flag_def invalid_def)
  with settable_set_eq [OF s1(1)] have settable: "settable n ?k" by simp
  have static: "static_eq base ?k" using s1(2) by (auto simp: static_eq_def set_flag_def)
  have flags: "SYMBOL_WRITE \<in> s_flags ?y" "SYMBOL_VALID \<in> s_flags ?y"
    using w sym_calc_value_valid [OF k1] by (simp_all add: set_flag_def)
  have "written ?k = insert a (written k)" using prims_written [OF p] by (auto simp: written_def set_flag_def)
  then have wr: "wrote base k1 ?k [(a, ?y)]"
    using assms(4) flags static prims_written [OF p] by (auto simp: wrote_def written_def static_eqD)
  have ty: "s_type ?y = s_type (syms base a)" using static by (simp add: static_eqD)
  have "outputs cfg n base k1 (print_symbol_for_dotconfig cfg ?y) ?k"
    unfolding outputs_def using settable static wr renders_symbol [OF _ ty] by fastforce
  moreover have "outputs cfg n base k (join_lines (if nl then [''''] else [])) k1"
    by (rule comment_outputs [OF o]) simp
  ultimately show ?thesis using outputs_append by fastforce
qed

lemma entry_outputs:
  assumes r: "ready n base k" and q: "quiet_menus cfg base"
    and t: "tree_ok (menus base) t" "height t \<le> d" "entry t = m"
  shows "returns True (conf_write_entry d (sym_calc_value n) cfg m (nl, k)) (\<lambda>(x, s). outputs cfg n base k x (snd s))"
proof (cases "m_sym (menus k m)")
  case None
  show ?thesis
    unfolding conf_write_entry_def case_prod_conv None option.case
  proof (rule returns_bind [OF visible_outputs [OF r t, of cfg]], goal_cases)
    case (1 vk)
    obtain v k' where vk: "vk = (v, k')" by (cases vk)
    show ?case
    proof (cases v)
      case True
      with 1 vk obtain p where p: "m_prompt (menus base m) = Some p" and o: "outputs cfg n base k '''' k'" by auto
      let ?t = "str_text (p_text (props base p))"
      have "quiet_comment cfg ?t" using q p by (simp add: quiet_menus_def)
      then have "outputs cfg n base k (join_lines ['''', ''#'', ''# '' @ ?t, ''#'']) k'"
        by (intro comment_outputs [OF o]) (simp add: quiet_comment_def)
      moreover have "menu_get_prompt k' m = p_text (props base p)"
        using o p by (simp add: outputs_def prompt_text)
      ultimately show ?thesis using True by (simp add: vk)
    qed (use 1 vk in auto)
  qed
next
  case (Some a)
  have none: "outputs cfg n base k '''' k" using r by (auto simp: ready_def intro: outputs_none)
  show ?thesis
  proof (cases "sym_is_choice (syms k a) \<or> SYMBOL_WRITTEN \<in> s_flags (syms k a)")
    case True
    with none show ?thesis by (simp add: conf_write_entry_def Some)
  next
    case False
    obtain k1 where k1: "sym_calc_value n a k = Some k1"
      using ready_card [OF r] sym_calc_value_total [of k n a] by blast
    have "prim\<^sup>*\<^sup>* k k1" using k1 by (rule sym_calc_value_prims)
    then have "outputs cfg n base k '''' k1" using r by (auto simp: ready_def intro: outputs_none)
    with symbol_outputs [OF r k1, of cfg nl] False show ?thesis
      by (auto simp: conf_write_entry_def Some k1 Let_def)
  qed
qed

lemma end_outputs:
  assumes r: "ready n base k" and q: "quiet_menus cfg base"
    and t: "tree_ok (menus base) t" "height t \<le> d" "entry t = m"
  shows "returns True (conf_write_end d (sym_calc_value n) m (nl, k)) (\<lambda>(x, s). outputs cfg n base k x (snd s))"
proof (cases "m_sym (menus k m)")
  case None
  show ?thesis
    unfolding conf_write_end_def case_prod_conv None
  proof (simp, rule returns_bind [OF visible_outputs [OF r t, of cfg]], goal_cases)
    case (1 vk)
    obtain v k' where vk: "vk = (v, k')" by (cases vk)
    show ?case
    proof (cases "v \<and> m \<noteq> rootmenu")
      case True
      with 1 vk obtain p where p: "m_prompt (menus base m) = Some p" and o: "outputs cfg n base k '''' k'" by auto
      let ?t = "str_text (p_text (props base p))"
      have "quiet_comment cfg (''end of '' @ ?t)" using q p by (simp add: quiet_menus_def)
      then have "outputs cfg n base k (join_lines [''# '' @ ''end of '' @ ?t]) k'"
        by (intro comment_outputs [OF o]) (simp add: quiet_comment_def)
      moreover have st: "static_eq base k'" using o by (simp add: outputs_def)
      have "menu_get_prompt k' m = p_text (props base p)" "m_prompt (menus k' m) = Some p"
        using p prompt_text [OF st p] by (simp_all add: static_eqD [OF st])
      ultimately show ?thesis using True o by (simp add: vk)
    qed (use 1 vk in auto)
  qed
next
  case (Some a)
  with r show ?thesis by (auto simp: conf_write_end_def ready_def intro: outputs_none)
qed

section \<open>The walk\<close>

text \<open>What follows an entry whose sub-entries are done.\<close>

definition after_entry :: "nat \<Rightarrow> calc \<Rightarrow> string \<Rightarrow> mid \<Rightarrow> wstate \<Rightarrow> (string \<times> wstate) option" where
  "after_entry d calc cfg m s =
     Option.bind (conf_write_up d calc m s) (\<lambda>(t, n, s).
       Option.bind (conf_write_walk d calc cfg n s) (\<lambda>(t', s). Some (t @ t', s)))"

lemma walk_None: "conf_write_walk d calc cfg None s = Some ('''', s)"
  by (subst conf_write_walk.simps) simp

lemma walk_Some:
  "conf_write_walk d calc cfg (Some m) s =
     Option.bind (conf_write_entry d calc cfg m s) (\<lambda>(t, s).
       Option.bind (case m_list (menus (snd s) m) of
           Some n \<Rightarrow> conf_write_walk d calc cfg (Some n) s | None \<Rightarrow> after_entry d calc cfg m s)
         (\<lambda>(t', s). Some (t @ t', s)))"
  by (subst conf_write_walk.simps)
     (auto simp: after_entry_def bind_assoc split: option.split prod.split intro!: arg_cong [where f = "Option.bind _"] ext)

lemma after_entry_rec:
  "after_entry d calc cfg m s =
     Option.bind (conf_write_end d calc m s) (\<lambda>(t, s).
       Option.bind (case m_next (menus (snd s) m) of
           Some n \<Rightarrow> conf_write_walk d calc cfg (Some n) s
         | None \<Rightarrow> (case m_parent (menus (snd s) m) of None \<Rightarrow> Some ('''', s) | Some p \<Rightarrow> after_entry d calc cfg p s))
         (\<lambda>(t', s). Some (t @ t', s)))"
  unfolding after_entry_def
  by (subst conf_write_up.simps)
     (auto simp: bind_assoc walk_None split: option.split prod.split intro!: arg_cong [where f = "Option.bind _"] ext)

definition gives :: "string \<Rightarrow> nat \<Rightarrow> kstate \<Rightarrow> (wstate \<Rightarrow> (string \<times> wstate) option) \<Rightarrow> bool" where
  "gives cfg n base f \<longleftrightarrow> (\<forall>nl k. ready n base k \<longrightarrow> returns True (f (nl, k)) (\<lambda>(x, s). outputs cfg n base k x (snd s)))"

lemma gives_bind:
  assumes "returns True r (\<lambda>(x, s). outputs cfg n base k x (snd s))"
    and "\<And>s. ready n base (snd s) \<Longrightarrow> returns True (g s) (\<lambda>(x, s'). outputs cfg n base (snd s) x (snd s'))"
  shows "returns True (Option.bind r (\<lambda>(t, s). Option.bind (g s) (\<lambda>(t', s'). Some (t @ t', s'))))
    (\<lambda>(x, s). outputs cfg n base k x (snd s))"
proof (rule returns_bind [OF assms(1)], goal_cases)
  case (1 xs)
  obtain x s where xs: "xs = (x, s)" by (cases xs)
  with 1 have o: "outputs cfg n base k x (snd s)" by simp
  show ?case
    unfolding xs case_prod_conv
    by (rule returns_bind [OF assms(2) [OF outputs_ready [OF o]]]) (auto intro: outputs_append [OF o])
qed

lemma gives_apply: "gives cfg n base f \<Longrightarrow> ready n base (snd s) \<Longrightarrow> returns True (f s) (\<lambda>(x, s'). outputs cfg n base (snd s) x (snd s'))"
  by (cases s) (simp add: gives_def)

lemma ready_links: "ready n base k \<Longrightarrow> m_list (menus k m) = m_list (menus base m) \<and> m_next (menus k m) = m_next (menus base m)
    \<and> m_parent (menus k m) = m_parent (menus base m)"
  by (simp add: ready_def static_eq_def menu_linksD)

lemma after_gives:
  assumes "quiet_menus cfg base" "tree_ok (menus base) t" "height t \<le> d" "entry t = m"
    and next_m: "m_next (menus base m) = first_entry ts" "m_parent (menus base m) = q"
    and "ts \<noteq> [] \<Longrightarrow> gives cfg n base (conf_write_walk d (sym_calc_value n) cfg (first_entry ts))"
    and "ts = [] \<Longrightarrow> q \<noteq> None \<Longrightarrow> gives cfg n base (after_entry d (sym_calc_value n) cfg (the q))"
  shows "gives cfg n base (after_entry d (sym_calc_value n) cfg m)"
  unfolding gives_def
proof (intro allI impI)
  fix nl k assume r: "ready n base k"
  show "returns True (after_entry d (sym_calc_value n) cfg m (nl, k)) (\<lambda>(x, s). outputs cfg n base k x (snd s))"
  proof (subst after_entry_rec, rule gives_bind [OF end_outputs [OF r assms(1-4)]], goal_cases)
    case (1 s)
    have none: "outputs cfg n base (snd s) '''' (snd s)" using 1 by (auto simp: ready_def intro: outputs_none)
    show ?case
      using assms(7,8) next_m 1 none
      by (cases ts; cases q) (auto simp: ready_links [OF 1] intro: gives_apply)
  qed
qed

lemma walk_gives:
  "quiet_menus cfg base \<Longrightarrow> tree_ok (menus base) t \<Longrightarrow> height t \<le> d \<Longrightarrow>
     gives cfg n base (after_entry d (sym_calc_value n) cfg (entry t)) \<Longrightarrow>
     gives cfg n base (conf_write_walk d (sym_calc_value n) cfg (Some (entry t)))"
  "quiet_menus cfg base \<Longrightarrow> forest_ok (menus base) p ts \<Longrightarrow> forest_height ts \<le> d \<Longrightarrow> ts \<noteq> [] \<Longrightarrow>
     gives cfg n base (after_entry d (sym_calc_value n) cfg p) \<Longrightarrow>
     gives cfg n base (conf_write_walk d (sym_calc_value n) cfg (first_entry ts))"
proof (induction t and ts arbitrary: and p rule: height_forest_height.induct)
  case (1 m ts)
  have list: "m_list (menus base m) = first_entry ts" and f: "forest_ok (menus base) m ts"
    and h: "forest_height ts \<le> d" using 1 by auto
  show ?case
    unfolding gives_def
  proof (intro allI impI)
    fix nl k assume r: "ready n base k"
    show "returns True (conf_write_walk d (sym_calc_value n) cfg (Some (entry (MNode m ts))) (nl, k))
      (\<lambda>(x, s). outputs cfg n base k x (snd s))"
    proof (subst walk_Some, rule gives_bind [OF entry_outputs [OF r "1.prems"(1-3)]], goal_cases)
      case (2 s)
      show ?case
      proof (cases ts)
        case Nil
        with list "1.prems"(4) 2 show ?thesis by (simp add: ready_links [OF 2] gives_apply)
      next
        case (Cons u us)
        with "1.IH" [of m] 1 f h have "gives cfg n base (conf_write_walk d (sym_calc_value n) cfg (first_entry ts))"
          by simp
        with list Cons 2 show ?thesis by (simp add: ready_links [OF 2] gives_apply)
      qed
    qed simp
  qed
next
  case (3 t ts)
  have t: "tree_ok (menus base) t" "height t \<le> d" using 3 by auto
  have "gives cfg n base (after_entry d (sym_calc_value n) cfg (entry t))"
  proof (rule after_gives [OF "3.prems"(1) t refl])
    show "m_next (menus base (entry t)) = first_entry ts" "m_parent (menus base (entry t)) = Some p"
      using 3 by auto
    show "gives cfg n base (conf_write_walk d (sym_calc_value n) cfg (first_entry ts))" if "ts \<noteq> []"
      by (rule "3.IH"(2) [OF "3.prems"(1) _ _ that]) (use "3.prems" in auto)
    show "gives cfg n base (after_entry d (sym_calc_value n) cfg (the (Some p)))"
      using 3 by simp
  qed
  with "3.IH"(1) 3 t show ?case by simp
qed simp

section \<open>The file\<close>

lemma static_all_symbols:
  assumes "\<And>y. f (f y) = f y"
    and "\<And>y. s_name (f y) = s_name y" "\<And>y. s_type (f y) = s_type y"
    and "\<And>y. SYMBOL_CONST \<in> s_flags (f y) \<longleftrightarrow> SYMBOL_CONST \<in> s_flags y"
  shows "static_eq k (all_symbols f k)"
  by (simp add: static_eq_def all_symbols_syms [OF assms(1)] assms(2-4))

lemma clear_all_valid_ready:
  assumes "settable n k"
  obtains k' where "sym_clear_all_valid (sym_calc_value n) k = Some k'" "ready n k k'"
proof -
  obtain k' where k': "sym_clear_all_valid (sym_calc_value n) k = Some k'"
    using clear_all_valid_total [OF assms] by blast
  let ?f = "all_symbols (del_flags {SYMBOL_VALID}) k"
  let ?s = "(expr_invalidate_all ?f)\<lparr>conf_changed := True\<rparr>"
  have p: "prim\<^sup>*\<^sup>* ?s k'"
    using k' by (intro sym_calc_value_prims) (simp add: sym_clear_all_valid_def all_symbols_def Let_def)
  have f: "set_eq k ?f" "invalid ?f = invalid k \<union> set (sym_table k)"
    using clear_valid_sel(5) [of "sym_table k" k] clear_valid_sel(6) [of k "sym_table k"] by (simp_all add: all_symbols_def)
  have "set_eq ?f ?s" by (simp add: set_eq_def expr_invalidate_all_def)
  with f(1) have e: "set_eq k ?s" by (rule set_eq_trans)
  have "invalid ?s = invalid ?f" "sym_table ?s = sym_table k" by (simp_all add: invalid_def expr_invalidate_all_def)
  with assms f(2) set_eq_wf [OF e] have "settable n ?s"
    by (simp add: settable_def Un_assoc)
  then have "settable n k'" using p by (rule prims_settable)
  moreover have "static_eq k ?f" by (rule static_all_symbols) (auto simp: del_valid_twice)
  then have "static_eq k ?s" by (simp add: static_eq_def expr_invalidate_all_def)
  then have "static_eq k k'" using static_prims [OF p] by (rule static_eq_trans)
  ultimately show thesis using that k' by (simp add: ready_def)
qed

lemma walk_all_gives:
  assumes "menu_tree base t" "height t \<le> d" "quiet_menus cfg base"
  shows "gives cfg n base (conf_write_walk d (sym_calc_value n) cfg (m_list (menus base rootmenu)))"
proof -
  obtain ts where t: "t = MNode rootmenu ts" using assms(1) by (cases t) (auto simp: menu_tree_def)
  have tree: "tree_ok (menus base) t" "m_next (menus base rootmenu) = None" "m_parent (menus base rootmenu) = None"
    using assms(1) by (simp_all add: menu_tree_def)
  have "gives cfg n base (after_entry d (sym_calc_value n) cfg rootmenu)"
    by (rule after_gives [OF assms(3) tree(1) assms(2), where ts = "[]" and q = None]) (use t tree in simp_all)
  moreover have "forest_ok (menus base) rootmenu ts" "m_list (menus base rootmenu) = first_entry ts" "forest_height ts \<le> d"
    using tree assms(2) t by auto
  ultimately show ?thesis
    using walk_gives(2) [OF assms(3), of rootmenu ts d n]
    by (cases "ts = []") (auto simp: gives_def walk_None ready_def intro: outputs_none)
qed

theorem conf_write_text_result:
  assumes s: "settable n (ks c)" and t: "menu_tree (ks c) t" "height t \<le> d"
    and q: "quiet_menus (CONFIG_prefix (environ c)) (ks c)" "quiet_heading (CONFIG_prefix (environ c)) (ks c)"
  obtains x c' ys where "conf_write_text d (sym_calc_value n) c = Some (x, c')" "environ c' = environ c"
    "fs c' = fs c" "static_eq (ks c) (ks c')" "wf_state (ks c')" "distinct (map fst ys)"
    "\<And>a y. (a, y) \<in> set ys \<Longrightarrow> SYMBOL_WRITE \<in> s_flags y \<and> SYMBOL_VALID \<in> s_flags y \<and> s_name y = s_name (syms (ks c) a)
        \<and> s_type y = s_type (syms (ks c) a)"
    "(\<And>a y. (a, y) \<in> set ys \<Longrightarrow> dot_printable (CONFIG_prefix (environ c)) (ks c) a y) \<Longrightarrow>
        renders (CONFIG_prefix (environ c)) (ks c) x ys"
proof -
  let ?cfg = "CONFIG_prefix (environ c)" and ?calc = "sym_calc_value n"
  obtain p where p: "m_prompt (menus (ks c) rootmenu) = Some p"
    using q(2) by (auto simp: quiet_heading_def split: option.splits)
  let ?h = "join_lines (heading_lines (str_text (p_text (props (ks c) p))))"
  have h: "conf_write_heading (ks c) (Some comment_style_pound) = Some ?h" by (simp add: heading_text p)
  have "\<forall>l \<in> set (heading_lines (str_text (p_text (props (ks c) p)))). clean_line l \<and> conf_read_line ?cfg l = Skip_line"
    using q(2) p by (intro heading_quiet) (simp_all add: quiet_heading_def)
  then have rh: "renders ?cfg (ks c) ?h []" by (rule renders_skip)
  obtain c1 where c1: "(if conf_get_changed c then Some c else clear_all_valid ?calc c) = Some c1"
    "ready n (ks c) (ks c1)" "environ c1 = environ c" "fs c1 = fs c"
  proof (cases "conf_get_changed c")
    case True
    with that [of c] s show thesis by (simp add: ready_def)
  next
    case False
    have "settable n ((ks c)\<lparr>conf_changed := True\<rparr>)"
      by (rule settable_set_eq [OF s]) (auto simp: set_eq_def invalid_def)
    then obtain k' where k': "sym_clear_all_valid ?calc ((ks c)\<lparr>conf_changed := True\<rparr>) = Some k'"
        "ready n ((ks c)\<lparr>conf_changed := True\<rparr>) k'"
      by (rule clear_all_valid_ready)
    let ?c1 = "(conf_set_changed True c)\<lparr>ks := k'\<rparr>"
    have "clear_all_valid ?calc c = Some ?c1" using k'(1) by (simp add: clear_all_valid_def run_ks_def)
    moreover have "ready n (ks c) k'" using k'(2) by (simp add: ready_def static_eq_def)
    ultimately show thesis using that [of ?c1] False by simp
  qed
  have list: "m_list (menus (ks c1) rootmenu) = m_list (menus (ks c) rootmenu)" using ready_links [OF c1(2)] by simp
  from walk_all_gives [OF t q(1)] c1(2)
  have "returns True (conf_write_walk d ?calc ?cfg (m_list (menus (ks c) rootmenu)) (False, ks c1))
    (\<lambda>(x, s). outputs ?cfg n (ks c) (ks c1) x (snd s))"
    by (simp add: gives_def)
  then obtain x nl k2 where w: "conf_write_walk d ?calc ?cfg (m_list (menus (ks c) rootmenu)) (False, ks c1) = Some (x, nl, k2)"
    and o: "outputs ?cfg n (ks c) (ks c1) x k2"
    by (auto simp: returns_True)
  obtain ys where ys: "wrote (ks c) (ks c1) k2 ys"
    "(\<forall>(a, y) \<in> set ys. dot_printable ?cfg (ks c) a y) \<longrightarrow> renders ?cfg (ks c) x ys"
    and k2: "settable n k2" "static_eq (ks c) k2"
    using o by (auto simp: outputs_def)
  let ?c' = "on_ks (all_symbols (del_flags {SYMBOL_WRITTEN})) (c1\<lparr>ks := k2\<rparr>)"
  have "static_eq k2 (ks ?c')" by (simp, rule static_all_symbols) (auto simp: del_valid_twice)
  then have st: "static_eq (ks c) (ks ?c')" by (rule static_eq_trans [OF k2(2)])
  have "set_eq k2 (ks ?c')"
    by (simp add: set_eq_def all_symbols_syms [OF del_valid_twice])
  then have wf: "wf_state (ks ?c')" using set_eq_wf k2(1) by (auto simp: settable_def)
  have r: "conf_write_text d ?calc c = Some (?h @ x, ?c')"
    by (simp add: conf_write_text_def h c1(1,3) run_ks_value_def list w)
  have pr: "renders ?cfg (ks c) (?h @ x) ys" if "\<And>a y. (a, y) \<in> set ys \<Longrightarrow> dot_printable ?cfg (ks c) a y"
    using renders_append [OF rh, of x ys] ys(2) that by auto
  have facts: "distinct (map fst ys)"
    "\<And>a y. (a, y) \<in> set ys \<Longrightarrow> SYMBOL_WRITE \<in> s_flags y \<and> SYMBOL_VALID \<in> s_flags y \<and> s_name y = s_name (syms (ks c) a)
        \<and> s_type y = s_type (syms (ks c) a)"
    using ys(1) unfolding wrote_def by fast+
  show thesis
    by (rule that [OF r _ _ st wf facts pr]) (use c1(3,4) in simp_all)
qed

text \<open>What is read from such a text.\<close>

lemma renders_last_value:
  assumes "renders cfg k x ys" "distinct (map fst ys)"
  shows "last_value k S_DEF_USER cfg (file_lines x) a = map_option saved_value (map_of ys a)"
proof -
  obtain ls where ls: "x = join_lines ls" "\<And>l. l \<in> set ls \<Longrightarrow> line_listed cfg k (set ys) l"
    "\<And>ay. ay \<in> set ys \<Longrightarrow> has_line cfg k (set ls) ay"
    using assms(1) unfolding renders_def by blast
  have "file_lines x = ls" unfolding ls(1) by (rule file_lines_join) (use ls(2) in \<open>auto simp: line_listed_def\<close>)
  moreover have "last_value k S_DEF_USER cfg ls a = map_option saved_value (map_of ys a)"
  proof (cases "map_of ys a")
    case None
    then have no: "(a, y) \<notin> set ys" for y by (auto simp: map_of_eq_None_iff image_iff)
    have "line_value k S_DEF_USER cfg a l = None" if "l \<in> set ls" for l
      using ls(2) [OF that] no by (auto simp: line_listed_def)
    then have "last_value k S_DEF_USER cfg ls a = None"
      by (subst last_value_unique [where v = "Set_tri tri_no"]) auto
    with None show ?thesis by simp
  next
    case (Some y)
    then have y: "(a, y) \<in> set ys" by (rule map_of_SomeD)
    have "line_value k S_DEF_USER cfg a l = None \<or> line_value k S_DEF_USER cfg a l = Some (saved_value y)" if "l \<in> set ls" for l
    proof -
      from ls(2) [OF that] have "\<forall>a. line_value k S_DEF_USER cfg a l = None
          \<or> (\<exists>z. (a, z) \<in> set ys \<and> line_value k S_DEF_USER cfg a l = Some (saved_value z))"
        by (simp add: line_listed_def)
      then have "line_value k S_DEF_USER cfg a l = None
          \<or> (\<exists>z. (a, z) \<in> set ys \<and> line_value k S_DEF_USER cfg a l = Some (saved_value z))" ..
      then show ?thesis
        using y assms(2) by (auto dest: eq_key_imp_eq_value)
    qed
    then have "last_value k S_DEF_USER cfg ls a =
        (if Some (saved_value y) \<in> line_value k S_DEF_USER cfg a ` set ls then Some (saved_value y) else None)"
      by (rule last_value_unique)
    moreover have "Some (saved_value y) \<in> line_value k S_DEF_USER cfg a ` set ls"
      using ls(3) [OF y] by (force simp: has_line_def)
    ultimately show ?thesis using Some by simp
  qed
  ultimately show ?thesis by simp
qed

end
