(* ===== verification/ConfSafe.thy ===== *)
theory ConfSafe
  imports ConfWrite
begin

text \<open>
  What writing does to the files: \<open>make_parent_dir\<close> creates the directories of a path and
  nothing else, and \<open>conf_write\<close> does not lose the old configuration.
\<close>

section \<open>Directories\<close>

lemma split_at_Some: "split_at x s = Some (a, b) \<longleftrightarrow> s = a @ x # b \<and> x \<notin> set a"
proof
  assume r: "split_at x s = Some (a, b)"
  then obtain c where c: "dropWhile (\<lambda>d. d \<noteq> x) s = c # b" "a = takeWhile (\<lambda>d. d \<noteq> x) s"
    by (auto simp: split_at_def split: list.splits)
  then have "c = x" using hd_dropWhile [of "\<lambda>d. d \<noteq> x" s] by simp
  with c takeWhile_dropWhile_id [of "\<lambda>d. d \<noteq> x" s] show "s = a @ x # b \<and> x \<notin> set a"
    by (auto dest: set_takeWhileD)
qed (auto simp: split_at_append)

lemma split_at_None: "split_at x s = None \<longleftrightarrow> x \<notin> set s"
proof -
  have "split_at x s = None \<longleftrightarrow> dropWhile (\<lambda>d. d \<noteq> x) s = []"
    by (auto simp: split_at_def simp del: dropWhile_eq_Nil_conv split: list.split)
  also have "\<dots> \<longleftrightarrow> (\<forall>d \<in> set s. d \<noteq> x)" by (rule dropWhile_eq_Nil_conv)
  finally show ?thesis by blast
qed

text \<open>The proper prefixes of a path, and those that name a directory in it.\<close>

definition path_prefix :: "string \<Rightarrow> string \<Rightarrow> bool" where
  "path_prefix p path \<longleftrightarrow> (\<exists>q. q \<noteq> [] \<and> path = p @ q)"

definition dir_of :: "string \<Rightarrow> string \<Rightarrow> bool" where
  "dir_of p path \<longleftrightarrow> p \<noteq> [] \<and> last p \<noteq> slash \<and> (\<exists>q. path = p @ slash # q)"

definition only_dirs :: "os \<Rightarrow> string \<Rightarrow> conf_state \<Rightarrow> conf_state \<Rightarrow> bool" where
  "only_dirs w path c c' \<longleftrightarrow> (\<exists>D. c' = c\<lparr>fs := (fs c)\<lparr>dirs := dirs (fs c) \<union> D\<rparr>\<rparr> \<and> D \<subseteq> {resolve w p |p. path_prefix p path})"

lemma only_dirs_refl: "only_dirs w path c c"
  unfolding only_dirs_def by (rule exI [of _ "{}"]) simp

lemma only_dirs_trans: "only_dirs w path c c' \<Longrightarrow> only_dirs w path c' c'' \<Longrightarrow> only_dirs w path c c''"
  unfolding only_dirs_def by (elim exE, rule_tac x = "D \<union> Da" in exI) (auto simp: Un_assoc)

lemma make_dir_result:
  assumes "make_dir w p c = Some c'" "path_prefix p path"
  shows "only_dirs w path c c'" and "is_dir w p c'"
proof -
  have c': "c' = c\<lparr>fs := (fs c)\<lparr>dirs := insert (resolve w p) (dirs (fs c))\<rparr>\<rparr>"
    using assms(1) by (simp add: make_dir_def split: if_splits)
  then show "is_dir w p c'" by (simp add: is_dir_def)
  show "only_dirs w path c c'"
    unfolding only_dirs_def by (rule exI [of _ "{resolve w p}"]) (use assms(2) in \<open>auto simp: c'\<close>)
qed

lemma only_dirs_is_dir: "only_dirs w path c c' \<Longrightarrow> is_dir w p c \<Longrightarrow> is_dir w p c'"
  by (auto simp: only_dirs_def is_dir_def)

lemma make_dirs_result:
  "make_dirs w before rest c = (b, c') \<Longrightarrow> rest = [] \<or> hd rest \<noteq> slash \<Longrightarrow> before = [] \<or> last before = slash \<Longrightarrow>
   only_dirs w (before @ rest) c c'
   \<and> (b \<longrightarrow> (\<forall>p. dir_of p (before @ rest) \<longrightarrow> length before < length p \<longrightarrow> is_dir w p c'))"
proof (induction w before rest c rule: make_dirs.induct)
  case (1 w before rest c)
  show ?case
  proof (cases "split_at slash rest")
    case None
    then have "slash \<notin> set rest" by (simp add: split_at_None)
    moreover have "(b, c') = (True, c)" using 1(3) None by (subst (asm) make_dirs.simps) simp
    moreover have False if p: "dir_of p (before @ rest)" "length before < length p" "slash \<notin> set rest" for p
    proof -
      obtain q where "before @ rest = p @ slash # q" using p(1) unfolding dir_of_def by blast
      then have "\<exists>us. rest = us @ slash # q" using p(2) by (auto simp: append_eq_append_conv2)
      with p(3) show False by auto
    qed
    ultimately show ?thesis by (auto intro: only_dirs_refl)
  next
    case (Some nr)
    obtain name r where nr: "nr = (name, r)" by (cases nr)
    with Some have rest: "rest = name @ slash # r" "slash \<notin> set name" by (simp_all add: split_at_Some)
    define dir where "dir = before @ name"
    define slashes where "slashes = slash # takeWhile (\<lambda>d. d = slash) r"
    define rest' where "rest' = dropWhile (\<lambda>d. d = slash) r"
    have ne: "name \<noteq> []" using rest 1(4) by (cases name) auto
    have last: "last dir \<noteq> slash" using ne rest(2) by (auto simp: dir_def dest: last_in_set)
    have all: "before @ rest = (dir @ slashes) @ rest'"
      by (simp add: rest(1) dir_def slashes_def rest'_def)
    have pre: "path_prefix dir (before @ rest)" unfolding path_prefix_def all by (rule exI [of _ "slashes @ rest'"]) (simp add: slashes_def)
    have ok: "rest' = [] \<or> hd rest' \<noteq> slash" "last (dir @ slashes) = slash"
      using hd_dropWhile [of "\<lambda>d. d = slash" r] by (auto simp: rest'_def slashes_def dest: set_takeWhileD last_in_set)
    have step: "make_dirs w before rest c =
        (if is_dir w dir c then make_dirs w (dir @ slashes) rest' c
         else case make_dir w dir c of None \<Rightarrow> (False, c) | Some c \<Rightarrow> make_dirs w (dir @ slashes) rest' c)"
      by (subst make_dirs.simps) (simp add: Some nr dir_def slashes_def rest'_def Let_def split: option.split)
    have between: "p = dir \<or> length (dir @ slashes) < length p"
      if p: "dir_of p (before @ rest)" "length before < length p" for p
    proof -
      obtain q where q: "p \<noteq> []" "last p \<noteq> slash" "(dir @ slashes) @ rest' = p @ slash # q"
        using p(1) unfolding dir_of_def all by blast
      show ?thesis
      proof (rule ccontr)
        assume n: "\<not> ?thesis"
        consider "length p < length dir" | "length dir < length p" "length p \<le> length (dir @ slashes)"
          using n q(3) by (cases "length p = length dir") (auto simp: append_eq_append_conv2 not_less)
        then show False
        proof cases
          case 1
          then obtain vs where vs: "dir = p @ vs" "vs \<noteq> []" "vs @ slashes @ rest' = slash # q"
            using q(3) by (auto simp: append_eq_append_conv2)
          then obtain us where "dir = p @ slash # us" by (cases vs) auto
          then have "name = drop (length before) p @ slash # us"
            using p(2) by (auto simp: dir_def append_eq_append_conv2)
          with rest(2) show False by auto
        next
          case 2
          then obtain us where us: "p = dir @ us" "us \<noteq> []" "length us \<le> length slashes"
            using q(3) by (auto simp: append_eq_append_conv2)
          with q(3) have "us = take (length us) slashes" by (simp add: append_eq_append_conv2) (metis append_eq_conv_conj take_append take_all diff_is_0_eq take0 append_Nil2)
          then have "set us \<subseteq> set slashes" by (metis set_take_subset)
          moreover have "set slashes \<subseteq> {slash}" by (auto simp: slashes_def dest: set_takeWhileD)
          ultimately have "last us = slash" using us(2) last_in_set by blast
          with us q(2) show False by simp
        qed
      qed
    qed
    have finish: ?thesis
      if m: "make_dirs w (dir @ slashes) rest' c1 = (b, c')" and d: "is_dir w dir c1" and o: "only_dirs w (before @ rest) c c1"
        and ih: "only_dirs w ((dir @ slashes) @ rest') c1 c'
           \<and> (b \<longrightarrow> (\<forall>p. dir_of p ((dir @ slashes) @ rest') \<longrightarrow> length (dir @ slashes) < length p \<longrightarrow> is_dir w p c'))" for c1
    proof -
      have "only_dirs w (before @ rest) c1 c'" using ih by (simp only: all)
      with o d between ih show ?thesis
        unfolding all by (blast intro: only_dirs_trans only_dirs_is_dir)
    qed
    show ?thesis
    proof (cases "is_dir w dir c")
      case True
      with 1(3) step have m: "make_dirs w (dir @ slashes) rest' c = (b, c')" by simp
      have "only_dirs w ((dir @ slashes) @ rest') c c'
           \<and> (b \<longrightarrow> (\<forall>p. dir_of p ((dir @ slashes) @ rest') \<longrightarrow> length (dir @ slashes) < length p \<longrightarrow> is_dir w p c'))"
        using 1(1) [OF Some nr [symmetric] dir_def slashes_def rest'_def True m ok(1)] ok(2) by simp
      with finish [OF m True only_dirs_refl] show ?thesis .
    next
      case False
      show ?thesis
      proof (cases "make_dir w dir c")
        case None
        with 1(3) step False show ?thesis by (auto intro: only_dirs_refl)
      next
        case (Some c1)
        with 1(3) step False have m: "make_dirs w (dir @ slashes) rest' c1 = (b, c')" by simp
        note d = make_dir_result [OF Some pre]
        have "only_dirs w ((dir @ slashes) @ rest') c1 c'
           \<and> (b \<longrightarrow> (\<forall>p. dir_of p ((dir @ slashes) @ rest') \<longrightarrow> length (dir @ slashes) < length p \<longrightarrow> is_dir w p c'))"
          using 1(2) [OF \<open>split_at slash rest = Some nr\<close> nr [symmetric] dir_def slashes_def rest'_def False Some m ok(1)] ok(2) by simp
        with finish [OF m d(2,1)] show ?thesis .
      qed
    qed
  qed
qed

lemma up_to_last_split:
  assumes "up_to_last x s = Some t"
  obtains a q where "t = a @ [x]" "s = a @ x # q" "x \<notin> set q"
proof -
  have x: "x \<in> set (rev s)" and t: "t = rev (dropWhile (\<lambda>d. d \<noteq> x) (rev s))"
    using assms by (auto simp: up_to_last_def split: if_splits)
  obtain y r where r: "dropWhile (\<lambda>d. d \<noteq> x) (rev s) = y # r"
    using x by (cases "dropWhile (\<lambda>d. d \<noteq> x) (rev s)") auto
  then have "y = x" using hd_dropWhile [of "\<lambda>d. d \<noteq> x" "rev s"] by simp
  have "rev s = takeWhile (\<lambda>d. d \<noteq> x) (rev s) @ x # r"
    using takeWhile_dropWhile_id [of "\<lambda>d. d \<noteq> x" "rev s"] r \<open>y = x\<close> by simp
  then have "s = rev r @ x # rev (takeWhile (\<lambda>d. d \<noteq> x) (rev s))"
    by (metis append.assoc append_Cons append_Nil rev.simps(2) rev_append rev_rev_ident)
  moreover have "x \<notin> set (rev (takeWhile (\<lambda>d. d \<noteq> x) (rev s)))" by (auto dest: set_takeWhileD)
  ultimately show thesis
    using t r \<open>y = x\<close> by (intro that [of "rev r" "rev (takeWhile (\<lambda>d. d \<noteq> x) (rev s))"]) simp_all
qed

theorem make_parent_dir_result:
  assumes r: "make_parent_dir w path c = (b, c')"
  shows "only_dirs w path c c'" and "b \<Longrightarrow> length path \<le> PATH_MAX \<Longrightarrow> dir_of p path \<Longrightarrow> is_dir w p c'"
proof -
  have "only_dirs w path c c' \<and> (b \<longrightarrow> length path \<le> PATH_MAX \<longrightarrow> dir_of p path \<longrightarrow> is_dir w p c')"
  proof (cases "up_to_last slash (take PATH_MAX path)")
    case None
    then have "slash \<notin> set (take PATH_MAX path)" by (simp add: up_to_last_def split: if_splits)
    then have "length path \<le> PATH_MAX \<longrightarrow> \<not> dir_of p path" by (auto simp: dir_of_def)
    moreover have "c' = c" using r None by (simp add: make_parent_dir_def)
    ultimately show ?thesis by (simp add: only_dirs_refl)
  next
    case (Some tmp)
    obtain a q where t: "tmp = a @ [slash]" "take PATH_MAX path = a @ slash # q" "slash \<notin> set q"
      by (rule up_to_last_split [OF Some])
    let ?before = "takeWhile (\<lambda>d. d = slash) tmp" and ?rest = "dropWhile (\<lambda>d. d = slash) tmp"
    have "make_dirs w ?before ?rest c = (b, c')" using r Some by (simp add: make_parent_dir_def)
    moreover have "?rest = [] \<or> hd ?rest \<noteq> slash" using hd_dropWhile [of "\<lambda>d. d = slash" tmp] by auto
    moreover have "?before = [] \<or> last ?before = slash" 
      using last_in_set [of ?before] set_takeWhileD [of "last ?before" "\<lambda>d. d = slash" tmp] by blast
    ultimately have m: "only_dirs w tmp c c'"
        "b \<longrightarrow> (\<forall>p. dir_of p tmp \<longrightarrow> length ?before < length p \<longrightarrow> is_dir w p c')"
      using make_dirs_result [of w ?before ?rest c b c'] by auto
    have path: "path = tmp @ q @ drop PATH_MAX path"
      using t(1,2) append_take_drop_id [of PATH_MAX path] by (metis append.assoc append_Cons append_Nil)
    have pre: "path_prefix u path" if u: "path_prefix u tmp" for u
    proof -
      obtain v where "v \<noteq> []" "tmp = u @ v" using u by (auto simp: path_prefix_def)
      then show ?thesis
        unfolding path_prefix_def by (intro exI [of _ "v @ q @ drop PATH_MAX path"]) (metis append.assoc append_is_Nil_conv path)
    qed
    then have "{resolve w p |p. path_prefix p tmp} \<subseteq> {resolve w p |p. path_prefix p path}" by blast
    moreover obtain D where "c' = c\<lparr>fs := (fs c)\<lparr>dirs := dirs (fs c) \<union> D\<rparr>\<rparr>" "D \<subseteq> {resolve w p |p. path_prefix p tmp}"
      using m(1) unfolding only_dirs_def by blast
    ultimately have 1: "only_dirs w path c c'" unfolding only_dirs_def by (intro exI [of _ D]) simp
    have "is_dir w p c'" if b: b and l: "length path \<le> PATH_MAX" and p: "dir_of p path"
    proof -
      obtain s where s: "p \<noteq> []" "last p \<noteq> slash" "path = p @ slash # s" using p unfolding dir_of_def by blast
      have "a @ slash # q = p @ slash # s" using t(2) l s(3) by simp
      then obtain us where us: "a = p @ us" "us @ slash # q = slash # s"
        using t(3) by (auto simp: append_eq_append_conv2 Cons_eq_append_conv)
      then have "\<exists>v. us @ [slash] = slash # v" by (cases us) auto
      then have "dir_of p tmp" using s(1,2) us(1) t(1) by (simp add: dir_of_def)
      moreover have "length ?before < length p"
      proof (rule ccontr)
        assume n: "\<not> length ?before < length p"
        obtain v where "tmp = p @ slash # v" using \<open>dir_of p tmp\<close> unfolding dir_of_def by blast
        then have "?before @ ?rest = p @ slash # v" by simp
        moreover have "\<exists>us. b = p @ us" if "b @ r = p @ slash # v" "\<not> length b < length p" for b r
          using that by (auto simp: append_eq_append_conv2)
        ultimately have "\<exists>us. ?before = p @ us" using n by blast
        then have "set p \<subseteq> set ?before" by (metis Un_upper1 set_append)
        with s(1) have "last p \<in> set ?before" by auto
        with s(2) show False by (auto dest: set_takeWhileD)
      qed
      ultimately show ?thesis using m(2) b by blast
    qed
    with 1 show ?thesis by blast
  qed
  then show "only_dirs w path c c'" "b \<Longrightarrow> length path \<le> PATH_MAX \<Longrightarrow> dir_of p path \<Longrightarrow> is_dir w p c'" by blast+
qed

section \<open>The old configuration\<close>

lemma conf_write_text_fs: "conf_write_text d calc c = Some (t, c') \<Longrightarrow> fs c' = fs c"
  by (auto simp: conf_write_text_def clear_all_valid_def run_ks_def run_ks_value_def bind_eq_Some_conv split: if_splits)

lemma set_file_text: "file_text w p (set_file w q t c) = (if resolve w p = resolve w q then Some t else file_text w p c)"
  by (simp add: file_text_def set_file_def)

lemma file_text_fs: "fs c' = fs c \<Longrightarrow> file_text w p c' = file_text w p c"
  by (simp add: file_text_def)

lemma unlink_text: "file_text w p (unlink_file w q c) = (if resolve w p = resolve w q then None else file_text w p c)"
  by (simp add: file_text_def unlink_file_def)

lemma rename_text:
  assumes "rename_file w p q c = (ok, c')"
  shows "resolve w r \<noteq> resolve w p \<Longrightarrow> resolve w r \<noteq> resolve w q \<Longrightarrow> file_text w r c' = file_text w r c"
    and "ok \<Longrightarrow> file_text w q c' = file_text w p c" and "\<not> ok \<Longrightarrow> c' = c"
  using assms by (auto simp: rename_file_def set_file_text unlink_text split: option.splits if_splits)

lemma only_dirs_text: "only_dirs w path c c' \<Longrightarrow> file_text w p c' = file_text w p c"
  by (auto simp: only_dirs_def file_text_def)

lemma conf_message_text [simp]: "file_text w p (conf_message t c) = file_text w p c"
  by (rule file_text_fs) simp

lemma conf_set_changed_text [simp]: "file_text w p (conf_set_changed v c) = file_text w p c"
  by (rule file_text_fs) simp

lemma eprint_text [simp]: "file_text w p (eprint t c) = file_text w p c"
  by (simp add: eprint_def file_text_def)

lemma replace_keeps:
  assumes r: "conf_write_replace w name tmp c = (r, c')" and old: "old = take PATH_MAX (name @ ''.old'')"
    and apart: "resolve w name \<noteq> resolve w tmp" "resolve w old \<noteq> resolve w tmp" "resolve w name \<noteq> resolve w old"
    and t: "file_text w name c = Some t"
    and may: "may_rename w (fs c) (resolve w name) (resolve w old)" "resolve w old \<notin> dirs (fs c)"
  shows "file_text w name c' = Some t \<or> file_text w old c' = Some t"
proof (cases "is_same w name tmp c")
  case True
  with r t apart show ?thesis by (auto simp: conf_write_replace_def unlink_text)
next
  case False
  obtain ok1 c1 where 1: "rename_file w name old c = (ok1, c1)" by fastforce
  obtain ok2 c2 where 2: "rename_file w tmp name c1 = (ok2, c2)" by fastforce
  have "ok1" using 1 t may by (simp add: rename_file_def split: if_splits)
  with rename_text(2) [OF 1] t have "file_text w old c1 = Some t" by simp
  then have "file_text w old c2 = Some t" using rename_text(1) [OF 2, of old] apart by simp
  with r False show ?thesis
    by (auto simp: conf_write_replace_def old [symmetric] 1 2 Let_def simp del: take_append split: if_splits)
qed

theorem conf_write_keeps:
  assumes r: "conf_write w d calc (Some name) c = Some (r, c')"
    and env: "environ c ''KCONFIG_OVERWRITECONFIG'' = None"
    and names: "old = take PATH_MAX (name @ ''.old'')" "tmp = take PATH_MAX (name @ ''.'' @ int_text (getpid w) @ ''.tmp'')"
    and apart: "resolve w name \<noteq> resolve w tmp" "resolve w old \<noteq> resolve w tmp" "resolve w name \<noteq> resolve w old"
    and t: "file_text w name c = Some t"
    and may: "\<And>f. may_rename w f (resolve w name) (resolve w old)" "resolve w old \<notin> dirs (fs c)"
      "\<And>p. path_prefix p name \<Longrightarrow> resolve w p \<noteq> resolve w old"
  shows "file_text w name c' = Some t \<or> file_text w old c' = Some t"
proof (cases "name = [] \<or> is_dir w name c")
  case True
  with r t show ?thesis by (auto simp: conf_write_def split: if_splits)
next
  case False
  obtain b c1 where 1: "make_parent_dir w name c = (b, c1)" by fastforce
  note d = make_parent_dir_result(1) [OF 1]
  have t1: "file_text w name c1 = Some t" using only_dirs_text [OF d] t by simp
  have od: "resolve w old \<notin> dirs (fs c1)"
  proof -
    obtain D where "dirs (fs c1) = dirs (fs c) \<union> D" "D \<subseteq> {resolve w p |p. path_prefix p name}"
      using d by (auto simp: only_dirs_def)
    with may(2,3) show ?thesis by fastforce
  qed
  have e1: "environ c1 = environ c" using d by (auto simp: only_dirs_def)
  show ?thesis
  proof (cases "b \<and> open_write w tmp c1 \<noteq> None")
    case False
    then have "c' = c1" using r 1 \<open>\<not> (name = [] \<or> is_dir w name c)\<close> e1 env names(2)
      by (auto simp: conf_write_def Let_def split: option.splits bool.splits)
    with t1 show ?thesis by simp
  next
    case True
    then obtain c2 where 2: "open_write w tmp c1 = Some c2" by auto
    have c2: "c2 = set_file w tmp '''' c1" using 2 by (simp add: open_write_def split: if_splits)
    obtain x c3 where 3: "conf_write_text d calc c2 = Some (x, c3)"
      and r': "conf_write_replace w name tmp (snd (write_file w tmp x c3)) = (r, c')"
      using r 1 2 True \<open>\<not> (name = [] \<or> is_dir w name c)\<close> e1 env names(2)
      by (auto simp: conf_write_def Let_def bind_eq_Some_conv)
    obtain y e where y: "stored w (resolve w tmp) x = (y, e)" by fastforce
    have w: "snd (write_file w tmp x c3) = set_file w tmp y c3" by (simp add: write_file_def y)
    have "file_text w name (set_file w tmp y c3) = Some t"
      using t1 apart(1) file_text_fs [OF conf_write_text_fs [OF 3]] by (simp add: set_file_text c2)
    moreover have "resolve w old \<notin> dirs (fs (set_file w tmp y c3))"
      using od conf_write_text_fs [OF 3] by (simp add: set_file_def c2)
    ultimately show ?thesis
      by (intro replace_keeps [OF r' [unfolded w] names(1) apart _ may(1)])
  qed
qed

end
