(* ===== verification/ConfAsk.thy ===== *)
theory ConfAsk
  imports MenuShow ConfWrite
begin

text \<open>
  Asking the user, the first half of \<^verbatim>\<open>conf.c\<close>: reading a line, the questions for texts, tristate
  values and choices, and the walk over the menus. \<open>stdin_text\<close> is what is left to read on
  standard input. A question is repeated until the answer is accepted, so the functions that ask
  are partial: \<open>None\<close> is a loop that does not end, a fault, or a recursion deeper than the
  bound \<open>d\<close> of the menus or \<open>n\<close> of \<open>conf\<close> and \<open>check_conf\<close>.
\<close>

section \<open>The state\<close>

datatype input_mode =
    oldaskconfig | syncconfig | oldconfig | allnoconfig | allyesconfig | allmodconfig | alldefconfig
  | randconfig | defconfig | savedefconfig | listnewconfig | helpnewconfig | olddefconfig
  | yes2modconfig | mod2yesconfig | mod2noconfig | configpath | autoconfigpath | autoheaderpath | rustccfgpath

text \<open>
  \<open>line\<close> is the text in the buffer of that name. \<open>seed\<close> and \<open>rand_pos\<close> are the state of the
  random numbers: which sequence, and how many of it are used.
\<close>

record front =
  cf :: conf_state
  input_mode :: input_mode
  indent :: nat
  tty_stdio :: bool
  sync_kconfig :: bool
  conf_cnt :: int
  line :: string
  rootEntry :: mid
  stdin_text :: string
  seed :: "32 word"
  rand_pos :: nat

abbreviation fk :: "front \<Rightarrow> kstate" where "fk f \<equiv> ks (cf f)"

definition on_cf :: "(conf_state \<Rightarrow> conf_state) \<Rightarrow> front \<Rightarrow> front" where
  "on_cf g f = f\<lparr>cf := g (cf f)\<rparr>"

definition run_fk :: "(kstate \<Rightarrow> kstate option) \<Rightarrow> front \<Rightarrow> front option" where
  "run_fk g f = map_option (\<lambda>c. f\<lparr>cf := c\<rparr>) (run_ks g (cf f))"

definition run_fk_value :: "(kstate \<Rightarrow> ('a \<times> kstate) option) \<Rightarrow> front \<Rightarrow> ('a \<times> front) option" where
  "run_fk_value g f = map_option (\<lambda>(v, c). (v, f\<lparr>cf := c\<rparr>)) (run_ks_value g (cf f))"

text \<open>\<open>printf\<close> with the text it makes; \<open>%*s\<close> with an empty text, and \<open>%*c\<close>.\<close>

definition say :: "string \<Rightarrow> front \<Rightarrow> front" where
  "say t = on_cf (\<lambda>c. c\<lparr>conf_stdout := conf_stdout c @ t\<rparr>)"

definition spaces :: "nat \<Rightarrow> string" where
  "spaces n = replicate n CHR '' ''"

definition padded :: "nat \<Rightarrow> char \<Rightarrow> string" where
  "padded n x = spaces (n - 1) @ [x]"

section \<open>Lines\<close>

definition xfgets :: "front \<Rightarrow> front" where
  "xfgets f =
     (let f = (case fgets PATH_MAX (stdin_text f) of
                 None \<Rightarrow> on_cf (eprint ''\<newline>Error in reading or end of file.\<newline>'') f
               | Some (l, t) \<Rightarrow> f\<lparr>line := c_string l, stdin_text := t\<rparr>)
      in if tty_stdio f then f else say (line f) f)"

definition strip :: "string \<Rightarrow> string" where
  "strip str = rev (dropWhile isspace (rev (dropWhile isspace str)))"

definition print_help :: "nat \<Rightarrow> calc \<Rightarrow> mid \<Rightarrow> front \<Rightarrow> front option" where
  "print_help d calc m f = do {
     (help, f) \<leftarrow> run_fk_value (menu_get_ext_help (CONFIG_prefix (environ (cf f))) (\<lambda>_. -1) d calc m str_new) f;
     Some (say (''\<newline>'' @ str_get help @ ''\<newline>'') f)
   }"

section \<open>Questions\<close>

text \<open>\<open>while (1)\<close>: a round returns or is followed by the next one.\<close>

partial_function (option) rounds :: "('s \<Rightarrow> (bool \<times> 's) option) \<Rightarrow> 's \<Rightarrow> 's option" where
  "rounds g s = Option.bind (g s) (\<lambda>(finished, s). if finished then Some s else rounds g s)"

declare rounds.simps [code]

text \<open>The result is true when a line has been read.\<close>

definition conf_askvalue :: "sid \<Rightarrow> strptr \<Rightarrow> front \<Rightarrow> bool \<times> front" where
  "conf_askvalue a def f =
     (let f = (if sym_has_value (syms (fk f) a) then f else say ''(NEW) '' f);
          f = f\<lparr>line := ''\<newline>''\<rparr>
      in if \<not> sym_is_changeable (syms (fk f) a) then (False, say (str_of def @ ''\<newline>'') f)
         else if (input_mode f = oldconfig \<or> input_mode f = syncconfig) \<and> sym_has_value (syms (fk f) a)
         then (False, say (str_of def @ ''\<newline>'') f)
         else (True, xfgets f))"

text \<open>
  \<open>conf_string\<close>. The last character of the line is taken for its newline and cut; with an empty
  line this writes in front of the buffer.
\<close>

datatype string_answer = Old_text | New_text string | Help_text | Bad_write

definition conf_string_answer :: "string \<Rightarrow> string_answer" where
  "conf_string_answer l =
     (if char_at l 0 = CHR 0x0A then Old_text
      else if char_at l 0 = CHR ''?'' \<and> char_at l 1 = CHR 0x0A then Help_text
      else if l = [] then Bad_write
      else New_text (butlast l))"

definition conf_string_question :: "sid \<Rightarrow> pid \<Rightarrow> front \<Rightarrow> front" where
  "conf_string_question a p f =
     (let y = syms (fk f) a;
          f = say (spaces (indent f - 1) @ str_text (p_text (props (fk f) p)) @ '' '') f;
          f = say (''('' @ str_text (s_name y) @ '') '') f;
          def = sym_get_string_value y
      in if def \<noteq> NULL then say (''['' @ str_of def @ ''] '') f else f)"

definition conf_string_set :: "calc \<Rightarrow> sid \<Rightarrow> string option \<Rightarrow> front \<Rightarrow> (bool \<times> front) option" where
  "conf_string_set calc a def f =
     (case def of
        None \<Rightarrow> Some (False, f)
      | Some t \<Rightarrow> run_fk_value (sym_set_string_value calc a t) f)"

definition pointed :: "strptr \<Rightarrow> string option" where
  "pointed p = (if p = NULL then None else Some (str_of p))"

definition conf_string_round :: "nat \<Rightarrow> calc \<Rightarrow> mid \<Rightarrow> front \<Rightarrow> (bool \<times> front) option" where
  "conf_string_round d calc m f = do {
     a \<leftarrow> m_sym (menus (fk f) m);
     p \<leftarrow> m_prompt (menus (fk f) m);
     let def = sym_get_string_value (syms (fk f) a);
     let (asked, f) = conf_askvalue a def (conf_string_question a p f);
     if \<not> asked then Some (True, f)
     else (case conf_string_answer (line f) of
         Bad_write \<Rightarrow> None
       | Help_text \<Rightarrow> do { f \<leftarrow> print_help d calc m f; Some (False, f) }
       | Old_text \<Rightarrow> conf_string_set calc a (pointed def) f
       | New_text t \<Rightarrow> conf_string_set calc a (Some t) (f\<lparr>line := t\<rparr>))
   }"

definition conf_string :: "nat \<Rightarrow> calc \<Rightarrow> mid \<Rightarrow> front \<Rightarrow> front option" where
  "conf_string d calc m = rounds (conf_string_round d calc m)"

datatype tristate_answer = Value tristate | Again | Help_tristate

definition conf_sym_answer :: "tristate \<Rightarrow> string \<Rightarrow> tristate_answer" where
  "conf_sym_answer oldval l =
     (let x = char_at l 0 in
      if x = CHR ''n'' \<or> x = CHR ''N'' then (if tl l = '''' \<or> tl l = ''o'' then Value tri_no else Again)
      else if x = CHR ''m'' \<or> x = CHR ''M'' then (if tl l = '''' then Value tri_mod else Again)
      else if x = CHR ''y'' \<or> x = CHR ''Y'' then (if tl l = '''' \<or> tl l = ''es'' then Value tri_yes else Again)
      else if l = '''' then Value oldval
      else if x = CHR ''?'' then Help_tristate
      else Again)"

fun tristate_capital :: "tristate \<Rightarrow> char" where
  "tristate_capital tri_no = CHR ''N''"
| "tristate_capital tri_mod = CHR ''M''"
| "tristate_capital tri_yes = CHR ''Y''"

definition conf_sym_question :: "sid \<Rightarrow> pid \<Rightarrow> front \<Rightarrow> front" where
  "conf_sym_question a p f =
     (let k = fk f; y = syms k a; oldval = sym_get_tristate_value y;
          f = say (spaces (indent f - 1) @ str_text (p_text (props k p)) @ '' '') f;
          f = (case s_name y of None \<Rightarrow> f | Some nm \<Rightarrow> say (''('' @ nm @ '') '') f);
          f = say [CHR ''['', tristate_capital oldval] f;
          f = (if oldval \<noteq> tri_no \<and> sym_tristate_within_range k a tri_no then say ''/n'' f else f);
          f = (if oldval \<noteq> tri_mod \<and> sym_tristate_within_range k a tri_mod then say ''/m'' f else f);
          f = (if oldval \<noteq> tri_yes \<and> sym_tristate_within_range k a tri_yes then say ''/y'' f else f)
      in say ''/?] '' f)"

definition conf_sym_round :: "nat \<Rightarrow> calc \<Rightarrow> mid \<Rightarrow> front \<Rightarrow> (bool \<times> front) option" where
  "conf_sym_round d calc m f = do {
     a \<leftarrow> m_sym (menus (fk f) m);
     p \<leftarrow> m_prompt (menus (fk f) m);
     let y = syms (fk f) a;
     let (asked, f) = conf_askvalue a (sym_get_string_value y) (conf_sym_question a p f);
     if \<not> asked then Some (True, f)
     else do {
       let f = f\<lparr>line := strip (line f)\<rparr>;
       case conf_sym_answer (sym_get_tristate_value y) (line f) of
         Again \<Rightarrow> Some (False, f)
       | Help_tristate \<Rightarrow> do { f \<leftarrow> print_help d calc m f; Some (False, f) }
       | Value v \<Rightarrow> do {
           (ok, f) \<leftarrow> run_fk_value (sym_set_tristate_value calc a v) f;
           if ok then Some (True, f) else do { f \<leftarrow> print_help d calc m f; Some (False, f) }
         }
     }
   }"

definition conf_sym :: "nat \<Rightarrow> calc \<Rightarrow> mid \<Rightarrow> front \<Rightarrow> front option" where
  "conf_sym d calc m = rounds (conf_sym_round d calc m)"

section \<open>Choices\<close>

text \<open>The list of the visible members: how many there are, the number of the selected one, and
whether one of them is new.\<close>

record choice_list =
  cl_cnt :: int
  cl_def :: int
  cl_new :: bool

definition choice_line :: "sid option \<Rightarrow> mid \<Rightarrow> choice_list \<Rightarrow> front \<Rightarrow> choice_list \<times> front" where
  "choice_line def_sym child l f =
     (let k = fk f; prompt = str_text (menu_get_prompt k child) in
      case m_sym (menus k child) of
        None \<Rightarrow> (l, say (padded (indent f) CHR ''*'' @ '' '' @ prompt @ ''\<newline>'') f)
      | Some a \<Rightarrow>
          (let l = l\<lparr>cl_cnt := cl_cnt l + 1\<rparr>;
               l = (if Some a = def_sym then l\<lparr>cl_def := cl_cnt l\<rparr> else l);
               f = say (padded (indent f) (if Some a = def_sym then CHR ''>'' else CHR '' '')) f;
               f = say ('' '' @ int_text (cl_cnt l) @ ''. '' @ prompt @ '' ('' @ str_text (s_name (syms k a)) @ '')'') f;
               (l, f) = (if sym_has_value (syms k a) then (l, f) else (l\<lparr>cl_new := True\<rparr>, say '' (NEW)'' f))
           in (l, say ''\<newline>'' f)))"

definition front_visible :: "nat \<Rightarrow> calc \<Rightarrow> mid \<Rightarrow> front \<Rightarrow> (bool \<times> front) option" where
  "front_visible d calc m = run_fk_value (menu_is_visible d calc m)"

partial_function (option) choice_lines ::
  "nat \<Rightarrow> calc \<Rightarrow> sid option \<Rightarrow> mid option \<Rightarrow> choice_list \<Rightarrow> front \<Rightarrow> (choice_list \<times> front) option" where
  "choice_lines d calc def_sym child l f =
     (case child of
        None \<Rightarrow> Some (l, f)
      | Some i \<Rightarrow>
          Option.bind (front_visible d calc i f) (\<lambda>(v, f).
            case (if v then choice_line def_sym i l f else (l, f)) of
              (l, f) \<Rightarrow> choice_lines d calc def_sym (m_next (menus (fk f) i)) l f))"

text \<open>The member with the number \<open>cnt\<close>.\<close>

partial_function (option) choice_child ::
  "nat \<Rightarrow> calc \<Rightarrow> mid option \<Rightarrow> int \<Rightarrow> front \<Rightarrow> (mid option \<times> front) option" where
  "choice_child d calc child cnt f =
     (case child of
        None \<Rightarrow> Some (None, f)
      | Some i \<Rightarrow>
          if m_sym (menus (fk f) i) = None then choice_child d calc (m_next (menus (fk f) i)) cnt f
          else
            Option.bind (front_visible d calc i f) (\<lambda>(v, f).
              if \<not> v then choice_child d calc (m_next (menus (fk f) i)) cnt f
              else if cnt - 1 = 0 then Some (Some i, f)
              else choice_child d calc (m_next (menus (fk f) i)) (cnt - 1) f))"

declare choice_lines.simps [code] choice_child.simps [code]

text \<open>What is selected: a number, a request for help, or an answer that is not understood.\<close>

datatype choice_answer = Number int | Choice_help | Choice_again

definition conf_choice_answer :: "int \<Rightarrow> string \<Rightarrow> choice_answer" where
  "conf_choice_answer def l =
     (if char_at l 0 = CHR ''?'' then Choice_help
      else if l = '''' then Number def
      else if isdigit (char_at l 0) then Number (atoi l)
      else Choice_again)"

definition conf_choice_select :: "choice_list \<Rightarrow> front \<Rightarrow> choice_answer \<times> front" where
  "conf_choice_select l f =
     (let f = say (spaces (indent f - 1) @ ''choice'') f in
      if cl_cnt l = 1 then (Number 1, say ''[1]: 1\<newline>'' f)
      else
        let f = say (''[1-'' @ int_text (cl_cnt l) @ ''?]: '') f in
        if (input_mode f = oldconfig \<or> input_mode f = syncconfig) \<and> \<not> cl_new l
        then (Number (cl_def l), say (int_text (cl_def l) @ ''\<newline>'') f)
        else if input_mode f = oldconfig \<or> input_mode f = syncconfig \<or> input_mode f = oldaskconfig
        then (let f = xfgets f; f = f\<lparr>line := strip (line f)\<rparr> in (conf_choice_answer (cl_def l) (line f), f))
        else (Number (cl_cnt l), f))"

text \<open>One round of \<open>conf_choice\<close>; the result is true when the choice is made.\<close>

definition conf_choice_round :: "nat \<Rightarrow> calc \<Rightarrow> mid \<Rightarrow> bool \<Rightarrow> front \<Rightarrow> (bool \<times> (bool \<times> front)) option" where
  "conf_choice_round d calc m is_new f = do {
     let f = say (spaces (indent f - 1) @ str_text (menu_get_prompt (fk f) m) @ ''\<newline>'') f;
     (def_sym, f) \<leftarrow> run_fk_value (sym_calc_choice calc m) f;
     (l, f) \<leftarrow> choice_lines d calc def_sym (m_list (menus (fk f) m)) \<lparr>cl_cnt = 0, cl_def = 0, cl_new = is_new\<rparr> (f\<lparr>line := ''''\<rparr>);
     let (answer, f) = conf_choice_select l f;
     case answer of
       Choice_help \<Rightarrow> do { f \<leftarrow> print_help d calc m f; Some (False, cl_new l, f) }
     | Choice_again \<Rightarrow> Some (False, cl_new l, f)
     | Number cnt \<Rightarrow> do {
         (child, f) \<leftarrow> choice_child d calc (m_list (menus (fk f) m)) cnt f;
         case child of
           None \<Rightarrow> Some (False, cl_new l, f)
         | Some i \<Rightarrow>
             if line f \<noteq> '''' \<and> last (line f) = CHR ''?''
             then do { f \<leftarrow> print_help d calc i f; Some (False, cl_new l, f) }
             else do {
               a \<leftarrow> m_sym (menus (fk f) i);
               f \<leftarrow> run_fk (choice_set_value calc m a) f;
               Some (True, cl_new l, f)
             }
       }
   }"

text \<open>\<open>is_new\<close> is not reset between the rounds.\<close>

definition conf_choice :: "nat \<Rightarrow> calc \<Rightarrow> mid \<Rightarrow> front \<Rightarrow> front option" where
  "conf_choice d calc m f =
     map_option snd (rounds (\<lambda>(is_new, f). conf_choice_round d calc m is_new f) (False, f))"

section \<open>The walk over the menus\<close>

text \<open>\<open>for (child = c; child; child = child->next) g(child);\<close>\<close>

partial_function (option) for_entries :: "(mid \<Rightarrow> front \<Rightarrow> front option) \<Rightarrow> mid option \<Rightarrow> front \<Rightarrow> front option" where
  "for_entries g c f =
     (case c of
        None \<Rightarrow> Some f
      | Some i \<Rightarrow> Option.bind (g i f) (\<lambda>f. for_entries g (m_next (menus (fk f) i)) f))"

declare for_entries.simps [code]

definition conf_banner :: "mid \<Rightarrow> front \<Rightarrow> front" where
  "conf_banner m f =
     (case menu_get_prompt (fk f) m of
        None \<Rightarrow> f
      | Some t \<Rightarrow>
          (let star = padded (indent f) CHR ''*''
           in say (star @ ''\<newline>'' @ star @ '' '' @ t @ ''\<newline>'' @ star @ ''\<newline>'') f))"

definition prompt_type :: "kstate \<Rightarrow> mid \<Rightarrow> prop_type option" where
  "prompt_type k m = map_option (\<lambda>p. p_type (props k p)) (m_prompt (menus k m))"

text \<open>Both functions call each other; \<open>ask\<close> and \<open>check\<close> are the calls one level deeper.\<close>

definition conf_entry :: "nat \<Rightarrow> calc \<Rightarrow> (mid \<Rightarrow> front \<Rightarrow> front option) \<Rightarrow> mid \<Rightarrow> front \<Rightarrow> front option" where
  "conf_entry d calc ask m f =
     (case m_sym (menus (fk f) m) of
        None \<Rightarrow> for_entries ask (m_list (menus (fk f) m)) f
      | Some a \<Rightarrow>
          if sym_is_choice (syms (fk f) a) then conf_choice d calc m f
          else do {
            f \<leftarrow> (if s_type (syms (fk f) a) \<in> {S_INT, S_HEX, S_STRING} then conf_string d calc m f
                  else conf_sym d calc m f);
            f \<leftarrow> for_entries ask (m_list (menus (fk f) m)) (f\<lparr>indent := indent f + 2\<rparr>);
            Some (f\<lparr>indent := indent f - 2\<rparr>)
          })"

definition conf_step ::
  "nat \<Rightarrow> calc \<Rightarrow> (mid \<Rightarrow> front \<Rightarrow> front option) \<Rightarrow> (mid \<Rightarrow> front \<Rightarrow> front option) \<Rightarrow> mid \<Rightarrow> front \<Rightarrow> front option" where
  "conf_step d calc ask check m f = do {
     (v, f) \<leftarrow> front_visible d calc m f;
     if \<not> v then Some f
     else if prompt_type (fk f) m = Some P_MENU \<and> input_mode f \<noteq> oldaskconfig \<and> rootEntry f \<noteq> m
     then check m f
     else conf_entry d calc ask m
       (if prompt_type (fk f) m = Some P_MENU \<or> prompt_type (fk f) m = Some P_COMMENT then conf_banner m f else f)
   }"

text \<open>What \<open>check_conf\<close> does with a symbol that has no value yet.\<close>

definition check_new :: "nat \<Rightarrow> calc \<Rightarrow> (mid \<Rightarrow> front \<Rightarrow> front option) \<Rightarrow> mid \<Rightarrow> sid \<Rightarrow> front \<Rightarrow> front option" where
  "check_new d calc ask m a f =
     (case input_mode f of
        listnewconfig \<Rightarrow>
          Some (if s_name (syms (fk f) a) \<noteq> None
                then say (print_symbol_for_listconfig (CONFIG_prefix (environ (cf f))) (syms (fk f) a)) f else f)
      | helpnewconfig \<Rightarrow> do {
          f \<leftarrow> print_help d calc m (say ''-----\<newline>'' f);
          Some (say ''-----\<newline>'' f)
        }
      | _ \<Rightarrow> do {
          let f = (if conf_cnt f = 0 then say ''*\<newline>* Restart config...\<newline>*\<newline>'' f else f);
          let f = f\<lparr>conf_cnt := conf_cnt f + 1\<rparr>;
          r \<leftarrow> menu_get_menu_or_parent_menu (fk f) m;
          ask r (f\<lparr>rootEntry := r\<rparr>)
        })"

definition is_new_symbol :: "symbol \<Rightarrow> bool" where
  "is_new_symbol y \<longleftrightarrow> \<not> sym_has_value y \<and> sym_is_changeable y"

definition check_conf_step ::
  "nat \<Rightarrow> calc \<Rightarrow> (mid \<Rightarrow> front \<Rightarrow> front option) \<Rightarrow> (mid \<Rightarrow> front \<Rightarrow> front option) \<Rightarrow> mid \<Rightarrow> front \<Rightarrow> front option" where
  "check_conf_step d calc ask check m f = do {
     (v, f) \<leftarrow> front_visible d calc m f;
     if \<not> v then Some f
     else do {
       f \<leftarrow> (case m_sym (menus (fk f) m) of
           None \<Rightarrow> Some f
         | Some a \<Rightarrow> if is_new_symbol (syms (fk f) a) then check_new d calc ask m a f else Some f);
       for_entries check (m_list (menus (fk f) m)) f
     }
   }"

fun conf :: "nat \<Rightarrow> nat \<Rightarrow> calc \<Rightarrow> mid \<Rightarrow> front \<Rightarrow> front option"
  and check_conf :: "nat \<Rightarrow> nat \<Rightarrow> calc \<Rightarrow> mid \<Rightarrow> front \<Rightarrow> front option" where
  "conf 0 d calc m f = None"
| "conf (Suc n) d calc m f = conf_step d calc (conf n d calc) (check_conf n d calc) m f"
| "check_conf 0 d calc m f = None"
| "check_conf (Suc n) d calc m f = check_conf_step d calc (conf n d calc) (check_conf n d calc) m f"

text \<open>\<open>do { conf_cnt = 0; check_conf(&rootmenu); } while (conf_cnt);\<close>\<close>

definition update_pass :: "nat \<Rightarrow> nat \<Rightarrow> calc \<Rightarrow> front \<Rightarrow> (bool \<times> front) option" where
  "update_pass n d calc f = do {
     f \<leftarrow> check_conf n d calc rootmenu (f\<lparr>conf_cnt := 0\<rparr>);
     Some (conf_cnt f = 0, f)
   }"

definition update_loop :: "nat \<Rightarrow> nat \<Rightarrow> calc \<Rightarrow> front \<Rightarrow> front option" where
  "update_loop n d calc = rounds (update_pass n d calc)"

end
