(* ===== verification/ConfModes.thy ===== *)
theory ConfModes
  imports ConfAsk
begin

text \<open>
  The modes of \<^verbatim>\<open>conf.c\<close>: values for new symbols, random ones among them, the rewriting of
  tristate values, and \<open>main\<close> from the parsed options to the written files. Parameters are the
  operating system \<open>w\<close>, the sequence \<open>rnd\<close> that \<open>rand\<close> gives for a seed, the time, the options
  \<open>getopt_long\<close> finds, and \<open>parse\<close> for \<open>conf_parse\<close>, which may exit.
\<close>

section \<open>Random values\<close>

fun hex_text :: "nat \<Rightarrow> string" where
  "hex_text n = (if n < 16 then [''0123456789ABCDEF'' ! n] else hex_text (n div 16) @ [''0123456789ABCDEF'' ! (n mod 16)])"

declare hex_text.simps [simp del]

text \<open>The conversions between \<open>long\<close>, \<open>int\<close> and \<open>unsigned int\<close> keep the low bits.\<close>

definition env_seed :: "string option \<Rightarrow> 32 word option" where
  "env_seed env =
     (case env of
        None \<Rightarrow> None
      | Some t \<Rightarrow>
          if t = [] then None
          else (case strtoll 0 t of (v, rest, _) \<Rightarrow> if rest = [] then Some (ucast v) else None))"

definition set_randconfig_seed :: "64 word \<times> 64 word \<Rightarrow> front \<Rightarrow> front" where
  "set_randconfig_seed now f =
     (let sd = (case env_seed (environ (cf f) ''KCONFIG_SEED'') of
                    Some v \<Rightarrow> v
                  | None \<Rightarrow> ucast ((fst now + 1) * (snd now + 1)));
          f = say (''KCONFIG_SEED=0x'' @ hex_text (unat sd) @ ''\<newline>'') f
      in f\<lparr>seed := sd, rand_pos := 0\<rparr>)"

definition rand :: "(32 word \<Rightarrow> nat \<Rightarrow> nat) \<Rightarrow> front \<Rightarrow> nat \<times> front" where
  "rand rnd f = (rnd (seed f) (rand_pos f), f\<lparr>rand_pos := rand_pos f + 1\<rparr>)"

section \<open>Choices\<close>

definition list_move_tail_choice :: "sid \<Rightarrow> mid \<Rightarrow> kstate \<Rightarrow> kstate" where
  "list_move_tail_choice a c s =
     (let M = (\<lambda>m. (menus s m)\<lparr>choice_members := removeAll a (choice_members (menus s m))\<rparr>)
      in upd_sym a (\<lambda>y. y\<lparr>choice_link := True\<rparr>)
           (s\<lparr>menus := M(c := (M c)\<lparr>choice_members := choice_members (M c) @ [a]\<rparr>)\<rparr>))"

definition new_entry :: "kstate \<Rightarrow> mid \<Rightarrow> bool" where
  "new_entry k m \<longleftrightarrow> (case m_sym (menus k m) of None \<Rightarrow> False | Some a \<Rightarrow> \<not> sym_has_value (syms k a))"

text \<open>The entry at which \<open>x\<close> becomes negative gets the value.\<close>

fun pick_member :: "mid \<Rightarrow> mid list \<Rightarrow> nat \<Rightarrow> kstate \<Rightarrow> kstate" where
  "pick_member c [] x k = k"
| "pick_member c (m # ms) x k =
     (if new_entry k m then
        (case x of
           0 \<Rightarrow> (case m_sym (menus k m) of
                    None \<Rightarrow> k
                  | Some a \<Rightarrow> list_move_tail_choice a c (set_flag a SYMBOL_DEF_USER (set_user_tri a tri_yes k)))
         | Suc x \<Rightarrow> pick_member c ms x k)
      else pick_member c ms x k)"

fun pick_members :: "(32 word \<Rightarrow> nat \<Rightarrow> nat) \<Rightarrow> mid \<Rightarrow> mid list \<Rightarrow> nat \<Rightarrow> front \<Rightarrow> front" where
  "pick_members rnd c ms 0 f = f"
| "pick_members rnd c ms (Suc cnt) f =
     (case rand rnd f of
        (r, f) \<Rightarrow> pick_members rnd c ms cnt (on_cf (on_ks (pick_member c ms (r mod Suc cnt))) f))"

definition randomize_choice_values :: "(32 word \<Rightarrow> nat \<Rightarrow> nat) \<Rightarrow> mid \<Rightarrow> front \<Rightarrow> front option" where
  "randomize_choice_values rnd c f = do {
     ms \<leftarrow> sub_entries (menus (fk f)) c;
     Some (pick_members rnd c ms (length (filter (new_entry (fk f)) ms)) f)
   }"

section \<open>Values for new symbols\<close>

datatype conf_def_mode = def_default | def_yes | def_mod | def_no | def_random

text \<open>The numbers of \<open>KCONFIG_PROBABILITY\<close>, three at most; \<open>None\<close> for a number out of range.\<close>

fun read_probabilities :: "nat \<Rightarrow> string \<Rightarrow> int list option" where
  "read_probabilities 0 env = Some []"
| "read_probabilities (Suc n) env =
     (if env = [] then Some []
      else (case strtoll 10 env of (v, endp, _) \<Rightarrow>
        (let tmp = sint (ucast v :: 32 word) in
         if 0 \<le> tmp \<and> tmp \<le> 100
         then map_option ((#) tmp) (read_probabilities n (if char_at endp 0 = CHR '':'' then tl endp else endp))
         else None)))"

record probabilities =
  pby :: int
  pty :: int
  ptm :: int

definition derive_probabilities :: "int list \<Rightarrow> probabilities" where
  "derive_probabilities p =
     (if length p = 1 then \<lparr>pby = p ! 0, pty = p ! 0 - p ! 0 div 2, ptm = p ! 0 div 2\<rparr>
      else if length p = 2 then \<lparr>pby = p ! 0 + p ! 1, pty = p ! 0, ptm = p ! 1\<rparr>
      else if length p = 3 then \<lparr>pby = p ! 0, pty = p ! 1, ptm = p ! 2\<rparr>
      else \<lparr>pby = 50, pty = 33, ptm = 33\<rparr>)"

definition env_probabilities :: "string option \<Rightarrow> probabilities option" where
  "env_probabilities env = do {
     p \<leftarrow> (case env of None \<Rightarrow> Some [] | Some t \<Rightarrow> read_probabilities 3 t);
     let q = derive_probabilities p;
     if pty q + ptm q > 100 then None else Some q
   }"

text \<open>The symbols a value is set for: with a prompt, without a user value, boolean or tristate.\<close>

definition new_value_symbol :: "kstate \<Rightarrow> mid \<Rightarrow> sid option" where
  "new_value_symbol k m =
     (case m_sym (menus k m) of
        None \<Rightarrow> None
      | Some a \<Rightarrow>
          if m_prompt (menus k m) = None \<or> sym_has_value (syms k a)
             \<or> (s_type (syms k a) \<noteq> S_BOOLEAN \<and> s_type (syms k a) \<noteq> S_TRISTATE) \<or> sym_is_choice_value (syms k a)
          then None else Some a)"

definition random_value :: "probabilities \<Rightarrow> symbol_type \<Rightarrow> int \<Rightarrow> tristate" where
  "random_value q ty cnt =
     (if ty = S_TRISTATE then (if cnt < pty q then tri_yes else if cnt < pty q + ptm q then tri_mod else tri_no)
      else if cnt < pby q then tri_yes else tri_no)"

definition new_value :: "(32 word \<Rightarrow> nat \<Rightarrow> nat) \<Rightarrow> conf_def_mode \<Rightarrow> probabilities \<Rightarrow> symbol_type \<Rightarrow> front \<Rightarrow> tristate option \<times> front" where
  "new_value rnd mode q ty f =
     (case mode of
        def_yes \<Rightarrow> (Some tri_yes, f)
      | def_mod \<Rightarrow> (Some tri_mod, f)
      | def_no \<Rightarrow> (Some tri_no, f)
      | def_random \<Rightarrow> (case rand rnd f of (r, f) \<Rightarrow> (Some (random_value q ty (int (r mod 100))), f))
      | def_default \<Rightarrow> (None, f))"

definition set_new_entry :: "(32 word \<Rightarrow> nat \<Rightarrow> nat) \<Rightarrow> conf_def_mode \<Rightarrow> probabilities \<Rightarrow> mid \<Rightarrow> front \<Rightarrow> front option" where
  "set_new_entry rnd mode q m f =
     (case new_value_symbol (fk f) m of
        None \<Rightarrow> Some f
      | Some a \<Rightarrow>
          if sym_is_choice (syms (fk f) a)
          then (if mode = def_random then randomize_choice_values rnd m f else Some f)
          else (case new_value rnd mode q (s_type (syms (fk f) a)) f of
                  (None, f) \<Rightarrow> Some f
                | (Some v, f) \<Rightarrow> Some (on_cf (on_ks (\<lambda>k. set_flag a SYMBOL_DEF_USER (set_user_tri a v k))) f)))"

fun set_new_entries :: "(32 word \<Rightarrow> nat \<Rightarrow> nat) \<Rightarrow> conf_def_mode \<Rightarrow> probabilities \<Rightarrow> mid list \<Rightarrow> front \<Rightarrow> front option" where
  "set_new_entries rnd mode q [] f = Some f"
| "set_new_entries rnd mode q (m # ms) f =
     Option.bind (set_new_entry rnd mode q m f) (set_new_entries rnd mode q ms)"

text \<open>The result is false for \<open>exit(1)\<close>.\<close>

definition conf_set_all_new_symbols ::
  "os \<Rightarrow> (32 word \<Rightarrow> nat \<Rightarrow> nat) \<Rightarrow> calc \<Rightarrow> conf_def_mode \<Rightarrow> front \<Rightarrow> (bool \<times> front) option" where
  "conf_set_all_new_symbols w rnd calc mode f =
     (case (if mode = def_random then env_probabilities (environ (cf f) ''KCONFIG_PROBABILITY'')
            else Some (derive_probabilities [])) of
        None \<Rightarrow> Some (False, on_cf (perror w ''KCONFIG_PROBABILITY'') f)
      | Some q \<Rightarrow> do {
          ms \<leftarrow> sub_entries (menus (fk f)) rootmenu;
          f \<leftarrow> set_new_entries rnd mode q ms f;
          c \<leftarrow> clear_all_valid calc (cf f);
          Some (True, f\<lparr>cf := c\<rparr>)
        })"

definition rewrite_tristate :: "tristate \<Rightarrow> tristate \<Rightarrow> sid \<Rightarrow> kstate \<Rightarrow> kstate" where
  "rewrite_tristate old_val new_val a k =
     (if sym_get_type k (syms k a) = S_TRISTATE \<and> tri (sdef (syms k a) S_DEF_USER) = old_val
      then set_user_tri a new_val k else k)"

definition conf_rewrite_tristates :: "calc \<Rightarrow> tristate \<Rightarrow> tristate \<Rightarrow> front \<Rightarrow> front option" where
  "conf_rewrite_tristates calc old_val new_val f =
     map_option (\<lambda>c. f\<lparr>cf := c\<rparr>)
       (clear_all_valid calc (on_ks (\<lambda>k. fold (rewrite_tristate old_val new_val) (sym_table k) k) (cf f)))"

section \<open>Options\<close>

text \<open>What \<open>getopt_long\<close> finds, in order: a long option by its value and its argument.\<close>

datatype opt = Opt_help | Opt_silent | Opt_long input_mode "string option" | Opt_unknown

definition in_apostrophes :: "string \<Rightarrow> string" where
  "in_apostrophes t = CHR 0x27 # t @ [CHR 0x27]"

definition conf_usage :: "string \<Rightarrow> front \<Rightarrow> front" where
  "conf_usage progname = say (
     ''Usage: '' @ progname @ '' [options] kconfig_file\<newline>\<newline>Generic options:\<newline>''
     @ ''  -h, --help              Print this message and exit.\<newline>''
     @ ''  -s, --silent            Do not print log.\<newline>\<newline>Mode options:\<newline>''
     @ ''  --listnewconfig         List new options\<newline>''
     @ ''  --helpnewconfig         List new options and help text\<newline>''
     @ ''  --oldaskconfig          Start a new configuration using a line-oriented program\<newline>''
     @ ''  --oldconfig             Update a configuration using a provided .config as base\<newline>''
     @ ''  --syncconfig            Similar to oldconfig but generates configuration in\<newline>''
     @ ''                          include/{generated/,config/}\<newline>''
     @ ''  --olddefconfig          Same as oldconfig but sets new symbols to their default value\<newline>''
     @ ''  --defconfig <file>      New config with default defined in <file>\<newline>''
     @ ''  --savedefconfig <file>  Save the minimal current configuration to <file>\<newline>''
     @ ''  --allnoconfig           New config where all options are answered with no\<newline>''
     @ ''  --allyesconfig          New config where all options are answered with yes\<newline>''
     @ ''  --allmodconfig          New config where all options are answered with mod\<newline>''
     @ ''  --alldefconfig          New config with all symbols set to default\<newline>''
     @ ''  --randconfig            New config with random answer to all options\<newline>''
     @ ''  --yes2modconfig         Change answers from yes to mod if possible\<newline>''
     @ ''  --mod2yesconfig         Change answers from mod to yes if possible\<newline>''
     @ ''  --mod2noconfig          Change answers from mod to no if possible\<newline>''
     @ ''  (If none of the above is given, --oldaskconfig is the default)\<newline>\<newline>''
     @ ''Arguments:\<newline>  kconfig_file            Top-level Kconfig file.\<newline>Path options:\<newline>''
     @ ''  --configpath            Specify the config path, default is '' @ in_apostrophes ''.config'' @ ''\<newline>''
     @ ''  --autoconfigpath        Specify the auto config path, default is '' @ in_apostrophes ''include/config/auto.conf'' @ ''\<newline>''
     @ ''  --autoheaderpath        Specify the auto header path, default is '' @ in_apostrophes ''include/generated/autoconf.h'' @ ''\<newline>''
     @ ''  --rustccfgpath          Specify the rustccfgpath path, default is '' @ in_apostrophes ''include/generated/rustc_cfg'' @ ''\<newline>'')"

text \<open>The loop over the options; the result is false for \<open>exit(1)\<close>.\<close>

definition set_path :: "input_mode \<Rightarrow> string option \<Rightarrow> conf_state \<Rightarrow> conf_state" where
  "set_path mode optarg =
     (case mode of
        configpath \<Rightarrow> set_configpath optarg
      | autoconfigpath \<Rightarrow> set_autoconfigpath optarg
      | autoheaderpath \<Rightarrow> set_autoheaderpath optarg
      | rustccfgpath \<Rightarrow> set_rustccfgpath optarg
      | _ \<Rightarrow> (\<lambda>c. c))"

definition set_mode :: "64 word \<times> 64 word \<Rightarrow> input_mode \<Rightarrow> string option \<Rightarrow> string option \<Rightarrow> front \<Rightarrow> string option \<times> front" where
  "set_mode now mode optarg defconfig_file f =
     (let f = f\<lparr>input_mode := mode\<rparr> in
      case mode of
        syncconfig \<Rightarrow> (defconfig_file, (on_cf (conf_set_message_callback Msg_none) f)\<lparr>sync_kconfig := True\<rparr>)
      | defconfig \<Rightarrow> (optarg, f)
      | savedefconfig \<Rightarrow> (optarg, f)
      | randconfig \<Rightarrow> (defconfig_file, set_randconfig_seed now f)
      | _ \<Rightarrow> (defconfig_file, f))"

definition is_path_mode :: "input_mode \<Rightarrow> bool" where
  "is_path_mode mode \<longleftrightarrow> mode \<in> {configpath, autoconfigpath, autoheaderpath, rustccfgpath}"

fun read_options :: "string \<Rightarrow> 64 word \<times> 64 word \<Rightarrow> opt list \<Rightarrow> string option \<Rightarrow> front \<Rightarrow> bool \<times> string option \<times> front" where
  "read_options progname now [] file f = (True, file, f)"
| "read_options progname now (Opt_help # os) file f = (False, file, conf_usage progname f)"
| "read_options progname now (Opt_silent # os) file f =
     read_options progname now os file (on_cf (conf_set_message_callback Msg_none) f)"
| "read_options progname now (Opt_unknown # os) file f = read_options progname now os file f"
| "read_options progname now (Opt_long mode optarg # os) file f =
     (if is_path_mode mode then read_options progname now os file (on_cf (set_path mode optarg) f)
      else (case set_mode now mode optarg file f of (file, f) \<Rightarrow> read_options progname now os file f))"

section \<open>The phases of main\<close>

definition on_cf_value :: "(conf_state \<Rightarrow> ('a \<times> conf_state) option) \<Rightarrow> front \<Rightarrow> ('a \<times> front) option" where
  "on_cf_value g f = map_option (\<lambda>(v, c). (v, f\<lparr>cf := c\<rparr>)) (g (cf f))"

definition in_quotes :: "string \<Rightarrow> string" where
  "in_quotes t = CHR 0x22 # t @ [CHR 0x22]"

definition allconfig_name :: "input_mode \<Rightarrow> string \<Rightarrow> string" where
  "allconfig_name mode name =
     (case mode of
        allnoconfig \<Rightarrow> ''allno.config''
      | allyesconfig \<Rightarrow> ''allyes.config''
      | allmodconfig \<Rightarrow> ''allmod.config''
      | alldefconfig \<Rightarrow> ''alldef.config''
      | randconfig \<Rightarrow> ''allrandom.config''
      | _ \<Rightarrow> name)"

text \<open>Reading: false for \<open>exit(1)\<close>.\<close>

definition read_allconfig :: "os \<Rightarrow> front \<Rightarrow> (bool \<times> front) option" where
  "read_allconfig w f =
     (case environ (cf f) ''KCONFIG_ALLCONFIG'' of
        None \<Rightarrow> Some (True, f)
      | Some name \<Rightarrow>
          if name \<noteq> '''' \<and> name \<noteq> ''1'' then do {
            (ok, f) \<leftarrow> on_cf_value (conf_read_simple w (Some name) S_DEF_USER) f;
            Some (ok, if ok then f
                      else on_cf (eprint (''*** Can'' @ [CHR 0x27] @ ''t read seed configuration '' @ in_quotes name @ ''!\<newline>'')) f)
          }
          else do {
            let name = allconfig_name (input_mode f) name;
            (ok, f) \<leftarrow> on_cf_value (conf_read_simple w (Some name) S_DEF_USER) f;
            (ok, f) \<leftarrow> (if ok then Some (True, f)
                        else on_cf_value (conf_read_simple w (Some ''all.config'') S_DEF_USER) f);
            Some (ok, if ok then f
                      else on_cf (eprint (''*** KCONFIG_ALLCONFIG set, but no '' @ in_quotes name @ '' or ''
                             @ in_quotes ''all.config'' @ '' file found\<newline>'')) f)
          })"

definition read_phase :: "os \<Rightarrow> calc \<Rightarrow> string option \<Rightarrow> front \<Rightarrow> (bool \<times> front) option" where
  "read_phase w calc defconfig_file f =
     (if input_mode f = defconfig then do {
        (ok, f) \<leftarrow> on_cf_value (conf_read w calc defconfig_file) f;
        Some (ok, if ok then f
                  else on_cf (eprint (''***\<newline>*** Can'' @ [CHR 0x27] @ ''t find default configuration ''
                         @ in_quotes (str_text defconfig_file) @ ''!\<newline>***\<newline>'')) f)
      }
      else if input_mode f \<in> {savedefconfig, syncconfig, oldaskconfig, oldconfig, listnewconfig, helpnewconfig,
             olddefconfig, yes2modconfig, mod2yesconfig, mod2noconfig} then do {
        (_, f) \<leftarrow> on_cf_value (conf_read w calc None) f;
        Some (True, f)
      }
      else if input_mode f \<in> {allnoconfig, allyesconfig, allmodconfig, alldefconfig, randconfig} then read_allconfig w f
      else Some (True, f))"

text \<open>Whether \<open>syncconfig\<close> goes on, and whether it leaves the configuration unwritten.\<close>

definition sync_phase :: "front \<Rightarrow> bool \<times> bool \<times> front" where
  "sync_phase f =
     (case (if sync_kconfig f then environ (cf f) ''KCONFIG_NOSILENTUPDATE'' else None) of
        None \<Rightarrow> (True, False, f)
      | Some name \<Rightarrow>
          if name = '''' then (True, False, f)
          else if conf_get_changed (cf f)
          then (False, False, on_cf (eprint ''\<newline>*** The configuration requires explicit update.\<newline>\<newline>'') f)
          else (True, True, f))"

text \<open>Setting and asking: false for \<open>exit(1)\<close>.\<close>

definition value_phase ::
  "os \<Rightarrow> (32 word \<Rightarrow> nat \<Rightarrow> nat) \<Rightarrow> nat \<Rightarrow> nat \<Rightarrow> calc \<Rightarrow> front \<Rightarrow> (bool \<times> front) option" where
  "value_phase w rnd n d calc f =
     (let all_new = conf_set_all_new_symbols w rnd calc;
          goes_on = map_option (Pair True)
      in case input_mode f of
           allnoconfig \<Rightarrow> all_new def_no f
         | allyesconfig \<Rightarrow> all_new def_yes f
         | allmodconfig \<Rightarrow> all_new def_mod f
         | alldefconfig \<Rightarrow> all_new def_default f
         | randconfig \<Rightarrow> all_new def_random f
         | defconfig \<Rightarrow> all_new def_default f
         | yes2modconfig \<Rightarrow> goes_on (conf_rewrite_tristates calc tri_yes tri_mod f)
         | mod2yesconfig \<Rightarrow> goes_on (conf_rewrite_tristates calc tri_mod tri_yes f)
         | mod2noconfig \<Rightarrow> goes_on (conf_rewrite_tristates calc tri_mod tri_no f)
         | oldaskconfig \<Rightarrow> goes_on (do {
             f \<leftarrow> conf n d calc rootmenu (f\<lparr>rootEntry := rootmenu\<rparr>);
             update_loop n d calc (f\<lparr>input_mode := oldconfig\<rparr>)
           })
         | oldconfig \<Rightarrow> goes_on (update_loop n d calc f)
         | listnewconfig \<Rightarrow> goes_on (update_loop n d calc f)
         | helpnewconfig \<Rightarrow> goes_on (update_loop n d calc f)
         | syncconfig \<Rightarrow> goes_on (update_loop n d calc f)
         | _ \<Rightarrow> Some (True, f))"

text \<open>Writing, with the exit status.\<close>

definition write_phase :: "os \<Rightarrow> nat \<Rightarrow> calc \<Rightarrow> string option \<Rightarrow> bool \<Rightarrow> front \<Rightarrow> (int \<times> front) option" where
  "write_phase w d calc defconfig_file no_conf_write f =
     (if input_mode f = savedefconfig then do {
        file \<leftarrow> defconfig_file;
        (ok, f) \<leftarrow> on_cf_value (conf_write_defconfig w calc file) f;
        Some (if ok then (0, f)
              else (1, on_cf (eprint (''n*** Error while saving defconfig to: '' @ file @ ''\<newline>\<newline>'')) f))
      }
      else if input_mode f = listnewconfig \<or> input_mode f = helpnewconfig then Some (0, f)
      else do {
        (r, f) \<leftarrow> (if no_conf_write then Some (0, f) else on_cf_value (conf_write w d calc None) f);
        if r \<noteq> 0 then Some (1, on_cf (eprint ''\<newline>*** Error during writing of the configuration.\<newline>\<newline>'') f)
        else do {
          (r, f) \<leftarrow> on_cf_value (conf_write_autoconf w calc (sync_kconfig f)) f;
          Some (if r \<noteq> 0 \<and> sync_kconfig f
                then (1, on_cf (eprint ''\<newline>*** Error during sync of the configuration.\<newline>\<newline>'') f) else (0, f))
        }
      })"

definition main ::
  "os \<Rightarrow> (32 word \<Rightarrow> nat \<Rightarrow> nat) \<Rightarrow> (string \<Rightarrow> conf_state \<Rightarrow> bool \<times> conf_state) \<Rightarrow> nat \<Rightarrow> nat \<Rightarrow> calc
   \<Rightarrow> string \<Rightarrow> 64 word \<times> 64 word \<Rightarrow> opt list \<Rightarrow> string list \<Rightarrow> front \<Rightarrow> (int \<times> front) option" where
  "main w rnd parse n d calc progname now opts args f =
     (case read_options progname now opts None f of
        (False, _, f) \<Rightarrow> Some (1, f)
      | (True, file, f) \<Rightarrow>
          (case args of
             [] \<Rightarrow> Some (1, conf_usage progname (on_cf (eprint (progname @ '': Kconfig file missing\<newline>'')) f))
           | kconfig # _ \<Rightarrow>
               (case parse kconfig (cf f) of
                  (False, c) \<Rightarrow> Some (1, f\<lparr>cf := c\<rparr>)
                | (True, c) \<Rightarrow> do {
                    (ok, f) \<leftarrow> read_phase w calc file (f\<lparr>cf := c\<rparr>);
                    if \<not> ok \<or> conf_errors (cf f) then Some (1, f)
                    else (case sync_phase f of
                        (False, _, f) \<Rightarrow> Some (1, f)
                      | (True, no_conf_write, f) \<Rightarrow> do {
                          (ok, f) \<leftarrow> value_phase w rnd n d calc f;
                          if \<not> ok \<or> sym_dep_errors (fk f) (environ (cf f) ''KCONFIG_WERROR'') then Some (1, f)
                          else write_phase w d calc file no_conf_write f
                        })
                  })))"

end
