(* ===== verification/NewValues.thy ===== *)
theory NewValues
  imports ConfModes
begin

text \<open>
  What \<open>conf_set_all_new_symbols\<close> sets: the relation between the states before and after, the
  bounds of the probabilities, and the values.
\<close>

section \<open>Probabilities\<close>

lemma read_probabilities_bounds:
  "read_probabilities n env = Some p \<Longrightarrow> length p \<le> n \<and> (\<forall>x \<in> set p. 0 \<le> x \<and> x \<le> 100)"
proof (induction n arbitrary: env p)
  case (Suc n)
  obtain v endp e where s: "strtoll 10 env = (v, endp, e)" by (cases "strtoll 10 env")
  define tmp where "tmp = sint (ucast v :: 32 word)"
  show ?case
  proof (cases "env = []")
    case False
    have "read_probabilities (Suc n) env =
        (if 0 \<le> tmp \<and> tmp \<le> 100
         then map_option ((#) tmp) (read_probabilities n (if char_at endp 0 = CHR '':'' then tl endp else endp)) else None)"
      unfolding tmp_def using False by (simp only: read_probabilities.simps s prod.case Let_def if_False)
    then obtain env' p' where "0 \<le> tmp" "tmp \<le> 100" "read_probabilities n env' = Some p'" "p = tmp # p'"
      unfolding Suc.prems by (auto split: if_split_asm dest!: sym [of "Some p"])
    with Suc.IH [of env' p'] show ?thesis by simp
  qed (use Suc.prems in simp)
qed simp

lemma derive_probabilities_bounds:
  assumes "\<forall>x \<in> set p. 0 \<le> x \<and> x \<le> (100 :: int)" and "pty (derive_probabilities p) + ptm (derive_probabilities p) \<le> 100"
  shows "0 \<le> pby (derive_probabilities p) \<and> pby (derive_probabilities p) \<le> 100
    \<and> 0 \<le> pty (derive_probabilities p) \<and> 0 \<le> ptm (derive_probabilities p)"
proof -
  have e: "0 \<le> p ! i \<and> p ! i \<le> 100" if "i < length p" for i
    using assms(1) that by auto
  consider "length p = 1" | "length p = 2" | "length p = 3" | "length p \<notin> {1, 2, 3}" by blast
  then show ?thesis
    using e [of 0] e [of 1] e [of 2] assms(2) by cases (auto simp: derive_probabilities_def)
qed

lemma env_probabilities_bounds:
  assumes "env_probabilities env = Some q"
  shows "0 \<le> pby q" "pby q \<le> 100" "0 \<le> pty q" "0 \<le> ptm q" "pty q + ptm q \<le> 100"
proof -
  obtain p where p: "(case env of None \<Rightarrow> Some [] | Some t \<Rightarrow> read_probabilities 3 t) = Some p"
    and q: "q = derive_probabilities p" "pty q + ptm q \<le> 100"
    using assms by (auto simp: env_probabilities_def Let_def bind_Some_iff split: if_splits)
  have "\<forall>x \<in> set p. 0 \<le> x \<and> x \<le> 100"
    using p read_probabilities_bounds [of 3 "the env" p] by (auto split: option.splits)
  from derive_probabilities_bounds [OF this] q
  show "0 \<le> pby q" "pby q \<le> 100" "0 \<le> pty q" "0 \<le> ptm q" "pty q + ptm q \<le> 100" by auto
qed

section \<open>The states in between\<close>

text \<open>Which values a mode gives: a random value has a probability that is not 0.\<close>

definition value_ok :: "conf_def_mode \<Rightarrow> probabilities \<Rightarrow> symbol_type \<Rightarrow> tristate \<Rightarrow> bool" where
  "value_ok mode q ty v \<longleftrightarrow>
     (case mode of
        def_yes \<Rightarrow> v = tri_yes
      | def_mod \<Rightarrow> v = tri_mod
      | def_no \<Rightarrow> v = tri_no
      | def_random \<Rightarrow>
          (case v of
             tri_yes \<Rightarrow> 0 < (if ty = S_TRISTATE then pty q else pby q)
           | tri_mod \<Rightarrow> ty = S_TRISTATE \<and> 0 < ptm q
           | tri_no \<Rightarrow> (if ty = S_TRISTATE then pty q + ptm q else pby q) < 100)
      | def_default \<Rightarrow> False)"

text \<open>
  The symbols below a choice without a value: \<open>randomize_choice_values\<close> sets all of them to \<open>y\<close>
  that have none, one after the other, also those that are not members.
\<close>

definition below_choice :: "kstate \<Rightarrow> mid list \<Rightarrow> sid \<Rightarrow> bool" where
  "below_choice k ms a \<longleftrightarrow>
     (\<exists>c \<in> set ms. \<exists>b. new_value_symbol k c = Some b \<and> sym_is_choice (syms k b)
        \<and> (\<exists>cs. sub_entries (menus k) c = Some cs \<and> (\<exists>i \<in> set cs. m_sym (menus k i) = Some a)))"

definition may_get :: "conf_def_mode \<Rightarrow> probabilities \<Rightarrow> kstate \<Rightarrow> mid list \<Rightarrow> sid \<Rightarrow> tristate \<Rightarrow> bool" where
  "may_get mode q k ms a v \<longleftrightarrow>
     value_ok mode q (s_type (syms k a)) v \<or> mode = def_random \<and> v = tri_yes \<and> below_choice k ms a"

text \<open>The grammar puts nothing but members below a choice.\<close>

definition members_only :: "kstate \<Rightarrow> mid list \<Rightarrow> bool" where
  "members_only k ms \<longleftrightarrow> (\<forall>a. below_choice k ms a \<longrightarrow> sym_is_choice_value (syms k a))"

definition gained :: "(sid \<Rightarrow> tristate \<Rightarrow> bool) \<Rightarrow> kstate \<Rightarrow> kstate \<Rightarrow> bool" where
  "gained G k k' \<longleftrightarrow> set_eq k k' \<and> invalid k' = invalid k \<and> (\<forall>a. s_type (syms k' a) = s_type (syms k a))
     \<and> (\<forall>a. if sym_has_value (syms k a) then user_tri k' a = user_tri k a
          else (\<not> sym_has_value (syms k' a) \<and> choice_link (syms k' a) = choice_link (syms k a))
            \<or> (\<exists>v. user_tri k' a = Some v \<and> G a v))"

lemma user_tri_value: "user_tri k a = None \<longleftrightarrow> \<not> sym_has_value (syms k a)"
  by (simp add: user_tri_def)

lemma set_eq_refl [simp]: "set_eq k k"
  by (simp add: set_eq_def menu_links_def)

lemma gained_refl [simp]: "gained G k k"
  by (simp add: gained_def)

lemma gained_trans:
  assumes "gained G k l" and "gained G l m"
  shows "gained G k m"
proof -
  have "if sym_has_value (syms k a) then user_tri m a = user_tri k a
      else (\<not> sym_has_value (syms m a) \<and> choice_link (syms m a) = choice_link (syms k a))
        \<or> (\<exists>v. user_tri m a = Some v \<and> G a v)" for a
    using assms unfolding gained_def
    by (metis (no_types, opaque_lifting) option.distinct(1) user_tri_value)
  with assms show ?thesis by (auto simp: gained_def intro: set_eq_trans)
qed

lemma gained_links:
  assumes "gained G k k'"
  shows "m_sym (menus k' m) = m_sym (menus k m)" "m_prompt (menus k' m) = m_prompt (menus k m)"
    "s_type (syms k' a) = s_type (syms k a)" "sym_is_choice (syms k' a) = sym_is_choice (syms k a)"
    "sub_entries (menus k') m = sub_entries (menus k) m"
    "sym_has_value (syms k a) \<Longrightarrow> sym_has_value (syms k' a)"
proof -
  from assms have l: "menu_links (menus k) (menus k')" by (simp add: gained_def set_eq_def)
  then show "m_sym (menus k' m) = m_sym (menus k m)" "m_prompt (menus k' m) = m_prompt (menus k m)"
    by (simp_all add: menu_links_def)
  show "sub_entries (menus k') m = sub_entries (menus k) m" 
    by (rule sub_entries_links [OF l])
  show "s_type (syms k' a) = s_type (syms k a)" "sym_is_choice (syms k' a) = sym_is_choice (syms k a)"
    using assms by (auto simp: gained_def set_eq_def sym_is_choice_def)
  show "sym_has_value (syms k a) \<Longrightarrow> sym_has_value (syms k' a)"
    using assms user_tri_value by (metis gained_def)
qed

text \<open>No symbol becomes one that wants a value.\<close>

lemma gained_new_value_symbol:
  assumes "gained G k k'" and "new_value_symbol k' m = Some a"
  shows "new_value_symbol k m = Some a"
proof -
  note l = gained_links [OF assms(1)]
  have a: "\<not> sym_has_value (syms k' a)" "m_sym (menus k' m) = Some a"
    using assms(2) by (auto simp: new_value_symbol_def split: option.splits if_splits)
  then have "\<not> sym_has_value (syms k a)" using l(6) by blast
  moreover have "choice_link (syms k' a) = choice_link (syms k a)"
    using assms(1) a(1) user_tri_value calculation unfolding gained_def by (metis option.distinct(1))
  ultimately show ?thesis
    using assms(2) a l by (auto simp: new_value_symbol_def sym_is_choice_value_def split: if_splits)
qed

lemma gained_below_choice:
  assumes "gained G k k'" and "below_choice k' ms a"
  shows "below_choice k ms a"
  using assms(2) gained_new_value_symbol [OF assms(1)] gained_links [OF assms(1)]
  unfolding below_choice_def by metis

lemma gained_set:
  assumes "\<not> sym_has_value (syms k a)" and "G a v"
  shows "gained G k (set_flag a SYMBOL_DEF_USER (set_user_tri a v k))"
    and "gained G k (list_move_tail_choice a c (set_flag a SYMBOL_DEF_USER (set_user_tri a v k)))"
  using assms
  by (auto simp: gained_def set_eq_def menu_links_def invalid_def set_flag_def set_user_tri_def user_tri_def
      sym_has_value_def list_move_tail_choice_def Let_def)

lemma pick_member_gained:
  "(\<And>m a. m \<in> set ms \<Longrightarrow> m_sym (menus k m) = Some a \<Longrightarrow> G a tri_yes) \<Longrightarrow> gained G k (pick_member c ms x k)"
proof (induction c ms x k rule: pick_member.induct)
  case (2 c m ms x k)
  have G: "m_sym (menus k i) = Some a \<Longrightarrow> G a tri_yes" if "i \<in> set (m # ms)" for i a
    using "2.prems" that by blast
  show ?case
  proof (cases "new_entry k m")
    case new: True
    show ?thesis
    proof (cases x)
      case 0
      with new G [of m] show ?thesis
        by (auto simp: new_entry_def intro: gained_set split: option.split)
    next
      case (Suc y)
      with new have "gained G k (pick_member c ms y k)" using G by (intro "2.IH"(1)) auto
      with new Suc show ?thesis by simp
    qed
  next
    case False
    then have "gained G k (pick_member c ms x k)" using G by (intro "2.IH"(2)) auto
    with False show ?thesis by simp
  qed
qed simp

lemma fk_simps [simp]:
  "fk (on_cf (on_ks g) f) = g (fk f)" "environ (cf (on_cf (on_ks g) f)) = environ (cf f)"
  "rand rnd f = (r, f') \<Longrightarrow> fk f' = fk f" "rand rnd f = (r, f') \<Longrightarrow> cf f' = cf f"
  by (auto simp: on_cf_def rand_def)

lemma pick_members_gained:
  assumes "\<And>m a. m \<in> set ms \<Longrightarrow> m_sym (menus (fk f) m) = Some a \<Longrightarrow> G a tri_yes"
  shows "gained G (fk f) (fk (pick_members rnd c ms n f))"
  using assms
proof (induction n arbitrary: f)
  case (Suc n)
  obtain r f' where r: "rand rnd f = (r, f')" by fastforce
  let ?f = "on_cf (on_ks (pick_member c ms (r mod Suc n))) f'"
  have g: "gained G (fk f) (fk ?f)" using pick_member_gained [of ms "fk f" G] Suc.prems r by simp
  then have "gained G (fk ?f) (fk (pick_members rnd c ms n ?f))"
    using Suc.IH [of ?f] Suc.prems gained_links(1) [OF g] by auto
  with g show ?case using gained_trans by (auto simp: r)
qed simp

lemma random_value_ok:
  "0 \<le> cnt \<Longrightarrow> cnt < 100 \<Longrightarrow> value_ok def_random q ty (random_value q ty cnt)"
  by (auto simp: value_ok_def random_value_def)

lemma new_value_ok:
  "new_value rnd mode q ty f = (Some v, f') \<Longrightarrow> value_ok mode q ty v \<and> fk f' = fk f"
  by (cases mode)
     (auto simp: new_value_def value_ok_def [of def_yes] value_ok_def [of def_mod] value_ok_def [of def_no]
      split: prod.splits intro!: random_value_ok)

lemma new_value_None: "new_value rnd mode q ty f = (None, f') \<Longrightarrow> mode = def_default \<and> f' = f"
  by (cases mode) (auto simp: new_value_def split: prod.splits)

text \<open>The symbols that get a value of the mode.\<close>

definition wants_value :: "kstate \<Rightarrow> mid \<Rightarrow> sid \<Rightarrow> bool" where
  "wants_value k m a \<longleftrightarrow> m_sym (menus k m) = Some a \<and> m_prompt (menus k m) \<noteq> None \<and> \<not> sym_has_value (syms k a)
     \<and> s_type (syms k a) \<in> {S_BOOLEAN, S_TRISTATE} \<and> \<not> sym_is_choice_value (syms k a) \<and> \<not> sym_is_choice (syms k a)"

lemma wants_value_iff: "wants_value k m a \<longleftrightarrow> new_value_symbol k m = Some a \<and> \<not> sym_is_choice (syms k a)"
  by (auto simp: wants_value_def new_value_symbol_def split: option.splits)

definition has_ok_value :: "(sid \<Rightarrow> tristate \<Rightarrow> bool) \<Rightarrow> kstate \<Rightarrow> sid \<Rightarrow> bool" where
  "has_ok_value G k a \<longleftrightarrow> (\<exists>v. user_tri k a = Some v \<and> G a v)"

lemma may_get_value:
  "members_only k ms \<Longrightarrow> wants_value k m a \<Longrightarrow> may_get mode q k ms a v \<Longrightarrow> value_ok mode q (s_type (syms k a)) v"
  by (auto simp: members_only_def wants_value_def may_get_def)

lemma new_value_symbolD:
  "new_value_symbol k m = Some a \<Longrightarrow> m_sym (menus k m) = Some a \<and> \<not> sym_has_value (syms k a)"
  by (auto simp: new_value_symbol_def split: option.splits if_splits)

text \<open>\<open>k\<close> is the state at the start of the function, \<open>ms\<close> are all entries.\<close>

lemma set_new_entry_result:
  assumes "set_new_entry rnd mode q m f = Some f'" and k: "gained G k (fk f)" "m \<in> set ms" and G: "G = may_get mode q k ms"
  shows "gained G (fk f) (fk f')"
    and "wants_value (fk f) m a \<Longrightarrow> mode \<noteq> def_default \<Longrightarrow> has_ok_value G (fk f') a"
proof -
  have "gained G (fk f) (fk f') \<and> (wants_value (fk f) m a \<longrightarrow> mode \<noteq> def_default \<longrightarrow> has_ok_value G (fk f') a)"
  proof (cases "new_value_symbol (fk f) m")
    case None
    with assms(1) show ?thesis by (simp add: set_new_entry_def wants_value_iff)
  next
    case (Some b)
    show ?thesis
    proof (cases "sym_is_choice (syms (fk f) b)")
      case True
      have "G c tri_yes" if "mode = def_random" "sub_entries (menus (fk f)) m = Some cs" "i \<in> set cs" "m_sym (menus (fk f) i) = Some c" for cs i c
      proof -
        have "below_choice (fk f) ms c" using Some True that k(2) unfolding below_choice_def by blast
        then show ?thesis using gained_below_choice [OF k(1)] that(1) by (simp add: G may_get_def)
      qed
      with Some True assms(1) show ?thesis
        using pick_members_gained [of _ f G]
        by (auto simp: set_new_entry_def randomize_choice_values_def wants_value_iff bind_Some_iff split: if_splits)
    next
      case False
      obtain u f1 where u: "new_value rnd mode q (s_type (syms (fk f) b)) f = (u, f1)" by fastforce
      have b: "\<not> sym_has_value (syms (fk f) b)" using new_value_symbolD [OF Some] by simp
      show ?thesis
      proof (cases u)
        case None
        with u False Some assms(1) show ?thesis
          by (auto simp: set_new_entry_def dest: new_value_None)
      next
        case v: (Some v)
        have ok: "G b v" "fk f1 = fk f"
          using new_value_ok [of rnd mode q _ f v f1] u v gained_links(3) [OF k(1)] by (simp_all add: G may_get_def)
        have f': "fk f' = set_flag b SYMBOL_DEF_USER (set_user_tri b v (fk f))"
          using assms(1) False Some u v ok(2) by (simp add: set_new_entry_def) (metis fk_simps(1))
        then have "wants_value (fk f) m a \<longrightarrow> has_ok_value G (fk f') a"
          using ok(1) Some by (auto simp: wants_value_iff has_ok_value_def)
        with gained_set(1) [of "fk f" b G v] b ok(1) show ?thesis by (auto simp: f')
      qed
    qed
  qed
  then show "gained G (fk f) (fk f')" "wants_value (fk f) m a \<Longrightarrow> mode \<noteq> def_default \<Longrightarrow> has_ok_value G (fk f') a" by auto
qed

lemma gained_ok_value:
  assumes "gained G k k'" and "has_ok_value G k a"
  shows "has_ok_value G k' a"
proof -
  have "sym_has_value (syms k a)" using assms(2) by (auto simp: has_ok_value_def user_tri_def split: if_splits)
  with assms show ?thesis by (auto simp: gained_def has_ok_value_def)
qed

lemma gained_wants_value:
  assumes "gained G k k'" and "wants_value k m a"
  shows "wants_value k' m a \<or> has_ok_value G k' a"
proof -
  note l = gained_links [OF assms(1)]
  have a: "m_sym (menus k m) = Some a" "\<not> sym_has_value (syms k a)"
    using assms(2) by (auto simp: wants_value_def)
  with assms(1) consider "\<not> sym_has_value (syms k' a)" "choice_link (syms k' a) = choice_link (syms k a)"
    | v where "user_tri k' a = Some v" "G a v"
    unfolding gained_def by metis
  then show ?thesis
    using assms(2) a l
    by cases (auto simp: wants_value_def sym_is_choice_value_def has_ok_value_def)
qed

lemma set_new_entries_result:
  assumes "set_new_entries rnd mode q ns f = Some f'" and "gained G k (fk f)" "set ns \<subseteq> set ms" and G: "G = may_get mode q k ms"
  shows "gained G (fk f) (fk f')"
    and "m \<in> set ns \<Longrightarrow> wants_value (fk f) m a \<Longrightarrow> mode \<noteq> def_default \<Longrightarrow> has_ok_value G (fk f') a"
proof -
  have "gained G (fk f) (fk f') \<and> (m \<in> set ns \<longrightarrow> wants_value (fk f) m a \<longrightarrow> mode \<noteq> def_default \<longrightarrow> has_ok_value G (fk f') a)"
    using assms(1-3)
  proof (induction ns arbitrary: f)
    case (Cons x ns)
    then obtain f1 where f1: "set_new_entry rnd mode q x f = Some f1" "set_new_entries rnd mode q ns f1 = Some f'"
      by (auto simp: bind_Some_iff)
    have x: "x \<in> set ms" using Cons.prems(3) by simp
    note g = set_new_entry_result [OF f1(1) Cons.prems(2) x G]
    have IH: "gained G (fk f1) (fk f') \<and> (m \<in> set ns \<longrightarrow> wants_value (fk f1) m a \<longrightarrow> mode \<noteq> def_default \<longrightarrow> has_ok_value G (fk f') a)"
      using Cons.IH [OF f1(2) gained_trans [OF Cons.prems(2) g(1)]] Cons.prems(3) by simp
    have "has_ok_value G (fk f') a" if "m \<in> set (x # ns)" "wants_value (fk f) m a" "mode \<noteq> def_default"
    proof (cases "m = x")
      case True
      with that g(2) have "has_ok_value G (fk f1) a" by simp
      with IH gained_ok_value show ?thesis by blast
    next
      case False
      with that gained_wants_value [OF g(1) that(2)] IH gained_ok_value show ?thesis by auto
    qed
    with gained_trans [OF g(1)] IH show ?case by blast
  qed simp
  then show "gained G (fk f) (fk f')"
    and "m \<in> set ns \<Longrightarrow> wants_value (fk f) m a \<Longrightarrow> mode \<noteq> def_default \<Longrightarrow> has_ok_value G (fk f') a" by auto
qed

section \<open>The whole function\<close>

lemma set_new_entry_returns:
  assumes "wf_state (fk f)"
  shows "\<exists>f'. set_new_entry rnd mode q m f = Some f'"
proof -
  have "sub_entries (menus (fk f)) m \<noteq> None" if "new_value_symbol (fk f) m = Some a" "sym_is_choice (syms (fk f) a)" for a
    using assms that new_value_symbolD [OF that(1)] by (auto simp: wf_state_def)
  then show ?thesis
    by (auto simp: set_new_entry_def randomize_choice_values_def split: option.split prod.split)
qed

lemma set_new_entries_returns:
  "wf_state (fk f) \<Longrightarrow> \<exists>f'. set_new_entries rnd mode q ms f = Some f'"
proof (induction ms arbitrary: f)
  case (Cons m ms)
  then obtain f1 where f1: "set_new_entry rnd mode q m f = Some f1" using set_new_entry_returns by blast
  have "gained (may_get mode q (fk f) [m]) (fk f) (fk f1)"
    by (rule set_new_entry_result(1) [OF f1 gained_refl _ refl]) simp
  then have "wf_state (fk f1)" using set_eq_wf Cons.prems by (auto simp: gained_def)
  with f1 Cons.IH [of f1] show ?case by simp
qed simp

lemma clear_all_valid_front:
  assumes "settable n (ks c)"
  shows "\<exists>c'. clear_all_valid (sym_calc_value n) c = Some c'
    \<and> (\<forall>a. sym_has_value (syms (ks c) a) \<longrightarrow> user_tri (ks c') a = user_tri (ks c) a)"
proof -
  let ?c = "conf_set_changed True c"
  have "settable n (ks ?c)"
    by (rule settable_set_eq [OF assms]) (simp_all add: set_eq_def menu_links_def invalid_def)
  then obtain k where k: "sym_clear_all_valid (sym_calc_value n) (ks ?c) = Some k"
    using clear_all_valid_total by blast
  then have "clear_all_valid (sym_calc_value n) c = Some (?c\<lparr>ks := k\<rparr>)"
    by (simp add: clear_all_valid_def run_ks_def)
  moreover have "user_tri k a = user_tri (ks c) a" if "sym_has_value (syms (ks c) a)" for a
    using clear_all_valid_user(1) [OF k, of a] that by (simp add: user_tri_def)
  ultimately show ?thesis by auto
qed

lemma conf_set_all_new_symbols_result:
  assumes s: "settable n (fk f)" and ms: "sub_entries (menus (fk f)) rootmenu = Some ms"
    and q: "(if mode = def_random then env_probabilities (environ (cf f) ''KCONFIG_PROBABILITY'')
             else Some (derive_probabilities [])) = Some q"
  shows "\<exists>f'. conf_set_all_new_symbols w rnd (sym_calc_value n) mode f = Some (True, f')
    \<and> (\<forall>a. sym_has_value (syms (fk f) a) \<longrightarrow> user_tri (fk f') a = user_tri (fk f) a)
    \<and> (mode \<noteq> def_default \<longrightarrow> (\<forall>m \<in> set ms. \<forall>a. wants_value (fk f) m a \<longrightarrow>
         (\<exists>v. user_tri (fk f') a = Some v \<and> may_get mode q (fk f) ms a v
            \<and> (members_only (fk f) ms \<longrightarrow> value_ok mode q (s_type (syms (fk f) a)) v))))"
proof -
  let ?G = "may_get mode q (fk f) ms"
  obtain f1 where f1: "set_new_entries rnd mode q ms f = Some f1"
    using set_new_entries_returns [of f rnd mode q ms] s by (auto simp: settable_def)
  note g = set_new_entries_result(1) [OF f1 gained_refl subset_refl refl]
    and v = set_new_entries_result(2) [OF f1 gained_refl subset_refl refl]
  have "settable n (fk f1)" using settable_set_eq [OF s] g by (auto simp: gained_def)
  then obtain c where c: "clear_all_valid (sym_calc_value n) (cf f1) = Some c"
    and u: "\<And>a. sym_has_value (syms (fk f1) a) \<Longrightarrow> user_tri (ks c) a = user_tri (fk f1) a"
    using clear_all_valid_front [of n "cf f1"] by auto
  have "user_tri (ks c) a = user_tri (fk f) a" if "sym_has_value (syms (fk f) a)" for a
  proof -
    have "user_tri (fk f1) a = user_tri (fk f) a" using g that by (auto simp: gained_def)
    with that u [of a] user_tri_value [of "fk f" a] user_tri_value [of "fk f1" a] show ?thesis by auto
  qed
  moreover have "\<exists>v. user_tri (ks c) a = Some v \<and> ?G a v \<and> (members_only (fk f) ms \<longrightarrow> value_ok mode q (s_type (syms (fk f) a)) v)"
    if "mode \<noteq> def_default" "m \<in> set ms" "wants_value (fk f) m a" for m a
    using v [OF that(2,3,1)] u [of a] user_tri_value [of "fk f1" a] may_get_value [OF _ that(3)] by (auto simp: has_ok_value_def)
  ultimately show ?thesis
    using q f1 c ms by (auto simp: conf_set_all_new_symbols_def split: if_splits)
qed

end
