(* ===== verification/AskRun.thy ===== *)
theory AskRun
  imports ConfAsk
begin

text \<open>
  What the loop of \<open>oldconfig\<close> and \<open>syncconfig\<close> achieves: a pass is the last one exactly if going
  over the visible entries in its state comes across no symbol without a value that could be asked
  for, and such a pass changes nothing but evaluated symbols. If every symbol has a value, one pass
  is made and nothing is asked.
\<close>

section \<open>Loops\<close>

text \<open>A loop ends with a round that says so, and the rounds before it keep an invariant.\<close>

lemma rounds_last:
  assumes "rounds g s = Some s'" and "I s" and "\<And>s s'. I s \<Longrightarrow> g s = Some (False, s') \<Longrightarrow> I s'"
  shows "\<exists>t. I t \<and> g t = Some (True, s')"
proof -
  have "I s \<longrightarrow> (\<forall>s s'. I s \<longrightarrow> g s = Some (False, s') \<longrightarrow> I s') \<longrightarrow> (\<exists>t. I t \<and> g t = Some (True, s'))"
  proof (rule rounds.raw_induct [where P = "\<lambda>g s y. I s \<longrightarrow> (\<forall>s s'. I s \<longrightarrow> g s = Some (False, s') \<longrightarrow> I s')
      \<longrightarrow> (\<exists>t. I t \<and> g t = Some (True, y))", OF _ assms(1)], intro impI)
    fix rec g s y
    assume IH: "\<And>s b y. rec s b = Some y \<Longrightarrow> I b \<longrightarrow> (\<forall>sa s'. I sa \<longrightarrow> s sa = Some (False, s') \<longrightarrow> I s')
        \<longrightarrow> (\<exists>t. I t \<and> s t = Some (True, y))"
      and r: "Option.bind (g s) (\<lambda>(finished, s). if finished then Some s else rec g s) = Some y"
      and I: "I s" "\<forall>s s'. I s \<longrightarrow> g s = Some (False, s') \<longrightarrow> I s'"
    obtain b s1 where b: "g s = Some (b, s1)" using r by (cases "g s") auto
    show "\<exists>t. I t \<and> g t = Some (True, y)"
    proof (cases b)
      case True
      with r b I(1) show ?thesis by auto
    next
      case False
      with r b have "rec g s1 = Some y" by simp
      moreover have "g s = Some (False, s1)" using b False by simp
      ultimately show ?thesis using IH [of g s1 y] I by blast
    qed
  qed
  with assms(2,3) show ?thesis by blast
qed

lemma rounds_invariant:
  assumes "rounds g s = Some s'" and "I s" and "\<And>s b s'. I s \<Longrightarrow> g s = Some (b, s') \<Longrightarrow> I s'"
  shows "I s'"
proof -
  obtain t where "I t" "g t = Some (True, s')"
    using rounds_last [where I = I and g = g, OF assms(1,2)] assms(3) by blast
  then show ?thesis by (rule assms(3))
qed

lemma for_entries_None [simp]: "for_entries g None f = Some f"
  by (subst for_entries.simps) simp

lemma for_entries_Some:
  "for_entries g (Some i) f = Option.bind (g i f) (\<lambda>f. for_entries g (m_next (menus (fk f) i)) f)"
  by (subst for_entries.simps) simp

lemma for_entries_invariant:
  assumes "for_entries g c f = Some f'" and "I f" and "\<And>i f f'. I f \<Longrightarrow> g i f = Some f' \<Longrightarrow> I f'"
  shows "I f'"
proof -
  have "I f \<longrightarrow> (\<forall>i f f'. I f \<longrightarrow> g i f = Some f' \<longrightarrow> I f') \<longrightarrow> I f'"
  proof (rule for_entries.raw_induct [where P = "\<lambda>g c f y. I f \<longrightarrow> (\<forall>i f f'. I f \<longrightarrow> g i f = Some f' \<longrightarrow> I f') \<longrightarrow> I y",
      OF _ assms(1)], intro impI)
    fix rec g c f y
    assume IH: "\<And>c f b y. rec c f b = Some y \<Longrightarrow> I b \<longrightarrow> (\<forall>i f f'. I f \<longrightarrow> c i f = Some f' \<longrightarrow> I f') \<longrightarrow> I y"
      and r: "(case c of None \<Rightarrow> Some f
        | Some i \<Rightarrow> Option.bind (g i f) (\<lambda>f. rec g (m_next (menus (fk f) i)) f)) = Some y"
      and I: "I f" "\<forall>i f f'. I f \<longrightarrow> g i f = Some f' \<longrightarrow> I f'"
    show "I y"
    proof (cases c)
      case (Some i)
      with r obtain f1 where f1: "g i f = Some f1" "rec g (m_next (menus (fk f1) i)) f1 = Some y"
        by (auto simp: bind_Some_iff)
      with IH [OF f1(2)] I show ?thesis by blast
    qed (use r I in simp)
  qed
  with assms(2,3) show ?thesis by blast
qed

section \<open>What a question keeps\<close>

definition front_kept :: "front \<Rightarrow> front \<Rightarrow> bool" where
  "front_kept f f' \<longleftrightarrow> conf_cnt f' = conf_cnt f \<and> input_mode f' = input_mode f"

lemma front_kept_refl [simp]: "front_kept f f"
  by (simp add: front_kept_def)

lemma front_kept_trans: "front_kept f g \<Longrightarrow> front_kept g h \<Longrightarrow> front_kept f h"
  by (simp add: front_kept_def)

lemma kept_upd [simp]:
  "front_kept f (g\<lparr>cf := c\<rparr>) = front_kept f g" "front_kept f (g\<lparr>indent := n\<rparr>) = front_kept f g" "front_kept f (g\<lparr>line := l\<rparr>) = front_kept f g"
  "front_kept f (g\<lparr>rootEntry := r\<rparr>) = front_kept f g" "front_kept f (g\<lparr>stdin_text := t\<rparr>) = front_kept f g"
  "front_kept f (on_cf h g) = front_kept f g" "front_kept f (say t g) = front_kept f g"
  by (simp_all add: front_kept_def on_cf_def say_def)

lemma kept_line: "front_kept (f\<lparr>line := l\<rparr>) g = front_kept f g"
  by (simp add: front_kept_def)

lemma kept_run:
  "run_fk g f = Some f' \<Longrightarrow> front_kept f f'" "run_fk_value h f = Some (x, f') \<Longrightarrow> front_kept f f'"
  by (auto simp: run_fk_def run_fk_value_def)

lemma kept_xfgets [simp]: "front_kept f (xfgets g) = front_kept f g"
  by (auto simp: xfgets_def Let_def split: option.split prod.split)

lemma kept_print_help: "print_help d calc m f = Some f' \<Longrightarrow> front_kept f f'"
  by (auto simp: print_help_def bind_Some_iff dest: kept_run)

lemma kept_askvalue:
  assumes "conf_askvalue a def g = (b, f')"
  shows "front_kept f f' = front_kept f g"
  using assms by (auto simp: conf_askvalue_def Let_def split: if_splits)

lemma kept_string_question [simp]: "front_kept f (conf_string_question a p g) = front_kept f g"
  by (simp add: conf_string_question_def Let_def)

lemma kept_sym_question [simp]: "front_kept f (conf_sym_question a p g) = front_kept f g"
  by (auto simp: conf_sym_question_def Let_def split: option.split)

lemma kept_string_set: "conf_string_set calc a t f = Some (b, f') \<Longrightarrow> front_kept f f'"
  by (auto simp: conf_string_set_def dest: kept_run split: option.splits)

lemma kept_string_round:
  assumes "conf_string_round d calc m f = Some (b, f')"
  shows "front_kept f f'"
proof -
  obtain a p where a: "m_sym (menus (fk f) m) = Some a" "m_prompt (menus (fk f) m) = Some p"
    using assms by (auto simp: conf_string_round_def bind_Some_iff)
  obtain asked f1 where q: "conf_askvalue a (sym_get_string_value (syms (fk f) a)) (conf_string_question a p f) = (asked, f1)"
    by fastforce
  have f1: "front_kept f f1" by (simp add: kept_askvalue [OF q])
  have "front_kept f1 f'" if asked
    using assms that by (auto simp: conf_string_round_def a q bind_Some_iff
        dest!: kept_print_help kept_string_set simp: kept_line split: string_answer.splits)
  moreover have "f' = f1" if "\<not> asked"
    using assms that by (simp add: conf_string_round_def a q)
  ultimately show ?thesis using f1 front_kept_trans by blast
qed

lemma kept_sym_round:
  assumes "conf_sym_round d calc m f = Some (b, f')"
  shows "front_kept f f'"
proof -
  obtain a p where a: "m_sym (menus (fk f) m) = Some a" "m_prompt (menus (fk f) m) = Some p"
    using assms by (auto simp: conf_sym_round_def bind_Some_iff)
  obtain asked f1 where q: "conf_askvalue a (sym_get_string_value (syms (fk f) a)) (conf_sym_question a p f) = (asked, f1)"
    by fastforce
  have f1: "front_kept f f1" by (simp add: kept_askvalue [OF q])
  have "front_kept (f1\<lparr>line := strip (line f1)\<rparr>) f'" if asked
    using assms that by (auto simp: conf_sym_round_def a q bind_Some_iff Let_def
        dest!: kept_print_help kept_run intro: front_kept_trans split: tristate_answer.splits if_splits)
  then have "front_kept f1 f'" if asked
    using that by (simp add: kept_line)
  moreover have "f' = f1" if "\<not> asked"
    using assms that by (simp add: conf_sym_round_def a q)
  ultimately show ?thesis using f1 front_kept_trans by blast
qed

lemma kept_visible: "front_visible d calc m f = Some (v, f') \<Longrightarrow> front_kept f f'"
  by (auto simp: front_visible_def dest: kept_run)

lemma kept_choice_line:
  assumes "choice_line ds i l g = (l', f')"
  shows "front_kept f f' = front_kept f g"
  using assms by (auto simp: choice_line_def Let_def split: option.splits if_splits prod.splits)

lemma kept_choice_lines: "choice_lines d calc ds c l f = Some (l', f') \<Longrightarrow> front_kept f f'"
proof -
  have "front_kept f (snd r)" if "choice_lines d calc ds c l f = Some r" for r
  proof (rule choice_lines.raw_induct [where P = "\<lambda>d calc ds c l f r. front_kept f (snd r)", OF _ that])
    fix rec d calc ds c l f r
    assume 1: "\<And>d calc ds c l f r. rec d calc ds c l f = Some r \<Longrightarrow> front_kept f (snd r)"
      "(case c of None \<Rightarrow> Some (l, f)
        | Some i \<Rightarrow> Option.bind (front_visible d calc i f) (\<lambda>(v, f).
            case (if v then choice_line ds i l f else (l, f)) of
              (l, f) \<Rightarrow> rec d calc ds (m_next (menus (fk f) i)) l f)) = Some r"
    show "front_kept f (snd r)"
    proof (cases c)
      case (Some i)
      with 1(2) obtain v f1 where v: "front_visible d calc i f = Some (v, f1)"
        and r: "(case (if v then choice_line ds i l f1 else (l, f1)) of
              (l, f) \<Rightarrow> rec d calc ds (m_next (menus (fk f) i)) l f) = Some r"
        by (auto simp: bind_Some_iff)
      obtain l2 f2 where 2: "(if v then choice_line ds i l f1 else (l, f1)) = (l2, f2)" by fastforce
      with kept_visible [OF v] have "front_kept f f2" by (auto simp: kept_choice_line split: if_splits)
      moreover have "front_kept f2 (snd r)" using 1(1) r 2 by simp
      ultimately show ?thesis by (rule front_kept_trans)
    qed (use 1(2) in auto)
  qed
  then show "choice_lines d calc ds c l f = Some (l', f') \<Longrightarrow> front_kept f f'" by fastforce
qed

lemma kept_choice_child: "choice_child d calc c cnt f = Some (r, f') \<Longrightarrow> front_kept f f'"
proof -
  have "front_kept f (snd r)" if "choice_child d calc c cnt f = Some r" for r
  proof (rule choice_child.raw_induct [where P = "\<lambda>d calc c cnt f r. front_kept f (snd r)", OF _ that])
    fix rec d calc c cnt f r
    assume 1: "\<And>d calc c cnt f r. rec d calc c cnt f = Some r \<Longrightarrow> front_kept f (snd r)"
      "(case c of None \<Rightarrow> Some (None, f)
        | Some i \<Rightarrow>
            if m_sym (menus (fk f) i) = None then rec d calc (m_next (menus (fk f) i)) cnt f
            else Option.bind (front_visible d calc i f) (\<lambda>(v, f).
              if \<not> v then rec d calc (m_next (menus (fk f) i)) cnt f
              else if cnt - 1 = 0 then Some (Some i, f)
              else rec d calc (m_next (menus (fk f) i)) (cnt - 1) f)) = Some r"
    from 1(2) show "front_kept f (snd r)"
      by (auto simp: bind_Some_iff split: option.splits if_splits dest!: 1(1) kept_visible intro: front_kept_trans)
  qed
  then show "choice_child d calc c cnt f = Some (r, f') \<Longrightarrow> front_kept f f'" by fastforce
qed

lemma kept_choice_select:
  assumes "conf_choice_select l g = (x, f')"
  shows "front_kept f f' = front_kept f g"
  using assms by (auto simp: conf_choice_select_def Let_def split: if_splits)

lemma kept_choice_round:
  assumes "conf_choice_round d calc m n f = Some (b, n', f')"
  shows "front_kept f f'"
proof -
  obtain ds f1 where
    1: "run_fk_value (sym_calc_choice calc m) (say (spaces (indent f - 1) @ str_text (menu_get_prompt (fk f) m) @ [CHR 0x0A]) f) = Some (ds, f1)"
    using assms by (auto simp: conf_choice_round_def Let_def bind_Some_iff)
  obtain l f2 where
    2: "choice_lines d calc ds (m_list (menus (fk f1) m)) \<lparr>cl_cnt = 0, cl_def = 0, cl_new = n\<rparr> (f1\<lparr>line := []\<rparr>) = Some (l, f2)"
    using assms by (auto simp: conf_choice_round_def Let_def bind_Some_iff 1 [simplified])
  obtain x f3 where 3: "conf_choice_select l f2 = (x, f3)" by fastforce
  have r: "(case x of
       Choice_help \<Rightarrow> Option.bind (print_help d calc m f3) (\<lambda>f. Some (False, cl_new l, f))
     | Choice_again \<Rightarrow> Some (False, cl_new l, f3)
     | Number cnt \<Rightarrow> Option.bind (choice_child d calc (m_list (menus (fk f3) m)) cnt f3) (\<lambda>(child, f).
         case child of
           None \<Rightarrow> Some (False, cl_new l, f)
         | Some i \<Rightarrow>
             if line f \<noteq> '''' \<and> last (line f) = CHR ''?''
             then Option.bind (print_help d calc i f) (\<lambda>f. Some (False, cl_new l, f))
             else Option.bind (m_sym (menus (fk f) i)) (\<lambda>a.
               Option.bind (run_fk (choice_set_value calc m a) f) (\<lambda>f. Some (True, cl_new l, f))))) = Some (b, n', f')"
    using assms 1 2 3 by (simp add: conf_choice_round_def Let_def)
  have "front_kept f f3"
    using kept_run(2) [OF 1] kept_choice_lines [OF 2] kept_choice_select [OF 3] by (simp add: front_kept_def say_def on_cf_def)
  moreover have "front_kept f3 f'"
    using r by (auto simp: bind_Some_iff split: choice_answer.splits option.splits if_splits
        dest!: kept_print_help kept_choice_child kept_run intro: front_kept_trans)
  ultimately show ?thesis by (rule front_kept_trans)
qed

lemma kept_questions:
  "conf_string d calc m f = Some f' \<Longrightarrow> front_kept f f'"
  "conf_sym d calc m f = Some f' \<Longrightarrow> front_kept f f'"
  "conf_choice d calc m f = Some f' \<Longrightarrow> front_kept f f'"
proof -
  show "conf_string d calc m f = Some f' \<Longrightarrow> front_kept f f'"
    unfolding conf_string_def by (erule rounds_invariant) (auto dest: kept_string_round front_kept_trans)
  show "conf_sym d calc m f = Some f' \<Longrightarrow> front_kept f f'"
    unfolding conf_sym_def by (erule rounds_invariant) (auto dest: kept_sym_round front_kept_trans)
  show "conf_choice d calc m f = Some f' \<Longrightarrow> front_kept f f'"
    using rounds_invariant [where I = "\<lambda>(n, f'). front_kept f f'"]
    by (fastforce simp: conf_choice_def dest: kept_choice_round intro: front_kept_trans)
qed

section \<open>The count of questions\<close>

text \<open>\<open>conf_cnt\<close> only grows, and the mode stays.\<close>

definition grows :: "front \<Rightarrow> front \<Rightarrow> bool" where
  "grows f f' \<longleftrightarrow> conf_cnt f \<le> conf_cnt f' \<and> input_mode f' = input_mode f"

lemma grows_refl [simp]: "grows f f"
  by (simp add: grows_def)

lemma grows_trans: "grows f g \<Longrightarrow> grows g h \<Longrightarrow> grows f h"
  by (auto simp: grows_def)

lemma kept_grows: "front_kept f g \<Longrightarrow> grows f g"
  by (simp add: front_kept_def grows_def)

lemma for_entries_grows:
  assumes "for_entries g c f = Some f'" and "\<And>m f f'. g m f = Some f' \<Longrightarrow> grows f f'"
  shows "grows f f'"
  by (rule for_entries_invariant [OF assms(1)]) (auto dest: assms(2) intro: grows_trans)

lemma conf_entry_grows:
  assumes r: "conf_entry d calc ask m f = Some f'" and g: "\<And>m f f'. ask m f = Some f' \<Longrightarrow> grows f f'"
  shows "grows f f'"
proof (cases "m_sym (menus (fk f) m)")
  case None
  with r have "for_entries ask (m_list (menus (fk f) m)) f = Some f'" by (simp add: conf_entry_def)
  then show ?thesis using for_entries_grows g by blast
next
  case (Some a)
  show ?thesis
  proof (cases "sym_is_choice (syms (fk f) a)")
    case True
    with Some r have "conf_choice d calc m f = Some f'" by (simp add: conf_entry_def)
    then show ?thesis using kept_questions(3) kept_grows by blast
  next
    case False
    with Some r obtain f3 f4 where
      3: "(if s_type (syms (fk f) a) \<in> {S_INT, S_HEX, S_STRING} then conf_string d calc m f
           else conf_sym d calc m f) = Some f3"
      and 4: "for_entries ask (m_list (menus (fk f3) m)) (f3\<lparr>indent := indent f3 + 2\<rparr>) = Some f4"
      and f': "f' = f4\<lparr>indent := indent f4 - 2\<rparr>"
      unfolding conf_entry_def by (auto simp: bind_Some_iff)
    have "grows f f3" using 3 kept_questions kept_grows by (auto split: if_splits)
    moreover have "grows (f3\<lparr>indent := indent f3 + 2\<rparr>) f4" using for_entries_grows [OF 4 g] .
    ultimately show ?thesis by (simp add: f' grows_def)
  qed
qed

lemma banner_grows: "grows f (conf_banner m f)"
  by (auto simp: grows_def conf_banner_def Let_def say_def on_cf_def split: option.split)

lemma conf_step_grows:
  assumes r: "conf_step d calc ask check m f = Some f'"
    and g: "\<And>m f f'. ask m f = Some f' \<Longrightarrow> grows f f'" "\<And>m f f'. check m f = Some f' \<Longrightarrow> grows f f'"
  shows "grows f f'"
proof -
  obtain v f1 where v: "front_visible d calc m f = Some (v, f1)"
    using r by (auto simp: conf_step_def bind_Some_iff)
  then have "grows f f1" using kept_grows kept_visible by blast
  moreover have e: "conf_entry d calc ask m g = Some f' \<Longrightarrow> grows g f'" for g
    using conf_entry_grows g(1) by blast
  have "grows f1 f'"
    using r v e g(2) grows_trans [OF banner_grows e]
    by (auto simp: conf_step_def split: if_splits)
  ultimately show ?thesis by (rule grows_trans)
qed

text \<open>In a mode that asks, a new symbol raises the count.\<close>

definition asking :: "front \<Rightarrow> bool" where
  "asking f \<longleftrightarrow> input_mode f \<noteq> listnewconfig \<and> input_mode f \<noteq> helpnewconfig"

lemma check_new_grows:
  assumes r: "check_new d calc ask m a f = Some f'"
    and g: "\<And>m f f'. ask m f = Some f' \<Longrightarrow> grows f f'"
  shows "grows f f'" and "asking f \<Longrightarrow> conf_cnt f < conf_cnt f'"
proof -
  have "grows f f' \<and> conf_cnt f < conf_cnt f'" if asking: "asking f"
  proof -
    obtain h q where "ask q h = Some f'" "conf_cnt h = conf_cnt f + 1" "input_mode h = input_mode f"
      using r asking unfolding check_new_def asking_def
      by (auto simp: bind_Some_iff Let_def say_def on_cf_def split: input_mode.splits)
    with g [of q h f'] show ?thesis by (auto simp: grows_def)
  qed
  moreover have "grows f f'" if "\<not> asking f"
    using r that unfolding check_new_def asking_def
    by (auto simp: bind_Some_iff grows_def say_def on_cf_def dest!: kept_print_help [unfolded front_kept_def] split: if_splits)
  ultimately show "grows f f'" "asking f \<Longrightarrow> conf_cnt f < conf_cnt f'" by blast+
qed

lemma check_conf_step_cases:
  assumes "check_conf_step d calc ask check m f = Some f'"
  obtains v f1 f2 where "front_visible d calc m f = Some (v, f1)"
    and "\<not> v \<Longrightarrow> f' = f1"
    and "v \<Longrightarrow> (case m_sym (menus (fk f1) m) of
           None \<Rightarrow> Some f1
         | Some a \<Rightarrow> if is_new_symbol (syms (fk f1) a) then check_new d calc ask m a f1 else Some f1) = Some f2"
    and "v \<Longrightarrow> for_entries check (m_list (menus (fk f2) m)) f2 = Some f'"
proof -
  obtain v f1 where v: "front_visible d calc m f = Some (v, f1)"
    using assms by (auto simp: check_conf_step_def bind_Some_iff)
  show ?thesis
  proof (cases v)
    case True
    with assms v that show ?thesis by (auto simp: check_conf_step_def bind_Some_iff)
  next
    case False
    with assms v that show ?thesis by (auto simp: check_conf_step_def)
  qed
qed

lemma check_conf_step_grows:
  assumes r: "check_conf_step d calc ask check m f = Some f'"
    and g: "\<And>m f f'. ask m f = Some f' \<Longrightarrow> grows f f'" "\<And>m f f'. check m f = Some f' \<Longrightarrow> grows f f'"
  shows "grows f f'"
proof (rule check_conf_step_cases [OF r], goal_cases)
  case (1 v f1 f2)
  note k = kept_grows [OF kept_visible [OF 1(1)]]
  show ?case
  proof (cases v)
    case True
    have "grows f1 f2" using 1(3) [OF True] check_new_grows(1) g(1) by (auto split: option.splits if_splits)
    moreover have "grows f2 f'" using for_entries_grows [OF 1(4) [OF True] g(2)] .
    ultimately show ?thesis using k grows_trans by blast
  qed (use 1(2) k in auto)
qed

lemma conf_grows:
  "conf n d calc m f = Some f' \<Longrightarrow> grows f f'"
  "check_conf n d calc m f = Some f' \<Longrightarrow> grows f f'"
proof (induction n arbitrary: m f f')
  case (Suc n)
  {
    case 1
    then show ?case using conf_step_grows [OF _ Suc.IH] by simp
  next
    case 2
    then show ?case using check_conf_step_grows [OF _ Suc.IH] by simp
  }
qed simp_all

section \<open>The symbols to ask for\<close>

text \<open>
  The visible symbols without a value that can be changed, in the order of the tree: the state is
  passed from the visibility of one entry to the next, and nothing is asked. What is below an
  entry that is not visible is left out.
\<close>

fun due :: "nat \<Rightarrow> calc \<Rightarrow> mtree \<Rightarrow> kstate \<Rightarrow> (sid list \<times> kstate) option"
  and dues :: "nat \<Rightarrow> calc \<Rightarrow> mtree list \<Rightarrow> kstate \<Rightarrow> (sid list \<times> kstate) option" where
  "due d calc (MNode m ts) k =
     Option.bind (menu_is_visible d calc m k) (\<lambda>(v, k).
       if \<not> v then Some ([], k)
       else map_option (apfst ((@) (filter (\<lambda>a. \<not> sym_has_value (syms k a) \<and> sym_is_changeable (syms k a))
                                         (case m_sym (menus k m) of None \<Rightarrow> [] | Some a \<Rightarrow> [a])))) (dues d calc ts k))"
| "dues d calc [] k = Some ([], k)"
| "dues d calc (t # ts) k = Option.bind (due d calc t k) (\<lambda>(l, k). map_option (apfst ((@) l)) (dues d calc ts k))"

lemma due_invisible: "menu_is_visible d calc m k = Some (False, k') \<Longrightarrow> due d calc (MNode m ts) k = Some ([], k')"
  by simp

lemma due_visible:
  "menu_is_visible d calc m k = Some (True, k') \<Longrightarrow> (\<And>a. m_sym (menus k' m) = Some a \<Longrightarrow> \<not> is_new_symbol (syms k' a)) \<Longrightarrow>
     due d calc (MNode m ts) k = dues d calc ts k'"
  by (auto simp: is_new_symbol_def apfst_def map_prod_def case_prod_unfold option.map_ident split: option.splits)

lemma due_visibleE:
  assumes "due d calc (MNode m ts) k = Some ([], k')"
  obtains v k1 where "menu_is_visible d calc m k = Some (v, k1)" and "\<not> v \<Longrightarrow> k' = k1"
    and "v \<Longrightarrow> (\<forall>a. m_sym (menus k1 m) = Some a \<longrightarrow> \<not> is_new_symbol (syms k1 a)) \<and> dues d calc ts k1 = Some ([], k')"
  using assms by (fastforce simp: bind_Some_iff is_new_symbol_def split: if_splits option.splits)

lemma any_visible_prims:
  assumes "any_visible f c s = Some (v, s')" and "\<And>i s v s'. f i s = Some (v, s') \<Longrightarrow> prim\<^sup>*\<^sup>* s s'"
  shows "prim\<^sup>*\<^sup>* s s'"
proof -
  have "(\<forall>i s v s'. f i s = Some (v, s') \<longrightarrow> prim\<^sup>*\<^sup>* s s') \<longrightarrow> prim\<^sup>*\<^sup>* s (snd (v, s'))"
  proof (rule any_visible.raw_induct [where P = "\<lambda>f c s r. (\<forall>i s v s'. f i s = Some (v, s') \<longrightarrow> prim\<^sup>*\<^sup>* s s')
      \<longrightarrow> prim\<^sup>*\<^sup>* s (snd r)", OF _ assms(1)], intro impI)
    fix rec f c s r
    assume IH: "\<And>f c s r. rec f c s = Some r \<Longrightarrow> (\<forall>i s v s'. f i s = Some (v, s') \<longrightarrow> prim\<^sup>*\<^sup>* s s') \<longrightarrow> prim\<^sup>*\<^sup>* s (snd r)"
      and e: "(case c of None \<Rightarrow> Some (False, s)
          | Some i \<Rightarrow> Option.bind (f i s) (\<lambda>(v, s). if v then Some (True, s) else rec f (m_next (menus s i)) s)) = Some r"
      and f: "\<forall>i s v s'. f i s = Some (v, s') \<longrightarrow> prim\<^sup>*\<^sup>* s s'"
    show "prim\<^sup>*\<^sup>* s (snd r)"
    proof (cases c)
      case (Some i)
      with e obtain u s1 where u: "f i s = Some (u, s1)" by (auto simp: bind_Some_iff)
      then have 1: "prim\<^sup>*\<^sup>* s s1" using f by blast
      show ?thesis
      proof (cases u)
        case False
        with e Some u have "rec f (m_next (menus s1 i)) s1 = Some r" by simp
        with IH f 1 show ?thesis by (meson rtranclp_trans)
      qed (use e Some u 1 in auto)
    qed (use e in auto)
  qed
  with assms(2) show ?thesis by auto
qed

lemma menu_is_visible_prims: "menu_is_visible d (sym_calc_value n) m s = Some (v, s') \<Longrightarrow> prim\<^sup>*\<^sup>* s s'"
proof (induction d arbitrary: m s v s')
  case (Suc d)
  have "returns False (visible_step (sym_calc_value n) (menu_is_visible d (sym_calc_value n)) m s) (\<lambda>(v, s'). prim\<^sup>*\<^sup>* s s')"
  proof (rule returns_mono [OF run.visible_step_run])
    fix u assume u: "prim\<^sup>*\<^sup>* s u"
    show "returns False (any_visible (menu_is_visible d (sym_calc_value n)) (m_list (menus (run.base s) m)) u) (\<lambda>(v, s'). prim\<^sup>*\<^sup>* s s')"
      using any_visible_prims [OF _ Suc.IH] u by (auto simp: returns_False intro: rtranclp_trans)
  qed auto
  with Suc.prems show ?case by (simp add: returns_False)
qed simp

definition in_state :: "kstate \<Rightarrow> front \<Rightarrow> front" where
  "in_state k f = f\<lparr>cf := (cf f)\<lparr>ks := k\<rparr>\<rparr>"

lemma in_state_sel [simp]: "fk (in_state k f) = k" "in_state k (in_state l f) = in_state k f" "in_state (fk f) f = f"
  by (simp_all add: in_state_def)

text \<open>Nothing but evaluations.\<close>

definition evaluated :: "front \<Rightarrow> front \<Rightarrow> bool" where
  "evaluated f f' \<longleftrightarrow> prim\<^sup>*\<^sup>* (fk f) (fk f') \<and> f' = in_state (fk f') f"

lemma evaluated_refl [simp]: "evaluated f f"
  by (simp add: evaluated_def)

lemma evaluated_trans: "evaluated f g \<Longrightarrow> evaluated g h \<Longrightarrow> evaluated f h"
  unfolding evaluated_def by (metis in_state_sel(2) rtranclp_trans)

lemma visible_prims:
  assumes v: "front_visible d (sym_calc_value n) m f = Some (v, f')"
  shows "evaluated f f'" and "menu_is_visible d (sym_calc_value n) m (fk f) = Some (v, fk f')"
proof -
  show r: "menu_is_visible d (sym_calc_value n) m (fk f) = Some (v, fk f')"
    using v by (auto simp: front_visible_def run_fk_value_def run_ks_value_def)
  have "f' = in_state (fk f') f"
    using v by (auto simp: front_visible_def run_fk_value_def run_ks_value_def in_state_def)
  with menu_is_visible_prims [OF r] show "evaluated f f'" by (simp add: evaluated_def)
qed

lemma prims_tree:
  assumes "prim\<^sup>*\<^sup>* k k'"
  shows "tree_ok (menus k') t = tree_ok (menus k) t" and "forest_ok (menus k') p ts = forest_ok (menus k) p ts"
    and "m_next (menus k' m) = m_next (menus k m)" and "m_list (menus k' m) = m_list (menus k m)"
    and "m_sym (menus k' m) = m_sym (menus k m)"
proof -
  have "menu_links (menus k) (menus k')" using prims_same_structure [OF assms] by (simp add: same_structure_def menu_eq_def)
  moreover from this have "menu_links (menus k') (menus k)" by (simp add: menu_links_def)
  ultimately show "tree_ok (menus k') t = tree_ok (menus k) t" "forest_ok (menus k') p ts = forest_ok (menus k) p ts"
    "m_next (menus k' m) = m_next (menus k m)" "m_list (menus k' m) = m_list (menus k m)"
    "m_sym (menus k' m) = m_sym (menus k m)"
    using tree_links by (blast, blast, simp_all add: menu_links_def)
qed

text \<open>A pass that does not raise the count only evaluates symbols, and the rest of the state stays.\<close>

definition quiet :: "(mid \<Rightarrow> front \<Rightarrow> front option) \<Rightarrow> bool" where
  "quiet g \<longleftrightarrow> (\<forall>m f f'. g m f = Some f' \<longrightarrow> grows f f' \<and> (asking f \<longrightarrow> conf_cnt f' \<le> conf_cnt f \<longrightarrow> evaluated f f'))"

lemma grows_asking: "grows f g \<Longrightarrow> asking g = asking f"
  by (simp add: grows_def asking_def)

lemma for_entries_evaluated:
  assumes "for_entries g c f = Some f'" and "quiet g" and "asking f"
  shows "grows f f' \<and> (conf_cnt f' \<le> conf_cnt f \<longrightarrow> evaluated f f')"
proof (rule for_entries_invariant [OF assms(1), where I = "\<lambda>h. grows f h \<and> (conf_cnt h \<le> conf_cnt f \<longrightarrow> evaluated f h)"])
  fix i h h' assume I: "grows f h \<and> (conf_cnt h \<le> conf_cnt f \<longrightarrow> evaluated f h)" and h: "g i h = Some h'"
  have "grows h h' \<and> (conf_cnt h' \<le> conf_cnt h \<longrightarrow> evaluated h h')"
    using assms(2,3) h I grows_asking [of f h] by (auto simp: quiet_def)
  with I show "grows f h' \<and> (conf_cnt h' \<le> conf_cnt f \<longrightarrow> evaluated f h')"
    by (auto simp: grows_def intro: evaluated_trans)
qed simp

lemma check_conf_step_old:
  assumes c: "(case m_sym (menus (fk f) m) of
           None \<Rightarrow> Some f
         | Some a \<Rightarrow> if is_new_symbol (syms (fk f) a) then check_new d calc ask m a f else Some f) = Some g"
    and g: "grows g f'" "conf_cnt f' \<le> conf_cnt f" "asking f" and ask: "\<And>m f f'. ask m f = Some f' \<Longrightarrow> grows f f'"
  shows "g = f" and "m_sym (menus (fk f) m) = Some a \<Longrightarrow> \<not> is_new_symbol (syms (fk f) a)"
proof -
  have "\<not> is_new_symbol (syms (fk f) a)" if "m_sym (menus (fk f) m) = Some a" for a
  proof
    assume "is_new_symbol (syms (fk f) a)"
    with c that have "check_new d calc ask m a f = Some g" by simp
    from check_new_grows(2) [OF this ask g(3)] g(1,2) show False by (simp add: grows_def)
  qed
  with c show "g = f" "m_sym (menus (fk f) m) = Some a \<Longrightarrow> \<not> is_new_symbol (syms (fk f) a)"
    by (auto split: option.splits)
qed

lemma check_conf_evaluated: "quiet (check_conf n d (sym_calc_value N))"
proof (induction n)
  case (Suc n)
  have "evaluated f f'"
    if r: "check_conf (Suc n) d (sym_calc_value N) m f = Some f'" and a: "asking f" and c: "conf_cnt f' \<le> conf_cnt f" for m f f'
  proof (rule check_conf_step_cases [OF r [unfolded check_conf.simps]], goal_cases)
    case (1 v f1 f2)
    note p = visible_prims [OF 1(1)]
    have k: "conf_cnt f1 = conf_cnt f" "asking f1"
      using kept_visible [OF 1(1)] a by (auto simp: front_kept_def asking_def)
    show ?case
    proof (cases v)
      case True
      note e = for_entries_grows [OF 1(4) [OF True] conf_grows(2)]
      have "f2 = f1" using check_conf_step_old(1) [OF 1(3) [OF True] e _ k(2) conf_grows(1)] c k(1) by simp
      with for_entries_evaluated [OF 1(4) [OF True] Suc.IH] k c p(1) show ?thesis by (auto intro: evaluated_trans)
    qed (use 1(2) p(1) in auto)
  qed
  with conf_grows(2) show ?case unfolding quiet_def by blast
qed (simp add: quiet_def)

lemma for_entries_due:
  assumes "for_entries g (first_entry ts) f = Some f'" and "conf_cnt f' \<le> conf_cnt f" and "asking f"
    and "forest_ok (menus (fk f')) p ts" and q: "quiet g"
    and step: "\<And>t f f'. t \<in> set ts \<Longrightarrow> g (entry t) f = Some f' \<Longrightarrow> conf_cnt f' \<le> conf_cnt f \<Longrightarrow> asking f \<Longrightarrow>
      tree_ok (menus (fk f')) t \<Longrightarrow> due d calc t (fk f) = Some ([], fk f')"
  shows "dues d calc ts (fk f) = Some ([], fk f')"
  using assms(1-4,6)
proof (induction ts arbitrary: f)
  case (Cons t ts)
  then obtain f1 where f1: "g (entry t) f = Some f1"
    and r: "for_entries g (m_next (menus (fk f1) (entry t))) f1 = Some f'"
    by (auto simp: for_entries_Some bind_Some_iff)
  have g1: "grows f f1" using q f1 by (auto simp: quiet_def)
  then have a: "asking f1" and c: "conf_cnt f \<le> conf_cnt f1"
    using Cons.prems(3) grows_asking [OF g1] by (auto simp: grows_def)
  note e = for_entries_evaluated [OF r q a]
  have c1: "conf_cnt f1 \<le> conf_cnt f" "conf_cnt f' \<le> conf_cnt f1" and p: "prim\<^sup>*\<^sup>* (fk f1) (fk f')"
    using e c Cons.prems(2) by (auto simp: grows_def evaluated_def)
  have "tree_ok (menus (fk f1)) t" using Cons.prems(4) prims_tree(1) [OF p] by simp
  with Cons.prems(5) [of t, OF _ f1 c1(1) Cons.prems(3)] have "due d calc t (fk f) = Some ([], fk f1)" by simp
  moreover have "for_entries g (first_entry ts) f1 = Some f'" using r Cons.prems(4) prims_tree(3) [OF p] by simp
  then have "dues d calc ts (fk f1) = Some ([], fk f')" using Cons.IH [OF _ c1(2) a] Cons.prems(4,5) by simp
  ultimately show ?case by simp
qed simp

lemma check_conf_due:
  assumes "check_conf n d (sym_calc_value N) m f = Some f'" and "conf_cnt f' \<le> conf_cnt f" and "asking f"
    and "tree_ok (menus (fk f')) t" and "entry t = m"
  shows "due d (sym_calc_value N) t (fk f) = Some ([], fk f')"
  using assms
proof (induction n arbitrary: m f f' t)
  case (Suc n)
  obtain ts where t: "t = MNode m ts" using Suc.prems(5) by (cases t) simp
  show ?case
  proof (rule check_conf_step_cases [OF Suc.prems(1) [unfolded check_conf.simps]], goal_cases)
    case (1 v f1 f2)
    note p = visible_prims [OF 1(1)]
    have k: "conf_cnt f1 = conf_cnt f" "asking f1"
      using kept_visible [OF 1(1)] Suc.prems(3) by (auto simp: front_kept_def asking_def)
    show ?case
    proof (cases v)
      case False
      with 1 p t show ?thesis by auto
    next
      case True
      have e: "grows f2 f'" by (rule for_entries_grows [OF 1(4) [OF True]]) (rule conf_grows(2))
      have c: "conf_cnt f' \<le> conf_cnt f1" using Suc.prems(2) k(1) by simp
      have f2: "f2 = f1" by (rule check_conf_step_old(1) [OF 1(3) [OF True] e c k(2)]) (rule conf_grows(1))
      have old: "\<not> is_new_symbol (syms (fk f1) a)" if a: "m_sym (menus (fk f1) m) = Some a" for a
        by (rule check_conf_step_old(2) [OF 1(3) [OF True] e c k(2) _ a]) (rule conf_grows(1))
      note r = 1(4) [OF True, unfolded f2]
      have p': "prim\<^sup>*\<^sup>* (fk f1) (fk f')"
        using for_entries_evaluated [OF r check_conf_evaluated k(2)] c by (simp add: evaluated_def)
      have l: "m_list (menus (fk f1) m) = first_entry ts" "forest_ok (menus (fk f')) m ts"
        using Suc.prems(4) prims_tree(4) [OF p'] t by simp_all
      have "dues d (sym_calc_value N) ts (fk f1) = Some ([], fk f')"
        by (rule for_entries_due [OF r [unfolded l(1)] c k(2) l(2) check_conf_evaluated]) (use Suc.IH in blast)
      moreover have "due d (sym_calc_value N) t (fk f) = dues d (sym_calc_value N) ts (fk f1)"
        unfolding t by (rule due_visible) (use p(2) True old in auto)
      ultimately show ?thesis by (simp only:)
    qed
  qed
qed simp

text \<open>The converse: without a symbol to ask for, the walk evaluates and does nothing else.\<close>

lemma due_prims:
  "due d (sym_calc_value N) t k = Some (l, k') \<Longrightarrow> prim\<^sup>*\<^sup>* k k'"
  "dues d (sym_calc_value N) ts k = Some (l, k') \<Longrightarrow> prim\<^sup>*\<^sup>* k k'"
proof (induction d "sym_calc_value N" t k and d "sym_calc_value N" ts k arbitrary: l k' and l k' rule: due_dues.induct)
  case (1 d m ts k)
  then show ?case
    by (auto simp: bind_Some_iff split: if_splits dest: menu_is_visible_prims intro: rtranclp_trans)
next
  case (3 d t ts k)
  then show ?case by (auto simp: bind_Some_iff intro: rtranclp_trans)
qed simp

lemma for_entries_without_due:
  assumes "dues d (sym_calc_value N) ts (fk f) = Some ([], k)" and "forest_ok (menus (fk f)) p ts"
    and "\<And>t f k. t \<in> set ts \<Longrightarrow> due d (sym_calc_value N) t (fk f) = Some ([], k) \<Longrightarrow> tree_ok (menus (fk f)) t \<Longrightarrow>
      g (entry t) f = Some (in_state k f)"
  shows "for_entries g (first_entry ts) f = Some (in_state k f)"
  using assms
proof (induction ts arbitrary: f)
  case Nil
  then show ?case by auto
next
  case (Cons t ts)
  then obtain k1 where 1: "due d (sym_calc_value N) t (fk f) = Some ([], k1)" "dues d (sym_calc_value N) ts k1 = Some ([], k)"
    by (auto simp: bind_Some_iff apfst_def map_prod_def)
  note p = due_prims(1) [OF 1(1)]
  have "g (entry t) f = Some (in_state k1 f)" using Cons.prems(2,3) 1(1) by simp
  moreover have "for_entries g (first_entry ts) (in_state k1 f) = Some (in_state k (in_state k1 f))"
    using Cons.IH [of "in_state k1 f"] 1(2) prims_tree(2) [OF p] Cons.prems(2,3) by simp
  moreover have "m_next (menus k1 (entry t)) = first_entry ts" using prims_tree(3) [OF p] Cons.prems(2) by simp
  ultimately show ?case by (simp add: for_entries_Some)
qed

lemma check_conf_without_due:
  assumes "due d (sym_calc_value N) t (fk f) = Some ([], k)" and "tree_ok (menus (fk f)) t" and "height t \<le> n" and "entry t = m"
  shows "check_conf n d (sym_calc_value N) m f = Some (in_state k f)"
  using assms
proof (induction n arbitrary: m f t k)
  case 0
  then show ?case by (cases t) simp
next
  case (Suc n)
  obtain ts where t: "t = MNode m ts" using Suc.prems(4) by (cases t) simp
  obtain v k1 where v: "menu_is_visible d (sym_calc_value N) m (fk f) = Some (v, k1)" "\<not> v \<Longrightarrow> k = k1"
    and r: "v \<Longrightarrow> (\<forall>a. m_sym (menus k1 m) = Some a \<longrightarrow> \<not> is_new_symbol (syms k1 a)) \<and> dues d (sym_calc_value N) ts k1 = Some ([], k)"
    using due_visibleE [OF Suc.prems(1) [unfolded t]] by blast
  have fv: "front_visible d (sym_calc_value N) m f = Some (v, in_state k1 f)"
    using v(1) by (simp add: front_visible_def run_fk_value_def run_ks_value_def in_state_def)
  show ?case
  proof (cases v)
    case True
    note p = menu_is_visible_prims [OF v(1)]
    have ok: "forest_ok (menus k1) m ts" "m_list (menus k1 m) = first_entry ts"
      using prims_tree(1) [OF p, of t] Suc.prems(2) t by simp_all
    have "for_entries (check_conf n d (sym_calc_value N)) (first_entry ts) (in_state k1 f) = Some (in_state k (in_state k1 f))"
    proof (rule for_entries_without_due)
      show "dues d (sym_calc_value N) ts (fk (in_state k1 f)) = Some ([], k)" "forest_ok (menus (fk (in_state k1 f))) m ts"
        using r [OF True] ok by simp_all
      show "check_conf n d (sym_calc_value N) (entry u) g = Some (in_state l g)"
        if "u \<in> set ts" "due d (sym_calc_value N) u (fk g) = Some ([], l)" "tree_ok (menus (fk g)) u" for u g l
        using Suc.IH [OF that(2,3)] height_le [OF that(1)] Suc.prems(3) t by auto
    qed
    with True fv ok(2) r show ?thesis by (auto simp: check_conf_step_def split: option.split)
  qed (use fv v(2) in \<open>simp add: check_conf_step_def\<close>)
qed

section \<open>The loop\<close>

text \<open>A pass that asks for nothing, exactly.\<close>

lemma quiet_pass_due:
  assumes r: "update_pass n d (sym_calc_value N) f = Some (True, f')" and a: "asking f"
    and t: "tree_ok (menus (fk f)) t \<or> tree_ok (menus (fk f')) t" "entry t = rootmenu"
  shows "due d (sym_calc_value N) t (fk f) = Some ([], fk f')" and "f' = in_state (fk f') (f\<lparr>conf_cnt := 0\<rparr>)"
proof -
  have c: "check_conf n d (sym_calc_value N) rootmenu (f\<lparr>conf_cnt := 0\<rparr>) = Some f'" "conf_cnt f' = 0"
    using r by (auto simp: update_pass_def bind_Some_iff)
  have f: "asking (f\<lparr>conf_cnt := 0\<rparr>)" "conf_cnt f' \<le> conf_cnt (f\<lparr>conf_cnt := 0\<rparr>)" using a c(2) by (simp_all add: asking_def)
  note q = check_conf_evaluated [of n d N, unfolded quiet_def, rule_format, OF c(1)]
  have e: "evaluated (f\<lparr>conf_cnt := 0\<rparr>) f'" by (rule conjunct2 [OF q, rule_format]) (rule f)+
  then show "f' = in_state (fk f') (f\<lparr>conf_cnt := 0\<rparr>)" unfolding evaluated_def by blast
  from e have p: "prim\<^sup>*\<^sup>* (fk f) (fk f')" by (simp add: evaluated_def)
  have "tree_ok (menus (fk f')) t" using t(1) prims_tree(1) [OF p] by simp
  from check_conf_due [OF c(1) f(2,1) this t(2)] show "due d (sym_calc_value N) t (fk f) = Some ([], fk f')" by simp
qed

lemma quiet_pass_iff:
  assumes "asking f" and t: "tree_ok (menus (fk f)) t" "height t \<le> n" "entry t = rootmenu"
  shows "update_pass n d (sym_calc_value N) f = Some (True, f') \<longleftrightarrow>
     (\<exists>k. due d (sym_calc_value N) t (fk f) = Some ([], k) \<and> f' = in_state k (f\<lparr>conf_cnt := 0\<rparr>))"
proof -
  have "update_pass n d (sym_calc_value N) f = Some (True, in_state k (f\<lparr>conf_cnt := 0\<rparr>))"
    if "due d (sym_calc_value N) t (fk f) = Some ([], k)" for k
  proof -
    have "check_conf n d (sym_calc_value N) rootmenu (f\<lparr>conf_cnt := 0\<rparr>) = Some (in_state k (f\<lparr>conf_cnt := 0\<rparr>))"
      by (rule check_conf_without_due) (use that t in simp_all)
    then show ?thesis by (simp add: update_pass_def in_state_def)
  qed
  with quiet_pass_due [OF _ assms(1) _ t(3)] t(1) show ?thesis by blast
qed

text \<open>The passes that asked for something, one after the other.\<close>

abbreviation asked_passes :: "nat \<Rightarrow> nat \<Rightarrow> calc \<Rightarrow> front \<Rightarrow> front \<Rightarrow> bool" where
  "asked_passes n d calc \<equiv> (\<lambda>f g. update_pass n d calc f = Some (False, g))\<^sup>*\<^sup>*"

lemma asked_passes_asking: "asked_passes n d calc f g \<Longrightarrow> asking g = asking f"
  by (induction rule: rtranclp_induct)
     (auto simp: update_pass_def bind_Some_iff grows_def asking_def dest!: conf_grows(2))

theorem update_loop_result:
  assumes r: "update_loop n d (sym_calc_value N) f = Some f'" and a: "asking f"
    and t: "tree_ok (menus (fk f')) t" "entry t = rootmenu"
  shows "\<exists>g. asked_passes n d (sym_calc_value N) f g \<and> due d (sym_calc_value N) t (fk g) = Some ([], fk f')
    \<and> f' = in_state (fk f') (g\<lparr>conf_cnt := 0\<rparr>)"
proof -
  have "\<exists>g. asked_passes n d (sym_calc_value N) f g \<and> update_pass n d (sym_calc_value N) g = Some (True, f')"
    by (rule rounds_last [OF r [unfolded update_loop_def]]) (auto intro: rtranclp.rtrancl_into_rtrancl)
  then obtain g where g: "asked_passes n d (sym_calc_value N) f g" "update_pass n d (sym_calc_value N) g = Some (True, f')"
    by blast
  have "asking g" using asked_passes_asking [OF g(1)] a by simp
  from quiet_pass_due [OF g(2) this _ t(2)] t(1) g(1) show ?thesis by blast
qed

theorem update_loop_without_due:
  assumes "due d (sym_calc_value N) t (fk f) = Some ([], k)" "asking f" "tree_ok (menus (fk f)) t" "height t \<le> n" "entry t = rootmenu"
  shows "update_loop n d (sym_calc_value N) f = Some (in_state k (f\<lparr>conf_cnt := 0\<rparr>))"
proof -
  have "update_pass n d (sym_calc_value N) f = Some (True, in_state k (f\<lparr>conf_cnt := 0\<rparr>))"
    using quiet_pass_iff [OF assms(2-5), of d N] assms(1) by blast
  then show ?thesis unfolding update_loop_def by (subst rounds.simps) simp
qed

text \<open>The symbols to ask for exist, and there is none when every symbol has a value.\<close>

definition all_have_values :: "kstate \<Rightarrow> bool" where
  "all_have_values k \<longleftrightarrow> (\<forall>m a. m_sym (menus k m) = Some a \<longrightarrow> sym_has_value (syms k a))"

lemma prims_all_values: "all_have_values k \<Longrightarrow> prim\<^sup>*\<^sup>* k k' \<Longrightarrow> all_have_values k'"
  using prims_tree(5) prims_has_value by (auto simp: all_have_values_def)

lemma settable_visible:
  assumes "settable N k" "tree_ok (menus k) t" "height t \<le> d" "entry t = m"
  shows "\<exists>v k'. menu_is_visible d (sym_calc_value N) m k = Some (v, k')"
proof -
  have "finite (invalid k \<union> set (sym_table k))" using assms(1) by (simp add: settable_def)
  then have "card (invalid k) \<le> card (invalid k \<union> set (sym_table k))" by (intro card_mono) auto
  with assms(1) menu_is_visible_total [OF _ _ _ assms(2-4), of N] show ?thesis
    by (auto simp: settable_def returns_def split: option.splits)
qed

lemma due_total:
  "settable N k \<Longrightarrow> tree_ok (menus k) t \<Longrightarrow> height t \<le> d \<Longrightarrow>
     \<exists>l k'. due d (sym_calc_value N) t k = Some (l, k') \<and> (all_have_values k \<longrightarrow> l = [])"
  "settable N k \<Longrightarrow> forest_ok (menus k) p ts \<Longrightarrow> (\<forall>t \<in> set ts. height t \<le> d) \<Longrightarrow>
     \<exists>l k'. dues d (sym_calc_value N) ts k = Some (l, k') \<and> (all_have_values k \<longrightarrow> l = [])"
proof (induction d "sym_calc_value N" t k and d "sym_calc_value N" ts k arbitrary: and p rule: due_dues.induct)
  case (1 d m ts k)
  obtain v k1 where v: "menu_is_visible d (sym_calc_value N) m k = Some (v, k1)"
    using settable_visible [OF "1.prems"] by auto
  note p = menu_is_visible_prims [OF v]
  show ?case
  proof (cases v)
    case True
    have "settable N k1" "forest_ok (menus k1) m ts"
      using prims_settable [OF "1.prems"(1) p] prims_tree(1) [OF p, of "MNode m ts"] "1.prems"(2) by simp_all
    moreover have "\<forall>t \<in> set ts. height t \<le> d"
      using height_le [of _ ts] "1.prems"(3) by fastforce
    ultimately obtain l k' where "dues d (sym_calc_value N) ts k1 = Some (l, k')" "all_have_values k1 \<longrightarrow> l = []"
      using "1.hyps" [OF v refl, of m] True by auto
    with v True prims_all_values [OF _ p] show ?thesis
      by (auto simp: all_have_values_def split: option.split)
  qed (use v in simp)
next
  case (3 d t ts k)
  then obtain l k1 where 1: "due d (sym_calc_value N) t k = Some (l, k1)" "all_have_values k \<longrightarrow> l = []" by auto
  note p = due_prims(1) [OF 1(1)]
  have "settable N k1" "forest_ok (menus k1) p ts" "\<forall>t \<in> set ts. height t \<le> d"
    using prims_settable [OF "3.prems"(1) p] prims_tree(2) [OF p] "3.prems"(2,3) by simp_all
  with "3.hyps"(2) [OF 1(1) refl] 1 prims_all_values [OF _ p] show ?case by fastforce
qed simp

end
