(* ===== verification/Examples.thy ===== *)
theory Examples
  imports SymSet Preprocess ExprIntern ConfText SymDeps FinalTree MenuShow DotRound ConfSafe NewValues AskRun
begin

text \<open>
  Concrete symbol tables and states, on which the properties are instantiated: a boolean, a
  tristate, a small menu with a symbol that has a user value and is selected, a choice with
  two members and an integer with a range.
\<close>

section \<open>Two symbols\<close>

definition wit_bool :: symbol where
  "wit_bool = blank_symbol\<lparr>s_name := Some ''A'', s_type := S_BOOLEAN,
     curr := \<lparr>val = Lit ''n'', tri = tri_yes\<rparr>, s_flags := {SYMBOL_VALID}\<rparr>"

definition wit_tri :: symbol where
  "wit_tri = blank_symbol\<lparr>s_name := Some ''B'', s_type := S_TRISTATE,
     curr := \<lparr>val = Lit ''n'', tri = tri_mod\<rparr>, s_flags := {SYMBOL_VALID}\<rparr>"

definition wit_syms :: "sid \<Rightarrow> symbol" where
  "wit_syms = init_syms(Sym 0 := wit_bool, Sym 1 := wit_tri)"

lemma wit_syms_simps:
  "wit_syms symbol_yes = const_symbol ''y'' tri_yes"
  "wit_syms symbol_mod = const_symbol ''m'' tri_mod"
  "wit_syms symbol_no = const_symbol ''n'' tri_no"
  "wit_syms (Sym 0) = wit_bool" "wit_syms (Sym (Suc 0)) = wit_tri" "wit_syms (Sym 1) = wit_tri"
  by (simp_all add: wit_syms_def init_syms_def)

lemma wit_consts_ok: "consts_ok wit_syms"
  by (auto simp: consts_ok_def tristate_symbol_def wit_syms_def init_syms_def const_symbol_def
      wit_bool_def wit_tri_def is_const_def blank_symbol_def curr_tri_simp)

lemma wit_values [simp]:
  "curr_tri wit_syms (Sym 0) = tri_yes" "curr_tri wit_syms (Sym (Suc 0)) = tri_mod"
  "curr_tri wit_syms symbol_yes = tri_yes" "curr_tri wit_syms symbol_mod = tri_mod"
  "curr_tri wit_syms symbol_no = tri_no"
  by (simp_all add: curr_tri_simp wit_syms_simps wit_bool_def wit_tri_def const_symbol_def)

lemma wit_transform:
  "expr_transform wit_syms (Some (E_NOT (E_EQUAL (Sym 0) symbol_no))) = Some (Some (E_SYMBOL (Sym 0)))"
  by (simp add: expr_transform_def expr_transform_node_NOT expr_transform_node_simps
      transform_comp_def wit_syms_simps wit_bool_def expr_alloc_symbol_def)

section \<open>A menu\<close>

text \<open>
  \<open>config A\<close> (boolean, with a prompt and the user value \<open>y\<close>), selected by \<open>config B\<close>, a
  boolean that is \<open>y\<close> by default; \<open>config N\<close>, an integer with the range 5 to 10 and the
  default 50.
\<close>

definition wit_A :: symbol where
  "wit_A = blank_symbol\<lparr>s_name := Some ''A'', s_type := S_BOOLEAN, s_menus := [Menu 0], s_prop := [0],
     sdef := (\<lambda>_. blank_value)(S_DEF_USER := \<lparr>val = NULL, tri = tri_yes\<rparr>), s_flags := {SYMBOL_DEF_USER},
     rev_dep_expr := Some (E_SYMBOL (Sym 1))\<rparr>"

definition wit_B :: symbol where
  "wit_B = blank_symbol\<lparr>s_name := Some ''B'', s_type := S_BOOLEAN, s_prop := [1]\<rparr>"

definition wit_number :: "string \<Rightarrow> symbol" where
  "wit_number v = blank_symbol\<lparr>s_name := Some v, curr := \<lparr>val = Lit v, tri = tri_no\<rparr>,
     s_flags := {SYMBOL_CONST, SYMBOL_VALID}\<rparr>"

definition wit_N :: symbol where
  "wit_N = blank_symbol\<lparr>s_name := Some ''N'', s_type := S_INT, curr := \<lparr>val = Lit ''50'', tri = tri_no\<rparr>\<rparr>"

definition wit_props :: "pid \<Rightarrow> property" where
  "wit_props = (\<lambda>_. blank_prop)
     (0 := blank_prop\<lparr>p_type := P_PROMPT, p_text := Some ''option A''\<rparr>,
      1 := blank_prop\<lparr>p_type := P_DEFAULT, p_expr := P_EXPR (E_SYMBOL symbol_yes)\<rparr>)"

definition wit_menus :: menu_map where
  "wit_menus = (\<lambda>_. blank_menu)
     (rootmenu := blank_menu\<lparr>m_type := M_MENU, m_list := Some (Menu 0)\<rparr>,
      Menu 0 := blank_menu\<lparr>m_type := M_NORMAL, m_parent := Some rootmenu, m_sym := Some (Sym 0),
                  m_prompt := Some 0\<rparr>)"

definition wit_state :: kstate where
  "wit_state = init_state\<lparr>
     syms := init_syms(Sym 0 := wit_A, Sym 1 := wit_B, Sym 2 := wit_number ''5'', Sym 3 := wit_number ''10'',
                       Sym 4 := wit_N),
     menus := wit_menus, props := wit_props, sym_table := [Sym 0, Sym 1, Sym 2, Sym 3, Sym 4]\<rparr>"

lemma wit_state_sel [simp]:
  "syms wit_state (Sym 0) = wit_A" "syms wit_state (Sym (Suc 0)) = wit_B"
  "syms wit_state (Sym 2) = wit_number ''5''" "syms wit_state (Sym 3) = wit_number ''10''"
  "syms wit_state (Sym 4) = wit_N"
  "menus wit_state = wit_menus" "props wit_state = wit_props" "expr_val wit_state e = None"
  "modules_val wit_state = tri_no" "modules_sym wit_state = symbol_no"
  by (simp_all add: wit_state_def init_state_def)

lemma wit_menus_parent:
  "m_parent (wit_menus m) = (if m = Menu 0 then Some rootmenu else None)"
  "m_sym (wit_menus m) = (if m = Menu 0 then Some (Sym 0) else None)"
  by (simp_all add: wit_menus_def blank_menu_def)

lemma wit_up_to_sym: "up_to_sym wit_menus m = Some None"
proof -
  have root: "up_to_sym wit_menus rootmenu = Some None"
    by (subst up_to_sym.simps) (simp add: wit_menus_parent)
  then show ?thesis by (subst up_to_sym.simps) (simp add: wit_menus_parent)
qed

lemma wit_symbols:
  "s_type (syms wit_state a) \<in> {S_BOOLEAN, S_TRISTATE, S_INT, S_UNKNOWN}"
  "a \<noteq> Sym 0 \<Longrightarrow> rev_dep_expr (syms wit_state a) = None"
  "rev_dep_tri (syms wit_state a) = tri_no"
  "s_name (syms wit_state (Sym 0)) = Some ''A''"
  by (auto simp: wit_state_def init_syms_def const_symbol_def blank_symbol_def wit_A_def wit_B_def
      wit_number_def wit_N_def split: sid.split)

lemma wit_wf_state: "wf_state wit_state"
  unfolding wf_state_def
  by (auto simp: wit_up_to_sym wit_menus_parent sym_is_choice_def wit_A_def wit_symbols
      wit_props_def blank_prop_def split: if_splits)

lemma wit_invalid: "invalid wit_state = {Sym 0, Sym 1, Sym 4}"
proof (rule set_eqI)
  fix a
  show "a \<in> invalid wit_state \<longleftrightarrow> a \<in> {Sym 0, Sym 1, Sym 4}"
    by (cases a) (auto simp: invalid_def wit_state_def init_syms_def const_symbol_def blank_symbol_def
        wit_A_def wit_B_def wit_number_def wit_N_def)
qed

lemma wit_choice_menu: "sym_get_choice_menu (syms wit_state) (menus wit_state) y = Some None"
  by (auto simp: sym_get_choice_menu_def wit_up_to_sym split: option.split)

lemma wit_runs: "\<exists>s'. sym_calc_value 4 a wit_state = Some s'"
  using sym_calc_value_total [OF wit_wf_state, of 4 a] by (auto simp: wit_invalid)

text \<open>The first stage of an evaluation of \<open>A\<close>: its prompt is visible and \<open>B\<close> selects it.\<close>

lemma wit_bool_start_eval:
  "case bool_start (sym_calc_value 3) (Sym 0) wit_state of
     None \<Rightarrow> False
   | Some s2 \<Rightarrow> visible (syms s2 (Sym 0)) = tri_yes \<and> sym_has_value (syms s2 (Sym 0))
       \<and> rev_dep_tri (syms s2 (Sym 0)) = tri_yes \<and> dir_dep_tri (syms s2 (Sym 0)) = tri_yes"
  by code_simp

lemma wit_bool_start:
  obtains s2 where "bool_start (sym_calc_value 3) (Sym 0) wit_state = Some s2"
    "visible (syms s2 (Sym 0)) \<noteq> tri_no" "sym_has_value (syms s2 (Sym 0))"
    "rev_dep_tri (syms s2 (Sym 0)) \<le> dir_dep_tri (syms s2 (Sym 0))"
  using wit_bool_start_eval by (auto split: option.splits)

text \<open>The whole evaluation: \<open>A\<close> is \<open>y\<close>, and so is \<open>B\<close>, on the way.\<close>

lemma wit_run_A:
  "case sym_calc_value 4 (Sym 0) wit_state of
     None \<Rightarrow> False
   | Some s' \<Rightarrow> curr_tri (syms s') (Sym 0) = tri_yes \<and> curr_tri (syms s') (Sym 1) = tri_yes
       \<and> rev_dep_tri (syms s' (Sym 0)) = tri_yes"
  by code_simp

section \<open>A choice\<close>

definition wit_member :: "string \<Rightarrow> nat \<Rightarrow> symbol" where
  "wit_member nm i = blank_symbol\<lparr>s_name := Some nm, s_type := S_BOOLEAN, s_menus := [Menu i], s_prop := [i],
     choice_link := True\<rparr>"

definition wit_choice_state :: kstate where
  "wit_choice_state = init_state\<lparr>
     syms := init_syms(
       Sym 0 := blank_symbol\<lparr>s_type := S_BOOLEAN, s_menus := [Menu 0]\<rparr>,
       Sym 1 := wit_member ''C'' 1,
       Sym 2 := (wit_member ''D'' 2)\<lparr>sdef := (\<lambda>_. blank_value)(S_DEF_USER := \<lparr>val = NULL, tri = tri_yes\<rparr>),
                  s_flags := {SYMBOL_DEF_USER}\<rparr>),
     menus := (\<lambda>_. blank_menu)(
       rootmenu := blank_menu\<lparr>m_type := M_MENU, m_list := Some (Menu 0)\<rparr>,
       Menu 0 := blank_menu\<lparr>m_parent := Some rootmenu, m_list := Some (Menu 1), m_sym := Some (Sym 0),
                   choice_members := [Sym 1, Sym 2]\<rparr>,
       Menu 1 := blank_menu\<lparr>m_type := M_NORMAL, m_parent := Some (Menu 0), m_next := Some (Menu 2),
                   m_sym := Some (Sym 1), m_prompt := Some 1\<rparr>,
       Menu 2 := blank_menu\<lparr>m_type := M_NORMAL, m_parent := Some (Menu 0), m_sym := Some (Sym 2),
                   m_prompt := Some 2\<rparr>),
     props := (\<lambda>_. blank_prop\<lparr>p_type := P_PROMPT, p_text := Some ''member''\<rparr>)\<rparr>"

lemma wit_members_ok: "members_ok wit_choice_state (Menu 0)"
proof -
  have "sub_entries (menus wit_choice_state) (Menu 0) = Some [Menu 1, Menu 2]" by code_simp
  then show ?thesis by (auto simp: members_ok_def wit_choice_state_def blank_symbol_def)
qed

lemma wit_calc_choice:
  "case sym_calc_choice (sym_calc_value 2) (Menu 0) wit_choice_state of
     None \<Rightarrow> False
   | Some (res, s') \<Rightarrow> res = Some (Sym 2) \<and> visible (syms s' (Sym 1)) = tri_yes
       \<and> curr_tri (syms s') (Sym 1) = tri_no \<and> curr_tri (syms s') (Sym 2) = tri_yes"
  by code_simp

section \<open>Settings\<close>

text \<open>The states above, after the visibility of their symbols has been calculated.\<close>

definition wit_seen :: kstate where
  "wit_seen = upd_sym (Sym 0) (set_visible tri_yes) wit_state"

lemma wit_state_settable: "settable 6 wit_state"
proof -
  have t: "set (sym_table wit_state) = {Sym 0, Sym 1, Sym 2, Sym 3, Sym 4}"
    by (simp add: wit_state_def)
  have "card (invalid wit_state \<union> set (sym_table wit_state)) < 6"
    unfolding wit_invalid t by code_simp
  then show ?thesis using wit_wf_state by (simp add: settable_def, simp add: wit_invalid)
qed

lemma wit_seen_settable: "settable 6 wit_seen"
  unfolding wit_seen_def by (rule prims_settable [OF wit_state_settable]) (blast intro: p_visible)

lemma wit_seen_range: "sym_tristate_within_range wit_seen (Sym 0) tri_yes"
  by (simp add: sym_tristate_within_range_def wit_seen_def set_visible_def wit_A_def sym_get_type_def blank_symbol_def)

lemma wit_seen_choice_menu: "sym_get_choice_menu (syms wit_seen) (menus wit_seen) (syms wit_seen (Sym 0)) = Some None"
  by (auto simp: sym_get_choice_menu_def wit_up_to_sym wit_seen_def split: option.split)

definition wit_choice_seen :: kstate where
  "wit_choice_seen = upd_sym (Sym 1) (set_visible tri_yes) (upd_sym (Sym 2) (set_visible tri_yes) wit_choice_state)"

lemma wit_choice_menus:
  "m_parent (menus wit_choice_state m) = (if m \<in> {Menu 1, Menu 2} then Some (Menu 0) else if m = Menu 0 then Some rootmenu else None)"
  "m_sym (menus wit_choice_state m) = (if m = Menu 0 then Some (Sym 0) else if m = Menu 1 then Some (Sym 1)
     else if m = Menu 2 then Some (Sym 2) else None)"
  by (simp_all add: wit_choice_state_def blank_menu_def)

lemma wit_choice_entries: "sub_entries (menus wit_choice_seen) (Menu 0) = Some [Menu 1, Menu 2]"
  by code_simp

lemma wit_choice_members:
  "entry_syms wit_choice_seen [Menu 1, Menu 2] = [Sym 1, Sym 2]"
  "visible (syms wit_choice_seen (Sym 1)) = tri_yes" "visible (syms wit_choice_seen (Sym 2)) = tri_yes"
  by code_simp+

lemma wit_choice_symbols:
  "invalid wit_choice_state = {Sym 0, Sym 1, Sym 2}"
  "rev_dep_tri (syms wit_choice_state a) = tri_no"
  "s_name (syms wit_choice_state (Sym 1)) = Some ''C''" "s_name (syms wit_choice_state (Sym (Suc 0))) = Some ''C''" "s_name (syms wit_choice_state (Sym 2)) = Some ''D''"
  "p_type (props wit_choice_state p) = P_PROMPT" "sym_table wit_choice_state = []"
proof -
  have "b \<in> invalid wit_choice_state \<longleftrightarrow> b \<in> {Sym 0, Sym 1, Sym 2}" for b
    by (cases b) (auto simp: invalid_def wit_choice_state_def init_syms_def const_symbol_def blank_symbol_def
        wit_member_def)
  then show "invalid wit_choice_state = {Sym 0, Sym 1, Sym 2}" by blast
qed (auto simp: wit_choice_state_def init_syms_def init_state_def const_symbol_def blank_symbol_def
      wit_member_def split: sid.split)

lemma wit_choice_up: "up_to_sym (menus wit_choice_state) m \<noteq> None"
proof -
  have 1: "up_to_sym (menus wit_choice_state) rootmenu = Some None"
    by (subst up_to_sym.simps) (simp add: wit_choice_menus)
  have 2: "up_to_sym (menus wit_choice_state) (Menu 0) = Some None"
    by (subst up_to_sym.simps) (simp add: wit_choice_menus 1)
  show ?thesis
    by (subst up_to_sym.simps) (simp add: wit_choice_menus 1 2)
qed

lemma wit_choice_state_settable: "settable 4 wit_choice_state"
proof -
  have e: "sub_entries (menus wit_choice_state) (Menu 0) = Some [Menu 1, Menu 2]" by code_simp
  have "wf_state wit_choice_state"
    unfolding wf_state_def
    by (auto simp: wit_choice_up wit_choice_menus e sym_is_choice_def wit_choice_symbols split: if_splits)
  then show ?thesis by (simp add: settable_def wit_choice_symbols)
qed

lemma wit_choice_seen_settable: "settable 4 wit_choice_seen"
proof -
  have "settable n (upd_sym a (set_visible tri_yes) s)" if "settable n s" for n a s
    by (rule prims_settable [OF that], rule r_into_rtranclp, rule p_visible)
  then show ?thesis unfolding wit_choice_seen_def using wit_choice_state_settable by blast
qed

lemma wit_set_string:
  "case sym_set_string_value (sym_calc_value 6) (Sym 4) ''77'' wit_state of
     None \<Rightarrow> False | Some (b, s') \<Rightarrow> b"
  by code_simp

section \<open>A process with an environment\<close>

definition wit_world :: world where
  "wit_world = \<lparr>getenv = (\<lambda>x. if x = ''HOME'' then Some ''/root'' else None),
     popen = (\<lambda>log cmd. Output (cmd @ ''\<newline>''))\<rparr>"

definition wit_pstate :: pstate where
  "wit_pstate = \<lparr>env_list = [], variable_list = [], cur_filename = ''Kconfig'', yylineno = 7,
     p_stdout = '''', p_stderr = '''', shell_log = []\<rparr>"

definition wit_recursive :: pstate where
  "wit_recursive = wit_pstate\<lparr>variable_list :=
     [\<lparr>v_name = ''R'', v_value = Some ''<$(1)>'', v_flavor = VAR_RECURSIVE, v_exp_count = 0\<rparr>]\<rparr>"

lemma wit_expand_home:
  "case expand_string wit_world 40 ''home $(HOME)'' wit_pstate of
     Some (Done r s') \<Rightarrow> r = ''home /root'' | _ \<Rightarrow> False"
  by code_simp

lemma wit_add_simple:
  "case variable_add wit_world 3 ''X'' ''v$(HOME)'' VAR_SIMPLE wit_pstate of
     Some (Done r s') \<Rightarrow> True | _ \<Rightarrow> False"
  by code_simp

text \<open>A function with an argument, a built-in, a shell command and an unknown name.\<close>

lemma wit_expand_call:
  "case expand_string wit_world 12 ''a$(R,$(HOME))$(lineno)$(shell,hi)$(none)'' wit_recursive of
     Some (Done r s') \<Rightarrow> r = ''a</root>7hi'' | _ \<Rightarrow> False"
  by code_simp

section \<open>Empty tables\<close>

definition init_sym_state :: sym_state where
  "init_sym_state = \<lparr>kst = init_state, sym_hashtable = HASHTABLE_DEFINE SYMBOL_HASHSIZE, next_sym = 0\<rparr>"

lemma for_each_empty [simp]: "hash_for_each (HASHTABLE_DEFINE n) = []"
  by (simp add: hash_for_each_def HASHTABLE_DEFINE_def)

lemma init_sym_ok: "sym_ok init_sym_state"
  by (simp add: sym_ok_def init_sym_state_def sym_entries_def placed_empty SYMBOL_HASHSIZE_def init_state_def)

definition init_expr_state :: expr_state where
  "init_expr_state = \<lparr>nodes = (\<lambda>_. N_SYMBOL symbol_no), expr_hashtable = HASHTABLE_DEFINE EXPR_HASHSIZE, next_expr = 0\<rparr>"

lemma init_expr_wf: "expr_wf addr init_expr_state"
  by (simp add: expr_wf_def expr_ok_def init_expr_state_def expr_entries_def placed_empty EXPR_HASHSIZE_def)

section \<open>A line of a configuration\<close>

definition wit_string :: symbol where
  "wit_string = blank_symbol\<lparr>s_name := Some ''S'', s_type := S_STRING,
     curr := \<lparr>val = Heap 0 [CHR ''a'', CHR 0x22, CHR ''b'', CHR 0x5C], tri = tri_no\<rparr>\<rparr>"

lemma wit_string_line:
  "print_symbol_for_dotconfig ''CONFIG_'' wit_string
     = ''CONFIG_S='' @ [CHR 0x22, CHR ''a'', CHR 0x5C, CHR 0x22, CHR ''b'', CHR 0x5C, CHR 0x5C, CHR 0x22, CHR 0x0A]"
  by code_simp

section \<open>A menu under construction\<close>

text \<open>\<open>config A\<close> with a prompt, followed by \<open>config B\<close>, which depends on it.\<close>

definition wit_named :: build_state where
  "wit_named = b_kstate (upd_sym (Sym 1) (\<lambda>y. y\<lparr>s_name := Some ''B'', s_flags := {}\<rparr>))
     (b_kstate (upd_sym (Sym 0) (\<lambda>y. y\<lparr>s_name := Some ''A'', s_flags := {}\<rparr>)) (start_state ''Kconfig''))"

definition wit_entry_A :: build_state where
  "wit_entry_A = menu_add_entry (Some (Sym 0)) M_NORMAL wit_named"

definition wit_prompt_A :: build_state where
  "wit_prompt_A = (case menu_add_prompt P_PROMPT ''option A'' None wit_entry_A of Some (p, s) \<Rightarrow> s | None \<Rightarrow> wit_entry_A)"

definition wit_build :: build_state where
  "wit_build = menu_add_dep (Some (E_SYMBOL (Sym 0))) (menu_add_entry (Some (Sym 1)) M_NORMAL wit_prompt_A)"

lemma wit_named_built: "built wit_named"
  unfolding wit_named_def
  by (intro b_symbol b_start) (simp_all add: start_state_def menu_init_def init_state_def init_syms_def blank_symbol_def)

lemma wit_prompt_run: "\<exists>p. menu_add_prompt P_PROMPT ''option A'' None wit_entry_A = Some (p, wit_prompt_A)"
  using menu_add_prompt_returns [OF b_entry [OF wit_named_built], of P_PROMPT "''option A''" None "Some (Sym 0)" M_NORMAL]
  by (auto simp: wit_prompt_A_def wit_entry_A_def [symmetric])

lemma wit_build_built: "built wit_build"
proof -
  obtain p where "menu_add_prompt P_PROMPT ''option A'' None wit_entry_A = Some (p, wit_prompt_A)"
    using wit_prompt_run by blast
  from b_prompt [OF b_entry [OF wit_named_built] _ this [unfolded wit_entry_A_def]]
  show ?thesis unfolding wit_build_def by (intro b_dep b_entry) simp
qed

lemma wit_build_run:
  "(case menu_finalize 3 (bk wit_build) of None \<Rightarrow> False
    | Some k \<Rightarrow> m_list (menus k (Menu 0)) = Some (Menu 1) \<and> m_parent (menus k (Menu 1)) = Some (Menu 0)
       \<and> m_next (menus k (Menu 0)) = None)"
  by code_simp


lemma add_prompt_other:
  assumes "menu_add_prompt ty txt dep s = Some (p, s')"
  shows "q \<noteq> next_prop s \<Longrightarrow> props (bk s') q = props (bk s) q" "m_dep (menus (bk s') m) = m_dep (menus (bk s) m)"
proof -
  have n: "fst (menu_add_prop ty P_NONE dep s) = next_prop s" by (rule add_prop_sel)
  have m: "menus (bk (snd (menu_add_prop ty P_NONE dep s))) = menus (bk s)" by (rule add_prop_sel)
  have "q \<noteq> next_prop s \<Longrightarrow> props (bk (snd (menu_add_prop ty P_NONE dep s))) q = props (bk s) q" by (simp add: add_prop_sel)
  then show "q \<noteq> next_prop s \<Longrightarrow> props (bk s') q = props (bk s) q" "m_dep (menus (bk s') m) = m_dep (menus (bk s) m)"
    using assms n m
    by (auto simp: menu_add_prompt_def bind_Some_iff Let_def split: prod.splits if_splits)
qed

lemma wit_build_props:
  "p_type (props (bk wit_build) q) \<in> {P_UNKNOWN, P_PROMPT}" "p_expr (props (bk wit_build) q) = P_NONE"
  "p_visible_expr (props (bk wit_build) q) = None"
proof -
  have b: "props (bk wit_build) = props (bk wit_prompt_A)"
    by (simp add: wit_build_def menu_add_dep_def menu_add_entry_def Let_def set_slot_def split: option.split menu_slot.split)
  have zero: "p_type (props (bk wit_build) 0) = P_PROMPT" "p_expr (props (bk wit_build) 0) = P_NONE"
    "p_visible_expr (props (bk wit_build) 0) = None" "next_prop wit_entry_A = 0"
    by code_simp+
  have e: "props (bk wit_entry_A) = (\<lambda>_. blank_prop)"
    by (simp add: wit_entry_A_def wit_named_def start_state_def menu_init_def init_state_def menu_add_entry_def Let_def
        set_slot_def split: option.split menu_slot.split)
  obtain p where r: "menu_add_prompt P_PROMPT ''option A'' None wit_entry_A = Some (p, wit_prompt_A)"
    using wit_prompt_run by blast
  have "q \<noteq> 0 \<Longrightarrow> props (bk wit_build) q = blank_prop" using add_prompt_other(1) [OF r, of q] zero(4) by (simp add: b e)
  with zero show "p_type (props (bk wit_build) q) \<in> {P_UNKNOWN, P_PROMPT}" "p_expr (props (bk wit_build) q) = P_NONE"
    "p_visible_expr (props (bk wit_build) q) = None"
    by (cases "q = 0"; simp add: blank_prop_def)+
qed

lemma wit_build_checkable: "checkable (bk wit_build)"
proof -
  have "const_tristate (syms (bk wit_build))" unfolding const_tristate_def by code_simp
  moreover have "p_type (props (bk wit_build) q) \<notin> {P_RANGE, P_SELECT, P_IMPLY, P_DEFAULT}" for q
    using wit_build_props(1) [of q] by auto
  ultimately show ?thesis
    using wit_build_props(2) by (simp add: checkable_def prop_form_def)
qed

lemma wit_build_fine: "exprs_fine (bk wit_build)"
proof -
  obtain p where r: "menu_add_prompt P_PROMPT ''option A'' None wit_entry_A = Some (p, wit_prompt_A)"
    using wit_prompt_run by blast
  have e: "m_dep (menus (bk wit_entry_A) m) = None" for m
    by (simp add: wit_entry_A_def wit_named_def start_state_def menu_init_def init_state_def menu_add_entry_def Let_def
        set_slot_def blank_menu_def split: option.split menu_slot.split)
  have "m_dep (menus (bk wit_prompt_A) m) = None" for m using add_prompt_other(2) [OF r] e by simp
  then have "m_dep (menus (bk wit_build) m) \<in> {None, Some (E_SYMBOL (Sym 0))}" for m
    by (auto simp: wit_build_def menu_add_dep_def menu_add_entry_def Let_def set_slot_def blank_menu_def
        expr_alloc_and_def split: option.split menu_slot.split)
  then have "expr_fine (syms (bk wit_build)) (m_dep (menus (bk wit_build) m))" for m
    by (metis empty_iff expr_fine_simps insert_iff no_bool_unequal_y.simps(1))
  then show ?thesis by (simp add: exprs_fine_def wit_build_props)
qed

lemma wit_build_entries: "next_menu wit_build = 2" "map Menu [0 ..< next_menu wit_build] = [Menu 0, Menu 1]"
proof -
  show n: "next_menu wit_build = 2" by code_simp
  show "map Menu [0 ..< next_menu wit_build] = [Menu 0, Menu 1]" unfolding n by (simp add: numeral_2_eq_2)
qed

section \<open>Configuration files\<close>

text \<open>The first state with a title on the root menu, and a system that permits everything.\<close>

definition wit_main :: kstate where
  "wit_main = upd_prop 2 (\<lambda>_. blank_prop\<lparr>p_type := P_MENU, p_text := Some ''Main''\<rparr>)
     (upd_menu rootmenu (\<lambda>e. e\<lparr>m_prompt := Some 2\<rparr>) wit_state)"

definition wit_os :: os where
  "wit_os = \<lparr>resolve = (\<lambda>p. p), may_read = (\<lambda>_ _. True), may_create = (\<lambda>_ _. True), may_mkdir = (\<lambda>_ _. True),
     may_rename = (\<lambda>_ _ _. True), may_stat = (\<lambda>_ _. True), may_map = (\<lambda>_ _. True), stored = (\<lambda>_ t. (t, False)),
     getpid = 7, strerror = ''error''\<rparr>"

definition wit_conf :: "kstate \<Rightarrow> (string \<Rightarrow> string option) \<Rightarrow> conf_state" where
  "wit_conf k fl = \<lparr>ks = k, fs = \<lparr>files = fl, dirs = {}\<rparr>, environ = (\<lambda>_. None), conf_filename = '''', conf_lineno = 0,
     conf_warnings = 0, s_configpath = None, s_autoconfigpath = None, s_autoheaderpath = None, s_rustccfgpath = None,
     depfile_path = '''', depfile_prefix_len = 0, conf_message_callback = Msg_default, conf_messages = [],
     conf_stdout = '''', conf_changed_callback = False, conf_changed_log = [], autoconf_cmd_text = ''''\<rparr>"

lemma wit_conf_sel [simp]: "ks (wit_conf k fl) = k" "environ (wit_conf k fl) x = None" "fs (wit_conf k fl) = \<lparr>files = fl, dirs = {}\<rparr>"
  by (simp_all add: wit_conf_def)

lemma wit_os_sel [simp]:
  "resolve wit_os p = p" "may_read wit_os f p" "may_create wit_os f p" "may_mkdir wit_os f p" "may_rename wit_os f p q"
  "may_stat wit_os f p" "may_map wit_os f p" "stored wit_os p t = (t, False)"
  by (simp_all add: wit_os_def)

definition wit_two_lines :: "string \<Rightarrow> string option" where
  "wit_two_lines = [''.config'' \<mapsto> ''CONFIG_A=n\<newline># comment\<newline>CONFIG_A=y\<newline>'']"

lemma wit_main_links:
  "m_parent (menus wit_main m) = m_parent (wit_menus m)" "m_sym (menus wit_main m) = m_sym (wit_menus m)"
  "m_list (menus wit_main m) = m_list (wit_menus m)" "m_next (menus wit_main m) = m_next (wit_menus m)"
  "syms wit_main = syms wit_state" "sym_table wit_main = sym_table wit_state"
  by (simp_all add: wit_main_def)

lemma wit_main_up: "up_to_sym (menus wit_main) m = Some None"
proof -
  have root: "up_to_sym (menus wit_main) rootmenu = Some None"
    by (subst up_to_sym.simps) (simp add: wit_main_links wit_menus_parent)
  then show ?thesis by (subst up_to_sym.simps) (simp add: wit_main_links wit_menus_parent)
qed

lemma wit_main_props:
  "props wit_main = wit_props(2 := blank_prop\<lparr>p_type := P_MENU, p_text := Some ''Main''\<rparr>)"
  by (simp add: wit_main_def)

lemma wit_main_settable: "settable 6 wit_main"
proof -
  have "wf_state wit_main"
    unfolding wf_state_def
    by (auto simp: wit_main_up wit_main_links wit_menus_parent sym_is_choice_def wit_A_def wit_symbols
        wit_main_props wit_props_def blank_prop_def split: if_splits)
  moreover have "invalid wit_main = invalid wit_state" by (simp add: invalid_def wit_main_links)
  ultimately show ?thesis using wit_state_settable by (simp add: settable_def wit_main_links)
qed

lemma wit_main_choice_menu: "sym_get_choice_menu (syms wit_main) (menus wit_main) y \<noteq> None"
  using wit_main_settable by (intro get_choice_menu_defined) (simp add: settable_def)

definition wit_tree :: mtree where
  "wit_tree = MNode rootmenu [MNode (Menu 0) []]"

lemma wit_main_tree: "menu_tree wit_main wit_tree"
  unfolding menu_tree_def wit_tree_def
  by (auto simp: wit_main_links wit_menus_parent) (simp_all add: wit_menus_def blank_menu_def)

lemma wit_quiet: "quiet_comment ''CONFIG_'' ''Main''" "quiet_comment ''CONFIG_'' ''end of Main''"
  "quiet_comment ''CONFIG_'' ''option A''" "quiet_comment ''CONFIG_'' ''end of option A''"
  "quiet_comment ''CONFIG_'' ''Automatically generated file; DO NOT EDIT.''"
  by code_simp+

lemma wit_prefix: "CONFIG_prefix (environ (wit_conf k fl)) = ''CONFIG_''"
  by (simp add: CONFIG_prefix_def)

lemma wit_main_prompt: "m_prompt (menus wit_main m) = Some p \<longleftrightarrow> m = rootmenu \<and> p = 2 \<or> m = Menu 0 \<and> p = 0"
  by (auto simp: wit_main_def wit_menus_def blank_menu_def)

lemma wit_main_text: "p_text (props wit_main 2) = Some ''Main''" "p_text (props wit_main 0) = Some ''option A''"
  by (simp_all add: wit_main_def wit_props_def)

lemma wit_main_quiet: "quiet_menus ''CONFIG_'' wit_main" "quiet_heading ''CONFIG_'' wit_main"
proof -
  show "quiet_menus ''CONFIG_'' wit_main"
    using wit_quiet by (auto simp: quiet_menus_def wit_main_prompt wit_main_text str_text_def)
  have "m_prompt (menus wit_main rootmenu) = Some 2" by (simp add: wit_main_prompt)
  then show "quiet_heading ''CONFIG_'' wit_main"
    using wit_quiet by (simp add: quiet_heading_def wit_main_text str_text_def)
qed

lemma wit_two_lines_value:
  "last_value wit_main S_DEF_USER ''CONFIG_'' (file_lines ''CONFIG_A=n\<newline># comment\<newline>CONFIG_A=y\<newline>'') (Sym 0)
     = Some (Set_tri tri_yes)"
  by code_simp

text \<open>The symbol \<open>A\<close> with the value \<open>y\<close>, as it is after an evaluation.\<close>

definition wit_written :: kstate where
  "wit_written = upd_sym (Sym 0) (\<lambda>y. y\<lparr>curr := \<lparr>val = Lit ''y'', tri = tri_yes\<rparr>, s_flags := {SYMBOL_VALID, SYMBOL_WRITE}\<rparr>) wit_main"

definition wit_auto_text :: string where
  "wit_auto_text = ''#\<newline># Automatically generated file; DO NOT EDIT.\<newline># Main\<newline>#\<newline>CONFIG_A=y\<newline>''"

lemma wit_auto: "autoconf_text (print_symbol_for_autoconf ''CONFIG_'') (Some comment_style_pound) wit_written = Some wit_auto_text"
  by code_simp

lemma wit_auto_readable: "auto_readable ''CONFIG_'' wit_written"
  by code_simp

lemma wit_make_dirs: "fst (make_parent_dir wit_os ''a/b/c'' (wit_conf wit_main wit_two_lines))"
  by code_simp

lemma wit_conf_write:
  "case conf_write wit_os 2 (sym_calc_value 6) (Some ''.config'') (wit_conf wit_main wit_two_lines) of
     None \<Rightarrow> False | Some (r, c) \<Rightarrow> r = 0"
  by code_simp

section \<open>The line oriented front end\<close>

definition wit_front :: "kstate \<Rightarrow> input_mode \<Rightarrow> string \<Rightarrow> front" where
  "wit_front k mode t = \<lparr>cf = wit_conf k wit_two_lines, input_mode = mode, indent = 1, tty_stdio = True, sync_kconfig = False,
     conf_cnt = 0, line = '''', rootEntry = rootmenu, stdin_text = t, seed = 1, rand_pos = 0\<rparr>"

lemma wit_front_sel [simp]: "cf (wit_front k mode t) = wit_conf k wit_two_lines" "input_mode (wit_front k mode t) = mode"
  by (simp_all add: wit_front_def)

text \<open>The state in which the symbol \<open>A\<close> is new.\<close>

definition wit_new :: kstate where
  "wit_new = upd_sym (Sym 0) (del_flags {SYMBOL_DEF_USER}) wit_main"

lemma wit_new_settable: "settable 6 wit_new"
  by (rule settable_set_eq [OF wit_main_settable]) (auto simp: wit_new_def set_eq_def menu_links_def invalid_def)

lemma wit_new_entries: "sub_entries (menus wit_new) rootmenu = Some [Menu 0]"
  by code_simp

lemma wit_new_wants: "wants_value wit_new (Menu 0) (Sym 0)"
  by code_simp

lemma wit_main_values: "all_have_values wit_main"
  by (simp add: all_have_values_def wit_main_links wit_menus_def blank_menu_def sym_has_value_def wit_A_def)

end
