(* ===== verification/Execld.thy ===== *)
theory Execld
  imports CString
begin

text \<open>
  The launcher \<^verbatim>\<open>system/execld/src/execld.c\<close>: it finds a program, reads a configuration beside
  it, and runs it with the linker and the library directories named there. What the system knows
  of files and the environment is a parameter. The result is the call of \<open>execv\<close> or \<open>execvp\<close>
  that is made, or the exit status without one; if the call fails, the program prints why and
  returns 1. Exhausted memory is not modelled.
\<close>

record system =
  sys_exists :: "string \<Rightarrow> bool"
  sys_executable :: "string \<Rightarrow> bool"
  sys_directory :: "string \<Rightarrow> bool"
  sys_realpath :: "string \<Rightarrow> string option"
  sys_read :: "string \<Rightarrow> string option"
  sys_env :: "string \<Rightarrow> string option"
  sys_setenv :: "string \<Rightarrow> bool"

section \<open>Texts and paths\<close>

text \<open>\<open>strtok_r\<close> with one delimiter: the pieces between the delimiters that are not empty.\<close>

function tokens :: "char \<Rightarrow> string \<Rightarrow> string list" where
  "tokens x s =
     (case dropWhile (\<lambda>d. d = x) s of
        [] \<Rightarrow> []
      | c # cs \<Rightarrow> (c # takeWhile (\<lambda>d. d \<noteq> x) cs) # tokens x (dropWhile (\<lambda>d. d \<noteq> x) cs))"
  by pat_completeness auto

lemma dropWhile_Cons_length: "dropWhile P s = c # cs \<Longrightarrow> length cs < length s"
  using length_dropWhile_le [of P s] by simp

termination tokens
  by (relation "measure (\<lambda>(x, s). length s)")
     (auto dest!: dropWhile_Cons_length intro: le_less_trans [OF length_dropWhile_le])

declare tokens.simps [simp del]

definition is_blank :: "char \<Rightarrow> bool" where
  "is_blank c \<longleftrightarrow> c \<in> {CHR '' '', CHR 0x09, CHR 0x0D, CHR 0x0A}"

definition trim :: "string \<Rightarrow> string" where
  "trim s = rev (dropWhile is_blank (rev (dropWhile is_blank s)))"

definition join_path :: "string \<Rightarrow> string option \<Rightarrow> string" where
  "join_path base rel =
     (case rel of
        None \<Rightarrow> base
      | Some [] \<Rightarrow> base
      | Some (c # cs) \<Rightarrow>
          if c = CHR ''/'' then c # cs
          else (let need_slash = (base \<noteq> [] \<and> last base \<noteq> CHR ''/'')
                in base @ (if need_slash then ''/'' else []) @ c # cs))"

text \<open>\<open>dirname\<close> and \<open>basename\<close> of \<^verbatim>\<open>libgen.h\<close>.\<close>

definition strip_slashes :: "string \<Rightarrow> string" where
  "strip_slashes s = rev (dropWhile (\<lambda>d. d = CHR ''/'') (rev s))"

definition dirname :: "string \<Rightarrow> string" where
  "dirname s =
     (let t = strip_slashes s in
      if t = [] then (if s = [] then ''.'' else ''/'')
      else if CHR ''/'' \<notin> set t then ''.''
      else (let d = strip_slashes (rev (dropWhile (\<lambda>c. c \<noteq> CHR ''/'') (rev t)))
            in if d = [] then ''/'' else d))"

definition basename :: "string \<Rightarrow> string" where
  "basename s =
     (let t = strip_slashes s in
      if t = [] then (if s = [] then ''.'' else ''/'')
      else rev (takeWhile (\<lambda>c. c \<noteq> CHR ''/'') (rev t)))"

definition get_dirname :: "string \<Rightarrow> string" where "get_dirname path = dirname path"
definition get_basename :: "string \<Rightarrow> string" where "get_basename path = basename path"

section \<open>Finding the program\<close>

fun find_candidate :: "system \<Rightarrow> string \<Rightarrow> string list \<Rightarrow> string option" where
  "find_candidate w prog [] = None"
| "find_candidate w prog (dir # dirs) =
     (let candidate = join_path dir (Some prog)
      in if sys_executable w candidate then Some candidate else find_candidate w prog dirs)"

definition resolve_program_in_path :: "system \<Rightarrow> string \<Rightarrow> string option" where
  "resolve_program_in_path w prog =
     (case sys_env w ''PATH'' of
        None \<Rightarrow> None
      | Some path \<Rightarrow> if path = [] then None else find_candidate w prog (tokens CHR '':'' path))"

definition resolve_program_path :: "system \<Rightarrow> string \<Rightarrow> string option" where
  "resolve_program_path w prog =
     (if CHR ''/'' \<in> set prog then Some prog else resolve_program_in_path w prog)"

section \<open>The configuration file\<close>

record config =
  linker :: "string option"
  rpath_raw :: "string option"

abbreviation dquote :: char where "dquote \<equiv> CHR 0x22"

text \<open>The text between the first and the last double quote.\<close>

definition between_quotes :: "string \<Rightarrow> string option" where
  "between_quotes val =
     (case split_at dquote val of
        None \<Rightarrow> None
      | Some (_, start) \<Rightarrow>
          if dquote \<notin> set start then None
          else Some (rev (tl (dropWhile (\<lambda>c. c \<noteq> dquote) (rev start)))))"

definition cfg_line :: "string \<Rightarrow> config \<Rightarrow> config" where
  "cfg_line l cfg =
     (let l = trim l in
      if l = [] \<or> hd l = CHR ''#'' then cfg
      else (case split_at CHR ''='' l of
              None \<Rightarrow> cfg
            | Some (key, val) \<Rightarrow>
                (let key = trim key; val = trim val
                 in case between_quotes val of
                      None \<Rightarrow> cfg
                    | Some start \<Rightarrow>
                        if key = ''linker'' then cfg\<lparr>linker := Some start\<rparr>
                        else if key = ''rpath'' then cfg\<lparr>rpath_raw := Some start\<rparr>
                        else cfg)))"

text \<open>The lines \<open>fgets\<close> reads into the buffer of 4096 characters, up to the first NUL in each.\<close>

function read_lines :: "string \<Rightarrow> string list" where
  "read_lines t =
     (case fgets 4096 t of
        None \<Rightarrow> []
      | Some (l, rest) \<Rightarrow> takeWhile (\<lambda>c. c \<noteq> CHR 0x00) l # read_lines rest)"
  by pat_completeness auto

lemma fgets_length: "fgets sz t = Some (l, rest) \<Longrightarrow> 1 < sz \<Longrightarrow> length rest < length t"
proof -
  assume r: "fgets sz t = Some (l, rest)" "1 < sz"
  let ?l = "takeWhile (\<lambda>d. d \<noteq> CHR 0x0A) t @ take 1 (dropWhile (\<lambda>d. d \<noteq> CHR 0x0A) t)"
  have t: "t \<noteq> []" and rest: "rest = drop (length l) t" "l = take (sz - 1) ?l"
    using r(1) by (auto simp: fgets_def Let_def split: if_splits)
  have "?l \<noteq> []" using t by (cases t) auto
  then have "l \<noteq> []" using r(2) rest(2) by auto
  with t rest(1) show ?thesis by simp
qed

termination read_lines
  by (relation "measure length") (auto dest: fgets_length)

declare read_lines.simps [simp del]

text \<open>\<open>parse_cfg_file\<close>: \<open>None\<close> for the result -1.\<close>

definition parse_cfg_file :: "system \<Rightarrow> string \<Rightarrow> config \<Rightarrow> config option" where
  "parse_cfg_file w cfg_path cfg =
     (case sys_read w cfg_path of
        None \<Rightarrow> None
      | Some t \<Rightarrow> Some (fold cfg_line (read_lines t) cfg))"

definition split_rpath :: "string option \<Rightarrow> string list" where
  "split_rpath raw =
     (case raw of
        None \<Rightarrow> []
      | Some t \<Rightarrow> filter (\<lambda>tok. tok \<noteq> []) (map trim (tokens CHR '';'' t)))"

section \<open>Directories\<close>

definition make_abs :: "system \<Rightarrow> string \<Rightarrow> string \<Rightarrow> string" where
  "make_abs w base_dir rel =
     (let joined = join_path base_dir (Some rel)
      in case sys_realpath w joined of Some real \<Rightarrow> real | None \<Rightarrow> joined)"

definition parent_is_usr :: "string \<Rightarrow> bool" where
  "parent_is_usr dir \<longleftrightarrow> basename (dirname dir) = ''usr''"

fun join_colon :: "string list \<Rightarrow> string" where
  "join_colon [] = []"
| "join_colon [p] = p"
| "join_colon (p # q # ps) = p @ '':'' @ join_colon (q # ps)"

definition build_library_path :: "system \<Rightarrow> string \<Rightarrow> string list \<Rightarrow> string option" where
  "build_library_path w prog_dir rpaths =
     (let abs_list = filter (sys_directory w) (map (make_abs w prog_dir) rpaths) in
      if abs_list = [] then None
      else (case sys_env w ''LD_LIBRARY_PATH'' of
              None \<Rightarrow> Some (join_colon abs_list)
            | Some old \<Rightarrow> Some (if old = [] then join_colon abs_list else join_colon abs_list @ '':'' @ old)))"

section \<open>The main program\<close>

text \<open>\<open>Bad_free\<close>: the clean-up frees the members of a structure that has not been initialised.\<close>

datatype launch =
    Execv (ex_path: string) (ex_argv: "string list") (ex_libpath: "string option")
  | Execvp (ex_path: string) (ex_argv: "string list")
  | Leave int
  | Bad_free

text \<open>The configuration that is used, if there is one: \<open>have_cfg\<close> and \<open>cfg\<close>.\<close>

definition blank_config :: config where
  "blank_config = \<lparr>linker = None, rpath_raw = None\<rparr>"

definition try_cfg :: "system \<Rightarrow> string \<Rightarrow> config \<Rightarrow> bool \<times> config" where
  "try_cfg w path cfg =
     (if \<not> sys_exists w path then (False, cfg)
      else (case parse_cfg_file w path cfg of
              None \<Rightarrow> (False, cfg)
            | Some cfg \<Rightarrow> (linker cfg \<noteq> None \<or> rpath_raw cfg \<noteq> None, cfg)))"

definition read_config :: "system \<Rightarrow> string \<Rightarrow> string \<Rightarrow> bool \<times> config" where
  "read_config w prog_dir prog_name =
     (let cfg1 = take 4095 (prog_dir @ ''/'' @ prog_name @ ''.ld.cfg'');
          cfg2 = take 4095 (prog_dir @ ''/ld.cfg'')
      in case try_cfg w cfg1 blank_config of
           (True, cfg) \<Rightarrow> (True, cfg)
         | (False, cfg) \<Rightarrow> try_cfg w cfg2 cfg)"

text \<open>The linker and the library directories, from the configuration or the defaults.\<close>

definition config_linker :: "system \<Rightarrow> string \<Rightarrow> bool \<times> config \<Rightarrow> bool \<times> (string \<times> string list) option" where
  "config_linker w prog_dir c =
     (case c of
        (have_cfg, cfg) \<Rightarrow>
          (case (if have_cfg then linker cfg else None) of
             None \<Rightarrow> (have_cfg, None)
           | Some l \<Rightarrow>
               (let linker_path = make_abs w prog_dir l
                in if \<not> sys_exists w linker_path then (False, None)
                   else (True, Some (linker_path, split_rpath (rpath_raw cfg))))))"

definition default_linker :: "system \<Rightarrow> string \<Rightarrow> (string \<times> string list) option" where
  "default_linker w prog_dir =
     (let ldso = take 4095 (prog_dir @ ''/ld.so'') in
      if sys_executable w ldso
      then Some (ldso, [''.'', ''./lib'', ''../lib''] @ (if parent_is_usr prog_dir then [''../../lib''] else []))
      else None)"

definition choose_linker :: "system \<Rightarrow> string \<Rightarrow> string \<Rightarrow> (string \<times> string list) option" where
  "choose_linker w prog_dir prog_name =
     (case config_linker w prog_dir (read_config w prog_dir prog_name) of
        (True, l) \<Rightarrow> l
      | (False, l) \<Rightarrow> default_linker w prog_dir)"

definition run_program :: "system \<Rightarrow> string \<Rightarrow> string list \<Rightarrow> launch" where
  "run_program w prog_path args =
     (let prog_dir = get_dirname prog_path; prog_name = get_basename prog_path
      in case choose_linker w prog_dir prog_name of
           None \<Rightarrow> Execvp prog_path args
         | Some (linker_path, rpaths) \<Rightarrow>
             (let libpath = build_library_path w prog_dir rpaths
              in case libpath of
                   Some t \<Rightarrow> if sys_setenv w t then Execv linker_path (linker_path # prog_path # tl args) libpath else Leave 1
                 | None \<Rightarrow> Execv linker_path (linker_path # prog_path # tl args) None))"

definition execld_main :: "system \<Rightarrow> string list \<Rightarrow> launch" where
  "execld_main w argv =
     (case argv of
        _ # prog # args \<Rightarrow>
          (case resolve_program_path w prog of
             None \<Rightarrow> Bad_free
           | Some prog_path \<Rightarrow>
               (case sys_realpath w prog_path of
                  None \<Rightarrow> Bad_free
                | Some real \<Rightarrow> run_program w real (prog # args)))
      | _ \<Rightarrow> Leave 1)"

text \<open>A program that is not found, or cannot be resolved, leads to the clean-up of what was never set.\<close>

lemma execld_missing_program:
  "resolve_program_path w prog = None \<Longrightarrow> execld_main w (a # prog # args) = Bad_free"
  "resolve_program_path w prog = Some p \<Longrightarrow> sys_realpath w p = None \<Longrightarrow> execld_main w (a # prog # args) = Bad_free"
  by (simp_all add: execld_main_def)

section \<open>A configuration takes effect\<close>

text \<open>The file as it is generated for a linker and library directories.\<close>

definition join_semicolon :: "string list \<Rightarrow> string" where
  "join_semicolon rs = concat (map (\<lambda>r. r @ '';'') rs)"

definition cfg_text :: "string \<Rightarrow> string list \<Rightarrow> string" where
  "cfg_text l rs = ''linker='' @ dquote # l @ [dquote] @ [CHR 0x0A] @ ''rpath='' @ dquote # join_semicolon rs @ [dquote] @ [CHR 0x0A]"

definition plain_text :: "string \<Rightarrow> bool" where
  "plain_text s \<longleftrightarrow> CHR 0x0A \<notin> set s \<and> CHR 0x00 \<notin> set s"

definition plain_dir :: "string \<Rightarrow> bool" where
  "plain_dir r \<longleftrightarrow> plain_text r \<and> r \<noteq> [] \<and> CHR '';'' \<notin> set r \<and> trim r = r"

lemma fgets_line:
  assumes "CHR 0x0A \<notin> set l" and "length l + 2 \<le> sz"
  shows "fgets sz (l @ CHR 0x0A # t) = Some (l @ [CHR 0x0A], t)"
proof -
  have "\<forall>x \<in> set l. x \<noteq> CHR 0x0A" using assms(1) by auto
  with assms(2) show ?thesis
    by (simp add: fgets_def Let_def takeWhile_append_not dropWhile_append_not take_append)
qed

lemma read_line:
  assumes "plain_text l" and "length l + 2 \<le> 4096"
  shows "read_lines (l @ CHR 0x0A # t) = (l @ [CHR 0x0A]) # read_lines t"
proof -
  have "takeWhile (\<lambda>c. c \<noteq> CHR 0x00) (l @ [CHR 0x0A]) = l @ [CHR 0x0A]"
    using assms(1) by (intro takeWhile_eq_all_conv [THEN iffD2]) (auto simp: plain_text_def)
  then show ?thesis
    using assms by (subst read_lines.simps) (simp add: fgets_line plain_text_def)
qed

lemma read_lines_Nil [simp]: "read_lines [] = []"
  by (subst read_lines.simps) (simp add: fgets_def)

lemma trim_edges:
  assumes "\<not> is_blank a" "\<not> is_blank b"
  shows "trim (a # s @ [b]) = a # s @ [b]" and "trim (a # s @ [b, CHR 0x0A]) = a # s @ [b]"
  using assms by (simp_all add: trim_def is_blank_def)

lemma between_quotes_simp: "between_quotes (dquote # s @ [dquote]) = Some s"
  by (simp add: between_quotes_def split_at_def)

lemma not_blank [simp]: "\<not> is_blank dquote" "\<not> is_blank CHR ''l''" "\<not> is_blank CHR ''r''"
  by (simp_all add: is_blank_def)

lemma cfg_line_linker: "cfg_line (''linker='' @ dquote # l @ [dquote] @ [CHR 0x0A]) cfg = cfg\<lparr>linker := Some l\<rparr>"
proof -
  have t: "trim (''linker='' @ dquote # l @ [dquote] @ [CHR 0x0A]) = ''linker'' @ CHR ''='' # dquote # l @ [dquote]"
    using trim_edges(2) [of "CHR ''l''" dquote "''inker='' @ dquote # l"] by simp
  have "split_at CHR ''='' (''linker'' @ CHR ''='' # dquote # l @ [dquote]) = Some (''linker'', dquote # l @ [dquote])"
    by (rule split_at_append) simp
  moreover have "trim ''linker'' = ''linker''" by (simp add: trim_def is_blank_def)
  ultimately show ?thesis
    unfolding cfg_line_def t using trim_edges(1) [of dquote dquote l] between_quotes_simp by (simp add: Let_def)
qed

lemma cfg_line_rpath: "cfg_line (''rpath='' @ dquote # l @ [dquote] @ [CHR 0x0A]) cfg = cfg\<lparr>rpath_raw := Some l\<rparr>"
proof -
  have t: "trim (''rpath='' @ dquote # l @ [dquote] @ [CHR 0x0A]) = ''rpath'' @ CHR ''='' # dquote # l @ [dquote]"
    using trim_edges(2) [of "CHR ''r''" dquote "''path='' @ dquote # l"] by simp
  have "split_at CHR ''='' (''rpath'' @ CHR ''='' # dquote # l @ [dquote]) = Some (''rpath'', dquote # l @ [dquote])"
    by (rule split_at_append) simp
  moreover have "trim ''rpath'' = ''rpath''" by (simp add: trim_def is_blank_def)
  ultimately show ?thesis
    unfolding cfg_line_def t using trim_edges(1) [of dquote dquote l] between_quotes_simp by (simp add: Let_def)
qed

lemma parse_cfg_text:
  assumes "sys_read w path = Some (cfg_text l rs)" and "plain_text l" "length l \<le> 4085"
    and "plain_text (join_semicolon rs)" "length (join_semicolon rs) \<le> 4086"
  shows "parse_cfg_file w path cfg = Some \<lparr>linker = Some l, rpath_raw = Some (join_semicolon rs)\<rparr>"
proof -
  define x y where "x = ''linker='' @ dquote # l @ [dquote]" and "y = ''rpath='' @ dquote # join_semicolon rs @ [dquote]"
  have p: "plain_text x" "length x + 2 \<le> 4096" "plain_text y" "length y + 2 \<le> 4096"
    using assms(2-5) by (simp_all add: plain_text_def x_def y_def)
  have t: "cfg_text l rs = x @ CHR 0x0A # y @ CHR 0x0A # []"
    by (simp add: cfg_text_def x_def y_def)
  have "read_lines (cfg_text l rs) = [x @ [CHR 0x0A], y @ [CHR 0x0A]]"
    unfolding t by (simp only: read_line [OF p(1,2)] read_line [OF p(3,4)] read_lines_Nil)
  moreover have "cfg_line (x @ [CHR 0x0A]) c = c\<lparr>linker := Some l\<rparr>" "cfg_line (y @ [CHR 0x0A]) c = c\<lparr>rpath_raw := Some (join_semicolon rs)\<rparr>" for c
    using cfg_line_linker [of l c] cfg_line_rpath [of "join_semicolon rs" c] by (simp_all add: x_def y_def)
  ultimately show ?thesis using assms(1) by (simp add: parse_cfg_file_def)
qed

lemma tokens_join:
  assumes "\<forall>r \<in> set rs. r \<noteq> [] \<and> CHR '';'' \<notin> set r"
  shows "tokens CHR '';'' (join_semicolon rs) = rs"
  using assms
proof (induction rs)
  case Nil
  then show ?case by (subst tokens.simps) (simp add: join_semicolon_def)
next
  case (Cons r rs)
  then obtain c cs where r: "r = c # cs" "c \<noteq> CHR '';''" "\<forall>x \<in> set cs. x \<noteq> CHR '';''"
    by (cases r) auto
  have j: "join_semicolon (r # rs) = c # cs @ CHR '';'' # join_semicolon rs" by (simp add: join_semicolon_def r)
  have skip: "tokens CHR '';'' (CHR '';'' # t) = tokens CHR '';'' t" for t
    by (subst (1 2) tokens.simps) simp
  show ?case
    unfolding j using r Cons
    by (subst tokens.simps) (simp add: takeWhile_append_not dropWhile_append_not skip)
qed

lemma split_rpath_join:
  assumes "\<forall>r \<in> set rs. plain_dir r"
  shows "split_rpath (Some (join_semicolon rs)) = rs"
proof -
  have "tokens CHR '';'' (join_semicolon rs) = rs" using assms by (intro tokens_join) (auto simp: plain_dir_def)
  moreover have "map trim rs = rs" "filter (\<lambda>tok. tok \<noteq> []) rs = rs"
    using assms by (auto simp: plain_dir_def map_idI filter_id_conv)
  ultimately show ?thesis by (simp add: split_rpath_def)
qed

lemma plain_join: "\<forall>r \<in> set rs. plain_dir r \<Longrightarrow> plain_text (join_semicolon rs)"
  by (auto simp: plain_dir_def plain_text_def join_semicolon_def)

lemma directory_and_name:
  assumes "n \<noteq> []" "CHR ''/'' \<notin> set n" "dir \<noteq> []" "last dir \<noteq> CHR ''/''"
  shows "dirname (dir @ CHR ''/'' # n) = dir" and "basename (dir @ CHR ''/'' # n) = n"
proof -
  obtain c cs where c: "rev n = c # cs" using assms(1) by (cases "rev n") auto
  then have n: "c \<noteq> CHR ''/''" "\<forall>x \<in> set (rev n). x \<noteq> CHR ''/''" using assms(2) by (auto simp flip: set_rev [of n])
  have s: "strip_slashes (dir @ CHR ''/'' # n) = dir @ CHR ''/'' # n"
    using c n by (simp add: strip_slashes_def)
  obtain d ds where d: "rev dir = d # ds" "d \<noteq> CHR ''/''"
    using assms(3,4) by (cases "rev dir") (auto simp: rev_eq_Cons_iff)
  have t: "rev (dir @ CHR ''/'' # n) = rev n @ CHR ''/'' # rev dir" by simp
  have "strip_slashes (dir @ [CHR ''/'']) = dir"
    using d by (simp add: strip_slashes_def)
  then show "dirname (dir @ CHR ''/'' # n) = dir" "basename (dir @ CHR ''/'' # n) = n"
    using s assms(3) unfolding dirname_def basename_def Let_def s t
    by (simp_all add: dropWhile_append_not [OF n(2)] takeWhile_append_not [OF n(2)])
qed

theorem config_takes_effect:
  assumes prog: "resolve_program_path w prog = Some p" "sys_realpath w p = Some (dir @ CHR ''/'' # n)"
    and n: "n \<noteq> []" "CHR ''/'' \<notin> set n" "dir \<noteq> []" "last dir \<noteq> CHR ''/''"
    and cfg: "cfg = dir @ ''/'' @ n @ ''.ld.cfg''" "length cfg \<le> 4095" "sys_exists w cfg" "sys_read w cfg = Some (cfg_text l rs)"
    and l: "plain_text l" "length l \<le> 4085" "sys_exists w (make_abs w dir l)"
    and rs: "\<forall>r \<in> set rs. plain_dir r" "length (join_semicolon rs) \<le> 4086"
    and env: "\<And>t. sys_setenv w t"
  shows "execld_main w (a # prog # args) =
    Execv (make_abs w dir l) (make_abs w dir l # (dir @ CHR ''/'' # n) # args) (build_library_path w dir rs)"
proof -
  have "parse_cfg_file w cfg blank_config = Some \<lparr>linker = Some l, rpath_raw = Some (join_semicolon rs)\<rparr>"
    by (rule parse_cfg_text [OF cfg(4) l(1,2) plain_join [OF rs(1)] rs(2)])
  then have "read_config w dir n = (True, \<lparr>linker = Some l, rpath_raw = Some (join_semicolon rs)\<rparr>)"
    using cfg by (simp add: read_config_def try_cfg_def)
  then have "choose_linker w dir n = Some (make_abs w dir l, rs)"
    using l(3) by (simp add: choose_linker_def config_linker_def split_rpath_join [OF rs(1)])
  with prog env directory_and_name [OF n] show ?thesis
    by (cases "build_library_path w dir rs") (simp_all add: execld_main_def run_program_def get_dirname_def get_basename_def Let_def)
qed

end
