(* ===== verification/Progress.thy ===== *)
theory Progress
  imports ConfFiles
begin

text \<open>
  The progress display \<^verbatim>\<open>scripts/progress/progress.c\<close>: the list of the packages being built, as the
  pointers the code links, and the handler of the messages and of the output of the build. Reading
  from the pipes and the socket, the clock and the system are events and parameters. A write or
  read outside a buffer, and a signed overflow, is \<open>None\<close>.
\<close>

section \<open>The list of packages\<close>

datatype pptr = Head | Node nat

text \<open>\<open>pnext\<close> of a node that has been taken out is \<open>NULL\<close>.\<close>

record pkg_list =
  pnext :: "pptr \<Rightarrow> pptr option"
  pprev :: pptr
  pname :: "nat \<Rightarrow> string"
  plen :: "nat \<Rightarrow> nat"
  pfresh :: nat

definition INIT_PKG_LIST_HEAD :: "pkg_list \<Rightarrow> pkg_list" where
  "INIT_PKG_LIST_HEAD h = h\<lparr>pnext := (pnext h)(Head := Some Head), pprev := Head\<rparr>"

definition set_next :: "pptr \<Rightarrow> pptr option \<Rightarrow> pkg_list \<Rightarrow> pkg_list" where
  "set_next p q h = h\<lparr>pnext := (pnext h)(p := q)\<rparr>"

definition pkg_list_add_tail :: "nat \<Rightarrow> pkg_list \<Rightarrow> pkg_list" where
  "pkg_list_add_tail a h =
     (let h = set_next (Node a) (pnext h (pprev h)) h;
          h = set_next (pprev h) (Some (Node a)) h
      in h\<lparr>pprev := Node a\<rparr>)"

definition pkg_list_del :: "nat \<Rightarrow> pptr \<Rightarrow> pkg_list \<Rightarrow> pkg_list" where
  "pkg_list_del a prev h =
     (let h = (if pnext h (Node a) = Some Head then h\<lparr>pprev := prev\<rparr> else h);
          h = set_next prev (pnext h (Node a)) h
      in set_next (Node a) None h)"

text \<open>\<open>pkg_list_for_each_entry\<close>: the nodes in order.\<close>

partial_function (option) pkg_nodes :: "pkg_list \<Rightarrow> pptr \<Rightarrow> nat list option" where
  "pkg_nodes h p =
     (case p of
        Head \<Rightarrow> Some []
      | Node a \<Rightarrow>
          Option.bind (pnext h p) (\<lambda>q. Option.bind (pkg_nodes h q) (\<lambda>as. Some (a # as))))"

declare pkg_nodes.simps [code]

definition all_pkgs :: "pkg_list \<Rightarrow> nat list option" where
  "all_pkgs h = Option.bind (pnext h Head) (pkg_nodes h)"

text \<open>The loop that looks for a name, with the pointer \<open>p\<close> to the node before \<open>pos\<close>.\<close>

partial_function (option) pkg_find :: "pkg_list \<Rightarrow> string \<Rightarrow> pptr \<Rightarrow> pptr \<Rightarrow> (pptr \<times> nat) option option" where
  "pkg_find h t p pos =
     (case pos of
        Head \<Rightarrow> Some None
      | Node a \<Rightarrow>
          if pname h a = t then Some (Some (p, a))
          else Option.bind (pnext h pos) (pkg_find h t pos))"

declare pkg_find.simps [code]

text \<open>\<open>malloc\<close> of a node with its name and length.\<close>

definition new_pkg :: "string \<Rightarrow> nat \<Rightarrow> pkg_list \<Rightarrow> pkg_list" where
  "new_pkg t n h =
     (let a = pfresh h
      in pkg_list_add_tail a (h\<lparr>pname := (pname h)(a := t), plen := (plen h)(a := n), pfresh := Suc a\<rparr>))"

definition remove_pkg :: "string \<Rightarrow> pkg_list \<Rightarrow> (bool \<times> pkg_list) option" where
  "remove_pkg t h = do {
     first \<leftarrow> pnext h Head;
     r \<leftarrow> pkg_find h t Head first;
     Some (case r of None \<Rightarrow> (False, h) | Some (p, a) \<Rightarrow> (True, pkg_list_del a p h))
   }"

section \<open>Directories\<close>

definition fs_present :: "os \<Rightarrow> fsys \<Rightarrow> string \<Rightarrow> bool" where
  "fs_present w s path \<longleftrightarrow> files s (resolve w path) \<noteq> None \<or> resolve w path \<in> dirs s"

definition make_missing :: "os \<Rightarrow> string \<Rightarrow> fsys \<Rightarrow> bool \<times> fsys" where
  "make_missing w dir s =
     (if fs_present w s dir then (True, s)
      else if may_mkdir w s (resolve w dir) then (True, s\<lparr>dirs := insert (resolve w dir) (dirs s)\<rparr>)
      else (False, s))"

text \<open>The loop over the characters behind the first; \<open>before\<close> is the part in front of \<open>s\<close>.\<close>

fun create_dirs :: "os \<Rightarrow> string \<Rightarrow> string \<Rightarrow> fsys \<Rightarrow> bool \<times> fsys" where
  "create_dirs w before [] s =
     (if last before \<noteq> CHR ''/'' then make_missing w before s else (True, s))"
| "create_dirs w before (c # cs) s =
     (if c = CHR ''/'' then
        (case make_missing w before s of
           (False, s) \<Rightarrow> (False, s)
         | (True, s) \<Rightarrow> create_dirs w (before @ [c]) cs s)
      else create_dirs w (before @ [c]) cs s)"

definition create_dir :: "os \<Rightarrow> string \<Rightarrow> fsys \<Rightarrow> (bool \<times> fsys) option" where
  "create_dir w dir s = (case dir of [] \<Rightarrow> None | c # cs \<Rightarrow> Some (create_dirs w [c] cs s))"

section \<open>The handler\<close>

text \<open>
  The variables of \<open>process_handler\<close>. \<open>buf\<close> is the whole buffer: what is read replaces its first
  characters only. \<open>logs\<close> are the log files, the last one is open.
\<close>

record handler =
  pkgs :: pkg_list
  running :: bool
  ret :: int
  percent :: int
  ccnt :: int
  logcnt :: int
  total_pkg :: int
  finished_pkg :: int
  live_pkg :: int
  total_size :: "32 word"
  buf :: string
  out :: string
  err :: string
  logs :: "string list"

abbreviation (input) BUF_SIZE :: nat where "BUF_SIZE \<equiv> 65536"
abbreviation (input) TMP_SIZE :: nat where "TMP_SIZE \<equiv> 128"

definition put_out :: "string \<Rightarrow> handler \<Rightarrow> handler" where
  "put_out t s = s\<lparr>out := out s @ t\<rparr>"

definition pad_left :: "nat \<Rightarrow> string \<Rightarrow> string" where
  "pad_left n t = replicate (n - length t) CHR '' '' @ t"

text \<open>\<open>read\<close> and \<open>recvfrom\<close> into the buffer, \<open>snprintf\<close> with the terminator, and \<open>buf[num] = 0\<close>.\<close>

definition read_buf :: "string \<Rightarrow> handler \<Rightarrow> handler" where
  "read_buf data s = s\<lparr>buf := data @ drop (length data) (buf s)\<rparr>"

definition print_buf :: "string \<Rightarrow> handler \<Rightarrow> handler" where
  "print_buf t s = read_buf (take (BUF_SIZE - 1) t @ [CHR 0x00]) s"

definition terminate_buf :: "nat \<Rightarrow> handler \<Rightarrow> handler option" where
  "terminate_buf n s = (if n < BUF_SIZE then Some (s\<lparr>buf := (buf s)[n := CHR 0x00]\<rparr>) else None)"

definition c_text :: "string \<Rightarrow> string" where
  "c_text = takeWhile (\<lambda>c. c \<noteq> CHR 0x00)"

definition blank_line :: string where
  "blank_line = pad_left 120 '' '' @ [CHR 0x0D]"

definition green :: "string \<Rightarrow> string" where
  "green t = CHR 0x1B # ''[42m'' @ t @ CHR 0x1B # ''[0m''"

text \<open>The name in a message behind its first \<open>k\<close> characters, without \<open>_single\<close>; and its length.\<close>

definition strip_single :: "string \<Rightarrow> string" where
  "strip_single t = (if length t > 7 \<and> drop (length t - 7) t = ''_single'' then take (length t - 7) t else t)"

definition message_name :: "nat \<Rightarrow> nat \<Rightarrow> handler \<Rightarrow> (string \<times> nat) option" where
  "message_name k num s =
     (if num < k then None
      else let tmp = strip_single (take (min (num - k) (TMP_SIZE - 1)) (drop k (buf s)))
           in Some (c_text tmp, length tmp))"

definition message_total :: "nat \<Rightarrow> handler \<Rightarrow> handler option" where
  "message_total num s = do {
     s \<leftarrow> terminate_buf num s;
     Some (s\<lparr>total_pkg := atoi (c_text (drop 6 (buf s)))\<rparr>)
   }"

definition message_begin :: "nat \<Rightarrow> handler \<Rightarrow> handler option" where
  "message_begin num s = do {
     (t, n) \<leftarrow> message_name 6 num s;
     Some (s\<lparr>pkgs := new_pkg t n (pkgs s), live_pkg := live_pkg s + 1\<rparr>)
   }"

text \<open>Division of an \<open>int\<close> that is not negative, towards zero.\<close>

definition c_div :: "int \<Rightarrow> int \<Rightarrow> int" where
  "c_div a b = (if b > 0 then a div b else - (a div (- b)))"

definition percentage :: "int \<Rightarrow> int \<Rightarrow> int option" where
  "percentage n d = (if 100 * n < 2 ^ 31 then Some (c_div (100 * n) d) else None)"

text \<open>
  The bar. \<open>space\<close> holds 51 blanks and a terminator; the filled part ends at \<open>index\<close>, where a
  terminator is put for the time of printing.
\<close>

definition progress_bar :: "handler \<Rightarrow> string \<Rightarrow> string option" where
  "progress_bar s t =
     (let p = int_text (percent s);
          count = ''['' @ pad_left 3 (int_text (finished_pkg s)) @ ''/'' @ pad_left 3 (int_text (total_pkg s)) @ ''] '' @ t
      in if percent s = 0 then Some (''['' @ pad_left 2 p @ ''%]'' @ pad_left 50 '' '' @ count @ [CHR 0x0D])
         else if percent s = 100 then Some (''['' @ p @ ''%]'' @ green (pad_left 50 '' '') @ count @ [CHR 0x0A])
         else
           let index = (if percent s < 0 then - ((- percent s) div 2) else percent s div 2) in
           if index < 0 \<or> index > 50 then None
           else Some (''['' @ pad_left 2 p @ ''%]'' @ green (replicate (nat index) CHR '' '')
             @ replicate (50 - nat index) CHR '' '' @ count @ [CHR 0x0D]))"

text \<open>The end of a package: the count, the list of the packages, and the bar.\<close>

definition count_end :: "handler \<Rightarrow> handler" where
  "count_end s =
     (let s = (if finished_pkg s < total_pkg s then s\<lparr>finished_pkg := finished_pkg s + 1\<rparr> else s);
          s = (if ccnt s \<noteq> 0 then put_out blank_line s else s)
      in s\<lparr>ccnt := 1\<rparr>)"

definition drop_pkg :: "string \<Rightarrow> handler \<Rightarrow> handler option" where
  "drop_pkg t s = do {
     (found, l) \<leftarrow> remove_pkg t (pkgs s);
     Some (if found then s\<lparr>pkgs := l, live_pkg := live_pkg s - 1\<rparr> else s)
   }"

definition show_bar :: "string \<Rightarrow> handler \<Rightarrow> handler option" where
  "show_bar t s = do {
     p \<leftarrow> percentage (finished_pkg s) (total_pkg s);
     let s = s\<lparr>percent := p\<rparr>;
     bar \<leftarrow> progress_bar s t;
     Some (put_out bar (print_buf bar s))
   }"

definition message_end :: "nat \<Rightarrow> handler \<Rightarrow> handler option" where
  "message_end num s =
     (if total_pkg s = 0 then Some s
      else do {
        let s = count_end s;
        (t, _) \<leftarrow> message_name 4 num s;
        s \<leftarrow> drop_pkg t s;
        show_bar t s
      })"

text \<open>A datagram of the socket.\<close>

definition handle_message :: "string \<Rightarrow> handler \<Rightarrow> handler option" where
  "handle_message data s =
     (let s = read_buf data s; num = length data in
      if take 4 (buf s) = ''stop'' then Some (s\<lparr>running := False\<rparr>)
      else if take 6 (buf s) = ''total='' then message_total num s
      else if take 6 (buf s) = ''begin='' then message_begin num s
      else if take 4 (buf s) = ''end='' then message_end num s
      else Some s)"

section \<open>The output of the build\<close>

text \<open>What one read gives; what is written to the log and how much of it \<open>write\<close> reports.\<close>

datatype reading = Read_error | Read_end | Read_data string

definition log_text :: "(string \<Rightarrow> int) \<Rightarrow> string \<Rightarrow> handler \<Rightarrow> handler" where
  "log_text written t s =
     s\<lparr>logs := butlast (logs s) @ [last (logs s) @ take (nat (written t)) t], total_size := total_size s + of_int (written t)\<rparr>"

definition clear_count :: "handler \<Rightarrow> handler" where
  "clear_count s = (if ccnt s \<noteq> 0 then (put_out blank_line s)\<lparr>ccnt := 0\<rparr> else s)"

definition handle_read :: "(string \<Rightarrow> handler \<Rightarrow> handler option) \<Rightarrow> reading \<Rightarrow> handler \<Rightarrow> handler option" where
  "handle_read f r s =
     (case r of
        Read_error \<Rightarrow> Some (s\<lparr>ret := -1, running := False\<rparr>)
      | Read_end \<Rightarrow> Some (s\<lparr>running := False\<rparr>)
      | Read_data data \<Rightarrow> f data s)"

definition handle_out :: "bool \<Rightarrow> (string \<Rightarrow> int) \<Rightarrow> string \<Rightarrow> handler \<Rightarrow> handler option" where
  "handle_out logout written data s =
     (let s = read_buf data s;
          s = (if logout then put_out data (clear_count s) else s)
      in Some (log_text written data s))"

definition handle_err :: "(string \<Rightarrow> int) \<Rightarrow> string \<Rightarrow> handler \<Rightarrow> handler option" where
  "handle_err written data s =
     (let s = clear_count (read_buf data s)
      in Some (log_text written data (s\<lparr>err := err s @ data\<rparr>)))"

section \<open>A second without events\<close>

text \<open>The line of the packages that are being built, as far as it fits.\<close>

fun append_jobs :: "pkg_list \<Rightarrow> nat list \<Rightarrow> string \<Rightarrow> string option" where
  "append_jobs h [] t = Some t"
| "append_jobs h (a # as) t =
     (if length t + plen h a \<ge> 116 then Some t
      else if length (pname h a) + 1 < plen h a then None
      else append_jobs h as (t @ '' '' @ take (plen h a) (pname h a @ [CHR 0x00])))"

definition jobs_line :: "handler \<Rightarrow> string option" where
  "jobs_line s = do {
     as \<leftarrow> all_pkgs (pkgs s);
     t \<leftarrow> append_jobs (pkgs s) as (CHR 0x1B # ''[32m['' @ pad_left 2 (int_text (percent s)) @ ''%]['' @ int_text (finished_pkg s)
            @ ''/'' @ int_text (total_pkg s) @ ''] '' @ CHR 0x1B # ''[0mjobs('' @ int_text (live_pkg s) @ ''):'');
     Some (t @ ''...'' @ [CHR 0x0D])
   }"

text \<open>
  The port file is read again: \<open>None\<close> when it cannot be opened, and \<open>Read_error\<close> when it cannot be
  read, which puts the terminator in front of the buffer. The result is false for leaving the loop.
\<close>

definition check_port :: "string \<Rightarrow> 16 word \<Rightarrow> reading option \<Rightarrow> handler \<Rightarrow> (bool \<times> handler) option" where
  "check_port logpath port file s =
     (let s = print_buf (logpath @ ''/port'') s in case file of
        None \<Rightarrow> Some (False, s\<lparr>ret := -1\<rparr>)
      | Some Read_error \<Rightarrow> None
      | Some r \<Rightarrow> do {
          let data = (case r of Read_data t \<Rightarrow> t | _ \<Rightarrow> '''');
          s \<leftarrow> terminate_buf (length data) (read_buf data s);
          if uint port = atoi (c_text (buf s)) then Some (True, s)
          else Some (False, put_out ''I: process_handler:229 No port file, exit!\<newline>'' s)
        })"

definition show_jobs :: "handler \<Rightarrow> handler option" where
  "show_jobs s =
     (if live_pkg s = 0 then Some s
      else if ccnt s \<ge> 3 then Some (put_out blank_line (s\<lparr>ccnt := 0\<rparr>))
      else
        let s = s\<lparr>ccnt := ccnt s + 1\<rparr> in
        if ccnt s \<noteq> 1 then Some s
        else do {
          let s = put_out blank_line s;
          t \<leftarrow> jobs_line s;
          Some (put_out t (read_buf t s))
        })"

section \<open>The loop\<close>

text \<open>
  One round: a new log file when the old one is full, then \<open>select\<close>, which times out or finds
  input on some of the three descriptors. A round comes with the time as a text and whether a log
  file can be opened.
\<close>

datatype event =
    Timeout "reading option"
  | Input (on_out: "reading option") (on_err: "reading option") (on_socket: "reading option")

record surroundings =
  logpath :: string
  logdir :: string
  port :: "16 word"
  logout :: bool
  written :: "string \<Rightarrow> int"

definition log_name :: "surroundings \<Rightarrow> string \<Rightarrow> handler \<Rightarrow> string" where
  "log_name w now s =
     (let n = int_text (logcnt s)
      in logdir w @ replicate (4 - length n) CHR ''0'' @ n @ ''-'' @ now @ ''.log'')"

definition rotate_log :: "surroundings \<Rightarrow> string \<Rightarrow> bool \<Rightarrow> handler \<Rightarrow> bool \<times> handler" where
  "rotate_log w now can_open s =
     (if total_size s > 131072 then
        (let s = (print_buf (log_name w now s) s)\<lparr>total_size := 0, logcnt := logcnt s + 1\<rparr>
         in if can_open then (True, s\<lparr>logs := logs s @ [[]]\<rparr>) else (False, s\<lparr>ret := -1\<rparr>))
      else (True, s))"

definition handle_event :: "surroundings \<Rightarrow> event \<Rightarrow> handler \<Rightarrow> (bool \<times> handler) option" where
  "handle_event w e s =
     (case e of
        Timeout file \<Rightarrow> do {
          (go_on, s) \<leftarrow> check_port (logpath w) (port w) file s;
          if \<not> go_on then Some (False, s) else do { s \<leftarrow> show_jobs s; Some (True, s) }
        }
      | Input r1 r2 r3 \<Rightarrow> do {
          s \<leftarrow> (case r1 of None \<Rightarrow> Some s | Some r \<Rightarrow> handle_read (handle_out (logout w) (written w)) r s);
          s \<leftarrow> (case r2 of None \<Rightarrow> Some s | Some r \<Rightarrow> handle_read (handle_err (written w)) r s);
          s \<leftarrow> (case r3 of None \<Rightarrow> Some s | Some r \<Rightarrow> handle_read handle_message r s);
          Some (running s, s)
        })"

fun process_events :: "surroundings \<Rightarrow> (string \<times> bool \<times> event) list \<Rightarrow> handler \<Rightarrow> handler option" where
  "process_events w [] s = Some s"
| "process_events w ((now, can_open, e) # es) s =
     (case rotate_log w now can_open s of
        (False, s) \<Rightarrow> Some s
      | (True, s) \<Rightarrow> do {
          (go_on, s) \<leftarrow> handle_event w e s;
          if go_on then process_events w es s else Some s
        })"

section \<open>The start\<close>

text \<open>
  \<open>process_handler\<close> up to the loop and behind it, with what is in the new buffer, the result of \<open>ipv4_udp_server\<close>, the file
  system, the time and the nanoseconds as \<open>%09ld\<close>. The file system is that of the directories and of
  the port file; \<open>ret\<close> stays 0 when the log directory cannot be made.
\<close>

definition handler_start :: "string \<Rightarrow> handler" where
  "handler_start b = \<lparr>pkgs = INIT_PKG_LIST_HEAD \<lparr>pnext = (\<lambda>_. None), pprev = Head, pname = (\<lambda>_. []), plen = (\<lambda>_. 0), pfresh = 0\<rparr>,
     running = True, ret = 0, percent = 0, ccnt = 0, logcnt = 0, total_pkg = 0, finished_pkg = 0, live_pkg = 0,
     total_size = 0, buf = b, out = [], err = [], logs = []\<rparr>"

definition log_directory :: "string \<Rightarrow> string \<Rightarrow> string \<Rightarrow> string" where
  "log_directory path now ns =
     take (BUF_SIZE - 1) ((if path \<noteq> [] \<and> last path = CHR ''/'' then path else path @ ''/'') @ now @ ''.'' @ ns @ ''/'')"

definition process_handler ::
  "os \<Rightarrow> string \<Rightarrow> string \<Rightarrow> 16 word option \<Rightarrow> bool \<Rightarrow> (string \<Rightarrow> int) \<Rightarrow> string \<Rightarrow> string \<Rightarrow> bool
   \<Rightarrow> (string \<times> bool \<times> event) list \<Rightarrow> fsys \<Rightarrow> (int \<times> handler \<times> fsys) option" where
  "process_handler w b path server log wr now ns can_open es fl =
     (let s = handler_start b;
          dir = log_directory path now ns;
          port_file = path @ ''/port''
      in case server of
           None \<Rightarrow> Some (-1, s, fl)
         | Some p \<Rightarrow>
             if \<not> may_create w fl (resolve w port_file) then Some (-1, s, fl)
             else do {
               let fl = fl\<lparr>files := (files fl)(resolve w port_file \<mapsto> int_text (uint p))\<rparr>;
               (ok, fl) \<leftarrow> create_dir w dir fl;
               if \<not> ok then Some (0, s, fl)
               else
                 let s = s\<lparr>err := CHR 0x1B # ''[34mlog path is '' @ dir @ CHR 0x1B # ''[0m\<newline>''\<rparr>;
                     u = \<lparr>logpath = path, logdir = dir, port = p, logout = log, written = wr\<rparr>;
                     s = print_buf (log_name u now s) s;
                     s = s\<lparr>logcnt := 1\<rparr>
                 in if \<not> can_open then Some (-1, s, fl)
                    else do {
                      s \<leftarrow> process_events u es (s\<lparr>logs := [[]]\<rparr>);
                      Some (ret s, s, fl)
                    }
             })"

section \<open>The arguments\<close>

text \<open>What \<open>main\<close> does: run a command with a log, send a message, or print its usage.\<close>

datatype command =
    Run_logged (cmd_log: string) (cmd_out: bool) (cmd_argv: "string list")
  | Send_message int string
  | Usage

definition parse_command :: "string list \<Rightarrow> command" where
  "parse_command argv =
     (if length argv < 3 then Usage
      else if argv ! 1 \<noteq> [] \<and> hd (argv ! 1) = CHR ''/'' then Run_logged (argv ! 1) False (drop 2 argv)
      else if argv ! 1 \<noteq> [] \<and> hd (argv ! 1) = CHR ''!'' then Run_logged (tl (argv ! 1)) True (drop 2 argv)
      else Send_message (atoi (argv ! 1)) (argv ! 2))"

text \<open>The exit status of the parent, from the result of the handler and the status of the child.\<close>

definition exit_status :: "int \<Rightarrow> int \<Rightarrow> int" where
  "exit_status r child = (if r = 0 then (if child \<noteq> 0 then 1 else 0) else 1)"

end
