(* ===== verification/ProgressRun.thy ===== *)
theory ProgressRun
  imports Progress
begin

text \<open>
  The pointers of the package list are a list, and the counters of the handler follow the
  messages: the packages that have begun and not ended, how many have ended, and the percentage.
\<close>

section \<open>The pointers as a list\<close>

fun linked :: "pkg_list \<Rightarrow> pptr \<Rightarrow> nat list \<Rightarrow> bool" where
  "linked h p [] \<longleftrightarrow> pnext h p = Some Head"
| "linked h p (a # as) \<longleftrightarrow> pnext h p = Some (Node a) \<and> linked h (Node a) as"

definition last_of :: "nat list \<Rightarrow> pptr" where
  "last_of as = (if as = [] then Head else Node (last as))"

definition list_ok :: "pkg_list \<Rightarrow> nat list \<Rightarrow> bool" where
  "list_ok h as \<longleftrightarrow> linked h Head as \<and> distinct as \<and> pprev h = last_of as \<and> (\<forall>a \<in> set as. a < pfresh h)"

lemma list_ok_init: "list_ok (INIT_PKG_LIST_HEAD h) []"
  by (simp add: list_ok_def INIT_PKG_LIST_HEAD_def last_of_def)

lemma linked_other:
  "(\<And>a. a \<in> set as \<Longrightarrow> pnext h' (Node a) = pnext h (Node a)) \<Longrightarrow> pnext h' p = pnext h p \<Longrightarrow> linked h' p as = linked h p as"
  by (induction as arbitrary: p) auto

lemma pkg_nodes_linked: "linked h (Node a) as \<Longrightarrow> pkg_nodes h (Node a) = Some (a # as)"
proof (induction as arbitrary: a)
  case Nil
  then show ?case by (subst pkg_nodes.simps) (simp, subst pkg_nodes.simps, simp)
next
  case (Cons b as)
  then show ?case by (subst pkg_nodes.simps) simp
qed

lemma all_pkgs_list: "list_ok h as \<Longrightarrow> all_pkgs h = Some as"
  by (cases as) (auto simp: list_ok_def all_pkgs_def pkg_nodes_linked, subst pkg_nodes.simps, simp)

lemma linked_append:
  "linked h p (as @ bs) \<longleftrightarrow> (if as = [] then linked h p bs
     else pnext h p = Some (Node (hd as)) \<and> linked h (Node (last as)) bs
       \<and> (\<forall>i. Suc i < length as \<longrightarrow> pnext h (Node (as ! i)) = Some (Node (as ! Suc i))))"
proof (induction as arbitrary: p)
  case (Cons a as)
  then show ?case by (cases as) (auto simp: nth_Cons' less_Suc_eq_0_disj)
qed simp

lemma linked_last: "linked h p as \<Longrightarrow> pnext h (if as = [] then p else Node (last as)) = Some Head"
  by (induction as arbitrary: p) (auto split: if_splits)

lemma linked_add:
  assumes "linked h p as" "distinct as" "a \<notin> set as" "p \<noteq> Node a" "\<forall>b \<in> set as. p \<noteq> Node b"
  shows "linked (set_next (if as = [] then p else Node (last as)) (Some (Node a)) (set_next (Node a) (Some Head) h)) p (as @ [a])"
  using assms
proof (induction as arbitrary: p)
  case Nil
  then show ?case by (simp add: set_next_def)
next
  case (Cons b as)
  let ?h = "set_next (if as = [] then Node b else Node (last as)) (Some (Node a)) (set_next (Node a) (Some Head) h)"
  have "Node b \<noteq> Node a" "\<forall>x \<in> set as. Node b \<noteq> Node x" using Cons.prems by auto
  with Cons.IH [of "Node b"] Cons.prems have "linked ?h (Node b) (as @ [a])" by simp
  moreover have "pnext ?h p = pnext h p" using Cons.prems by (auto simp: set_next_def)
  moreover have "(if b # as = [] then p else Node (last (b # as))) = (if as = [] then Node b else Node (last as))" by simp
  ultimately show ?case using Cons.prems(1) by (simp only: append_Cons linked.simps simp_thms)
qed

lemma new_pkg_ok:
  assumes "list_ok h as"
  shows "list_ok (new_pkg t n h) (as @ [pfresh h])" and "pname (new_pkg t n h) = (pname h)(pfresh h := t)"
    and "plen (new_pkg t n h) = (plen h)(pfresh h := n)"
proof -
  let ?a = "pfresh h"
  let ?g = "h\<lparr>pname := (pname h)(?a := t), plen := (plen h)(?a := n), pfresh := Suc ?a\<rparr>"
  have l: "linked ?g Head as" "distinct as" "?a \<notin> set as" "pprev h = last_of as"
    using assms linked_other [of as ?g h Head] by (auto simp: list_ok_def)
  have p: "pnext ?g (last_of as) = Some Head" using linked_last [OF l(1)] by (simp add: last_of_def split: if_splits)
  have n: "last_of as \<noteq> Node ?a" using l(3) last_in_set [of as] by (auto simp: last_of_def simp del: last_in_set)
  have e: "new_pkg t n h = (set_next (last_of as) (Some (Node ?a)) (set_next (Node ?a) (Some Head) ?g))\<lparr>pprev := Node ?a\<rparr>"
    using p n by (simp add: new_pkg_def pkg_list_add_tail_def Let_def l(4) set_next_def)
  have "linked (set_next (last_of as) (Some (Node ?a)) (set_next (Node ?a) (Some Head) ?g)) Head (as @ [?a])"
    using linked_add [OF l(1,2,3)] by (simp add: last_of_def)
  then have "linked (new_pkg t n h) Head (as @ [?a])"
    unfolding e by (subst linked_other [where h = "set_next (last_of as) (Some (Node ?a)) (set_next (Node ?a) (Some Head) ?g)"]) simp_all
  with assms show "list_ok (new_pkg t n h) (as @ [?a])"
    by (auto simp: list_ok_def last_of_def e set_next_def less_Suc_eq)
  show "pname (new_pkg t n h) = (pname h)(?a := t)" "plen (new_pkg t n h) = (plen h)(?a := n)"
    by (simp_all add: e set_next_def)
qed

text \<open>The search finds the first node with the name, and the one before it.\<close>

lemma pkg_find_next:
  "pname h b \<noteq> t \<Longrightarrow> pkg_find h t p (Node b) = Option.bind (pnext h (Node b)) (pkg_find h t (Node b))"
  by (subst pkg_find.simps) simp

lemma pkg_find_None:
  "linked h p as \<Longrightarrow> \<forall>a \<in> set as. pname h a \<noteq> t \<Longrightarrow> Option.bind (pnext h p) (pkg_find h t p) = Some None"
proof (induction as arbitrary: p)
  case Nil
  then show ?case by (simp, subst pkg_find.simps, simp)
next
  case (Cons a as)
  from Cons.IH [of "Node a"] Cons.prems show ?case by (simp add: pkg_find_next)
qed

lemma pkg_find_Some:
  "linked h p (as @ a # bs) \<Longrightarrow> \<forall>b \<in> set as. pname h b \<noteq> t \<Longrightarrow> pname h a = t \<Longrightarrow>
   Option.bind (pnext h p) (pkg_find h t p) = Some (Some (if as = [] then p else Node (last as), a))"
proof (induction as arbitrary: p)
  case Nil
  then show ?case by (simp, subst pkg_find.simps, simp)
next
  case (Cons b as)
  from Cons.IH [of "Node b"] Cons.prems show ?case by (simp add: pkg_find_next)
qed

lemma linked_from:
  assumes "\<And>a. a \<in> set as \<Longrightarrow> pnext h' (Node a) = pnext h (Node a)" and "pnext h' p = pnext h q"
  shows "linked h' p as = linked h q as"
  using assms linked_other [of "tl as" h' h] by (cases as) auto

lemma linked_del:
  assumes "linked h p (as @ a # bs)" "distinct (as @ a # bs)" "\<forall>b \<in> set (as @ a # bs). p \<noteq> Node b"
  shows "linked (set_next (Node a) None (set_next (if as = [] then p else Node (last as)) (pnext h (Node a)) h)) p (as @ bs)"
  using assms
proof (induction as arbitrary: p)
  case Nil
  let ?h = "set_next (Node a) None (set_next p (pnext h (Node a)) h)"
  have "linked ?h p bs = linked h (Node a) bs"
    using Nil.prems by (intro linked_from) (auto simp: set_next_def)
  with Nil.prems show ?case by simp
next
  case (Cons b as)
  let ?h = "set_next (Node a) None (set_next (if as = [] then Node b else Node (last as)) (pnext h (Node a)) h)"
  have "\<forall>x \<in> set (as @ a # bs). Node b \<noteq> Node x" using Cons.prems by auto
  with Cons.IH [of "Node b"] Cons.prems have "linked ?h (Node b) (as @ bs)" by simp
  moreover have "pnext ?h p = pnext h p" using Cons.prems by (auto simp: set_next_def)
  moreover have "(if b # as = [] then p else Node (last (b # as))) = (if as = [] then Node b else Node (last as))" by simp
  ultimately show ?case using Cons.prems(1) by (simp only: append_Cons linked.simps simp_thms)
qed

lemma pkg_del_ok:
  assumes "list_ok h (as @ a # bs)"
  shows "list_ok (pkg_list_del a (last_of as) h) (as @ bs)" and "pname (pkg_list_del a (last_of as) h) = pname h"
proof -
  let ?h = "set_next (Node a) None (set_next (last_of as) (pnext h (Node a)) h)"
  have l: "linked h Head (as @ a # bs)" "distinct (as @ a # bs)" "pprev h = last_of (as @ a # bs)"
    using assms by (auto simp: list_ok_def)
  have lk: "linked ?h Head (as @ bs)" using linked_del [OF l(1,2)] by (simp add: last_of_def)
  have e: "pkg_list_del a (last_of as) h = (if pnext h (Node a) = Some Head then ?h\<lparr>pprev := last_of as\<rparr> else ?h)"
    by (simp add: pkg_list_del_def Let_def set_next_def)
  have "linked (pkg_list_del a (last_of as) h) Head (as @ bs)"
    unfolding e using lk linked_other [of "as @ bs" "?h\<lparr>pprev := last_of as\<rparr>" ?h Head]
    by (cases "pnext h (Node a) = Some Head") simp_all
  moreover have "pprev (pkg_list_del a (last_of as) h) = last_of (as @ bs)"
  proof (cases bs)
    case Nil
    with linked_last [OF l(1)] show ?thesis by (simp add: e)
  next
    case (Cons b cs)
    have "pnext h (Node a) = Some (Node b)" using l(1) by (simp add: linked_append Cons split: if_splits)
    with l(3) Cons show ?thesis unfolding e by (simp add: last_of_def set_next_def)
  qed
  ultimately show "list_ok (pkg_list_del a (last_of as) h) (as @ bs)"
    using assms by (auto simp: list_ok_def e set_next_def)
  show "pname (pkg_list_del a (last_of as) h) = pname h" by (simp add: e set_next_def)
qed

text \<open>On the names, \<open>remove_pkg\<close> is \<open>remove1\<close>.\<close>

lemma remove_pkg_ok:
  assumes "list_ok h as"
  shows "\<exists>h' bs. remove_pkg t h = Some (t \<in> pname h ` set as, h') \<and> list_ok h' bs \<and> pname h' = pname h
    \<and> map (pname h) bs = remove1 t (map (pname h) as)"
proof (cases "t \<in> pname h ` set as")
  case False
  then have "\<forall>a \<in> set as. pname h a \<noteq> t" by auto
  from pkg_find_None [OF _ this, of Head] assms have "Option.bind (pnext h Head) (pkg_find h t Head) = Some None"
    by (simp add: list_ok_def)
  then have "remove_pkg t h = Some (False, h)"
    by (auto simp: remove_pkg_def bind_Some_iff)
  moreover have "remove1 t (map (pname h) as) = map (pname h) as" using False by (intro remove1_idem) auto
  ultimately show ?thesis using assms False by auto
next
  case True
  then obtain bs a cs where as: "as = bs @ a # cs" "pname h a = t" "\<forall>b \<in> set bs. pname h b \<noteq> t"
    using split_list_first_prop [of as "\<lambda>a. pname h a = t"] by (metis (mono_tags, lifting) imageE)
  have "Option.bind (pnext h Head) (pkg_find h t Head) = Some (Some (last_of bs, a))"
    using pkg_find_Some [OF _ as(3,2), of Head cs] assms by (simp add: list_ok_def as(1) last_of_def)
  then have "remove_pkg t h = Some (True, pkg_list_del a (last_of bs) h)"
    by (auto simp: remove_pkg_def bind_Some_iff)
  moreover have "remove1 t (map (pname h) as) = map (pname h) (bs @ cs)"
    using as by (auto simp: remove1_append)
  ultimately show ?thesis using pkg_del_ok [of h bs a cs] assms as(1) True by auto
qed

section \<open>Messages\<close>

datatype pkg_msg = Begin string | End string

fun msg_text :: "pkg_msg \<Rightarrow> string" where
  "msg_text (Begin t) = ''begin='' @ t"
| "msg_text (End t) = ''end='' @ t"

fun msg_name :: "pkg_msg \<Rightarrow> string" where
  "msg_name (Begin t) = t"
| "msg_name (End t) = t"

definition plain_pkg :: "string \<Rightarrow> bool" where
  "plain_pkg t \<longleftrightarrow> CHR 0x00 \<notin> set t \<and> length t \<le> 127"

fun handle_messages :: "string list \<Rightarrow> handler \<Rightarrow> handler option" where
  "handle_messages [] s = Some s"
| "handle_messages (d # ds) s = Option.bind (handle_message d s) (handle_messages ds)"

text \<open>What the messages mean: the packages that are being built, and how many are ready.\<close>

fun live_names :: "pkg_msg list \<Rightarrow> string list \<Rightarrow> string list" where
  "live_names [] l = l"
| "live_names (Begin t # ms) l = live_names ms (l @ [strip_single t])"
| "live_names (End t # ms) l = live_names ms (remove1 (strip_single t) l)"

fun ended :: "pkg_msg list \<Rightarrow> nat" where
  "ended [] = 0"
| "ended (Begin t # ms) = ended ms"
| "ended (End t # ms) = Suc (ended ms)"

definition counts :: "int \<Rightarrow> nat \<Rightarrow> string list \<Rightarrow> handler \<Rightarrow> bool" where
  "counts n e l s \<longleftrightarrow> (\<exists>as. list_ok (pkgs s) as \<and> map (pname (pkgs s)) as = l) \<and> live_pkg s = int (length l)
     \<and> total_pkg s = n \<and> finished_pkg s = min n (int e) \<and> length (buf s) = BUF_SIZE \<and> running s
     \<and> (0 < e \<longrightarrow> percent s = 100 * finished_pkg s div n)"

lemma strip_single_plain: "CHR 0x00 \<notin> set t \<Longrightarrow> c_text (strip_single t) = strip_single t"
  by (auto simp: c_text_def strip_single_def takeWhile_eq_all_conv dest: in_set_takeD)

lemma message_name_plain:
  assumes "plain_pkg t" "buf s = p @ t @ r" "length p = k"
  shows "message_name k (k + length t) s = Some (strip_single t, length (strip_single t))"
  using assms by (simp add: message_name_def plain_pkg_def strip_single_plain Let_def)

lemma read_buf_sel [simp]:
  "buf (read_buf d s) = d @ drop (length d) (buf s)" "pkgs (read_buf d s) = pkgs s" "running (read_buf d s) = running s"
  "live_pkg (read_buf d s) = live_pkg s" "total_pkg (read_buf d s) = total_pkg s" "finished_pkg (read_buf d s) = finished_pkg s"
  "percent (read_buf d s) = percent s" "ccnt (read_buf d s) = ccnt s"
  by (simp_all add: read_buf_def)

lemma counts_read: "counts n e l s \<Longrightarrow> length d \<le> BUF_SIZE \<Longrightarrow> counts n e l (read_buf d s)"
  by (simp add: counts_def)

lemma begin_counts:
  assumes c: "counts n e l s" and t: "plain_pkg t"
  shows "\<exists>s'. handle_message (msg_text (Begin t)) s = Some s' \<and> counts n e (l @ [strip_single t]) s'"
proof -
  let ?s = "read_buf (''begin='' @ t) s"
  have r: "counts n e l ?s" using c t by (intro counts_read) (auto simp: plain_pkg_def)
  have nm: "message_name 6 (6 + length t) ?s = Some (strip_single t, length (strip_single t))"
    by (rule message_name_plain [OF t, where p = "''begin=''"]) simp_all
  obtain as where as: "list_ok (pkgs s) as" "map (pname (pkgs s)) as = l" using c by (auto simp: counts_def)
  let ?h = "new_pkg (strip_single t) (length (strip_single t)) (pkgs s)"
  have "map (pname ?h) (as @ [pfresh (pkgs s)]) = l @ [strip_single t]"
    using as by (auto simp: new_pkg_ok(2) [OF as(1)] list_ok_def)
  with new_pkg_ok(1) [OF as(1), of "strip_single t" "length (strip_single t)"]
  have "\<exists>as. list_ok ?h as \<and> map (pname ?h) as = l @ [strip_single t]" by blast
  with r have "counts n e (l @ [strip_single t]) (?s\<lparr>pkgs := ?h, live_pkg := live_pkg ?s + 1\<rparr>)"
    by (simp add: counts_def)
  moreover have "handle_message (msg_text (Begin t)) s = message_begin (6 + length t) ?s"
    by (simp add: handle_message_def Let_def numeral_eq_Suc)
  ultimately show ?thesis using nm by (simp add: message_begin_def)
qed

text \<open>The percentage stays between 0 and 100, so the bar stays in its buffer.\<close>

lemma percent_bounds:
  assumes "0 < (n :: int)" "0 \<le> f" "f \<le> n"
  shows "0 \<le> 100 * f div n" "100 * f div n \<le> 100"
proof -
  show "0 \<le> 100 * f div n" using assms by (simp add: pos_imp_zdiv_nonneg_iff)
  have "100 * f div n \<le> 100 * n div n" using assms by (intro zdiv_mono1) auto
  then show "100 * f div n \<le> 100" using assms by simp
qed

lemma progress_bar_returns:
  assumes "0 \<le> percent s" "percent s \<le> 100"
  shows "\<exists>bar. progress_bar s t = Some bar"
proof -
  have "percent s div 2 \<le> 50" using assms(2) by simp
  with assms(1) show ?thesis by (simp add: progress_bar_def Let_def)
qed

lemma put_out_sel [simp]:
  "pkgs (put_out t s) = pkgs s" "running (put_out t s) = running s" "buf (put_out t s) = buf s"
  "live_pkg (put_out t s) = live_pkg s" "total_pkg (put_out t s) = total_pkg s" "finished_pkg (put_out t s) = finished_pkg s"
  "percent (put_out t s) = percent s"
  by (simp_all add: put_out_def)

lemma counts_put_out [simp]: "counts n e l (put_out t s) = counts n e l s"
  by (simp add: counts_def)

lemma count_end_counts:
  assumes "counts n e l s"
  shows "pkgs (count_end s) = pkgs s" "live_pkg (count_end s) = live_pkg s" "total_pkg (count_end s) = n"
    "finished_pkg (count_end s) = min n (int (Suc e))" "buf (count_end s) = buf s" "running (count_end s)"
  using assms by (auto simp: count_end_def Let_def counts_def)

lemma drop_pkg_counts:
  assumes as: "list_ok (pkgs s) as" and l: "map (pname (pkgs s)) as = l" "live_pkg s = int (length l)"
  shows "\<exists>s' bs. drop_pkg t s = Some s' \<and> list_ok (pkgs s') bs \<and> map (pname (pkgs s')) bs = remove1 t l
    \<and> live_pkg s' = int (length (remove1 t l)) \<and> total_pkg s' = total_pkg s \<and> finished_pkg s' = finished_pkg s
    \<and> buf s' = buf s \<and> running s' = running s"
proof -
  obtain h bs where h: "remove_pkg t (pkgs s) = Some (t \<in> set l, h)" "list_ok h bs" "map (pname h) bs = remove1 t l"
    using remove_pkg_ok [OF as, of t] l(1) by auto
  show ?thesis
  proof (cases "t \<in> set l")
    case True
    then have "int (length (remove1 t l)) = int (length l) - 1"
      using length_pos_if_in_set [OF True] by (simp add: length_remove1 of_nat_diff Suc_leI)
    with True h l(2) show ?thesis by (auto simp: drop_pkg_def)
  next
    case False
    with h as l show ?thesis by (auto simp: drop_pkg_def remove1_idem)
  qed
qed

lemma show_bar_counts:
  assumes "0 < n" "100 * n < 2 ^ 31" "total_pkg s = n" "0 \<le> finished_pkg s" "finished_pkg s \<le> n"
  shows "\<exists>bar. show_bar t s = Some (put_out bar (print_buf bar (s\<lparr>percent := 100 * finished_pkg s div n\<rparr>)))"
proof -
  have "100 * finished_pkg s \<le> 100 * n" using assms(5) by simp
  then have p: "percentage (finished_pkg s) (total_pkg s) = Some (100 * finished_pkg s div n)"
    using assms(1-3) by (simp add: percentage_def c_div_def)
  let ?s = "s\<lparr>percent := 100 * finished_pkg s div n\<rparr>"
  obtain bar where "progress_bar ?s t = Some bar"
    using progress_bar_returns [of ?s] percent_bounds [OF assms(1,4,5)] by auto
  with p show ?thesis by (auto simp: show_bar_def)
qed

lemma end_counts:
  assumes c: "counts n e l s" and t: "plain_pkg t" and n: "0 < n" "100 * n < 2 ^ 31"
  shows "\<exists>s'. handle_message (msg_text (End t)) s = Some s' \<and> counts n (Suc e) (remove1 (strip_single t) l) s'"
proof -
  let ?s = "read_buf (''end='' @ t) s" and ?t = "strip_single t"
  have r: "counts n e l ?s" using c t by (intro counts_read) (auto simp: plain_pkg_def)
  obtain as where as: "list_ok (pkgs ?s) as" "map (pname (pkgs ?s)) as = l" and l: "live_pkg ?s = int (length l)"
    using r by (auto simp: counts_def)
  let ?u = "count_end ?s"
  note u = count_end_counts [OF r]
  obtain v bs where v: "drop_pkg ?t ?u = Some v" "list_ok (pkgs v) bs" "map (pname (pkgs v)) bs = remove1 ?t l"
      "live_pkg v = int (length (remove1 ?t l))" "total_pkg v = n" "finished_pkg v = min n (int (Suc e))"
      "buf v = buf ?s" "running v"
    using drop_pkg_counts [of ?u as l ?t] as l u by (metis (no_types, lifting))
  obtain bar where bar: "show_bar ?t v = Some (put_out bar (print_buf bar (v\<lparr>percent := 100 * finished_pkg v div n\<rparr>)))"
    using show_bar_counts [OF n v(5), of ?t] v(6) n(1) by auto
  have "buf ?u = ''end='' @ t @ drop (4 + length t) (buf s)"
    unfolding u(5) by (simp add: numeral_eq_Suc)
  then have "message_name 4 (4 + length t) ?u = Some (?t, length ?t)"
    by (rule message_name_plain [OF t]) simp
  moreover have "total_pkg ?s \<noteq> 0" using r n(1) by (simp add: counts_def)
  ultimately have "message_end (4 + length t) ?s = Some (put_out bar (print_buf bar (v\<lparr>percent := 100 * finished_pkg v div n\<rparr>)))"
    using v(1) bar by (simp add: message_end_def Let_def del: read_buf_sel)
  then have "handle_message (msg_text (End t)) s = Some (put_out bar (print_buf bar (v\<lparr>percent := 100 * finished_pkg v div n\<rparr>)))"
    by (simp add: handle_message_def Let_def numeral_eq_Suc)
  moreover have "counts n (Suc e) (remove1 ?t l) (v\<lparr>percent := 100 * finished_pkg v div n\<rparr>)"
    using v r unfolding counts_def by auto
  ultimately show ?thesis using counts_read
    by (auto simp: print_buf_def intro!: counts_read)
qed

lemma messages_counts:
  assumes "counts n e l s" "0 < n" "100 * n < 2 ^ 31" "\<forall>m \<in> set ms. plain_pkg (msg_name m)"
  shows "\<exists>s'. handle_messages (map msg_text ms) s = Some s' \<and> counts n (e + ended ms) (live_names ms l) s'"
  using assms(1,4)
proof (induction ms arbitrary: e l s)
  case (Cons m ms)
  show ?case
  proof (cases m)
    case (Begin t)
    with begin_counts [OF Cons.prems(1), of t] Cons.prems(2) obtain s1 where
      "handle_message (msg_text m) s = Some s1" "counts n e (l @ [strip_single t]) s1" by auto
    with Cons.IH [of e "l @ [strip_single t]" s1] Cons.prems(2) Begin show ?thesis by auto
  next
    case (End t)
    with end_counts [OF Cons.prems(1) _ assms(2,3), of t] Cons.prems(2) obtain s1 where
      "handle_message (msg_text m) s = Some s1" "counts n (Suc e) (remove1 (strip_single t) l) s1" by auto
    with Cons.IH [of "Suc e" "remove1 (strip_single t) l" s1] Cons.prems(2) End show ?thesis by auto
  qed
qed simp

section \<open>The first message\<close>

lemma scan_number_nat_text: "scan_number 10 (nat_text n) = Some (False, n, [])"
proof -
  obtain c cs where c: "nat_text n = c # cs" using nat_text_nonempty by (cases "nat_text n") auto
  then have d: "isdigit c" using nat_text_digits [of n] by simp
  then have "\<not> isspace c" "c \<noteq> CHR ''-''" "c \<noteq> CHR ''+''" "is_base_digit 10 c"
    by (auto simp: isdigit_def isspace_def is_base_digit_def isdigit_val)
  then show ?thesis
    using scan_nat_text [of n] c by (simp add: scan_number_def scan_magnitude_def number_base_def)
qed

lemma atoi_nat_text:
  assumes "n < 2 ^ 31"
  shows "atoi (nat_text n) = int n"
proof -
  have "strtoll_int 10 (nat_text n) = (int n, [], False)"
    using assms by (simp add: strtoll_int_def scan_number_nat_text clamp_ll_def LLONG_MAX_def LLONG_MIN_def)
  moreover have "sint (word_of_int (int n) :: 32 word) = int n"
  proof -
    have "sint (word_of_int v :: 32 word) = signed_take_bit 31 v" for v by (simp add: signed_of_int)
    from this [of "int n"] have "sint (word_of_int (int n) :: 32 word) = signed_take_bit 31 (int n)" .
    also have "\<dots> = int n" using assms by (intro signed_take_bit_int_eq_self) auto
    finally show ?thesis .
  qed
  ultimately show ?thesis by (simp add: atoi_def)
qed

lemma nat_text_length: "n < (10 :: nat) ^ k \<Longrightarrow> 0 < k \<Longrightarrow> length (nat_text n) \<le> k"
proof (induction n arbitrary: k rule: nat_text.induct)
  case (1 n)
  show ?case
  proof (cases "n < 10")
    case True
    with 1 show ?thesis by (subst nat_text.simps) simp
  next
    case False
    then have "k \<noteq> 1" using 1(2) by auto
    with 1(3) have "0 < k - 1" "(10 :: nat) ^ k = 10 * 10 ^ (k - 1)" by (simp_all add: power_eq_if)
    with 1(2) have "n div 10 < 10 ^ (k - 1)" by (simp add: less_mult_imp_div_less mult.commute)
    with 1(1) [OF False] \<open>0 < k - 1\<close> have "length (nat_text (n div 10)) \<le> k - 1" by simp
    with False \<open>0 < k - 1\<close> show ?thesis by (subst nat_text.simps) simp
  qed
qed

lemma total_counts:
  assumes "n < 2 ^ 31" "length b = BUF_SIZE"
  shows "\<exists>s. handle_message (''total='' @ nat_text n) (handler_start b) = Some s \<and> counts (int n) 0 [] s"
proof -
  let ?s = "read_buf (''total='' @ nat_text n) (handler_start b)"
  let ?b = "''total='' @ nat_text n @ drop (6 + length (nat_text n)) b"
  have "n < (10 :: nat) ^ 10" using assms(1) by simp
  then have l: "length (nat_text n) \<le> 10" by (rule nat_text_length) simp
  have z: "CHR 0x00 \<notin> set (nat_text n)"
    using nat_text_digits [of n] by (auto simp: list_all_iff isdigit_def)
  have lb: "6 + length (nat_text n) < length b" using l assms(2) by simp
  have buf: "buf ?s = ?b" by (simp add: handler_start_def numeral_eq_Suc)
  have "(buf ?s)[6 + length (nat_text n) := CHR 0x00] = ''total='' @ nat_text n @ (drop (6 + length (nat_text n)) b)[0 := CHR 0x00]"
    unfolding buf by (simp add: list_update_append)
  moreover obtain x where "(drop (6 + length (nat_text n)) b)[0 := CHR 0x00] = CHR 0x00 # x"
    using lb by (cases "drop (6 + length (nat_text n)) b") auto
  ultimately have u: "(buf ?s)[6 + length (nat_text n) := CHR 0x00] = ''total='' @ nat_text n @ CHR 0x00 # x" by simp
  have c: "c_text (nat_text n @ CHR 0x00 # x) = nat_text n"
    using z by (auto simp: c_text_def intro!: takeWhile_append_not)
  have "terminate_buf (6 + length (nat_text n)) ?s = Some (?s\<lparr>buf := ''total='' @ nat_text n @ CHR 0x00 # x\<rparr>)"
    using u l by (simp add: terminate_buf_def)
  then have "message_total (6 + length (nat_text n)) ?s
      = Some (?s\<lparr>buf := ''total='' @ nat_text n @ CHR 0x00 # x, total_pkg := int n\<rparr>)"
    using c assms(1) by (simp add: message_total_def atoi_nat_text)
  then have "handle_message (''total='' @ nat_text n) (handler_start b)
      = Some (?s\<lparr>buf := ''total='' @ nat_text n @ CHR 0x00 # x, total_pkg := int n\<rparr>)"
    by (simp add: handle_message_def Let_def numeral_eq_Suc)
  moreover have "length (''total='' @ nat_text n @ CHR 0x00 # x) = BUF_SIZE"
    unfolding u [symmetric] buf using assms(2) lb by simp
  then have "counts (int n) 0 [] (?s\<lparr>buf := ''total='' @ nat_text n @ CHR 0x00 # x, total_pkg := int n\<rparr>)"
    using list_ok_init by (simp add: counts_def handler_start_def)
  ultimately show ?thesis by blast
qed

theorem messages_result:
  assumes "0 < n" "100 * n < 2 ^ 31" "length b = BUF_SIZE" "\<forall>m \<in> set ms. plain_pkg (msg_name m)"
  shows "\<exists>s. handle_messages ((''total='' @ nat_text n) # map msg_text ms) (handler_start b) = Some s
    \<and> counts (int n) (ended ms) (live_names ms []) s"
proof -
  obtain s0 where s0: "handle_message (''total='' @ nat_text n) (handler_start b) = Some s0" "counts (int n) 0 [] s0"
    using total_counts [of n b] assms by auto
  with messages_counts [OF s0(2)] assms show ?thesis by auto
qed

end
