(* ===== verification/Dialog.thy ===== *)
theory Dialog
  imports Kdata CString "HOL-Library.Monad_Syntax"
begin

text \<open>
  The dialogs of menuconfig, \<^verbatim>\<open>lxdialog/\<close>: the list of items of \<^verbatim>\<open>util.c\<close>, and the loops that
  read keys in \<^verbatim>\<open>menubox.c\<close>, \<^verbatim>\<open>checklist.c\<close>, \<^verbatim>\<open>yesno.c\<close> and \<^verbatim>\<open>inputbox.c\<close>, without the drawing.
  Where drawing reads an item or a character, that it exists is part of the model. The keys are
  a list; a dialog returns \<open>None\<close> when it accesses what does not exist, and when the keys end
  before the dialog does, as it waits for ever. Characters are those of the C locale.
\<close>

section \<open>Keys\<close>

text \<open>
  \<open>KEY_ESC\<close> comes with the characters that follow it without delay, \<open>KEY_RESIZE\<close> with the new
  height and width of the screen.
\<close>

datatype key =
    Key char | KEY_UP | KEY_DOWN | KEY_LEFT | KEY_RIGHT | KEY_PPAGE | KEY_NPAGE | KEY_HOME | KEY_END | KEY_BACKSPACE
  | KEY_RESIZE int int | KEY_ESC "char list"

abbreviation (input) TAB :: char where "TAB \<equiv> CHR 0x09"

definition isalpha :: "char \<Rightarrow> bool" where
  "isalpha c \<longleftrightarrow> isupper c \<or> islower c"

definition isprint :: "char \<Rightarrow> bool" where
  "isprint c \<longleftrightarrow> 32 \<le> (of_char c :: nat) \<and> (of_char c :: nat) < 127"

definition tolower :: "char \<Rightarrow> char" where
  "tolower c = (if isupper c then char_of ((of_char c :: nat) + 32) else c)"

definition toupper :: "char \<Rightarrow> char" where
  "toupper c = (if islower c then char_of ((of_char c :: nat) - 32) else c)"

text \<open>A character of a text equals a key only below 128: above, \<open>char\<close> is negative.\<close>

definition same_key :: "char \<Rightarrow> char \<Rightarrow> bool" where
  "same_key k c \<longleftrightarrow> k = c \<and> (of_char c :: nat) < 128"

datatype escape = Escape | Unget char | Nothing

definition on_key_esc :: "char list \<Rightarrow> escape" where
  "on_key_esc cs =
     (case cs of
        [c] \<Rightarrow> if c = CHR 0x1B then Escape else Unget c
      | _ \<Rightarrow> Nothing)"

text \<open>
  The loop of a dialog: a key leads to a new state or to a result, and an escape to the result
  \<open>esc\<close>.
\<close>

datatype ('s, 'r) reaction = Stay 's | Leave_dialog 'r 's

fun key_weight :: "key \<Rightarrow> nat" where
  "key_weight (KEY_ESC cs) = 2"
| "key_weight _ = 1"

function key_loop :: "('s \<Rightarrow> key \<Rightarrow> ('s, 'r) reaction option) \<Rightarrow> 'r \<Rightarrow> 's \<Rightarrow> key list \<Rightarrow> ('r \<times> 's \<times> key list) option" where
  "key_loop step esc s [] = None"
| "key_loop step esc s (k # ks) =
     (case k of
        KEY_ESC cs \<Rightarrow>
          (case on_key_esc cs of
             Escape \<Rightarrow> Some (esc, s, ks)
           | Unget c \<Rightarrow> key_loop step esc s (Key c # ks)
           | Nothing \<Rightarrow> key_loop step esc s ks)
      | _ \<Rightarrow>
          (case step s k of
             None \<Rightarrow> None
           | Some (Stay s) \<Rightarrow> key_loop step esc s ks
           | Some (Leave_dialog r s) \<Rightarrow> Some (r, s, ks)))"
  by pat_completeness auto

termination key_loop
  by (relation "measure (\<lambda>(step, esc, s, ks). sum_list (map key_weight ks))") auto

section \<open>The list of items\<close>

record dialog_item =
  i_str :: string
  i_tag :: char
  i_data :: "mid option"
  i_selected :: bool

text \<open>\<open>item_cur\<close> points to an item, to \<open>item_nil\<close>, or nowhere.\<close>

datatype item_ptr = Item nat | Item_nil | Item_null

record item_list =
  item_head :: "dialog_item list"
  item_nil :: dialog_item
  item_cur :: item_ptr

abbreviation (input) MAXITEMSTR :: nat where "MAXITEMSTR \<equiv> 200"

definition blank_item :: dialog_item where
  "blank_item = \<lparr>i_str = [], i_tag = CHR 0x00, i_data = None, i_selected = False\<rparr>"

definition item_reset :: "item_list \<Rightarrow> item_list" where
  "item_reset l = l\<lparr>item_head := [], item_cur := Item_nil\<rparr>"

text \<open>The new item becomes the next one of the current item, so what was behind that is lost.\<close>

definition item_make :: "string \<Rightarrow> item_list \<Rightarrow> item_list option" where
  "item_make t l =
     (let p = blank_item\<lparr>i_str := take (MAXITEMSTR - 1) t\<rparr> in
      if item_head l = [] then Some (l\<lparr>item_head := [p], item_cur := Item 0\<rparr>)
      else (case item_cur l of
              Item i \<Rightarrow> Some (l\<lparr>item_head := take (Suc i) (item_head l) @ [p], item_cur := Item (Suc i)\<rparr>)
            | _ \<Rightarrow> None))"

definition item_get :: "item_list \<Rightarrow> dialog_item option" where
  "item_get l =
     (case item_cur l of
        Item i \<Rightarrow> if i < length (item_head l) then Some (item_head l ! i) else None
      | Item_nil \<Rightarrow> Some (item_nil l)
      | Item_null \<Rightarrow> None)"

definition item_upd :: "(dialog_item \<Rightarrow> dialog_item) \<Rightarrow> item_list \<Rightarrow> item_list option" where
  "item_upd f l =
     (case item_cur l of
        Item i \<Rightarrow> if i < length (item_head l) then Some (l\<lparr>item_head := (item_head l)[i := f (item_head l ! i)]\<rparr>) else None
      | Item_nil \<Rightarrow> Some (l\<lparr>item_nil := f (item_nil l)\<rparr>)
      | Item_null \<Rightarrow> None)"

definition item_add_str :: "string \<Rightarrow> item_list \<Rightarrow> item_list option" where
  "item_add_str t = item_upd (\<lambda>p. p\<lparr>i_str := take (MAXITEMSTR - 1) (i_str p @ t)\<rparr>)"

definition item_set_tag :: "char \<Rightarrow> item_list \<Rightarrow> item_list option" where
  "item_set_tag c = item_upd (\<lambda>p. p\<lparr>i_tag := c\<rparr>)"

definition item_set_data :: "mid \<Rightarrow> item_list \<Rightarrow> item_list option" where
  "item_set_data m = item_upd (\<lambda>p. p\<lparr>i_data := Some m\<rparr>)"

definition item_set_selected :: "bool \<Rightarrow> item_list \<Rightarrow> item_list option" where
  "item_set_selected v = item_upd (\<lambda>p. p\<lparr>i_selected := v\<rparr>)"

text \<open>\<open>item_foreach\<close> up to an item with a property: the pointer stops there, or ends nowhere.\<close>

fun find_index :: "('a \<Rightarrow> bool) \<Rightarrow> 'a list \<Rightarrow> nat option" where
  "find_index P [] = None"
| "find_index P (x # xs) = (if P x then Some 0 else map_option Suc (find_index P xs))"

definition item_find :: "(dialog_item \<Rightarrow> bool) \<Rightarrow> item_list \<Rightarrow> bool \<times> item_list" where
  "item_find P l =
     (if item_head l = [] then (False, l)
      else (case find_index P (item_head l) of
              Some i \<Rightarrow> (True, l\<lparr>item_cur := Item i\<rparr>)
            | None \<Rightarrow> (False, l\<lparr>item_cur := Item_null\<rparr>)))"

definition item_activate_selected :: "item_list \<Rightarrow> bool \<times> item_list" where
  "item_activate_selected = item_find i_selected"

definition item_data :: "item_list \<Rightarrow> mid option option" where
  "item_data l = map_option i_data (item_get l)"

definition item_tag :: "item_list \<Rightarrow> char option" where
  "item_tag l = map_option i_tag (item_get l)"

definition item_is_tag :: "char \<Rightarrow> item_list \<Rightarrow> bool option" where
  "item_is_tag c l = map_option (\<lambda>t. t = c) (item_tag l)"

definition item_count :: "item_list \<Rightarrow> int" where
  "item_count l = int (length (item_head l))"

definition item_set :: "int \<Rightarrow> item_list \<Rightarrow> item_list" where
  "item_set n l =
     (if item_head l = [] then l
      else if 0 \<le> n \<and> n < item_count l then l\<lparr>item_cur := Item (nat n)\<rparr>
      else l\<lparr>item_cur := Item_null\<rparr>)"

text \<open>The items a dialog draws: none of them may be missing.\<close>

definition drawn :: "item_list \<Rightarrow> int list \<Rightarrow> bool" where
  "drawn l is \<longleftrightarrow> item_head l = [] \<or> list_all (\<lambda>i. 0 \<le> i \<and> i < item_count l) is"

definition str_at :: "item_list \<Rightarrow> int \<Rightarrow> string" where
  "str_at l i = (if item_head l = [] then i_str (item_nil l) else i_str (item_head l ! nat i))"

section \<open>The menu\<close>

text \<open>The first letter outside brackets that is not one of \<open>exempt\<close>, or 0.\<close>

fun first_alpha_from :: "nat \<Rightarrow> nat \<Rightarrow> string \<Rightarrow> string \<Rightarrow> nat" where
  "first_alpha_from i in_paren [] exempt = 0"
| "first_alpha_from i in_paren (x # xs) exempt =
     (let c = tolower x;
          in_paren = (if c \<in> set ''<[('' then in_paren + 1 else in_paren);
          in_paren = (if c \<in> set ''>])'' then in_paren - 1 else in_paren)
      in if in_paren = 0 \<and> isalpha c \<and> c \<notin> set exempt then i
         else first_alpha_from (Suc i) in_paren xs exempt)"

definition first_alpha :: "string \<Rightarrow> string \<Rightarrow> nat" where
  "first_alpha s exempt = first_alpha_from 0 0 s exempt"

definition hot_key :: "string \<Rightarrow> char" where
  "hot_key s = tolower (char_at s (first_alpha s ''YyNnMmHh''))"

datatype dialog_result = Pressed nat | Escaped | Too_small

record menubox =
  box_height :: int
  box_width :: int
  scroll :: int
  choice :: int
  max_choice :: int
  first_item :: int
  button :: int

abbreviation (input) MENUBOX_HEIGHT_MIN :: int where "MENUBOX_HEIGHT_MIN \<equiv> 15"
abbreviation (input) MENUBOX_WIDTH_MIN :: int where "MENUBOX_WIDTH_MIN \<equiv> 65"

text \<open>From \<open>do_resize\<close> to the first page: the last item with the data \<open>sel\<close>, and what is scrolled.\<close>

fun last_index :: "('a \<Rightarrow> bool) \<Rightarrow> 'a list \<Rightarrow> nat option" where
  "last_index P [] = None"
| "last_index P (x # xs) =
     (case last_index P xs of Some i \<Rightarrow> Some (Suc i) | None \<Rightarrow> if P x then Some 0 else None)"

definition default_choice :: "mid option \<Rightarrow> item_list \<Rightarrow> int \<Rightarrow> int" where
  "default_choice sel l c =
     (case (if sel = None then None else last_index (\<lambda>p. i_data p = sel) (item_head l)) of
        Some i \<Rightarrow> int i
      | None \<Rightarrow> c)"

definition menu_scroll :: "int \<Rightarrow> int \<Rightarrow> menubox \<Rightarrow> menubox" where
  "menu_scroll n saved b =
     (let mx = max_choice b;
          b = (if saved \<le> choice b \<and> saved + mx > choice b \<and> saved \<ge> 0 \<and> saved + mx \<le> n
               then b\<lparr>scroll := saved, first_item := saved, choice := choice b - saved\<rparr>
               else b\<lparr>scroll := 0\<rparr>)
      in if choice b \<ge> mx then
           (let s = (if choice b \<ge> n - mx div 2 then n - mx else choice b - mx div 2)
            in b\<lparr>scroll := s, first_item := s, choice := choice b - s\<rparr>)
         else b)"

definition menu_layout :: "item_list \<Rightarrow> mid option \<Rightarrow> int \<Rightarrow> menubox \<Rightarrow> (menubox, dialog_result) reaction option" where
  "menu_layout l sel saved b =
     (if box_height b < MENUBOX_HEIGHT_MIN \<or> box_width b < MENUBOX_WIDTH_MIN then Some (Leave_dialog Too_small b)
      else
        let menu_height = box_height b - 4 - 10;
            b = b\<lparr>max_choice := min menu_height (item_count l), choice := default_choice sel l (choice b)\<rparr>;
            b = menu_scroll (item_count l) saved b
        in if drawn l (map (\<lambda>i. first_item b + i) [0..max_choice b - 1]) then Some (Stay b) else None)"

definition find_hot :: "item_list \<Rightarrow> menubox \<Rightarrow> char \<Rightarrow> int option" where
  "find_hot l b k =
     (case find (\<lambda>i. same_key k (hot_key (str_at l (scroll b + i)))) [choice b + 1..max_choice b - 1] of
        Some i \<Rightarrow> Some i
      | None \<Rightarrow> find (\<lambda>i. same_key k (hot_key (str_at l (scroll b + i)))) [0..max_choice b - 1])"

definition menu_line_up :: "item_list \<Rightarrow> menubox \<Rightarrow> menubox option" where
  "menu_line_up l b =
     (if choice b < 2 \<and> scroll b \<noteq> 0
      then (if drawn l [scroll b - 1] then Some (b\<lparr>scroll := scroll b - 1\<rparr>) else None)
      else Some (b\<lparr>choice := max (choice b - 1) 0\<rparr>))"

definition menu_line_down :: "item_list \<Rightarrow> menubox \<Rightarrow> menubox option" where
  "menu_line_down l b =
     (if choice b > max_choice b - 3 \<and> scroll b + max_choice b < item_count l
      then (if drawn l [scroll b + max_choice b] then Some (b\<lparr>scroll := scroll b + 1\<rparr>) else None)
      else Some (b\<lparr>choice := min (choice b + 1) (max_choice b - 1)\<rparr>))"

definition menu_page_up :: "item_list \<Rightarrow> menubox \<Rightarrow> menubox option" where
  "menu_page_up l b =
     (if scroll b > 0 then (if drawn l [scroll b - 1] then Some (b\<lparr>scroll := scroll b - 1\<rparr>) else None)
      else Some (if choice b > 0 then b\<lparr>choice := choice b - 1\<rparr> else b))"

definition menu_page_down :: "item_list \<Rightarrow> menubox \<Rightarrow> menubox option" where
  "menu_page_down l b =
     (if scroll b + max_choice b < item_count l
      then (if drawn l [scroll b + max_choice b] then Some (b\<lparr>scroll := scroll b + 1\<rparr>) else None)
      else Some (if choice b + 1 < max_choice b then b\<lparr>choice := choice b + 1\<rparr> else b))"

fun repeat :: "nat \<Rightarrow> ('a \<Rightarrow> 'a option) \<Rightarrow> 'a \<Rightarrow> 'a option" where
  "repeat 0 f x = Some x"
| "repeat (Suc n) f x = Option.bind (f x) (repeat n f)"

text \<open>A key that moves: what is drawn is the old line, the lines scrolled in, and the new one.\<close>

definition menu_move :: "item_list \<Rightarrow> menubox \<Rightarrow> key \<Rightarrow> int option \<Rightarrow> menubox option" where
  "menu_move l b k i =
     (if \<not> drawn l [scroll b + choice b] then None
      else do {
        b \<leftarrow> (if k = KEY_UP \<or> k = Key CHR ''-'' then menu_line_up l b
              else if k = KEY_DOWN \<or> k = Key CHR ''+'' then menu_line_down l b
              else if k = KEY_PPAGE then repeat (nat (max_choice b)) (menu_page_up l) b
              else if k = KEY_NPAGE then repeat (nat (max_choice b)) (menu_page_down l) b
              else Some (case i of Some i \<Rightarrow> b\<lparr>choice := i\<rparr> | None \<Rightarrow> b));
        if drawn l [scroll b + choice b] then Some b else None
      })"

text \<open>The code that a key returns; \<open>Enter\<close> returns the button.\<close>

definition menu_code :: "char \<Rightarrow> menubox \<Rightarrow> nat option" where
  "menu_code c b =
     (if c = CHR ''h'' \<or> c = CHR ''?'' then Some 2
      else if c = CHR ''s'' \<or> c = CHR ''y'' then Some 5
      else if c = CHR ''n'' then Some 6
      else if c = CHR ''m'' then Some 7
      else if c = CHR '' '' then Some 8
      else if c = CHR ''/'' then Some 9
      else if c = CHR ''z'' then Some 10
      else if c = CHR 0x0A then Some (nat (button b))
      else None)"

definition turn :: "int \<Rightarrow> bool \<Rightarrow> int \<Rightarrow> int" where
  "turn hi back b =
     (let b = (if back then b - 1 else b + 1) in if b < 0 then hi else if b > hi then 0 else b)"

definition menu_other_key :: "item_list \<Rightarrow> mid option \<Rightarrow> int \<Rightarrow> menubox \<Rightarrow> key \<Rightarrow> (menubox, dialog_result) reaction option" where
  "menu_other_key l sel saved b k =
     (case k of
        KEY_LEFT \<Rightarrow> Some (Stay (b\<lparr>button := turn 4 True (button b)\<rparr>))
      | KEY_RIGHT \<Rightarrow> Some (Stay (b\<lparr>button := turn 4 False (button b)\<rparr>))
      | KEY_RESIZE h w \<Rightarrow> menu_layout l sel saved (b\<lparr>box_height := h, box_width := w\<rparr>)
      | Key c \<Rightarrow>
          (if c = TAB then Some (Stay (b\<lparr>button := turn 4 False (button b)\<rparr>))
           else if c = CHR ''e'' \<or> c = CHR ''x'' then Some (Leave_dialog Escaped b)
           else Some (case menu_code c b of Some r \<Rightarrow> Leave_dialog (Pressed r) b | None \<Rightarrow> Stay b))
      | _ \<Rightarrow> Some (Stay b))"

definition menu_key :: "item_list \<Rightarrow> mid option \<Rightarrow> int \<Rightarrow> menubox \<Rightarrow> key \<Rightarrow> (menubox, dialog_result) reaction option" where
  "menu_key l sel saved b k =
     (let k = (case k of Key c \<Rightarrow> Key (if isalpha c then tolower c else c) | _ \<Rightarrow> k);
          i = (case k of Key c \<Rightarrow> if c \<in> set ''ynmh '' \<or> c = CHR 0x00 then None else find_hot l b c | _ \<Rightarrow> None)
      in if item_count l \<noteq> 0 \<and> (i \<noteq> None \<or> k \<in> {KEY_UP, KEY_DOWN, Key CHR ''-'', Key CHR ''+'', KEY_PPAGE, KEY_NPAGE})
         then map_option Stay (menu_move l b k i)
         else menu_other_key l sel saved b k)"

text \<open>
  The dialog: the result, the scrolling to be saved, the items with the chosen one marked, and
  the rest of the keys. The screen has the height and width of \<open>b\<close>.
\<close>

record screen =
  scr_rows :: int
  scr_cols :: int
  scr_keys :: "key list"

definition dialog_menu :: "mid option \<Rightarrow> int \<Rightarrow> item_list \<Rightarrow> screen \<Rightarrow> (dialog_result \<times> int \<times> item_list \<times> screen) option" where
  "dialog_menu sel saved l d = do {
     let b = \<lparr>box_height = scr_rows d, box_width = scr_cols d, scroll = 0, choice = 0, max_choice = 0, first_item = 0, button = 0\<rparr>;
     first \<leftarrow> menu_layout l sel saved b;
     (r, b, rest) \<leftarrow> (case first of
         Leave_dialog r b \<Rightarrow> Some (r, b, scr_keys d)
       | Stay b \<Rightarrow> key_loop (menu_key l sel saved) Escaped b (scr_keys d));
     let d = \<lparr>scr_rows = box_height b, scr_cols = box_width b, scr_keys = rest\<rparr>;
     case r of
       Pressed n \<Rightarrow> do {
         l \<leftarrow> item_set_selected True (item_set (scroll b + choice b) l);
         Some (r, scroll b, l, d)
       }
     | _ \<Rightarrow> Some (r, saved, l, d)
   }"

end
