(* ===== verification/InputBox.thy ===== *)
theory InputBox
  imports Dialog
begin

text \<open>
  The other dialogs: the list of \<^verbatim>\<open>checklist.c\<close> in which one item is chosen, the question of
  \<^verbatim>\<open>yesno.c\<close>, and the editor of one line in \<^verbatim>\<open>inputbox.c\<close> on its buffer.
\<close>

section \<open>The checklist\<close>

abbreviation (input) CHECKLIST_HEIGHT_MIN :: int where "CHECKLIST_HEIGHT_MIN \<equiv> 6"
abbreviation (input) CHECKLIST_WIDTH_MIN :: int where "CHECKLIST_WIDTH_MIN \<equiv> 6"

record checklist =
  cl_rows :: int
  cl_cols :: int
  cl_scroll :: int
  cl_choice :: int
  cl_max :: int
  cl_button :: int

text \<open>The selected item is highlighted, or else the last one with the tag \<open>X\<close>.\<close>

fun highlighted :: "nat \<Rightarrow> int \<Rightarrow> dialog_item list \<Rightarrow> int" where
  "highlighted i c [] = c"
| "highlighted i c (p # ps) =
     (if i_selected p then int i else highlighted (Suc i) (if i_tag p = CHR ''X'' then int i else c) ps)"

definition checklist_layout :: "item_list \<Rightarrow> int \<Rightarrow> int \<Rightarrow> int \<Rightarrow> checklist \<Rightarrow> (checklist, dialog_result) reaction option" where
  "checklist_layout l h w list_height b =
     (if cl_rows b < h + CHECKLIST_HEIGHT_MIN \<or> cl_cols b < w + CHECKLIST_WIDTH_MIN then Some (Leave_dialog Too_small b)
      else
        let b = b\<lparr>cl_max := min list_height (item_count l)\<rparr>;
            b = (if cl_choice b \<ge> list_height
                 then b\<lparr>cl_scroll := cl_choice b - list_height + 1, cl_choice := list_height - 1\<rparr>
                 else b)
        in if drawn l (map (\<lambda>i. cl_scroll b + i) [0..cl_max b - 1]) then Some (Stay b) else None)"

definition checklist_find :: "item_list \<Rightarrow> checklist \<Rightarrow> key \<Rightarrow> int option" where
  "checklist_find l b k =
     (case k of
        Key c \<Rightarrow> find (\<lambda>i. same_key (toupper c) (toupper (char_at (str_at l (cl_scroll b + i)) 0))) [0..cl_max b - 1]
      | _ \<Rightarrow> None)"

text \<open>To another line on the screen.\<close>

definition checklist_goto :: "item_list \<Rightarrow> int \<Rightarrow> checklist \<Rightarrow> checklist option" where
  "checklist_goto l i b =
     (if i = cl_choice b then Some b
      else if drawn l [cl_scroll b + cl_choice b, cl_scroll b + i] then Some (b\<lparr>cl_choice := i\<rparr>)
      else None)"

definition checklist_up :: "item_list \<Rightarrow> checklist \<Rightarrow> checklist option" where
  "checklist_up l b =
     (if cl_choice b = 0 then
        (if cl_scroll b = 0 then Some b
         else if drawn l [cl_scroll b, cl_scroll b - 1] then Some (b\<lparr>cl_scroll := cl_scroll b - 1\<rparr>)
         else None)
      else checklist_goto l (cl_choice b - 1) b)"

definition checklist_down :: "item_list \<Rightarrow> checklist \<Rightarrow> checklist option" where
  "checklist_down l b =
     (if cl_choice b = cl_max b - 1 then
        (if cl_scroll b + cl_choice b \<ge> item_count l - 1 then Some b
         else if drawn l [cl_scroll b + cl_max b - 1, cl_scroll b + cl_max b] then Some (b\<lparr>cl_scroll := cl_scroll b + 1\<rparr>)
         else None)
      else checklist_goto l (cl_choice b + 1) b)"

definition checklist_other_key ::
  "item_list \<Rightarrow> int \<Rightarrow> int \<Rightarrow> int \<Rightarrow> checklist \<Rightarrow> key \<Rightarrow> (checklist, dialog_result) reaction option" where
  "checklist_other_key l h w list_height b k =
     (case k of
        Key c \<Rightarrow> Some (
          if c \<in> set ''Hh?'' then Leave_dialog (Pressed 1) (b\<lparr>cl_button := 1\<rparr>)
          else if c \<in> set ''Ss '' \<or> c = CHR 0x0A then Leave_dialog (Pressed (nat (cl_button b))) b
          else if c = TAB then Stay (b\<lparr>cl_button := turn 1 False (cl_button b)\<rparr>)
          else if c \<in> set ''Xx'' then Leave_dialog Escaped b
          else Stay b)
      | KEY_LEFT \<Rightarrow> Some (Stay (b\<lparr>cl_button := turn 1 True (cl_button b)\<rparr>))
      | KEY_RIGHT \<Rightarrow> Some (Stay (b\<lparr>cl_button := turn 1 False (cl_button b)\<rparr>))
      | KEY_RESIZE y x \<Rightarrow> checklist_layout l h w list_height (b\<lparr>cl_rows := y, cl_cols := x\<rparr>)
      | _ \<Rightarrow> Some (Stay b))"

definition checklist_key ::
  "item_list \<Rightarrow> int \<Rightarrow> int \<Rightarrow> int \<Rightarrow> checklist \<Rightarrow> key \<Rightarrow> (checklist, dialog_result) reaction option" where
  "checklist_key l h w list_height b k =
     (if k = KEY_UP \<or> k = Key CHR ''-'' then map_option Stay (checklist_up l b)
      else if k = KEY_DOWN \<or> k = Key CHR ''+'' then map_option Stay (checklist_down l b)
      else (case checklist_find l b k of
              Some i \<Rightarrow> map_option Stay (checklist_goto l i b)
            | None \<Rightarrow> checklist_other_key l h w list_height b k))"

definition dialog_checklist :: "int \<Rightarrow> int \<Rightarrow> int \<Rightarrow> item_list \<Rightarrow> screen \<Rightarrow> (dialog_result \<times> item_list \<times> screen) option" where
  "dialog_checklist h w list_height l d = do {
     let b = \<lparr>cl_rows = scr_rows d, cl_cols = scr_cols d, cl_scroll = 0, cl_choice = highlighted 0 0 (item_head l),
              cl_max = 0, cl_button = 0\<rparr>;
     first \<leftarrow> checklist_layout l h w list_height b;
     (r, b, rest) \<leftarrow> (case first of
         Leave_dialog r b \<Rightarrow> Some (r, b, scr_keys d)
       | Stay b \<Rightarrow> key_loop (checklist_key l h w list_height) Escaped b (scr_keys d));
     let d = \<lparr>scr_rows = cl_rows b, scr_cols = cl_cols b, scr_keys = rest\<rparr>;
     case r of
       Pressed n \<Rightarrow> do {
         let l = l\<lparr>item_head := map (\<lambda>p. p\<lparr>i_selected := False\<rparr>) (item_head l)\<rparr>;
         l \<leftarrow> item_set_selected True (item_set (cl_scroll b + cl_choice b) l);
         Some (r, l, d)
       }
     | _ \<Rightarrow> Some (r, l, d)
   }"

section \<open>Yes or no\<close>

abbreviation (input) YESNO_HEIGHT_MIN :: int where "YESNO_HEIGHT_MIN \<equiv> 4"
abbreviation (input) YESNO_WIDTH_MIN :: int where "YESNO_WIDTH_MIN \<equiv> 4"

definition yesno_too_small :: "int \<Rightarrow> int \<Rightarrow> int \<times> int \<Rightarrow> bool" where
  "yesno_too_small h w = (\<lambda>(y, x). y < h + YESNO_HEIGHT_MIN \<or> x < w + YESNO_WIDTH_MIN)"

text \<open>The state is the size of the screen and the button.\<close>

definition yesno_key :: "int \<Rightarrow> int \<Rightarrow> (int \<times> int) \<times> int \<Rightarrow> key \<Rightarrow> ((int \<times> int) \<times> int, dialog_result) reaction option" where
  "yesno_key h w = (\<lambda>(size, b) k. Some (case k of
      Key c \<Rightarrow>
        if c \<in> set ''Yy'' then Leave_dialog (Pressed 0) (size, b)
        else if c \<in> set ''Nn'' then Leave_dialog (Pressed 1) (size, b)
        else if c = TAB then Stay (size, turn 1 False b)
        else if c = CHR '' '' \<or> c = CHR 0x0A then Leave_dialog (Pressed (nat b)) (size, b)
        else Stay (size, b)
    | KEY_LEFT \<Rightarrow> Stay (size, turn 1 True b)
    | KEY_RIGHT \<Rightarrow> Stay (size, turn 1 False b)
    | KEY_RESIZE y x \<Rightarrow> if yesno_too_small h w (y, x) then Leave_dialog Too_small ((y, x), b) else Stay ((y, x), b)
    | _ \<Rightarrow> Stay (size, b)))"

definition dialog_yesno :: "int \<Rightarrow> int \<Rightarrow> screen \<Rightarrow> (dialog_result \<times> screen) option" where
  "dialog_yesno h w d =
     (if yesno_too_small h w (scr_rows d, scr_cols d) then Some (Too_small, d)
      else map_option (\<lambda>(r, ((y, x), b), rest). (r, \<lparr>scr_rows = y, scr_cols = x, scr_keys = rest\<rparr>))
        (key_loop (yesno_key h w) Escaped ((scr_rows d, scr_cols d), 0) (scr_keys d)))"

section \<open>The input box\<close>

abbreviation (input) INPUTBOX_HEIGHT_MIN :: int where "INPUTBOX_HEIGHT_MIN \<equiv> 2"
abbreviation (input) INPUTBOX_WIDTH_MIN :: int where "INPUTBOX_WIDTH_MIN \<equiv> 2"
abbreviation (input) MAX_LEN :: nat where "MAX_LEN \<equiv> 2048"

text \<open>\<open>instr\<close> is \<open>dialog_input_result\<close>, an array of \<open>MAX_LEN + 1\<close> characters.\<close>

record inputbox =
  ib_rows :: int
  ib_cols :: int
  instr :: string
  in_len :: int
  in_pos :: int
  input_x :: int
  show_x :: int
  in_button :: int

definition peek :: "int \<Rightarrow> string \<Rightarrow> char option" where
  "peek i b = (if 0 \<le> i \<and> i < int (length b) then Some (b ! nat i) else None)"

definition poke :: "int \<Rightarrow> char \<Rightarrow> string \<Rightarrow> string option" where
  "poke i c b = (if 0 \<le> i \<and> i < int (length b) then Some (b[nat i := c]) else None)"

definition buf_text :: "string \<Rightarrow> string" where
  "buf_text b = takeWhile (\<lambda>c. c \<noteq> CHR 0x00) b"

text \<open>The loops over the buffer: each comes with the number of its rounds.\<close>

fun copy_down :: "nat \<Rightarrow> int \<Rightarrow> string \<Rightarrow> string option" where
  "copy_down 0 i b = Some b"
| "copy_down (Suc n) i b = do { c \<leftarrow> peek (i + 1) b; b \<leftarrow> poke i c b; copy_down n (i + 1) b }"

fun copy_up :: "nat \<Rightarrow> int \<Rightarrow> string \<Rightarrow> string option" where
  "copy_up 0 i b = Some b"
| "copy_up (Suc n) i b = do { c \<leftarrow> peek (i - 1) b; b \<leftarrow> poke i c b; copy_up n (i - 1) b }"

fun visible_text :: "nat \<Rightarrow> int \<Rightarrow> string \<Rightarrow> string option" where
  "visible_text 0 i b = Some []"
| "visible_text (Suc n) i b = do {
     c \<leftarrow> peek i b;
     if c = CHR 0x00 then Some [] else do { t \<leftarrow> visible_text n (i + 1) b; Some (c # t) }
   }"

text \<open>Drawing the visible part again: that it can be read.\<close>

definition redraw :: "int \<Rightarrow> inputbox \<Rightarrow> inputbox option" where
  "redraw bw b = map_option (\<lambda>_. b) (visible_text (nat bw) (show_x b) (instr b))"

definition input_backspace :: "int \<Rightarrow> inputbox \<Rightarrow> inputbox option" where
  "input_backspace bw b =
     (if in_pos b = 0 then Some b
      else do {
        let b = (if input_x b = 0 then b\<lparr>show_x := show_x b - 1\<rparr> else b\<lparr>input_x := input_x b - 1\<rparr>);
        t \<leftarrow> (if in_pos b < in_len b then copy_down (nat (in_len b - (in_pos b - 1))) (in_pos b - 1) (instr b)
              else Some (instr b));
        t \<leftarrow> poke (in_len b - 1) CHR 0x00 t;
        redraw bw (b\<lparr>in_pos := in_pos b - 1, in_len := in_len b - 1, instr := t\<rparr>)
      })"

definition input_left :: "int \<Rightarrow> inputbox \<Rightarrow> inputbox option" where
  "input_left bw b =
     (if in_pos b > 0 then
        (if input_x b > 0 then Some (b\<lparr>input_x := input_x b - 1, in_pos := in_pos b - 1\<rparr>)
         else if input_x b = 0 then
           map_option (\<lambda>b. b\<lparr>in_pos := in_pos b - 1\<rparr>) (redraw bw (b\<lparr>show_x := show_x b - 1\<rparr>))
         else Some (b\<lparr>in_pos := in_pos b - 1\<rparr>))
      else Some b)"

definition input_right :: "int \<Rightarrow> inputbox \<Rightarrow> inputbox option" where
  "input_right bw b =
     (if in_pos b < in_len b then
        (if input_x b < bw - 1 then Some (b\<lparr>input_x := input_x b + 1, in_pos := in_pos b + 1\<rparr>)
         else if input_x b = bw - 1 then
           map_option (\<lambda>b. b\<lparr>in_pos := in_pos b + 1\<rparr>) (redraw bw (b\<lparr>show_x := show_x b + 1\<rparr>))
         else Some (b\<lparr>in_pos := in_pos b + 1\<rparr>))
      else Some b)"

definition input_insert :: "int \<Rightarrow> char \<Rightarrow> inputbox \<Rightarrow> inputbox option" where
  "input_insert bw c b =
     (if in_len b < int MAX_LEN then do {
        t \<leftarrow> (if in_pos b < in_len b
              then do { t \<leftarrow> copy_up (nat (in_len b - in_pos b)) (in_len b) (instr b); poke (in_pos b) c t }
              else poke (in_len b) c (instr b));
        t \<leftarrow> poke (in_len b + 1) CHR 0x00 t;
        let b = b\<lparr>in_pos := in_pos b + 1, in_len := in_len b + 1, instr := t\<rparr>;
        redraw bw (if input_x b = bw - 1 then b\<lparr>show_x := show_x b + 1\<rparr> else b\<lparr>input_x := input_x b + 1\<rparr>)
      }
      else Some b)"

text \<open>The first \<open>switch\<close>, for the text itself: \<open>None\<close> inside when the key is for the second one.\<close>

definition input_edit :: "int \<Rightarrow> inputbox \<Rightarrow> key \<Rightarrow> inputbox option option" where
  "input_edit bw b k =
     (case k of
        KEY_BACKSPACE \<Rightarrow> map_option Some (input_backspace bw b)
      | KEY_LEFT \<Rightarrow> map_option Some (input_left bw b)
      | KEY_RIGHT \<Rightarrow> map_option Some (input_right bw b)
      | Key c \<Rightarrow>
          (if c = CHR 0x08 \<or> c = CHR 0x7F then map_option Some (input_backspace bw b)
           else if isprint c then map_option Some (input_insert bw c b)
           else Some None)
      | _ \<Rightarrow> Some None)"

text \<open>From \<open>do_resize\<close> to the first drawing: the cursor is behind the text.\<close>

definition input_layout :: "int \<Rightarrow> int \<Rightarrow> inputbox \<Rightarrow> (inputbox, dialog_result) reaction" where
  "input_layout h w b =
     (if ib_rows b \<le> h - INPUTBOX_HEIGHT_MIN \<or> ib_cols b \<le> w - INPUTBOX_WIDTH_MIN then Leave_dialog Too_small b
      else
        let bw = w - 6; n = int (length (buf_text (instr b)));
            b = b\<lparr>in_len := n, in_pos := n\<rparr>
        in Stay (if n \<ge> bw then b\<lparr>show_x := n - bw + 1, input_x := bw - 1\<rparr> else b\<lparr>show_x := 0, input_x := n\<rparr>))"

definition input_button :: "int \<Rightarrow> int \<Rightarrow> inputbox \<Rightarrow> key \<Rightarrow> (inputbox, dialog_result) reaction" where
  "input_button h w b k =
     (let up = (if in_button b = -1 then 1 else if in_button b = 0 then -1 else 0);
          down = (if in_button b = -1 then 0 else if in_button b = 0 then 1 else -1)
      in case k of
           Key c \<Rightarrow>
             if c \<in> set ''Oo'' then Leave_dialog (Pressed 0) b
             else if c \<in> set ''Hh'' then Leave_dialog (Pressed 1) b
             else if c = TAB then Stay (b\<lparr>in_button := down\<rparr>)
             else if c = CHR '' '' \<or> c = CHR 0x0A
             then Leave_dialog (Pressed (if in_button b = -1 then 0 else nat (in_button b))) b
             else if c \<in> set ''Xx'' then Leave_dialog Escaped b
             else Stay b
         | KEY_UP \<Rightarrow> Stay (b\<lparr>in_button := up\<rparr>)
         | KEY_LEFT \<Rightarrow> Stay (b\<lparr>in_button := up\<rparr>)
         | KEY_DOWN \<Rightarrow> Stay (b\<lparr>in_button := down\<rparr>)
         | KEY_RIGHT \<Rightarrow> Stay (b\<lparr>in_button := down\<rparr>)
         | KEY_RESIZE y x \<Rightarrow> input_layout h w (b\<lparr>ib_rows := y, ib_cols := x\<rparr>)
         | _ \<Rightarrow> Stay b)"

definition input_key :: "int \<Rightarrow> int \<Rightarrow> inputbox \<Rightarrow> key \<Rightarrow> (inputbox, dialog_result) reaction option" where
  "input_key h w b k = do {
     edited \<leftarrow> (if in_button b = -1 then input_edit (w - 6) b k else Some None);
     Some (case edited of Some b \<Rightarrow> Stay b | None \<Rightarrow> input_button h w b k)
   }"

text \<open>\<open>strncpy\<close> fills the array; without a text, only its first character is cleared.\<close>

definition input_start :: "string option \<Rightarrow> string \<Rightarrow> string" where
  "input_start init old =
     (case init of
        None \<Rightarrow> old[0 := CHR 0x00]
      | Some t \<Rightarrow> (let t = take MAX_LEN t in t @ replicate (MAX_LEN + 1 - length t) CHR 0x00))"

definition dialog_inputbox :: "int \<Rightarrow> int \<Rightarrow> string option \<Rightarrow> string \<Rightarrow> screen \<Rightarrow> (dialog_result \<times> string \<times> screen) option" where
  "dialog_inputbox h w init old d = do {
     let b = \<lparr>ib_rows = scr_rows d, ib_cols = scr_cols d, instr = input_start init old,
              in_len = 0, in_pos = 0, input_x = 0, show_x = 0, in_button = -1\<rparr>;
     (r, b, rest) \<leftarrow> (case input_layout h w b of
         Leave_dialog r b \<Rightarrow> Some (r, b, scr_keys d)
       | Stay b \<Rightarrow> key_loop (input_key h w) Escaped b (scr_keys d));
     Some (r, instr b, \<lparr>scr_rows = ib_rows b, scr_cols = ib_cols b, scr_keys = rest\<rparr>)
   }"

end
