(* ===== verification/DialogRun.thy ===== *)
theory DialogRun
  imports InputBox
begin

text \<open>
  The loops of the dialogs: a dialog is a set of reactions to keys that keeps an invariant, stated
  as the locale \<open>dialog\<close>; \<open>tracked_dialog\<close> adds what is seen from outside and how keys move it. The
  menu is a cursor over its items, which is always on one of them as long as the screen keeps its
  size or nothing was scrolled before.
\<close>

section \<open>Dialogs that react\<close>

text \<open>
  \<open>ok\<close> is the invariant, \<open>handled\<close> are the keys for which the dialog is proved to react, \<open>res\<close> is
  what holds when it leaves.
\<close>

locale dialog =
  fixes step :: "'s \<Rightarrow> key \<Rightarrow> ('s, 'r) reaction option"
    and ok :: "'s \<Rightarrow> bool"
    and handled :: "key \<Rightarrow> bool"
    and res :: "'r \<Rightarrow> 's \<Rightarrow> bool"
  assumes reacts: "ok s \<Longrightarrow> handled k \<Longrightarrow>
      (\<exists>s'. step s k = Some (Stay s') \<and> ok s') \<or> (\<exists>r s'. step s k = Some (Leave_dialog r s') \<and> ok s' \<and> res r s')"
    and chars: "handled (Key c)"
begin

text \<open>The loop keeps the invariant, and returns when an escape comes at the end at the latest.\<close>

lemma loop_ok:
  assumes "ok s" "\<forall>k \<in> set ks. handled k" "key_loop step esc s ks = Some (r, s', rest)"
  shows "ok s' \<and> (r = esc \<or> res r s')"
  using assms
proof (induction "sum_list (map key_weight ks)" arbitrary: s ks rule: less_induct)
  case less
  show ?case
  proof (cases ks)
    case (Cons k xs)
    note IH = less.hyps [of "Key c # xs" for c] less.hyps [of xs]
    show ?thesis
    proof (cases "\<exists>cs. k = KEY_ESC cs")
      case True
      with less.prems Cons IH chars show ?thesis by (auto split: escape.splits)
    next
      case False
      then have w: "key_weight k = 1" by (cases k) auto
      from False have "key_loop step esc s ks = (case step s k of None \<Rightarrow> None
          | Some (Stay s) \<Rightarrow> key_loop step esc s xs | Some (Leave_dialog r s) \<Rightarrow> Some (r, s, xs))"
        using Cons by (cases k) auto
      with reacts [of s k] less.prems Cons IH(2) w show ?thesis by auto
    qed
  qed (use less.prems in simp)
qed

lemma loop_returns:
  assumes "ok s" "\<forall>k \<in> set ks. handled k"
  shows "\<exists>r s' rest. key_loop step esc s (ks @ [KEY_ESC [CHR 0x1B]]) = Some (r, s', rest)"
  using assms
proof (induction "sum_list (map key_weight ks)" arbitrary: s ks rule: less_induct)
  case less
  show ?case
  proof (cases ks)
    case Nil
    then show ?thesis by (simp add: on_key_esc_def)
  next
    case (Cons k xs)
    note IH = less.hyps [of "Key c # xs" for c] less.hyps [of xs]
    show ?thesis
    proof (cases "\<exists>cs. k = KEY_ESC cs")
      case True
      then obtain cs where k: "k = KEY_ESC cs" by blast
      show ?thesis
      proof (cases "on_key_esc cs")
        case (Unget c)
        with IH(1) [of c s] less.prems Cons k chars show ?thesis by simp
      next
        case Nothing
        with IH(2) [of s] less.prems Cons k show ?thesis by simp
      qed (simp add: Cons k)
    next
      case False
      then have w: "key_weight k = 1" by (cases k) auto
      from False have "key_loop step esc s (ks @ [KEY_ESC [CHR 0x1B]]) = (case step s k of None \<Rightarrow> None
          | Some (Stay s) \<Rightarrow> key_loop step esc s (xs @ [KEY_ESC [CHR 0x1B]])
          | Some (Leave_dialog r s) \<Rightarrow> Some (r, s, xs @ [KEY_ESC [CHR 0x1B]]))"
        using Cons by (cases k) auto
      with reacts [of s k] less.prems Cons IH(2) w show ?thesis by auto
    qed
  qed
qed

end

text \<open>
  What a key does as seen from outside: \<open>view\<close> is what is followed of the state, and \<open>move\<close> how a key
  that does not leave the dialog changes it. An escape with a character acts as the character.
\<close>

fun via :: "('k \<Rightarrow> 'v \<Rightarrow> 'v \<Rightarrow> bool) \<Rightarrow> 'k list \<Rightarrow> 'v \<Rightarrow> 'v \<Rightarrow> bool" where
  "via move [] v v' \<longleftrightarrow> v' = v"
| "via move (k # ks) v v' \<longleftrightarrow> (\<exists>u. move k v u \<and> via move ks u v')"

definition acts_as :: "key \<Rightarrow> key \<Rightarrow> bool" where
  "acts_as k k' \<longleftrightarrow> k' = k \<or> (\<exists>cs c. k = KEY_ESC cs \<and> on_key_esc cs = Unget c \<and> k' = Key c)"

locale tracked_dialog = dialog step ok handled res
  for step :: "'s \<Rightarrow> key \<Rightarrow> ('s, 'r) reaction option" and ok handled res +
  fixes view :: "'s \<Rightarrow> 'v" and move :: "key \<Rightarrow> 'v \<Rightarrow> 'v \<Rightarrow> bool"
  assumes moves: "ok s \<Longrightarrow> handled k \<Longrightarrow> \<forall>cs. k \<noteq> KEY_ESC cs \<Longrightarrow> step s k = Some (Stay s') \<Longrightarrow> move k (view s) (view s')"
    and leaves: "ok s \<Longrightarrow> handled k \<Longrightarrow> step s k = Some (Leave_dialog r s') \<Longrightarrow> view s' = view s"
    and ungot: "on_key_esc cs = Unget c \<Longrightarrow> move (Key c) v v' \<Longrightarrow> move (KEY_ESC cs) v v'"
    and skipped: "on_key_esc cs = Nothing \<Longrightarrow> move (KEY_ESC cs) v v"
begin

text \<open>The keys in front of the last one that was read have moved the view; that one has left the dialog.\<close>

definition left_by :: "'r \<Rightarrow> key \<Rightarrow> 'r \<Rightarrow> 's \<Rightarrow> bool" where
  "left_by esc k r s' \<longleftrightarrow> r = esc \<and> (\<exists>cs. k = KEY_ESC cs \<and> on_key_esc cs = Escape)
     \<or> (\<exists>k' s. acts_as k k' \<and> ok s \<and> view s = view s' \<and> step s k' = Some (Leave_dialog r s'))"

lemma loop_path:
  assumes "ok s" "\<forall>k \<in> set ks. handled k" "key_loop step esc s ks = Some (r, s', rest)"
  shows "\<exists>used k. ks = used @ k # rest \<and> via move used (view s) (view s') \<and> left_by esc k r s'"
  using assms
proof (induction "sum_list (map key_weight ks)" arbitrary: s ks rule: less_induct)
  case less
  show ?case
  proof (cases ks)
    case (Cons k xs)
    have later: ?thesis if "move k (view s) (view t)" "\<exists>used k. xs = used @ k # rest \<and> via move used (view t) (view s') \<and> left_by esc k r s'" for t
    proof -
      from that(2) obtain used l where "xs = used @ l # rest" "via move used (view t) (view s')" "left_by esc l r s'" by blast
      with that(1) show ?thesis by (intro exI [of _ "k # used"] exI [of _ l]) (auto simp: Cons)
    qed
    have now: ?thesis if "left_by esc k r s'" "view s' = view s" "rest = xs"
      by (rule exI [of _ "[]"], rule exI [of _ k]) (use that Cons in simp)
    show ?thesis
    proof (cases "\<exists>cs. k = KEY_ESC cs")
      case True
      then obtain cs where k: "k = KEY_ESC cs" by blast
      show ?thesis
      proof (cases "on_key_esc cs")
        case Escape
        with less.prems(3) Cons k have "r = esc" "s' = s" "rest = xs" by auto
        with Escape k show ?thesis by (intro now) (auto simp: left_by_def)
      next
        case (Unget c)
        with less.prems Cons k chars less.hyps [of "Key c # xs" s]
        obtain used l where u: "Key c # xs = used @ l # rest" "via move used (view s) (view s')" "left_by esc l r s'" by auto
        show ?thesis
        proof (cases used)
          case Nil
          with u(1,3) have "left_by esc (Key c) r s'" "rest = xs" by auto
          moreover from this have "left_by esc k r s'" using k Unget by (auto simp: left_by_def acts_as_def)
          ultimately show ?thesis using u(2) Nil by (intro now) auto
        next
          case (Cons x us)
          with u obtain v where v: "xs = us @ l # rest" "move (Key c) (view s) v" "via move us v (view s')" by auto
          with ungot [OF Unget v(2)] u(3) show ?thesis
            by (intro exI [of _ "k # us"] exI [of _ l]) (auto simp: \<open>ks = k # xs\<close> k)
        qed
      next
        case Nothing
        with less.prems Cons k less.hyps [of xs s]
        have "\<exists>used k. xs = used @ k # rest \<and> via move used (view s) (view s') \<and> left_by esc k r s'" by auto
        moreover have "move k (view s) (view s)" unfolding k by (rule skipped) (rule Nothing)
        ultimately show ?thesis by (intro later [of s])
      qed
    next
      case False
      then have w: "key_weight k = 1" by (cases k) auto
      have h: "handled k" "\<forall>k \<in> set xs. handled k" using less.prems(2) Cons by auto
      from False have e: "key_loop step esc s ks = (case step s k of None \<Rightarrow> None
          | Some (Stay s) \<Rightarrow> key_loop step esc s xs | Some (Leave_dialog r s) \<Rightarrow> Some (r, s, xs))"
        using Cons by (cases k) auto
      from reacts [OF less.prems(1) h(1)] consider
          t where "step s k = Some (Stay t)" "ok t"
        | q t where "step s k = Some (Leave_dialog q t)"
        by blast
      then show ?thesis
      proof cases
        case 1
        with moves [OF less.prems(1) h(1) _ 1(1)] False less.hyps [of xs t] e less.prems(3) Cons w h(2) show ?thesis
          by (intro later [of t]) auto
      next
        case 2
        then have r: "step s k = Some (Leave_dialog r s')" "rest = xs" using e less.prems(3) by auto
        have v: "view s' = view s" by (rule leaves [OF less.prems(1) h(1) r(1)])
        have "left_by esc k r s'" unfolding left_by_def acts_as_def using less.prems(1) r(1) v by metis
        then show ?thesis using v r(2) by (rule now)
      qed
    qed
  qed (use less.prems in simp)
qed

end

section \<open>The menu\<close>

definition menubox_ok :: "item_list \<Rightarrow> menubox \<Rightarrow> bool" where
  "menubox_ok l b \<longleftrightarrow> 0 \<le> max_choice b \<and> max_choice b \<le> item_count l \<and> (max_choice b = 0 \<longleftrightarrow> item_head l = [])
     \<and> 0 \<le> scroll b \<and> scroll b + max_choice b \<le> item_count l
     \<and> 0 \<le> choice b \<and> (if item_head l = [] then choice b = 0 else choice b < max_choice b)
     \<and> 0 \<le> button b \<and> button b \<le> 4"

lemma drawn_Nil [simp]: "item_head l = [] \<Longrightarrow> drawn l is"
  by (simp add: drawn_def)

lemma drawn_iff: "drawn l is \<longleftrightarrow> item_head l = [] \<or> (\<forall>i \<in> set is. 0 \<le> i \<and> i < item_count l)"
  by (simp add: drawn_def list_all_iff)

lemma item_count_0 [simp]: "item_count l = 0 \<longleftrightarrow> item_head l = []" "item_count l \<ge> 0"
  by (simp_all add: item_count_def)

lemma find_hot_range:
  assumes "find_hot l b c = Some i" "0 \<le> choice b"
  shows "0 \<le> i \<and> i < max_choice b"
  using assms by (auto simp: find_hot_def find_Some_iff split: option.splits dest!: nth_mem)

lemma repeat_invariant:
  "P x \<Longrightarrow> (\<And>y. P y \<Longrightarrow> \<exists>z. f y = Some z \<and> P z) \<Longrightarrow> \<exists>z. repeat n f x = Some z \<and> P z"
proof (induction n arbitrary: x)
  case (Suc n)
  then obtain y where "f x = Some y" "P y" by blast
  with Suc show ?case by auto
qed simp

definition place :: "menubox \<Rightarrow> int" where
  "place b = scroll b + choice b"

text \<open>Each step keeps the number of lines and the button, and moves the cursor by one item.\<close>

definition at_place :: "menubox \<Rightarrow> int \<Rightarrow> menubox \<Rightarrow> bool" where
  "at_place b i b' \<longleftrightarrow> place b' = i \<and> max_choice b' = max_choice b \<and> button b' = button b"

lemma menu_steps_ok:
  assumes "menubox_ok l b" "item_head l \<noteq> []"
  shows "\<exists>b'. menu_line_up l b = Some b' \<and> menubox_ok l b' \<and> at_place b (max (place b - 1) 0) b'"
    and "\<exists>b'. menu_line_down l b = Some b' \<and> menubox_ok l b' \<and> at_place b (min (place b + 1) (item_count l - 1)) b'"
    and "\<exists>b'. menu_page_up l b = Some b' \<and> menubox_ok l b' \<and> at_place b (max (place b - 1) 0) b'"
    and "\<exists>b'. menu_page_down l b = Some b' \<and> menubox_ok l b' \<and> at_place b (min (place b + 1) (item_count l - 1)) b'"
  using assms
  by (auto simp: menubox_ok_def at_place_def place_def menu_line_up_def menu_line_down_def menu_page_up_def menu_page_down_def drawn_iff)

lemma repeat_steps:
  assumes "\<And>c. menubox_ok l c \<Longrightarrow> \<exists>c'. f c = Some c' \<and> menubox_ok l c' \<and> at_place c (g (place c)) c'" and "menubox_ok l b"
  shows "\<exists>b'. repeat n f b = Some b' \<and> menubox_ok l b' \<and> at_place b ((g ^^ n) (place b)) b'"
  using assms(2)
proof (induction n arbitrary: b)
  case (Suc n)
  from assms(1) [OF Suc.prems] obtain c where c: "f b = Some c" "menubox_ok l c" "at_place b (g (place b)) c" by blast
  with Suc.IH [OF c(2)] show ?case by (auto simp: at_place_def funpow_swap1)
qed (simp add: at_place_def)

lemma steps_pow:
  "0 \<le> i \<Longrightarrow> ((\<lambda>i. max (i - 1) 0) ^^ n) i = max (i - int n) 0"
  "i \<le> m \<Longrightarrow> ((\<lambda>i. min (i + 1) m) ^^ n) i = min (i + int n) (m :: int)"
  by (induction n) auto

lemma place_range:
  assumes "menubox_ok l b" "item_head l \<noteq> []"
  shows "0 \<le> place b" "place b < item_count l" "scroll b \<le> place b" "place b < scroll b + max_choice b" "scroll b + max_choice b \<le> item_count l"
  using assms by (auto simp: menubox_ok_def place_def)

lemma menu_pages_ok:
  assumes "menubox_ok l b" "item_head l \<noteq> []"
  shows "\<exists>b'. repeat (nat (max_choice b)) (menu_page_up l) b = Some b' \<and> menubox_ok l b'
      \<and> at_place b (max (place b - max_choice b) 0) b'"
    and "\<exists>b'. repeat (nat (max_choice b)) (menu_page_down l) b = Some b' \<and> menubox_ok l b'
      \<and> at_place b (min (place b + max_choice b) (item_count l - 1)) b'"
  using repeat_steps [OF menu_steps_ok(3) [OF _ assms(2)] assms(1), of "nat (max_choice b)"]
    repeat_steps [OF menu_steps_ok(4) [OF _ assms(2)] assms(1), of "nat (max_choice b)"]
    place_range [OF assms] assms(1) steps_pow(1) [of "place b" "nat (max_choice b)"]
    steps_pow(2) [of "place b" "item_count l - 1" "nat (max_choice b)"]
  by (auto simp: menubox_ok_def)

text \<open>Where a key that moves leads: \<open>i\<close> is the line of an item with the hot key.\<close>

definition moved :: "item_list \<Rightarrow> key \<Rightarrow> int option \<Rightarrow> menubox \<Rightarrow> int" where
  "moved l k i b =
     (if k = KEY_UP \<or> k = Key CHR ''-'' then max (place b - 1) 0
      else if k = KEY_DOWN \<or> k = Key CHR ''+'' then min (place b + 1) (item_count l - 1)
      else if k = KEY_PPAGE then max (place b - max_choice b) 0
      else if k = KEY_NPAGE then min (place b + max_choice b) (item_count l - 1)
      else (case i of Some i \<Rightarrow> scroll b + i | None \<Rightarrow> place b))"

lemma menu_move_ok:
  assumes b: "menubox_ok l b" "item_head l \<noteq> []" and i: "\<And>j. i = Some j \<Longrightarrow> 0 \<le> j \<and> j < max_choice b"
  shows "\<exists>b'. menu_move l b k i = Some b' \<and> menubox_ok l b' \<and> at_place b (moved l k i b) b'"
proof -
  have d: "drawn l [scroll c + choice c]" if "menubox_ok l c" for c
    using place_range [OF that b(2)] by (simp add: place_def drawn_iff)
  have j: "menubox_ok l (case i of Some i \<Rightarrow> b\<lparr>choice := i\<rparr> | None \<Rightarrow> b)"
    and p: "at_place b (case i of Some i \<Rightarrow> scroll b + i | None \<Rightarrow> place b) (case i of Some i \<Rightarrow> b\<lparr>choice := i\<rparr> | None \<Rightarrow> b)"
    using b i by (auto simp: menubox_ok_def at_place_def place_def split: option.splits)
  note steps = menu_steps_ok(1,2) [OF b] menu_pages_ok [OF b]
  consider "k = KEY_UP \<or> k = Key CHR ''-''" | "k = KEY_DOWN \<or> k = Key CHR ''+''" | "k = KEY_PPAGE" | "k = KEY_NPAGE"
    | "k \<notin> {KEY_UP, Key CHR ''-'', KEY_DOWN, Key CHR ''+'', KEY_PPAGE, KEY_NPAGE}" by blast
  then show ?thesis
  proof cases
    case 5
    with j p d [OF b(1)] d [OF j] show ?thesis by (simp add: menu_move_def moved_def)
  qed (use steps d b(1) in \<open>fastforce simp: menu_move_def moved_def\<close>)+
qed

subsection \<open>The cursor\<close>

text \<open>
  The menu from outside: how many items are on the screen, the number of the one under the cursor,
  and the button. Moving up, down and by pages is exact. A letter leads to an item with that hot
  key, less than a screen away, unless there is none and the one under the cursor has not got it. A
  resize changes what is on the screen, and takes the line of the cursor as the number of an item,
  unless an item is selected by default.
\<close>

record cursor =
  cu_page :: int
  cu_pos :: int
  cu_button :: int

definition cursor_of :: "menubox \<Rightarrow> cursor" where
  "cursor_of b = \<lparr>cu_page = max_choice b, cu_pos = place b, cu_button = button b\<rparr>"

definition has_hot_key :: "item_list \<Rightarrow> char \<Rightarrow> int \<Rightarrow> bool" where
  "has_hot_key l c i \<longleftrightarrow> c \<notin> set ''ynmh '' \<and> c \<noteq> CHR 0x00 \<and> 0 \<le> i \<and> i < item_count l
     \<and> same_key c (hot_key (i_str (item_head l ! nat i)))"

definition typed_moves :: "item_list \<Rightarrow> char \<Rightarrow> cursor \<Rightarrow> cursor \<Rightarrow> bool" where
  "typed_moves l c u u' \<longleftrightarrow>
     (if c = CHR ''-'' then u' = u\<lparr>cu_pos := max (cu_pos u - 1) 0\<rparr>
      else if c = CHR ''+'' then u' = u\<lparr>cu_pos := min (cu_pos u + 1) (max (item_count l - 1) 0)\<rparr>
      else (\<exists>j. has_hot_key l c j \<and> \<bar>j - cu_pos u\<bar> < cu_page u \<and> u' = u\<lparr>cu_pos := j\<rparr>)
        \<or> \<not> has_hot_key l c (cu_pos u) \<and> u' = (if c = TAB then u\<lparr>cu_button := (cu_button u + 1) mod 5\<rparr> else u))"

definition cursor_moves :: "item_list \<Rightarrow> mid option \<Rightarrow> key \<Rightarrow> cursor \<Rightarrow> cursor \<Rightarrow> bool" where
  "cursor_moves l sel k u u' \<longleftrightarrow>
     (case k of
        KEY_UP \<Rightarrow> u' = u\<lparr>cu_pos := max (cu_pos u - 1) 0\<rparr>
      | KEY_DOWN \<Rightarrow> u' = u\<lparr>cu_pos := min (cu_pos u + 1) (max (item_count l - 1) 0)\<rparr>
      | KEY_PPAGE \<Rightarrow> u' = u\<lparr>cu_pos := max (cu_pos u - cu_page u) 0\<rparr>
      | KEY_NPAGE \<Rightarrow> u' = u\<lparr>cu_pos := min (cu_pos u + cu_page u) (max (item_count l - 1) 0)\<rparr>
      | KEY_LEFT \<Rightarrow> u' = u\<lparr>cu_button := (cu_button u - 1) mod 5\<rparr>
      | KEY_RIGHT \<Rightarrow> u' = u\<lparr>cu_button := (cu_button u + 1) mod 5\<rparr>
      | KEY_RESIZE h w \<Rightarrow>
          (\<exists>i. 0 \<le> i \<and> i \<le> cu_pos u
             \<and> u' = u\<lparr>cu_page := min (h - 14) (item_count l), cu_pos := default_choice sel l i\<rparr>)
      | Key c \<Rightarrow> typed_moves l (tolower c) u u'
      | KEY_ESC cs \<Rightarrow> (case on_key_esc cs of Unget c \<Rightarrow> typed_moves l (tolower c) u u' | _ \<Rightarrow> u' = u)
      | _ \<Rightarrow> u' = u)"

text \<open>The code with which a key leaves the menu, given the button.\<close>

definition leave_code :: "int \<Rightarrow> char \<Rightarrow> nat option" where
  "leave_code i = map_of [(CHR ''h'', 2), (CHR ''?'', 2), (CHR ''s'', 5), (CHR ''y'', 5), (CHR ''n'', 6), (CHR ''m'', 7),
     (CHR '' '', 8), (CHR ''/'', 9), (CHR ''z'', 10), (CHR 0x0A, nat i)]"

definition leaves_with :: "item_list \<Rightarrow> key \<Rightarrow> cursor \<Rightarrow> dialog_result \<Rightarrow> bool" where
  "leaves_with l k u r \<longleftrightarrow>
     (case r of
        Escaped \<Rightarrow> True
      | Too_small \<Rightarrow> (\<exists>h w. k = KEY_RESIZE h w \<and> (h < MENUBOX_HEIGHT_MIN \<or> w < MENUBOX_WIDTH_MIN))
      | Pressed n \<Rightarrow> (\<exists>c. acts_as k (Key c) \<and> leave_code (cu_button u) (tolower c) = Some n \<and> \<not> has_hot_key l (tolower c) (cu_pos u)))"

lemma lower_key: "(if isalpha c then tolower c else c) = tolower c"
  by (auto simp: isalpha_def tolower_def)

lemma menu_code_iff: "menu_code c b = leave_code (button b) c"
  by (simp add: menu_code_def leave_code_def)

lemma turn_mod: "0 \<le> b \<Longrightarrow> b \<le> 4 \<Longrightarrow> turn 4 True b = (b - 1) mod 5" "0 \<le> b \<Longrightarrow> b \<le> 4 \<Longrightarrow> turn 4 False b = (b + 1) mod 5"
proof -
  assume "0 \<le> b" "b \<le> 4"
  then have "b = 0 \<or> b = 1 \<or> b = 2 \<or> b = 3 \<or> b = 4" by auto
  then show "turn 4 True b = (b - 1) mod 5" "turn 4 False b = (b + 1) mod 5" by (auto simp: turn_def)
qed

text \<open>The search for a hot key, in the lines below the cursor first.\<close>

lemma find_Some_in:
  assumes "find P xs = Some x"
  shows "x \<in> set xs" and "P x"
  using assms by (auto simp: find_Some_iff)

lemma find_hot_result:
  assumes b: "menubox_ok l b" "item_head l \<noteq> []" and c: "c \<notin> set ''ynmh ''" "c \<noteq> CHR 0x00"
  shows "find_hot l b c = Some i \<Longrightarrow> 0 \<le> i \<and> i < max_choice b \<and> has_hot_key l c (scroll b + i)"
    and "find_hot l b c = None \<Longrightarrow> \<not> has_hot_key l c (place b)"
proof -
  note r = place_range [OF b]
  have h: "has_hot_key l c (scroll b + i) \<longleftrightarrow> same_key c (hot_key (str_at l (scroll b + i)))" if "0 \<le> i" "i < max_choice b" for i
    using that r b c by (auto simp: has_hot_key_def str_at_def menubox_ok_def)
  show "0 \<le> i \<and> i < max_choice b \<and> has_hot_key l c (scroll b + i)" if "find_hot l b c = Some i"
  proof -
    have "(i \<in> set [choice b + 1..max_choice b - 1] \<or> i \<in> set [0..max_choice b - 1])
        \<and> same_key c (hot_key (str_at l (scroll b + i)))"
      using that find_Some_in unfolding find_hot_def by (fastforce split: option.splits)
    moreover from this have "0 \<le> i" "i < max_choice b" using b by (auto simp: menubox_ok_def)
    ultimately show ?thesis using h by blast
  qed
  show "\<not> has_hot_key l c (place b)" if "find_hot l b c = None"
  proof -
    have "choice b \<in> set [0..max_choice b - 1]" using b by (simp add: menubox_ok_def)
    then have "\<not> same_key c (hot_key (str_at l (scroll b + choice b)))"
      using that by (auto simp: find_hot_def find_None_iff split: option.splits)
    then show ?thesis using h [of "choice b"] b by (simp add: place_def menubox_ok_def)
  qed
qed

subsection \<open>Layouts\<close>

lemma find_index_None: "find_index P xs = None \<longleftrightarrow> (\<forall>x \<in> set xs. \<not> P x)"
  by (induction xs) auto

lemma last_index_less: "last_index P xs = Some i \<Longrightarrow> i < length xs"
  by (induction xs arbitrary: i) (auto split: option.splits if_splits)

lemma last_index_sat: "last_index P xs = Some i \<Longrightarrow> P (xs ! i)"
  by (induction xs arbitrary: i) (auto split: option.splits if_splits)

lemma default_choice_range:
  assumes "0 \<le> i" "i < item_count l"
  shows "0 \<le> default_choice sel l i" "default_choice sel l i < item_count l"
  using assms by (auto simp: default_choice_def item_count_def dest: last_index_less split: option.splits if_splits)

lemma menu_scroll_ok:
  assumes "0 < max_choice b" "max_choice b \<le> n" "0 \<le> choice b" "choice b < n" "first_item b = 0 \<or> saved = 0"
  shows "let c = menu_scroll n saved b in 0 \<le> scroll c \<and> scroll c + max_choice b \<le> n \<and> 0 \<le> choice c \<and> choice c < max_choice b
    \<and> max_choice c = max_choice b \<and> button c = button b \<and> 0 \<le> first_item c \<and> first_item c + max_choice b \<le> n
    \<and> place c = choice b"
  using assms by (auto simp: menu_scroll_def place_def Let_def)

text \<open>
  The first layout draws what exists, and so does a later one if the saved scrolling is 0, which
  makes every layout set \<open>first_item\<close>.
\<close>

lemma menu_layout_ok:
  assumes "15 \<le> box_height b" "65 \<le> box_width b" "0 \<le> button b" "button b \<le> 4"
    and "0 \<le> choice b" "if item_head l = [] then choice b = 0 else choice b < item_count l" "first_item b = 0 \<or> saved = 0"
  shows "\<exists>c. menu_layout l sel saved b = Some (Stay c) \<and> menubox_ok l c
    \<and> cursor_of c = \<lparr>cu_page = min (box_height b - 14) (item_count l), cu_pos = default_choice sel l (choice b), cu_button = button b\<rparr>"
proof (cases "item_head l = []")
  case True
  then have d: "default_choice sel l 0 = 0" by (simp add: default_choice_def)
  from True have c: "choice b = 0" using assms(6) by simp
  have "menu_scroll 0 saved (b\<lparr>max_choice := 0, choice := 0\<rparr>) = b\<lparr>max_choice := 0, choice := 0, scroll := 0, first_item := 0\<rparr>"
    by (auto simp: menu_scroll_def Let_def)
  with True d c assms(1-4) show ?thesis
    by (simp add: menu_layout_def Let_def menubox_ok_def item_count_def cursor_of_def place_def del: item_count_0)
next
  case False
  let ?n = "item_count l"
  let ?b = "b\<lparr>max_choice := min (box_height b - 4 - 10) ?n, choice := default_choice sel l (choice b)\<rparr>"
  have n: "0 < ?n" using False by (simp add: item_count_def)
  have "let c = menu_scroll ?n saved ?b in 0 \<le> scroll c \<and> scroll c + max_choice ?b \<le> ?n \<and> 0 \<le> choice c \<and> choice c < max_choice ?b
    \<and> max_choice c = max_choice ?b \<and> button c = button ?b \<and> 0 \<le> first_item c \<and> first_item c + max_choice ?b \<le> ?n
    \<and> place c = choice ?b"
    by (rule menu_scroll_ok) (use n assms default_choice_range [of "choice b" l sel] False in auto)
  with False n assms(1-4) show ?thesis
    by (auto simp: menu_layout_def Let_def menubox_ok_def drawn_iff cursor_of_def)
qed

subsection \<open>Keys\<close>

definition no_resize :: "key \<Rightarrow> bool" where
  "no_resize k \<longleftrightarrow> (\<forall>y x. k \<noteq> KEY_RESIZE y x)"

definition menu_handled :: "int \<Rightarrow> key \<Rightarrow> bool" where
  "menu_handled saved k \<longleftrightarrow> saved = 0 \<or> no_resize k"

definition menu_reacts :: "item_list \<Rightarrow> mid option \<Rightarrow> menubox \<Rightarrow> key \<Rightarrow> (menubox, dialog_result) reaction option \<Rightarrow> bool" where
  "menu_reacts l sel b k x \<longleftrightarrow>
     (case x of
        None \<Rightarrow> False
      | Some (Stay b') \<Rightarrow> menubox_ok l b' \<and> ((\<forall>cs. k \<noteq> KEY_ESC cs) \<longrightarrow> cursor_moves l sel k (cursor_of b) (cursor_of b'))
      | Some (Leave_dialog r b') \<Rightarrow> menubox_ok l b' \<and> cursor_of b' = cursor_of b \<and> leaves_with l k (cursor_of b) r)"

lemma item_count_Nil [simp]: "item_head l = [] \<Longrightarrow> item_count l = 0"
  by simp

lemma place_empty:
  assumes "menubox_ok l b" "item_head l = []"
  shows "place b = 0" "max_choice b = 0" "item_count l = 0"
  using assms by (auto simp: menubox_ok_def place_def item_count_def)

lemma menu_other_key_ok:
  assumes b: "menubox_ok l b" and h: "menu_handled saved k"
    and c: "\<And>c. k = Key c \<Longrightarrow> c \<notin> {CHR ''-'', CHR ''+''} \<or> item_head l = []" "\<And>c. k = Key c \<Longrightarrow> \<not> has_hot_key l c (place b)"
      "\<And>c. k = Key c \<Longrightarrow> tolower c = c"
    and m: "k \<in> {KEY_UP, KEY_DOWN, KEY_PPAGE, KEY_NPAGE} \<Longrightarrow> item_head l = []"
  shows "menu_reacts l sel b k (menu_other_key l sel saved b k)"
proof (cases k)
  case (KEY_RESIZE h w)
  let ?b = "b\<lparr>box_height := h, box_width := w\<rparr>"
  show ?thesis
  proof (cases "h < 15 \<or> w < 65")
    case True
    with KEY_RESIZE b show ?thesis
      by (auto simp: menu_reacts_def menu_other_key_def menu_layout_def menubox_ok_def cursor_of_def place_def leaves_with_def)
  next
    case False
    have "\<exists>c. menu_layout l sel saved ?b = Some (Stay c) \<and> menubox_ok l c
      \<and> cursor_of c = \<lparr>cu_page = min (box_height ?b - 14) (item_count l), cu_pos = default_choice sel l (choice ?b), cu_button = button ?b\<rparr>"
      by (rule menu_layout_ok) (use False b h KEY_RESIZE in \<open>auto simp: menubox_ok_def menu_handled_def no_resize_def\<close>)
    moreover have "0 \<le> choice b" "choice b \<le> place b" using b by (auto simp: menubox_ok_def place_def)
    ultimately show ?thesis
      using KEY_RESIZE by (auto simp: menu_reacts_def menu_other_key_def cursor_moves_def cursor_of_def)
  qed
next
  case (Key c)
  have hot: "\<not> has_hot_key l c (place b)" and low: "tolower c = c" using c(2,3) Key by auto
  have empty: "place b = 0" "item_count l = 0" if "c \<in> {CHR ''-'', CHR ''+''}"
    using place_empty [OF b] c(1) [OF Key] that by auto
  have stay: "typed_moves l c (cursor_of b) (cursor_of b)" if "c \<noteq> TAB"
    using that hot empty by (auto simp: typed_moves_def cursor_of_def)
  have tab: "typed_moves l TAB (cursor_of b) (cursor_of (b\<lparr>button := turn 4 False (button b)\<rparr>))" if "c = TAB"
    using that hot b by (auto simp: typed_moves_def cursor_of_def place_def turn_mod menubox_ok_def)
  consider "c = TAB" | "c = CHR ''e'' \<or> c = CHR ''x''" | r where "c \<noteq> TAB" "c \<noteq> CHR ''e''" "c \<noteq> CHR ''x''" "menu_code c b = Some r"
    | "c \<noteq> TAB" "c \<noteq> CHR ''e''" "c \<noteq> CHR ''x''" "menu_code c b = None" by (cases "menu_code c b") auto
  then show ?thesis
  proof cases
    case 1
    with tab low b Key show ?thesis
      by (auto simp: menu_reacts_def menu_other_key_def cursor_moves_def menubox_ok_def turn_mod)
  next
    case 2
    with b Key show ?thesis by (auto simp: menu_reacts_def menu_other_key_def leaves_with_def)
  next
    case 3
    then have "leave_code (button b) c = Some r" by (simp add: menu_code_iff)
    then have "leaves_with l k (cursor_of b) (Pressed r)"
      using hot low Key by (auto simp: leaves_with_def cursor_of_def acts_as_def)
    with 3 b Key show ?thesis by (simp add: menu_reacts_def menu_other_key_def)
  next
    case 4
    with stay low b Key show ?thesis by (simp add: menu_reacts_def menu_other_key_def cursor_moves_def)
  qed
qed (use b m place_empty [OF b] in \<open>auto simp: menu_reacts_def menu_other_key_def cursor_moves_def cursor_of_def place_def menubox_ok_def turn_mod\<close>)

lemma menu_key_reacts:
  assumes b: "menubox_ok l b" and h: "menu_handled saved k"
  shows "menu_reacts l sel b k (menu_key l sel saved b k)"
proof -
  define k' where "k' = (case k of Key c \<Rightarrow> Key (if isalpha c then tolower c else c) | _ \<Rightarrow> k)"
  define i where "i = (case k' of Key c \<Rightarrow> if c \<in> set ''ynmh '' \<or> c = CHR 0x00 then None else find_hot l b c | _ \<Rightarrow> None)"
  have e: "menu_key l sel saved b k = (if item_count l \<noteq> 0 \<and> (i \<noteq> None \<or> k' \<in> {KEY_UP, KEY_DOWN, Key CHR ''-'', Key CHR ''+'', KEY_PPAGE, KEY_NPAGE})
         then map_option Stay (menu_move l b k' i) else menu_other_key l sel saved b k')"
    by (simp only: menu_key_def Let_def k'_def i_def)
  have low: "tolower (tolower c) = tolower c" for c
    by (auto simp: tolower_def isupper_def)
  have k': "k' = Key (tolower c)" if "k = Key c" for c using that by (simp add: k'_def lower_key)
  have same: "k' = k" if "\<And>c. k \<noteq> Key c" using that by (cases k) (auto simp: k'_def)
  have hot: "(i = Some j \<longrightarrow> 0 \<le> j \<and> j < max_choice b \<and> has_hot_key l c (scroll b + j)) \<and> (i = None \<longrightarrow> \<not> has_hot_key l c (place b))"
    if "k' = Key c" "item_head l \<noteq> []" for c j
    using find_hot_result [OF b that(2), of c] that(1) by (auto simp: i_def has_hot_key_def split: if_splits)
  have r: "menu_reacts l sel b k x = menu_reacts l sel b k' x" for x
    using k' same low by (cases k)
      (auto simp: menu_reacts_def cursor_moves_def leaves_with_def acts_as_def split: option.split reaction.split dialog_result.split)
  show ?thesis
  proof (cases "item_count l \<noteq> 0 \<and> (i \<noteq> None \<or> k' \<in> {KEY_UP, KEY_DOWN, Key CHR ''-'', Key CHR ''+'', KEY_PPAGE, KEY_NPAGE})")
    case True
    then have n: "item_head l \<noteq> []" by simp
    have "0 \<le> j \<and> j < max_choice b" if "i = Some j" for j
      using that hot [OF _ n] by (cases k') (auto simp: i_def)
    from menu_move_ok [OF b n this] obtain b' where
      b': "menu_move l b k' i = Some b'" "menubox_ok l b'" "at_place b (moved l k' i b) b'" by blast
    note p = place_range [OF b n]
    have c: "cursor_of b' = (cursor_of b)\<lparr>cu_pos := moved l k' i b\<rparr>"
      using b'(3) by (simp add: cursor_of_def at_place_def)
    have "cursor_moves l sel k' (cursor_of b) (cursor_of b')"
    proof (cases k')
      case (Key c)
      then have "tolower c = c" using low by (cases k) (auto simp: k'_def lower_key)
      moreover have "typed_moves l c (cursor_of b) (cursor_of b')"
      proof (cases "c = CHR ''-'' \<or> c = CHR ''+''")
        case True
        with Key p c show ?thesis by (auto simp: typed_moves_def moved_def cursor_of_def)
      next
        case other: False
        with True Key obtain j where j: "i = Some j" by auto
        with hot [OF Key n, of j] have j': "0 \<le> j" "j < max_choice b" "has_hot_key l c (scroll b + j)" by auto
        moreover have "\<bar>scroll b + j - place b\<bar> < max_choice b" using j'(1,2) p by auto
        moreover have "moved l k' i b = scroll b + j" using other Key j by (simp add: moved_def)
        ultimately show ?thesis using other unfolding c typed_moves_def by (auto simp: cursor_of_def)
      qed
      ultimately show ?thesis using Key by (simp add: cursor_moves_def)
    qed (use True p c in \<open>auto simp: cursor_moves_def moved_def cursor_of_def i_def\<close>)
    with True b' show ?thesis unfolding e r by (simp add: menu_reacts_def)
  next
    case False
    have h': "menu_handled saved k'" using h by (cases k) (auto simp: menu_handled_def no_resize_def k'_def)
    have "menu_reacts l sel b k' (menu_other_key l sel saved b k')"
    proof (rule menu_other_key_ok [OF b h'])
      fix c assume c: "k' = Key c"
      then show "tolower c = c" using low by (cases k) (auto simp: k'_def lower_key)
      show "c \<notin> {CHR ''-'', CHR ''+''} \<or> item_head l = []" using False c by auto
      show "\<not> has_hot_key l c (place b)"
      proof (cases "item_head l = []")
        case n: False
        with False have "i = None" by auto
        with hot [OF c n] show ?thesis by blast
      qed (simp add: has_hot_key_def)
    qed (use False in auto)
    moreover have "menu_key l sel saved b k = menu_other_key l sel saved b k'" unfolding e using False by (rule if_not_P)
    ultimately show ?thesis using r by simp
  qed
qed

text \<open>The codes lie between 0 and 10.\<close>

definition menu_result :: "dialog_result \<Rightarrow> menubox \<Rightarrow> bool" where
  "menu_result r b \<longleftrightarrow> (\<forall>n. r = Pressed n \<longrightarrow> n \<le> 10)"

lemma leaves_with_result:
  assumes "menubox_ok l b" "leaves_with l k (cursor_of b) r"
  shows "menu_result r b'"
proof -
  have "0 \<le> button b" "button b \<le> 4" using assms(1) by (simp_all add: menubox_ok_def)
  with assms(2) show ?thesis by (auto simp: menu_result_def leaves_with_def leave_code_def cursor_of_def split: if_splits)
qed

interpretation menu: tracked_dialog "menu_key l sel saved" "menubox_ok l" "menu_handled saved" menu_result
    cursor_of "cursor_moves l sel" for l sel saved
proof
  fix b k
  assume b: "menubox_ok l b" "menu_handled saved k"
  note m = menu_key_reacts [OF b, of sel]
  show "(\<exists>b'. menu_key l sel saved b k = Some (Stay b') \<and> menubox_ok l b')
      \<or> (\<exists>r b'. menu_key l sel saved b k = Some (Leave_dialog r b') \<and> menubox_ok l b' \<and> menu_result r b')"
    using m leaves_with_result [OF b(1)] by (fastforce simp: menu_reacts_def split: option.splits reaction.splits)
  show "cursor_moves l sel k (cursor_of b) (cursor_of b')"
    if "\<forall>cs. k \<noteq> KEY_ESC cs" "menu_key l sel saved b k = Some (Stay b')" for b'
    using m that by (simp add: menu_reacts_def)
  show "cursor_of b' = cursor_of b" if "menu_key l sel saved b k = Some (Leave_dialog r b')" for r b'
    using m that by (simp add: menu_reacts_def)
qed (auto simp: menu_handled_def no_resize_def cursor_moves_def)

text \<open>
  The whole dialog: it never reaches what is not there, so it returns as soon as an escape comes.
  The keys in front of the one that has left it have moved the cursor, and a key that chooses an
  item marks the one under the cursor.
\<close>

lemma item_find_selected:
  "i < length (item_head l) \<Longrightarrow> i_selected (item_head l ! i) \<Longrightarrow> fst (item_activate_selected l)"
  by (auto simp: item_activate_selected_def item_find_def find_index_None split: option.splits)

definition items_ok :: "item_list \<Rightarrow> bool" where
  "items_ok l \<longleftrightarrow> item_head l = [] \<longrightarrow> item_cur l = Item_nil"

definition first_cursor :: "mid option \<Rightarrow> item_list \<Rightarrow> int \<Rightarrow> cursor" where
  "first_cursor sel l h = \<lparr>cu_page = min (h - 14) (item_count l), cu_pos = default_choice sel l 0, cu_button = 0\<rparr>"

definition marked :: "cursor \<Rightarrow> int \<Rightarrow> item_list \<Rightarrow> item_list \<Rightarrow> bool" where
  "marked u s l l' \<longleftrightarrow> 0 \<le> cu_pos u \<and> cu_pos u < item_count l \<and> s \<le> cu_pos u \<and> cu_pos u < s + cu_page u
     \<and> item_cur l' = Item (nat (cu_pos u))
     \<and> item_head l' = (item_head l)[nat (cu_pos u) := (item_head l ! nat (cu_pos u))\<lparr>i_selected := True\<rparr>]"

lemma item_set_marked:
  assumes "menubox_ok l b" "items_ok l"
  shows "\<exists>l'. item_set_selected True (item_set (scroll b + choice b) l) = Some l'
    \<and> (item_head l \<noteq> [] \<longrightarrow> marked (cursor_of b) (scroll b) l l')"
proof (cases "item_head l = []")
  case True
  with assms(2) show ?thesis by (auto simp: items_ok_def item_set_selected_def item_upd_def item_set_def)
next
  case False
  with place_range [OF assms(1) False] show ?thesis
    by (auto simp: item_set_selected_def item_upd_def item_set_def marked_def cursor_of_def place_def item_count_def)
qed

lemma leaves_with_acts: "acts_as k k' \<Longrightarrow> leaves_with l k' u r \<Longrightarrow> leaves_with l k u r"
  by (auto simp: acts_as_def leaves_with_def split: dialog_result.splits)

lemma dialog_menu_ok:
  assumes "items_ok l" "15 \<le> scr_rows d" "65 \<le> scr_cols d" "\<forall>k \<in> set ks. menu_handled saved k"
  shows "\<exists>r. dialog_menu sel saved l (d\<lparr>scr_keys := ks @ [KEY_ESC [CHR 0x1B]]\<rparr>) = Some r"
    and "dialog_menu sel saved l (d\<lparr>scr_keys := ks\<rparr>) = Some (r, s, l', d') \<Longrightarrow>
      \<exists>used k u. ks = used @ k # scr_keys d' \<and> via (cursor_moves l sel) used (first_cursor sel l (scr_rows d)) u
        \<and> leaves_with l k u r \<and> (\<forall>n. r = Pressed n \<longrightarrow> n \<le> 10 \<and> (item_head l \<noteq> [] \<longrightarrow> marked u s l l'))"
proof -
  let ?b = "\<lparr>box_height = scr_rows d, box_width = scr_cols d, scroll = 0, choice = 0, max_choice = 0, first_item = 0, button = 0\<rparr>"
  obtain c where c: "menu_layout l sel saved ?b = Some (Stay c)" "menubox_ok l c" "cursor_of c = first_cursor sel l (scr_rows d)"
  proof -
    have "if item_head l = [] then choice ?b = 0 else choice ?b < item_count l" by (simp add: item_count_def)
    from menu_layout_ok [OF _ _ _ _ _ this, of saved sel] assms(2,3) that show thesis by (auto simp: first_cursor_def)
  qed
  have esc: "menu_handled saved (KEY_ESC [CHR 0x1B])" by (simp add: menu_handled_def no_resize_def)
  show "\<exists>r. dialog_menu sel saved l (d\<lparr>scr_keys := ks @ [KEY_ESC [CHR 0x1B]]\<rparr>) = Some r"
  proof -
    obtain r b rest where l: "key_loop (menu_key l sel saved) Escaped c (ks @ [KEY_ESC [CHR 0x1B]]) = Some (r, b, rest)"
      using menu.loop_returns [OF c(2)] assms(4) by blast
    have "menubox_ok l b" using menu.loop_ok [OF c(2) _ l] assms(4) esc by auto
    from item_set_marked [OF this assms(1)] c l show ?thesis by (cases r) (auto simp: dialog_menu_def)
  qed
  assume r: "dialog_menu sel saved l (d\<lparr>scr_keys := ks\<rparr>) = Some (r, s, l', d')"
  then obtain b where l: "key_loop (menu_key l sel saved) Escaped c ks = Some (r, b, scr_keys d')"
    using c by (cases "key_loop (menu_key l sel saved) Escaped c ks") (auto simp: dialog_menu_def Let_def bind_eq_Some_conv split: dialog_result.splits)
  have b: "menubox_ok l b" using menu.loop_ok [OF c(2) assms(4) l] by blast
  from menu.loop_path [OF c(2) assms(4) l] obtain used k where
    k: "ks = used @ k # scr_keys d'" "via (cursor_moves l sel) used (cursor_of c) (cursor_of b)" "menu.left_by l sel saved Escaped k r b"
    by blast
  have v: "leaves_with l k (cursor_of b) r"
    using k(3) unfolding menu.left_by_def
  proof (elim disjE exE conjE)
    fix k' s0 assume a: "acts_as k k'" "menubox_ok l s0" "cursor_of s0 = cursor_of b" "menu_key l sel saved s0 k' = Some (Leave_dialog r b)"
    have "menu_handled saved k'"
      using a(1) assms(4) k(1) by (auto simp: acts_as_def menu_handled_def no_resize_def)
    from menu_key_reacts [OF a(2) this, of sel] a(3,4) have "leaves_with l k' (cursor_of b) r" by (simp add: menu_reacts_def)
    with a(1) show ?thesis by (rule leaves_with_acts)
  qed (simp add: leaves_with_def)
  moreover have "n \<le> 10 \<and> (item_head l \<noteq> [] \<longrightarrow> marked (cursor_of b) s l l')" if n: "r = Pressed n" for n
  proof -
    have "n \<le> 10" using leaves_with_result [OF b v] n by (simp add: menu_result_def)
    with item_set_marked [OF b assms(1)] r c(1) l n show ?thesis by (auto simp: dialog_menu_def)
  qed
  ultimately show "\<exists>used k u. ks = used @ k # scr_keys d' \<and> via (cursor_moves l sel) used (first_cursor sel l (scr_rows d)) u
        \<and> leaves_with l k u r \<and> (\<forall>n. r = Pressed n \<longrightarrow> n \<le> 10 \<and> (item_head l \<noteq> [] \<longrightarrow> marked u s l l'))"
    using k(1,2) unfolding c(3) by blast
qed

end
