(* ===== verification/InputRun.thy ===== *)
theory InputRun
  imports DialogRun
begin

text \<open>
  The input box edits a line: what its loops do to the array of characters is what a pair of texts,
  before and behind the cursor, says; no key and no change of the screen leads out of the array.
\<close>

section \<open>The loops over the array\<close>

lemma peek_append: "peek (int (length xs)) (xs @ y # ys) = Some y"
  by (simp add: peek_def nth_append)

lemma poke_append: "poke (int (length xs)) c (xs @ y # ys) = Some (xs @ c # ys)"
  by (simp add: poke_def list_update_append)

lemma copy_down_shifts:
  "copy_down (length ys) (int (length xs)) (xs @ y # ys @ zs) = Some (xs @ ys @ last (y # ys) # zs)"
proof (induction ys arbitrary: xs y)
  case (Cons c cs)
  have "peek (int (length xs) + 1) (xs @ y # (c # cs) @ zs) = Some c"
    using peek_append [of "xs @ [y]" c "cs @ zs"] by (simp add: add.commute)
  moreover have "poke (int (length xs)) c (xs @ y # (c # cs) @ zs) = Some ((xs @ [c]) @ c # cs @ zs)"
    using poke_append [of xs c y "(c # cs) @ zs"] by simp
  moreover have "copy_down (length cs) (int (length xs) + 1) ((xs @ [c]) @ c # cs @ zs) = Some ((xs @ [c]) @ cs @ last (c # cs) # zs)"
    using Cons.IH [of "xs @ [c]" c] by (simp add: add.commute)
  ultimately show ?case by simp
qed simp

lemma copy_up_shifts:
  "copy_up (length ys) (int (length xs + length ys)) (xs @ ys @ z # zs) = Some (xs @ hd (ys @ [z]) # ys @ zs)"
proof (induction ys arbitrary: z zs rule: rev_induct)
  case (snoc y ys)
  have "peek (int (length xs + length ys)) (xs @ (ys @ [y]) @ z # zs) = Some y"
    using peek_append [of "xs @ ys" y "z # zs"] by simp
  moreover have "poke (int (length xs + length ys) + 1) y (xs @ (ys @ [y]) @ z # zs) = Some (xs @ ys @ y # y # zs)"
    using poke_append [of "xs @ ys @ [y]" y z zs] by (simp add: ac_simps)
  moreover note snoc.IH [of y "y # zs"]
  ultimately show ?case by (cases ys) (simp_all add: add.commute)
qed simp

lemma visible_text_defined:
  "CHR 0x00 \<notin> set t \<Longrightarrow> s \<le> length t \<Longrightarrow> \<exists>u. visible_text n (int s) (t @ CHR 0x00 # j) = Some u"
proof (induction n arbitrary: s)
  case (Suc n)
  show ?case
  proof (cases "s < length t")
    case True
    then have "peek (int s) (t @ CHR 0x00 # j) = Some (t ! s)" "t ! s \<noteq> CHR 0x00"
      using Suc.prems(1) nth_mem [of s t] by (auto simp: peek_def nth_append simp del: nth_mem)
    with Suc.IH [of "Suc s"] Suc.prems True show ?thesis by (auto simp: add.commute)
  next
    case False
    with Suc.prems(2) have "peek (int s) (t @ CHR 0x00 # j) = Some CHR 0x00"
      using peek_append [of t "CHR 0x00" j] by simp
    then show ?thesis by simp
  qed
qed simp

section \<open>The line with its cursor\<close>

definition editing :: "int \<Rightarrow> inputbox \<Rightarrow> string \<Rightarrow> string \<Rightarrow> bool" where
  "editing bw b l r \<longleftrightarrow> (\<exists>junk. instr b = l @ r @ CHR 0x00 # junk) \<and> length (instr b) = MAX_LEN + 1
     \<and> CHR 0x00 \<notin> set (l @ r) \<and> in_len b = int (length l + length r) \<and> in_pos b = int (length l)
     \<and> in_pos b = show_x b + input_x b \<and> 0 \<le> show_x b \<and> 0 \<le> input_x b \<and> input_x b < bw"

lemma redraw_editing:
  assumes "editing bw b l r"
  shows "redraw bw b = Some b"
proof -
  obtain junk where j: "instr b = (l @ r) @ CHR 0x00 # junk" using assms by (auto simp: editing_def)
  have s: "show_x b = int (nat (show_x b))" "nat (show_x b) \<le> length (l @ r)" "CHR 0x00 \<notin> set (l @ r)"
    using assms by (auto simp: editing_def)
  from visible_text_defined [OF s(3,2), of "nat bw" junk] s(1) j show ?thesis
    by (auto simp: redraw_def)
qed

lemma buf_text_editing: "editing bw b l r \<Longrightarrow> buf_text (instr b) = l @ r"
  by (auto simp: editing_def buf_text_def takeWhile_append)

lemma left_editing:
  assumes "editing bw b l r" "0 < bw"
  shows "\<exists>b'. input_left bw b = Some b' \<and> (if l = [] then editing bw b' l r else editing bw b' (butlast l) (last l # r))
    \<and> in_button b' = in_button b"
proof (cases l rule: rev_cases)
  case Nil
  with assms show ?thesis by (auto simp: input_left_def editing_def)
next
  case (snoc xs x)
  show ?thesis
  proof (cases "input_x b = 0")
    case True
    let ?b = "b\<lparr>show_x := show_x b - 1, in_pos := in_pos b - 1\<rparr>"
    have e: "editing bw ?b xs (x # r)" using assms True snoc by (auto simp: editing_def)
    have "redraw bw (b\<lparr>show_x := show_x b - 1\<rparr>) = Some (b\<lparr>show_x := show_x b - 1\<rparr>)"
      using redraw_editing [OF e] by (auto simp: redraw_def)
    with e assms snoc True show ?thesis by (auto simp: input_left_def editing_def)
  next
    case False
    with assms snoc show ?thesis by (auto simp: input_left_def editing_def)
  qed
qed

lemma right_editing:
  assumes "editing bw b l r" "0 < bw"
  shows "\<exists>b'. input_right bw b = Some b' \<and> (if r = [] then editing bw b' l r else editing bw b' (l @ [hd r]) (tl r))
    \<and> in_button b' = in_button b"
proof (cases r)
  case Nil
  with assms show ?thesis by (auto simp: input_right_def editing_def)
next
  case (Cons x xs)
  show ?thesis
  proof (cases "input_x b < bw - 1")
    case True
    with assms Cons show ?thesis by (auto simp: input_right_def editing_def)
  next
    case False
    let ?b = "b\<lparr>show_x := show_x b + 1, in_pos := in_pos b + 1\<rparr>"
    have e: "editing bw ?b (l @ [x]) xs" using assms False Cons by (auto simp: editing_def)
    have "redraw bw (b\<lparr>show_x := show_x b + 1\<rparr>) = Some (b\<lparr>show_x := show_x b + 1\<rparr>)"
      using redraw_editing [OF e] by (auto simp: redraw_def)
    with e assms Cons False show ?thesis by (auto simp: input_right_def editing_def)
  qed
qed

lemma backspace_editing:
  assumes "editing bw b l r" "0 < bw"
  shows "\<exists>b'. input_backspace bw b = Some b' \<and> editing bw b' (butlast l) r \<and> in_button b' = in_button b"
proof (cases l rule: rev_cases)
  case Nil
  with assms show ?thesis by (auto simp: input_backspace_def editing_def)
next
  case (snoc xs x)
  obtain junk where j: "instr b = xs @ x # r @ CHR 0x00 # junk" and len: "length (instr b) = MAX_LEN + 1"
    using assms snoc by (auto simp: editing_def)
  have p: "in_pos b = int (length xs) + 1" "in_len b = int (length xs + length r) + 1"
    using assms snoc by (auto simp: editing_def)
  define c where "c = (if input_x b = 0 then b\<lparr>show_x := show_x b - 1\<rparr> else b\<lparr>input_x := input_x b - 1\<rparr>)"
  have cb: "instr c = instr b" "in_pos c = in_pos b" "in_len c = in_len b" by (auto simp: c_def)
  have s: "\<exists>junk'. (if in_pos c < in_len c then copy_down (nat (in_len c - (in_pos c - 1))) (in_pos c - 1) (instr c) else Some (instr c))
      \<bind> poke (in_len c - 1) CHR 0x00 = Some (xs @ r @ CHR 0x00 # junk')"
  proof (cases "r = []")
    case True
    then show ?thesis
      using p j poke_append [of xs "CHR 0x00" x "CHR 0x00 # junk"] by (auto simp: cb)
  next
    case False
    define k where "k = length (r @ [CHR 0x00])"
    from False have n: "in_pos c < in_len c" "nat (in_len c - int (length xs)) = k"
      "in_pos c - 1 = int (length xs)"
      using p by (auto simp: cb Suc_le_eq k_def)
    have "copy_down k (int (length xs)) (xs @ x # (r @ [CHR 0x00]) @ junk)
        = Some (xs @ r @ CHR 0x00 # CHR 0x00 # junk)"
      unfolding k_def by (subst copy_down_shifts) simp
    moreover have "poke (in_len c - 1) CHR 0x00 (xs @ r @ CHR 0x00 # CHR 0x00 # junk) = Some (xs @ r @ CHR 0x00 # CHR 0x00 # junk)"
      using poke_append [of "xs @ r" "CHR 0x00" "CHR 0x00" "CHR 0x00 # junk"] p by (simp add: cb)
    ultimately show ?thesis using n(1) j unfolding n(3) n(2) by (simp add: cb)
  qed
  then obtain t t' junk' where t: "(if in_pos c < in_len c then copy_down (nat (in_len c - (in_pos c - 1))) (in_pos c - 1) (instr c) else Some (instr c)) = Some t"
    "poke (in_len c - 1) CHR 0x00 t = Some t'" "t' = xs @ r @ CHR 0x00 # junk'"
    by (auto simp: bind_eq_Some_conv)
  let ?b = "c\<lparr>in_pos := in_pos c - 1, in_len := in_len c - 1, instr := t'\<rparr>"
  have "length t' = MAX_LEN + 1"
  proof -
    have cd: "copy_down n i u = Some v \<Longrightarrow> length v = length u" for n i u v
      by (induction n i u rule: copy_down.induct) (auto simp: poke_def bind_eq_Some_conv split: if_splits)
    with t(1,2) len show ?thesis by (auto simp: c_def poke_def split: if_splits)
  qed
  then have e: "editing bw ?b xs r"
    using assms snoc p t(3) by (auto simp: editing_def c_def)
  have "input_backspace bw b = redraw bw ?b"
    using p t(1,2) by (simp add: input_backspace_def c_def [symmetric] Let_def)
  with redraw_editing [OF e] e snoc show ?thesis by (auto simp: c_def)
qed

lemma insert_editing:
  assumes "editing bw b l r" "0 < bw" "c \<noteq> CHR 0x00"
  shows "\<exists>b'. input_insert bw c b = Some b' \<and> in_button b' = in_button b
    \<and> (if length l + length r < MAX_LEN then editing bw b' (l @ [c]) r else editing bw b' l r)"
proof (cases "length l + length r < MAX_LEN")
  case False
  with assms show ?thesis by (auto simp: input_insert_def editing_def)
next
  case True
  obtain junk where j: "instr b = l @ r @ CHR 0x00 # junk" and len: "length (instr b) = MAX_LEN + 1"
    using assms by (auto simp: editing_def)
  have p: "in_pos b = int (length l)" "in_len b = int (length l + length r)"
    using assms by (auto simp: editing_def)
  obtain x js where x: "junk = x # js" using j len True by (cases junk) auto
  have s: "(if in_pos b < in_len b
         then do { t \<leftarrow> copy_up (nat (in_len b - in_pos b)) (in_len b) (instr b); poke (in_pos b) c t }
         else poke (in_len b) c (instr b)) \<bind> poke (in_len b + 1) CHR 0x00 = Some (l @ c # r @ CHR 0x00 # js)"
  proof (cases "r = []")
    case True
    then have "poke (in_len b) c (instr b) = Some (l @ c # x # js)"
      using p j x poke_append [of l c "CHR 0x00" "x # js"] by simp
    moreover have "poke (in_len b + 1) CHR 0x00 (l @ c # x # js) = Some (l @ c # CHR 0x00 # js)"
      using True p poke_append [of "l @ [c]" "CHR 0x00" x js] by (simp add: add.commute)
    ultimately show ?thesis using True p by simp
  next
    case False
    have n: "in_pos b < in_len b" "nat (in_len b - in_pos b) = length r" using False p by auto
    have "copy_up (length r) (in_len b) (instr b) = Some (l @ hd (r @ [CHR 0x00]) # r @ x # js)"
      using copy_up_shifts [of r l "CHR 0x00" "x # js"] p j x by simp
    moreover have "poke (in_pos b) c (l @ hd (r @ [CHR 0x00]) # r @ x # js) = Some (l @ c # r @ x # js)"
      using poke_append [of l c] p by simp
    moreover have "poke (in_len b + 1) CHR 0x00 (l @ c # r @ x # js) = Some (l @ c # r @ CHR 0x00 # js)"
      using p poke_append [of "l @ c # r" "CHR 0x00" x js] by (simp add: ac_simps)
    ultimately show ?thesis using n by simp
  qed
  then obtain t where t: "(if in_pos b < in_len b
         then do { t \<leftarrow> copy_up (nat (in_len b - in_pos b)) (in_len b) (instr b); poke (in_pos b) c t }
         else poke (in_len b) c (instr b)) = Some t" "poke (in_len b + 1) CHR 0x00 t = Some (l @ c # r @ CHR 0x00 # js)"
    by (auto simp: bind_eq_Some_conv)
  define d where "d = b\<lparr>in_pos := in_pos b + 1, in_len := in_len b + 1, instr := l @ c # r @ CHR 0x00 # js\<rparr>"
  let ?b = "if input_x d = bw - 1 then d\<lparr>show_x := show_x d + 1\<rparr> else d\<lparr>input_x := input_x d + 1\<rparr>"
  have "length (l @ c # r @ CHR 0x00 # js) = MAX_LEN + 1" using len j x by simp
  then have e: "editing bw ?b (l @ [c]) r" using assms p by (auto simp: editing_def d_def)
  have "input_insert bw c b = redraw bw ?b"
    using True t p by (simp add: input_insert_def d_def [symmetric] Let_def) (simp add: d_def)
  with redraw_editing [OF e] e True show ?thesis by (auto simp: d_def)
qed

section \<open>The editor\<close>

text \<open>The pair of texts, and what a key does to it; \<open>None\<close> for a key that does not edit.\<close>

definition editor_key :: "key \<Rightarrow> string \<times> string \<Rightarrow> (string \<times> string) option" where
  "editor_key k z =
     (case z of (l, r) \<Rightarrow>
        (case k of
           KEY_BACKSPACE \<Rightarrow> Some (butlast l, r)
         | KEY_LEFT \<Rightarrow> Some (if l = [] then (l, r) else (butlast l, last l # r))
         | KEY_RIGHT \<Rightarrow> Some (if r = [] then (l, r) else (l @ [hd r], tl r))
         | Key c \<Rightarrow>
             if c = CHR 0x08 \<or> c = CHR 0x7F then Some (butlast l, r)
             else if isprint c then Some (if length l + length r < MAX_LEN then (l @ [c], r) else (l, r))
             else None
         | _ \<Rightarrow> None))"

lemma input_edit_other: "editor_key k z = None \<Longrightarrow> input_edit bw b k = Some None"
  by (cases k) (auto simp: editor_key_def input_edit_def split: prod.splits if_splits)

lemma input_edit_editor:
  assumes e: "editing bw b l r" and bw: "0 < bw" and k: "editor_key k (l, r) = Some (l', r')"
  shows "\<exists>b'. input_edit bw b k = Some (Some b') \<and> editing bw b' l' r' \<and> in_button b' = in_button b"
proof (cases k)
  case (Key c)
  consider "c = CHR 0x08 \<or> c = CHR 0x7F" | "isprint c" "c \<noteq> CHR 0x08" "c \<noteq> CHR 0x7F"
    using k Key by (auto simp: editor_key_def split: if_splits)
  then show ?thesis
  proof cases
    case 1
    with backspace_editing [OF e bw] Key k show ?thesis by (auto simp: editor_key_def input_edit_def)
  next
    case 2
    then have "c \<noteq> CHR 0x00" by (auto simp: isprint_def)
    from insert_editing [OF e bw this] 2 Key k show ?thesis
      by (auto simp: editor_key_def input_edit_def split: if_splits)
  qed
next
  case KEY_LEFT
  with left_editing [OF e bw] k show ?thesis by (auto simp: editor_key_def input_edit_def split: if_splits)
next
  case KEY_RIGHT
  with right_editing [OF e bw] k show ?thesis by (auto simp: editor_key_def input_edit_def split: if_splits)
next
  case KEY_BACKSPACE
  with backspace_editing [OF e bw] k show ?thesis by (auto simp: editor_key_def input_edit_def)
qed (use k in \<open>simp_all add: editor_key_def\<close>)

text \<open>Every state of the box is such a pair, whatever the key.\<close>

definition inputbox_ok :: "int \<Rightarrow> inputbox \<Rightarrow> bool" where
  "inputbox_ok w b \<longleftrightarrow> (\<exists>l r. editing (w - 6) b l r) \<and> in_button b \<in> {-1, 0, 1}"

lemma editing_cong:
  "instr b' = instr b \<Longrightarrow> in_len b' = in_len b \<Longrightarrow> in_pos b' = in_pos b \<Longrightarrow> show_x b' = show_x b \<Longrightarrow> input_x b' = input_x b \<Longrightarrow>
   editing bw b' l r = editing bw b l r"
  by (simp add: editing_def)

lemma input_layout_editing:
  assumes "editing bw b l r \<or> (\<exists>junk. instr b = l @ r @ CHR 0x00 # junk) \<and> length (instr b) = MAX_LEN + 1 \<and> CHR 0x00 \<notin> set (l @ r)"
    and "6 < w" "bw = w - 6"
  shows "input_layout h w b = Leave_dialog Too_small b \<or> (\<exists>b'. input_layout h w b = Stay b' \<and> editing bw b' (l @ r) [] \<and> in_button b' = in_button b)"
proof -
  obtain junk where j: "instr b = (l @ r) @ CHR 0x00 # junk" "length (instr b) = MAX_LEN + 1" "CHR 0x00 \<notin> set (l @ r)"
    using assms(1) by (auto simp: editing_def)
  have n: "buf_text (l @ r @ CHR 0x00 # junk) = l @ r" using j by (auto simp: buf_text_def takeWhile_append)
  show ?thesis
    using j assms(2,3) by (auto simp: input_layout_def Let_def n editing_def)
qed

lemma input_key_ok:
  assumes "inputbox_ok w b" "6 < w"
  shows "(\<exists>b'. input_key h w b k = Some (Stay b') \<and> inputbox_ok w b')
    \<or> (\<exists>r b'. input_key h w b k = Some (Leave_dialog r b') \<and> inputbox_ok w b')"
proof -
  obtain l r where e: "editing (w - 6) b l r" and bt: "in_button b \<in> {-1, 0, 1}" using assms by (auto simp: inputbox_ok_def)
  have lay: "input_layout h w c = Leave_dialog Too_small c \<or> (\<exists>b'. input_layout h w c = Stay b' \<and> inputbox_ok w b')"
    "inputbox_ok w c" if "editing (w - 6) c l r" "in_button c = in_button b" for c
    using input_layout_editing [of "w - 6" c l r w h] that assms(2) bt by (auto simp: inputbox_ok_def)
  have bu: "(\<exists>b'. input_button h w b k = Stay b' \<and> inputbox_ok w b') \<or> (\<exists>r b'. input_button h w b k = Leave_dialog r b' \<and> inputbox_ok w b')"
  proof (cases "\<exists>y x. k = KEY_RESIZE y x")
    case True
    then obtain y x where k: "k = KEY_RESIZE y x" by blast
    have "editing (w - 6) (b\<lparr>ib_rows := y, ib_cols := x\<rparr>) l r" using e by (simp add: editing_def)
    from lay [OF this] k show ?thesis by (auto simp: input_button_def)
  next
    case False
    have "inputbox_ok w (b\<lparr>in_button := i\<rparr>)" if "i \<in> {-1, 0, 1}" for i
      using e that by (auto simp: inputbox_ok_def editing_def)
    with False assms(1) show ?thesis by (cases k) (auto simp: input_button_def Let_def)
  qed
  show ?thesis
  proof (cases "in_button b = -1 \<and> editor_key k (l, r) \<noteq> None")
    case True
    then obtain l' r' where "editor_key k (l, r) = Some (l', r')" by auto
    from input_edit_editor [OF e _ this] assms(2) True show ?thesis
      by (auto simp: input_key_def inputbox_ok_def)
  next
    case False
    then have "input_key h w b k = Some (input_button h w b k)"
      using input_edit_other [of k "(l, r)"] by (cases "editor_key k (l, r)") (auto simp: input_key_def)
    with bu show ?thesis by auto
  qed
qed

interpretation input: dialog "input_key h w" "\<lambda>b. inputbox_ok w b \<and> 6 < w" "\<lambda>_. True" "\<lambda>_ _. True" for h w
  by unfold_locales (use input_key_ok in blast)+

section \<open>A line is edited\<close>

definition edit_keys :: "key list \<Rightarrow> bool" where
  "edit_keys ks \<longleftrightarrow> (\<forall>k \<in> set ks. \<forall>z. editor_key k z \<noteq> None)"

definition edited :: "key list \<Rightarrow> string \<times> string \<Rightarrow> string \<times> string" where
  "edited ks z = foldl (\<lambda>z k. the (editor_key k z)) z ks"

lemma input_edit_size:
  "input_edit bw b k = Some (Some b') \<Longrightarrow> ib_rows b' = ib_rows b \<and> ib_cols b' = ib_cols b"
  by (auto simp: input_edit_def input_backspace_def input_left_def input_right_def input_insert_def redraw_def Let_def bind_eq_Some_conv
      split: key.splits if_splits)

lemma key_loop_edits:
  assumes "editing (w - 6) b (fst z) (snd z)" "in_button b = -1" "6 < w" "edit_keys ks"
  shows "\<exists>b'. editing (w - 6) b' (fst (edited ks z)) (snd (edited ks z)) \<and> in_button b' = -1
    \<and> ib_rows b' = ib_rows b \<and> ib_cols b' = ib_cols b \<and> key_loop (input_key h w) esc b (ks @ rest) = key_loop (input_key h w) esc b' rest"
  using assms
proof (induction ks arbitrary: b z)
  case (Cons k ks)
  obtain l r where z: "z = (l, r)" by (cases z)
  obtain l' r' where k: "editor_key k (l, r) = Some (l', r')" 
  proof -
    from Cons.prems(4) have "editor_key k (l, r) \<noteq> None" unfolding edit_keys_def by (meson list.set_intros(1))
    with that show ?thesis by auto
  qed
  obtain c where c: "input_edit (w - 6) b k = Some (Some c)" "editing (w - 6) c l' r'" "in_button c = -1"
    using input_edit_editor [OF _ _ k, of "w - 6" b] Cons.prems z by auto
  have "input_key h w b k = Some (Stay c)" using c(1) Cons.prems(2) by (simp add: input_key_def)
  moreover have "\<forall>cs. k \<noteq> KEY_ESC cs" using k by (auto simp: editor_key_def)
  ultimately have "key_loop (input_key h w) esc b ((k # ks) @ rest) = key_loop (input_key h w) esc c (ks @ rest)"
    by (cases k) auto
  with Cons.IH [of c "(l', r')"] c input_edit_size [OF c(1)] Cons.prems k z show ?case by (auto simp: edit_keys_def edited_def)
qed (auto simp: edited_def)

lemma input_start_text:
  assumes "CHR 0x00 \<notin> set t" "length t \<le> MAX_LEN"
  shows "\<exists>junk. input_start (Some t) old = t @ CHR 0x00 # junk" "length (input_start (Some t) old) = MAX_LEN + 1"
proof -
  have "MAX_LEN + 1 - length t = Suc (MAX_LEN - length t)" using assms(2) by simp
  then show "\<exists>junk. input_start (Some t) old = t @ CHR 0x00 # junk" "length (input_start (Some t) old) = MAX_LEN + 1"
    using assms by (simp_all add: input_start_def Let_def)
qed

lemma dialog_inputbox_edits:
  assumes "CHR 0x00 \<notin> set t" "length t \<le> MAX_LEN" "6 < w" "h - 2 < scr_rows d" "w - 2 < scr_cols d"
    and "scr_keys d = ks @ Key CHR 0x0A # rest" "edit_keys ks"
  shows "\<exists>buf. dialog_inputbox h w (Some t) old d = Some (Pressed 0, buf, d\<lparr>scr_keys := rest\<rparr>)
    \<and> buf_text buf = fst (edited ks (t, [])) @ snd (edited ks (t, []))"
proof -
  let ?b = "\<lparr>ib_rows = scr_rows d, ib_cols = scr_cols d, instr = input_start (Some t) old,
              in_len = 0, in_pos = 0, input_x = 0, show_x = 0, in_button = -1\<rparr>"
  obtain b where b: "input_layout h w ?b = Stay b" "editing (w - 6) b t []" "in_button b = -1"
    using input_layout_editing [of "w - 6" ?b t "[]" w h] input_start_text [OF assms(1,2), of old] assms(1,3-5)
    by (auto simp: input_layout_def Let_def)
  have size: "ib_rows b = scr_rows d" "ib_cols b = scr_cols d"
    using b(1) by (auto simp: input_layout_def Let_def split: if_splits)
  obtain c where c: "editing (w - 6) c (fst (edited ks (t, []))) (snd (edited ks (t, [])))" "in_button c = -1"
      "ib_rows c = scr_rows d" "ib_cols c = scr_cols d"
      "key_loop (input_key h w) Escaped b (ks @ Key CHR 0x0A # rest) = key_loop (input_key h w) Escaped c (Key CHR 0x0A # rest)"
    using key_loop_edits [of w b "(t, [])" ks h Escaped "Key CHR 0x0A # rest"] b assms(3,7) size by auto
  have "key_loop (input_key h w) Escaped c (Key CHR 0x0A # rest) = Some (Pressed 0, c, rest)"
    using c(2) by (simp add: input_key_def input_edit_def isprint_def input_button_def Let_def)
  with b(1) c assms(6) buf_text_editing [OF c(1)] show ?thesis
    by (simp add: dialog_inputbox_def Let_def)
qed

end
