(* ===== verification/TextBox.thy ===== *)
theory TextBox
  imports Dialog MenuShow
begin

text \<open>
  The pager of \<^verbatim>\<open>textbox.c\<close>, which shows a text from \<open>page\<close> on and keeps where that page starts and
  ends, and the keys of \<^verbatim>\<open>mnconf-common.c\<close> that jump from a text of search results.
\<close>

section \<open>Jump keys\<close>

definition next_jump_key :: "int \<Rightarrow> int" where
  "next_jump_key key =
     (if key < 49 \<or> key > 57 then 49
      else (let key = key + 1 in if key > 57 then 49 else key))"

text \<open>\<open>get_jump_key_char\<close> for the \<open>n\<close>-th time after \<open>jump_key_char\<close> was set to 0.\<close>

fun jump_chars :: "nat \<Rightarrow> int" where
  "jump_chars 0 = next_jump_key 0"
| "jump_chars (Suc n) = next_jump_key (jump_chars n)"

fun search_keys :: "int \<Rightarrow> nat \<Rightarrow> nat \<Rightarrow> int \<Rightarrow> jump_key list \<Rightarrow> mid option" where
  "search_keys key start stop index [] = None"
| "search_keys key start stop index (pos # ps) =
     (let index = next_jump_key index in
      if jk_offset pos < start then search_keys key start stop index ps
      else if jk_offset pos \<ge> stop then None
      else if key = index then Some (jk_target pos)
      else search_keys key start stop index ps)"

text \<open>\<open>handle_search_keys\<close>: the new target when the result is 1.\<close>

definition handle_search_keys :: "jump_key list \<Rightarrow> int \<Rightarrow> nat \<Rightarrow> nat \<Rightarrow> mid option" where
  "handle_search_keys head key start stop =
     (if key < 49 \<or> key > 57 then None else search_keys key start stop 0 head)"

section \<open>Lines\<close>

text \<open>\<open>page\<close>, \<open>start\<close> and \<open>end\<close> are offsets in the text, \<open>tb_shown\<close> the lines on the screen.\<close>

record textbox =
  tb_rows :: int
  tb_cols :: int
  tb_height :: int
  tb_width :: int
  begin_reached :: bool
  end_reached :: bool
  page_length :: int
  page :: nat
  hscroll :: int
  page_start :: nat
  page_end :: nat
  tb_shown :: "string list"
  tb_target :: "mid option"

text \<open>Back to the start of the line that ends in front of an offset; true when the text starts there.\<close>

fun scan_back :: "string \<Rightarrow> nat \<Rightarrow> nat \<times> bool" where
  "scan_back buf 0 = (0, True)"
| "scan_back buf (Suc p) = (if buf ! p = CHR 0x0A then (Suc p, False) else scan_back buf p)"

fun back_lines_loop :: "string \<Rightarrow> nat \<Rightarrow> textbox \<Rightarrow> textbox" where
  "back_lines_loop buf 0 s = s"
| "back_lines_loop buf (Suc i) s =
     (if page s = length buf \<and> end_reached s then back_lines_loop buf i (s\<lparr>end_reached := False\<rparr>)
      else if page s = 0 then s\<lparr>begin_reached := True\<rparr>
      else (case scan_back buf (page s - 1) of
              (p, True) \<Rightarrow> s\<lparr>page := p, begin_reached := True\<rparr>
            | (p, False) \<Rightarrow> back_lines_loop buf i (s\<lparr>page := p\<rparr>)))"

definition back_lines :: "string \<Rightarrow> int \<Rightarrow> textbox \<Rightarrow> textbox" where
  "back_lines buf n s = back_lines_loop buf (nat n) (s\<lparr>begin_reached := False\<rparr>)"

definition get_line :: "string \<Rightarrow> textbox \<Rightarrow> string \<times> textbox" where
  "get_line buf s =
     (let l = takeWhile (\<lambda>c. c \<noteq> CHR 0x0A) (drop (page s) buf);
          at_end = (page s + length l \<ge> length buf)
      in (take 2048 l, s\<lparr>end_reached := at_end, page := page s + length l + (if at_end then 0 else 1)\<rparr>))"

definition print_line :: "string \<Rightarrow> int \<Rightarrow> textbox \<Rightarrow> textbox" where
  "print_line buf w s =
     (case get_line buf s of
        (l, s) \<Rightarrow> s\<lparr>tb_shown := tb_shown s @ [take (nat (w - 2)) (drop (nat (hscroll s)) l)]\<rparr>)"

fun print_lines :: "string \<Rightarrow> int \<Rightarrow> nat \<Rightarrow> bool \<Rightarrow> textbox \<Rightarrow> textbox" where
  "print_lines buf w 0 passed_end s = s"
| "print_lines buf w (Suc i) passed_end s =
     (let s = print_line buf w s;
          s = (if passed_end then s else s\<lparr>page_length := page_length s + 1\<rparr>)
      in print_lines buf w i (passed_end \<or> end_reached s) s)"

definition print_page :: "string \<Rightarrow> int \<Rightarrow> int \<Rightarrow> textbox \<Rightarrow> textbox" where
  "print_page buf h w s = print_lines buf w (nat h) False (s\<lparr>page_length := 0, tb_shown := []\<rparr>)"

text \<open>The position is a percentage of the length of the text, so an empty text is a division by 0.\<close>

definition refresh_text_box :: "string \<Rightarrow> textbox \<Rightarrow> textbox option" where
  "refresh_text_box buf s =
     (let s = print_page buf (tb_height s - 4) (tb_width s - 2) (s\<lparr>page_start := page s\<rparr>)
      in if buf = [] then None else Some (s\<lparr>page_end := page s\<rparr>))"

section \<open>The pager\<close>

abbreviation (input) TEXTBOX_HEIGHT_MIN :: int where "TEXTBOX_HEIGHT_MIN \<equiv> 8"
abbreviation (input) TEXTBOX_WIDTH_MIN :: int where "TEXTBOX_WIDTH_MIN \<equiv> 8"

definition textbox_layout :: "string \<Rightarrow> int \<Rightarrow> int \<Rightarrow> textbox \<Rightarrow> (textbox, dialog_result) reaction option" where
  "textbox_layout buf h w s =
     (if tb_rows s < TEXTBOX_HEIGHT_MIN \<or> tb_cols s < TEXTBOX_WIDTH_MIN then Some (Leave_dialog Too_small s)
      else
        let hh = (if h \<noteq> 0 then h else if tb_rows s > 4 then tb_rows s - 4 else 0);
            ww = (if w \<noteq> 0 then w else if tb_cols s > 5 then tb_cols s - 5 else 0)
        in map_option Stay (refresh_text_box buf (s\<lparr>tb_height := hh, tb_width := ww\<rparr>)))"

definition after_lines :: "string \<Rightarrow> int \<Rightarrow> textbox \<Rightarrow> (textbox, dialog_result) reaction option" where
  "after_lines buf n s = map_option Stay (refresh_text_box buf (back_lines buf n s))"

datatype pager_command = First_page | Last_page | Line_up | Page_up | Line_down | Page_down | Scroll_home | Scroll_left | Scroll_right | Leave_pager | Other_key

definition pager_key :: "key \<Rightarrow> pager_command" where
  "pager_key k =
     (case k of
        Key c \<Rightarrow>
          if c \<in> set ''EeXxq'' \<or> c = CHR 0x0A then Leave_pager
          else if c = CHR ''g'' then First_page
          else if c = CHR ''G'' then Last_page
          else if c \<in> set ''Kk'' then Line_up
          else if c \<in> set ''Bbu'' then Page_up
          else if c \<in> set ''Jj'' then Line_down
          else if c \<in> set '' d'' then Page_down
          else if c = CHR ''0'' then Scroll_home
          else if c \<in> set ''Hh'' then Scroll_left
          else if c \<in> set ''Ll'' then Scroll_right
          else Other_key
      | KEY_HOME \<Rightarrow> First_page
      | KEY_END \<Rightarrow> Last_page
      | KEY_UP \<Rightarrow> Line_up
      | KEY_PPAGE \<Rightarrow> Page_up
      | KEY_DOWN \<Rightarrow> Line_down
      | KEY_NPAGE \<Rightarrow> Page_down
      | KEY_LEFT \<Rightarrow> Scroll_left
      | KEY_RIGHT \<Rightarrow> Scroll_right
      | _ \<Rightarrow> Other_key)"

definition key_code :: "key \<Rightarrow> nat" where
  "key_code k = (case k of Key c \<Rightarrow> of_char c | _ \<Rightarrow> 256)"

text \<open>\<open>extra\<close> is \<open>extra_key_cb\<close>: the target it stores when its result is not 0.\<close>

definition textbox_key ::
  "(int \<Rightarrow> nat \<Rightarrow> nat \<Rightarrow> mid option) \<Rightarrow> string \<Rightarrow> int \<Rightarrow> int \<Rightarrow> textbox \<Rightarrow> key \<Rightarrow> (textbox, dialog_result) reaction option" where
  "textbox_key extra buf h w s k =
     (let boxh = tb_height s - 4 in
      case pager_key k of
        Leave_pager \<Rightarrow> Some (Leave_dialog (Pressed (key_code k)) s)
      | First_page \<Rightarrow>
          if begin_reached s then Some (Stay s)
          else map_option Stay (refresh_text_box buf (s\<lparr>begin_reached := True, page := 0\<rparr>))
      | Last_page \<Rightarrow> after_lines buf boxh (s\<lparr>end_reached := True, page := length buf\<rparr>)
      | Line_up \<Rightarrow> if begin_reached s then Some (Stay s) else after_lines buf (page_length s + 1) s
      | Page_up \<Rightarrow> if begin_reached s then Some (Stay s) else after_lines buf (page_length s + boxh) s
      | Line_down \<Rightarrow> if end_reached s then Some (Stay s) else after_lines buf (page_length s - 1) s
      | Page_down \<Rightarrow>
          if end_reached s then Some (Stay s) else map_option Stay (refresh_text_box buf (s\<lparr>begin_reached := False\<rparr>))
      | Scroll_home \<Rightarrow> if hscroll s \<le> 0 then Some (Stay s) else after_lines buf (page_length s) (s\<lparr>hscroll := 0\<rparr>)
      | Scroll_left \<Rightarrow> if hscroll s \<le> 0 then Some (Stay s) else after_lines buf (page_length s) (s\<lparr>hscroll := hscroll s - 1\<rparr>)
      | Scroll_right \<Rightarrow> if hscroll s \<ge> 2048 then Some (Stay s) else after_lines buf (page_length s) (s\<lparr>hscroll := hscroll s + 1\<rparr>)
      | Other_key \<Rightarrow>
          (case k of
             KEY_RESIZE y x \<Rightarrow> textbox_layout buf h w ((back_lines buf (tb_height s) s)\<lparr>tb_rows := y, tb_cols := x\<rparr>)
           | Key c \<Rightarrow> Some (case extra (int (key_code k)) (page_start s) (page_end s) of
                 Some m \<Rightarrow> Leave_dialog (Pressed (key_code k)) (s\<lparr>tb_target := Some m\<rparr>)
               | None \<Rightarrow> Stay s)
           | _ \<Rightarrow> Some (Stay s)))"

text \<open>The number of newlines before the page, as \<open>strchr\<close> finds them.\<close>

function count_breaks :: "string \<Rightarrow> nat \<Rightarrow> nat \<Rightarrow> nat" where
  "count_breaks buf p s =
     (let l = takeWhile (\<lambda>c. c \<noteq> CHR 0x0A) (drop s buf) in
      if s < p \<and> s + length l < length buf then Suc (count_breaks buf p (s + length l + 1)) else 0)"
  by pat_completeness auto

termination count_breaks
  by (relation "measure (\<lambda>(buf, p, s). length buf - s)") auto

declare count_breaks.simps [simp del]

fun skip_lines :: "string \<Rightarrow> nat \<Rightarrow> textbox \<Rightarrow> textbox" where
  "skip_lines buf 0 s = s"
| "skip_lines buf (Suc i) s = skip_lines buf i (snd (get_line buf s))"

text \<open>The scrolling is what the caller passes by reference, \<open>None\<close> when it passes null.\<close>

definition dialog_textbox ::
  "(int \<Rightarrow> nat \<Rightarrow> nat \<Rightarrow> mid option) \<Rightarrow> string \<Rightarrow> int \<Rightarrow> int \<Rightarrow> (nat \<times> int) option \<Rightarrow> screen
   \<Rightarrow> (dialog_result \<times> mid option \<times> (nat \<times> int) option \<times> screen) option" where
  "dialog_textbox extra buf h w scrolled d = do {
     let s = \<lparr>tb_rows = scr_rows d, tb_cols = scr_cols d, tb_height = 0, tb_width = 0, begin_reached = True,
              end_reached = False, page_length = 0, page = 0, hscroll = 0, page_start = 0, page_end = 0,
              tb_shown = [], tb_target = None\<rparr>;
     let s = (case scrolled of
         None \<Rightarrow> s
       | Some (v, x) \<Rightarrow> (skip_lines buf v (if v \<noteq> 0 then s\<lparr>begin_reached := False\<rparr> else s))\<lparr>hscroll := x\<rparr>);
     first \<leftarrow> textbox_layout buf h w s;
     case first of
       Leave_dialog r s \<Rightarrow> Some (r, None, scrolled, d)
     | Stay s \<Rightarrow> do {
         (r, s, rest) \<leftarrow> key_loop (textbox_key extra buf h w) Escaped s (scr_keys d);
         let d = \<lparr>scr_rows = tb_rows s, scr_cols = tb_cols s, scr_keys = rest\<rparr>;
         if r = Too_small then Some (r, tb_target s, scrolled, d)
         else
           let s = (if scrolled = None then s else back_lines buf (page_length s) s)
           in Some (r, tb_target s, map_option (\<lambda>_. (count_breaks buf (page s) 0, hscroll s)) scrolled, d)
       }
   }"

end
