(* ===== verification/MenuItems.thy ===== *)
theory MenuItems
  imports InputBox TextBox ConfAsk
begin

text \<open>
  The items of menuconfig: the state of \<^verbatim>\<open>mconf.c\<close> and \<open>build_conf\<close>, which fills the list of items
  for a menu. The functions return \<open>None\<close> for a fault, and for a recursion deeper than the bound
  \<open>d\<close> of the menus.
\<close>

section \<open>The state\<close>

text \<open>
  \<open>mc_menu\<close> is \<open>current_menu\<close>, \<open>unrolled\<close> the mark in \<open>menu->data\<close>, \<open>trail\<close> the list of
  \<open>subtitle_part\<close>, and \<open>scr\<close> the screen with the keys to come.
\<close>

record mconf =
  mc :: conf_state
  mc_indent :: nat
  mc_menu :: mid
  child_count :: int
  single_menu_mode :: bool
  show_all_options :: bool
  save_and_exit :: bool
  mc_silent :: bool
  mc_filename :: string
  backtitle :: string
  trail :: "string option list"
  subtitles :: "string list"
  unrolled :: "mid \<Rightarrow> bool"
  items :: item_list
  dialog_input_result :: string
  scr :: screen

abbreviation mk :: "mconf \<Rightarrow> kstate" where "mk s \<equiv> ks (mc s)"

definition on_mc :: "(conf_state \<Rightarrow> conf_state) \<Rightarrow> mconf \<Rightarrow> mconf" where
  "on_mc g s = s\<lparr>mc := g (mc s)\<rparr>"

definition on_mc_value :: "(conf_state \<Rightarrow> ('a \<times> conf_state) option) \<Rightarrow> mconf \<Rightarrow> ('a \<times> mconf) option" where
  "on_mc_value g s = map_option (\<lambda>(v, c). (v, s\<lparr>mc := c\<rparr>)) (g (mc s))"

definition run_mk :: "(kstate \<Rightarrow> ('a \<times> kstate) option) \<Rightarrow> mconf \<Rightarrow> ('a \<times> mconf) option" where
  "run_mk g s = map_option (\<lambda>(v, k). (v, s\<lparr>mc := (mc s)\<lparr>ks := k\<rparr>\<rparr>)) (g (mk s))"

definition on_items :: "(item_list \<Rightarrow> item_list option) \<Rightarrow> mconf \<Rightarrow> mconf option" where
  "on_items g s = map_option (\<lambda>l. s\<lparr>items := l\<rparr>) (g (items s))"

text \<open>\<open>item_make\<close>, \<open>item_set_tag\<close> and \<open>item_set_data\<close>, as they follow each other.\<close>

definition add_item :: "string \<Rightarrow> char \<Rightarrow> mid \<Rightarrow> mconf \<Rightarrow> mconf option" where
  "add_item t tag m = on_items (\<lambda>l. do { l \<leftarrow> item_make t l; l \<leftarrow> item_set_tag tag l; item_set_data m l })"

definition count_child :: "mconf \<Rightarrow> mconf" where
  "count_child s = s\<lparr>child_count := child_count s + 1\<rparr>"

text \<open>\<open>%*c\<close> with \<open>indent + 1\<close> and a blank, and the prompt as \<open>%s\<close> prints it.\<close>

definition gap :: "mconf \<Rightarrow> string" where
  "gap s = padded (mc_indent s + 1) CHR '' ''"

definition prompt_text :: "mconf \<Rightarrow> mid \<Rightarrow> string" where
  "prompt_text s m = str_text (menu_get_prompt (mk s) m)"

definition arrow :: "bool \<Rightarrow> string" where
  "arrow is_empty = (if is_empty then ''----'' else ''--->'')"

section \<open>Entries without a symbol\<close>

text \<open>The result tells how to go on: \<open>None\<close> returns, and a number is what the children are indented by.\<close>

definition build_menu_item :: "nat \<Rightarrow> calc \<Rightarrow> mid \<Rightarrow> mconf \<Rightarrow> (nat option \<times> mconf) option" where
  "build_menu_item d calc m s = do {
     let s = count_child s;
     (t, s) \<leftarrow> (if single_menu_mode s then Some ((if unrolled s m then ''-->'' else ''++>'') @ gap s @ prompt_text s m, s)
         else do {
           (e, s) \<leftarrow> run_mk (menu_is_empty d calc m) s;
           Some (''   '' @ gap s @ prompt_text s m @ ''  '' @ arrow e, s)
         });
     s \<leftarrow> add_item t CHR ''m'' m s;
     Some (if single_menu_mode s \<and> unrolled s m then Some 2 else None, s)
   }"

definition build_text_item :: "string \<Rightarrow> string \<Rightarrow> mid \<Rightarrow> mconf \<Rightarrow> (nat option \<times> mconf) option" where
  "build_text_item pre post m s =
     (case menu_get_prompt (mk s) m of
        None \<Rightarrow> Some (Some 2, s)
      | Some t \<Rightarrow> map_option (\<lambda>s. (Some 2, s)) (add_item (pre @ t @ post) CHR '':'' m (count_child s)))"

definition build_plain :: "nat \<Rightarrow> calc \<Rightarrow> mid \<Rightarrow> mconf \<Rightarrow> (nat option \<times> mconf) option" where
  "build_plain d calc m s =
     (case m_prompt (menus (mk s) m) of
        None \<Rightarrow> Some (Some 0, s)
      | Some p \<Rightarrow>
          if m = mc_menu s then Some (Some 0, s)
          else (case p_type (props (mk s) p) of
                  P_MENU \<Rightarrow> build_menu_item d calc m s
                | P_COMMENT \<Rightarrow> build_text_item (''   '' @ gap s @ ''*** '') '' ***'' m s
                | _ \<Rightarrow> build_text_item (''---'' @ gap s) [] m s))"

section \<open>Choices\<close>

text \<open>The last visible child with the symbol that is chosen.\<close>

partial_function (option) last_visible ::
  "(mid \<Rightarrow> kstate \<Rightarrow> (bool \<times> kstate) option) \<Rightarrow> sid option \<Rightarrow> mid option \<Rightarrow> mid option \<Rightarrow> kstate \<Rightarrow> (mid option \<times> kstate) option" where
  "last_visible f a c found k =
     (case c of
        None \<Rightarrow> Some (found, k)
      | Some i \<Rightarrow> Option.bind (f i k) (\<lambda>(v, k).
          last_visible f a (m_next (menus k i)) (if v \<and> m_sym (menus k i) = a then Some i else found) k))"

declare last_visible.simps [code]

definition build_choice :: "nat \<Rightarrow> calc \<Rightarrow> mid \<Rightarrow> mconf \<Rightarrow> mconf option" where
  "build_choice d calc m s = do {
     (def_sym, s) \<leftarrow> run_mk (sym_calc_choice calc m) s;
     let s = count_child s;
     (def_menu, s) \<leftarrow> run_mk (last_visible (menu_is_visible d calc) def_sym (m_list (menus (mk s) m)) None) s;
     s \<leftarrow> add_item ''   '' (if def_menu \<noteq> None then CHR ''t'' else CHR '':'') m s;
     s \<leftarrow> on_items (item_add_str (gap s @ prompt_text s m)) s;
     case def_menu of
       None \<Rightarrow> Some s
     | Some j \<Rightarrow> on_items (item_add_str ('' ('' @ prompt_text s j @ '')  --->'')) s
   }"

section \<open>Symbols\<close>

definition bool_item :: "symbol \<Rightarrow> string" where
  "bool_item y =
     (let c = (if sym_get_tristate_value y = tri_no then CHR '' '' else CHR ''*'')
      in if sym_is_changeable y then [CHR ''['', c, CHR '']''] else [CHR ''-'', c, CHR ''-''])"

definition tristate_item :: "symbol \<Rightarrow> string" where
  "tristate_item y =
     (let c = (case sym_get_tristate_value y of tri_yes \<Rightarrow> CHR ''*'' | tri_mod \<Rightarrow> CHR ''M'' | tri_no \<Rightarrow> CHR '' '')
      in if sym_is_changeable y
         then (if rev_dep_tri y = tri_mod then [CHR 0x7B, c, CHR 0x7D] else [CHR ''<'', c, CHR ''>''])
         else [CHR ''-'', c, CHR ''-''])"

definition new_mark :: "symbol \<Rightarrow> string" where
  "new_mark y = (if sym_has_value y \<or> \<not> sym_is_changeable y then [] else '' (NEW)'')"

text \<open>A text, whose length moves the prompt; the null pointer cannot be measured.\<close>

definition build_string :: "mid \<Rightarrow> sid \<Rightarrow> mconf \<Rightarrow> mconf option" where
  "build_string m a s = do {
     let y = syms (mk s) a;
     t \<leftarrow> pointed (sym_get_string_value y);
     s \<leftarrow> add_item (''('' @ t @ '')'') CHR ''s'' m s;
     let w = nat (int (mc_indent s) - int (2 + length t) + 4);
     on_items (item_add_str (padded w CHR '' '' @ prompt_text s m @ new_mark y)) s
   }"

definition build_symbol :: "nat \<Rightarrow> calc \<Rightarrow> mid \<Rightarrow> sid \<Rightarrow> mconf \<Rightarrow> (nat option \<times> mconf) option" where
  "build_symbol d calc m a s =
     (let y = syms (mk s) a; ty = sym_get_type (mk s) y in
      if m = mc_menu s then map_option (\<lambda>s. (Some 2, s)) (add_item (''---'' @ gap s @ prompt_text s m) CHR '':'' m s)
      else if ty \<noteq> S_BOOLEAN \<and> ty \<noteq> S_TRISTATE then map_option (\<lambda>s. (Some 2, s)) (build_string m a (count_child s))
      else do {
        s \<leftarrow> add_item (if ty = S_BOOLEAN then bool_item y else tristate_item y) CHR ''t'' m (count_child s);
        s \<leftarrow> on_items (item_add_str (gap s @ prompt_text s m @ new_mark y)) s;
        p \<leftarrow> m_prompt (menus (mk s) m);
        if p_type (props (mk s) p) = P_MENU then do {
          (e, s) \<leftarrow> run_mk (menu_is_empty d calc m) s;
          s \<leftarrow> on_items (item_add_str (''  '' @ arrow e)) s;
          Some (None, s)
        }
        else Some (Some 2, s)
      })"

section \<open>The whole menu\<close>

partial_function (option) build_children :: "(mid \<Rightarrow> mconf \<Rightarrow> mconf option) \<Rightarrow> mid option \<Rightarrow> mconf \<Rightarrow> mconf option" where
  "build_children g c s =
     (case c of
        None \<Rightarrow> Some s
      | Some i \<Rightarrow> Option.bind (g i s) (\<lambda>s. build_children g (m_next (menus (mk s) i)) s))"

declare build_children.simps [code]

definition build_entry :: "nat \<Rightarrow> calc \<Rightarrow> mid \<Rightarrow> mconf \<Rightarrow> (nat option \<times> mconf) option" where
  "build_entry d calc m s =
     (case m_sym (menus (mk s) m) of
        None \<Rightarrow> build_plain d calc m s
      | Some a \<Rightarrow>
          if sym_is_choice (syms (mk s) a) then map_option (\<lambda>s. (None, s)) (build_choice d calc m s)
          else build_symbol d calc m a s)"

definition build_conf_step :: "nat \<Rightarrow> calc \<Rightarrow> (mid \<Rightarrow> mconf \<Rightarrow> mconf option) \<Rightarrow> mid \<Rightarrow> mconf \<Rightarrow> mconf option" where
  "build_conf_step d calc build m s = do {
     (v, s) \<leftarrow> run_mk (menu_is_visible d calc m) s;
     if (if show_all_options s then \<not> menu_has_prompt (mk s) m else \<not> v) then Some s
     else do {
       (doint, s) \<leftarrow> build_entry d calc m s;
       case doint of
         None \<Rightarrow> Some s
       | Some i \<Rightarrow> do {
           s \<leftarrow> build_children build (m_list (menus (mk s) m)) (s\<lparr>mc_indent := mc_indent s + i\<rparr>);
           Some (s\<lparr>mc_indent := mc_indent s - i\<rparr>)
         }
     }
   }"

fun build_conf :: "nat \<Rightarrow> nat \<Rightarrow> calc \<Rightarrow> mid \<Rightarrow> mconf \<Rightarrow> mconf option" where
  "build_conf 0 d calc m s = None"
| "build_conf (Suc n) d calc m s = build_conf_step d calc (build_conf n d calc) m s"

end
