(* ===== verification/MenuTexts.thy ===== *)
theory MenuTexts
  imports Main
begin

text \<open>The texts of \<^verbatim>\<open>mconf.c\<close> that are shown in the pager.\<close>

definition mconf_readme :: string where
  "mconf_readme =
     ''Overview\<newline>''
     @ ''--------\<newline>''
     @ ''This interface lets you select features and parameters for the build.\<newline>''
     @ ''Features can either be built-in, modularized, or ignored. Parameters\<newline>''
     @ ''must be entered in as decimal or hexadecimal numbers or text.\<newline>''
     @ ''\<newline>''
     @ ''Menu items beginning with following braces represent features that\<newline>''
     @ ''  [ ] can be built in or removed\<newline>''
     @ ''  < > can be built in, modularized or removed\<newline>''
     @ ''  { } can be built in or modularized (selected by other feature)\<newline>''
     @ ''  - - are selected by other feature,\<newline>''
     @ ''while *, M or whitespace inside braces means to build in, build as\<newline>''
     @ ''a module or to exclude the feature respectively.\<newline>''
     @ ''\<newline>''
     @ ''To change any of these features, highlight it with the cursor\<newline>''
     @ ''keys and press <Y> to build it in, <M> to make it a module or\<newline>''
     @ ''<N> to remove it.  You may also press the <Space Bar> to cycle\<newline>''
     @ ''through the available options (i.e. Y->N->M->Y).\<newline>''
     @ ''\<newline>''
     @ ''Some additional keyboard hints:\<newline>''
     @ ''\<newline>''
     @ ''Menus\<newline>''
     @ ''----------\<newline>''
     @ ''o  Use the Up/Down arrow keys (cursor keys) to highlight the item you\<newline>''
     @ ''   wish to change or the submenu you wish to select and press <Enter>.\<newline>''
     @ ''   Submenus are designated by '' @ [CHR 0x22] @ ''--->'' @ [CHR 0x22] @ '', empty ones by '' @ [CHR 0x22] @ ''----'' @ [CHR 0x22] @ ''.\<newline>''
     @ ''\<newline>''
     @ ''   Shortcut: Press the option'' @ [CHR 0x27] @ ''s highlighted letter (hotkey).\<newline>''
     @ ''             Pressing a hotkey more than once will sequence\<newline>''
     @ ''             through all visible items which use that hotkey.\<newline>''
     @ ''\<newline>''
     @ ''   You may also use the <PAGE UP> and <PAGE DOWN> keys to scroll\<newline>''
     @ ''   unseen options into view.\<newline>''
     @ ''\<newline>''
     @ ''o  To exit a menu use the cursor keys to highlight the <Exit> button\<newline>''
     @ ''   and press <ENTER>.\<newline>''
     @ ''\<newline>''
     @ ''   Shortcut: Press <ESC><ESC> or <E> or <X> if there is no hotkey\<newline>''
     @ ''             using those letters.  You may press a single <ESC>, but\<newline>''
     @ ''             there is a delayed response which you may find annoying.\<newline>''
     @ ''\<newline>''
     @ ''   Also, the <TAB> and cursor keys will cycle between <Select>,\<newline>''
     @ ''   <Exit>, <Help>, <Save>, and <Load>.\<newline>''
     @ ''\<newline>''
     @ ''o  To get help with an item, use the cursor keys to highlight <Help>\<newline>''
     @ ''   and press <ENTER>.\<newline>''
     @ ''\<newline>''
     @ ''   Shortcut: Press <H> or <?>.\<newline>''
     @ ''\<newline>''
     @ ''o  To toggle the display of hidden options, press <Z>.\<newline>''
     @ ''\<newline>''
     @ ''\<newline>''
     @ ''Radiolists  (Choice lists)\<newline>''
     @ ''-----------\<newline>''
     @ ''o  Use the cursor keys to select the option you wish to set and press\<newline>''
     @ ''   <S> or the <SPACE BAR>.\<newline>''
     @ ''\<newline>''
     @ ''   Shortcut: Press the first letter of the option you wish to set then\<newline>''
     @ ''             press <S> or <SPACE BAR>.\<newline>''
     @ ''\<newline>''
     @ ''o  To see available help for the item, use the cursor keys to highlight\<newline>''
     @ ''   <Help> and Press <ENTER>.\<newline>''
     @ ''\<newline>''
     @ ''   Shortcut: Press <H> or <?>.\<newline>''
     @ ''\<newline>''
     @ ''   Also, the <TAB> and cursor keys will cycle between <Select> and\<newline>''
     @ ''   <Help>\<newline>''
     @ ''\<newline>''
     @ ''\<newline>''
     @ ''Data Entry\<newline>''
     @ ''-----------\<newline>''
     @ ''o  Enter the requested information and press <ENTER>\<newline>''
     @ ''   If you are entering hexadecimal values, it is not necessary to\<newline>''
     @ ''   add the '' @ [CHR 0x27] @ ''0x'' @ [CHR 0x27] @ '' prefix to the entry.\<newline>''
     @ ''\<newline>''
     @ ''o  For help, use the <TAB> or cursor keys to highlight the help option\<newline>''
     @ ''   and press <ENTER>.  You can try <TAB><H> as well.\<newline>''
     @ ''\<newline>''
     @ ''\<newline>''
     @ ''Text Box    (Help Window)\<newline>''
     @ ''--------\<newline>''
     @ ''o  Use the cursor keys to scroll up/down/left/right.  The VI editor\<newline>''
     @ ''   keys h,j,k,l function here as do <u>, <d>, <SPACE BAR> and <B> for\<newline>''
     @ ''   those who are familiar with less and lynx.\<newline>''
     @ ''\<newline>''
     @ ''o  Press <E>, <X>, <q>, <Enter> or <Esc><Esc> to exit.\<newline>''
     @ ''\<newline>''
     @ ''\<newline>''
     @ ''Alternate Configuration Files\<newline>''
     @ ''-----------------------------\<newline>''
     @ ''Menuconfig supports the use of alternate configuration files for\<newline>''
     @ ''those who, for various reasons, find it necessary to switch\<newline>''
     @ ''between different configurations.\<newline>''
     @ ''\<newline>''
     @ ''The <Save> button will let you save the current configuration to\<newline>''
     @ ''a file of your choosing.  Use the <Load> button to load a previously\<newline>''
     @ ''saved alternate configuration.\<newline>''
     @ ''\<newline>''
     @ ''Even if you don'' @ [CHR 0x27] @ ''t use alternate configuration files, but you find\<newline>''
     @ ''during a Menuconfig session that you have completely messed up your\<newline>''
     @ ''settings, you may use the <Load> button to restore your previously\<newline>''
     @ ''saved settings from '' @ [CHR 0x22] @ ''.config'' @ [CHR 0x22] @ '' without restarting Menuconfig.\<newline>''
     @ ''\<newline>''
     @ ''Other information\<newline>''
     @ ''-----------------\<newline>''
     @ ''If you use Menuconfig in an XTERM window, make sure you have your\<newline>''
     @ ''$TERM variable set to point to an xterm definition which supports\<newline>''
     @ ''color.  Otherwise, Menuconfig will look rather bad.  Menuconfig will\<newline>''
     @ ''not display correctly in an RXVT window because rxvt displays only one\<newline>''
     @ ''intensity of color, bright.\<newline>''
     @ ''\<newline>''
     @ ''Menuconfig will display larger menus on screens or xterms which are\<newline>''
     @ ''set to display more than the standard 25 row by 80 column geometry.\<newline>''
     @ ''In order for this to work, the '' @ [CHR 0x22] @ ''stty size'' @ [CHR 0x22] @ '' command must be able to\<newline>''
     @ ''display the screen'' @ [CHR 0x27] @ ''s current row and column geometry.  I STRONGLY\<newline>''
     @ ''RECOMMEND that you make sure you do NOT have the shell variables\<newline>''
     @ ''LINES and COLUMNS exported into your environment.  Some distributions\<newline>''
     @ ''export those variables via /etc/profile.  Some ncurses programs can\<newline>''
     @ ''become confused when those variables (LINES & COLUMNS) don'' @ [CHR 0x27] @ ''t reflect\<newline>''
     @ ''the true screen size.\<newline>''
     @ ''\<newline>''
     @ ''Optional personality available\<newline>''
     @ ''------------------------------\<newline>''
     @ ''If you prefer to have all of the options listed in a single menu,\<newline>''
     @ ''rather than the default multimenu hierarchy, run the menuconfig with\<newline>''
     @ ''MENUCONFIG_MODE environment variable set to single_menu. Example:\<newline>''
     @ ''\<newline>''
     @ ''make MENUCONFIG_MODE=single_menu menuconfig\<newline>''
     @ ''\<newline>''
     @ ''<Enter> will then unroll the appropriate category, or enfold it if it\<newline>''
     @ ''is already unrolled.\<newline>''
     @ ''\<newline>''
     @ ''Note that this mode can eventually be a little more CPU expensive\<newline>''
     @ ''(especially with a larger number of unrolled categories) than the\<newline>''
     @ ''default mode.\<newline>''
     @ ''\<newline>''
     @ ''Search\<newline>''
     @ ''-------\<newline>''
     @ ''Pressing the forward-slash (/) anywhere brings up a search dialog box.\<newline>''
     @ ''\<newline>''
     @ ''Different color themes available\<newline>''
     @ ''--------------------------------\<newline>''
     @ ''It is possible to select different color themes using the variable\<newline>''
     @ ''MENUCONFIG_COLOR. To select a theme use:\<newline>''
     @ ''\<newline>''
     @ ''make MENUCONFIG_COLOR=<theme> menuconfig\<newline>''
     @ ''\<newline>''
     @ ''Available themes are\<newline>''
     @ '' mono       => selects colors suitable for monochrome displays\<newline>''
     @ '' blackbg    => selects a color scheme with black background\<newline>''
     @ '' classic    => theme with blue background. The classic look\<newline>''
     @ '' bluetitle  => an LCD friendly version of classic. (default)\<newline>''
     @ ''\<newline>''"

definition setmod_text :: string where
  "setmod_text =
     ''This feature depends on another which has been configured as a module.\<newline>''
     @ ''As a result, this feature will be built as a module.''"

definition load_config_help :: string where
  "load_config_help =
     ''\<newline>''
     @ ''For various reasons, one may wish to keep several different\<newline>''
     @ ''configurations available on a single machine.\<newline>''
     @ ''\<newline>''
     @ ''If you have saved a previous configuration in a file other than the\<newline>''
     @ ''default one, entering its name here will allow you to modify that\<newline>''
     @ ''configuration.\<newline>''
     @ ''\<newline>''
     @ ''If you are uncertain, then you have probably never used alternate\<newline>''
     @ ''configuration files. You should therefore leave this blank to abort.\<newline>''"

definition save_config_help :: string where
  "save_config_help =
     ''\<newline>''
     @ ''For various reasons, one may wish to keep different configurations\<newline>''
     @ ''available on a single machine.\<newline>''
     @ ''\<newline>''
     @ ''Entering a file name here will allow you to later retrieve, modify\<newline>''
     @ ''and use the current configuration as an alternate to whatever\<newline>''
     @ ''configuration options you have selected at that time.\<newline>''
     @ ''\<newline>''
     @ ''If you are uncertain what all this means then you should probably\<newline>''
     @ ''leave this blank.\<newline>''"

definition search_help :: string where
  "search_help =
     ''\<newline>''
     @ ''Search for symbols and display their relations.\<newline>''
     @ ''Regular expressions are allowed.\<newline>''
     @ ''Example: search for '' @ [CHR 0x22] @ ''^FOO'' @ [CHR 0x22] @ ''\<newline>''
     @ ''Result:\<newline>''
     @ ''-----------------------------------------------------------------\<newline>''
     @ ''Symbol: FOO [=m]\<newline>''
     @ ''Type  : tristate\<newline>''
     @ ''Prompt: Foo bus is used to drive the bar HW\<newline>''
     @ ''  Location:\<newline>''
     @ ''    -> Bus options (PCI, PCMCIA, EISA, ISA)\<newline>''
     @ ''      -> PCI support (PCI [=y])\<newline>''
     @ ''(1)     -> PCI access mode (<choice> [=y])\<newline>''
     @ ''  Defined at drivers/pci/Kconfig:47\<newline>''
     @ ''  Depends on: X86_LOCAL_APIC && X86_IO_APIC\<newline>''
     @ ''  Selects: LIBCRC32\<newline>''
     @ ''  Selected by: BAR [=n]\<newline>''
     @ ''-----------------------------------------------------------------\<newline>''
     @ ''o The line '' @ [CHR 0x27] @ ''Type:'' @ [CHR 0x27] @ '' shows the type of the configuration option for\<newline>''
     @ ''  this symbol (bool, tristate, string, ...)\<newline>''
     @ ''o The line '' @ [CHR 0x27] @ ''Prompt:'' @ [CHR 0x27] @ '' shows the text used in the menu structure for\<newline>''
     @ ''  this symbol\<newline>''
     @ ''o The '' @ [CHR 0x27] @ ''Defined at'' @ [CHR 0x27] @ '' line tells at what file / line number the symbol\<newline>''
     @ ''  is defined\<newline>''
     @ ''o The '' @ [CHR 0x27] @ ''Depends on:'' @ [CHR 0x27] @ '' line tells what symbols need to be defined for\<newline>''
     @ ''  this symbol to be visible in the menu (selectable)\<newline>''
     @ ''o The '' @ [CHR 0x27] @ ''Location:'' @ [CHR 0x27] @ '' lines tells where in the menu structure this symbol\<newline>''
     @ ''  is located\<newline>''
     @ ''    A location followed by a [=y] indicates that this is a\<newline>''
     @ ''    selectable menu item - and the current value is displayed inside\<newline>''
     @ ''    brackets.\<newline>''
     @ ''    Press the key in the (#) prefix to jump directly to that\<newline>''
     @ ''    location. You will be returned to the current search results\<newline>''
     @ ''    after exiting this new menu.\<newline>''
     @ ''o The '' @ [CHR 0x27] @ ''Selects:'' @ [CHR 0x27] @ '' line tells what symbols will be automatically\<newline>''
     @ ''  selected if this symbol is selected (y or m)\<newline>''
     @ ''o The '' @ [CHR 0x27] @ ''Selected by'' @ [CHR 0x27] @ '' line tells what symbol has selected this symbol\<newline>''
     @ ''\<newline>''
     @ ''Only relevant lines are shown.\<newline>''
     @ ''\<newline>\<newline>''
     @ ''Search examples:\<newline>''
     @ ''Examples: USB'' @ [CHR 0x09] @ ''=> find all symbols containing USB\<newline>''
     @ ''          ^USB => find all symbols starting with USB\<newline>''
     @ ''          USB$ => find all symbols ending with USB\<newline>''
     @ ''\<newline>''"

lemma texts_nonempty [simp]:
  "mconf_readme \<noteq> []" "setmod_text \<noteq> []" "load_config_help \<noteq> []" "save_config_help \<noteq> []" "search_help \<noteq> []"
  by (simp_all add: mconf_readme_def setmod_text_def load_config_help_def save_config_help_def search_help_def)

end
