(* ===== verification/MenuConf.thy ===== *)
theory MenuConf
  imports MenuItems MenuTexts ConfModes
begin

text \<open>
  The front end \<^verbatim>\<open>mconf.c\<close> on the dialogs: the editing of texts and choices, loading and saving,
  the search, the loop of a menu, and the program. \<open>None\<close> stands for a fault, for a loop that does
  not end, and for waiting for keys that do not come; \<open>n\<close> bounds how deep menus are opened from
  menus, each of which takes a key. \<open>w\<close> is the operating system and \<open>rx\<close> the regular expressions
  of the C library: for a pattern that compiles, the first match in a text.
\<close>

section \<open>Texts on the screen\<close>

definition set_config_filename :: "string \<Rightarrow> mconf \<Rightarrow> mconf option" where
  "set_config_filename name s = do {
     p \<leftarrow> m_prompt (menus (mk s) rootmenu);
     Some (s\<lparr>backtitle := take (PATH_MAX + 127) (name @ '' - '' @ str_text (p_text (props (mk s) p))),
             mc_filename := take PATH_MAX name\<rparr>)
   }"

definition set_subtitle :: "mconf \<Rightarrow> mconf" where
  "set_subtitle s = s\<lparr>subtitles := List.map_filter id (trail s)\<rparr>"

definition reset_subtitle :: "mconf \<Rightarrow> mconf" where
  "reset_subtitle s = s\<lparr>subtitles := []\<rparr>"

definition show_textbox_ext ::
  "(int \<Rightarrow> nat \<Rightarrow> nat \<Rightarrow> mid option) \<Rightarrow> string \<Rightarrow> int \<Rightarrow> int \<Rightarrow> (nat \<times> int) option \<Rightarrow> mconf
   \<Rightarrow> (dialog_result \<times> mid option \<times> (nat \<times> int) option \<times> mconf) option" where
  "show_textbox_ext extra t h w scrolled s =
     map_option (\<lambda>(r, target, scrolled, d). (r, target, scrolled, s\<lparr>scr := d\<rparr>)) (dialog_textbox extra t h w scrolled (scr s))"

definition show_textbox :: "string \<Rightarrow> int \<Rightarrow> int \<Rightarrow> mconf \<Rightarrow> mconf option" where
  "show_textbox t h w s = map_option (\<lambda>(_, _, _, s). s) (show_textbox_ext (\<lambda>_ _ _. None) t h w None s)"

definition show_helptext :: "string \<Rightarrow> mconf \<Rightarrow> mconf option" where
  "show_helptext t = show_textbox t 0 0"

definition show_help :: "nat \<Rightarrow> calc \<Rightarrow> mid \<Rightarrow> mconf \<Rightarrow> mconf option" where
  "show_help d calc m s = do {
     (help, s) \<leftarrow> run_mk (menu_get_ext_help (CONFIG_prefix (environ (mc s))) (\<lambda>_. -1) d calc m
         (str_new\<lparr>gs_max_width := nat (scr_cols (scr s) - 10)\<rparr>)) s;
     show_helptext (str_get help) s
   }"

definition input_dialog :: "int \<Rightarrow> int \<Rightarrow> string option \<Rightarrow> mconf \<Rightarrow> (dialog_result \<times> mconf) option" where
  "input_dialog h w init s =
     map_option (\<lambda>(r, t, d). (r, s\<lparr>dialog_input_result := t, scr := d\<rparr>))
       (dialog_inputbox h w init (dialog_input_result s) (scr s))"

definition input_text :: "mconf \<Rightarrow> string" where
  "input_text s = buf_text (dialog_input_result s)"

text \<open>\<open>conf_message_callback\<close>, for the messages that an operation on files has left.\<close>

definition message_box :: "string \<Rightarrow> mconf \<Rightarrow> mconf option" where
  "message_box t s =
     (if save_and_exit s
      then Some (if mc_silent s then s else on_mc (\<lambda>c. c\<lparr>conf_stdout := conf_stdout c @ t\<rparr>) s)
      else show_textbox t 6 60 s)"

fun message_boxes :: "string list \<Rightarrow> mconf \<Rightarrow> mconf option" where
  "message_boxes [] s = Some s"
| "message_boxes (t # ts) s = Option.bind (message_box t s) (message_boxes ts)"

definition with_messages :: "(conf_state \<Rightarrow> ('a \<times> conf_state) option) \<Rightarrow> mconf \<Rightarrow> ('a \<times> mconf) option" where
  "with_messages g s = do {
     (v, s') \<leftarrow> on_mc_value g s;
     s' \<leftarrow> message_boxes (drop (length (conf_messages (mc s))) (conf_messages (mc s'))) s';
     Some (v, s')
   }"

section \<open>Choices and texts\<close>

definition choice_item :: "calc \<Rightarrow> mid \<Rightarrow> sid option \<Rightarrow> mid \<Rightarrow> mconf \<Rightarrow> mconf option" where
  "choice_item calc m active i s = do {
     let a = m_sym (menus (mk s) i);
     s \<leftarrow> (if a \<noteq> None then add_item (prompt_text s i) CHR 0x00 i s
           else add_item (''*** '' @ prompt_text s i @ '' ***'') CHR '':'' i s);
     s \<leftarrow> (if a = active then on_items (item_set_selected True) s else Some s);
     (c, s) \<leftarrow> run_mk (sym_calc_choice calc m) s;
     if a = c then on_items (item_set_tag CHR ''X'') s else Some s
   }"

partial_function (option) choice_items :: "nat \<Rightarrow> calc \<Rightarrow> mid \<Rightarrow> sid option \<Rightarrow> mid option \<Rightarrow> mconf \<Rightarrow> mconf option" where
  "choice_items d calc m active c s =
     (case c of
        None \<Rightarrow> Some s
      | Some i \<Rightarrow>
          Option.bind (run_mk (menu_is_visible d calc i) s) (\<lambda>(v, s).
            Option.bind (if v then choice_item calc m active i s else Some s) (\<lambda>s.
              choice_items d calc m active (m_next (menus (mk s) i)) s)))"

declare choice_items.simps [code]

text \<open>A round of \<open>conf_choice\<close>, with the variable \<open>active\<close>; true when it returns.\<close>

definition mconf_choice_round :: "nat \<Rightarrow> calc \<Rightarrow> mid \<Rightarrow> sid option \<times> mconf \<Rightarrow> (bool \<times> sid option \<times> mconf) option" where
  "mconf_choice_round d calc m = (\<lambda>(active, s). do {
     let s = s\<lparr>items := item_reset (items s), mc_menu := m\<rparr>;
     s \<leftarrow> choice_items d calc m active (m_list (menus (mk s) m)) s;
     (res, l, t) \<leftarrow> dialog_checklist MENUBOX_HEIGHT_MIN MENUBOX_WIDTH_MIN CHECKLIST_HEIGHT_MIN (items s) (scr s);
     let (selected, l) = item_activate_selected l;
     let s = s\<lparr>items := l, scr := t\<rparr>;
     case res of
       Pressed b \<Rightarrow>
         if b = 0 then
           (if \<not> selected then Some (True, active, s)
            else do {
              child \<leftarrow> item_data l;
              i \<leftarrow> child;
              case m_sym (menus (mk s) i) of
                None \<Rightarrow> Some (False, active, s)
              | Some a \<Rightarrow> do {
                  (_, s) \<leftarrow> run_mk (\<lambda>k. map_option (Pair ()) (choice_set_value calc m a k)) s;
                  Some (True, active, s)
                }
            })
         else
           (if \<not> selected then do { s \<leftarrow> show_help d calc m s; Some (False, active, s) }
            else do {
              child \<leftarrow> item_data l;
              i \<leftarrow> child;
              s \<leftarrow> show_help d calc i s;
              Some (False, m_sym (menus (mk s) i), s)
            })
     | _ \<Rightarrow> Some (True, active, s)
   })"

definition mconf_choice :: "nat \<Rightarrow> calc \<Rightarrow> mid \<Rightarrow> mconf \<Rightarrow> mconf option" where
  "mconf_choice d calc m s = do {
     (active, s) \<leftarrow> run_mk (sym_calc_choice calc m) s;
     (_, s) \<leftarrow> rounds (mconf_choice_round d calc m) (active, s);
     Some s
   }"

text \<open>
  The loops around an input box return after an escape; when the screen has become too small, the
  box returns at once and the loop goes on for ever.
\<close>

definition mconf_string_round :: "nat \<Rightarrow> calc \<Rightarrow> mid \<Rightarrow> mconf \<Rightarrow> (bool \<times> mconf) option" where
  "mconf_string_round d calc m s = do {
     a \<leftarrow> m_sym (menus (mk s) m);
     (res, s) \<leftarrow> input_dialog 10 75 (pointed (sym_get_string_value (syms (mk s) a))) s;
     case res of
       Pressed b \<Rightarrow>
         if b = 0 then do {
           (ok, s) \<leftarrow> run_mk (sym_set_string_value calc a (input_text s)) s;
           if ok then Some (True, s)
           else do { s \<leftarrow> show_textbox ''You have made an invalid entry.'' 5 43 s; Some (False, s) }
         }
         else do { s \<leftarrow> show_help d calc m s; Some (False, s) }
     | Escaped \<Rightarrow> Some (True, s)
     | Too_small \<Rightarrow> Some (False, s)
   }"

definition mconf_string :: "nat \<Rightarrow> calc \<Rightarrow> mid \<Rightarrow> mconf \<Rightarrow> mconf option" where
  "mconf_string d calc m = rounds (mconf_string_round d calc m)"

section \<open>Loading and saving\<close>

definition mconf_load_round :: "os \<Rightarrow> calc \<Rightarrow> mconf \<Rightarrow> (bool \<times> mconf) option" where
  "mconf_load_round w calc s = do {
     (res, s) \<leftarrow> input_dialog 11 55 (Some (mc_filename s)) s;
     case res of
       Pressed b \<Rightarrow>
         if b = 0 then
           (if input_text s = [] then Some (True, s)
            else do {
              (ok, s) \<leftarrow> with_messages (conf_read w calc (Some (input_text s))) s;
              if ok then do {
                s \<leftarrow> set_config_filename (input_text s) s;
                Some (True, on_mc (conf_set_changed True) s)
              }
              else do { s \<leftarrow> show_textbox ''File does not exist!'' 5 38 s; Some (False, s) }
            })
         else do { s \<leftarrow> show_helptext load_config_help s; Some (False, s) }
     | Escaped \<Rightarrow> Some (True, s)
     | Too_small \<Rightarrow> Some (False, s)
   }"

definition mconf_load :: "os \<Rightarrow> calc \<Rightarrow> mconf \<Rightarrow> mconf option" where
  "mconf_load w calc = rounds (mconf_load_round w calc)"

definition mconf_save_round :: "os \<Rightarrow> nat \<Rightarrow> calc \<Rightarrow> mconf \<Rightarrow> (bool \<times> mconf) option" where
  "mconf_save_round w d calc s = do {
     (res, s) \<leftarrow> input_dialog 11 55 (Some (mc_filename s)) s;
     case res of
       Pressed b \<Rightarrow>
         if b = 0 then
           (if input_text s = [] then Some (True, s)
            else do {
              (r, s) \<leftarrow> with_messages (conf_write w d calc (Some (input_text s))) s;
              if r = 0 then do { s \<leftarrow> set_config_filename (input_text s) s; Some (True, s) }
              else do { s \<leftarrow> show_textbox (''Can'' @ CHR 0x27 # ''t create file!'') 5 60 s; Some (False, s) }
            })
         else do { s \<leftarrow> show_helptext save_config_help s; Some (False, s) }
     | Escaped \<Rightarrow> Some (True, s)
     | Too_small \<Rightarrow> Some (False, s)
   }"

definition mconf_save :: "os \<Rightarrow> nat \<Rightarrow> calc \<Rightarrow> mconf \<Rightarrow> mconf option" where
  "mconf_save w d calc = rounds (mconf_save_round w d calc)"

section \<open>Searching\<close>

text \<open>\<open>sym_rel_comp\<close> on a symbol's name and where it was matched.\<close>

definition sym_rel_comp :: "string \<times> nat \<times> nat \<Rightarrow> string \<times> nat \<times> nat \<Rightarrow> int" where
  "sym_rel_comp = (\<lambda>(n1, so1, eo1) (n2, so2, eo2).
     let exact1 = (eo1 - so1 = length n1); exact2 = (eo2 - so2 = length n2) in
     if exact1 \<and> \<not> exact2 then -1 else if \<not> exact1 \<and> exact2 then 1 else strcmp n1 n2)"

type_synonym sym_match = "sid \<times> string \<times> nat \<times> nat"

text \<open>\<open>qsort\<close>, as a sort by insertion.\<close>

fun insert_match :: "sym_match \<Rightarrow> sym_match list \<Rightarrow> sym_match list" where
  "insert_match x [] = [x]"
| "insert_match x (y # ys) = (if sym_rel_comp (snd x) (snd y) \<le> 0 then x # y # ys else y # insert_match x ys)"

definition sort_matches :: "sym_match list \<Rightarrow> sym_match list" where
  "sort_matches xs = foldr insert_match xs []"

fun match_symbols :: "calc \<Rightarrow> (string \<Rightarrow> (nat \<times> nat) option) \<Rightarrow> sid list \<Rightarrow> kstate \<Rightarrow> (sym_match list \<times> kstate) option" where
  "match_symbols calc re [] k = Some ([], k)"
| "match_symbols calc re (a # as) k =
     (case (if SYMBOL_CONST \<in> s_flags (syms k a) then None else s_name (syms k a)) of
        None \<Rightarrow> match_symbols calc re as k
      | Some nm \<Rightarrow>
          (case re nm of
             None \<Rightarrow> match_symbols calc re as k
           | Some (so, eo) \<Rightarrow> do {
               k \<leftarrow> calc a k;
               (ms, k) \<leftarrow> match_symbols calc re as k;
               Some ((a, nm, so, eo) # ms, k)
             }))"

definition sym_re_search :: "(string \<Rightarrow> (string \<Rightarrow> (nat \<times> nat) option) option) \<Rightarrow> calc \<Rightarrow> string \<Rightarrow> kstate \<Rightarrow> (sid list \<times> kstate) option" where
  "sym_re_search rx calc pattern k =
     (if pattern = [] then Some ([], k)
      else (case rx pattern of
              None \<Rightarrow> Some ([], k)
            | Some re \<Rightarrow> do {
                (ms, k) \<leftarrow> match_symbols calc re (sym_table k) k;
                Some (map fst (sort_matches ms), k)
              }))"

text \<open>The question for the pattern: true with a pattern in the input.\<close>

definition search_question :: "bool \<times> mconf \<Rightarrow> (bool \<times> bool \<times> mconf) option" where
  "search_question = (\<lambda>(_, s). do {
     (res, s) \<leftarrow> input_dialog 10 75 (Some []) s;
     case res of
       Pressed b \<Rightarrow> if b = 0 then Some (True, True, s) else do { s \<leftarrow> show_helptext search_help s; Some (False, False, s) }
     | _ \<Rightarrow> Some (True, False, s)
   })"

definition strip_prefix_nocase :: "string \<Rightarrow> string \<Rightarrow> string" where
  "strip_prefix_nocase pre t =
     (if map tolower (take (length pre) t) = map tolower pre then drop (length pre) t else t)"

text \<open>A round of the results, with the scrolling of the text; a jump opens the menu with \<open>open\<close>.\<close>

definition search_round ::
  "(mid \<Rightarrow> mid option \<Rightarrow> mconf \<Rightarrow> mconf option) \<Rightarrow> nat \<Rightarrow> calc \<Rightarrow> sid list \<Rightarrow> (nat \<times> int) option \<times> mconf
   \<Rightarrow> (bool \<times> (nat \<times> int) option \<times> mconf) option" where
  "search_round open_menu d calc sym_arr = (\<lambda>(scrolled, s). do {
     ((res, head), s) \<leftarrow> run_mk (get_relations_str jump_chars d calc sym_arr (Some [])) s;
     (dres, target, scrolled, s) \<leftarrow>
       show_textbox_ext (handle_search_keys (case_option [] id head)) (str_get res) 0 0 scrolled (set_subtitle s);
     case dres of
       Pressed c \<Rightarrow>
         if 49 \<le> c \<and> c \<le> 57 then do {
           t \<leftarrow> target;
           p \<leftarrow> m_parent (menus (mk s) t);
           s \<leftarrow> open_menu p (Some t) s;
           Some (False, scrolled, s)
         }
         else Some (True, scrolled, s)
     | _ \<Rightarrow> Some (True, scrolled, s)
   })"

definition search_conf ::
  "(mid \<Rightarrow> mid option \<Rightarrow> mconf \<Rightarrow> mconf option) \<Rightarrow> (string \<Rightarrow> (string \<Rightarrow> (nat \<times> nat) option) option) \<Rightarrow> nat \<Rightarrow> calc
   \<Rightarrow> mconf \<Rightarrow> mconf option" where
  "search_conf open_menu rx d calc s = do {
     (found, s) \<leftarrow> rounds search_question (False, s);
     if \<not> found then Some s
     else do {
       let input = input_text s;
       let s = s\<lparr>trail := trail s @ [Some (''Search ('' @ input @ '')'')]\<rparr>;
       (sym_arr, s) \<leftarrow> run_mk (sym_re_search rx calc (strip_prefix_nocase (CONFIG_prefix (environ (mc s))) input)) s;
       (_, s) \<leftarrow> rounds (search_round open_menu d calc sym_arr) (Some (0, 0), s);
       Some (s\<lparr>trail := butlast (trail s)\<rparr>)
     }
   }"

section \<open>The loop of a menu\<close>

definition set_tristate :: "calc \<Rightarrow> sid option \<Rightarrow> tristate \<Rightarrow> mconf \<Rightarrow> (bool \<times> mconf) option" where
  "set_tristate calc osym v s = Option.bind osym (\<lambda>a. run_mk (sym_set_tristate_value calc a v) s)"

text \<open>What the codes of \<open>dialog_menu\<close> do with the current item, its entry and its symbol.\<close>

definition enter_item :: "(mid \<Rightarrow> mid option \<Rightarrow> mconf \<Rightarrow> mconf option) \<Rightarrow> nat \<Rightarrow> calc \<Rightarrow> char \<Rightarrow> mid option \<Rightarrow> mconf \<Rightarrow> mconf option" where
  "enter_item open_menu d calc tag submenu s =
     (if tag = CHR ''m'' then do {
        i \<leftarrow> submenu;
        if single_menu_mode s then Some (s\<lparr>unrolled := (unrolled s)(i := \<not> unrolled s i)\<rparr>)
        else open_menu i None s
      }
      else if tag = CHR ''t'' then do {
        i \<leftarrow> submenu;
        a \<leftarrow> m_sym (menus (mk s) i);
        if sym_is_choice (syms (mk s) a) then mconf_choice d calc i s
        else do {
          p \<leftarrow> m_prompt (menus (mk s) i);
          if p_type (props (mk s) p) = P_MENU then open_menu i None s else Some s
        }
      }
      else if tag = CHR ''s'' then do { i \<leftarrow> submenu; mconf_string d calc i s }
      else Some s)"

definition press_yes :: "calc \<Rightarrow> sid option \<Rightarrow> mconf \<Rightarrow> mconf option" where
  "press_yes calc osym s = do {
     (ok, s) \<leftarrow> set_tristate calc osym tri_yes s;
     if ok then Some s
     else do {
       (ok, s) \<leftarrow> set_tristate calc osym tri_mod s;
       if ok then show_textbox setmod_text 6 74 s else Some s
     }
   }"

definition press_space :: "(mid \<Rightarrow> mid option \<Rightarrow> mconf \<Rightarrow> mconf option) \<Rightarrow> calc \<Rightarrow> char \<Rightarrow> mid option \<Rightarrow> sid option \<Rightarrow> mconf \<Rightarrow> mconf option" where
  "press_space open_menu calc tag submenu osym s =
     (if tag = CHR ''t'' then do {
        a \<leftarrow> osym;
        (_, s) \<leftarrow> run_mk (sym_toggle_tristate_value calc a) s;
        Some s
      }
      else if tag = CHR ''m'' then do { i \<leftarrow> submenu; open_menu i None s }
      else Some s)"

definition menu_action ::
  "(mid \<Rightarrow> mid option \<Rightarrow> mconf \<Rightarrow> mconf option) \<Rightarrow> os \<Rightarrow> (string \<Rightarrow> (string \<Rightarrow> (nat \<times> nat) option) option) \<Rightarrow> nat \<Rightarrow> calc
   \<Rightarrow> nat \<Rightarrow> char \<Rightarrow> mid option \<Rightarrow> mconf \<Rightarrow> mconf option" where
  "menu_action open_menu w rx d calc res tag submenu s =
     (let osym = Option.bind submenu (\<lambda>i. m_sym (menus (mk s) i)) in
      if res = 0 then enter_item open_menu d calc tag submenu s
      else if res = 2 then
        (if osym \<noteq> None then Option.bind submenu (\<lambda>i. show_help d calc i s) else show_helptext mconf_readme (reset_subtitle s))
      else if res = 3 then mconf_save w d calc (reset_subtitle s)
      else if res = 4 then mconf_load w calc (reset_subtitle s)
      else if res = 5 then (if tag = CHR ''t'' then press_yes calc osym s else Some s)
      else if res = 6 then (if tag = CHR ''t'' then map_option snd (set_tristate calc osym tri_no s) else Some s)
      else if res = 7 then (if tag = CHR ''t'' then map_option snd (set_tristate calc osym tri_mod s) else Some s)
      else if res = 8 then press_space open_menu calc tag submenu osym s
      else if res = 9 then search_conf open_menu rx d calc s
      else if res = 10 then Some (s\<lparr>show_all_options := \<not> show_all_options s\<rparr>)
      else Some s)"

text \<open>A round, with \<open>active_menu\<close> and \<open>s_scroll\<close>.\<close>

definition mconf_round ::
  "(mid \<Rightarrow> mid option \<Rightarrow> mconf \<Rightarrow> mconf option) \<Rightarrow> os \<Rightarrow> (string \<Rightarrow> (string \<Rightarrow> (nat \<times> nat) option) option) \<Rightarrow> nat \<Rightarrow> calc
   \<Rightarrow> mid \<Rightarrow> mid option \<times> int \<times> mconf \<Rightarrow> (bool \<times> mid option \<times> int \<times> mconf) option" where
  "mconf_round open_menu w rx d calc m = (\<lambda>(active, s_scroll, s). do {
     s \<leftarrow> build_conf d d calc m (s\<lparr>items := item_reset (items s), mc_menu := m\<rparr>);
     if child_count s = 0 then Some (True, active, s_scroll, s)
     else do {
       let s = set_subtitle s;
       (res, s_scroll, l, t) \<leftarrow> dialog_menu active s_scroll (items s) (scr s);
       let s = s\<lparr>scr := t\<rparr>;
       case res of
         Pressed b \<Rightarrow>
           if b = 1 then Some (True, active, s_scroll, s\<lparr>items := l\<rparr>)
           else do {
             let (selected, l) = (if item_count l \<noteq> 0 then item_activate_selected l else (True, l));
             let s = s\<lparr>items := l\<rparr>;
             if \<not> selected then Some (False, active, s_scroll, s)
             else do {
               tag \<leftarrow> item_tag l;
               if item_count l \<noteq> 0 \<and> tag = CHR 0x00 then Some (False, active, s_scroll, s)
               else do {
                 submenu \<leftarrow> item_data l;
                 s \<leftarrow> menu_action open_menu w rx d calc b tag submenu s;
                 Some (False, submenu, s_scroll, s)
               }
             }
           }
       | _ \<Rightarrow> Some (True, active, s_scroll, s\<lparr>items := l\<rparr>)
     }
   })"

definition mconf_step ::
  "(mid \<Rightarrow> mid option \<Rightarrow> mconf \<Rightarrow> mconf option) \<Rightarrow> os \<Rightarrow> (string \<Rightarrow> (string \<Rightarrow> (nat \<times> nat) option) option) \<Rightarrow> nat \<Rightarrow> calc
   \<Rightarrow> mid \<Rightarrow> mid option \<Rightarrow> mconf \<Rightarrow> mconf option" where
  "mconf_step open_menu w rx d calc m active s = do {
     let part = (if m \<noteq> rootmenu then menu_get_prompt (mk s) m else None);
     (_, _, s) \<leftarrow> rounds (mconf_round open_menu w rx d calc m) (active, 0, s\<lparr>trail := trail s @ [part]\<rparr>);
     Some (s\<lparr>trail := butlast (trail s)\<rparr>)
   }"

fun mconf_menu :: "nat \<Rightarrow> os \<Rightarrow> (string \<Rightarrow> (string \<Rightarrow> (nat \<times> nat) option) option) \<Rightarrow> nat \<Rightarrow> calc \<Rightarrow> mid \<Rightarrow> mid option \<Rightarrow> mconf \<Rightarrow> mconf option" where
  "mconf_menu 0 w rx d calc m active s = None"
| "mconf_menu (Suc n) w rx d calc m active s = mconf_step (mconf_menu n w rx d calc) w rx d calc m active s"

section \<open>The program\<close>

definition mc_print :: "string \<Rightarrow> mconf \<Rightarrow> mconf" where
  "mc_print t = on_mc (\<lambda>c. c\<lparr>conf_stdout := conf_stdout c @ t\<rparr>)"

definition end_message :: string where
  "end_message = ''\<newline>\<newline>*** End of the configuration.\<newline>*** Execute '' @ CHR 0x27 # ''make'' @ CHR 0x27 # '' to start the build or try ''
     @ CHR 0x27 # ''make help'' @ CHR 0x27 # ''.\<newline>\<newline>''"

definition write_error_message :: string where
  "write_error_message = ''\<newline>\<newline>Error while writing of the configuration.\<newline>Your configuration changes were NOT saved.\<newline>\<newline>''"

definition not_saved_message :: string where
  "not_saved_message = ''\<newline>\<newline>Your configuration changes were NOT saved.\<newline>\<newline>''"

text \<open>\<open>handle_exit\<close>: \<open>None\<close> inside for the result \<open>KEY_ESC\<close>.\<close>

definition exit_ready :: "mconf \<Rightarrow> int option \<times> mconf" where
  "exit_ready s = (Some 0, if mc_silent s then s else mc_print end_message s)"

definition handle_exit :: "os \<Rightarrow> nat \<Rightarrow> calc \<Rightarrow> mconf \<Rightarrow> (int option \<times> mconf) option" where
  "handle_exit w d calc s = do {
     let s = reset_subtitle (s\<lparr>save_and_exit := True\<rparr>);
     (res, s) \<leftarrow> (if conf_get_changed (mc s)
         then map_option (\<lambda>(r, t). (Some r, s\<lparr>scr := t\<rparr>)) (dialog_yesno 6 60 (scr s))
         else Some (None, s));
     case res of
       None \<Rightarrow> Some (exit_ready s)
     | Some r \<Rightarrow>
         if r = Pressed 0 then do {
           (r, s) \<leftarrow> with_messages (conf_write w d calc (Some (mc_filename s))) s;
           if r \<noteq> 0 then Some (Some 1, on_mc (eprint write_error_message) s)
           else do {
             (_, s) \<leftarrow> with_messages (conf_write_autoconf w calc False) s;
             Some (exit_ready s)
           }
         }
         else
           let s = (if mc_silent s then s else on_mc (eprint not_saved_message) s)
           in Some (if r = Escaped then None else Some 0, s)
   }"

definition mconf_usage :: "string \<Rightarrow> mconf \<Rightarrow> mconf" where
  "mconf_usage progname = mc_print (
     ''Usage: '' @ progname @ '' [options] <kconfig-file>\<newline>\<newline>Generic options:\<newline>''
     @ ''  -h, --help              Print this message and exit.\<newline>''
     @ ''  -s, --silent            Do not print log.\<newline>\<newline>Path options:\<newline>''
     @ ''  --configpath            Specify the config path, default is '' @ in_apostrophes ''.config'' @ ''\<newline>''
     @ ''  --autoconfigpath        Specify the auto config path, default is '' @ in_apostrophes ''include/config/auto.conf'' @ ''\<newline>''
     @ ''  --autoheaderpath        Specify the auto header path, default is '' @ in_apostrophes ''include/generated/autoconf.h'' @ ''\<newline>''
     @ ''  --rustccfgpath          Specify the rustc config path, default is '' @ in_apostrophes ''include/generated/rustc_cfg'' @ ''\<newline>'')"

text \<open>
  The options \<open>getopt_long\<close> finds; \<open>rustccfgpath\<close> has no case of its own. False for leaving with
  the status 1.
\<close>

definition mconf_set_path :: "input_mode \<Rightarrow> string option \<Rightarrow> conf_state \<Rightarrow> conf_state" where
  "mconf_set_path mode optarg =
     (case mode of
        configpath \<Rightarrow> set_configpath optarg
      | autoconfigpath \<Rightarrow> set_autoconfigpath optarg
      | autoheaderpath \<Rightarrow> set_autoheaderpath optarg
      | _ \<Rightarrow> id)"

fun mconf_options :: "string \<Rightarrow> opt list \<Rightarrow> mconf \<Rightarrow> bool \<times> mconf" where
  "mconf_options progname [] s = (True, s)"
| "mconf_options progname (Opt_help # os) s = (False, mconf_usage progname s)"
| "mconf_options progname (Opt_silent # os) s =
     mconf_options progname os (on_mc (conf_set_message_callback Msg_none) (s\<lparr>mc_silent := True\<rparr>))"
| "mconf_options progname (Opt_unknown # os) s = mconf_options progname os s"
| "mconf_options progname (Opt_long mode optarg # os) s = mconf_options progname os (on_mc (mconf_set_path mode optarg) s)"

text \<open>\<open>init_dialog\<close>: the size of the screen.\<close>

definition init_dialog :: "screen \<Rightarrow> bool" where
  "init_dialog t \<longleftrightarrow> scr_rows t \<ge> 19 \<and> scr_cols t \<ge> 80"

definition exit_round ::
  "nat \<Rightarrow> os \<Rightarrow> (string \<Rightarrow> (string \<Rightarrow> (nat \<times> nat) option) option) \<Rightarrow> nat \<Rightarrow> calc \<Rightarrow> int \<times> mconf \<Rightarrow> (bool \<times> int \<times> mconf) option" where
  "exit_round n w rx d calc = (\<lambda>(_, s). do {
     s \<leftarrow> mconf_menu n w rx d calc rootmenu None s;
     (res, s) \<leftarrow> handle_exit w d calc s;
     Some (case res of Some r \<Rightarrow> (True, r, s) | None \<Rightarrow> (False, 0, s))
   })"

definition small_message :: string where
  "small_message = ''Your display is too small to run Menuconfig!\<newline>It must be at least 19 lines by 80 columns.\<newline>''"

definition mconf_main ::
  "os \<Rightarrow> (string \<Rightarrow> (string \<Rightarrow> (nat \<times> nat) option) option) \<Rightarrow> (string \<Rightarrow> conf_state \<Rightarrow> bool \<times> conf_state) \<Rightarrow> nat \<Rightarrow> nat \<Rightarrow> calc
   \<Rightarrow> string \<Rightarrow> opt list \<Rightarrow> string list \<Rightarrow> mconf \<Rightarrow> (int \<times> mconf) option" where
  "mconf_main w rx parse n d calc progname opts args s =
     (case mconf_options progname opts s of
        (False, s) \<Rightarrow> Some (1, s)
      | (True, s) \<Rightarrow>
          (case args of
             [] \<Rightarrow> Some (1, mconf_usage progname (on_mc (eprint (progname @ '': Kconfig file missing\<newline>'')) s))
           | kconfig # _ \<Rightarrow>
               (case parse kconfig (mc s) of
                  (False, c) \<Rightarrow> Some (1, s\<lparr>mc := c\<rparr>)
                | (True, c) \<Rightarrow> do {
                    (_, s) \<leftarrow> on_mc_value (conf_read w calc None) (s\<lparr>mc := c\<rparr>);
                    let s = (case environ (mc s) ''MENUCONFIG_MODE'' of
                        None \<Rightarrow> s
                      | Some mode \<Rightarrow> if map tolower mode = ''single_menu'' then s\<lparr>single_menu_mode := True\<rparr> else s);
                    if \<not> init_dialog (scr s) then Some (1, on_mc (eprint small_message) s)
                    else do {
                      s \<leftarrow> set_config_filename (conf_get_configname (mc s)) s;
                      rounds (exit_round n w rx d calc) (0, on_mc (conf_set_message_callback Msg_callback) s)
                    }
                  })))"

end
