(* ===== verification/MenuRun.thy ===== *)
theory MenuRun
  imports MenuConf AskRun "HOL-Library.Sublist"
begin

text \<open>
  Menuconfig at work: what \<open>build_conf\<close> lists, in what order and how it counts, and what a session
  of menus keeps. The lemmas on the list of items stand in the context of an evaluation that is
  known to keep the structure of the configuration.
\<close>

section \<open>Items made and counted\<close>

definition item_list_ok :: "item_list \<Rightarrow> bool" where
  "item_list_ok l \<longleftrightarrow> item_cur l = (case length (item_head l) of 0 \<Rightarrow> Item_nil | Suc i \<Rightarrow> Item i)"

definition only_ks :: "conf_state \<Rightarrow> conf_state \<Rightarrow> bool" where
  "only_ks c c' \<longleftrightarrow> c' = c\<lparr>ks := ks c'\<rparr>"

lemma only_ks_refl [simp]: "only_ks c c"
  by (simp add: only_ks_def)

lemma only_ks_trans: "only_ks c d \<Longrightarrow> only_ks d e \<Longrightarrow> only_ks c e"
  by (cases c; cases d; cases e) (simp add: only_ks_def)

lemma only_ks_upd [simp]: "only_ks c (c\<lparr>ks := k\<rparr>)"
  by (simp add: only_ks_def)

text \<open>\<open>framed c s s'\<close>: between the states only values of symbols changed, and \<open>c\<close> children were counted.\<close>

definition framed :: "int \<Rightarrow> mconf \<Rightarrow> mconf \<Rightarrow> bool" where
  "framed c s s' \<longleftrightarrow> only_ks (mc s) (mc s') \<and> s' = s\<lparr>mc := mc s', child_count := child_count s + c\<rparr>"

text \<open>An item of the entry \<open>m\<close>, which must have a prompt; it is not selected yet.\<close>

definition item_form :: "kstate \<Rightarrow> mid \<Rightarrow> dialog_item \<Rightarrow> bool" where
  "item_form k m p \<longleftrightarrow> i_data p = Some m \<and> m_prompt (menus k m) \<noteq> None \<and> i_tag p \<in> set ''mts:'' \<and> length (i_str p) < 200
     \<and> \<not> i_selected p"

text \<open>The title of an opened symbol is the one item that is not counted.\<close>

definition counted :: "kstate \<Rightarrow> mid \<Rightarrow> mid \<Rightarrow> bool" where
  "counted k cur m \<longleftrightarrow> m \<noteq> cur \<or> (\<exists>a. m_sym (menus k m) = Some a \<and> sym_is_choice (syms k a))"

text \<open>\<open>listed k ms s s'\<close>: the items of the entries \<open>ms\<close> were put behind those of \<open>s\<close>.\<close>

definition listed :: "kstate \<Rightarrow> mid list \<Rightarrow> mconf \<Rightarrow> mconf \<Rightarrow> bool" where
  "listed k ms s s' \<longleftrightarrow>
     only_ks (mc s) (mc s') \<and> s' = s\<lparr>mc := mc s', child_count := child_count s + int (length (filter (counted k (mc_menu s)) ms)), items := items s'\<rparr>
     \<and> (\<exists>new. items s' = (items s)\<lparr>item_head := item_head (items s) @ new, item_cur := item_cur (items s')\<rparr>
          \<and> list_all2 (item_form k) ms new)
     \<and> item_list_ok (items s')"

lemma listed_Nil: "item_list_ok (items s) \<Longrightarrow> framed 0 s s' \<Longrightarrow> listed k [] s s'"
  by (cases s; cases s') (simp add: listed_def framed_def item_list_ok_def)

lemma items_trans:
  "l' = l\<lparr>item_head := item_head l @ new, item_cur := item_cur l'\<rparr> \<Longrightarrow> l'' = l'\<lparr>item_head := item_head l' @ ns, item_cur := item_cur l''\<rparr>
   \<Longrightarrow> l'' = l\<lparr>item_head := item_head l @ new @ ns, item_cur := item_cur l''\<rparr>"
  by (cases l; cases l'; cases l'') simp

lemma listed_trans:
  assumes "listed k ms s t" "listed k ms' t u"
  shows "listed k (ms @ ms') s u"
proof -
  obtain new ns where n: "items t = (items s)\<lparr>item_head := item_head (items s) @ new, item_cur := item_cur (items t)\<rparr>"
      "list_all2 (item_form k) ms new"
    and m: "items u = (items t)\<lparr>item_head := item_head (items t) @ ns, item_cur := item_cur (items u)\<rparr>"
      "list_all2 (item_form k) ms' ns"
    using assms unfolding listed_def by blast
  note items_trans [OF n(1) m(1)] list_all2_appendI [OF n(2) m(2)]
  moreover have "only_ks (mc s) (mc u) \<and> u = s\<lparr>mc := mc u,
      child_count := child_count s + int (length (filter (counted k (mc_menu s)) (ms @ ms'))), items := items u\<rparr>"
    using assms by (cases s; cases t; cases u) (auto simp: listed_def intro: only_ks_trans)
  ultimately show ?thesis using assms(2) unfolding listed_def by blast
qed

lemma listed_ok: "listed k ms s s' \<Longrightarrow> item_list_ok (items s')"
  by (simp add: listed_def)

lemma listed_session:
  assumes "listed k ms s s'"
  shows "\<exists>new. list_all2 (item_form k) ms new
    \<and> s' = s\<lparr>mc := (mc s)\<lparr>ks := mk s'\<rparr>, child_count := child_count s + int (length (filter (counted k (mc_menu s)) ms)),
            items := (items s)\<lparr>item_head := item_head (items s) @ new, item_cur := item_cur (items s')\<rparr>\<rparr>"
proof -
  obtain new where n: "items s' = (items s)\<lparr>item_head := item_head (items s) @ new, item_cur := item_cur (items s')\<rparr>"
    "list_all2 (item_form k) ms new" using assms unfolding listed_def by blast
  have "s' = s\<lparr>mc := (mc s)\<lparr>ks := mk s'\<rparr>, child_count := child_count s + int (length (filter (counted k (mc_menu s)) ms)), items := items s'\<rparr>"
    using assms by (simp add: listed_def only_ks_def)
  with n show ?thesis by metis
qed

lemma listed_frame: "framed 0 s t \<Longrightarrow> listed k ms t u \<Longrightarrow> listed k ms s u"
  by (cases s; cases t; cases u) (auto simp: listed_def framed_def intro: only_ks_trans)

lemma framed_items [simp]: "framed c s t \<Longrightarrow> items t = items s"
  by (cases s; cases t) (simp add: framed_def)

lemma framed_trans: "framed c s t \<Longrightarrow> framed d t u \<Longrightarrow> framed (c + d) s u"
  by (cases s; cases t; cases u) (auto simp: framed_def intro: only_ks_trans)

lemma framed_refl [simp]: "framed 0 s s"
  by (cases s) (simp add: framed_def)

lemma framed_count [simp]: "framed 1 s (count_child s)"
  by (cases s) (simp add: framed_def count_child_def)

lemma count_child_mk [simp]: "mk (count_child s) = mk s" "mc_menu (count_child s) = mc_menu s" "items (count_child s) = items s"
  "single_menu_mode (count_child s) = single_menu_mode s" "unrolled (count_child s) = unrolled s"
  by (simp_all add: count_child_def)

text \<open>\<open>making k m c s s'\<close>: one item of \<open>m\<close> is made, and \<open>c\<close> children were counted.\<close>

definition making :: "kstate \<Rightarrow> mid \<Rightarrow> int \<Rightarrow> mconf \<Rightarrow> mconf \<Rightarrow> bool" where
  "making k m c s s' \<longleftrightarrow>
     only_ks (mc s) (mc s') \<and> s' = s\<lparr>mc := mc s', child_count := child_count s + c, items := items s'\<rparr>
     \<and> (\<exists>p. items s' = (items s)\<lparr>item_head := item_head (items s) @ [p], item_cur := Item (length (item_head (items s)))\<rparr> \<and> item_form k m p)"

lemma making_listed:
  "making k m c s s' \<Longrightarrow> c = (if counted k (mc_menu s) m then 1 else 0) \<Longrightarrow> listed k [m] s s'"
  by (auto simp: making_def listed_def item_list_ok_def)

lemma add_item_making:
  assumes "framed c s t" "item_list_ok (items s)" "m_prompt (menus k m) \<noteq> None" "tag \<in> set ''mts:''"
  shows "\<exists>u. add_item x tag m t = Some u \<and> making k m c s u \<and> mk u = mk t"
proof -
  have i: "items t = items s" using assms(1) by simp
  define l where "l = items s"
  define p where "p = \<lparr>i_str = take 199 x, i_tag = tag, i_data = Some m, i_selected = False\<rparr>"
  have "item_make x l = Some (l\<lparr>item_head := item_head l @ [p\<lparr>i_tag := CHR 0x00, i_data := None\<rparr>], item_cur := Item (length (item_head l))\<rparr>)"
    using assms(2) by (cases "length (item_head l)") (auto simp: item_make_def item_list_ok_def l_def p_def blank_item_def Let_def)
  then have "add_item x tag m t = Some (t\<lparr>items := l\<lparr>item_head := item_head l @ [p], item_cur := Item (length (item_head l))\<rparr>\<rparr>)"
    by (simp add: add_item_def on_items_def i l_def item_set_tag_def item_set_data_def item_upd_def p_def)
  moreover have "item_form k m p" using assms(3,4) by (simp add: item_form_def p_def)
  moreover have "only_ks (mc s) (mc t) \<and> t = s\<lparr>mc := mc t, child_count := child_count s + c\<rparr>" using assms(1) by (simp add: framed_def)
  ultimately show ?thesis by (cases s; cases t) (auto simp: making_def l_def)
qed

lemma add_str_making:
  assumes "making k m c s t"
  shows "\<exists>u. on_items (item_add_str x) t = Some u \<and> making k m c s u \<and> mk u = mk t"
proof -
  from assms obtain p where p: "items t = (items s)\<lparr>item_head := item_head (items s) @ [p], item_cur := Item (length (item_head (items s)))\<rparr>"
    "item_form k m p" by (auto simp: making_def)
  let ?q = "p\<lparr>i_str := take 199 (i_str p @ x)\<rparr>"
  have "on_items (item_add_str x) t = Some (t\<lparr>items := (items s)\<lparr>item_head := item_head (items s) @ [?q], item_cur := Item (length (item_head (items s)))\<rparr>\<rparr>)"
    by (simp add: on_items_def item_add_str_def item_upd_def p(1))
  moreover have "item_form k m ?q" using p(2) by (auto simp: item_form_def)
  moreover have "only_ks (mc s) (mc t) \<and> t = s\<lparr>mc := mc t, child_count := child_count s + c, items := items t\<rparr>"
    using assms by (simp add: making_def)
  ultimately show ?thesis by (cases s; cases t) (auto simp: making_def)
qed

text \<open>A computation on the symbols, seen from the session.\<close>

lemma returns_run_mk:
  "returns T (g (mk s)) (\<lambda>(v, k). P v k) \<Longrightarrow>
   returns T (run_mk g s) (\<lambda>(v, s'). P v (mk s') \<and>  only_ks (mc s) (mc s') \<and> s' = s\<lparr>mc := mc s'\<rparr>)"
  by (auto simp: run_mk_def returns_def split: option.splits)

lemma mk_framed: "only_ks (mc s) (mc t) \<Longrightarrow> t = s\<lparr>mc := mc t\<rparr> \<Longrightarrow> framed c r s \<Longrightarrow> framed c r t"
  by (cases r; cases s; cases t) (auto simp: framed_def intro: only_ks_trans)

lemma mk_making: "only_ks (mc s) (mc t) \<Longrightarrow> t = s\<lparr>mc := mc t\<rparr> \<Longrightarrow> making k m c r s \<Longrightarrow> making k m c r t"
  by (cases r; cases s; cases t) (auto simp: making_def intro: only_ks_trans)

lemma returns_total: "m = Some r \<Longrightarrow> Q r \<Longrightarrow> returns T m Q"
  by simp

section \<open>What \<open>build_conf\<close> lists\<close>

text \<open>
  The list, without the state it is made in. An entry has an item of its own unless it is the
  current menu or has no text; what is below an entry is listed with it, except below a choice,
  another menu that is not unrolled, and a symbol with a menu.
\<close>

definition own_items :: "kstate \<Rightarrow> mconf \<Rightarrow> mid \<Rightarrow> mid list" where
  "own_items k f m =
     (if m_sym (menus k m) \<noteq> None then [m]
      else if m = mc_menu f then []
      else (case m_prompt (menus k m) of
              None \<Rightarrow> []
            | Some p \<Rightarrow> if p_type (props k p) = P_MENU \<or> p_text (props k p) \<noteq> None then [m] else []))"

definition opened :: "kstate \<Rightarrow> mconf \<Rightarrow> mid \<Rightarrow> bool" where
  "opened k f m \<longleftrightarrow>
     (let is_menu = (case m_prompt (menus k m) of None \<Rightarrow> False | Some p \<Rightarrow> p_type (props k p) = P_MENU)
      in case m_sym (menus k m) of
           None \<Rightarrow> m = mc_menu f \<or> \<not> is_menu \<or> single_menu_mode f \<and> unrolled f m
         | Some a \<Rightarrow> \<not> sym_is_choice (syms k a)
             \<and> (m = mc_menu f \<or> \<not> is_menu \<or> s_type (syms k a) \<notin> {S_BOOLEAN, S_TRISTATE}))"

text \<open>
  What is evaluated for the text of an item: whether a menu is empty, and the member of a choice
  that is chosen and visible.
\<close>

definition looked :: "nat \<Rightarrow> calc \<Rightarrow> mconf \<Rightarrow> mid \<Rightarrow> kstate \<Rightarrow> kstate option" where
  "looked d calc f m k =
     (let is_menu = (case m_prompt (menus k m) of None \<Rightarrow> False | Some p \<Rightarrow> p_type (props k p) = P_MENU);
          empty = map_option snd (menu_is_empty d calc m k)
      in case m_sym (menus k m) of
           None \<Rightarrow> if is_menu \<and> m \<noteq> mc_menu f \<and> \<not> single_menu_mode f then empty else Some k
         | Some a \<Rightarrow>
             if sym_is_choice (syms k a) then
               Option.bind (sym_calc_choice calc m k) (\<lambda>(c, k).
                 map_option snd (last_visible (menu_is_visible d calc) c (m_list (menus k m)) None k))
             else if is_menu \<and> m \<noteq> mc_menu f \<and> s_type (syms k a) \<in> {S_BOOLEAN, S_TRISTATE} then empty
             else Some k)"

text \<open>
  The list for a tree, with the modes of \<open>f\<close>, from a state of the symbols, and the state after it:
  each entry is looked at in the state that the entries in front of it have left. It is shown if
  \<open>menu_is_visible\<close> says so there, or, when all options are shown, if it has a prompt.
\<close>

fun listing :: "nat \<Rightarrow> calc \<Rightarrow> mconf \<Rightarrow> mtree \<Rightarrow> kstate \<Rightarrow> (mid list \<times> kstate) option"
  and listings :: "nat \<Rightarrow> calc \<Rightarrow> mconf \<Rightarrow> mtree list \<Rightarrow> kstate \<Rightarrow> (mid list \<times> kstate) option" where
  "listing d calc f (MNode m ts) k =
     Option.bind (menu_is_visible d calc m k) (\<lambda>(v, k).
       if \<not> (if show_all_options f then menu_has_prompt k m else v) then Some ([], k)
       else Option.bind (looked d calc f m k) (\<lambda>l.
         if opened k f m then map_option (apfst ((@) (own_items k f m))) (listings d calc f ts l)
         else Some (own_items k f m, l)))"
| "listings d calc f [] k = Some ([], k)"
| "listings d calc f (t # ts) k =
     Option.bind (listing d calc f t k) (\<lambda>(ms, k). map_option (apfst ((@) ms)) (listings d calc f ts k))"

lemma listing_cases:
  assumes "menu_is_visible d calc m k = Some (v, k1)"
  shows "\<not> (if show_all_options f then menu_has_prompt k1 m else v) \<Longrightarrow> listing d calc f (MNode m ts) k = Some ([], k1)"
    and "(if show_all_options f then menu_has_prompt k1 m else v) \<Longrightarrow> looked d calc f m k1 = Some l \<Longrightarrow> \<not> opened k1 f m
      \<Longrightarrow> listing d calc f (MNode m ts) k = Some (own_items k1 f m, l)"
    and "(if show_all_options f then menu_has_prompt k1 m else v) \<Longrightarrow> looked d calc f m k1 = Some l \<Longrightarrow> opened k1 f m
      \<Longrightarrow> listings d calc f ts l = Some (ms, k') \<Longrightarrow> listing d calc f (MNode m ts) k = Some (own_items k1 f m @ ms, k')"
  using assms by simp_all

lemma listings_Cons:
  "listing d calc f t k = Some (ms, l) \<Longrightarrow> listings d calc f ts l = Some (ms', k') \<Longrightarrow>
     listings d calc f (t # ts) k = Some (ms @ ms', k')"
  by simp

text \<open>The list follows the order of the tree, and every entry is in it at most once.\<close>

lemma own_items_subseq: "subseq (own_items k f m) [m]"
  by (simp add: own_items_def split: option.split)

lemma listing_subseq:
  "listing d calc f t k = Some (ms, k') \<Longrightarrow> subseq ms (preorder t)"
  "listings d calc f ts k = Some (ms, k') \<Longrightarrow> subseq ms (forest_preorder ts)"
proof (induction d calc f t k and d calc f ts k arbitrary: ms k' and ms k' rule: listing_listings.induct)
  case (1 d calc f m ts k)
  obtain v k1 where v: "menu_is_visible d calc m k = Some (v, k1)" using "1.prems" by (auto simp: bind_Some_iff)
  note own = own_items_subseq [of k1 f m]
  have closed: "subseq (own_items k1 f m) (m # forest_preorder ts)"
    using list_emb_append_mono [OF own, of "[]" "forest_preorder ts"] by simp
  have opened: "subseq (own_items k1 f m @ ns) (m # forest_preorder ts)" if "subseq ns (forest_preorder ts)" for ns
    using list_emb_append_mono [OF own that] by simp
  show ?case
    using "1.prems" v "1.IH" [OF v refl] closed opened
    by (auto simp: bind_Some_iff split: if_splits)
next
  case (3 d calc f t ts k)
  then obtain ns l ns' where l: "listing d calc f t k = Some (ns, l)" "listings d calc f ts l = Some (ns', k')" "ms = ns @ ns'"
    by (auto simp: bind_Some_iff)
  from list_emb_append_mono [OF "3.IH"(1) [OF l(1)] "3.IH"(2) [OF l(1) refl l(2)]] l(3) show ?case by simp
qed simp

text \<open>What \<open>build_entry\<close> evaluates.\<close>

lemma run_mk_Some: "run_mk g s = Some (v, s') \<Longrightarrow> g (mk s) = Some (v, mk s')"
  by (auto simp: run_mk_def)

lemma items_mk:
  "on_items g s = Some s' \<Longrightarrow> mk s' = mk s" "add_item x tag m s = Some s' \<Longrightarrow> mk s' = mk s"
  by (auto simp: on_items_def add_item_def)

lemma build_entry_looked:
  assumes "build_entry d calc m s = Some (i, s')"
  shows "looked d calc s m (mk s) = Some (mk s')"
proof (cases "m_sym (menus (mk s) m)")
  case None
  with assms show ?thesis
    by (auto simp: build_entry_def looked_def build_plain_def build_menu_item_def build_text_item_def Let_def bind_Some_iff
        dest!: run_mk_Some items_mk split: option.splits if_splits prop_type.splits)
next
  case (Some a)
  show ?thesis
  proof (cases "sym_is_choice (syms (mk s) a)")
    case True
    with Some assms show ?thesis
      by (auto simp: build_entry_def looked_def build_choice_def Let_def bind_Some_iff
          dest!: run_mk_Some items_mk split: option.splits)
  next
    case False
    with Some assms show ?thesis
      by (auto simp: build_entry_def looked_def build_symbol_def build_string_def Let_def bind_Some_iff sym_get_type_def
          dest!: run_mk_Some items_mk split: option.splits if_splits)
  qed
qed

lemma returns_fact: "returns T x Q \<Longrightarrow> returns T x (\<lambda>r. Q r \<and> x = Some r)"
  by (auto simp: returns_def split: option.splits)

definition same_modes :: "mconf \<Rightarrow> mconf \<Rightarrow> bool" where
  "same_modes f s \<longleftrightarrow> mc_menu s = mc_menu f \<and> single_menu_mode s = single_menu_mode f
     \<and> show_all_options s = show_all_options f \<and> unrolled s = unrolled f"

lemma same_modes_own: "same_modes f s \<Longrightarrow> own_items k s m = own_items k f m" "same_modes f s \<Longrightarrow> opened k s m = opened k f m"
  by (simp_all add: same_modes_def own_items_def opened_def cong: option.case_cong)

lemma same_modes_looked: "same_modes f s \<Longrightarrow> looked d calc s m k = looked d calc f m k"
  by (simp add: same_modes_def looked_def Let_def cong: option.case_cong if_cong)

lemma same_modes_listed: "same_modes f s \<Longrightarrow> listed k ms s s' \<Longrightarrow> same_modes f s'"
  by (cases s; cases s') (auto simp: same_modes_def listed_def)

lemma same_modes_indent [simp]: "same_modes f (s\<lparr>mc_indent := i\<rparr>) = same_modes f s"
  by (simp add: same_modes_def)

lemma listed_indent:
  "listed k ms (s\<lparr>mc_indent := mc_indent s + i\<rparr>) u \<Longrightarrow> listed k ms s (u\<lparr>mc_indent := mc_indent u - i\<rparr>)"
  by (cases s; cases u) (auto simp: listed_def)

context calc_runs
begin

text \<open>\<open>P\<close> holds of the session and the symbols are those of a run.\<close>

abbreviation (input) run_to :: "(mconf \<Rightarrow> bool) \<Rightarrow> 'a \<times> mconf \<Rightarrow> bool" where
  "run_to P \<equiv> (\<lambda>(v, s'). R (mk s') \<and> P s')"

lemma framed_run:
  assumes "returns T (g (mk s)) (\<lambda>(v, k). R k)" "framed c r s"
  shows "returns T (run_mk g s) (run_to (framed c r))"
  using returns_run_mk [where P = "\<lambda>_. R" and T = T and g = g and s = s, OF assms(1)] by (rule returns_mono) (use assms(2) mk_framed in auto)

lemma making_run:
  assumes "returns T (g (mk s)) (\<lambda>(v, k). R k)" "making k m c r s"
  shows "returns T (run_mk g s) (run_to (making k m c r))"
  using returns_run_mk [where P = "\<lambda>_. R" and T = T and g = g and s = s, OF assms(1)] by (rule returns_mono) (use assms(2) mk_making in auto)

lemma bind_run:
  "returns T x (run_to P) \<Longrightarrow> (\<And>v s'. R (mk s') \<Longrightarrow> P s' \<Longrightarrow> returns T (f (v, s')) Q) \<Longrightarrow> returns T (Option.bind x f) Q"
  by (rule returns_bind [where P = "run_to P"]) auto

lemma bind_item:
  assumes "framed c r s" "item_list_ok (items r)" "m_prompt (menus k m) \<noteq> None" "tag \<in> set ''mts:''" "R (mk s)"
    and "\<And>s'. R (mk s') \<Longrightarrow> making k m c r s' \<Longrightarrow> returns T (f s') Q"
  shows "returns T (Option.bind (add_item x tag m s) f) Q"
  using add_item_making [OF assms(1-4), of x] assms(5,6) by auto

lemma bind_str:
  assumes "making k m c r s" "R (mk s)" and "\<And>s'. R (mk s') \<Longrightarrow> making k m c r s' \<Longrightarrow> returns T (f s') Q"
  shows "returns T (Option.bind (on_items (item_add_str x) s) f) Q"
  using add_str_making [OF assms(1), of x] assms(2,3) by auto

lemma last_str:
  assumes "making k m c r s" "R (mk s)"
  shows "returns T (on_items (item_add_str x) s) (\<lambda>s'. R (mk s') \<and> making k m c r s')"
  using add_str_making [OF assms(1), of x] assms(2) by auto

text \<open>The texts and the kinds of entries do not change.\<close>

lemma R_entry:
  assumes "R k"
  shows "m_prompt (menus k m) = m_prompt (menus base m)" "m_list (menus k m) = m_list (menus base m)"
    "p_text (props k p) = p_text (props base p)"
    "m_prompt (menus base m) = Some q \<Longrightarrow> menu_get_prompt k m = p_text (props base q)"
proof -
  show e: "m_prompt (menus k m) = m_prompt (menus base m)" "m_list (menus k m) = m_list (menus base m)"
    using R_links [OF assms] by (simp_all add: menu_linksD)
  show t: "p_text (props k p) = p_text (props base p)" for p
    using R_struct [OF assms] by (cases "props base p"; cases "props k p") (auto simp: same_structure_def prop_eq_def dest!: spec [of _ p])
  show "m_prompt (menus base m) = Some q \<Longrightarrow> menu_get_prompt k m = p_text (props base q)"
    by (simp add: menu_get_prompt_def e(1) t)
qed

text \<open>\<open>entered m s\<close>: the item of an entry is listed, and the result tells whether to go on below it.\<close>

definition entered :: "mid \<Rightarrow> mconf \<Rightarrow> nat option \<times> mconf \<Rightarrow> bool" where
  "entered m s = (\<lambda>(i, s'). R (mk s') \<and> (i \<noteq> None \<longleftrightarrow> opened base s m) \<and> listed base (own_items base s m) s s')"

text \<open>What is listed depends on what does not change.\<close>

lemma R_own:
  assumes "R k"
  shows "own_items k f m = own_items base f m" "opened k f m = opened base f m"
  using R_struct_simps [OF assms] R_entry(1,3) [OF assms]
  by (simp_all add: own_items_def opened_def cong: option.case_cong)

lemma not_made: "item_list_ok (items s) \<Longrightarrow> listed base [] s s"
  by (simp add: listed_Nil)

lemma made_counted: "making base m 1 s s' \<Longrightarrow> counted base (mc_menu s) m \<Longrightarrow> listed base [m] s s'"
  by (auto intro!: making_listed)

lemma framed_modes: "framed c s s' \<Longrightarrow> single_menu_mode s' = single_menu_mode s \<and> unrolled s' = unrolled s"
  by (cases s; cases s') (simp add: framed_def)

lemma making_modes: "making k m c s s' \<Longrightarrow> single_menu_mode s' = single_menu_mode s \<and> unrolled s' = unrolled s"
  by (cases s; cases s') (simp add: making_def)

lemma build_menu_item_run:
  assumes s: "R (mk s)" "item_list_ok (items s)" "m_prompt (menus base m) = Some p" "p_type (props base p) = P_MENU"
      "m \<noteq> mc_menu s" "m_sym (menus base m) = None"
    and t: "tree_ok (menus base) t" "height t \<le> Suc d" "entry t = m"
  shows "returns T (build_menu_item d calc m s) (entered m s)"
proof -
  have c: "counted base (mc_menu s) m" using s(5) by (simp add: counted_def)
  have o: "own_items base s m = [m]" "opened base s m \<longleftrightarrow> single_menu_mode s \<and> unrolled s m"
    using s by (simp_all add: own_items_def opened_def)
  show ?thesis
    unfolding build_menu_item_def Let_def
  proof (rule bind_run [where P = "framed 1 s"], goal_cases)
    case 1
    from s(1) show ?case
      by (auto intro!: bind_run [OF framed_run [OF menu_is_empty_run [OF t(1,2) _ t(3)] framed_count]])
  next
    case (2 x s')
    note mm = making_modes [of base m 1 s]
    from 2 s(2,3) show ?case by (auto intro!: bind_item made_counted simp: c o entered_def mm)
  qed
qed

lemma build_text_item_run:
  assumes s: "R (mk s)" "item_list_ok (items s)" "m_prompt (menus base m) = Some p" "p_type (props base p) \<noteq> P_MENU"
      "m \<noteq> mc_menu s" "m_sym (menus base m) = None"
  shows "returns T (build_text_item x y m s) (entered m s)"
proof -
  have o: "own_items base s m = (if p_text (props base p) = None then [] else [m])" "opened base s m"
    using s by (simp_all add: own_items_def opened_def)
  have g: "menu_get_prompt (mk s) m = p_text (props base p)" by (rule R_entry(4) [OF s(1,3)])
  show ?thesis
  proof (cases "p_text (props base p)")
    case None
    with s(1,2) o g show ?thesis by (simp add: build_text_item_def entered_def not_made)
  next
    case (Some t)
    have c: "counted base (mc_menu s) m" using s(5) by (simp add: counted_def)
    obtain u where "add_item (x @ t @ y) CHR '':'' m (count_child s) = Some u" "making base m 1 s u" "mk u = mk s"
      using add_item_making [OF framed_count s(2), of base m "CHR '':''" "x @ t @ y"] s(3) by auto
    with Some s(1) c o g show ?thesis
      by (simp add: build_text_item_def entered_def made_counted)
  qed
qed

lemma build_plain_run:
  assumes s: "R (mk s)" "item_list_ok (items s)" "m_prompt (menus base m) \<noteq> None" "m_sym (menus base m) = None"
    and t: "tree_ok (menus base) t" "height t \<le> Suc d" "entry t = m"
  shows "returns T (build_plain d calc m s) (entered m s)"
proof -
  obtain p where p: "m_prompt (menus base m) = Some p" using s(3) by blast
  show ?thesis
  proof (cases "m = mc_menu s")
    case True
    then have "own_items base s m = []" "opened base s m" using s(4) by (simp_all add: own_items_def opened_def)
    with True p s(1,2) show ?thesis by (simp add: build_plain_def R_entry entered_def not_made)
  next
    case False
    note m = build_menu_item_run [OF s(1,2) p _ False s(4) t] and x = build_text_item_run [OF s(1,2) p _ False s(4)]
    show ?thesis
    proof (cases "p_type (props base p) = P_MENU")
      case True
      with m False p s(1) show ?thesis by (simp add: build_plain_def R_entry R_struct_simps)
    next
      case menu: False
      with x False p s(1) show ?thesis
        by (cases "p_type (props base p)") (simp_all add: build_plain_def R_entry R_struct_simps)
    qed
  qed
qed

lemma last_visible_run:
  "(\<And>t s. t \<in> set ts \<Longrightarrow> R s \<Longrightarrow> returns T (f (entry t) s) (\<lambda>(v, s'). R s')) \<Longrightarrow>
   forest_ok (menus base) p ts \<Longrightarrow> R k \<Longrightarrow> returns T (last_visible f a (first_entry ts) found k) (\<lambda>(v, s'). R s')"
proof (induction ts arbitrary: found k)
  case Nil
  then show ?case by (subst last_visible.simps) simp
next
  case (Cons t ts)
  have next_ts: "m_next (menus s' (entry t)) = first_entry ts" if "R s'" for s'
    using R_links [OF that] Cons.prems(2) by (simp add: menu_linksD)
  show ?case
    unfolding first_entry.simps
    by (subst last_visible.simps) (use Cons in \<open>auto simp: next_ts intro!: bind_pair\<close>)
qed

lemma build_choice_run:
  assumes s: "R (mk s)" "item_list_ok (items s)" "m_prompt (menus base m) \<noteq> None" "choice_entry m"
    and t: "tree_ok (menus base) t" "height t \<le> Suc d" "entry t = m"
  shows "returns T (build_choice d calc m s) (\<lambda>s'. R (mk s') \<and> listed base [m] s s')"
proof -
  have c: "counted base (mc_menu s) m" using s(4) by (simp add: counted_def choice_entry_def)
  obtain ts where ts: "t = MNode m ts" using t(3) by (cases t) simp
  have l: "m_list (menus k m) = first_entry ts" if "R k" for k
    using t(1) R_links [OF that] by (simp add: ts menu_linksD)
  have v: "returns T (last_visible (menu_is_visible d calc) a (first_entry ts) None k) (\<lambda>(v, s'). R s')" if "R k" for a k
  proof (rule last_visible_run [where p = m, OF _ _ that], goal_cases)
    case (1 u k)
    with menu_is_visible_run [of u d k] forest_tree [of _ m ts u] height_le [of u ts] t ts show ?case
      by (auto elim!: returns_mono)
  next
    case 2
    then show ?case using t(1) ts by simp
  qed
  show ?thesis
    unfolding build_choice_def Let_def
  proof (rule bind_run [where P = "framed 0 s"], goal_cases)
    case 1
    show ?case using s(1) by (intro framed_run calc_choice_run s(4)) simp_all
  next
    case (2 a u)
    then have f: "framed 1 s (count_child u)" using framed_trans [OF _ framed_count] by fastforce
    show ?case
      unfolding case_prod_conv
    proof (rule bind_run [where P = "framed 1 s"], goal_cases)
      case 1
      show ?case using 2(1) f v by (intro framed_run) (simp_all add: l)
    next
      case (2 j w)
      with s(2,3) show ?case
        by (auto simp: c intro!: bind_item bind_str making_listed split: option.split elim!: returns_mono [OF last_str])
    qed
  qed
qed

text \<open>A text must have a value; with \<open>T\<close> there are no texts.\<close>

definition only_tristates :: bool where
  "only_tristates \<longleftrightarrow> (\<forall>a m. m_sym (menus base m) = Some a \<longrightarrow> s_type (syms base a) \<in> {S_BOOLEAN, S_TRISTATE})"

lemma build_symbol_run:
  assumes s: "R (mk s)" "item_list_ok (items s)" "m_prompt (menus base m) \<noteq> None" "T \<Longrightarrow> only_tristates"
    and a: "m_sym (menus base m) = Some a" "\<not> sym_is_choice (syms base a)"
    and t: "tree_ok (menus base) t" "height t \<le> Suc d" "entry t = m"
  shows "returns T (build_symbol d calc m a s) (entered m s)"
proof -
  have c: "counted base (mc_menu s) m \<longleftrightarrow> m \<noteq> mc_menu s" using a by (simp add: counted_def)
  obtain p where p: "m_prompt (menus base m) = Some p" using s(3) by blast
  let ?b = "s_type (syms base a) \<in> {S_BOOLEAN, S_TRISTATE}"
  have o: "own_items base s m = [m]" "opened base s m \<longleftrightarrow> m = mc_menu s \<or> p_type (props base p) \<noteq> P_MENU \<or> \<not> ?b"
    using a p by (auto simp: own_items_def opened_def)
  let ?ty = "sym_get_type (mk s) (syms (mk s) a)"
  have b: "?b \<longleftrightarrow> ?ty = S_BOOLEAN \<or> ?ty = S_TRISTATE"
    using s(1) by (auto simp: sym_get_type_def R_struct_simps)
  consider "m = mc_menu s" | "m \<noteq> mc_menu s" "\<not> ?b" | "m \<noteq> mc_menu s" "?b" by blast
  then show ?thesis
  proof cases
    case 1
    obtain u where "add_item (''---'' @ gap s @ prompt_text s m) CHR '':'' m s = Some u" "making base m 0 s u" "mk u = mk s"
      using add_item_making [OF framed_refl s(2,3), of "CHR '':''"] by force
    with 1 s(1) c o show ?thesis by (auto simp: build_symbol_def Let_def entered_def intro!: making_listed)
  next
    case 2
    with s(4) a(1) have "\<not> T" by (auto simp: only_tristates_def)
    have "returns T (build_string m a (count_child s)) (\<lambda>s'. R (mk s') \<and> listed base [m] s s')"
      unfolding build_string_def Let_def
    proof (rule returns_bind [where P = "\<lambda>_. True"], goal_cases)
      case 1
      with \<open>\<not> T\<close> show ?case by (simp add: returns_def split: option.split)
    next
      case (2 x)
      with s(1-3) c \<open>m \<noteq> mc_menu s\<close> show ?case
        by (auto intro!: bind_item [OF framed_count] made_counted elim!: returns_mono [OF last_str])
    qed
    with 2 o b show ?thesis by (auto simp: build_symbol_def Let_def returns_def entered_def split: option.splits)
  next
    case 3
    then have ty: "\<not> (?ty \<noteq> S_BOOLEAN \<and> ?ty \<noteq> S_TRISTATE)" using b by blast
    show ?thesis
      unfolding build_symbol_def Let_def if_not_P [OF 3(1)] if_not_P [OF ty]
    proof (rule bind_item [OF framed_count s(2,3)], goal_cases)
      case (3 u)
      show ?case
      proof (rule bind_str [OF 3(2,1)], goal_cases)
        case (1 w)
        have e: "m_prompt (menus (mk w) m) = Some p" "p_type (props (mk w) p) = p_type (props base p)"
          using R_entry(1) [OF 1(1)] p 1(1) by (simp_all add: R_struct_simps)
        have i: "returns T (run_mk (menu_is_empty d calc m) w) (run_to (making base m 1 s))"
          by (rule making_run) (rule menu_is_empty_run [OF t(1,2) 1(1) t(3)], rule 1(2))
        have "returns T (Option.bind (run_mk (menu_is_empty d calc m) w) (\<lambda>(e, s). Option.bind (on_items (item_add_str (''  '' @ arrow e)) s)
            (\<lambda>s. Some (None, s)))) (\<lambda>(i, s'). R (mk s') \<and> i = None \<and> listed base [m] s s')"
          by (rule bind_run [OF i]) (use c \<open>m \<noteq> mc_menu s\<close> in \<open>auto intro!: bind_str made_counted\<close>)
        with 1 \<open>m \<noteq> mc_menu s\<close> e o c \<open>m \<noteq> mc_menu s\<close> \<open>?b\<close> show ?case
          by (auto simp: entered_def made_counted elim: returns_mono)
      qed
    qed (use s(1) in auto)
  qed
qed

lemma build_entry_run:
  assumes s: "R (mk s)" "item_list_ok (items s)" "m_prompt (menus base m) \<noteq> None" "T \<Longrightarrow> only_tristates"
    and t: "tree_ok (menus base) t" "height t \<le> Suc d" "entry t = m"
  shows "returns T (build_entry d calc m s) (entered m s)"
proof (cases "m_sym (menus base m)")
  case None
  with build_plain_run [OF s(1-3) _ t] s(1) show ?thesis by (simp add: build_entry_def R_struct_simps)
next
  case (Some a)
  show ?thesis
  proof (cases "sym_is_choice (syms base a)")
    case True
    with Some have "own_items base s m = [m]" "\<not> opened base s m" "choice_entry m"
      by (simp_all add: own_items_def opened_def choice_entry_def)
    with build_choice_run [OF s(1-3) _ t] Some True s(1) show ?thesis
      by (auto simp: build_entry_def R_struct_simps entered_def returns_def split: option.splits)
  next
    case False
    with build_symbol_run [OF s Some _ t] Some s(1) show ?thesis by (simp add: build_entry_def R_struct_simps)
  qed
qed

text \<open>The entry itself and those below it; the indentation is restored.\<close>

definition lists_as :: "('a \<Rightarrow> kstate \<Rightarrow> (mid list \<times> kstate) option) \<Rightarrow> 'a \<Rightarrow> mconf \<Rightarrow> mconf \<Rightarrow> bool" where
  "lists_as L t s s' \<longleftrightarrow> R (mk s') \<and> (\<exists>ms. L t (mk s) = Some (ms, mk s') \<and> listed base ms s s')"

lemma build_children_run:
  assumes "\<And>t s. t \<in> set ts \<Longrightarrow> R (mk s) \<Longrightarrow> item_list_ok (items s) \<Longrightarrow> same_modes f s \<Longrightarrow>
      returns T (g (entry t) s) (lists_as (listing d calc f) t s)"
    and "forest_ok (menus base) p ts" and "R (mk s)" "item_list_ok (items s)" "same_modes f s"
  shows "returns T (build_children g (first_entry ts) s) (lists_as (listings d calc f) ts s)"
  using assms
proof (induction ts arbitrary: s)
  case Nil
  then have "lists_as (listings d calc f) [] s s" by (auto simp: lists_as_def not_made)
  then show ?case by (subst build_children.simps) simp
next
  case (Cons t ts)
  have next_ts: "m_next (menus k (entry t)) = first_entry ts" if "R k" for k
    using R_links [OF that] Cons.prems(2) by (simp add: menu_linksD)
  have "returns T (Option.bind (g (entry t) s) (\<lambda>s. build_children g (m_next (menus (mk s) (entry t))) s))
      (lists_as (listings d calc f) (t # ts) s)"
  proof (rule returns_bind, rule Cons.prems(1), goal_cases)
    case (5 r)
    then obtain ms where r: "R (mk r)" "listing d calc f t (mk s) = Some (ms, mk r)" "listed base ms s r" by (auto simp: lists_as_def)
    have "returns T (build_children g (first_entry ts) r) (lists_as (listings d calc f) ts r)"
      using Cons r listed_ok same_modes_listed by auto
    then show ?case
      unfolding next_ts [OF r(1)]
      by (rule returns_mono) (use r in \<open>auto simp: lists_as_def intro: listed_trans\<close>)
  qed (use Cons.prems in auto)
  then show ?case
    by (subst build_children.simps) simp
qed

lemma build_conf_run:
  assumes "R (mk s)" "item_list_ok (items s)" "T \<Longrightarrow> only_tristates" "same_modes f s"
    and "tree_ok (menus base) t" "height t \<le> n" "height t \<le> d" "entry t = m"
  shows "returns T (build_conf n d calc m s) (lists_as (listing d calc f) t s)"
  using assms
proof (induction n arbitrary: t m s)
  case 0
  then show ?case by (cases t) simp
next
  case (Suc n)
  obtain ts where t: "t = MNode m ts" using Suc.prems(8) by (cases t) simp
  with Suc.prems have ts: "forest_ok (menus base) m ts" "m_list (menus base m) = first_entry ts" "forest_height ts \<le> n" "forest_height ts < d"
    by auto
  let ?P = "\<lambda>(v, s'). (v \<longrightarrow> m_prompt (menus base m) \<noteq> None) \<and> R (mk s') \<and> framed 0 s s'
      \<and> menu_is_visible d calc m (mk s) = Some (v, mk s')"
  show ?case
    unfolding build_conf.simps build_conf_step_def
  proof (rule returns_bind [where P = ?P], goal_cases)
    case 1
    have "returns T (menu_is_visible d calc m (mk s)) (\<lambda>(v, k). R k \<and> (v \<longrightarrow> m_prompt (menus base m) \<noteq> None) \<and> menu_is_visible d calc m (mk s) = Some (v, k))"
      using menu_is_visible_run [OF Suc.prems(5,7,1,8)] R_entry(1) [OF Suc.prems(1)]
      by (auto simp: returns_def split: option.splits)
    then have "returns T (run_mk (menu_is_visible d calc m) s) (\<lambda>(v, s'). (R (mk s') \<and> (v \<longrightarrow> m_prompt (menus base m) \<noteq> None)
        \<and> menu_is_visible d calc m (mk s) = Some (v, mk s')) \<and> only_ks (mc s) (mc s') \<and> s' = s\<lparr>mc := mc s'\<rparr>)"
      by (rule returns_run_mk)
    then show ?case
      by (rule returns_mono) (use mk_framed [OF _ _ framed_refl] in auto)
  next
    case (2 r)
    then obtain v u where r: "r = (v, u)" "v \<longrightarrow> m_prompt (menus base m) \<noteq> None" "R (mk u)" "framed 0 s u"
      and vis: "menu_is_visible d calc m (mk s) = Some (v, mk u)" by auto
    have ok: "item_list_ok (items u)" using r(4) Suc.prems(2) by simp
    have fu: "same_modes f u" using r(4) Suc.prems(4) by (cases s; cases u) (simp add: framed_def same_modes_def)
    have all: "show_all_options u = show_all_options f" using fu by (simp add: same_modes_def)
    let ?v = "if show_all_options f then menu_has_prompt (mk u) m else v"
    note cases_u = listing_cases [OF vis, where f = f and ts = ts, folded t]
    have below: "returns T (build_children (build_conf n d calc) (first_entry ts) w) (lists_as (listings d calc f) ts w)"
      if "R (mk w)" "item_list_ok (items w)" "same_modes f w" for w
    proof (rule build_children_run [OF _ ts(1) that], goal_cases)
      case (1 x y)
      with Suc.IH [of y x "entry x"] Suc.prems(3) forest_tree [OF ts(1)] height_le [of x ts] ts(3,4) show ?case by auto
    qed
    have entry: "returns T (Option.bind (build_entry d calc m u) (\<lambda>(doint, s). case doint of
          None \<Rightarrow> Some s
        | Some i \<Rightarrow> Option.bind (build_children (build_conf n d calc) (m_list (menus (mk s) m)) (s\<lparr>mc_indent := mc_indent s + i\<rparr>))
            (\<lambda>s. Some (s\<lparr>mc_indent := mc_indent s - i\<rparr>)))) (lists_as (listing d calc f) t s)"
      if v: ?v
    proof -
      have p: "m_prompt (menus base m) \<noteq> None"
        using v r(2) R_entry(1) [OF r(3), of m] by (auto simp: menu_has_prompt_def split: if_splits)
      show ?thesis
      proof (rule returns_bind, rule returns_fact, rule build_entry_run [OF r(3) ok p Suc.prems(3,5) _ Suc.prems(8)], goal_cases)
        case (3 x)
        then obtain i w where x: "x = (i, w)" "R (mk w)" "i \<noteq> None \<longleftrightarrow> opened base f m" "listed base (own_items base f m) u w"
          and e: "build_entry d calc m u = Some (i, w)"
          using fu by (auto simp: entered_def same_modes_own)
        have l: "looked d calc f m (mk u) = Some (mk w)" using build_entry_looked [OF e] same_modes_looked [OF fu] by simp
        have base: "own_items (mk u) f m = own_items base f m" "opened (mk u) f m = opened base f m"
          using R_own [OF r(3)] by simp_all
        show ?case
        proof (cases i)
          case None
          with cases_u(2) [OF v l] x listed_frame [OF r(4) x(4)] base show ?thesis by (auto simp: lists_as_def)
        next
          case (Some j)
          have "lists_as (listing d calc f) t s (z\<lparr>mc_indent := mc_indent z - j\<rparr>)"
            if "lists_as (listings d calc f) ts (w\<lparr>mc_indent := mc_indent w + j\<rparr>) z" for z
          proof -
            from that obtain ms where z: "R (mk z)" "listings d calc f ts (mk w) = Some (ms, mk z)"
              "listed base ms (w\<lparr>mc_indent := mc_indent w + j\<rparr>) z" by (auto simp: lists_as_def)
            from cases_u(3) [OF v l _ z(2)] x(3) Some base z(1) listed_frame [OF r(4) listed_trans [OF x(4) listed_indent [OF z(3)]]]
            show ?thesis by (auto simp: lists_as_def)
          qed
          with below [of "w\<lparr>mc_indent := mc_indent w + j\<rparr>"] x Some fu R_entry(2) [OF x(2)] ts(2) listed_ok [OF x(4)]
            same_modes_listed [OF fu x(4)] show ?thesis
            by (auto intro!: returns_bind)
        qed
      qed (use Suc.prems(7) in auto)
    qed
    have hidden: "lists_as (listing d calc f) t s u" if "\<not> ?v"
      using cases_u(1) [OF that] r(3) listed_frame [OF r(4) not_made [OF ok]] by (auto simp: lists_as_def)
    show ?case
    proof (cases ?v)
      case True
      with entry show ?thesis by (auto simp: r(1) all split: if_splits)
    next
      case False
      with hidden show ?thesis by (auto simp: r(1) all split: if_splits)
    qed
  qed
qed

end

section \<open>With the evaluation of symbols\<close>

lemma build_conf_total:
  assumes "wf_state (mk s)" "finite (invalid (mk s))" "card (invalid (mk s)) < N"
    and t: "tree_ok (menus (mk s)) t" "height t \<le> n" "height t \<le> d" and l: "item_list_ok (items s)"
    and ty: "T \<Longrightarrow> \<forall>a m. m_sym (menus (mk s) m) = Some a \<longrightarrow> s_type (syms (mk s) a) \<in> {S_BOOLEAN, S_TRISTATE}"
  shows "returns T (build_conf n d (sym_calc_value N) (entry t) s) (\<lambda>s'. same_structure (mk s) (mk s')
    \<and> (\<exists>ms. listing d (sym_calc_value N) s t (mk s) = Some (ms, mk s') \<and> listed (mk s) ms s s'))"
proof -
  have "returns T (sym_calc_value N a u) (\<lambda>s'. prim\<^sup>*\<^sup>* (mk s) s')" if r: "prim\<^sup>*\<^sup>* (mk s) u" for a u
  proof -
    have "wf_state u \<and> finite (invalid u) \<and> card (invalid u) < N"
      using assms(1-3) prims_wf [OF r] prims_invalid [OF r] by (auto intro: finite_subset le_less_trans [OF card_mono])
    then show ?thesis using calc_value_runs [of T u N a] r by (auto elim: returns_mono)
  qed
  then have c: "calc_runs T (sym_calc_value N) (mk s)" using assms(1) by (intro calc_runs.intro) auto
  have b: "calc_runs.base (mk s) = mk s" by (rule calc_runs.base_def [OF c])
  have "returns T (build_conf n d (sym_calc_value N) (entry t) s) (calc_runs.lists_as (mk s) (listing d (sym_calc_value N) s) t s)"
    using calc_runs.build_conf_run [OF c _ l _ _ _ t(2,3) refl, of s] t(1) ty
    by (simp add: b same_modes_def calc_runs.only_tristates_def [OF c])
  then show ?thesis
    by (rule returns_mono) (auto simp: calc_runs.lists_as_def [OF c] b intro: prims_same_structure)
qed

end
