(* ===== verification/Session.thy ===== *)
theory Session
  imports MenuRun DotRound
begin

text \<open>
  A session of menuconfig from key to key. Whatever is pressed, the operations behind the menus
  change values only: the tree of entries, the symbols with their names and types, and the texts and
  kinds of properties stay (\<open>static_eq\<close>). The menus rely on that through the interface
  \<open>menu_session\<close>, in which it is shown what a whole session keeps.
\<close>

section \<open>Operations on the symbols\<close>

lemma stat_bind1:
  "returns False m (static_eq base) \<Longrightarrow> (\<And>k. static_eq base k \<Longrightarrow> returns False (f k) Q) \<Longrightarrow> returns False (Option.bind m f) Q"
  by (rule returns_bind)

lemma stat_bind2:
  "returns False m (\<lambda>(v, k). static_eq base k) \<Longrightarrow> (\<And>v k. static_eq base k \<Longrightarrow> returns False (f (v, k)) Q)
   \<Longrightarrow> returns False (Option.bind m f) Q"
  by (rule returns_bind [where P = "\<lambda>(v, k). static_eq base k"]) auto

lemma stat_any: "(\<And>v. returns False (f v) Q) \<Longrightarrow> returns False (Option.bind m f) Q"
  by (cases m) (auto simp: returns_False)

lemma returns_map [simp]: "returns T (map_option g m) Q = returns T m (\<lambda>r. Q (g r))"
  by (cases m) (simp_all add: returns_def)

lemma stat_if: "(b \<Longrightarrow> returns T x Q) \<Longrightarrow> (\<not> b \<Longrightarrow> returns T y Q) \<Longrightarrow> returns T (if b then x else y) Q"
  by simp

lemma stat_upd:
  assumes "\<And>y. s_name (f y) = s_name y \<and> s_type (f y) = s_type y \<and> (SYMBOL_CONST \<in> s_flags (f y) \<longleftrightarrow> SYMBOL_CONST \<in> s_flags y)"
  shows "static_eq base (upd_sym a f k) = static_eq base k"
  using assms by (auto simp: static_eq_def upd_sym_def)

lemma stat_flag [simp]: "f \<noteq> SYMBOL_CONST \<Longrightarrow> static_eq base (set_flag a f k) = static_eq base k"
  unfolding set_flag_def by (rule stat_upd) (auto simp: add_flags_def)

lemma stat_valid [simp]: "static_eq base (fold (\<lambda>a. upd_sym a (del_flags {SYMBOL_VALID})) as k) = static_eq base k"
  by (induction as arbitrary: k) (simp_all add: stat_upd del_flags_def)

lemma stat_user [simp]:
  "static_eq base (set_user_tri a v k) = static_eq base k" "static_eq base (set_user_val a t k) = static_eq base k"
  "static_eq base (expr_invalidate_all k) = static_eq base k" "static_eq base (k\<lparr>conf_changed := b\<rparr>) = static_eq base k"
  "static_eq base (list_move_choice a c k) = static_eq base k"
  by (auto simp: set_user_tri_def set_user_val_def new_heap_string_def expr_invalidate_all_def list_move_choice_def Let_def
      static_eq_def upd_sym_def menu_links_def)

lemma stat_prims: "static_eq base k \<Longrightarrow> prim\<^sup>*\<^sup>* k k' \<Longrightarrow> static_eq base k'"
  using static_eq_trans static_prims by blast

lemma stat_calc: "static_eq base k \<Longrightarrow> returns False (sym_calc_value n a k) (static_eq base)"
  by (auto simp: returns_False intro: stat_prims sym_calc_value_prims)

lemma stat_set_changed: "static_eq base k \<Longrightarrow> returns False (sym_set_changed a k) (static_eq base)"
  using run.set_changed_run [of k k a] by (auto simp: returns_False intro: stat_prims)

lemma stat_clear_all: "static_eq base k \<Longrightarrow> returns False (sym_clear_all_valid (sym_calc_value n) k) (static_eq base)"
  by (simp add: sym_clear_all_valid_def Let_def stat_calc)

lemma stat_set_tristate: "static_eq base k \<Longrightarrow> returns False (sym_set_tristate_value (sym_calc_value n) a v k) (\<lambda>(b, k). static_eq base k)"
  by (auto simp: sym_set_tristate_value_def Let_def intro!: stat_bind1 stat_set_changed stat_clear_all)

lemma stat_choice_loop: "static_eq base (snd (choice_set_loop c a ms b k)) = static_eq base k"
  by (induction c a ms b k rule: choice_set_loop.induct) (simp_all add: Let_def split: option.split)

lemma stat_choice_set: "static_eq base k \<Longrightarrow> returns False (choice_set_value (sym_calc_value n) c a k) (static_eq base)"
  unfolding choice_set_value_def
  by (rule stat_any) (use stat_choice_loop in \<open>auto simp: case_prod_beta intro!: stat_clear_all\<close>)

lemma stat_toggle_loop: "static_eq base k \<Longrightarrow> returns False (toggle_loop (sym_calc_value n) i a old new k) (\<lambda>(v, k). static_eq base k)"
  by (induction i arbitrary: new k) (auto simp: Let_def returns_def [of _ None] intro!: stat_bind2 stat_set_tristate)

lemma stat_toggle: "static_eq base k \<Longrightarrow> returns False (sym_toggle_tristate_value (sym_calc_value n) a k) (\<lambda>(v, k). static_eq base k)"
  unfolding sym_toggle_tristate_value_def
  by (rule stat_any) (auto simp: Let_def intro!: stat_bind1 stat_choice_set stat_toggle_loop split: option.split)

lemma stat_range_prop: "static_eq base k \<Longrightarrow> returns False (sym_get_range_prop (sym_calc_value n) a k) (\<lambda>(v, k). static_eq base k)"
  using run.range_prop_run [of k k n a] by (auto simp: returns_False intro: stat_prims)

lemma stat_range_val: "static_eq base k \<Longrightarrow> returns False (sym_get_range_val (sym_calc_value n) a b k) (\<lambda>(v, k). static_eq base k)"
  using run.range_val_run [of k k n a b] by (auto simp: returns_False intro: stat_prims)

lemma stat_number: "static_eq base k \<Longrightarrow> returns False (number_within_range (sym_calc_value n) a b t k) (\<lambda>(v, k). static_eq base k)"
proof -
  assume k: "static_eq base k"
  have "returns False (Option.bind (range_of q) (\<lambda>(l, r). let v = fst (strtoll_int b t) in
      Option.bind (sym_get_range_val (sym_calc_value n) l b k) (\<lambda>(lo, k).
        if v \<ge> lo then Option.bind (sym_get_range_val (sym_calc_value n) r b k) (\<lambda>(hi, k). Some (v \<le> hi, k)) else Some (False, k))))
      (\<lambda>(v, k). static_eq base k)" if "static_eq base k" for q k
    by (rule stat_any) (use that in \<open>auto simp: Let_def intro!: stat_bind2 [where base = base, OF stat_range_val]\<close>)
  with k show ?thesis
    unfolding number_within_range_def
    by (auto intro!: stat_bind2 [where base = base, OF stat_range_prop] split: option.split)
qed

lemma stat_set_string: "static_eq base k \<Longrightarrow> returns False (sym_set_string_value (sym_calc_value n) a t k) (\<lambda>(v, k). static_eq base k)"
proof -
  assume k: "static_eq base k"
  have "returns False (sym_string_within_range (sym_calc_value n) a t k) (\<lambda>(v, k). static_eq base k)"
    using k by (auto simp: sym_string_within_range_def intro: stat_number split: symbol_type.split option.split)
  note within = stat_bind2 [where base = base, OF this]
  have mark: "returns False (if SYMBOL_DEF_USER \<notin> s_flags (syms k a) then sym_set_changed a (set_flag a SYMBOL_DEF_USER k) else Some k) (static_eq base)"
    if "static_eq base k" for k
    using that by (simp add: stat_set_changed)
  have clear: "returns False (Option.bind (sym_clear_all_valid (sym_calc_value n) (set_user_val a x k)) (\<lambda>k. Some (True, k))) (\<lambda>(v, k). static_eq base k)"
    if "static_eq base k" for x k
    by (rule stat_bind1 [where base = base, OF stat_clear_all]) (use that in auto)
  have set: "returns False (sym_set_string_value (sym_calc_value n) a t k) (\<lambda>(v, k). static_eq base k)"
    if "\<not> (s_type (syms k a) = S_BOOLEAN \<or> s_type (syms k a) = S_TRISTATE)"
    unfolding sym_set_string_value_def if_not_P [OF that]
  proof (rule within, goal_cases)
    case (1 ok k)
    show ?case
      unfolding case_prod_conv
      by (rule stat_if, simp add: 1, rule stat_bind1 [where base = base, OF mark [OF 1]]) (simp add: Let_def clear)
  qed
  show ?thesis
  proof (cases "s_type (syms k a) = S_BOOLEAN \<or> s_type (syms k a) = S_TRISTATE")
    case True
    with k show ?thesis by (simp add: sym_set_string_value_def stat_set_tristate split: option.split)
  qed (rule set)
qed

section \<open>Showing entries\<close>

lemma stat_visible: "static_eq base k \<Longrightarrow> returns False (menu_is_visible d (sym_calc_value n) m k) (\<lambda>(v, k). static_eq base k)"
  by (auto simp: returns_False intro: stat_prims menu_is_visible_prims)

lemma stat_empty: "static_eq base k \<Longrightarrow> returns False (menu_is_empty d (sym_calc_value n) m k) (\<lambda>(v, k). static_eq base k)"
  by (auto simp: returns_False menu_is_empty_def bind_Some_iff intro: stat_prims any_visible_prims [OF _ menu_is_visible_prims])

lemma stat_submenu_path:
  "static_eq base k \<Longrightarrow> returns False (submenu_path i d (sym_calc_value n) m l k) (\<lambda>(ms, l, k). static_eq base k)"
proof (induction i arbitrary: m l k)
  case (Suc i)
  have "returns False (Option.bind (m_parent (menus k m)) (\<lambda>p. Option.bind (submenu_path i d (sym_calc_value n) p l k)
      (\<lambda>(ms, l, k). Some (m # ms, l, k)))) (\<lambda>(ms, l, k). static_eq base k)" if "static_eq base k" for l k
    by (rule stat_any, rule returns_bind [OF Suc.IH [OF that]]) auto
  with Suc.prems show ?case
    by (auto intro!: stat_bind2 stat_visible)
qed simp

lemma stat_prompt_strs: "static_eq base k \<Longrightarrow> returns False (prompt_strs keys d (sym_calc_value n) ms rh k) (\<lambda>(r, k). static_eq base k)"
proof (induction ms arbitrary: rh k)
  case (Cons m ms)
  have "returns False (get_prompt_str keys d (sym_calc_value n) p rh k) (\<lambda>(r, k). static_eq base k)" if "static_eq base k" for p rh k
    unfolding get_prompt_str_def
    by (cases rh) (use that in \<open>auto simp: Let_def case_prod_beta split: prod.split intro!: returns_bind [OF stat_submenu_path]\<close>)
  with Cons show ?case by (auto split: option.split intro!: stat_bind2)
qed simp

lemma stat_print_revdep:
  "static_eq base k \<Longrightarrow> returns False (expr_gstr_print_revdep (sym_calc_value n) e r v t k) (\<lambda>(r, k). static_eq base k)"
  using run.gstr_print_revdep_run [of k k e n r v t] by (auto simp: returns_False intro: stat_prims)

lemma stat_revdep: "static_eq base k \<Longrightarrow> returns False (revdep_strs (sym_calc_value n) e t r k) (\<lambda>(r, k). static_eq base k)"
  unfolding revdep_strs_def
  by (auto intro!: stat_bind2 [where base = base, OF stat_print_revdep] stat_print_revdep)

lemma stat_symbol_head: "static_eq base k \<Longrightarrow> returns False (symbol_head (sym_calc_value n) a r k) (\<lambda>(r, k). static_eq base k)"
  unfolding symbol_head_def
  by (auto simp: Let_def intro!: stat_bind2 [where base = base, OF stat_range_prop] split: option.split)

lemma stat_symbol_str: "static_eq base k \<Longrightarrow> returns False (get_symbol_str keys d (sym_calc_value n) a rh k) (\<lambda>(r, k). static_eq base k)"
  unfolding get_symbol_str_def
  by (cases rh) (auto simp: Let_def intro!: stat_bind2 [where base = base, OF stat_symbol_head] stat_bind2 [where base = base, OF stat_prompt_strs]
      stat_bind2 [where base = base, OF stat_revdep])

lemma stat_relations: "static_eq base k \<Longrightarrow> returns False (get_relations_str keys d (sym_calc_value n) as head k) (\<lambda>(r, k). static_eq base k)"
proof -
  have "returns False (relation_strs keys d (sym_calc_value n) as rh k) (\<lambda>(r, k). static_eq base k)" if "static_eq base k" for rh k
    using that by (induction as arbitrary: rh k) (auto intro!: stat_bind2 [where base = base, OF stat_symbol_str])
  then show "static_eq base k \<Longrightarrow> ?thesis"
    unfolding get_relations_str_def by (auto intro!: stat_bind2 [where base = base])
qed

lemma stat_help: "static_eq base k \<Longrightarrow> returns False (menu_get_ext_help cfg keys d (sym_calc_value n) m h k) (\<lambda>(r, k). static_eq base k)"
  unfolding menu_get_ext_help_def
  by (rule stat_any) (auto simp: Let_def intro!: stat_bind2 [where base = base, OF stat_symbol_str] split: option.split)

lemma stat_search: "static_eq base k \<Longrightarrow> returns False (sym_re_search rx (sym_calc_value n) t k) (\<lambda>(r, k). static_eq base k)"
proof -
  have "returns False (match_symbols (sym_calc_value n) re as k) (\<lambda>(r, k). static_eq base k)" if "static_eq base k" for re as k
    using that by (induction as arbitrary: k) (auto intro!: stat_bind1 [where base = base, OF stat_calc] stat_bind2 [where base = base] split: option.split)
  then show "static_eq base k \<Longrightarrow> ?thesis"
    unfolding sym_re_search_def by (auto intro!: stat_bind2 [where base = base] split: option.split)
qed

lemma stat_calc_choice: "static_eq base k \<Longrightarrow> returns False (sym_calc_choice (sym_calc_value n) m k) (\<lambda>(v, k). static_eq base k)"
proof -
  assume k: "static_eq base k"
  have user: "returns False (choice_user_yes (sym_calc_value n) as k) (\<lambda>(v, k). static_eq base k)" if "static_eq base k" for as k
    using run.choice_user_yes_run [of k k n as] that by (auto simp: returns_False intro: stat_prims)
  have default_prop: "returns False (choice_default_prop (sym_calc_value n) ps k) (\<lambda>(v, k). static_eq base k)" if "static_eq base k" for ps k
    using run.choice_default_prop_run [of ps k k n] that by (auto simp: returns_False intro: stat_prims)
  have sym_default: "returns False (sym_choice_default (sym_calc_value n) m k) (\<lambda>(v, k). static_eq base k)" if "static_eq base k" for k
    unfolding sym_choice_default_def
  proof (rule stat_any, rule stat_bind2 [where base = base, OF default_prop [OF that]], goal_cases)
    case (1 a d k)
    then show ?case by (cases d) (auto intro: stat_any)
  qed
  have default: "returns False (if r = None then choice_default (sym_calc_value n) m k else Some (r, k)) (\<lambda>(v, k). static_eq base k)"
    if "static_eq base k" for r k
    unfolding choice_default_def by (auto simp: that intro!: stat_bind2 [where base = base, OF sym_default])
  have assign: "returns False (choice_assign r ms k) (static_eq base)" if "static_eq base k" for r ms k
    using that
  proof (induction ms arbitrary: k)
    case (Cons i ms)
    have c: "static_eq base (upd_sym a (\<lambda>y. y\<lparr>curr := x y\<rparr>) l) = static_eq base l"
      "static_eq base (upd_sym a (add_flags {SYMBOL_VALID, SYMBOL_WRITE}) l) = static_eq base l" for a x l
      by (rule stat_upd, simp, rule stat_upd, auto simp: add_flags_def)
    show ?case
      using Cons by (auto simp: Let_def c intro!: stat_bind1 [where base = base] stat_set_changed split: option.split)
  qed simp
  show ?thesis
    unfolding sym_calc_choice_def
  proof (rule stat_bind2 [where base = base, OF user [OF k]], unfold case_prod_conv, rule stat_bind2 [where base = base, OF default], goal_cases)
    case (2 r k r' k')
    show ?case
      unfolding case_prod_conv
      by (rule stat_any) (use 2 in \<open>auto simp: Let_def intro!: stat_bind1 [where base = base, OF assign]\<close>)
  qed
qed

section \<open>Files\<close>

lemma read_frame_static: "read_frame k k' \<Longrightarrow> static_eq k k'"
  by (simp add: read_frame_def static_eq_def read_eq_def)

lemma stat_read_simple:
  assumes "static_eq base (ks c)"
  shows "returns False (conf_read_simple w name d c) (\<lambda>(b, c'). static_eq base (ks c'))"
proof -
  obtain r c1 where r: "conf_open w name c = (r, c1)" by (cases "conf_open w name c")
  note o = read_frame_static [OF conf_open_result(2) [OF r]]
  have l: "static_eq (ks c1) (ks c')" if "conf_load w d u nm t c1 = Some c'" for nm t u c'
  proof -
    have "read_frame (ks c1) (ks c')"
      using that conf_load_start_result(1) [of c1 nm d] conf_lines_result [of w d u _ "conf_load_start nm d c1"]
      by (auto simp: conf_load_def intro: read_frame_trans)
    then show ?thesis by (rule read_frame_static)
  qed
  show ?thesis
    using r o l assms static_eq_trans by (fastforce simp: conf_read_simple_def Let_def returns_False split: option.splits)
qed

lemma stat_run_ks: "returns False (f (ks c)) (static_eq base) \<Longrightarrow> returns False (run_ks f c) (\<lambda>c'. static_eq base (ks c'))"
  by (auto simp: run_ks_def returns_False)

lemma stat_conf_read:
  assumes "static_eq base (ks c)"
  shows "returns False (conf_read w (sym_calc_value n) name c) (\<lambda>(b, c'). static_eq base (ks c'))"
proof -
  have k: "returns False (run_ks (sym_calc_value n a) c) (\<lambda>c'. static_eq base (ks c'))" if "static_eq base (ks c)" for a c
    using that by (intro stat_run_ks stat_calc)
  have check: "returns False (conf_read_check (sym_calc_value n) as c) (\<lambda>c'. static_eq base (ks c'))" if "static_eq base (ks c)" for as c
    using that by (induction as arbitrary: c) (auto intro!: returns_bind [OF k])
  show ?thesis
    unfolding conf_read_def
    by (rule returns_bind [OF stat_read_simple [where base = base]])
       (use assms in \<open>auto intro!: returns_bind [OF k] returns_bind [OF check]\<close>)
qed

lemma stat_write_entry:
  "static_eq base (snd s) \<Longrightarrow> returns False (conf_write_entry d (sym_calc_value n) cfg m s) (\<lambda>(t, s). static_eq base (snd s))"
  unfolding conf_write_entry_def
  by (cases s) (auto simp: Let_def intro!: stat_bind1 [where base = base, OF stat_calc] stat_bind2 [where base = base, OF stat_visible]
      split: option.split)

lemma stat_write_end:
  "static_eq base (snd s) \<Longrightarrow> returns False (conf_write_end d (sym_calc_value n) m s) (\<lambda>(t, s). static_eq base (snd s))"
proof -
  have "returns False (Option.bind (m_prompt (menus k m)) (\<lambda>p. if p_type (props k p) = P_MENU then Some (x, y, k) else Some (z, u, k)))
      (\<lambda>(t, s). static_eq base (snd s))" if "static_eq base k" for k x y z u
    by (rule stat_any) (use that in auto)
  then show "static_eq base (snd s) \<Longrightarrow> ?thesis"
    unfolding conf_write_end_def
    by (cases s) (auto intro!: stat_bind2 [where base = base, OF stat_visible])
qed

lemma stat_write_up:
  assumes "conf_write_up d (sym_calc_value n) m s = Some r" "static_eq base (snd s)"
  shows "static_eq base (snd (snd (snd r)))"
proof -
  have "sym_calc_value n = sym_calc_value n \<longrightarrow> static_eq base (snd s) \<longrightarrow> static_eq base (snd (snd (snd r)))"
  proof (rule conf_write_up.raw_induct [where P = "\<lambda>d c m s r. c = sym_calc_value n \<longrightarrow> static_eq base (snd s) \<longrightarrow> static_eq base (snd (snd (snd r)))",
        OF _ assms(1)], intro impI)
    fix rec d c m s r
    assume IH: "\<And>d c m s r. rec d c m s = Some r \<Longrightarrow> c = sym_calc_value n \<longrightarrow> static_eq base (snd s) \<longrightarrow> static_eq base (snd (snd (snd r)))"
      and e: "Option.bind (conf_write_end d c m s) (\<lambda>(t, s).
         case m_next (menus (snd s) m) of
           Some n \<Rightarrow> Some (t, Some n, s)
         | None \<Rightarrow>
             (case m_parent (menus (snd s) m) of
                None \<Rightarrow> Some (t, None, s)
              | Some p \<Rightarrow> Option.bind (rec d c p s) (\<lambda>(t', r). Some (t @ t', r)))) = Some r"
      and c: "c = sym_calc_value n" "static_eq base (snd s)"
    obtain t s1 where s1: "conf_write_end d c m s = Some (t, s1)" using e by (cases "conf_write_end d c m s") auto
    with stat_write_end [OF c(2), of d n m] c(1) have "static_eq base (snd s1)" by (cases s1) (simp add: returns_False)
    with e s1 IH [of d c _ s1] c(1) show "static_eq base (snd (snd (snd r)))"
      by (fastforce simp: bind_Some_iff split: option.splits)
  qed
  with assms(2) show ?thesis by simp
qed

lemma stat_write_walk:
  assumes "conf_write_walk d (sym_calc_value n) cfg m s = Some r" "static_eq base (snd s)"
  shows "static_eq base (snd (snd r))"
proof -
  have "sym_calc_value n = sym_calc_value n \<longrightarrow> static_eq base (snd s) \<longrightarrow> static_eq base (snd (snd r))"
  proof (rule conf_write_walk.raw_induct [where P = "\<lambda>d c cfg m s r. c = sym_calc_value n \<longrightarrow> static_eq base (snd s) \<longrightarrow> static_eq base (snd (snd r))",
        OF _ assms(1)], intro impI)
    fix rec d c cfg m s r
    assume IH: "\<And>d c cfg m s r. rec d c cfg m s = Some r \<Longrightarrow> c = sym_calc_value n \<longrightarrow> static_eq base (snd s) \<longrightarrow> static_eq base (snd (snd r))"
      and e: "(case m of
          None \<Rightarrow> Some ('''', s)
        | Some m \<Rightarrow>
            Option.bind (conf_write_entry d c cfg m s) (\<lambda>(t, s).
              case m_list (menus (snd s) m) of
                Some n \<Rightarrow> Option.bind (rec d c cfg (Some n) s) (\<lambda>(t', s). Some (t @ t', s))
              | None \<Rightarrow>
                  Option.bind (conf_write_up d c m s) (\<lambda>(t', n, s).
                    Option.bind (rec d c cfg n s) (\<lambda>(t'', s). Some (t @ t' @ t'', s))))) = Some r"
      and c: "c = sym_calc_value n" "static_eq base (snd s)"
    show "static_eq base (snd (snd r))"
    proof (cases m)
      case (Some i)
      with e obtain t s1 where s1: "conf_write_entry d c cfg i s = Some (t, s1)" by (cases "conf_write_entry d c cfg i s") auto
      with stat_write_entry [OF c(2), of d n cfg i] c(1) have k1: "static_eq base (snd s1)" by (cases s1) (simp add: returns_False)
      show ?thesis
      proof (cases "m_list (menus (snd s1) i)")
        case None
        with e s1 Some obtain t' j s2 where s2: "conf_write_up d c i s1 = Some (t', j, s2)"
          by (cases "conf_write_up d c i s1") auto
        with stat_write_up [of d n i s1] k1 c(1) have "static_eq base (snd s2)" by fastforce
        with e s1 s2 None Some IH [of d c cfg j s2] c(1) show ?thesis by (auto simp: bind_Some_iff)
      qed (use e s1 Some IH [of d c cfg _ s1] k1 c(1) in \<open>auto simp: bind_Some_iff\<close>)
    qed (use e c in auto)
  qed
  with assms(2) show ?thesis by simp
qed

lemma stat_all_written: "static_eq base (all_symbols (del_flags {SYMBOL_WRITTEN}) k) = static_eq base k"
proof -
  have "static_eq base (fold (\<lambda>a. upd_sym a (del_flags {SYMBOL_WRITTEN})) as k) = static_eq base k" for as
    by (induction as arbitrary: k) (simp_all add: stat_upd del_flags_def)
  then show ?thesis by (simp add: all_symbols_def)
qed

lemma stat_write_text:
  assumes "static_eq base (ks c)"
  shows "returns False (conf_write_text d (sym_calc_value n) c) (\<lambda>(t, c'). static_eq base (ks c'))"
proof -
  have clear: "returns False (if b then Some c else clear_all_valid (sym_calc_value n) c) (\<lambda>c'. static_eq base (ks c'))" for b
    using assms by (auto simp: clear_all_valid_def conf_set_changed_def Let_def intro!: stat_run_ks stat_clear_all)
  have walk: "returns False (run_ks_value (\<lambda>k. Option.bind (conf_write_walk d (sym_calc_value n) cfg (m_list (menus k rootmenu)) (False, k))
      (\<lambda>(t, _, k). Some (t, k))) c) (\<lambda>(t, c'). static_eq base (ks c'))" if "static_eq base (ks c)" for c cfg
    using that by (auto simp: run_ks_value_def returns_False bind_Some_iff dest: stat_write_walk)
  show ?thesis
    unfolding conf_write_text_def
  proof (rule stat_any, rule returns_bind [OF clear], goal_cases)
    case (1 h c)
    show ?case
      by (rule returns_bind [OF walk [OF 1]]) (auto simp: stat_all_written)
  qed
qed

lemma static_cong: "ks c' = ks c \<Longrightarrow> static_eq base (ks c') = static_eq base (ks c)"
  by simp

lemma stat_conf_sel [simp]:
  "static_eq base (ks (conf_set_changed v c)) = static_eq base (ks c)" "static_eq base (ks (eprint t c)) = static_eq base (ks c)"
  by (simp_all add: conf_set_changed_def eprint_def Let_def static_eq_def)

lemma file_ks [simp]:
  "ks (set_file w p t c) = ks c" "ks (unlink_file w p c) = ks c" "ks (snd (rename_file w p q c)) = ks c"
  "ks (snd (write_file w p t c)) = ks c"
  by (simp_all add: set_file_def unlink_file_def rename_file_def write_file_def split: option.split prod.split)

lemma open_write_ks: "open_write w p c = Some c' \<Longrightarrow> ks c' = ks c"
  by (auto simp: open_write_def split: if_splits)

lemma make_dirs_ks: "ks (snd (make_dirs w b r c)) = ks c"
proof (induction w b r c rule: make_dirs.induct)
  case (1 w b r c)
  have "make_dir w p c = Some c' \<Longrightarrow> ks c' = ks c" for p c' by (auto simp: make_dir_def split: if_splits)
  with 1 show ?case by (subst make_dirs.simps) (auto simp: Let_def split: option.split prod.split)
qed

lemma make_parent_ks: "make_parent_dir w p c = (b, c') \<Longrightarrow> ks c' = ks c"
  using make_dirs_ks by (auto simp: make_parent_dir_def split: option.splits dest: arg_cong [where f = "\<lambda>x. ks (snd x)"])

lemma replace_ks: "static_eq base (ks (snd (conf_write_replace w p q c))) = static_eq base (ks c)"
proof -
  have "ks (snd (rename_file w q p (snd (rename_file w p r c)))) = ks c" for r by simp
  then show ?thesis by (auto simp: conf_write_replace_def Let_def case_prod_beta)
qed

lemma stat_conf_write:
  assumes "static_eq base (ks c)"
  shows "returns False (conf_write w d (sym_calc_value n) name c) (\<lambda>(r, c'). static_eq base (ks c'))"
proof -
  have wt: "returns False (Option.bind (conf_write_text d (sym_calc_value n) c) (\<lambda>(t, c). let c = snd (write_file w out t c) in
       if ov then Some (0, conf_set_changed False (conf_message msg c)) else Some (conf_write_replace w p out c)))
      (\<lambda>(r, c'). static_eq base (ks c'))" if "static_eq base (ks c)" for c out msg ov p
    by (rule returns_bind [OF stat_write_text [OF that]]) (auto simp: Let_def, metis replace_ks file_ks(4) snd_conv)
  have op: "returns False (case open_write w out c of None \<Rightarrow> Some (1, c)
       | Some c \<Rightarrow> Option.bind (conf_write_text d (sym_calc_value n) c) (\<lambda>(t, c). let c = snd (write_file w out t c) in
           if ov then Some (0, conf_set_changed False (conf_message msg c)) else Some (conf_write_replace w p out c)))
      (\<lambda>(r, c'). static_eq base (ks c'))" if "static_eq base (ks c)" for c out msg ov p
  proof (cases "open_write w out c")
    case (Some c1)
    have "static_eq base (ks c1)" using that open_write_ks [OF Some] by simp
    from wt [OF this] Some show ?thesis by simp
  qed (use that in simp)
  define nm where "nm = (case name of Some n \<Rightarrow> n | None \<Rightarrow> conf_get_configname c)"
  obtain b c1 where mp: "make_parent_dir w nm c = (b, c1)" by (cases "make_parent_dir w nm c")
  have "static_eq base (ks c1)" using make_parent_ks [OF mp] assms by simp
  note o = op [OF this]
  show ?thesis
    unfolding conf_write_def nm_def [symmetric] Let_def [of nm] mp
    using assms o \<open>static_eq base (ks c1)\<close> by (cases b) (simp_all add: Let_def)
qed

section \<open>The interface of the menus\<close>

text \<open>
  \<open>K base k\<close>: what is known at the beginning of a session still holds. The laws are those that the
  menus rely on, one for each operation they call.
\<close>

locale menu_session =
  fixes K :: "kstate \<Rightarrow> kstate \<Rightarrow> bool" and calc :: calc
  assumes choice_law: "K base k \<Longrightarrow> returns False (sym_calc_choice calc m k) (\<lambda>(v, k). K base k)"
    and visible_law: "K base k \<Longrightarrow> returns False (menu_is_visible d calc m k) (\<lambda>(v, k). K base k)"
    and empty_law: "K base k \<Longrightarrow> returns False (menu_is_empty d calc m k) (\<lambda>(v, k). K base k)"
    and help_law: "K base k \<Longrightarrow> returns False (menu_get_ext_help cfg keys d calc m h k) (\<lambda>(v, k). K base k)"
    and relations_law: "K base k \<Longrightarrow> returns False (get_relations_str keys d calc as head k) (\<lambda>(v, k). K base k)"
    and search_law: "K base k \<Longrightarrow> returns False (sym_re_search rx calc t k) (\<lambda>(v, k). K base k)"
    and tristate_law: "K base k \<Longrightarrow> returns False (sym_set_tristate_value calc a v k) (\<lambda>(b, k). K base k)"
    and toggle_law: "K base k \<Longrightarrow> returns False (sym_toggle_tristate_value calc a k) (\<lambda>(v, k). K base k)"
    and choose_law: "K base k \<Longrightarrow> returns False (choice_set_value calc m a k) (K base)"
    and text_law: "K base k \<Longrightarrow> returns False (sym_set_string_value calc a t k) (\<lambda>(v, k). K base k)"
    and changed_law: "K base (k\<lparr>conf_changed := b\<rparr>) = K base k"
    and read_law: "K base (ks c) \<Longrightarrow> returns False (conf_read w calc name c) (\<lambda>(b, c). K base (ks c))"
    and write_law: "K base (ks c) \<Longrightarrow> returns False (conf_write w d calc name c) (\<lambda>(r, c). K base (ks c))"
begin

text \<open>\<open>session_kept r s\<close>: since \<open>r\<close>, only what the user may change in a session has changed.\<close>

definition session_kept :: "mconf \<Rightarrow> mconf \<Rightarrow> bool" where
  "session_kept r s \<longleftrightarrow> K (mk r) (mk s) \<and> trail s = trail r \<and> single_menu_mode s = single_menu_mode r
     \<and> save_and_exit s = save_and_exit r \<and> mc_silent s = mc_silent r"

lemma unchanged_kept [simp]:
  "session_kept r (s\<lparr>mc_indent := i\<rparr>) = session_kept r s" "session_kept r (s\<lparr>mc_menu := m\<rparr>) = session_kept r s" "session_kept r (s\<lparr>child_count := c\<rparr>) = session_kept r s"
  "session_kept r (s\<lparr>show_all_options := b\<rparr>) = session_kept r s" "session_kept r (s\<lparr>mc_filename := t\<rparr>) = session_kept r s" "session_kept r (s\<lparr>backtitle := t\<rparr>) = session_kept r s"
  "session_kept r (s\<lparr>subtitles := ts\<rparr>) = session_kept r s" "session_kept r (s\<lparr>unrolled := u\<rparr>) = session_kept r s" "session_kept r (s\<lparr>items := l\<rparr>) = session_kept r s"
  "session_kept r (s\<lparr>dialog_input_result := t\<rparr>) = session_kept r s" "session_kept r (s\<lparr>scr := d\<rparr>) = session_kept r s"
  "session_kept r (count_child s) = session_kept r s" "session_kept r (set_subtitle s) = session_kept r s" "session_kept r (reset_subtitle s) = session_kept r s"
  by (simp_all add: session_kept_def count_child_def set_subtitle_def reset_subtitle_def)

lemma changed_kept: "session_kept r (on_mc (conf_set_changed b) s) = session_kept r s"
  by (simp add: session_kept_def on_mc_def conf_set_changed_def on_ks_def Let_def changed_law)

lemma kept_push: "session_kept r s \<Longrightarrow> session_kept (r\<lparr>trail := trail r @ [x]\<rparr>) (s\<lparr>trail := trail s @ [x]\<rparr>)"
  by (simp add: session_kept_def)

lemma kept_pop: "session_kept (r\<lparr>trail := trail r @ [x]\<rparr>) s \<Longrightarrow> session_kept r (s\<lparr>trail := butlast (trail s)\<rparr>)"
  by (simp add: session_kept_def)

lemma kept_mk: "session_kept r s \<Longrightarrow> K (mk r) (mk s)"
  by (simp add: session_kept_def)

lemma kept_run_mk:
  assumes "session_kept r s" and "\<And>k. K (mk r) k \<Longrightarrow> returns False (g k) (\<lambda>(v, k). K (mk r) k)"
  shows "returns False (run_mk g s) (\<lambda>(v, s). session_kept r s)"
  using assms(1) assms(2) [OF kept_mk [OF assms(1)]] by (auto simp: run_mk_def returns_False session_kept_def)

lemma kept_bind: "returns False m (\<lambda>(v, s). session_kept r s) \<Longrightarrow> (\<And>v s. session_kept r s \<Longrightarrow> returns False (f (v, s)) Q) \<Longrightarrow> returns False (Option.bind m f) Q"
  by (rule returns_bind [where P = "\<lambda>(v, s). session_kept r s"]) auto

lemma kept_bind1: "returns False m (session_kept r) \<Longrightarrow> (\<And>s. session_kept r s \<Longrightarrow> returns False (f s) Q) \<Longrightarrow> returns False (Option.bind m f) Q"
  by (rule returns_bind)

lemma rounds_kept: "(\<And>s. P s \<Longrightarrow> returns False (g s) (\<lambda>(b, s). P s)) \<Longrightarrow> P s \<Longrightarrow> returns False (rounds g s) P"
  unfolding returns_False by (auto intro: rounds_invariant [where I = P])

lemma on_items_kept: "session_kept r s \<Longrightarrow> returns False (on_items g s) (session_kept r)"
  by (auto simp: on_items_def returns_False)

lemma add_item_kept: "session_kept r s \<Longrightarrow> returns False (add_item t c m s) (session_kept r)"
  by (simp add: add_item_def on_items_kept)

section \<open>Building the list\<close>

lemma visible_kept: "session_kept r s \<Longrightarrow> returns False (run_mk (menu_is_visible d calc m) s) (\<lambda>(v, s). session_kept r s)"
  by (intro kept_run_mk visible_law)

lemma empty_kept: "session_kept r s \<Longrightarrow> returns False (run_mk (menu_is_empty d calc m) s) (\<lambda>(v, s). session_kept r s)"
  by (intro kept_run_mk empty_law)

lemma choice_kept: "session_kept r s \<Longrightarrow> returns False (run_mk (sym_calc_choice calc m) s) (\<lambda>(v, s). session_kept r s)"
  by (intro kept_run_mk choice_law)

lemma build_menu_item_kept: "session_kept r s \<Longrightarrow> returns False (build_menu_item d calc m s) (\<lambda>(i, s). session_kept r s)"
  unfolding build_menu_item_def Let_def
  by (auto intro!: kept_bind [where r = r, OF empty_kept] kept_bind [where r = r] kept_bind1 [where r = r, OF add_item_kept] empty_kept)

lemma build_plain_kept: "session_kept r s \<Longrightarrow> returns False (build_plain d calc m s) (\<lambda>(i, s). session_kept r s)"
proof -
  assume k: "session_kept r s"
  have "returns False (build_text_item x y m s) (\<lambda>(i, s). session_kept r s)" for x y
    using add_item_kept [of r "count_child s"] k by (auto simp: build_text_item_def returns_False split: option.split)
  then show ?thesis
    using k by (auto simp: build_plain_def build_menu_item_kept split: option.split prop_type.split)
qed

lemma last_visible_kept:
  assumes "last_visible (menu_is_visible d calc) a c found k = Some (v, k')" "K base k"
  shows "K base k'"
proof -
  have "menu_is_visible d calc = menu_is_visible d calc \<longrightarrow> K base k \<longrightarrow> K base (snd (v, k'))"
  proof (rule last_visible.raw_induct [where P = "\<lambda>f a c found k r. f = menu_is_visible d calc \<longrightarrow> K base k \<longrightarrow> K base (snd r)", OF _ assms(1)], intro impI)
    fix rec f a c found k r
    assume IH: "\<And>f a c found k r. rec f a c found k = Some r \<Longrightarrow> f = menu_is_visible d calc \<longrightarrow> K base k \<longrightarrow> K base (snd r)"
      and e: "(case c of None \<Rightarrow> Some (found, k)
          | Some i \<Rightarrow> Option.bind (f i k) (\<lambda>(v, k). rec f a (m_next (menus k i)) (if v \<and> m_sym (menus k i) = a then Some i else found) k)) = Some r"
      and f: "f = menu_is_visible d calc" "K base k"
    show "K base (snd r)"
    proof (cases c)
      case (Some i)
      with e obtain v k1 where "f i k = Some (v, k1)" by (auto simp: bind_Some_iff)
      moreover from this have "K base k1" using visible_law [OF f(2), of d i] f(1) by (auto simp: returns_False)
      ultimately show ?thesis using e Some f(1) IH by fastforce
    qed (use e f in auto)
  qed
  with assms(2) show ?thesis by simp
qed

lemma build_choice_kept: "session_kept r s \<Longrightarrow> returns False (build_choice d calc m s) (session_kept r)"
proof -
  assume k: "session_kept r s"
  have last: "returns False (run_mk (last_visible (menu_is_visible d calc) a c found) s) (\<lambda>(v, s). session_kept r s)" if "session_kept r s" for a c found s
    using that by (intro kept_run_mk) (auto simp: returns_False dest: last_visible_kept)
  show ?thesis
    unfolding build_choice_def Let_def
  proof (rule kept_bind [OF choice_kept [OF k]], unfold case_prod_conv, rule kept_bind [OF last], goal_cases)
    case (2 a s j s')
    then show ?case
      by (auto intro!: kept_bind1 [where r = r, OF add_item_kept] kept_bind1 [where r = r, OF on_items_kept] on_items_kept split: option.split)
  qed simp
qed

lemma build_symbol_kept: "session_kept r s \<Longrightarrow> returns False (build_symbol d calc m a s) (\<lambda>(i, s). session_kept r s)"
proof -
  assume k: "session_kept r s"
  have str: "returns False (build_string m a (count_child s)) (session_kept r)"
    unfolding build_string_def Let_def
    by (rule stat_any) (use k in \<open>auto intro!: kept_bind1 [where r = r, OF add_item_kept] on_items_kept\<close>)
  have menu: "returns False (Option.bind (m_prompt (menus (mk s) m)) (\<lambda>p. if p_type (props (mk s) p) = P_MENU
        then Option.bind (run_mk (menu_is_empty d calc m) s) (\<lambda>(e, s). Option.bind (on_items (item_add_str (''  '' @ arrow e)) s) (\<lambda>s. Some (None, s)))
        else Some (Some 2, s))) (\<lambda>(i, s). session_kept r s)" if "session_kept r s" for s
    by (rule stat_any) (use that in \<open>auto intro!: kept_bind [where r = r, OF empty_kept] kept_bind1 [where r = r, OF on_items_kept]\<close>)
  show ?thesis
    using k str add_item_kept [OF k] unfolding build_symbol_def Let_def
    by (auto intro!: kept_bind1 [where r = r, OF add_item_kept] kept_bind1 [where r = r, OF on_items_kept] menu)
qed

lemma build_entry_kept: "session_kept r s \<Longrightarrow> returns False (build_entry d calc m s) (\<lambda>(i, s). session_kept r s)"
  by (simp add: build_entry_def build_plain_kept build_symbol_kept build_choice_kept split: option.split)

lemma build_children_kept:
  assumes "build_children g c s = Some s'" "\<And>i s s'. session_kept r s \<Longrightarrow> g i s = Some s' \<Longrightarrow> session_kept r s'" "session_kept r s"
  shows "session_kept r s'"
proof -
  have "(\<forall>i s s'. session_kept r s \<longrightarrow> g i s = Some s' \<longrightarrow> session_kept r s') \<longrightarrow> session_kept r s \<longrightarrow> session_kept r s'"
  proof (rule build_children.raw_induct [where P = "\<lambda>g c s s'. (\<forall>i s s'. session_kept r s \<longrightarrow> g i s = Some s' \<longrightarrow> session_kept r s') \<longrightarrow> session_kept r s \<longrightarrow> session_kept r s'",
        OF _ assms(1)], intro impI)
    fix rec g c s s'
    assume IH: "\<And>g c s s'. rec g c s = Some s' \<Longrightarrow> (\<forall>i s s'. session_kept r s \<longrightarrow> g i s = Some s' \<longrightarrow> session_kept r s') \<longrightarrow> session_kept r s \<longrightarrow> session_kept r s'"
      and e: "(case c of None \<Rightarrow> Some s | Some i \<Rightarrow> Option.bind (g i s) (\<lambda>s. rec g (m_next (menus (mk s) i)) s)) = Some s'"
      and k: "\<forall>i s s'. session_kept r s \<longrightarrow> g i s = Some s' \<longrightarrow> session_kept r s'" "session_kept r s"
    show "session_kept r s'"
    proof (cases c)
      case (Some i)
      with e obtain t where "g i s = Some t" "rec g (m_next (menus (mk t) i)) t = Some s'" by (auto simp: bind_Some_iff)
      with k IH show ?thesis by blast
    qed (use e k in auto)
  qed
  with assms(2,3) show ?thesis by blast
qed

lemma build_conf_kept: "session_kept r s \<Longrightarrow> returns False (build_conf n d calc m s) (session_kept r)"
proof (induction n arbitrary: m s)
  case (Suc n)
  have below: "returns False (build_children (build_conf n d calc) c s) (session_kept r)" if "session_kept r s" for c s
    using build_children_kept [of "build_conf n d calc" c s _ r] that Suc.IH by (auto simp: returns_False)
  show ?case
    unfolding build_conf.simps build_conf_step_def
  proof (rule kept_bind [OF visible_kept [OF Suc.prems]], unfold case_prod_conv, rule stat_if, simp, rule kept_bind [where r = r, OF build_entry_kept], goal_cases)
    case (2 v s i s')
    then show ?case by (cases i) (auto intro!: kept_bind1 [where r = r, OF below])
  qed simp
qed (simp add: returns_False)

section \<open>Dialogs and texts\<close>

lemma dialog_kept:
  "session_kept r s \<Longrightarrow> returns False (show_textbox_ext extra t h w v s) (\<lambda>(x, y, z, s). session_kept r s)"
  "session_kept r s \<Longrightarrow> returns False (show_textbox t h w s) (session_kept r)"
  "session_kept r s \<Longrightarrow> returns False (show_helptext t s) (session_kept r)"
  "session_kept r s \<Longrightarrow> returns False (input_dialog h w init s) (\<lambda>(x, s). session_kept r s)"
  "session_kept r s \<Longrightarrow> returns False (set_config_filename t s) (session_kept r)"
  by (auto simp: show_textbox_ext_def show_textbox_def show_helptext_def input_dialog_def set_config_filename_def returns_False bind_Some_iff session_kept_def)

lemma show_help_kept: "session_kept r s \<Longrightarrow> returns False (show_help d calc m s) (session_kept r)"
  unfolding show_help_def
  by (rule kept_bind [where r = r]) (auto intro!: kept_run_mk help_law dialog_kept)

lemma message_boxes_kept: "session_kept r s \<Longrightarrow> returns False (message_boxes ts s) (session_kept r)"
proof (induction ts arbitrary: s)
  case (Cons t ts)
  have "returns False (message_box t s) (session_kept r)"
    using Cons.prems dialog_kept(2) by (auto simp: message_box_def on_mc_def session_kept_def)
  with Cons.IH show ?case by (auto intro!: kept_bind1 [where r = r])
qed simp

lemma with_messages_kept:
  assumes "session_kept r s" "\<And>c. K (mk r) (ks c) \<Longrightarrow> returns False (g c) (\<lambda>(v, c). K (mk r) (ks c))"
  shows "returns False (with_messages g s) (\<lambda>(v, s). session_kept r s)"
proof -
  have "returns False (on_mc_value g s) (\<lambda>(v, s). session_kept r s)"
    using assms(1) assms(2) [of "mc s"] by (auto simp: on_mc_value_def returns_False session_kept_def)
  then show ?thesis
    unfolding with_messages_def by (rule kept_bind) (auto intro!: kept_bind1 [where r = r, OF message_boxes_kept])
qed

section \<open>The operations of the menus\<close>

lemma choice_items_kept:
  assumes "choice_items d calc m active c s = Some s'" "session_kept r s"
  shows "session_kept r s'"
proof -
  have item: "returns False (choice_item calc m active i s) (session_kept r)" if "session_kept r s" for m active i s
    unfolding choice_item_def Let_def
  proof (rule kept_bind1 [where r = r], goal_cases)
    case 1
    show ?case using that by (simp add: add_item_kept)
  next
    case (2 s)
    show ?case
    proof (rule kept_bind1 [where r = r], goal_cases)
      case 1
      show ?case using 2 by (simp add: on_items_kept)
    next
      case (2 s)
      then show ?case by (intro kept_bind [where r = r, OF choice_kept]) (auto intro: on_items_kept)
    qed
  qed
  have "calc = calc \<longrightarrow> session_kept r s \<longrightarrow> session_kept r s'"
  proof (rule choice_items.raw_induct [where P = "\<lambda>d c m active i s s'. c = calc \<longrightarrow> session_kept r s \<longrightarrow> session_kept r s'", OF _ assms(1)], intro impI)
    fix rec d c m active i s s'
    assume IH: "\<And>d c m active i s s'. rec d c m active i s = Some s' \<Longrightarrow> c = calc \<longrightarrow> session_kept r s \<longrightarrow> session_kept r s'"
      and e: "(case i of None \<Rightarrow> Some s
        | Some i \<Rightarrow> Option.bind (run_mk (menu_is_visible d c i) s) (\<lambda>(v, s).
            Option.bind (if v then choice_item c m active i s else Some s) (\<lambda>s. rec d c m active (m_next (menus (mk s) i)) s))) = Some s'"
      and k: "c = calc" "session_kept r s"
    show "session_kept r s'"
    proof (cases i)
      case (Some j)
      with e obtain v s1 s2 where s: "run_mk (menu_is_visible d c j) s = Some (v, s1)"
        "(if v then choice_item c m active j s1 else Some s1) = Some s2" "rec d c m active (m_next (menus (mk s2) j)) s2 = Some s'"
        by (auto simp: bind_Some_iff)
      have "session_kept r s1" using visible_kept [OF k(2), of d j] s(1) k(1) by (auto simp: returns_False)
      then have "session_kept r s2" using s(2) item [of s1] k(1) by (cases v) (auto simp: returns_False)
      with IH [OF s(3)] k(1) show ?thesis by blast
    qed (use e k in auto)
  qed
  with assms(2) show ?thesis by simp
qed

lemma mconf_choice_round_kept:
  "session_kept r s \<Longrightarrow> returns False (mconf_choice_round d calc m (active, s)) (\<lambda>(b, a, s). session_kept r s)"
proof -
  assume k: "session_kept r s"
  have items: "returns False (choice_items d calc m active c s) (session_kept r)" if "session_kept r s" for c s
    using that choice_items_kept by (auto simp: returns_False)
  show ?thesis
    unfolding mconf_choice_round_def case_prod_conv Let_def
  proof (rule kept_bind1 [OF items], goal_cases)
    case (2 s)
    show ?case
    proof (rule returns_bind [where P = "\<lambda>_. True"], goal_cases)
      case (2 x)
      obtain res l t where x: "x = (res, l, t)" by (cases x)
      obtain selected l' where l': "item_activate_selected l = (selected, l')" by (cases "item_activate_selected l")
      let ?u = "s\<lparr>items := l', scr := t\<rparr>"
      have u: "session_kept r ?u" using \<open>session_kept r s\<close> by simp
      have set: "returns False (run_mk (\<lambda>k. map_option (Pair ()) (choice_set_value calc m a k)) ?u) (\<lambda>(b, s). session_kept r s)" for a
        using u by (intro kept_run_mk) (auto intro: choose_law)
      have pick: "returns False (Option.bind (item_data l') (\<lambda>child. Option.bind child (\<lambda>i. case m_sym (menus (mk ?u) i) of
            None \<Rightarrow> Some (False, active, ?u)
          | Some a \<Rightarrow> Option.bind (run_mk (\<lambda>k. map_option (Pair ()) (choice_set_value calc m a k)) ?u) (\<lambda>(_, s). Some (True, active, s)))))
          (\<lambda>(b, a, s). session_kept r s)"
        by (rule stat_any, rule stat_any) (use u in \<open>auto intro!: kept_bind [where r = r, OF set] split: option.split\<close>)
      have hlp: "returns False (Option.bind (item_data l') (\<lambda>child. Option.bind child (\<lambda>i. Option.bind (show_help d calc i ?u)
            (\<lambda>s. Some (False, m_sym (menus (mk s) i), s))))) (\<lambda>(b, a, s). session_kept r s)"
        by (rule stat_any, rule stat_any) (use u in \<open>auto intro!: kept_bind1 [where r = r, OF show_help_kept]\<close>)
      show ?case
        using u pick hlp
        by (auto simp: x l' intro!: kept_bind1 [where r = r, OF show_help_kept] split: dialog_result.split)
    qed (simp add: returns_def split: option.split)
  qed (use k in simp)
qed

lemma mconf_choice_kept: "session_kept r s \<Longrightarrow> returns False (mconf_choice d calc m s) (session_kept r)"
proof -
  have rounds: "returns False (rounds (mconf_choice_round d calc m) (a, s)) (\<lambda>(a, s). session_kept r s)" if "session_kept r s" for a s
    by (rule rounds_kept) (use that mconf_choice_round_kept in \<open>auto simp: returns_False\<close>)
  show "session_kept r s \<Longrightarrow> ?thesis"
    unfolding mconf_choice_def
    by (auto intro!: kept_bind [where r = r, OF choice_kept] returns_bind [OF rounds])
qed

lemma mconf_string_kept: "session_kept r s \<Longrightarrow> returns False (mconf_string d calc m s) (session_kept r)"
proof -
  have "returns False (mconf_string_round d calc m s) (\<lambda>(b, s). session_kept r s)" if "session_kept r s" for s
    unfolding mconf_string_round_def
  proof (rule stat_any, rule kept_bind [OF dialog_kept(4) [OF that]], goal_cases)
    case (1 a res s)
    have k: "returns False (run_mk (sym_set_string_value calc a (input_text s)) s) (\<lambda>(b, s). session_kept r s)"
      using 1 by (intro kept_run_mk text_law)
    show ?case
      using 1 by (auto intro!: kept_bind [OF k] kept_bind1 [where r = r, OF dialog_kept(2)] kept_bind1 [where r = r, OF show_help_kept]
          split: dialog_result.split)
  qed
  then show "session_kept r s \<Longrightarrow> ?thesis"
    unfolding mconf_string_def by (rule rounds_kept)
qed

lemma mconf_load_kept: "session_kept r s \<Longrightarrow> returns False (mconf_load w calc s) (session_kept r)"
proof -
  have "returns False (mconf_load_round w calc s) (\<lambda>(b, s). session_kept r s)" if "session_kept r s" for s
    unfolding mconf_load_round_def
  proof (rule kept_bind [OF dialog_kept(4) [OF that]], goal_cases)
    case (1 res s)
    have k: "returns False (with_messages (conf_read w calc (Some (input_text s))) s) (\<lambda>(b, s). session_kept r s)"
      using 1 by (intro with_messages_kept read_law)
    show ?case
      using 1 by (auto intro!: kept_bind [OF k] kept_bind1 [where r = r, OF dialog_kept(2)] kept_bind1 [where r = r, OF dialog_kept(3)]
          kept_bind1 [where r = r, OF dialog_kept(5)] simp: changed_kept split: dialog_result.split)
  qed
  then show "session_kept r s \<Longrightarrow> ?thesis"
    unfolding mconf_load_def by (rule rounds_kept)
qed

lemma mconf_save_kept: "session_kept r s \<Longrightarrow> returns False (mconf_save w d calc s) (session_kept r)"
proof -
  have "returns False (mconf_save_round w d calc s) (\<lambda>(b, s). session_kept r s)" if "session_kept r s" for s
    unfolding mconf_save_round_def
  proof (rule kept_bind [OF dialog_kept(4) [OF that]], goal_cases)
    case (1 res s)
    have k: "returns False (with_messages (conf_write w d calc (Some (input_text s))) s) (\<lambda>(b, s). session_kept r s)"
      using 1 by (intro with_messages_kept write_law)
    show ?case
      using 1 by (auto intro!: kept_bind [OF k] kept_bind1 [where r = r, OF dialog_kept(2)] kept_bind1 [where r = r, OF dialog_kept(3)]
          kept_bind1 [where r = r, OF dialog_kept(5)] split: dialog_result.split)
  qed
  then show "session_kept r s \<Longrightarrow> ?thesis"
    unfolding mconf_save_def by (rule rounds_kept)
qed

section \<open>Searching and menus\<close>

definition open_kept :: "(mid \<Rightarrow> mid option \<Rightarrow> mconf \<Rightarrow> mconf option) \<Rightarrow> bool" where
  "open_kept op \<longleftrightarrow> (\<forall>r m a s. session_kept r s \<longrightarrow> returns False (op m a s) (session_kept r))"

lemma open_keptD: "open_kept op \<Longrightarrow> session_kept r s \<Longrightarrow> returns False (op m a s) (session_kept r)"
  by (simp add: open_kept_def)

lemma search_round_kept:
  assumes op: "open_kept op" and k: "session_kept r s"
  shows "returns False (search_round op d calc as (v, s)) (\<lambda>(b, v, s). session_kept r s)"
  unfolding search_round_def case_prod_conv
proof (rule kept_bind [where r = r], goal_cases)
  case 1
  show ?case by (rule kept_run_mk [OF k relations_law])
next
  case (2 x s)
  obtain res head where x: "x = (res, head)" by (cases x)
  show ?case
    unfolding x case_prod_conv
  proof (rule returns_bind, rule dialog_kept(1) [where r = r], goal_cases)
    case (2 y)
    then obtain dres target scrolled s where y: "y = (dres, target, scrolled, s)" "session_kept r s" by (cases y) auto
    have "returns False (Option.bind target (\<lambda>t. Option.bind (m_parent (menus (mk s) t)) (\<lambda>p. Option.bind (op p (Some t) s)
        (\<lambda>s. Some (False, scrolled, s))))) (\<lambda>(b, v, s). session_kept r s)"
      by (rule stat_any, rule stat_any) (use y(2) in \<open>auto intro!: kept_bind1 [where r = r, OF open_keptD [OF op]]\<close>)
    with y show ?case by (auto split: dialog_result.split)
  qed (use 2 in simp)
qed

lemma search_conf_kept:
  assumes op: "open_kept op" and k: "session_kept r s"
  shows "returns False (search_conf op rx d calc s) (session_kept r)"
proof -
  have q: "returns False (rounds search_question (False, s)) (\<lambda>(b, s). session_kept r s)"
  proof (rule rounds_kept)
    fix p :: "bool \<times> mconf" assume "case p of (b, s) \<Rightarrow> session_kept r s"
    then have "session_kept r (snd p)" by (cases p) simp
    then show "returns False (search_question p) (\<lambda>(b, p). case p of (b, s) \<Rightarrow> session_kept r s)"
      by (cases p) (auto simp: search_question_def intro!: kept_bind [where r = r, OF dialog_kept(4)]
          kept_bind1 [where r = r, OF dialog_kept(3)] split: dialog_result.split)
  qed (use k in simp)
  show ?thesis
    unfolding search_conf_def
  proof (rule kept_bind [OF q], goal_cases)
    case (1 found s)
    let ?x = "Some (''Search ('' @ input_text s @ '')'')"
    let ?r = "r\<lparr>trail := trail r @ [?x]\<rparr>"
    have u: "session_kept ?r (s\<lparr>trail := trail s @ [?x]\<rparr>)" using 1 by (rule kept_push)
    have rounds: "returns False (rounds (search_round op d calc as) (v, s)) (\<lambda>(v, s). session_kept ?r s)" if "session_kept ?r s" for as v s
      by (rule rounds_kept) (use that search_round_kept [OF op, of ?r] in \<open>auto simp: returns_False\<close>)
    show ?case
      unfolding case_prod_conv Let_def
      by (rule stat_if, simp add: 1, rule kept_bind [OF kept_run_mk [OF u search_law]], assumption)
         (auto intro!: returns_bind [OF rounds] kept_pop)
  qed
qed

lemma set_tristate_kept: "session_kept r s \<Longrightarrow> returns False (set_tristate calc a v s) (\<lambda>(b, s). session_kept r s)"
  unfolding set_tristate_def by (rule stat_any) (intro kept_run_mk tristate_law)

lemma menu_action_kept:
  assumes op: "open_kept op" and k: "session_kept r s"
  shows "returns False (menu_action op w rx d calc res tag sub s) (session_kept r)"
proof -
  have enter: "returns False (enter_item op d calc tag sub s) (session_kept r)"
  proof -
    have "returns False (Option.bind sub (\<lambda>i. if single_menu_mode s then Some (s\<lparr>unrolled := (unrolled s)(i := \<not> unrolled s i)\<rparr>) else op i None s)) (session_kept r)"
      by (rule stat_any) (use k op in \<open>auto intro: open_keptD\<close>)
    moreover have "returns False (Option.bind sub (\<lambda>i. Option.bind (m_sym (menus (mk s) i)) (\<lambda>a.
        if sym_is_choice (syms (mk s) a) then mconf_choice d calc i s
        else Option.bind (m_prompt (menus (mk s) i)) (\<lambda>p. if p_type (props (mk s) p) = P_MENU then op i None s else Some s)))) (session_kept r)"
      by (rule stat_any, rule stat_any, rule stat_if, rule mconf_choice_kept [OF k], rule stat_any) (use k op in \<open>auto intro: open_keptD\<close>)
    moreover have "returns False (Option.bind sub (\<lambda>i. mconf_string d calc i s)) (session_kept r)"
      by (rule stat_any) (rule mconf_string_kept [OF k])
    ultimately show ?thesis using k by (simp add: enter_item_def)
  qed
  have yes: "returns False (press_yes calc a s) (session_kept r)" for a
    unfolding press_yes_def
    by (rule kept_bind [OF set_tristate_kept [OF k]])
       (auto intro!: kept_bind [where r = r, OF set_tristate_kept] dialog_kept)
  have space: "returns False (press_space op calc tag sub a s) (session_kept r)" for a
  proof -
    have "returns False (Option.bind a (\<lambda>a. Option.bind (run_mk (sym_toggle_tristate_value calc a) s) (\<lambda>(_, s). Some s))) (session_kept r)"
      by (rule stat_any, rule kept_bind [OF kept_run_mk [OF k toggle_law]]) auto
    moreover have "returns False (Option.bind sub (\<lambda>i. op i None s)) (session_kept r)"
      by (rule stat_any) (rule open_keptD [OF op k])
    ultimately show ?thesis using k by (simp add: press_space_def)
  qed
  have tri: "returns False (map_option snd (set_tristate calc a v s)) (session_kept r)" for a v
    using set_tristate_kept [OF k, of a v] by (auto simp: returns_False)
  have hlp: "returns False (Option.bind sub (\<lambda>i. show_help d calc i s)) (session_kept r)"
    by (rule stat_any) (rule show_help_kept [OF k])
  have reset: "session_kept r (reset_subtitle s)" using k by simp
  show ?thesis
    unfolding menu_action_def Let_def
    by (intro stat_if enter hlp yes tri space mconf_save_kept mconf_load_kept dialog_kept search_conf_kept op k reset)
       (use k in auto)
qed

lemma mconf_round_kept:
  assumes op: "open_kept op" and k: "session_kept r s"
  shows "returns False (mconf_round op w rx d calc m (a, v, s)) (\<lambda>(b, a, v, s). session_kept r s)"
  unfolding mconf_round_def case_prod_conv
proof (rule kept_bind1 [OF build_conf_kept [where r = r]], goal_cases)
  case (2 s)
  show ?case
  proof (rule stat_if, goal_cases)
    case 2
    have s: "session_kept r (set_subtitle s)" using \<open>session_kept r s\<close> by simp
    show ?case
      unfolding Let_def
    proof (rule returns_bind [where P = "\<lambda>_. True"], simp add: returns_def split: option.split, goal_cases)
      case (1 x)
      obtain res v l t where x: "x = (res, v, l, t)" by (cases x) auto
      let ?u = "(set_subtitle s)\<lparr>scr := t\<rparr>"
      have u: "session_kept r ?u" using s by simp
      show ?case
      proof (cases res)
        case (Pressed b)
        obtain sel l' where l': "(if item_count l \<noteq> 0 then item_activate_selected l else (True, l)) = (sel, l')"
          by (cases "if item_count l \<noteq> 0 then item_activate_selected l else (True, l)")
        have act: "returns False (Option.bind (item_tag l') (\<lambda>tag. if item_count l' \<noteq> 0 \<and> tag = CHR 0x00 then Some (False, a, v, ?u\<lparr>items := l'\<rparr>)
            else Option.bind (item_data l') (\<lambda>sub. Option.bind (menu_action op w rx d calc b tag sub (?u\<lparr>items := l'\<rparr>))
              (\<lambda>s. Some (False, sub, v, s))))) (\<lambda>(b, a, v, s). session_kept r s)"
        proof (rule stat_any, rule stat_if)
          fix tag
          show "returns False (Some (False, a, v, ?u\<lparr>items := l'\<rparr>)) (\<lambda>(b, a, v, s). session_kept r s)" using u by simp
          have act: "returns False (menu_action op w rx d calc b tag sub (?u\<lparr>items := l'\<rparr>)) (session_kept r)" for sub
            by (rule menu_action_kept [OF op]) (use u in simp)
          show "returns False (Option.bind (item_data l') (\<lambda>sub. Option.bind (menu_action op w rx d calc b tag sub (?u\<lparr>items := l'\<rparr>))
              (\<lambda>s. Some (False, sub, v, s)))) (\<lambda>(b, a, v, s). session_kept r s)"
            by (rule stat_any, rule kept_bind1 [OF act]) simp
        qed
        show ?thesis
          using u act by (simp add: x Pressed l')
      qed (use u in \<open>simp_all add: x\<close>)
    qed
  qed (use 2 in simp)
qed (use k in simp)

lemma mconf_step_kept:
  assumes op: "open_kept op" and k: "session_kept r s"
  shows "returns False (mconf_step op w rx d calc m a s) (session_kept r)"
proof -
  define x where "x = (if m \<noteq> rootmenu then menu_get_prompt (mk s) m else None)"
  let ?r = "r\<lparr>trail := trail r @ [x]\<rparr>"
  have u: "session_kept ?r (s\<lparr>trail := trail s @ [x]\<rparr>)" using k by (rule kept_push)
  have "returns False (rounds (mconf_round op w rx d calc m) (a, 0, s\<lparr>trail := trail s @ [x]\<rparr>)) (\<lambda>(a, v, s). session_kept ?r s)"
    by (rule rounds_kept) (use u mconf_round_kept [OF op, of ?r] in \<open>auto simp: returns_False\<close>)
  then show ?thesis
    unfolding mconf_step_def Let_def x_def [symmetric]
    by (rule returns_bind) (auto intro: kept_pop)
qed

lemma mconf_menu_kept: "open_kept (mconf_menu n w rx d calc)"
proof (induction n)
  case (Suc n)
  then show ?case using mconf_step_kept unfolding open_kept_def by simp
qed (simp add: open_kept_def returns_False)

end

section \<open>The tree and the symbols are session_kept\<close>

interpretation tree: menu_session static_eq "sym_calc_value n" for n
  by unfold_locales
     (simp_all add: stat_calc_choice stat_visible stat_empty stat_help stat_relations stat_search stat_set_tristate stat_toggle
        stat_choice_set stat_set_string stat_conf_read stat_conf_write)

section \<open>Loops that do not end\<close>

text \<open>
  The loops around an input box know the results 0, 1 and \<open>KEY_ESC\<close> only. On a screen that has become
  too small for the box, which then returns at once, they go on for ever.
\<close>

lemma rounds_diverge:
  assumes "I s" and "\<And>s. I s \<Longrightarrow> \<exists>s'. g s = Some (False, s') \<and> I s'"
  shows "rounds g s = None"
proof (rule ccontr)
  assume "rounds g s \<noteq> None"
  then obtain s' where "rounds g s = Some s'" by blast
  from rounds_last [where I = I, OF this assms(1)] assms(2) obtain t where "I t" "g t = Some (True, s')"
    by fastforce
  with assms(2) show False by fastforce
qed

lemma input_dialog_too_small:
  assumes "scr_rows (scr s) \<le> h - 2 \<or> scr_cols (scr s) \<le> w - 2"
  shows "\<exists>t. input_dialog h w init s = Some (Too_small, s\<lparr>dialog_input_result := t\<rparr>)"
proof -
  let ?t = "input_start init (dialog_input_result s)"
  have "input_dialog h w init s = Some (Too_small, s\<lparr>dialog_input_result := ?t, scr := scr s\<rparr>)"
    using assms by (auto simp: input_dialog_def dialog_inputbox_def input_layout_def Let_def)
  also have "s\<lparr>dialog_input_result := ?t, scr := scr s\<rparr> = s\<lparr>dialog_input_result := ?t\<rparr>" by simp
  finally show ?thesis by blast
qed

lemma input_loops_need_a_large_screen:
  assumes "scr_rows (scr s) \<le> 8 \<or> scr_cols (scr s) \<le> 53"
  shows "mconf_load w calc s = None \<and> mconf_save w d calc s = None
    \<and> (\<forall>a t. m_sym (menus (mk s) m) = Some a \<and> pointed (sym_get_string_value (syms (mk s) a)) = Some t \<longrightarrow> mconf_string d calc m s = None)"
proof -
  let ?I = "\<lambda>u. mc u = mc s \<and> scr u = scr s"
  have small: "\<exists>t. input_dialog h x init u = Some (Too_small, u\<lparr>dialog_input_result := t\<rparr>)" if "?I u" "10 \<le> h" "55 \<le> x" for u h x init
    by (rule input_dialog_too_small) (use assms that in auto)
  have load: "\<exists>u'. mconf_load_round w calc u = Some (False, u') \<and> ?I u'" if "?I u" for u
    using small [OF that, of 11 55 "Some (mc_filename u)"] that by (auto simp: mconf_load_round_def)
  have save: "\<exists>u'. mconf_save_round w d calc u = Some (False, u') \<and> ?I u'" if "?I u" for u
    using small [OF that, of 11 55 "Some (mc_filename u)"] that by (auto simp: mconf_save_round_def)
  have edit: "\<exists>u'. mconf_string_round d calc m u = Some (False, u') \<and> ?I u'"
    if "?I u" "m_sym (menus (mk s) m) = Some a" "pointed (sym_get_string_value (syms (mk s) a)) = Some t" for u a t
    using small [OF that(1), of 10 75 "Some t"] that by (auto simp: mconf_string_round_def)
  show ?thesis
    unfolding mconf_load_def mconf_save_def mconf_string_def
    by (intro conjI allI impI; rule rounds_diverge [where I = ?I]) (use load save edit in auto)
qed

end
