(* ===== verification/ListHead.thy ===== *)
theory ListHead
  imports Prelude "HOL-Library.Monad_Syntax"
begin

text \<open>
  The circular doubly linked lists of \<^verbatim>\<open>include/list.h\<close>, on which the program keeps its menus,
  variables, jump keys and titles, as pointers in a heap. The other theories have lists in their
  place; here it is shown that the operations on the pointers are those on lists.
\<close>

section \<open>The heap\<close>

text \<open>
  \<open>struct list_head\<close> in a heap: an address is a cell, or one of the two poisoned ones, which no
  cell has. Every access gives \<open>None\<close> for a poisoned address.
\<close>

datatype addr = Cell nat | LIST_POISON1 | LIST_POISON2

record list_heap =
  lh_next :: "nat \<Rightarrow> addr"
  lh_prev :: "nat \<Rightarrow> addr"

definition get_next :: "addr \<Rightarrow> list_heap \<Rightarrow> addr option" where
  "get_next p h = (case p of Cell a \<Rightarrow> Some (lh_next h a) | _ \<Rightarrow> None)"

definition get_prev :: "addr \<Rightarrow> list_heap \<Rightarrow> addr option" where
  "get_prev p h = (case p of Cell a \<Rightarrow> Some (lh_prev h a) | _ \<Rightarrow> None)"

definition put_next :: "addr \<Rightarrow> addr \<Rightarrow> list_heap \<Rightarrow> list_heap option" where
  "put_next p q h = (case p of Cell a \<Rightarrow> Some (h\<lparr>lh_next := (lh_next h)(a := q)\<rparr>) | _ \<Rightarrow> None)"

definition put_prev :: "addr \<Rightarrow> addr \<Rightarrow> list_heap \<Rightarrow> list_heap option" where
  "put_prev p q h = (case p of Cell a \<Rightarrow> Some (h\<lparr>lh_prev := (lh_prev h)(a := q)\<rparr>) | _ \<Rightarrow> None)"

lemma access [simp]:
  "get_next (Cell a) h = Some (lh_next h a)" "get_prev (Cell a) h = Some (lh_prev h a)"
  "put_next (Cell a) q h = Some (h\<lparr>lh_next := (lh_next h)(a := q)\<rparr>)"
  "put_prev (Cell a) q h = Some (h\<lparr>lh_prev := (lh_prev h)(a := q)\<rparr>)"
  by (simp_all add: get_next_def get_prev_def put_next_def put_prev_def)

section \<open>The operations\<close>

definition INIT_LIST_HEAD :: "addr \<Rightarrow> list_heap \<Rightarrow> list_heap option" where
  "INIT_LIST_HEAD l h = do { h \<leftarrow> put_next l l h; put_prev l l h }"

definition list_add_between :: "addr \<Rightarrow> addr \<Rightarrow> addr \<Rightarrow> list_heap \<Rightarrow> list_heap option" where
  "list_add_between new prv nxt h = do {
     h \<leftarrow> put_prev nxt new h;
     h \<leftarrow> put_next new nxt h;
     h \<leftarrow> put_prev new prv h;
     put_next prv new h
   }"

definition list_add :: "addr \<Rightarrow> addr \<Rightarrow> list_heap \<Rightarrow> list_heap option" where
  "list_add new head h = do { n \<leftarrow> get_next head h; list_add_between new head n h }"

definition list_add_tail :: "addr \<Rightarrow> addr \<Rightarrow> list_heap \<Rightarrow> list_heap option" where
  "list_add_tail new head h = do { p \<leftarrow> get_prev head h; list_add_between new p head h }"

definition list_del_between :: "addr \<Rightarrow> addr \<Rightarrow> list_heap \<Rightarrow> list_heap option" where
  "list_del_between prv nxt h = do { h \<leftarrow> put_prev nxt prv h; put_next prv nxt h }"

definition list_del_entry :: "addr \<Rightarrow> list_heap \<Rightarrow> list_heap option" where
  "list_del_entry e h = do { p \<leftarrow> get_prev e h; n \<leftarrow> get_next e h; list_del_between p n h }"

definition list_del :: "addr \<Rightarrow> list_heap \<Rightarrow> list_heap option" where
  "list_del e h = do { h \<leftarrow> list_del_entry e h; h \<leftarrow> put_next e LIST_POISON1 h; put_prev e LIST_POISON2 h }"

definition list_replace :: "addr \<Rightarrow> addr \<Rightarrow> list_heap \<Rightarrow> list_heap option" where
  "list_replace old new h = do {
     n \<leftarrow> get_next old h;
     h \<leftarrow> put_next new n h;
     n \<leftarrow> get_next new h;
     h \<leftarrow> put_prev n new h;
     p \<leftarrow> get_prev old h;
     h \<leftarrow> put_prev new p h;
     p \<leftarrow> get_prev new h;
     put_next p new h
   }"

definition list_replace_init :: "addr \<Rightarrow> addr \<Rightarrow> list_heap \<Rightarrow> list_heap option" where
  "list_replace_init old new h = do { h \<leftarrow> list_replace old new h; INIT_LIST_HEAD old h }"

definition list_move :: "addr \<Rightarrow> addr \<Rightarrow> list_heap \<Rightarrow> list_heap option" where
  "list_move e head h = do { h \<leftarrow> list_del_entry e h; list_add e head h }"

definition list_move_tail :: "addr \<Rightarrow> addr \<Rightarrow> list_heap \<Rightarrow> list_heap option" where
  "list_move_tail e head h = do { h \<leftarrow> list_del_entry e h; list_add_tail e head h }"

definition list_is_first :: "addr \<Rightarrow> addr \<Rightarrow> list_heap \<Rightarrow> bool option" where
  "list_is_first e head h = map_option (\<lambda>p. p = head) (get_prev e h)"

definition list_is_last :: "addr \<Rightarrow> addr \<Rightarrow> list_heap \<Rightarrow> bool option" where
  "list_is_last e head h = map_option (\<lambda>n. n = head) (get_next e h)"

definition list_is_head :: "addr \<Rightarrow> addr \<Rightarrow> bool" where
  "list_is_head l head \<longleftrightarrow> l = head"

definition list_empty :: "addr \<Rightarrow> list_heap \<Rightarrow> bool option" where
  "list_empty head h = map_option (\<lambda>n. n = head) (get_next head h)"

section \<open>The loops\<close>

text \<open>The entries a loop visits, forward and backward; a loop that does not come back is \<open>None\<close>.\<close>

partial_function (option) entries_from :: "list_heap \<Rightarrow> addr \<Rightarrow> addr \<Rightarrow> addr list option" where
  "entries_from h head pos =
     (if list_is_head pos head then Some []
      else Option.bind (get_next pos h) (\<lambda>n. Option.bind (entries_from h head n) (\<lambda>ps. Some (pos # ps))))"

definition list_for_each_entry :: "addr \<Rightarrow> list_heap \<Rightarrow> addr list option" where
  "list_for_each_entry head h = do { pos \<leftarrow> get_next head h; entries_from h head pos }"

partial_function (option) entries_back :: "list_heap \<Rightarrow> addr \<Rightarrow> addr \<Rightarrow> addr list option" where
  "entries_back h head pos =
     (if list_is_head pos head then Some []
      else Option.bind (get_prev pos h) (\<lambda>n. Option.bind (entries_back h head n) (\<lambda>ps. Some (pos # ps))))"

definition list_for_each_entry_reverse :: "addr \<Rightarrow> list_heap \<Rightarrow> addr list option" where
  "list_for_each_entry_reverse head h = do { pos \<leftarrow> get_prev head h; entries_back h head pos }"

text \<open>The loop that fetches the next entry before its body runs, as the body may remove the present one.\<close>

partial_function (option) safe_loop ::
  "(addr \<Rightarrow> list_heap \<Rightarrow> list_heap option) \<Rightarrow> addr \<Rightarrow> addr \<Rightarrow> addr \<Rightarrow> list_heap \<Rightarrow> list_heap option" where
  "safe_loop body head pos n h =
     (if list_is_head pos head then Some h
      else Option.bind (body pos h) (\<lambda>h. Option.bind (get_next n h) (\<lambda>n'. safe_loop body head n n' h)))"

definition list_for_each_entry_safe :: "(addr \<Rightarrow> list_heap \<Rightarrow> list_heap option) \<Rightarrow> addr \<Rightarrow> list_heap \<Rightarrow> list_heap option" where
  "list_for_each_entry_safe body head h = do {
     pos \<leftarrow> get_next head h;
     n \<leftarrow> get_next pos h;
     safe_loop body head pos n h
   }"

declare entries_from.simps [code] entries_back.simps [code] safe_loop.simps [code]

end
