(* ===== verification/ListRun.thy ===== *)
theory ListRun
  imports ListHead
begin

text \<open>
  The operations of theory \<open>ListHead\<close> keep rings, and are those on lists.
\<close>

section \<open>Rings\<close>

text \<open>Cells in a row that point to each other; a list is a ring of its head and its entries.\<close>

fun links :: "list_heap \<Rightarrow> nat list \<Rightarrow> bool" where
  "links h (a # b # cs) \<longleftrightarrow> lh_next h a = Cell b \<and> lh_prev h b = Cell a \<and> links h (b # cs)"
| "links h _ \<longleftrightarrow> True"

definition ring :: "list_heap \<Rightarrow> nat \<Rightarrow> nat list \<Rightarrow> bool" where
  "ring h head xs \<longleftrightarrow> distinct (head # xs) \<and> links h (head # xs @ [head])"

lemma links_append: "links h (as @ b # cs) \<longleftrightarrow> links h (as @ [b]) \<and> links h (b # cs)"
  by (induction h as rule: links.induct) auto

lemma links_cong:
  assumes "\<And>a. a \<in> set (butlast as) \<Longrightarrow> lh_next h' a = lh_next h a" "\<And>a. a \<in> set (tl as) \<Longrightarrow> lh_prev h' a = lh_prev h a"
  shows "links h' as \<longleftrightarrow> links h as"
  using assms by (induction h as rule: links.induct) auto

text \<open>Two neighbours \<open>p\<close> and \<open>n\<close> cut a ring open.\<close>

lemma links_cut:
  "links h (ps @ p # n # ns) \<longleftrightarrow> links h (ps @ [p]) \<and> lh_next h p = Cell n \<and> lh_prev h n = Cell p \<and> links h (n # ns)"
  by (subst links_append) simp

lemma cut_ring:
  assumes "ring h head (as @ zs @ bs)"
  obtains ps p n ns where "\<And>xs. head # as @ xs @ bs @ [head] = ps @ p # xs @ n # ns"
    "p = last (head # as)" "n = hd (bs @ [head])" "p \<notin> set ps" "p \<notin> set (butlast (n # ns))" "n \<notin> set (tl (ps @ [p]))" "n \<notin> set ns"
    "set (ps @ [p]) = set (head # as)" "set (n # ns) = set (head # bs)"
proof -
  have d: "distinct (head # as @ bs)" using assms by (auto simp: ring_def)
  obtain ps p where p: "head # as = ps @ [p]" by (metis append_butlast_last_id list.distinct(1))
  obtain n ns where n: "bs @ [head] = n # ns" by (metis append_is_Nil_conv list.distinct(1) list.exhaust)
  have "ps @ p # xs @ n # ns = (ps @ [p]) @ xs @ (n # ns)" for xs by simp
  then have e: "head # as @ xs @ bs @ [head] = ps @ p # xs @ n # ns" for xs unfolding p [symmetric] n [symmetric] by simp
  have l: "p = last (head # as)" "n = hd (bs @ [head])" by (metis p last_snoc, metis n list.sel(1))
  have "distinct (head # as)" using d by simp
  then have "distinct (ps @ [p])" unfolding p .
  then have "p \<notin> set ps" by simp
  moreover have b: "butlast (n # ns) = bs" unfolding n [symmetric] by simp
  then have "p \<notin> set (butlast (n # ns))" using d l(1) last_in_set [of "head # as"] by auto
  moreover have t: "tl (ps @ [p]) = as" unfolding p [symmetric] by simp
  have "distinct (bs @ [head])" using d by auto
  then have "distinct (n # ns)" unfolding n .
  then have "n \<notin> set ns" by simp
  moreover have "n \<notin> set (tl (ps @ [p]))" using d l(2) hd_in_set [of "bs @ [head]"] unfolding t by auto
  moreover have "set (ps @ [p]) = set (head # as)" "set (n # ns) = set (head # bs)" unfolding p [symmetric] n [symmetric] by auto
  ultimately show thesis using that e l by blast
qed

lemma cut_keep:
  assumes "p \<notin> set ps" "p \<notin> set (butlast (n # ns))" "n \<notin> set (tl (ps @ [p]))" "n \<notin> set ns"
    and "\<And>a. a \<notin> insert p S \<Longrightarrow> lh_next h' a = lh_next h a" "\<And>a. a \<notin> insert n S \<Longrightarrow> lh_prev h' a = lh_prev h a"
    and "set (ps @ [p]) \<inter> S = {}" "set (n # ns) \<inter> S = {}"
  shows "links h' (ps @ [p]) \<longleftrightarrow> links h (ps @ [p])" "links h' (n # ns) \<longleftrightarrow> links h (n # ns)"
proof -
  have "a \<in> set (tl (ps @ [p])) \<Longrightarrow> a \<in> set (ps @ [p])" "a \<in> set (butlast (n # ns)) \<Longrightarrow> a \<in> set (n # ns)" for a
    by (meson list.set_sel(2) snoc_eq_iff_butlast, meson in_set_butlastD)
  with assms show "links h' (ps @ [p]) \<longleftrightarrow> links h (ps @ [p])" "links h' (n # ns) \<longleftrightarrow> links h (n # ns)"
    by - (rule links_cong; force)+
qed

text \<open>What an operation leaves alone.\<close>

definition same_except :: "nat set \<Rightarrow> list_heap \<Rightarrow> list_heap \<Rightarrow> bool" where
  "same_except S h h' \<longleftrightarrow> (\<forall>a. a \<notin> S \<longrightarrow> lh_next h' a = lh_next h a \<and> lh_prev h' a = lh_prev h a)"

lemma ring_outside: "same_except S h h' \<Longrightarrow> set (head # xs) \<inter> S = {} \<Longrightarrow> ring h' head xs = ring h head xs"
  unfolding ring_def same_except_def by (intro conj_cong links_cong) (auto dest: in_set_butlastD list.set_sel(2) [rotated])

lemma outside_trans: "same_except S h h' \<Longrightarrow> same_except T h' h'' \<Longrightarrow> same_except (S \<union> T) h h''"
  by (simp add: same_except_def)

lemma outside_mono: "same_except S h h' \<Longrightarrow> S \<subseteq> T \<Longrightarrow> same_except T h h'"
  by (auto simp: same_except_def)

section \<open>The operations on a ring\<close>

lemma ring_init: "\<exists>h'. INIT_LIST_HEAD (Cell a) h = Some h' \<and> ring h' a [] \<and> same_except {a} h h'"
  by (simp add: INIT_LIST_HEAD_def ring_def same_except_def)

lemma ring_insert:
  assumes "ring h head (as @ bs)" "new \<notin> set (head # as @ bs)"
  shows "\<exists>h'. list_add_between (Cell new) (Cell (last (head # as))) (Cell (hd (bs @ [head]))) h = Some h'
    \<and> ring h' head (as @ new # bs) \<and> same_except (set (new # head # as @ bs)) h h'"
proof -
  obtain ps p n ns where c:
    "\<And>xs. head # as @ xs @ bs @ [head] = ps @ p # xs @ n # ns" "p = last (head # as)" "n = hd (bs @ [head])"
    "p \<notin> set ps" "p \<notin> set (butlast (n # ns))" "n \<notin> set (tl (ps @ [p]))" "n \<notin> set ns"
    "set (ps @ [p]) = set (head # as)" "set (n # ns) = set (head # bs)"
    by (rule cut_ring [where zs = "[]" and as = as and bs = bs, unfolded append_Nil, OF assms(1)]) (rule that)
  have new: "set (ps @ [p]) \<inter> {new} = {}" "set (n # ns) \<inter> {new} = {}" using assms(2) unfolding c(8,9) by auto
  let ?h = "h\<lparr>lh_prev := (lh_prev h)(n := Cell new, new := Cell p), lh_next := (lh_next h)(new := Cell n, p := Cell new)\<rparr>"
  have f: "list_add_between (Cell new) (Cell p) (Cell n) h = Some ?h" by (simp add: list_add_between_def)
  have "links h (ps @ p # n # ns)" using assms(1) c(1) [of "[]"] by (simp add: ring_def)
  then have "links ?h (ps @ [p])" "links ?h (n # ns)"
    by (subst cut_keep [OF c(4-7) _ _ new, of ?h h]; simp add: links_cut)+
  then have "links ?h (ps @ p # new # n # ns)" using new by (simp add: links_cut)
  then have "links ?h (head # (as @ new # bs) @ [head])" using c(1) [of "[new]"] by simp
  moreover have "p \<in> set (head # as)" "n \<in> set (head # bs)" using c(8,9) by auto
  ultimately show ?thesis using assms unfolding c(2,3) [symmetric] f by (auto simp: ring_def same_except_def)
qed

lemma ring_remove:
  assumes "ring h head (as @ a # bs)"
  shows "\<exists>h'. list_del_entry (Cell a) h = Some h' \<and> ring h' head (as @ bs) \<and> same_except (set (head # as @ bs)) h h'"
proof -
  obtain ps p n ns where c:
    "\<And>xs. head # as @ xs @ bs @ [head] = ps @ p # xs @ n # ns" "p = last (head # as)" "n = hd (bs @ [head])"
    "p \<notin> set ps" "p \<notin> set (butlast (n # ns))" "n \<notin> set (tl (ps @ [p]))" "n \<notin> set ns"
    "set (ps @ [p]) = set (head # as)" "set (n # ns) = set (head # bs)"
    by (rule cut_ring [where zs = "[a]" and as = as and bs = bs, unfolded append_Cons append_Nil, OF assms]) (rule that)
  let ?h = "h\<lparr>lh_prev := (lh_prev h)(n := Cell p), lh_next := (lh_next h)(p := Cell n)\<rparr>"
  have r: "links h (ps @ p # a # n # ns)" using assms c(1) [of "[a]"] by (simp add: ring_def)
  then have "lh_prev h a = Cell p" "lh_next h a = Cell n" by (simp_all add: links_cut)
  then have f: "list_del_entry (Cell a) h = Some ?h" by (simp add: list_del_entry_def list_del_between_def)
  have "links ?h (ps @ [p])" "links ?h (n # ns)"
    by (subst cut_keep [OF c(4-7), of "{}" ?h h]; use r in \<open>simp add: links_cut\<close>)+
  then have "links ?h (ps @ p # n # ns)" by (simp add: links_cut)
  then have "links ?h (head # (as @ bs) @ [head])" using c(1) [of "[]"] by simp
  moreover have "p \<in> set (head # as)" "n \<in> set (head # bs)" using c(8,9) by auto
  ultimately show ?thesis using assms unfolding f by (auto simp: ring_def same_except_def)
qed

lemma ring_replace:
  assumes "ring h head (as @ old # bs)" "new \<notin> set (head # as @ old # bs)"
  shows "\<exists>h'. list_replace (Cell old) (Cell new) h = Some h' \<and> ring h' head (as @ new # bs) \<and> same_except (set (new # head # as @ bs)) h h'"
proof -
  obtain ps p n ns where c:
    "\<And>xs. head # as @ xs @ bs @ [head] = ps @ p # xs @ n # ns" "p = last (head # as)" "n = hd (bs @ [head])"
    "p \<notin> set ps" "p \<notin> set (butlast (n # ns))" "n \<notin> set (tl (ps @ [p]))" "n \<notin> set ns"
    "set (ps @ [p]) = set (head # as)" "set (n # ns) = set (head # bs)"
    by (rule cut_ring [where zs = "[old]" and as = as and bs = bs, unfolded append_Cons append_Nil, OF assms(1)]) (rule that)
  have new: "set (ps @ [p]) \<inter> {new} = {}" "set (n # ns) \<inter> {new} = {}" using assms(2) unfolding c(8,9) by auto
  let ?h = "h\<lparr>lh_prev := (lh_prev h)(n := Cell new, new := Cell p), lh_next := (lh_next h)(new := Cell n, p := Cell new)\<rparr>"
  have r: "links h (ps @ p # old # n # ns)" using assms c(1) [of "[old]"] by (simp add: ring_def)
  then have o: "lh_prev h old = Cell p" "lh_next h old = Cell n" by (simp_all add: links_cut)
  have "old \<noteq> n" using assms(1) c(9) by (auto simp: ring_def)
  then have f: "list_replace (Cell old) (Cell new) h = Some ?h" using o new assms(2) by (simp add: list_replace_def)
  have "links ?h (ps @ [p])" "links ?h (n # ns)"
    by (subst cut_keep [OF c(4-7) _ _ new, of ?h h]; use r in \<open>simp add: links_cut\<close>)+
  then have "links ?h (ps @ p # new # n # ns)" using new by (simp add: links_cut)
  then have "links ?h (head # (as @ new # bs) @ [head])" using c(1) [of "[new]"] by simp
  moreover have "p \<in> set (head # as)" "n \<in> set (head # bs)" using c(8,9) by auto
  ultimately show ?thesis using assms unfolding f by (auto simp: ring_def same_except_def)
qed


section \<open>The loops over a ring\<close>

lemma entries_from_ring:
  "links h (a # xs @ [head]) \<Longrightarrow> head \<notin> set xs \<Longrightarrow> entries_from h (Cell head) (lh_next h a) = Some (map Cell xs)"
  by (induction xs arbitrary: a) (subst entries_from.simps, simp add: list_is_head_def)+

lemma entries_back_ring:
  "links h (head # xs @ [a]) \<Longrightarrow> head \<notin> set xs \<Longrightarrow> entries_back h (Cell head) (lh_prev h a) = Some (map Cell (rev xs))"
proof (induction xs arbitrary: a rule: rev_induct)
  case Nil
  then show ?case by (subst entries_back.simps) (simp add: list_is_head_def)
next
  case (snoc x xs)
  then have "links h ((head # xs) @ x # a # [])" by simp
  then have "links h (head # xs @ [x])" "lh_prev h a = Cell x" using links_cut [of h "head # xs" x a "[]"] by simp_all
  with snoc show ?case by (subst entries_back.simps) (simp add: list_is_head_def)
qed

lemma ring_next:
  assumes "ring h head xs"
  shows "lh_next h head = Cell (hd (xs @ [head]))" "lh_prev h head = Cell (last (head # xs))"
proof -
  have l: "links h (head # xs @ [head])" using assms by (simp add: ring_def)
  then show "lh_next h head = Cell (hd (xs @ [head]))" by (cases xs) auto
  show "lh_prev h head = Cell (last (head # xs))"
  proof (cases xs rule: rev_cases)
    case (snoc ys y)
    then show ?thesis using l links_cut [of h "head # ys" y head "[]"] by simp
  qed (use l in simp)
qed

lemma ring_loops:
  assumes "ring h head xs"
  shows "list_for_each_entry (Cell head) h = Some (map Cell xs)"
    "list_for_each_entry_reverse (Cell head) h = Some (map Cell (rev xs))"
    "list_empty (Cell head) h = Some (xs = [])"
  using assms entries_from_ring [of h head xs head] entries_back_ring [of h head xs head]
  by (auto simp: ring_def list_for_each_entry_def list_for_each_entry_reverse_def list_empty_def, cases xs, auto)

lemma ring_ends:
  assumes "ring h head (as @ a # bs)"
  shows "list_is_first (Cell a) (Cell head) h = Some (as = [])" "list_is_last (Cell a) (Cell head) h = Some (bs = [])"
proof -
  obtain ps p n ns where c: "\<And>xs. head # as @ xs @ bs @ [head] = ps @ p # xs @ n # ns" "p = last (head # as)" "n = hd (bs @ [head])"
    by (rule cut_ring [where zs = "[a]" and as = as and bs = bs, unfolded append_Cons append_Nil, OF assms]) (rule that)
  have "links h (ps @ p # a # n # ns)" using assms c(1) [of "[a]"] by (simp add: ring_def)
  then have "lh_prev h a = Cell p" "lh_next h a = Cell n" by (simp_all add: links_cut)
  moreover have "p = head \<longleftrightarrow> as = []" "n = head \<longleftrightarrow> bs = []" using assms c(2,3) by (cases as rule: rev_cases; cases bs; auto simp: ring_def)+
  ultimately show "list_is_first (Cell a) (Cell head) h = Some (as = [])" "list_is_last (Cell a) (Cell head) h = Some (bs = [])"
    by (simp_all add: list_is_first_def list_is_last_def)
qed

lemma ring_del:
  assumes "ring h head (as @ a # bs)"
  shows "\<exists>h'. list_del (Cell a) h = Some h' \<and> ring h' head (as @ bs) \<and> lh_next h' a = LIST_POISON1 \<and> lh_prev h' a = LIST_POISON2
    \<and> same_except (set (head # as @ a # bs)) h h'"
proof -
  from ring_remove [OF assms] obtain h' where h: "list_del_entry (Cell a) h = Some h'" "ring h' head (as @ bs)"
    "same_except (set (head # as @ bs)) h h'" by blast
  let ?h = "h'\<lparr>lh_next := (lh_next h')(a := LIST_POISON1), lh_prev := (lh_prev h')(a := LIST_POISON2)\<rparr>"
  have "same_except {a} h' ?h" by (simp add: same_except_def)
  then have "ring ?h head (as @ bs)" using ring_outside [of "{a}" h' ?h head "as @ bs"] h(2) assms by (auto simp: ring_def)
  then show ?thesis using h by (auto simp: list_del_def same_except_def)
qed

text \<open>A loop that removes every entry it visits, as at the end of the preprocessor, leaves an empty list.\<close>

lemma safe_loop_del:
  "ring h head xs \<Longrightarrow> get_next (lh_next h head) h = Some n
    \<Longrightarrow> \<exists>h'. safe_loop list_del (Cell head) (lh_next h head) n h = Some h' \<and> ring h' head []"
proof (induction xs arbitrary: h n)
  case Nil
  then show ?case by (subst safe_loop.simps) (simp add: ring_def list_is_head_def)
next
  case (Cons x xs)
  from Cons.prems(1) have x: "lh_next h head = Cell x" "x \<noteq> head" by (auto simp: ring_def)
  from ring_del [of h head "[]" x xs] Cons.prems(1) obtain h' where h: "list_del (Cell x) h = Some h'" "ring h' head xs" by auto
  obtain m where m: "lh_next h x = Cell m" "lh_next h' head = Cell m"
    using Cons.prems(1) h(2) by (cases xs) (auto simp: ring_def)
  then have "n = Cell m" using Cons.prems(2) x by simp
  with Cons.IH [OF h(2)] m(2) h(1) x show ?case by (subst safe_loop.simps) (simp add: list_is_head_def)
qed

lemma remove_all:
  "ring h head xs \<Longrightarrow> \<exists>h'. list_for_each_entry_safe list_del (Cell head) h = Some h' \<and> ring h' head []"
  using safe_loop_del [of h head xs] by (cases xs) (auto simp: ring_def list_for_each_entry_safe_def)

text \<open>The first and last entries: a title is added to the trail and taken off again.\<close>

lemma ring_add:
  assumes "ring h head xs" "new \<notin> set (head # xs)"
  shows "\<exists>h'. list_add (Cell new) (Cell head) h = Some h' \<and> ring h' head (new # xs) \<and> same_except (set (new # head # xs)) h h'"
    "\<exists>h'. list_add_tail (Cell new) (Cell head) h = Some h' \<and> ring h' head (xs @ [new]) \<and> same_except (set (new # head # xs)) h h'"
  using ring_insert [of h head "[]" xs new] ring_insert [of h head xs "[]" new] assms ring_next [OF assms(1)]
  by (simp_all add: list_add_def list_add_tail_def)

section \<open>Several lists\<close>

text \<open>The lists of a program, by their heads; no cell is in two of them.\<close>

type_synonym lists = "nat \<Rightarrow> nat list option"

definition entries :: "lists \<Rightarrow> nat set" where
  "entries L = (\<Union>xs \<in> ran L. set xs)"

definition cells :: "lists \<Rightarrow> nat set" where
  "cells L = dom L \<union> entries L"

definition rings_ok :: "list_heap \<Rightarrow> lists \<Rightarrow> bool" where
  "rings_ok h L \<longleftrightarrow> (\<forall>head xs. L head = Some xs \<longrightarrow> ring h head xs)
     \<and> (\<forall>a b xs ys. L a = Some xs \<longrightarrow> L b = Some ys \<longrightarrow> a \<noteq> b \<longrightarrow> set (a # xs) \<inter> set (b # ys) = {})"

lemma rings_okD: "rings_ok h L \<Longrightarrow> L head = Some xs \<Longrightarrow> ring h head xs"
  by (simp add: rings_ok_def)

lemma lists_outside:
  assumes "rings_ok h L" "same_except S h h'" "S \<inter> cells L = {}"
  shows "rings_ok h' L"
proof -
  have "ring h' head xs" if "L head = Some xs" for head xs
  proof -
    have "set (head # xs) \<subseteq> cells L" using that by (auto simp: cells_def entries_def ran_def)
    then show ?thesis using ring_outside [OF assms(2), of head xs] assms(1,3) that by (auto simp: rings_ok_def)
  qed
  with assms(1) show ?thesis by (simp add: rings_ok_def)
qed

lemma lists_upd:
  assumes "rings_ok h L" "L head = Some xs" "ring h' head ys" "same_except (N \<union> set (head # xs)) h h'" "N \<inter> cells L = {}"
    and "set ys \<subseteq> N \<union> set xs"
  shows "rings_ok h' (L(head \<mapsto> ys))"
proof -
  have sub: "set (b # zs) \<subseteq> cells L" if "L b = Some zs" for b zs
    using that by (auto simp: cells_def entries_def ran_def)
  have other: "set (b # zs) \<inter> (N \<union> set (head # xs)) = {}" if "L b = Some zs" "b \<noteq> head" for b zs
    using assms(1,2,5) that sub [OF that(1)] unfolding rings_ok_def by blast
  have "ring h' b zs" if "L b = Some zs" "b \<noteq> head" for b zs
    using ring_outside [OF assms(4) other [OF that]] rings_okD [OF assms(1) that(1)] by simp
  then have "ring h' b zs" if "(L(head \<mapsto> ys)) b = Some zs" for b zs
    using that assms(3) by (cases "b = head") auto
  moreover have apart: "set (b # zs) \<inter> set (head # ys) = {}" if "L b = Some zs" "b \<noteq> head" for b zs
    using other [OF that] assms(6) by auto
  have "set (a # xs') \<inter> set (b # zs) = {}"
    if "(L(head \<mapsto> ys)) a = Some xs'" "(L(head \<mapsto> ys)) b = Some zs" "a \<noteq> b" for a b xs' zs
    using apart [of a xs'] apart [of b zs] assms(1) that by (cases "a = head"; cases "b = head") (auto simp: rings_ok_def)
  ultimately show ?thesis unfolding rings_ok_def by blast
qed

section \<open>Sequences of operations\<close>

datatype list_op =
    Op_init nat | Op_add nat nat | Op_add_tail nat nat | Op_del nat | Op_replace nat nat | Op_move nat nat | Op_move_tail nat nat

fun run_op :: "list_op \<Rightarrow> list_heap \<Rightarrow> list_heap option" where
  "run_op (Op_init a) = INIT_LIST_HEAD (Cell a)"
| "run_op (Op_add new head) = list_add (Cell new) (Cell head)"
| "run_op (Op_add_tail new head) = list_add_tail (Cell new) (Cell head)"
| "run_op (Op_del a) = list_del (Cell a)"
| "run_op (Op_replace old new) = list_replace (Cell old) (Cell new)"
| "run_op (Op_move a head) = list_move (Cell a) (Cell head)"
| "run_op (Op_move_tail a head) = list_move_tail (Cell a) (Cell head)"

fun run_ops :: "list_op list \<Rightarrow> list_heap \<Rightarrow> list_heap option" where
  "run_ops [] h = Some h"
| "run_ops (x # xs) h = Option.bind (run_op x h) (run_ops xs)"

definition on_list :: "nat \<Rightarrow> (nat list \<Rightarrow> nat list) \<Rightarrow> lists \<Rightarrow> lists" where
  "on_list head f L = (case L head of None \<Rightarrow> L | Some xs \<Rightarrow> L(head \<mapsto> f xs))"

definition without :: "nat \<Rightarrow> lists \<Rightarrow> lists" where
  "without a L = (\<lambda>head. map_option (removeAll a) (L head))"

text \<open>The same operations on lists, and what they need: cells that are in a list, and in none.\<close>

fun list_effect :: "list_op \<Rightarrow> lists \<Rightarrow> lists" where
  "list_effect (Op_init a) L = L(a \<mapsto> [])"
| "list_effect (Op_add new head) L = on_list head (\<lambda>xs. new # xs) L"
| "list_effect (Op_add_tail new head) L = on_list head (\<lambda>xs. xs @ [new]) L"
| "list_effect (Op_del a) L = without a L"
| "list_effect (Op_replace old new) L = (\<lambda>head. map_option (map (\<lambda>x. if x = old then new else x)) (L head))"
| "list_effect (Op_move a head) L = on_list head (\<lambda>xs. a # xs) (without a L)"
| "list_effect (Op_move_tail a head) L = on_list head (\<lambda>xs. xs @ [a]) (without a L)"

fun list_op_ok :: "list_op \<Rightarrow> lists \<Rightarrow> bool" where
  "list_op_ok (Op_init a) L \<longleftrightarrow> a \<notin> cells L"
| "list_op_ok (Op_add new head) L \<longleftrightarrow> head \<in> dom L \<and> new \<notin> cells L"
| "list_op_ok (Op_add_tail new head) L \<longleftrightarrow> head \<in> dom L \<and> new \<notin> cells L"
| "list_op_ok (Op_del a) L \<longleftrightarrow> a \<in> entries L"
| "list_op_ok (Op_replace old new) L \<longleftrightarrow> old \<in> entries L \<and> new \<notin> cells L"
| "list_op_ok (Op_move a head) L \<longleftrightarrow> a \<in> entries L \<and> head \<in> dom L"
| "list_op_ok (Op_move_tail a head) L \<longleftrightarrow> a \<in> entries L \<and> head \<in> dom L"

fun list_ops_ok :: "list_op list \<Rightarrow> lists \<Rightarrow> bool" where
  "list_ops_ok [] L \<longleftrightarrow> True"
| "list_ops_ok (x # xs) L \<longleftrightarrow> list_op_ok x L \<and> list_ops_ok xs (list_effect x L)"

lemma entry_split:
  assumes "rings_ok h L" "a \<in> entries L"
  obtains head as bs where "L head = Some (as @ a # bs)" "a \<notin> set as" "a \<notin> set bs"
    "\<And>b ys. L b = Some ys \<Longrightarrow> b \<noteq> head \<Longrightarrow> a \<notin> set ys"
proof -
  from assms(2) obtain head xs where l: "L head = Some xs" "a \<in> set xs" by (auto simp: entries_def ran_def)
  then obtain as bs where xs: "xs = as @ a # bs" by (meson split_list)
  have "distinct xs" using rings_okD [OF assms(1) l(1)] by (simp add: ring_def)
  moreover have "a \<notin> set ys" if "L b = Some ys" "b \<noteq> head" for b ys
    using assms(1) l that unfolding rings_ok_def by (metis disjoint_iff list.set_intros(2))
  ultimately show thesis using that l(1) xs by auto
qed

lemma without_entry:
  assumes "L head = Some (as @ a # bs)" "a \<notin> set as" "a \<notin> set bs" "\<And>b ys. L b = Some ys \<Longrightarrow> b \<noteq> head \<Longrightarrow> a \<notin> set ys"
  shows "without a L = L(head \<mapsto> as @ bs)"
    "(\<lambda>b. map_option (map (\<lambda>x. if x = a then c else x)) (L b)) = L(head \<mapsto> as @ c # bs)"
proof -
  have "map_option (removeAll a) (L b) = (L(head \<mapsto> as @ bs)) b" for b
    using assms by (cases "b = head"; cases "L b") auto
  then show "without a L = L(head \<mapsto> as @ bs)" by (auto simp: without_def)
  have id: "map (\<lambda>x. if x = a then c else x) ys = ys" if "a \<notin> set ys" for ys using that by (auto intro: map_idI)
  have "map_option (map (\<lambda>x. if x = a then c else x)) (L b) = (L(head \<mapsto> as @ c # bs)) b" for b
    using assms id by (cases "b = head"; cases "L b") auto
  then show "(\<lambda>b. map_option (map (\<lambda>x. if x = a then c else x)) (L b)) = L(head \<mapsto> as @ c # bs)" by auto
qed

lemma removed_cell:
  assumes "rings_ok h L" "a \<in> entries L"
  shows "a \<notin> cells (without a L)" "dom (without a L) = dom L"
proof -
  from entry_split [OF assms] obtain head as bs where l: "L head = Some (as @ a # bs)" .
  have "a \<notin> dom L"
  proof
    assume "a \<in> dom L"
    then obtain ys where y: "L a = Some ys" by auto
    have "a \<noteq> head" using rings_okD [OF assms(1) l] by (auto simp: ring_def)
    with y l assms(1) have "set (a # ys) \<inter> set (head # as @ a # bs) = {}" unfolding rings_ok_def by blast
    then show False by simp
  qed
  moreover show "dom (without a L) = dom L" by (auto simp: without_def)
  moreover have "a \<notin> entries (without a L)" by (auto simp: entries_def without_def ran_def)
  ultimately show "a \<notin> cells (without a L)" by (simp add: cells_def)
qed

lemma removal_step:
  assumes "rings_ok h L" "a \<in> entries L"
  shows "\<exists>h'. list_del_entry (Cell a) h = Some h' \<and> rings_ok h' (without a L)"
    "\<exists>h'. list_del (Cell a) h = Some h' \<and> rings_ok h' (without a L) \<and> list_del (Cell a) h' = None"
proof -
  from entry_split [OF assms] obtain head as bs where l: "L head = Some (as @ a # bs)" "a \<notin> set as" "a \<notin> set bs"
    "\<And>b ys. L b = Some ys \<Longrightarrow> b \<noteq> head \<Longrightarrow> a \<notin> set ys" by (rule entry_split [OF assms]) (rule that)
  have w: "without a L = L(head \<mapsto> as @ bs)" by (rule without_entry(1) [of L head as a bs, OF l])
  note r = rings_okD [OF assms(1) l(1)]
  from ring_remove [OF r] obtain h' where h: "list_del_entry (Cell a) h = Some h'" "ring h' head (as @ bs)"
    "same_except (set (head # as @ bs)) h h'" by blast
  have "same_except ({} \<union> set (head # as @ a # bs)) h h'" by (rule outside_mono [OF h(3)]) auto
  then have "rings_ok h' (L(head \<mapsto> as @ bs))" by (rule lists_upd [OF assms(1) l(1) h(2)]) auto
  with h(1) show "\<exists>h'. list_del_entry (Cell a) h = Some h' \<and> rings_ok h' (without a L)" by (auto simp: w)
  from ring_del [OF r] obtain g where g: "list_del (Cell a) h = Some g" "ring g head (as @ bs)" "lh_next g a = LIST_POISON1"
    "same_except ({} \<union> set (head # as @ a # bs)) h g" by auto
  have "list_del (Cell a) g = None" using g(3) by (simp add: list_del_def list_del_entry_def list_del_between_def put_prev_def)
  moreover have "rings_ok g (L(head \<mapsto> as @ bs))" by (rule lists_upd [OF assms(1) l(1) g(2,4)]) auto
  ultimately show "\<exists>h'. list_del (Cell a) h = Some h' \<and> rings_ok h' (without a L) \<and> list_del (Cell a) h' = None"
    using g(1) by (auto simp: w)
qed

lemma insertion_step:
  assumes "rings_ok h L" "head \<in> dom L" "new \<notin> cells L"
  shows "\<exists>h'. list_add (Cell new) (Cell head) h = Some h' \<and> rings_ok h' (on_list head (\<lambda>xs. new # xs) L)"
    "\<exists>h'. list_add_tail (Cell new) (Cell head) h = Some h' \<and> rings_ok h' (on_list head (\<lambda>xs. xs @ [new]) L)"
proof -
  from assms(2) obtain xs where l: "L head = Some xs" by auto
  note r = rings_okD [OF assms(1) l]
  have n: "new \<notin> set (head # xs)" using assms(3) l by (auto simp: cells_def entries_def ran_def)
  have step: "\<exists>h'. f = Some h' \<and> rings_ok h' (L(head \<mapsto> ys))"
    if "\<exists>h'. f = Some h' \<and> ring h' head ys \<and> same_except (set (new # head # xs)) h h'" "set ys = set (new # xs)" for f ys
    using that lists_upd [OF assms(1) l, of _ ys "{new}"] assms(3) by (auto simp: insert_commute)
  show "\<exists>h'. list_add (Cell new) (Cell head) h = Some h' \<and> rings_ok h' (on_list head (\<lambda>xs. new # xs) L)"
    using step [OF ring_add(1) [OF r n]] l by (simp add: on_list_def)
  show "\<exists>h'. list_add_tail (Cell new) (Cell head) h = Some h' \<and> rings_ok h' (on_list head (\<lambda>xs. xs @ [new]) L)"
    using step [OF ring_add(2) [OF r n]] l by (simp add: on_list_def)
qed

lemma replace_step:
  assumes "rings_ok h L" "old \<in> entries L" "new \<notin> cells L"
  shows "\<exists>h'. list_replace (Cell old) (Cell new) h = Some h' \<and> rings_ok h' (list_effect (Op_replace old new) L)"
proof -
  obtain head as bs where l: "L head = Some (as @ old # bs)" "old \<notin> set as" "old \<notin> set bs"
    "\<And>b ys. L b = Some ys \<Longrightarrow> b \<noteq> head \<Longrightarrow> old \<notin> set ys" by (rule entry_split [OF assms(1,2)]) (rule that)
  have "new \<notin> set (head # as @ old # bs)" using assms(3) l(1) by (fastforce simp: cells_def entries_def ran_def)
  from ring_replace [OF rings_okD [OF assms(1) l(1)] this] obtain h' where h: "list_replace (Cell old) (Cell new) h = Some h'"
    "ring h' head (as @ new # bs)" "same_except (set (new # head # as @ bs)) h h'" by blast
  have "same_except ({new} \<union> set (head # as @ old # bs)) h h'" by (rule outside_mono [OF h(3)]) auto
  then have "rings_ok h' (L(head \<mapsto> as @ new # bs))" by (rule lists_upd [OF assms(1) l(1) h(2)]) (use assms(3) in auto)
  with h(1) show ?thesis by (simp add: without_entry(2) [of L head as old bs, OF l])
qed

lemma init_step: "rings_ok h L \<Longrightarrow> a \<notin> cells L \<Longrightarrow> \<exists>h'. INIT_LIST_HEAD (Cell a) h = Some h' \<and> rings_ok h' (L(a \<mapsto> []))"
proof -
  assume l: "rings_ok h L" and a: "a \<notin> cells L"
  from ring_init [of a h] obtain h' where h: "INIT_LIST_HEAD (Cell a) h = Some h'" "ring h' a []" "same_except {a} h h'" by blast
  have "rings_ok h' L" using lists_outside [OF l h(3)] a by simp
  moreover have "a \<notin> set (b # ys)" if "L b = Some ys" for b ys using a that by (auto simp: cells_def entries_def ran_def)
  ultimately have "rings_ok h' (L(a \<mapsto> []))" using h(2) by (auto simp: rings_ok_def)
  with h(1) show ?thesis by blast
qed

lemma list_op_refines:
  assumes "rings_ok h L" "list_op_ok x L"
  shows "\<exists>h'. run_op x h = Some h' \<and> rings_ok h' (list_effect x L)"
proof (cases x)
  case (Op_move a head)
  then have m: "a \<in> entries L" "head \<in> dom L" using assms(2) by auto
  from removal_step(1) [OF assms(1) m(1)] obtain h1 where h: "list_del_entry (Cell a) h = Some h1" "rings_ok h1 (without a L)" by blast
  from insertion_step(1) [OF h(2), of head a] removed_cell [OF assms(1) m(1)] m(2) h(1) Op_move
  show ?thesis by (auto simp: list_move_def)
next
  case (Op_move_tail a head)
  then have m: "a \<in> entries L" "head \<in> dom L" using assms(2) by auto
  from removal_step(1) [OF assms(1) m(1)] obtain h1 where h: "list_del_entry (Cell a) h = Some h1" "rings_ok h1 (without a L)" by blast
  from insertion_step(2) [OF h(2), of head a] removed_cell [OF assms(1) m(1)] m(2) h(1) Op_move_tail
  show ?thesis by (auto simp: list_move_tail_def)
next
  case (Op_del a)
  then show ?thesis using removal_step(2) [OF assms(1)] assms(2) by fastforce
next
  case (Op_replace old new)
  then show ?thesis using replace_step [OF assms(1)] assms(2) by simp
qed (use assms init_step insertion_step in auto)

lemma list_ops_refine:
  "rings_ok h L \<Longrightarrow> list_ops_ok xs L \<Longrightarrow> \<exists>h'. run_ops xs h = Some h' \<and> rings_ok h' (fold list_effect xs L)"
proof (induction xs arbitrary: h L)
  case (Cons x xs)
  from list_op_refines [OF Cons.prems(1), of x] Cons.prems(2) obtain h' where "run_op x h = Some h'" "rings_ok h' (list_effect x L)" by auto
  with Cons show ?case by simp
qed simp

end
