(* ===== verification/HashChain.thy ===== *)
theory HashChain
  imports HashTable "HOL-Library.Monad_Syntax"
begin

text \<open>
  The lists with a single pointer head of \<^verbatim>\<open>include/list.h\<close> and the tables of \<^verbatim>\<open>include/hashtable.h\<close> as
  pointers: what theory \<open>HashTable\<close> does on a list of buckets is what the pointers do.
\<close>

section \<open>The heap\<close>

text \<open>
  \<open>pprev\<close> points to the pointer that points to the node: the head of a bucket, by its number, or
  the \<open>next\<close> of another node.
\<close>

datatype hnode = H_null | H_node nat | H_poison

datatype slot = S_null | First nat | Next nat | S_poison

record hlist_heap =
  h_first :: "nat \<Rightarrow> hnode"
  h_next :: "nat \<Rightarrow> hnode"
  h_pprev :: "nat \<Rightarrow> slot"

definition read_slot :: "slot \<Rightarrow> hlist_heap \<Rightarrow> hnode option" where
  "read_slot p h = (case p of First i \<Rightarrow> Some (h_first h i) | Next a \<Rightarrow> Some (h_next h a) | _ \<Rightarrow> None)"

definition write_slot :: "slot \<Rightarrow> hnode \<Rightarrow> hlist_heap \<Rightarrow> hlist_heap option" where
  "write_slot p n h =
     (case p of
        First i \<Rightarrow> Some (h\<lparr>h_first := (h_first h)(i := n)\<rparr>)
      | Next a \<Rightarrow> Some (h\<lparr>h_next := (h_next h)(a := n)\<rparr>)
      | _ \<Rightarrow> None)"

text \<open>\<open>next->pprev = pprev\<close>, unless \<open>next\<close> is the null pointer.\<close>

definition write_pprev :: "hnode \<Rightarrow> slot \<Rightarrow> hlist_heap \<Rightarrow> hlist_heap option" where
  "write_pprev n p h =
     (case n of
        H_null \<Rightarrow> Some h
      | H_node a \<Rightarrow> Some (h\<lparr>h_pprev := (h_pprev h)(a := p)\<rparr>)
      | H_poison \<Rightarrow> None)"

section \<open>The operations\<close>

definition INIT_HLIST_HEAD :: "nat \<Rightarrow> hlist_heap \<Rightarrow> hlist_heap" where
  "INIT_HLIST_HEAD i h = h\<lparr>h_first := (h_first h)(i := H_null)\<rparr>"

definition INIT_HLIST_NODE :: "nat \<Rightarrow> hlist_heap \<Rightarrow> hlist_heap" where
  "INIT_HLIST_NODE a h = h\<lparr>h_next := (h_next h)(a := H_null), h_pprev := (h_pprev h)(a := S_null)\<rparr>"

definition hlist_unhashed :: "nat \<Rightarrow> hlist_heap \<Rightarrow> bool" where
  "hlist_unhashed a h \<longleftrightarrow> h_pprev h a = S_null"

definition hlist_unlink :: "nat \<Rightarrow> hlist_heap \<Rightarrow> hlist_heap option" where
  "hlist_unlink a h = do {
     let next = h_next h a;
     let pprev = h_pprev h a;
     h \<leftarrow> write_slot pprev next h;
     write_pprev next pprev h
   }"

definition hlist_del :: "nat \<Rightarrow> hlist_heap \<Rightarrow> hlist_heap option" where
  "hlist_del a h = do {
     h \<leftarrow> hlist_unlink a h;
     Some (h\<lparr>h_next := (h_next h)(a := H_poison), h_pprev := (h_pprev h)(a := S_poison)\<rparr>)
   }"

definition hlist_del_init :: "nat \<Rightarrow> hlist_heap \<Rightarrow> hlist_heap option" where
  "hlist_del_init a h =
     (if hlist_unhashed a h then Some h else map_option (INIT_HLIST_NODE a) (hlist_unlink a h))"

definition hlist_add_head :: "nat \<Rightarrow> nat \<Rightarrow> hlist_heap \<Rightarrow> hlist_heap option" where
  "hlist_add_head a i h = do {
     let first = h_first h i;
     let h = h\<lparr>h_next := (h_next h)(a := first)\<rparr>;
     h \<leftarrow> write_pprev first (Next a) h;
     Some (h\<lparr>h_first := (h_first h)(i := H_node a), h_pprev := (h_pprev h)(a := First i)\<rparr>)
   }"

partial_function (option) hlist_nodes :: "hlist_heap \<Rightarrow> hnode \<Rightarrow> nat list option" where
  "hlist_nodes h n =
     (case n of
        H_null \<Rightarrow> Some []
      | H_node a \<Rightarrow> Option.bind (hlist_nodes h (h_next h a)) (\<lambda>as. Some (a # as))
      | H_poison \<Rightarrow> None)"

declare hlist_nodes.simps [code]

definition hlist_for_each_entry :: "nat \<Rightarrow> hlist_heap \<Rightarrow> nat list option" where
  "hlist_for_each_entry i h = hlist_nodes h (h_first h i)"

section \<open>Tables\<close>

text \<open>A table of \<open>sz\<close> heads, from the number 0.\<close>

definition bucket :: "32 word \<Rightarrow> nat \<Rightarrow> nat" where
  "bucket key sz = unat (scast key :: 64 word) mod sz"

definition hash_init :: "nat \<Rightarrow> hlist_heap \<Rightarrow> hlist_heap" where
  "hash_init sz h = fold INIT_HLIST_HEAD [0..<sz] h"

definition hash_add_node :: "nat \<Rightarrow> nat \<Rightarrow> 32 word \<Rightarrow> hlist_heap \<Rightarrow> hlist_heap option" where
  "hash_add_node sz a key h = hlist_add_head a (bucket key sz) h"

definition hash_del :: "nat \<Rightarrow> hlist_heap \<Rightarrow> hlist_heap option" where
  "hash_del = hlist_del_init"

fun buckets_from :: "nat list \<Rightarrow> hlist_heap \<Rightarrow> nat list option" where
  "buckets_from [] h = Some []"
| "buckets_from (i # is) h = do { as \<leftarrow> hlist_for_each_entry i h; bs \<leftarrow> buckets_from is h; Some (as @ bs) }"

definition hash_for_each_node :: "nat \<Rightarrow> hlist_heap \<Rightarrow> nat list option" where
  "hash_for_each_node sz h = buckets_from [0..<sz] h"

definition hash_possible_nodes :: "nat \<Rightarrow> 32 word \<Rightarrow> hlist_heap \<Rightarrow> nat list option" where
  "hash_possible_nodes sz key h = hlist_for_each_entry (bucket key sz) h"

section \<open>Chains\<close>

fun chain :: "hlist_heap \<Rightarrow> slot \<Rightarrow> nat list \<Rightarrow> bool" where
  "chain h p [] \<longleftrightarrow> read_slot p h = Some H_null"
| "chain h p (a # as) \<longleftrightarrow> read_slot p h = Some (H_node a) \<and> h_pprev h a = p \<and> chain h (Next a) as"

definition table_ok :: "hlist_heap \<Rightarrow> nat table \<Rightarrow> bool" where
  "table_ok h t \<longleftrightarrow> distinct (concat t) \<and> (\<forall>i < length t. chain h (First i) (t ! i))"

lemma chain_cong:
  assumes "read_slot p h' = read_slot p h" "\<And>a. a \<in> set as \<Longrightarrow> h_next h' a = h_next h a" "\<And>a. a \<in> set as \<Longrightarrow> h_pprev h' a = h_pprev h a"
  shows "chain h' p as \<longleftrightarrow> chain h p as"
  using assms by (induction as arbitrary: p) (auto simp: read_slot_def)

lemma chain_nodes: "chain h p as \<Longrightarrow> read_slot p h = Some n \<Longrightarrow> hlist_nodes h n = Some as"
proof (induction as arbitrary: p n)
  case (Cons a as)
  then show ?case by (subst hlist_nodes.simps) (auto simp: read_slot_def)
qed (subst hlist_nodes.simps, simp)

text \<open>A part of a chain, and the pointer at its end.\<close>

fun segment :: "hlist_heap \<Rightarrow> slot \<Rightarrow> nat list \<Rightarrow> bool" where
  "segment h p [] \<longleftrightarrow> True"
| "segment h p (a # as) \<longleftrightarrow> read_slot p h = Some (H_node a) \<and> h_pprev h a = p \<and> segment h (Next a) as"

definition last_slot :: "slot \<Rightarrow> nat list \<Rightarrow> slot" where
  "last_slot p as = (if as = [] then p else Next (last as))"

lemma chain_append: "chain h p (as @ bs) \<longleftrightarrow> segment h p as \<and> chain h (last_slot p as) bs"
  by (induction as arbitrary: p) (auto simp: last_slot_def)

lemma segment_cong:
  assumes "as \<noteq> [] \<Longrightarrow> read_slot p h' = read_slot p h" "\<And>a. a \<in> set (butlast as) \<Longrightarrow> h_next h' a = h_next h a"
    "\<And>a. a \<in> set as \<Longrightarrow> h_pprev h' a = h_pprev h a"
  shows "segment h' p as \<longleftrightarrow> segment h p as"
  using assms
proof (induction as arbitrary: p)
  case (Cons a as)
  have "segment h' (Next a) as \<longleftrightarrow> segment h (Next a) as"
  proof (cases "as = []")
    case False
    then show ?thesis using Cons.prems by (intro Cons.IH) (auto simp: read_slot_def)
  qed simp
  with Cons.prems(1,3) show ?case by simp
qed simp

lemma read_write [simp]:
  "read_slot (First i) h = Some (h_first h i)" "read_slot (Next a) h = Some (h_next h a)"
  "write_slot (First i) n h = Some (h\<lparr>h_first := (h_first h)(i := n)\<rparr>)"
  "write_slot (Next a) n h = Some (h\<lparr>h_next := (h_next h)(a := n)\<rparr>)"
  by (simp_all add: read_slot_def write_slot_def)

lemma read_pprev [simp]: "read_slot p (h\<lparr>h_pprev := f\<rparr>) = read_slot p h"
  by (cases p) (simp_all add: read_slot_def)

text \<open>A node taken out of a bucket.\<close>

lemma chain_remove:
  assumes "chain h (First i) (as @ a # bs)" "distinct (as @ a # bs)"
  shows "\<exists>h'. hlist_unlink a h = Some h' \<and> chain h' (First i) (as @ bs) \<and> \<not> hlist_unhashed a h
    \<and> (\<forall>x. x \<notin> set as \<longrightarrow> h_next h' x = h_next h x) \<and> (\<forall>x. x \<notin> set bs \<longrightarrow> h_pprev h' x = h_pprev h x)
    \<and> (\<forall>j. j \<noteq> i \<longrightarrow> h_first h' j = h_first h j)"
proof -
  let ?q = "last_slot (First i) as"
  from assms(1) have c: "segment h (First i) as" "h_pprev h a = ?q" "chain h (Next a) bs" by (auto simp: chain_append)
  let ?w = "\<lambda>n. (case ?q of Next x \<Rightarrow> h\<lparr>h_next := (h_next h)(x := n)\<rparr> | _ \<Rightarrow> h\<lparr>h_first := (h_first h)(i := n)\<rparr>)"
  have w: "write_slot ?q n h = Some (?w n)" "read_slot ?q (?w n) = Some n" "h_pprev (?w n) = h_pprev h"
    "\<And>x. x \<notin> set as \<Longrightarrow> h_next (?w n) x = h_next h x" "\<And>x. x \<in> set (butlast as) \<Longrightarrow> h_next (?w n) x = h_next h x"
    "as \<noteq> [] \<Longrightarrow> h_first (?w n) = h_first h" "\<And>j. j \<noteq> i \<Longrightarrow> h_first (?w n) j = h_first h j" for n
    using assms(2) by (auto simp: last_slot_def distinct_butlast dest: last_in_set) (cases as rule: rev_cases; auto)
  have u: "\<not> hlist_unhashed a h" using c(2) by (simp add: hlist_unhashed_def last_slot_def)
  have seg: "segment (?w n) (First i) as" for n
    using c(1) w by (subst segment_cong [where h = h]) auto
  show ?thesis
  proof (cases bs)
    case Nil
    then have n: "h_next h a = H_null" using c(3) by simp
    have "hlist_unlink a h = Some (?w H_null)" using c(2) w(1) n by (simp add: hlist_unlink_def write_pprev_def)
    moreover have "chain (?w H_null) (First i) (as @ bs)" using seg w(2) chain_append [of "?w H_null" "First i" as "[]"] Nil by simp
    ultimately show ?thesis using u w(3,4,7) by auto
  next
    case (Cons b cs)
    then have n: "h_next h a = H_node b" "h_pprev h b = Next a" "chain h (Next b) cs" using c(3) by simp_all
    let ?h = "(?w (H_node b))\<lparr>h_pprev := (h_pprev h)(b := ?q)\<rparr>"
    have "hlist_unlink a h = Some ?h" using c(2) w(1,3) n by (simp add: hlist_unlink_def write_pprev_def Let_def)
    moreover have "segment ?h (First i) as" using seg [of "H_node b"] assms(2) Cons w(3)
      by (subst segment_cong [where h = "?w (H_node b)"]) auto
    moreover have "chain ?h ?q bs"
    proof -
      have "chain ?h (Next b) cs" using n(3) assms(2) Cons w(4)
        by (subst chain_cong [where h = h]) auto
      moreover have "read_slot ?q ?h = Some (H_node b)" using w(2) by simp
      ultimately show ?thesis by (simp add: Cons)
    qed
    ultimately show ?thesis using u w(4,7) Cons by (intro exI [of _ ?h]) (auto simp: chain_append)
  qed
qed

lemma chain_add:
  assumes "chain h (First i) as" "a \<notin> set as" "distinct as"
  shows "\<exists>h'. hlist_add_head a i h = Some h' \<and> chain h' (First i) (a # as)
    \<and> (\<forall>x. x \<noteq> a \<longrightarrow> h_next h' x = h_next h x) \<and> (\<forall>x. x \<notin> set (a # as) \<longrightarrow> h_pprev h' x = h_pprev h x)
    \<and> (\<forall>j. j \<noteq> i \<longrightarrow> h_first h' j = h_first h j)"
proof (cases as)
  case Nil
  then show ?thesis using assms(1) by (simp add: hlist_add_head_def write_pprev_def)
next
  case (Cons b bs)
  let ?h = "h\<lparr>h_first := (h_first h)(i := H_node a), h_next := (h_next h)(a := H_node b), h_pprev := (h_pprev h)(b := Next a, a := First i)\<rparr>"
  have f: "h_first h i = H_node b" "chain h (Next b) bs" using assms(1) Cons by simp_all
  have "chain ?h (Next b) bs" using f(2) assms(2,3) Cons by (subst chain_cong [where h = h]) auto
  moreover have "hlist_add_head a i h = Some ?h" using f(1) by (simp add: hlist_add_head_def write_pprev_def)
  ultimately show ?thesis using assms(2) Cons by auto
qed


section \<open>The table\<close>

lemma bucket_head: "hash_head t key = bucket key (length t)"
  by (simp add: hash_head_def bucket_def)

lemma distinct_buckets:
  "distinct (concat t) \<Longrightarrow> i < length t \<Longrightarrow> j < length t \<Longrightarrow> i \<noteq> j \<Longrightarrow> set (t ! i) \<inter> set (t ! j) = {}"
proof (induction t arbitrary: i j)
  case (Cons b t)
  have "set b \<inter> set (t ! k) = {}" if "k < length t" for k
    using Cons.prems(1) that by (auto dest: nth_mem)
  with Cons show ?case by (cases i; cases j) auto
qed simp

lemma table_okD: "table_ok h t \<Longrightarrow> i < length t \<Longrightarrow> chain h (First i) (t ! i) \<and> distinct (t ! i)"
  by (auto simp: table_ok_def distinct_concat_iff intro: distinct_concat)

text \<open>A change of one bucket.\<close>

lemma table_upd:
  assumes "table_ok h t" "i < length t" "chain h' (First i) bs" "distinct (concat (t[i := bs]))"
    and "\<And>x. x \<notin> set (t ! i) \<union> N \<Longrightarrow> h_next h' x = h_next h x" "\<And>x. x \<notin> set (t ! i) \<union> N \<Longrightarrow> h_pprev h' x = h_pprev h x"
    and "\<And>j. j \<noteq> i \<Longrightarrow> h_first h' j = h_first h j" "N \<inter> set (concat t) = {}"
  shows "table_ok h' (t[i := bs])"
proof -
  have "chain h' (First j) (t ! j)" if "j < length t" "j \<noteq> i" for j
  proof -
    have "x \<notin> set (t ! i) \<union> N" if "x \<in> set (t ! j)" for x
      using distinct_buckets [of t i j] assms(1,2,8) that \<open>j < length t\<close> \<open>j \<noteq> i\<close> by (auto simp: table_ok_def) (metis disjoint_iff nth_mem UN_I)
    then show ?thesis using assms(1,5-7) that by (subst chain_cong [where h = h]) (auto simp: table_ok_def)
  qed
  then have "chain h' (First j) (t[i := bs] ! j)" if "j < length t" for j
    using that assms(2,3) by (cases "j = i") auto
  with assms(4) show ?thesis by (simp add: table_ok_def)
qed

lemma table_init: "table_ok (hash_init sz h) (HASHTABLE_DEFINE sz)"
proof -
  have "h_first (fold INIT_HLIST_HEAD is h) i = (if i \<in> set is then H_null else h_first h i)" for i "is" and h :: hlist_heap
    by (induction "is" arbitrary: h) (auto simp: INIT_HLIST_HEAD_def)
  then show ?thesis by (auto simp: table_ok_def hash_init_def HASHTABLE_DEFINE_def)
qed

lemma table_add:
  assumes "table_ok h t" "t \<noteq> []" "a \<notin> set (concat t)"
  shows "\<exists>h'. hash_add_node (length t) a key h = Some h' \<and> table_ok h' (hash_add a key t)"
proof -
  let ?i = "bucket key (length t)"
  have i: "?i < length t" using hash_head_less [OF assms(2), of key] by (simp add: bucket_head)
  then have a: "a \<notin> set (t ! ?i)" using assms(3) by auto
  from chain_add [of h ?i "t ! ?i" a] table_okD [OF assms(1) i] a obtain h' where h: "hlist_add_head a ?i h = Some h'"
    "chain h' (First ?i) (a # t ! ?i)" "\<And>x. x \<noteq> a \<Longrightarrow> h_next h' x = h_next h x"
    "\<And>x. x \<notin> set (a # t ! ?i) \<Longrightarrow> h_pprev h' x = h_pprev h x" "\<And>j. j \<noteq> ?i \<Longrightarrow> h_first h' j = h_first h j" by blast
  have "mset (concat (t[?i := a # t ! ?i])) = mset (a # concat t)"
    using hash_for_each_add [OF assms(2), of a key] by (simp add: hash_for_each_def hash_add_def bucket_head)
  then have "distinct (concat (t[?i := a # t ! ?i]))"
    using assms(1,3) by (metis distinct.simps(2) mset_eq_imp_distinct_iff table_ok_def)
  from table_upd [OF assms(1) i h(2) this, of "{a}"] h assms(3) show ?thesis
    by (auto simp: hash_add_node_def hash_add_def bucket_head)
qed

lemma table_del:
  assumes "table_ok h t" "a \<in> set (concat t)"
  shows "\<exists>h'. hash_del a h = Some h' \<and> table_ok h' (map (removeAll a) t) \<and> hash_del a h' = Some h'"
proof -
  from assms(2) obtain i where i: "i < length t" "a \<in> set (t ! i)" by (metis UN_E in_set_conv_nth set_concat)
  then obtain as bs where ab: "t ! i = as @ a # bs" by (meson split_list)
  note c = table_okD [OF assms(1) i(1), unfolded ab]
  from chain_remove [OF conjunct1 [OF c] conjunct2 [OF c]] obtain g where g: "hlist_unlink a h = Some g" "chain g (First i) (as @ bs)"
    "\<not> hlist_unhashed a h" "\<And>x. x \<notin> set as \<Longrightarrow> h_next g x = h_next h x" "\<And>x. x \<notin> set bs \<Longrightarrow> h_pprev g x = h_pprev h x"
    "\<And>j. j \<noteq> i \<Longrightarrow> h_first g j = h_first h j" by blast
  let ?h = "INIT_HLIST_NODE a g"
  have "a \<notin> set (t ! j)" if "j < length t" "j \<noteq> i" for j
    using distinct_buckets [of t i j] assms(1) i that by (auto simp: table_ok_def)
  then have "removeAll a (t ! j) = t[i := as @ bs] ! j" if "j < length t" for j
    using that c ab by (cases "j = i") auto
  then have e: "map (removeAll a) t = t[i := as @ bs]" by (simp add: list_eq_iff_nth_eq)
  have "distinct (concat (map (removeAll a) t))"
    using assms(1) by (simp add: table_ok_def removeAll_filter_not_eq filter_concat [symmetric])
  then have d: "distinct (concat (t[i := as @ bs]))" unfolding e .
  have "chain ?h (First i) (as @ bs)"
    using g(2) c by (subst chain_cong [where h = g]) (auto simp: INIT_HLIST_NODE_def)
  from table_upd [OF assms(1) i(1) this d, of "{}"] g(4-6) ab have "table_ok ?h (map (removeAll a) t)"
    unfolding e by (auto simp: INIT_HLIST_NODE_def)
  moreover have "hash_del a h = Some ?h" using g(1,3) by (simp add: hash_del_def hlist_del_init_def)
  moreover have "hash_del a ?h = Some ?h" by (simp add: hash_del_def hlist_del_init_def hlist_unhashed_def INIT_HLIST_NODE_def)
  ultimately show ?thesis by blast
qed

lemma table_loops:
  assumes "table_ok h t"
  shows "hash_for_each_node (length t) h = Some (hash_for_each t)"
    "t \<noteq> [] \<Longrightarrow> hash_possible_nodes (length t) key h = Some (hash_possible t key)"
proof -
  have one: "hlist_for_each_entry i h = Some (t ! i)" if "i < length t" for i
    using chain_nodes [of h "First i"] table_okD [OF assms that] by (simp add: hlist_for_each_entry_def)
  have "buckets_from is h = Some (concat (map ((!) t) is))" if "set is \<subseteq> {..<length t}" for "is"
    using that by (induction "is") (auto simp: one)
  from this [of "[0..<length t]"] show "hash_for_each_node (length t) h = Some (hash_for_each t)"
    by (simp add: hash_for_each_node_def hash_for_each_def map_nth atLeast0LessThan)
  assume "t \<noteq> []"
  then show "hash_possible_nodes (length t) key h = Some (hash_possible t key)"
    using one [of "bucket key (length t)"] hash_head_less [of t key] by (simp add: hash_possible_nodes_def hash_possible_def bucket_head)
qed

end
