(* ===== verification/Spec2Isabelle.thy ===== *)
theory Spec2Isabelle
  imports Examples Execld ProgressRun InputRun Session ListRun HashChain
begin

text \<open>
  A verification development for cbuild-ng: the configuration system under
  \<^verbatim>\<open>src/scripts/kconfig\<close>, which is the core logic of the repository, and for
  the launcher and the progress display beside it.

  The program. A lexer and a grammar read Kconfig files; the actions of the grammar call
  \<^verbatim>\<open>parser/menu.c\<close>, which builds the menu tree, and \<^verbatim>\<open>parser/preprocess.c\<close>, which expands the
  macro language. \<^verbatim>\<open>menu_finalize\<close> propagates dependencies down the tree and
  \<^verbatim>\<open>sym_check_deps\<close> looks for recursive ones. \<^verbatim>\<open>parser/symbol.c\<close> computes the values of the
  symbols from user values, defaults, selects and ranges, through the expressions of
  \<^verbatim>\<open>parser/expr.c\<close>. The front ends \<^verbatim>\<open>conf.c\<close>, which asks questions line by line, and \<^verbatim>\<open>mconf.c\<close>,
  which shows menus through the dialogs of \<^verbatim>\<open>lxdialog/\<close>, change values by the setters of
  \<^verbatim>\<open>symbol.c\<close>, and \<^verbatim>\<open>parser/confdata.c\<close> reads and writes configuration files.

  The model. The global variables and the heap of the program are one record \<open>kstate\<close>: maps from
  names (\<open>sid\<close>, \<open>pid\<close>, \<open>mid\<close>) to the records of symbols, properties and menu entries, the table
  of symbols in the order it is iterated, cached values of expressions, and the text written to
  standard error. An operation is a function on the state; where C code can fail to end or
  follows a null pointer, the result is \<open>None\<close>, so a theorem that a result exists also says that
  this does not happen. Expressions are trees; that pointers to shared nodes can be treated as
  trees is proved (\<open>expr_nodes_are_trees\<close>).

  Theories, in the order of the program:
  \<^item> \<open>Prelude\<close>, \<open>CString\<close>: shared lemmas; C strings, character classes, \<^verbatim>\<open>strtoll\<close>, decimal text.
  \<^item> \<open>Kdata\<close>: the types of \<^verbatim>\<open>expr.h\<close> and \<^verbatim>\<open>lkc.h\<close> and the state.
  \<^item> \<open>ExprSimp\<close>, \<open>ExprSem\<close>, \<open>ExprPrint\<close>: \<^verbatim>\<open>expr.c\<close> and the growing strings of \<^verbatim>\<open>util.c\<close>: the
    simplifier as functions on trees, the value of an expression, and printing. The lemmas show
    that each simplification keeps the value and reaches a normal form.
  \<^item> \<open>HashTable\<close>, \<open>ExprIntern\<close>: the hash tables of names and of expression nodes on 32-bit words.
  \<^item> \<open>MenuTree\<close>: the pointers of the menu tree, the traversal, and trees as a datatype.
  \<^item> \<open>Symbol\<close>, \<open>SymbolRun\<close>, \<open>SymbolSem\<close>: \<open>sym_calc_value\<close> and what it calls. \<open>Symbol\<close> is the code;
    the recursion through expressions is an argument \<open>calc\<close> that \<open>sym_calc_value n\<close> instantiates
    with itself at \<open>n - 1\<close>. \<open>SymbolRun\<close> shows every evaluation to be a sequence of single writes
    (\<open>prim\<close>) and to return if \<open>n\<close> exceeds the number of symbols not yet valid (locale
    \<open>calc_runs\<close>); \<open>SymbolSem\<close> relates it to the value of expressions.
  \<^item> \<open>SymSet\<close>: setters, ranges and validation of texts.
  \<^item> \<open>SymDeps\<close>: the recursive dependency check as a depth-first search with its stack (locale
    \<open>dep_search\<close>), which finds every cycle.
  \<^item> \<open>MenuBuild\<close>, \<open>BuiltTree\<close>: the state of the parser and the functions its actions call; the
    states they reach (\<open>built\<close>) hold a tree.
  \<^item> \<open>MenuFinal\<close>, \<open>FinalTree\<close>: \<open>_menu_finalize\<close>; the recursion bound is the depth of the tree,
    and the number of entries is enough (locale \<open>finalization\<close>).
  \<^item> \<open>MenuShow\<close>: visibility of entries, prompts, help texts and the dump of the tree.
  \<^item> \<open>Preprocess\<close>: the macro language; nested expansions are bounded by an argument.
  \<^item> \<open>ConfText\<close>: the lines of configuration files.
  \<^item> \<open>ConfFiles\<close>, \<open>ConfRead\<close>, \<open>ConfWrite\<close>: \<^verbatim>\<open>confdata.c\<close> and \<^verbatim>\<open>confpath.c\<close>: the file system, names and
    messages; \<open>conf_read\<close>; \<open>conf_write\<close>, the minimal configuration, the dependency files and the
    generated files. \<open>ConfRound\<close>, \<open>DotRound\<close> and \<open>ConfSafe\<close> hold the proofs: what is written is read
    back, unchanged symbols touch no file, and a write that fails keeps the old file.
  \<^item> \<open>ConfAsk\<close>, \<open>ConfModes\<close>: \<^verbatim>\<open>conf.c\<close>: the questions and the walk over the menus, whose recursion is
    bounded by the height of the tree and whose rounds consume the input; the modes, the options and
    \<open>main\<close>. \<open>NewValues\<close> shows what the modes set, and \<open>AskRun\<close> that the loop of questions ends exactly
    when going over the visible entries, the state handed from one to the next (\<open>due\<close>), finds nothing
    to ask for.
  \<^item> \<open>Dialog\<close>, \<open>InputBox\<close>, \<open>TextBox\<close>: \<^verbatim>\<open>lxdialog/\<close> and \<^verbatim>\<open>mnconf-common.c\<close>: the list of items, and each
    dialog as a state with a step for a key, run by \<open>key_loop\<close> over the keys to come. \<open>DialogRun\<close>
    and \<open>InputRun\<close> show that no dialog accesses what does not exist (locale \<open>dialog\<close>, an invariant
    that every key keeps), that the menu is a cursor over its items (locale \<open>tracked_dialog\<close>, in which
    every key moves what is seen from outside), and that the input box is an editor.
  \<^item> \<open>MenuTexts\<close>, \<open>MenuItems\<close>, \<open>MenuConf\<close>: \<^verbatim>\<open>mconf.c\<close>: the help texts, the items of a menu, and the
    loop of a menu with everything its keys do. \<open>n\<close> bounds how deep menus are opened from menus,
    each of which takes a key, and \<open>d\<close> the recursion into submenus, for which the height of the tree
    is enough. \<open>MenuRun\<close> shows which items are listed, by a walk of the tree
    that hands on the state of the symbols (\<open>listing\<close>); \<open>Session\<close> shows that every operation of a
    session changes values only (locale \<open>menu_session\<close>).
  \<^item> \<open>Execld\<close>: \<^verbatim>\<open>system/execld/src/execld.c\<close>, the launcher with its configuration file.
  \<^item> \<open>Progress\<close>, \<open>ProgressRun\<close>: \<^verbatim>\<open>scripts/progress/progress.c\<close>: the linked list of packages as
    pointers, the messages, the logs and the loop of events; the pointers refine a list, and the
    counters follow the messages.
  \<^item> \<open>ListHead\<close>, \<open>ListRun\<close>, \<open>HashChain\<close>: \<^verbatim>\<open>include/list.h\<close> and \<^verbatim>\<open>include/hashtable.h\<close> as pointers. The
    other theories have lists and buckets in their place; here these are shown to be refined.
  \<^item> \<open>Examples\<close>: concrete states, to which the properties are applied.

  The properties of the program follow, each with an instance at a concrete input where it has
  hypotheses.

  Not modelled: the generated lexer and parser, the drawing of the curses dialogs, the handler of
  \<^verbatim>\<open>SIGINT\<close>, the socket library, \<^verbatim>\<open>fork\<close> and \<^verbatim>\<open>exec\<close>, memory exhaustion, and the example programs.
  The environment, the commands run by \<open>$(shell,...)\<close>, what the file system permits, regular
  expressions, the keys pressed, the addresses that enter a hash, the random sequence and the clock
  are parameters.
\<close>

section \<open>The simplifier of dependency expressions\<close>

text \<open>
  C1: \<open>expr_transform\<close> keeps the value. When it is defined on an expression, the rewritten
  expression (negations pushed inwards, comparisons of booleans with constants resolved) has
  the same tristate value as the original in every consistent symbol table.
\<close>

theorem expr_transform_preserves_value:
  assumes "consts_ok sy" and "expr_transform sy e = Some e'"
  shows "value_in sy e' = value_in sy e"
  using assms(2) expr_model.transform_value [OF assms(1)]
  by (auto simp: expr_transform_def split: option.splits)

theorem expr_transform_preserves_value_witness:
  "value_in wit_syms (Some (E_SYMBOL (Sym 0)))
     = value_in wit_syms (Some (E_NOT (E_EQUAL (Sym 0) symbol_no)))
   \<and> value_in wit_syms (Some (E_SYMBOL (Sym 0))) = tri_yes"
  using expr_transform_preserves_value [OF wit_consts_ok wit_transform] by simp

text \<open>
  C2: \<open>expr_eliminate_dups\<close> keeps the value. Joining and removing redundant operands
  (\<open>expr_join_or\<close>, \<open>expr_join_and\<close>, \<open>expr_eliminate_yn\<close>) until nothing changes gives an
  expression with the same tristate value in every consistent symbol table.
\<close>

theorem expr_eliminate_dups_preserves_value:
  assumes "consts_ok sy"
  shows "value_in sy (expr_eliminate_dups sy e) = value_in sy e"
  using expr_model.eliminate_dups_value [OF assms]
  by (cases e) (simp_all add: expr_eliminate_dups_def)

theorem expr_eliminate_dups_preserves_value_witness:
  "value_in wit_syms (expr_eliminate_dups wit_syms
      (Some (E_OR (E_EQUAL (Sym 1) symbol_yes) (E_EQUAL (Sym 1) symbol_mod))))
   = value_in wit_syms (Some (E_OR (E_EQUAL (Sym 1) symbol_yes) (E_EQUAL (Sym 1) symbol_mod)))"
  by (rule expr_eliminate_dups_preserves_value [OF wit_consts_ok])

text \<open>
  C3: the fixed point of \<open>expr_eliminate_dups\<close>. Its result is in normal form: no operand of
  \<open>&&\<close> or \<open>||\<close> is a constant \<open>y\<close> or \<open>n\<close>, and no operand on one side of an operator is
  equal to, or joins with, one on the other side. Running it again changes nothing, so the loop
  of the code has really reached its end.
\<close>

theorem expr_eliminate_dups_normal_form:
  "case expr_eliminate_dups sy e of
     None \<Rightarrow> e = None
   | Some e' \<Rightarrow> reduced sy e' \<and> expr_eliminate_dups sy (Some e') = Some e'"
  by (cases e) (simp_all add: expr_eliminate_dups_def expr_eliminate_dups_reduced reduced_fixed)

text \<open>
  C4: what \<open>menu_finalize\<close> uses \<open>expr_eliminate_eq\<close> for. If removing the common operands of
  two expressions leaves \<open>y\<close> of the second, then the first implies the second: its value is
  never larger.
\<close>

theorem expr_eliminate_eq_implies:
  assumes "consts_ok sy"
    and "expr_eliminate_eq (Some e1) (Some e2) n = (x, Some (E_SYMBOL symbol_yes), m)"
  shows "value_in sy (Some e1) \<le> value_in sy (Some e2)"
  using expr_model.eliminate_eq_implies [OF assms(1)] assms(2)
  by (auto simp: expr_eliminate_eq_def split: prod.splits)

theorem expr_eliminate_eq_implies_witness:
  "value_in wit_syms (Some (E_AND (E_SYMBOL (Sym 0)) (E_SYMBOL (Sym 1))))
     \<le> value_in wit_syms (Some (E_SYMBOL (Sym 1)))"
  by (rule expr_eliminate_eq_implies [OF wit_consts_ok, of _ _ 0 "Some (E_SYMBOL (Sym 0))" 1])
     (simp add: expr_eliminate_eq_def expr_eliminate_eq_node_def expr_eliminate_eq_leaves.simps)

text \<open>
  C5: where \<open>expr_transform\<close> is defined, and its normal form. It reads a symbol pointer as an
  expression exactly when some boolean symbol is compared with \<open>!= y\<close>; otherwise its result has
  negations on symbols only and no boolean compared with a constant, and is left alone by a
  second run.
\<close>

theorem expr_transform_normal_form:
  assumes "const_tristate sy"
  shows "case expr_transform sy (Some e) of
      None \<Rightarrow> \<not> no_bool_unequal_y sy e
    | Some r \<Rightarrow> no_bool_unequal_y sy e \<and> expr_transform sy r = Some r
        \<and> (case r of None \<Rightarrow> False | Some e' \<Rightarrow> transformed sy e')"
  using expr_transform_defined [OF assms, of e] expr_transform_transformed [OF assms, of e]
  by (auto simp: expr_transform_def expr_transform_fixed split: option.split)

theorem expr_transform_normal_form_witness:
  "expr_transform wit_syms (Some (E_UNEQUAL (Sym 0) symbol_yes)) = None
   \<and> \<not> no_bool_unequal_y wit_syms (E_UNEQUAL (Sym 0) symbol_yes)"
proof -
  have "expr_transform wit_syms (Some (E_UNEQUAL (Sym 0) symbol_yes)) = None"
    by (simp add: expr_transform_def expr_transform_node_simps transform_comp_def wit_syms_simps wit_bool_def)
  with expr_transform_normal_form [OF consts_ok_const_tristate [OF wit_consts_ok],
      of "E_UNEQUAL (Sym 0) symbol_yes"]
  show ?thesis by simp
qed

section \<open>The evaluation of symbols\<close>

text \<open>
  C6: \<open>sym_calc_value\<close> returns. On a state with sound menu pointers, the nesting of evaluations
  is bounded by the number of symbols not yet valid, dependency cycles or not; afterwards the
  symbol is valid and no symbol has become invalid.
\<close>

theorem sym_calc_value_returns:
  assumes "wf_state s" and "finite (invalid s)" and "card (invalid s) < n"
  shows "\<exists>s'. sym_calc_value n a s = Some s' \<and> SYMBOL_VALID \<in> s_flags (syms s' a)
    \<and> invalid s' \<subseteq> invalid s"
  using sym_calc_value_total [OF assms, of a] sym_calc_value_valid prims_invalid by blast

theorem sym_calc_value_returns_witness:
  "\<exists>s'. sym_calc_value 4 (Sym 0) wit_state = Some s' \<and> SYMBOL_VALID \<in> s_flags (syms s' (Sym 0))
    \<and> invalid s' \<subseteq> invalid wit_state"
  by (rule sym_calc_value_returns [OF wit_wf_state]) (simp_all add: wit_invalid)

text \<open>
  C7: no evaluation gives a boolean symbol the value \<open>m\<close>, whichever symbols, choices, defaults
  and warnings are evaluated on the way; nor does it change the names, types, properties,
  dependencies and menu entries of any symbol.
\<close>

theorem sym_calc_value_types:
  assumes "sym_calc_value n a s = Some s'" and "bools_ok s"
  shows "bools_ok s' \<and> same_structure s s'"
  using sym_calc_value_prims [OF assms(1)] assms(2) prims_bools_ok prims_same_structure by blast

theorem sym_calc_value_types_witness:
  "\<exists>s'. sym_calc_value 4 (Sym 0) wit_state = Some s' \<and> bools_ok s' \<and> same_structure wit_state s'"
proof -
  obtain s' where s': "sym_calc_value 4 (Sym 0) wit_state = Some s'" using wit_runs by blast
  have "bools_ok wit_state"
    unfolding bools_ok_def wit_state_def
    by (auto simp: init_syms_def const_symbol_def blank_symbol_def blank_value_def wit_A_def wit_B_def
        wit_number_def wit_N_def split: sid.split)
  from sym_calc_value_types [OF s' this] s' show ?thesis by blast
qed

text \<open>
  C8: a select is a lower bound. After the evaluation of a boolean or tristate symbol that is in
  no choice, its value is at least the value of what selects it (\<open>rev_dep.tri\<close>), whatever the
  user, the defaults and the direct dependencies say.
\<close>

theorem sym_calc_value_at_least_selected:
  assumes "sym_calc_value n a s = Some s'" and "SYMBOL_VALID \<notin> s_flags (syms s a)"
    and "s_type (syms s a) = S_BOOLEAN \<or> s_type (syms s a) = S_TRISTATE"
    and "sym_get_choice_menu (syms s) (menus s) (syms s a) = Some None"
  shows "rev_dep_tri (syms s' a) \<le> curr_tri (syms s') a"
  using assms by (rule sym_calc_value_select)

theorem sym_calc_value_at_least_selected_witness:
  "\<exists>s'. sym_calc_value 4 (Sym 0) wit_state = Some s' \<and> rev_dep_tri (syms s' (Sym 0)) = tri_yes
    \<and> tri_yes \<le> curr_tri (syms s') (Sym 0)"
proof -
  obtain s' where s': "sym_calc_value 4 (Sym 0) wit_state = Some s'" "rev_dep_tri (syms s' (Sym 0)) = tri_yes"
    using wit_run_A by (auto split: option.splits)
  have "rev_dep_tri (syms s' (Sym 0)) \<le> curr_tri (syms s') (Sym 0)"
    by (rule sym_calc_value_at_least_selected [OF s'(1) _ _ wit_choice_menu])
       (simp_all add: wit_A_def blank_symbol_def)
  with s' show ?thesis by auto
qed

text \<open>
  C9: the value of a symbol the user has set. If after the visibility stage the symbol is
  visible, has a user value and no unmet select, then its value is the user value, limited by
  the visibility, raised to what selects it, and promoted from \<open>m\<close> to \<open>y\<close> for a boolean.
\<close>

theorem sym_calc_value_user_value:
  assumes "sym_calc_value (Suc m) a s = Some s'"
    and "SYMBOL_VALID \<notin> s_flags (syms s a)"
    and "s_type (syms s a) = S_BOOLEAN \<or> s_type (syms s a) = S_TRISTATE"
    and "sym_get_choice_menu (syms s) (menus s) (syms s a) = Some None"
    and "bool_start (sym_calc_value m) a s = Some s2"
    and "visible (syms s2 a) \<noteq> tri_no" and "sym_has_value (syms s2 a)"
    and "rev_dep_tri (syms s2 a) \<le> dir_dep_tri (syms s2 a)"
  shows "curr_tri (syms s') a = promote s2 (syms s2 a)
    (max (min (tri (sdef (syms s2 a) S_DEF_USER)) (visible (syms s2 a))) (rev_dep_tri (syms s2 a)))"
  using sym_calc_value_user [OF assms] .

theorem sym_calc_value_user_value_witness:
  "\<exists>s' s2. sym_calc_value (Suc 3) (Sym 0) wit_state = Some s'
    \<and> curr_tri (syms s') (Sym 0) = promote s2 (syms s2 (Sym 0))
       (max (min (tri (sdef (syms s2 (Sym 0)) S_DEF_USER)) (visible (syms s2 (Sym 0)))) (rev_dep_tri (syms s2 (Sym 0))))"
proof -
  obtain s' where s': "sym_calc_value (Suc 3) (Sym 0) wit_state = Some s'" using wit_runs by auto
  obtain s2 where s2: "bool_start (sym_calc_value 3) (Sym 0) wit_state = Some s2"
    "visible (syms s2 (Sym 0)) \<noteq> tri_no" "sym_has_value (syms s2 (Sym 0))"
    "rev_dep_tri (syms s2 (Sym 0)) \<le> dir_dep_tri (syms s2 (Sym 0))" by (rule wit_bool_start)
  have "curr_tri (syms s') (Sym 0) = promote s2 (syms s2 (Sym 0))
       (max (min (tri (sdef (syms s2 (Sym 0)) S_DEF_USER)) (visible (syms s2 (Sym 0)))) (rev_dep_tri (syms s2 (Sym 0))))"
    by (rule sym_calc_value_user_value [OF s' _ _ wit_choice_menu s2])
       (simp_all add: wit_A_def blank_symbol_def)
  with s' show ?thesis by blast
qed

text \<open>
  C10: a choice has exactly one member set. After \<open>sym_calc_choice\<close>, if any member is visible,
  there is exactly one visible member with the value \<open>y\<close>; every other visible member is \<open>n\<close>,
  and all of them are valid.
\<close>

theorem sym_calc_choice_exactly_one:
  assumes "sym_calc_choice (sym_calc_value n) c s = Some (res, s')" and "members_ok s c"
    and "a \<in> set (choice_members (menus s c))" and "visible (syms s' a) \<noteq> tri_no"
  shows "(\<exists>!b. b \<in> set (choice_members (menus s c)) \<and> visible (syms s' b) \<noteq> tri_no
            \<and> curr_tri (syms s') b = tri_yes)
    \<and> curr_tri (syms s') a \<noteq> tri_mod \<and> SYMBOL_VALID \<in> s_flags (syms s' a)"
proof -
  note v = calc_choice_values [OF assms(1,2)]
  from v(2) [OF assms(3,4)] obtain r where r: "res = Some r" by blast
  with v(1) [OF r] v(2) show ?thesis
    using assms(3,4) by (auto simp: curr_tri_simp split: if_splits)
qed

theorem sym_calc_choice_exactly_one_witness:
  "\<exists>res s'. sym_calc_choice (sym_calc_value 2) (Menu 0) wit_choice_state = Some (res, s')
    \<and> (\<exists>!b. b \<in> set (choice_members (menus wit_choice_state (Menu 0))) \<and> visible (syms s' b) \<noteq> tri_no
          \<and> curr_tri (syms s') b = tri_yes)"
proof -
  obtain res s' where r: "sym_calc_choice (sym_calc_value 2) (Menu 0) wit_choice_state = Some (res, s')"
    "visible (syms s' (Sym 1)) = tri_yes"
    using wit_calc_choice by (auto split: option.splits)
  have "Sym 1 \<in> set (choice_members (menus wit_choice_state (Menu 0)))"
    by (simp add: wit_choice_state_def)
  from sym_calc_choice_exactly_one [OF r(1) wit_members_ok this] r show ?thesis by auto
qed

text \<open>
  C11: ranges are enforced. When the two bounds are calculated and the lower one is not above
  the upper one, then after the range is applied the number of the symbol lies between them
  (each read with the base of the symbol's type).
\<close>

theorem range_is_enforced:
  assumes "SYMBOL_VALID \<in> s_flags (syms s l)" and "SYMBOL_VALID \<in> s_flags (syms s h)"
    and "s_type (syms s a) = S_INT \<or> s_type (syms s a) = S_HEX"
    and "same_base (syms s a) (syms s l)" and "same_base (syms s a) (syms s h)"
    and "sym_number (number_base_of (syms s a)) (syms s l) \<le> sym_number (number_base_of (syms s a)) (syms s h)"
  shows "\<exists>s'. apply_range (sym_calc_value (Suc n)) a (number_base_of (syms s a)) l h s = Some s'
     \<and> sym_number (number_base_of (syms s a)) (syms s l) \<le> sym_number 0 (syms s' a)
     \<and> sym_number 0 (syms s' a) \<le> sym_number (number_base_of (syms s a)) (syms s h)"
  by (rule apply_range_bounds [OF sym_calc_value_done assms])

theorem range_is_enforced_witness:
  "\<exists>s'. apply_range (sym_calc_value (Suc 0)) (Sym 4) 10 (Sym 2) (Sym 3) wit_state = Some s'
     \<and> 5 \<le> sym_number 0 (syms s' (Sym 4)) \<and> sym_number 0 (syms s' (Sym 4)) \<le> 10"
proof -
  have n: "sym_number 10 (wit_number ''5'') = 5" "sym_number 10 (wit_number ''10'') = 10"
    by code_simp+
  have b: "number_base_of wit_N = 10"
    by (simp add: number_base_of_def wit_N_def)
  have "\<exists>s'. apply_range (sym_calc_value (Suc 0)) (Sym 4) (number_base_of (syms wit_state (Sym 4))) (Sym 2) (Sym 3) wit_state = Some s'
     \<and> sym_number (number_base_of (syms wit_state (Sym 4))) (syms wit_state (Sym 2)) \<le> sym_number 0 (syms s' (Sym 4))
     \<and> sym_number 0 (syms s' (Sym 4)) \<le> sym_number (number_base_of (syms wit_state (Sym 4))) (syms wit_state (Sym 3))"
  proof (rule range_is_enforced)
    show "sym_number (number_base_of (syms wit_state (Sym 4))) (syms wit_state (Sym 2))
        \<le> sym_number (number_base_of (syms wit_state (Sym 4))) (syms wit_state (Sym 3))"
      by (simp add: n b)
  qed (simp_all add: wit_number_def wit_N_def same_base_def blank_symbol_def)
  then show ?thesis by (simp add: n b)
qed

text \<open>
  C12: the running evaluation and the meaning of expressions agree. On a state where the symbols
  of an expression are calculated and the cached values are right, \<open>expr_calc_value\<close> returns the
  value of the expression, changes nothing but the cache, and leaves the cache right.
\<close>

theorem expr_calc_value_is_value:
  assumes "all_valid s e" and "coherent s"
  shows "\<exists>c. expr_calc_value (sym_calc_value (Suc n)) (Some e) s
      = Some (value_in (syms s) (Some e), s\<lparr>expr_val := c\<rparr>) \<and> coherent (s\<lparr>expr_val := c\<rparr>)"
  using expr_calc_node_value [where calc = "sym_calc_value (Suc n)", OF sym_calc_value_done assms] by (simp add: expr_calc_value_def)

theorem expr_calc_value_is_value_witness:
  "\<exists>c. expr_calc_value (sym_calc_value (Suc 0)) (Some (E_LTH (Sym 2) (Sym 3))) wit_state
      = Some (value_in (syms wit_state) (Some (E_LTH (Sym 2) (Sym 3))), wit_state\<lparr>expr_val := c\<rparr>)
    \<and> value_in (syms wit_state) (Some (E_LTH (Sym 2) (Sym 3))) = tri_yes"
proof -
  have "all_valid wit_state (E_LTH (Sym 2) (Sym 3))" "coherent wit_state"
    by (simp_all add: all_valid_def coherent_def wit_number_def)
  from expr_calc_value_is_value [OF this] have "\<exists>c. expr_calc_value (sym_calc_value (Suc 0))
      (Some (E_LTH (Sym 2) (Sym 3))) wit_state
      = Some (value_in (syms wit_state) (Some (E_LTH (Sym 2) (Sym 3))), wit_state\<lparr>expr_val := c\<rparr>)" by blast
  moreover have "value_in (syms wit_state) (Some (E_LTH (Sym 2) (Sym 3))) = tri_yes" by code_simp
  ultimately show ?thesis by blast
qed

section \<open>Setting values\<close>

text \<open>
  C13: \<open>sym_set_tristate_value\<close>. It returns, it accepts exactly the values in the range of the
  symbol, an accepted value is the user value of the symbol afterwards (through the
  re-evaluation of the table), and a refused one changes nothing.
\<close>

theorem sym_set_tristate_value_correct:
  assumes "settable n s"
  shows "\<exists>b s'. sym_set_tristate_value (sym_calc_value n) a v s = Some (b, s')
    \<and> b = sym_tristate_within_range s a v \<and> (if b then user_tri s' a = Some v else s' = s)"
proof -
  obtain b s' where r: "sym_set_tristate_value (sym_calc_value n) a v s = Some (b, s')"
    using set_tristate_value_returns [OF assms] by blast
  with set_tristate_value_result [OF r] show ?thesis by auto
qed

theorem sym_set_tristate_value_correct_witness:
  "\<exists>b s'. sym_set_tristate_value (sym_calc_value 6) (Sym 0) tri_yes wit_seen = Some (b, s')
    \<and> b \<and> user_tri s' (Sym 0) = Some tri_yes"
  using sym_set_tristate_value_correct [OF wit_seen_settable, of "Sym 0" tri_yes] wit_seen_range by auto

text \<open>
  C14: \<open>choice_set_value\<close>. Choosing a symbol gives every visible symbol of the choice a user
  value, \<open>y\<close> for the chosen one and \<open>n\<close> for the others, also after the table is evaluated
  again.
\<close>

theorem choice_set_value_correct:
  assumes "settable n s" and "sub_entries (menus s) c = Some ms"
  shows "\<exists>s'. choice_set_value (sym_calc_value n) c a s = Some s'
    \<and> (\<forall>x \<in> set (entry_syms s ms). visible (syms s x) \<noteq> tri_no \<longrightarrow>
          user_tri s' x = Some (if x = a then tri_yes else tri_no))"
proof -
  obtain s' where r: "choice_set_value (sym_calc_value n) c a s = Some s'"
    using choice_set_value_returns [OF assms(1)] assms(2) by auto
  with assms(2) obtain ch t where t: "choice_set_loop c a ms False s = (ch, t)"
    and s': "(if ch then sym_clear_all_valid (sym_calc_value n) t else Some t) = Some s'"
    by (auto simp: choice_set_value_def split: prod.splits)
  have "user_tri s' x = Some (if x = a then tri_yes else tri_no)"
    if "x \<in> set (entry_syms s ms)" "visible (syms s x) \<noteq> tri_no" for x
    using choice_set_loop_result [OF t] that s' clear_all_valid_user(1) [of n t s' x]
    by (auto simp: user_tri_def split: if_splits)
  with r show ?thesis by blast
qed

theorem choice_set_value_correct_witness:
  "\<exists>s'. choice_set_value (sym_calc_value 4) (Menu 0) (Sym 1) wit_choice_seen = Some s'
    \<and> user_tri s' (Sym 1) = Some tri_yes \<and> user_tri s' (Sym 2) = Some tri_no"
  using choice_set_value_correct [OF wit_choice_seen_settable wit_choice_entries, of "Sym 1"] wit_choice_members by auto

text \<open>
  C15: \<open>sym_set_string_value\<close>. A text it accepts is valid for the symbol's type and becomes the
  user value of the symbol, with \<open>0x\<close> put in front of a hexadecimal number that has no prefix.
\<close>

theorem sym_set_string_value_correct:
  assumes "sym_set_string_value (sym_calc_value n) a t s = Some (True, s')"
    and "s_type (syms s a) \<in> {S_INT, S_HEX, S_STRING}"
  shows "sym_string_valid (syms s a) t
    \<and> user_text s' a = Some (if s_type (syms s a) = S_HEX \<and> \<not> has_0x t then ''0x'' @ t else t)"
  using set_string_value_result [OF assms(1)] assms(2) by auto

theorem sym_set_string_value_correct_witness:
  "\<exists>s'. sym_set_string_value (sym_calc_value 6) (Sym 4) ''77'' wit_state = Some (True, s')
    \<and> user_text s' (Sym 4) = Some ''77''"
proof -
  obtain s' where "sym_set_string_value (sym_calc_value 6) (Sym 4) ''77'' wit_state = Some (True, s')"
    using wit_set_string by (auto split: option.splits)
  from this sym_set_string_value_correct [OF this] show ?thesis by (auto simp: wit_N_def)
qed

section \<open>The macro language\<close>

text \<open>
  C16: an expansion ends. When every variable has a value of at most \<open>M\<close> characters, a nesting
  depth above \<open>budget * (M + 1)\<close> plus the length of the text is enough: the run gives a text,
  with the variables as before and every environment variable asked for recorded once with its
  value, or it leaves with an error message. It never reads a freed value.
\<close>

theorem expand_string_returns:
  assumes "vars_ok M (variable_list s)"
    and "budget (variable_list s) * Suc M + length str < n"
  shows "(\<exists>r s'. expand_string w n str s = Some (Done r s') \<and> variable_list s' = variable_list s
            \<and> (env_inv w s \<longrightarrow> env_inv w s'))
    \<or> (\<exists>s'. expand_string w n str s = Some (Exit s'))"
proof -
  have "fine (expand_string w n str s)"
    unfolding expand_string_def by (rule ev.ex_fine [OF assms])
  then show ?thesis
    using expand_string_keeps [of w n str s]
    by (cases "expand_string w n str s" rule: run_cases) (auto simp: keeps_def)
qed

theorem expand_string_returns_witness:
  "\<exists>r s'. expand_string wit_world 40 ''home $(HOME)'' wit_pstate = Some (Done r s') \<and> env_inv wit_world s'"
proof -
  have n: "expand_string wit_world 40 ''home $(HOME)'' wit_pstate \<noteq> Some (Exit s')" for s'
    using wit_expand_home by (auto split: option.splits outcome.splits)
  have "vars_ok 0 (variable_list wit_pstate)" "env_inv wit_world wit_pstate"
    "budget (variable_list wit_pstate) * Suc 0 + length ''home $(HOME)'' < 40"
    by (simp_all add: vars_ok_def budget_def env_inv_def wit_pstate_def)
  with expand_string_returns [of 0 wit_pstate "''home $(HOME)''" 40 wit_world] n show ?thesis by blast
qed

text \<open>
  C17: a simple variable (\<open>:=\<close>) is fixed when it is defined. If the definition of \<open>x\<close> ends, its
  right-hand side was expanded then, and a reference to \<open>x\<close> gives that text in every later
  state in which \<open>x\<close> is unchanged, whatever the other variables have become.
\<close>

theorem simple_variable_is_fixed:
  assumes "plain_name x"
    and "variable_add w n x value VAR_SIMPLE s = Some (Done () s')"
    and "\<forall>v. variable_lookup x (variable_list s) = Some v \<longrightarrow> v_exp_count v = 0"
  shows "\<exists>r s1. expand_string w n value (start_variable x VAR_SIMPLE s) = Some (Done r s1)
    \<and> (\<forall>t w' k. variable_lookup x (variable_list t) = variable_lookup x (variable_list s') \<longrightarrow>
          expand_string w' (Suc (Suc k)) (reference x) t = Some (Done r t))"
proof -
  obtain r s1 v where "expand_string w n value (start_variable x VAR_SIMPLE s) = Some (Done r s1)"
    and "variable_lookup x (variable_list s') = Some v" "v_flavor v = VAR_SIMPLE" "v_value v = Some r" "v_exp_count v = 0"
    using variable_add_simple_value [OF assms(2,3)] .
  then show ?thesis using expand_simple_reference [OF assms(1)] by metis
qed

theorem simple_variable_is_fixed_witness:
  "\<exists>r s1. expand_string wit_world 3 ''v$(HOME)'' (start_variable ''X'' VAR_SIMPLE wit_pstate) = Some (Done r s1)
    \<and> (\<exists>s'. variable_add wit_world 3 ''X'' ''v$(HOME)'' VAR_SIMPLE wit_pstate = Some (Done () s')
          \<and> expand_string wit_world 2 (reference ''X'') s' = Some (Done r s'))"
proof -
  obtain s' where s': "variable_add wit_world 3 ''X'' ''v$(HOME)'' VAR_SIMPLE wit_pstate = Some (Done () s')"
    using wit_add_simple by (auto split: option.splits outcome.splits)
  have p: "plain_name ''X''" by (simp add: plain_name_def)
  have "\<forall>v. variable_lookup ''X'' (variable_list wit_pstate) = Some v \<longrightarrow> v_exp_count v = 0"
    by (simp add: wit_pstate_def variable_lookup_def)
  from simple_variable_is_fixed [OF p s' this] s' show ?thesis by (metis numeral_2_eq_2)
qed

text \<open>
  C18: a simple variable whose right-hand side refers to the variable itself reads memory that
  is freed, or was never written: the old value is freed, and a new variable is put into the
  list without one, before the right-hand side is expanded.
\<close>

theorem simple_variable_from_itself_faults:
  assumes "plain_name x"
    and "\<forall>v. variable_lookup x (variable_list s) = Some v \<longrightarrow> v_exp_count v = 0"
  shows "variable_add w (Suc (Suc n)) x (reference x) VAR_SIMPLE s = Some Fault"
  by (rule variable_add_self [OF assms])

theorem simple_variable_from_itself_faults_witness:
  "variable_add wit_world (Suc (Suc 0)) ''X'' ''$(X)'' VAR_SIMPLE wit_pstate = Some Fault"
  using simple_variable_from_itself_faults [of "''X''" wit_pstate wit_world 0]
  by (simp add: plain_name_def wit_pstate_def variable_lookup_def reference_def)

text \<open>
  C19: a recursive variable (\<open>=\<close>) is expanded where it is used: a reference to it is the
  expansion of its text in the state of the use, during which a further reference to it without
  arguments ends the program with a message.
\<close>

theorem recursive_variable_is_expanded_at_use:
  assumes "plain_name x" and "variable_lookup x (variable_list s) = Some v"
    and "v_flavor v = VAR_RECURSIVE" "v_value v = Some t" "v_exp_count v = 0"
  shows "expand_string w (Suc (Suc n)) (reference x) s
      = pbind (expand_string w (Suc n) t (enter x s)) (\<lambda>r s. Some (Done r (leave x s)))
    \<and> expand_string w (Suc (Suc n)) (reference x) (enter x s)
      = Some (pperror (''Recursive variable '' @ quoted x @ '' references itself (eventually)'') (enter x s))"
proof -
  have "variable_lookup x (variable_list (enter x s)) = Some (v\<lparr>v_exp_count := 1\<rparr>)"
    using assms by (simp add: enter_def lookup_set_variable)
  from expand_nested_reference [OF assms(1) this] expand_recursive_reference [OF assms] show ?thesis by simp
qed

theorem recursive_variable_is_expanded_at_use_witness:
  "expand_string wit_world 2 (reference ''R'') wit_recursive
     = pbind (expand_string wit_world 1 ''<$(1)>'' (enter ''R'' wit_recursive)) (\<lambda>r s. Some (Done r (leave ''R'' s)))"
  using recursive_variable_is_expanded_at_use
    [of "''R''" wit_recursive "\<lparr>v_name = ''R'', v_value = Some ''<$(1)>'', v_flavor = VAR_RECURSIVE, v_exp_count = 0\<rparr>"
      "''<$(1)>''" wit_world 0]
  by (simp add: plain_name_def wit_recursive_def wit_pstate_def variable_lookup_def numeral_2_eq_2)

section \<open>The tables of symbols and expressions\<close>

text \<open>
  C20: \<open>sym_lookup\<close> enters a name once. Whatever other names are looked up in between, the same
  name gives the same symbol again without changing the table, \<open>sym_find\<close> finds the symbol of a
  name that is not a constant, and different names have different symbols.
\<close>

theorem sym_lookup_enters_once:
  assumes "sym_ok s" and "sym_key_ok (nm, c)" and "\<forall>k \<in> set nms. sym_key_ok k"
    and "sym_lookup (Some nm) (key_flags c) s = (a, s')"
  shows "sym_lookup (Some nm) (key_flags c) (symbols.lookups nms s') = (a, symbols.lookups nms s')
    \<and> (\<not> c \<longrightarrow> sym_find (Some nm) (symbols.lookups nms s') = Some a)
    \<and> (\<forall>k \<in> set nms. fst (sym_lookup (Some (fst k)) (key_flags (snd k)) (symbols.lookups nms s')) = a \<longrightarrow> k = (nm, c))"
proof -
  note l = symbols.lookup_ok [OF assms(1,2)] symbols.lookup_matches [OF assms(1,2)]
  have ok: "sym_ok s'" and a: "a \<in> sym_entries s'" "sym_matches s' (nm, c) a"
    using l assms(4) by auto
  from symbols.lookups_keep [OF ok assms(3) a(1)] a(2)
  have "sym_ok (symbols.lookups nms s')" "a \<in> sym_entries (symbols.lookups nms s')"
    "sym_matches (symbols.lookups nms s') (nm, c) a" by auto
  then have "\<not> c \<longrightarrow> sym_find (Some nm) (symbols.lookups nms s') = Some a"
    using assms(2) by (auto simp: sym_find_iff sym_key_ok_def)
  moreover have "sym_lookup (Some nm) (key_flags c) (symbols.lookups nms s') = (a, symbols.lookups nms s')"
    using symbols.lookup_later [OF assms(1,2,3), of a s'] assms(4) by simp
  moreover have "k = (nm, c)"
    if "k \<in> set nms" "fst (sym_lookup (Some (fst k)) (key_flags (snd k)) (symbols.lookups nms s')) = a" for k
    using symbols.lookup_distinct [OF assms(1,2,3), of k a s'] that assms(3,4)
    by (cases "sym_lookup (Some (fst k)) (key_flags (snd k)) (symbols.lookups nms s')") auto
  ultimately show ?thesis by blast
qed

theorem sym_lookup_enters_once_witness:
  "\<exists>a s'. sym_lookup (Some ''FOO'') {} init_sym_state = (a, s')
    \<and> sym_find (Some ''FOO'') (symbols.lookups [(''BAR'', False), (''FOO'', True)] s') = Some a"
proof -
  obtain a s' where l: "sym_lookup (Some ''FOO'') {} init_sym_state = (a, s')"
    by (cases "sym_lookup (Some ''FOO'') {} init_sym_state")
  with sym_lookup_enters_once [OF init_sym_ok, of "''FOO''" False "[(''BAR'', False), (''FOO'', True)]" a s']
  show ?thesis by (auto simp: sym_key_ok_def builtin_symbol_def key_flags_def)
qed

text \<open>
  C21: equal expressions are the same node. A lookup by \<open>expr_lookup\<close> keeps the trees of the
  nodes there are, gives a node of the requested content, and afterwards two nodes are equal
  exactly if the trees below them are.
\<close>

theorem expr_nodes_are_trees:
  assumes "expr_wf addr s" and "node_fits s n" and "expr_lookup addr n s = (e, s')"
  shows "expr_wf addr s' \<and> e < next_expr s' \<and> nodes s' e = n
    \<and> (\<forall>i < next_expr s. tree_of (nodes s') i = tree_of (nodes s) i)
    \<and> (\<forall>i < next_expr s'. \<forall>j < next_expr s'. tree_of (nodes s') i = tree_of (nodes s') j \<longleftrightarrow> i = j)"
proof -
  from expr_lookup_wf [OF assms] have wf: "expr_wf addr s'" by simp
  then have "inj_on (nodes s') {..< next_expr s'}" "\<forall>i < next_expr s'. older (nodes s') i"
    by (auto simp: expr_wf_def expr_ok_def)
  from tree_of_inj [OF this] expr_lookup_wf [OF assms] show ?thesis by blast
qed

theorem expr_nodes_are_trees_witness:
  "\<exists>e s'. expr_lookup (\<lambda>_. 0) (N_SYMBOL (Sym 0)) init_expr_state = (e, s')
    \<and> expr_wf (\<lambda>_. 0) s' \<and> nodes s' e = N_SYMBOL (Sym 0)"
proof -
  obtain e s' where l: "expr_lookup (\<lambda>_. 0) (N_SYMBOL (Sym 0)) init_expr_state = (e, s')"
    by (cases "expr_lookup (\<lambda>_. 0) (N_SYMBOL (Sym 0)) init_expr_state")
  from expr_nodes_are_trees [OF init_expr_wf _ l] l show ?thesis by (simp add: node_fits_def)
qed

section \<open>Configuration files\<close>

text \<open>
  C22: the round trip of a line. What \<open>print_symbol_for_dotconfig\<close> writes for a symbol with a
  printable name and a value of its type is one line; \<open>conf_read_simple\<close> takes it for an
  assignment to that name, and \<open>conf_set_sym_val\<close> reads from it the value that was written:
  strings come back through escaping and unescaping, \<open>n\<close> through the comment.
\<close>

theorem dotconfig_round_trip:
  assumes "s_name y = Some nm" and "printable_name cfg nm" and "printable_value y"
  shows "\<exists>line v. print_symbol_for_dotconfig cfg y = line @ ''\<newline>'' \<and> CHR ''\<newline>'' \<notin> set line
    \<and> conf_read_line cfg line = Assign nm v \<and> sym_val_of_text y S_DEF_USER v = saved_value y"
  by (rule dotconfig_line_round_trip [OF assms]) blast

theorem dotconfig_round_trip_witness:
  "\<exists>line v. print_symbol_for_dotconfig ''CONFIG_'' wit_string = line @ ''\<newline>''
    \<and> conf_read_line ''CONFIG_'' line = Assign ''S'' v
    \<and> sym_val_of_text wit_string S_DEF_USER v = Set_text [CHR ''a'', CHR 0x22, CHR ''b'', CHR 0x5C]"
proof -
  have "s_name wit_string = Some ''S''" "printable_name ''CONFIG_'' ''S''" "printable_value wit_string"
    "saved_value wit_string = Set_text [CHR ''a'', CHR 0x22, CHR ''b'', CHR 0x5C]"
    by (simp_all add: wit_string_def printable_name_def printable_value_def saved_value_def)
  with dotconfig_round_trip [of wit_string "''S''" "''CONFIG_''"] show ?thesis by fastforce
qed

section \<open>Recursive dependencies\<close>

text \<open>
  C23: when the check of all symbols counts no error, the dependencies reached from them are
  acyclic. There is a set of nodes (symbols, with the members of a choice counted as the choice)
  that contains those that were checked, is closed under the dependencies, and has no cycle. The
  flags the search uses must be clear at its start.
\<close>

theorem checked_dependencies_are_acyclic:
  assumes "choices_ok (ck s)" and "no_check_flags (ck s)" and "check_all n as s = Some (0, s')"
  shows "\<exists>B. rep (ck s) ` set as \<subseteq> B
    \<and> (\<forall>a. rep (ck s) a \<in> B \<longrightarrow> rep (ck s) ` sym_deps (ck s) a \<subseteq> B) \<and> acyclic (dep_edges (ck s) B)"
  by (rule check_all_acyclic [OF assms]) blast

lemma wit_choices_ok: "choices_ok wit_state"
proof -
  have nc: "s_menus (syms wit_state r) = []" if "sym_is_choice (syms wit_state r)" for r
    using that by (cases r) (auto simp: sym_is_choice_def wit_state_def init_syms_def const_symbol_def
        blank_symbol_def wit_A_def wit_B_def wit_number_def wit_N_def
        split: if_splits)
  have pdeps: "prop_deps y (props wit_state p) \<subseteq> {symbol_yes}" for y p
    by (auto simp: prop_deps_def wit_props_def blank_prop_def split: if_splits)
  have odeps: "oexpr_syms (dir_dep_expr (syms wit_state a)) = {}" "oexpr_syms (implied_expr (syms wit_state a)) = {}"
    "oexpr_syms (rev_dep_expr (syms wit_state a)) \<subseteq> {Sym 1}" for a
    by (cases a; simp add: wit_state_def init_syms_def const_symbol_def blank_symbol_def
        wit_A_def wit_B_def wit_number_def wit_N_def)+
  have deps: "sym_deps wit_state a \<subseteq> {Sym 1, symbol_yes}" for a
    using odeps [of a] pdeps unfolding sym_deps_def Let_def by blast
  have named: "\<not> sym_is_choice (syms wit_state (Sym 1))" "\<not> sym_is_choice (syms wit_state symbol_yes)"
    by (simp_all add: sym_is_choice_def wit_state_def init_syms_def const_symbol_def wit_B_def)
  have "rep wit_state a = a" for a by (simp only: rep_def wit_choice_menu option.case)
  with nc deps named show ?thesis by (fastforce simp: choices_ok_def)
qed

lemma wit_check_all:
  "case check_all 4 [Sym 0, Sym 1] \<lparr>ck = wit_state, check_stack = []\<rparr> of Some (c, s) \<Rightarrow> c = 0 | None \<Rightarrow> False"
  by code_simp

theorem checked_dependencies_are_acyclic_witness:
  "\<exists>B. rep wit_state (Sym 0) \<in> B \<and> acyclic (dep_edges wit_state B)"
proof -
  let ?s = "\<lparr>ck = wit_state, check_stack = []\<rparr>"
  have "choices_ok (ck ?s)" by (simp add: wit_choices_ok)
  moreover have "no_check_flags (ck ?s)"
    unfolding no_check_flags_def
    by (auto simp: wit_state_def init_syms_def const_symbol_def blank_symbol_def
        wit_A_def wit_B_def wit_number_def wit_N_def split: sid.split)
  moreover obtain s' where "check_all 4 [Sym 0, Sym 1] ?s = Some (0, s')"
    using wit_check_all by (auto split: option.splits)
  ultimately show ?thesis
    using checked_dependencies_are_acyclic [of ?s 4 "[Sym 0, Sym 1]"] by auto
qed

section \<open>The menu tree\<close>

text \<open>
  C24: the calls of the grammar actions build a tree. In every state they reach, the entries form
  one tree below the root menu whose depth-first order is the order in which they were added, and
  the lists of entries and of properties of each symbol are those that were added for it, in
  order.
\<close>

theorem parsed_entries_form_a_tree:
  assumes "built s"
  shows "(\<exists>t. menu_tree (bk s) t \<and> preorder t = rootmenu # map Menu [0 ..< next_menu s])
    \<and> (\<forall>a. s_menus (syms (bk s) a) = filter (\<lambda>m. m_sym (menus (bk s) m) = Some a) (map Menu [0 ..< next_menu s])
        \<and> s_prop (syms (bk s) a) = filter (\<lambda>p. m_sym (menus (bk s) (p_menu (props (bk s) p))) = Some a) [0 ..< next_prop s])"
proof -
  from built_tree [OF assms] obtain t d where "tree_at t d s" by blast
  with built_menu_tree built_lists [OF assms] show ?thesis by (auto simp: tree_at_def lists_ok_def)
qed

theorem parsed_entries_form_a_tree_witness:
  "\<exists>t. menu_tree (bk wit_build) t \<and> preorder t = [rootmenu, Menu 0, Menu 1]"
  using parsed_entries_form_a_tree [OF wit_build_built] by (simp add: wit_build_entries(2))

text \<open>
  C25: \<open>menu_finalize\<close> returns, and no entry is lost, doubled or reordered. After parsing, with
  expressions that \<open>expr_transform\<close> accepts and properties of the expected forms, a recursion
  depth of the number of entries is enough; the result is a tree with the same depth-first
  order, whatever submenus were formed or dissolved, and a state in which every evaluation of
  symbols returns.
\<close>

theorem menu_finalize_keeps_entries:
  assumes "built s" and "checkable (bk s)" and "exprs_fine (bk s)" and "next_menu s < n"
  shows "\<exists>k t. menu_finalize n (bk s) = Some k \<and> menu_tree k t
    \<and> preorder t = rootmenu # map Menu [0 ..< next_menu s] \<and> wf_state k"
  by (rule built_finalized [OF assms]) blast

theorem menu_finalize_keeps_entries_witness:
  "\<exists>k t. menu_finalize 3 (bk wit_build) = Some k \<and> menu_tree k t \<and> preorder t = [rootmenu, Menu 0, Menu 1]
    \<and> m_parent (menus k (Menu 1)) = Some (Menu 0)"
  using menu_finalize_keeps_entries [OF wit_build_built wit_build_checkable wit_build_fine, of 3] wit_build_run
  unfolding wit_build_entries(2) by (auto simp: wit_build_entries(1) split: option.splits)

section \<open>Showing entries\<close>

text \<open>
  C26: \<open>menu_is_visible\<close> returns on every tree of entries, with a recursion depth of its height,
  and changes computed values only. An entry it calls visible has a prompt; an entry without
  entries below it and without a \<open>visible if\<close> is visible exactly if the visibility now stored in
  its prompt is not \<open>n\<close>.
\<close>

theorem menu_is_visible_correct:
  assumes "wf_state s" and "finite (invalid s)" and "card (invalid s) < n"
    and "tree_ok (menus s) t" and "height t \<le> d"
  shows "\<exists>v s'. menu_is_visible d (sym_calc_value n) (entry t) s = Some (v, s') \<and> same_structure s s'
    \<and> (v \<longrightarrow> menu_has_prompt s (entry t))
    \<and> (\<forall>p. m_prompt (menus s (entry t)) = Some p \<and> m_visibility (menus s (entry t)) = None \<and> children t = [] \<longrightarrow>
          v = (p_visible_tri (props s' p) \<noteq> tri_no))"
proof -
  have "children t = [] \<Longrightarrow> m_list (menus s (entry t)) = None" using assms(4) by (cases t) simp
  with menu_is_visible_total [OF assms refl] show ?thesis
    by (auto simp: returns_True menu_has_prompt_def intro: prims_same_structure)
qed

theorem menu_is_visible_correct_witness:
  "\<exists>v s'. menu_is_visible 2 (sym_calc_value 4) (Menu 0) wit_choice_state = Some (v, s')
    \<and> same_structure wit_choice_state s'"
proof -
  have tr: "tree_ok (menus wit_choice_state) (MNode (Menu 0) [MNode (Menu 1) [], MNode (Menu 2) []])" by code_simp
  have "wf_state wit_choice_state" "finite (invalid wit_choice_state)" "card (invalid wit_choice_state) < 4"
    using wit_choice_state_settable by (simp_all add: settable_def wit_choice_symbols(1))
  from menu_is_visible_correct [OF this tr, of 2] show ?thesis by auto
qed

section \<open>Configuration files\<close>

text \<open>
  C27: what reading a configuration file stores. \<open>conf_read_simple\<close> returns on sound menus. When
  it finds a file, each symbol of the table has afterwards the value of the last line of the file
  that assigns it a valid one, and no value if there is no such line; when it finds none, no
  symbol changes.
\<close>

theorem conf_read_simple_last_assignment:
  assumes "wf_state (ks c)" and "conf_open w name c = (r, c1)"
  shows "\<exists>c'. conf_read_simple w name d c = Some (r \<noteq> None, c')
    \<and> (case r of None \<Rightarrow> syms (ks c') = syms (ks c)
       | Some (nm, t) \<Rightarrow> \<forall>a \<in> set (sym_table (ks c)).
           stored_value d (syms (ks c') a) = last_value (ks c) d (CONFIG_prefix (environ c)) (file_lines t) a)"
  using conf_read_simple_result [OF get_choice_menu_defined [OF assms(1)] assms(2), of d] by blast

theorem conf_read_simple_last_assignment_witness:
  "\<exists>c'. conf_read_simple wit_os None S_DEF_USER (wit_conf wit_main wit_two_lines) = Some (True, c')
    \<and> stored_value S_DEF_USER (syms (ks c') (Sym 0)) = Some (Set_tri tri_yes)"
proof -
  let ?c = "wit_conf wit_main wit_two_lines"
  let ?t = "''CONFIG_A=n\<newline># comment\<newline>CONFIG_A=y\<newline>''"
  have "conf_get_configname ?c = ''.config''" by (simp add: conf_get_configname_def config_file_name_def wit_conf_def)
  then have o: "conf_open wit_os None ?c = (Some (''.config'', ?t), ?c)"
    by (simp add: conf_open_def zconf_fopen_def read_file_def file_text_def wit_two_lines_def Let_def)
  have wf: "wf_state (ks ?c)" using wit_main_settable by (simp add: settable_def)
  have "Sym 0 \<in> set (sym_table wit_main)" by (simp add: wit_main_links wit_state_def)
  with conf_read_simple_last_assignment [OF wf o, of S_DEF_USER] wit_two_lines_value show ?thesis
    by (auto simp: wit_prefix)
qed

text \<open>
  C28: the round trip of \<^verbatim>\<open>.config\<close>. On a tree of entries whose prompts cannot be taken for
  values, \<open>conf_write\<close> produces its text, with every symbol printed at most once, each after its
  evaluation. If names and values are printable, reading the text gives each symbol the value
  that was printed, and no value to the symbols that were not printed.
\<close>

theorem dotconfig_file_round_trip:
  assumes "settable n (ks c)" and "menu_tree (ks c) t" and "height t \<le> d" and "cfg = CONFIG_prefix (environ c)"
    and "quiet_menus cfg (ks c)" and "quiet_heading cfg (ks c)"
  shows "\<exists>x c' ys. conf_write_text d (sym_calc_value n) c = Some (x, c') \<and> distinct (map fst ys)
    \<and> (\<forall>(a, y) \<in> set ys. SYMBOL_WRITE \<in> s_flags y \<and> SYMBOL_VALID \<in> s_flags y \<and> s_name y = s_name (syms (ks c) a))
    \<and> ((\<forall>(a, y) \<in> set ys. dot_printable cfg (ks c) a y) \<longrightarrow>
        (\<forall>w name nm c1. conf_open w name c' = (Some (nm, x), c1) \<longrightarrow>
          (\<exists>c2. conf_read_simple w name S_DEF_USER c' = Some (True, c2)
            \<and> (\<forall>a \<in> set (sym_table (ks c)).
                 stored_value S_DEF_USER (syms (ks c2) a) = map_option saved_value (map_of ys a)))))"
proof -
  obtain x c' ys where r: "conf_write_text d (sym_calc_value n) c = Some (x, c')" and e: "environ c' = environ c"
    and st: "static_eq (ks c) (ks c')" and wf: "wf_state (ks c')" and ys: "distinct (map fst ys)"
    and y: "\<And>a y. (a, y) \<in> set ys \<Longrightarrow> SYMBOL_WRITE \<in> s_flags y \<and> SYMBOL_VALID \<in> s_flags y
        \<and> s_name y = s_name (syms (ks c) a) \<and> s_type y = s_type (syms (ks c) a)"
    and pr: "(\<And>a y. (a, y) \<in> set ys \<Longrightarrow> dot_printable cfg (ks c) a y) \<Longrightarrow> renders cfg (ks c) x ys"
    using conf_write_text_result [OF assms(1-3)] assms(4-6) by metis
  have "\<exists>c2. conf_read_simple w name S_DEF_USER c' = Some (True, c2) \<and> (\<forall>a \<in> set (sym_table (ks c)).
      stored_value S_DEF_USER (syms (ks c2) a) = map_option saved_value (map_of ys a))"
    if p: "\<forall>(a, y) \<in> set ys. dot_printable cfg (ks c) a y" and o: "conf_open w name c' = (Some (nm, x), c1)" for w name nm c1
  proof -
    have "last_value (ks c') S_DEF_USER cfg ls a = last_value (ks c) S_DEF_USER cfg ls a" for ls a
      by (simp add: last_value_def static_line_value [OF st] cong: map_cong)
    moreover have "last_value (ks c) S_DEF_USER cfg (file_lines x) a = map_option saved_value (map_of ys a)" for a
      using p by (intro renders_last_value [OF pr ys]) auto
    ultimately show ?thesis
      using conf_read_simple_result [OF get_choice_menu_defined [OF wf] o, of S_DEF_USER]
      by (auto simp: e assms(4) static_eqD(1) [OF st])
  qed
  with r ys y show ?thesis by (intro exI conjI) (auto split: prod.split)
qed

theorem dotconfig_file_round_trip_witness:
  "\<exists>x c' ys. conf_write_text 2 (sym_calc_value 6) (wit_conf wit_main wit_two_lines) = Some (x, c')
    \<and> distinct (map fst ys) \<and> (\<forall>(a, y :: symbol) \<in> set ys. s_name y = s_name (syms wit_main a))"
proof -
  have "height wit_tree \<le> 2" by (simp add: wit_tree_def)
  note r = dotconfig_file_round_trip [of 6 "wit_conf wit_main wit_two_lines" wit_tree, unfolded wit_conf_sel wit_prefix,
      OF wit_main_settable wit_main_tree this refl wit_main_quiet]
  show ?thesis
    using r by (elim ex_forward conj_forward) auto
qed

text \<open>
  C29: no needless rebuild. When \<^verbatim>\<open>auto.conf\<close> holds what would be written for the present
  values, \<open>conf_touch_deps\<close> succeeds and no file changes: no dependency file is touched.
\<close>

theorem unchanged_values_touch_nothing:
  assumes "wf_state (ks c)" and "cfg = CONFIG_prefix (environ c)" and "auto_readable cfg (ks c)"
    and "autoconf_text (print_symbol_for_autoconf cfg) (Some comment_style_pound) (ks c) = Some t"
    and "read_file w (conf_get_autoconfig_name c) c = Some t" and "length (conf_get_autoconfig_name c) < 4096"
  shows "\<exists>c'. conf_touch_deps w c = Some (True, c') \<and> fs c' = fs c"
  using touch_nothing [OF get_choice_menu_defined [OF assms(1)]] assms(2-6) by blast

theorem unchanged_values_touch_nothing_witness:
  "\<exists>c'. conf_touch_deps wit_os (wit_conf wit_written [''include/config/auto.conf'' \<mapsto> wit_auto_text]) = Some (True, c')
    \<and> files (fs c') = [''include/config/auto.conf'' \<mapsto> wit_auto_text]"
proof -
  let ?c = "wit_conf wit_written [''include/config/auto.conf'' \<mapsto> wit_auto_text]"
  have n: "conf_get_autoconfig_name ?c = ''include/config/auto.conf''"
    by (simp add: conf_get_autoconfig_name_def config_file_name_def wit_conf_def)
  have f: "read_file wit_os (conf_get_autoconfig_name ?c) ?c = Some wit_auto_text"
    by (simp add: n read_file_def file_text_def)
  have "set_eq wit_main wit_written" by (simp add: set_eq_def wit_written_def)
  with wit_main_settable have "wf_state (ks ?c)" by (simp add: settable_def set_eq_wf)
  from unchanged_values_touch_nothing [OF this refl _ _ f] wit_auto wit_auto_readable
  show ?thesis by (auto simp: wit_prefix n)
qed

text \<open>
  C30: \<open>conf_write\<close> does not lose the old configuration. Unless it is told to overwrite, the old
  text is afterwards under its name or under the name with \<^verbatim>\<open>.old\<close>, whatever fails on the way
  and whatever the result is. The three names stand for different files, the old name is no
  directory, and renaming to it is permitted: the code ignores a failure of this renaming.
\<close>

theorem conf_write_keeps_old:
  assumes "conf_write w d calc (Some name) c = Some (r, c')" and "environ c ''KCONFIG_OVERWRITECONFIG'' = None"
    and "old = take 4096 (name @ ''.old'')" and "tmp = take 4096 (name @ ''.'' @ int_text (getpid w) @ ''.tmp'')"
    and "resolve w name \<noteq> resolve w tmp" and "resolve w old \<noteq> resolve w tmp" and "resolve w name \<noteq> resolve w old"
    and "file_text w name c = Some t"
    and "\<And>f. may_rename w f (resolve w name) (resolve w old)" and "resolve w old \<notin> dirs (fs c)"
    and "\<And>p. path_prefix p name \<Longrightarrow> resolve w p \<noteq> resolve w old"
  shows "file_text w name c' = Some t \<or> file_text w old c' = Some t"
  by (rule conf_write_keeps [OF assms])

theorem conf_write_keeps_old_witness:
  "\<exists>r c'. conf_write wit_os 2 (sym_calc_value 6) (Some ''.config'') (wit_conf wit_main wit_two_lines) = Some (r, c')
    \<and> (file_text wit_os ''.config'' c' = wit_two_lines ''.config'' \<or> file_text wit_os ''.config.old'' c' = wit_two_lines ''.config'')"
proof -
  let ?c = "wit_conf wit_main wit_two_lines"
  obtain r c' where r: "conf_write wit_os 2 (sym_calc_value 6) (Some ''.config'') ?c = Some (r, c')"
    using wit_conf_write by (auto split: option.splits)
  obtain t where t: "file_text wit_os ''.config'' ?c = Some t" by (simp add: file_text_def wit_two_lines_def)
  have tmp: "''.config.7.tmp'' = take 4096 (''.config'' @ ''.'' @ int_text (getpid wit_os) @ ''.tmp'')"
    unfolding wit_os_def by code_simp
  have "path_prefix p ''.config'' \<Longrightarrow> p \<noteq> ''.config.old''" for p by (auto simp: path_prefix_def)
  with conf_write_keeps_old [OF r _ _ tmp _ _ _ t, of "''.config.old''"] r t show ?thesis
    by (auto simp: file_text_def)
qed

section \<open>The line oriented front end\<close>

text \<open>
  C31: values for new symbols. \<open>conf_set_all_new_symbols\<close> returns unless \<open>KCONFIG_PROBABILITY\<close> is
  refused. No symbol loses or changes a user value, and each boolean or tristate symbol with a
  prompt that was without one, and that is neither a choice nor a member of one, gets the value of
  the mode. A random value is never \<open>m\<close> for a boolean, nor a value whose probability is 0, be it
  \<open>y\<close>, \<open>m\<close> or \<open>n\<close>. There is one exception: a symbol below a choice without a value may get \<open>y\<close>
  whatever the probabilities say, since \<open>randomize_choice_values\<close> goes over all symbols there; it
  does not occur when these are the members of the choice, as the grammar has it.
  The probabilities lie between 0 and 100, also their sum.
\<close>

theorem new_symbols_get_values:
  assumes "settable n (fk f)" and "sub_entries (menus (fk f)) rootmenu = Some ms"
    and "(if mode = def_random then env_probabilities (environ (cf f) ''KCONFIG_PROBABILITY'')
          else env_probabilities None) = Some q"
  shows "(0 \<le> pby q \<and> pby q \<le> 100 \<and> 0 \<le> pty q \<and> 0 \<le> ptm q \<and> pty q + ptm q \<le> 100)
    \<and> (\<exists>f'. conf_set_all_new_symbols w rnd (sym_calc_value n) mode f = Some (True, f')
      \<and> (\<forall>a. sym_has_value (syms (fk f) a) \<longrightarrow> user_tri (fk f') a = user_tri (fk f) a)
      \<and> (mode \<noteq> def_default \<longrightarrow> (\<forall>m \<in> set ms. \<forall>a. wants_value (fk f) m a \<longrightarrow>
           (\<exists>v. user_tri (fk f') a = Some v \<and> may_get mode q (fk f) ms a v
              \<and> (members_only (fk f) ms \<longrightarrow> value_ok mode q (s_type (syms (fk f) a)) v)))))"
proof -
  have "env_probabilities None = Some (derive_probabilities [])" by (simp add: env_probabilities_def derive_probabilities_def)
  then have "(if mode = def_random then env_probabilities (environ (cf f) ''KCONFIG_PROBABILITY'')
      else Some (derive_probabilities [])) = Some q" using assms(3) by (auto split: if_splits)
  from conf_set_all_new_symbols_result [OF assms(1,2) this] show ?thesis
    using env_probabilities_bounds [of _ q] assms(3) by (auto split: if_splits)
qed

theorem new_symbols_get_values_witness:
  "\<exists>f'. conf_set_all_new_symbols wit_os (\<lambda>_ _. 7) (sym_calc_value 6) def_mod (wit_front wit_new allmodconfig '''') = Some (True, f')
    \<and> user_tri (fk f') (Sym 0) = Some tri_mod"
proof -
  let ?f = "wit_front wit_new allmodconfig ''''"
  have "env_probabilities None = Some \<lparr>pby = 50, pty = 33, ptm = 33\<rparr>" by code_simp
  then have "(if def_mod = def_random then env_probabilities (environ (cf ?f) ''KCONFIG_PROBABILITY'')
      else env_probabilities None) = Some \<lparr>pby = 50, pty = 33, ptm = 33\<rparr>" by simp
  from new_symbols_get_values [OF _ _ this, of 6 "[Menu 0]" wit_os "\<lambda>_ _. 7"] wit_new_settable wit_new_entries wit_new_wants
  show ?thesis by (auto simp: may_get_def value_ok_def)
qed

text \<open>
  C32: \<open>oldconfig\<close> asks for everything. \<open>due\<close> lists the symbols to ask for in a state: it goes over
  the tree, hands the state from one entry to the next, and lists each visible symbol that can be
  changed and has no value. When the loop of \<open>check_conf\<close> ends in a mode that asks, then the pass
  after the ones that asked has started in a state in which nothing was left to ask for, and the
  state of the end is that of \<open>due\<close>: nothing was printed, read or set. A pass is the last one
  exactly if there is nothing to ask for, so the loop ends at once in such a state, for example
  when every symbol has a value.
\<close>

theorem update_loop_complete:
  assumes "settable N (fk f)" and "menu_tree (fk f) t" and "height t \<le> d" and "height t \<le> n" and "asking f"
  shows "(\<forall>f' u. update_loop n d (sym_calc_value N) f = Some f' \<longrightarrow> tree_ok (menus (fk f')) u \<longrightarrow> entry u = rootmenu \<longrightarrow>
       (\<exists>g. asked_passes n d (sym_calc_value N) f g \<and> due d (sym_calc_value N) u (fk g) = Some ([], fk f')
          \<and> f' = in_state (fk f') (g\<lparr>conf_cnt := 0\<rparr>)))
    \<and> (\<forall>f'. update_pass n d (sym_calc_value N) f = Some (True, f') \<longleftrightarrow>
       (\<exists>k. due d (sym_calc_value N) t (fk f) = Some ([], k) \<and> f' = in_state k (f\<lparr>conf_cnt := 0\<rparr>)))
    \<and> (\<exists>l k. due d (sym_calc_value N) t (fk f) = Some (l, k) \<and> (all_have_values (fk f) \<longrightarrow> l = [])
       \<and> (l = [] \<longrightarrow> update_loop n d (sym_calc_value N) f = Some (in_state k (f\<lparr>conf_cnt := 0\<rparr>))))"
proof -
  have t: "tree_ok (menus (fk f)) t" "entry t = rootmenu" using assms(2) by (simp_all add: menu_tree_def)
  obtain l k where l: "due d (sym_calc_value N) t (fk f) = Some (l, k)" "all_have_values (fk f) \<longrightarrow> l = []"
    using due_total(1) [OF assms(1) t(1) assms(3)] by blast
  moreover have "l = [] \<longrightarrow> update_loop n d (sym_calc_value N) f = Some (in_state k (f\<lparr>conf_cnt := 0\<rparr>))"
    using update_loop_without_due [OF _ assms(5) t(1) assms(4) t(2)] l(1) by blast
  ultimately show ?thesis
    using update_loop_result [OF _ assms(5)] quiet_pass_iff [OF assms(5) t(1) assms(4) t(2)] by blast
qed

theorem update_loop_complete_witness:
  "\<exists>k. due 2 (sym_calc_value 6) wit_tree wit_main = Some ([], k)
    \<and> update_loop 2 2 (sym_calc_value 6) (wit_front wit_main oldconfig '''') = Some (in_state k (wit_front wit_main oldconfig ''''))"
proof -
  let ?f = "wit_front wit_main oldconfig ''''"
  have "asking ?f" "height wit_tree \<le> 2" by (simp_all add: asking_def wit_tree_def)
  with update_loop_complete [of 6 ?f wit_tree 2 2] wit_main_settable wit_main_tree wit_main_values
  obtain k where "due 2 (sym_calc_value 6) wit_tree wit_main = Some ([], k)"
    "update_loop 2 2 (sym_calc_value 6) ?f = Some (in_state k (?f\<lparr>conf_cnt := 0\<rparr>))"
    by auto
  moreover have "?f\<lparr>conf_cnt := 0\<rparr> = ?f" by (simp add: wit_front_def)
  ultimately show ?thesis by auto
qed

section \<open>The launcher and the progress display\<close>

definition wit_system :: system where
  "wit_system = \<lparr>sys_exists = (\<lambda>_. True), sys_executable = (\<lambda>_. True), sys_directory = (\<lambda>_. True),
     sys_realpath = Some, sys_read = (\<lambda>p. if p = ''/opt/app/run.ld.cfg'' then Some (cfg_text ''lib/ld.so'' [''lib'', ''/opt/lib'']) else None),
     sys_env = (\<lambda>v. if v = ''LD_LIBRARY_PATH'' then Some ''/lib'' else None), sys_setenv = (\<lambda>_. True)\<rparr>"

text \<open>
  C33: \<open>execld\<close> does what the configuration beside the program says. For a program that resolves to
  \<open>dir/n\<close> with a file \<open>dir/n.ld.cfg\<close> that names the linker \<open>l\<close> and the directories \<open>rs\<close>, it executes
  that linker, taken relative to \<open>dir\<close>, with the program and the arguments, and exactly those of
  the directories that exist, in their order, in front of the old library path.
\<close>

theorem execld_follows_config:
  assumes prog: "resolve_program_path w prog = Some p" "sys_realpath w p = Some (dir @ CHR ''/'' # n)"
    and n: "n \<noteq> []" "CHR ''/'' \<notin> set n" "dir \<noteq> []" "last dir \<noteq> CHR ''/''"
    and cfg: "cfg = dir @ ''/'' @ n @ ''.ld.cfg''" "length cfg \<le> 4095" "sys_exists w cfg" "sys_read w cfg = Some (cfg_text l rs)"
    and l: "plain_text l" "length l \<le> 4085" "sys_exists w (make_abs w dir l)"
    and rs: "\<forall>r \<in> set rs. plain_dir r" "length (join_semicolon rs) \<le> 4086"
    and env: "\<forall>t. sys_setenv w t"
    and found: "ds = filter (sys_directory w) (map (make_abs w dir) rs)"
  shows "execld_main w (a # prog # args) =
    Execv (make_abs w dir l) (make_abs w dir l # (dir @ CHR ''/'' # n) # args)
      (if ds = [] then None
       else Some (join_colon ds @ (case sys_env w ''LD_LIBRARY_PATH'' of
                                     None \<Rightarrow> [] | Some old \<Rightarrow> if old = [] then [] else '':'' @ old)))"
proof -
  have "execld_main w (a # prog # args) =
    Execv (make_abs w dir l) (make_abs w dir l # (dir @ CHR ''/'' # n) # args) (build_library_path w dir rs)"
    using config_takes_effect [OF prog n cfg l rs] env by blast
  then show ?thesis by (simp add: build_library_path_def found Let_def split: option.split)
qed

theorem execld_follows_config_witness:
  "execld_main wit_system [''execld'', ''/opt/app/run'', ''-v''] =
     Execv ''/opt/app/lib/ld.so'' [''/opt/app/lib/ld.so'', ''/opt/app/run'', ''-v''] (Some ''/opt/app/lib:/opt/lib:/lib'')"
proof -
  let ?w = wit_system and ?d = "''/opt/app''"
  have "resolve_program_path ?w ''/opt/app/run'' = Some ''/opt/app/run''"
    and "sys_realpath ?w ''/opt/app/run'' = Some (?d @ CHR ''/'' # ''run'')"
    by (simp_all add: resolve_program_path_def wit_system_def)
  moreover have "length (?d @ ''/'' @ ''run'' @ ''.ld.cfg'') \<le> 4095" "sys_exists ?w (?d @ ''/'' @ ''run'' @ ''.ld.cfg'')"
    "sys_read ?w (?d @ ''/'' @ ''run'' @ ''.ld.cfg'') = Some (cfg_text ''lib/ld.so'' [''lib'', ''/opt/lib''])"
    by (simp_all add: wit_system_def)
  moreover have "plain_text ''lib/ld.so''" "length ''lib/ld.so'' \<le> 4085" "sys_exists ?w (make_abs ?w ?d ''lib/ld.so'')"
    by (simp_all add: plain_text_def wit_system_def)
  moreover have "\<forall>r \<in> set [''lib'', ''/opt/lib'']. plain_dir r" "length (join_semicolon [''lib'', ''/opt/lib'']) \<le> 4086"
    "\<forall>t. sys_setenv ?w t"
    by (simp_all add: plain_dir_def plain_text_def trim_def is_blank_def join_semicolon_def wit_system_def)
  ultimately have "execld_main ?w [''execld'', ''/opt/app/run'', ''-v''] =
      Execv (make_abs ?w ?d ''lib/ld.so'') [make_abs ?w ?d ''lib/ld.so'', ?d @ CHR ''/'' # ''run'', ''-v'']
        (Some (join_colon (filter (sys_directory ?w) (map (make_abs ?w ?d) [''lib'', ''/opt/lib''])) @ '':'' @ ''/lib''))"
    using execld_follows_config [of ?w "''/opt/app/run''" "''/opt/app/run''" ?d "''run''" "?d @ ''/'' @ ''run'' @ ''.ld.cfg''"
        "''lib/ld.so''" "[''lib'', ''/opt/lib'']" _ "''execld''" "[''-v'']"]
    by (simp add: wit_system_def)
  then show ?thesis by (simp add: wit_system_def make_abs_def join_path_def)
qed

text \<open>
  C34: the progress display follows the messages. After a number of packages and any sequence of
  begin and end messages the handler has not left a buffer or its list; the linked list holds the
  names of the packages that have begun and not ended, in their order, \<open>live_pkg\<close> is their number,
  \<open>finished_pkg\<close> is the number of ends up to the total, and the percentage is theirs.
\<close>

theorem progress_follows_messages:
  assumes "0 < N" "100 * N < 2 ^ 31" "length b = BUF_SIZE" "\<forall>m \<in> set ms. plain_pkg (msg_name m)"
  shows "\<exists>s as. handle_messages ((''total='' @ nat_text N) # map msg_text ms) (handler_start b) = Some s
    \<and> all_pkgs (pkgs s) = Some as \<and> map (pname (pkgs s)) as = live_names ms []
    \<and> live_pkg s = int (length (live_names ms [])) \<and> finished_pkg s = int (min N (ended ms))
    \<and> (0 < ended ms \<longrightarrow> percent s = int (100 * min N (ended ms) div N)) \<and> running s"
proof -
  obtain s where s: "handle_messages ((''total='' @ nat_text N) # map msg_text ms) (handler_start b) = Some s"
    "counts (int N) (ended ms) (live_names ms []) s"
    using messages_result [OF assms] by blast
  then obtain as where "list_ok (pkgs s) as" "map (pname (pkgs s)) as = live_names ms []" by (auto simp: counts_def)
  with s all_pkgs_list show ?thesis by (auto simp: counts_def of_nat_div)
qed

theorem progress_follows_messages_witness:
  "\<exists>s as. handle_messages [''total=3'', ''begin=zlib'', ''begin=bash_single'', ''end=zlib''] (handler_start (replicate BUF_SIZE CHR 0x00)) = Some s
    \<and> all_pkgs (pkgs s) = Some as \<and> map (pname (pkgs s)) as = [''bash''] \<and> live_pkg s = 1 \<and> finished_pkg s = 1 \<and> percent s = 33"
proof -
  let ?ms = "[Begin ''zlib'', Begin ''bash_single'', End ''zlib'']"
  have t: "''total='' @ nat_text 3 = ''total=3''" by code_simp
  have m: "map msg_text ?ms = [''begin=zlib'', ''begin=bash_single'', ''end=zlib'']" by simp
  have n: "live_names ?ms [] = [''bash'']" by (simp add: strip_single_def)
  have e: "ended ?ms = 1" by simp
  have "\<forall>m \<in> set ?ms. plain_pkg (msg_name m)" by (simp add: plain_pkg_def)
  from progress_follows_messages [OF _ _ length_replicate this, of 3 "CHR 0x00"]
  show ?thesis unfolding t m n e by (auto simp del: handle_messages.simps)
qed

section \<open>Menuconfig\<close>

definition wit_item :: "nat \<Rightarrow> dialog_item" where
  "wit_item i = \<lparr>i_str = CHR ''x'' # replicate i CHR ''y'', i_tag = CHR ''t'', i_data = Some (Menu i), i_selected = False\<rparr>"

definition wit_items :: "nat \<Rightarrow> item_list" where
  "wit_items n = \<lparr>item_head = map wit_item [0..<n], item_nil = blank_item, item_cur = Item (n - 1)\<rparr>"

text \<open>
  C35: A menu marks the item under its cursor. Seen from outside, it is a cursor over the items that
  starts on the item selected by default, and that \<open>cursor_moves\<close> moves: by one item, by as many as
  there are lines, or to an item with the letter as its hot key. Let the screen be large enough, and
  let it keep its size or nothing be scrolled before. Then, whatever keys are pressed, the dialog
  returns when an escape comes. The keys read before the last one have moved the cursor. The last
  one has left the dialog: an escape, a resize to a screen that is too small, or a key with the code
  returned, 0 to 10. In that case exactly the item under the cursor is marked, and it is on the
  screen.
\<close>

theorem dialog_menu_marks_an_item:
  assumes "items_ok l" "15 \<le> scr_rows d" "65 \<le> scr_cols d" "saved = 0 \<or> (\<forall>k \<in> set pressed. no_resize k)"
  shows "\<exists>r s l' d' used k u. dialog_menu sel saved l (d\<lparr>scr_keys := pressed @ [KEY_ESC [CHR 0x1B]]\<rparr>) = Some (r, s, l', d')
    \<and> pressed @ [KEY_ESC [CHR 0x1B]] = used @ k # scr_keys d'
    \<and> via (cursor_moves l sel) used (first_cursor sel l (scr_rows d)) u \<and> leaves_with l k u r
    \<and> (\<forall>n. r = Pressed n \<longrightarrow> n \<le> 10 \<and> (item_head l \<noteq> [] \<longrightarrow> marked u s l l'))"
proof -
  have h: "\<forall>k \<in> set pressed. menu_handled saved k" using assms(4) by (auto simp: menu_handled_def)
  then have h': "\<forall>k \<in> set (pressed @ [KEY_ESC [CHR 0x1B]]). menu_handled saved k" by (simp add: menu_handled_def no_resize_def)
  from dialog_menu_ok(1) [OF assms(1-3) h, of sel] obtain r s l' d' where
    r: "dialog_menu sel saved l (d\<lparr>scr_keys := pressed @ [KEY_ESC [CHR 0x1B]]\<rparr>) = Some (r, s, l', d')" by auto
  from r dialog_menu_ok(2) [OF assms(1-3) h' r] show ?thesis by blast
qed

theorem dialog_menu_marks_an_item_witness:
  "\<exists>l' d' used k u. dialog_menu None 0 (wit_items 3) \<lparr>scr_rows = 24, scr_cols = 80, scr_keys = [KEY_DOWN, Key CHR '' '', KEY_ESC [CHR 0x1B]]\<rparr>
       = Some (Pressed 8, 0, l', d')
    \<and> [KEY_DOWN, Key CHR '' '', KEY_ESC [CHR 0x1B]] = used @ k # scr_keys d'
    \<and> via (cursor_moves (wit_items 3) None) used (first_cursor None (wit_items 3) 24) u \<and> marked u 0 (wit_items 3) l'"
proof -
  let ?d = "\<lparr>scr_rows = 24, scr_cols = 80, scr_keys = []\<rparr> :: screen"
  have "items_ok (wit_items 3)" "item_head (wit_items 3) \<noteq> []" by (simp_all add: items_ok_def wit_items_def)
  moreover have "case dialog_menu None 0 (wit_items 3) \<lparr>scr_rows = 24, scr_cols = 80, scr_keys = [KEY_DOWN, Key CHR '' '', KEY_ESC [CHR 0x1B]]\<rparr> of
      None \<Rightarrow> False | Some (r, s, l', d') \<Rightarrow> r = Pressed 8 \<and> s = 0"
    by code_simp
  ultimately show ?thesis
    using dialog_menu_marks_an_item [of "wit_items 3" ?d 0 "[KEY_DOWN, Key CHR '' '']" None]
    by (auto split: option.splits)
qed

text \<open>
  A resize can leave \<open>first_item\<close> of the first layout behind: the menu then draws items that do not
  exist.
\<close>

lemma dialog_menu_resize_faults:
  "dialog_menu (Some (Menu 24)) 19 (wit_items 40) \<lparr>scr_rows = 24, scr_cols = 80, scr_keys = [KEY_RESIZE 52 80, KEY_ESC [CHR 0x1B]]\<rparr> = None"
  by code_simp

text \<open>
  C36: The input box is an editor of a line with a cursor. Whatever keys are pressed, also when the
  screen changes its size, its accesses stay inside the buffer and it returns when an escape comes.
  After keys that edit, \<open>Enter\<close> returns the text that the same keys make of the old text and the
  cursor behind it, in which the cursor is a position between two lists of characters.
\<close>

theorem dialog_inputbox_refines_editor:
  assumes "CHR 0x00 \<notin> set t" "length t \<le> MAX_LEN" "6 < w" "h - 2 < scr_rows d" "w - 2 < scr_cols d"
  shows "(\<exists>r. dialog_inputbox h w (Some t) old (d\<lparr>scr_keys := pressed @ [KEY_ESC [CHR 0x1B]]\<rparr>) = Some r)
    \<and> (edit_keys pressed \<longrightarrow>
       (\<exists>buf. dialog_inputbox h w (Some t) old (d\<lparr>scr_keys := pressed @ Key CHR 0x0A # rest\<rparr>) = Some (Pressed 0, buf, d\<lparr>scr_keys := rest\<rparr>)
          \<and> buf_text buf = fst (edited pressed (t, [])) @ snd (edited pressed (t, []))))"
proof -
  let ?b = "\<lparr>ib_rows = scr_rows d, ib_cols = scr_cols d, instr = input_start (Some t) old,
              in_len = 0, in_pos = 0, input_x = 0, show_x = 0, in_button = -1\<rparr>"
  obtain b where b: "input_layout h w ?b = Stay b" "editing (w - 6) b t []" "in_button b = -1"
    using input_layout_editing [of "w - 6" ?b t "[]" w h] input_start_text [OF assms(1,2), of old] assms(1,3-5)
    by (auto simp: input_layout_def Let_def)
  have "inputbox_ok w b \<and> 6 < w" using b assms(3) by (auto simp: inputbox_ok_def)
  from input.loop_returns [OF this, of pressed h Escaped] b(1)
  have "\<exists>r. dialog_inputbox h w (Some t) old (d\<lparr>scr_keys := pressed @ [KEY_ESC [CHR 0x1B]]\<rparr>) = Some r"
    by (auto simp: dialog_inputbox_def Let_def)
  with dialog_inputbox_edits [OF assms(1-3), of h "d\<lparr>scr_keys := pressed @ Key CHR 0x0A # rest\<rparr>" pressed rest old] assms(4,5)
  show ?thesis by auto
qed

theorem dialog_inputbox_refines_editor_witness:
  "\<exists>buf. dialog_inputbox 10 75 (Some ''ac'') [] \<lparr>scr_rows = 24, scr_cols = 80, scr_keys = [KEY_LEFT, Key CHR ''b'', Key CHR 0x0A]\<rparr>
     = Some (Pressed 0, buf, \<lparr>scr_rows = 24, scr_cols = 80, scr_keys = []\<rparr>) \<and> buf_text buf = ''abc''"
proof -
  have "edit_keys [KEY_LEFT, Key CHR ''b'']" by (auto simp: edit_keys_def editor_key_def isprint_def)
  moreover have "edited [KEY_LEFT, Key CHR ''b''] (''ac'', []) = (''ab'', ''c'')" by code_simp
  ultimately show ?thesis
    using dialog_inputbox_refines_editor [of "''ac''" 75 10 "\<lparr>scr_rows = 24, scr_cols = 80, scr_keys = []\<rparr>" "[]" "[KEY_LEFT, Key CHR ''b'']" "[]"]
    by simp
qed

text \<open>
  C37: \<open>build_conf\<close> fills the list of a menu with exactly the entries that the visible ones
  determine. \<open>listing\<close> is that list: it goes over the tree, hands the state of the symbols from one
  entry to the next, drops an entry that \<open>menu_is_visible\<close> finds hidden in that state together with
  what is below, or one without a prompt when all options are shown, and goes on below an entry
  that is opened. \<open>build_conf\<close> appends, behind the items there are, one item with a tag for each
  entry of the list, in the order of the tree and none twice, each at most 199 characters long,
  naming its entry, and not selected; it counts them as children, except the title of the current
  menu, restores the indentation, leaves the symbols in the state of \<open>listing\<close>, and changes nothing
  else. It returns when no symbol of an entry is a text.
\<close>

theorem build_conf_lists_the_entries:
  assumes "wf_state (mk s)" "finite (invalid (mk s))" "card (invalid (mk s)) < N"
    and "tree_ok (menus (mk s)) t" "height t \<le> n" "height t \<le> d" "item_list_ok (items s)"
  shows "((\<forall>a m. m_sym (menus (mk s) m) = Some a \<longrightarrow> s_type (syms (mk s) a) \<in> {S_BOOLEAN, S_TRISTATE}) \<longrightarrow>
      (\<exists>s'. build_conf n d (sym_calc_value N) (entry t) s = Some s'))
    \<and> (\<forall>s'. build_conf n d (sym_calc_value N) (entry t) s = Some s' \<longrightarrow>
      same_structure (mk s) (mk s') \<and> item_list_ok (items s')
      \<and> (\<exists>ms new. listing d (sym_calc_value N) s t (mk s) = Some (ms, mk s') \<and> subseq ms (preorder t)
          \<and> list_all2 (item_form (mk s)) ms new
          \<and> s' = s\<lparr>mc := (mc s)\<lparr>ks := mk s'\<rparr>,
                  child_count := child_count s + int (length (filter (counted (mk s) (mc_menu s)) ms)),
                  items := (items s)\<lparr>item_head := item_head (items s) @ new, item_cur := item_cur (items s')\<rparr>\<rparr>))"
  (is "(?T \<longrightarrow> _) \<and> (\<forall>s'. _ \<longrightarrow> ?Q s')")
proof -
  have "returns T (build_conf n d (sym_calc_value N) (entry t) s) ?Q" if "T \<Longrightarrow> ?T" for T
  proof (rule returns_mono [OF build_conf_total [OF assms that]])
    fix s' assume r: "same_structure (mk s) (mk s') \<and> (\<exists>ms. listing d (sym_calc_value N) s t (mk s) = Some (ms, mk s') \<and> listed (mk s) ms s s')"
    then obtain ms where l: "listing d (sym_calc_value N) s t (mk s) = Some (ms, mk s')" "listed (mk s) ms s s'" by blast
    from listed_session [OF l(2)] listed_ok [OF l(2)] listing_subseq(1) [OF l(1)] l(1) r show "?Q s'" by blast
  qed
  from this [of True] this [of False] show ?thesis unfolding returns_True returns_False by blast
qed

definition wit_session :: "bool \<Rightarrow> kstate \<Rightarrow> mconf" where
  "wit_session all k = \<lparr>mc = wit_conf k (\<lambda>_. None), mc_indent = 0, mc_menu = rootmenu, child_count = 0,
     single_menu_mode = False, show_all_options = all, save_and_exit = False, mc_silent = False, mc_filename = ''.config'',
     backtitle = [], trail = [], subtitles = [], unrolled = (\<lambda>_. False),
     items = \<lparr>item_head = [], item_nil = blank_item, item_cur = Item_nil\<rparr>,
     dialog_input_result = replicate 2049 CHR 0x00, scr = \<lparr>scr_rows = 24, scr_cols = 80, scr_keys = []\<rparr>\<rparr>"

theorem build_conf_lists_the_entries_witness:
  "\<exists>s' p. build_conf 1 1 (sym_calc_value 4) (Menu 1) (wit_session False wit_choice_state) = Some s'
    \<and> item_head (items s') = [p] \<and> i_data p = Some (Menu 1) \<and> child_count s' = 1"
proof -
  let ?s = "wit_session False wit_choice_state" and ?t = "MNode (Menu 1) []"
  have mk: "mk ?s = wit_choice_state" by (simp add: wit_session_def)
  have set: "wf_state (mk ?s)" "finite (invalid (mk ?s))" "card (invalid (mk ?s)) < 4"
    using wit_choice_state_settable unfolding mk by (simp_all add: settable_def wit_choice_symbols(1))
  have tr: "tree_ok (menus (mk ?s)) ?t" unfolding mk by code_simp
  have ok: "item_list_ok (items ?s)" by (simp add: item_list_ok_def wit_session_def)
  have ty: "\<forall>a m. m_sym (menus (mk ?s) m) = Some a \<longrightarrow> s_type (syms (mk ?s) a) \<in> {S_BOOLEAN, S_TRISTATE}"
    unfolding mk by (auto simp: wit_choice_state_def wit_member_def blank_menu_def blank_symbol_def split: if_splits)
  from build_conf_lists_the_entries [OF set tr _ _ ok, of 1 1] ty obtain s' ms new where
    s: "build_conf 1 1 (sym_calc_value 4) (Menu 1) ?s = Some s'" "listing 1 (sym_calc_value 4) ?s ?t (mk ?s) = Some (ms, mk s')"
      "list_all2 (item_form (mk ?s)) ms new"
      "s' = ?s\<lparr>mc := (mc ?s)\<lparr>ks := mk s'\<rparr>, child_count := child_count ?s + int (length (filter (counted (mk ?s) (mc_menu ?s)) ms)),
         items := (items ?s)\<lparr>item_head := item_head (items ?s) @ new, item_cur := item_cur (items s')\<rparr>\<rparr>"
    by auto
  have "map_option fst (listing 1 (sym_calc_value 4) ?s ?t wit_choice_state) = Some [Menu 1]" by code_simp
  with s(2) have ms: "ms = [Menu 1]" unfolding mk by simp
  have "counted (mk ?s) (mc_menu ?s) (Menu 1)" by (simp add: counted_def wit_session_def)
  then have h: "item_head (items s') = new" "child_count s' = 1"
    by (subst s(4), simp add: wit_session_def, subst s(4), simp add: wit_session_def ms)
  from s(3) ms obtain p where "new = [p]" "i_data p = Some (Menu 1)" by (auto simp: list_all2_Cons1 item_form_def)
  with s(1) h show ?thesis by auto
qed




section \<open>Linked lists\<close>

text \<open>
  C39: The lists of \<^verbatim>\<open>list.h\<close> are lists. After any sequence of its operations on any number of them,
  in which what is added is in no list and what is removed, replaced or moved is in one, the pointers
  form the lists that the same operations give on lists of entries. The loops visit these in order,
  and backwards; a loop that removes the entries it visits ends, and with an empty list.
\<close>

theorem list_heads_refine_lists:
  assumes "rings_ok h L" "list_ops_ok xs L"
  shows "\<exists>h'. run_ops xs h = Some h' \<and> rings_ok h' (fold list_effect xs L)
    \<and> (\<forall>head as. fold list_effect xs L head = Some as \<longrightarrow>
        list_for_each_entry (Cell head) h' = Some (map Cell as)
        \<and> list_for_each_entry_reverse (Cell head) h' = Some (map Cell (rev as))
        \<and> list_empty (Cell head) h' = Some (as = [])
        \<and> (\<exists>h''. list_for_each_entry_safe list_del (Cell head) h' = Some h'' \<and> list_empty (Cell head) h'' = Some True))"
proof -
  from list_ops_refine [OF assms] obtain h' where h: "run_ops xs h = Some h'" "rings_ok h' (fold list_effect xs L)" by blast
  have "\<exists>h''. list_for_each_entry_safe list_del (Cell head) h' = Some h'' \<and> list_empty (Cell head) h'' = Some True"
    if "fold list_effect xs L head = Some as" for head as
    using remove_all [OF rings_okD [OF h(2) that]] ring_loops(3) [of _ head "[]"] by auto
  with h ring_loops [OF rings_okD [OF h(2)]] show ?thesis by blast
qed

definition wit_list_heap :: list_heap where
  "wit_list_heap = \<lparr>lh_next = (\<lambda>_. LIST_POISON1), lh_prev = (\<lambda>_. LIST_POISON2)\<rparr>"

theorem list_heads_refine_lists_witness:
  "\<exists>h'. run_ops [Op_init 0, Op_add_tail 1 0, Op_add 2 0, Op_add_tail 3 0, Op_move_tail 2 0, Op_del 1] wit_list_heap = Some h'
    \<and> list_for_each_entry (Cell 0) h' = Some [Cell 3, Cell 2]"
proof -
  let ?xs = "[Op_init 0, Op_add_tail 1 0, Op_add 2 0, Op_add_tail 3 0, Op_move_tail 2 0, Op_del 1]"
  have "rings_ok wit_list_heap Map.empty" by (simp add: rings_ok_def)
  moreover have "list_ops_ok ?xs Map.empty" by (simp add: cells_def entries_def ran_def on_list_def without_def)
  moreover have "fold list_effect ?xs Map.empty 0 = Some [3, 2]" by (simp add: on_list_def without_def)
  ultimately show ?thesis using list_heads_refine_lists [of wit_list_heap Map.empty ?xs] by fastforce
qed

text \<open>
  C40: The hash tables of \<^verbatim>\<open>hashtable.h\<close> are lists of buckets. A table that is initialised has empty ones; adding a node puts
  it at the head of the bucket of its key, and deleting it takes it out of its bucket, the second time without an effect; the loops
  visit all nodes, or those of the bucket of a key, in the order of the buckets. So the model of
  theory \<open>HashTable\<close>, on which the interning of symbols and expressions rests, is that of the pointers.
\<close>

theorem hash_chains_refine_buckets:
  assumes "table_ok h t" "t \<noteq> []"
  shows "table_ok (hash_init sz h) (HASHTABLE_DEFINE sz)
    \<and> hash_for_each_node (length t) h = Some (hash_for_each t)
    \<and> hash_possible_nodes (length t) key h = Some (hash_possible t key)
    \<and> (a \<notin> set (hash_for_each t) \<longrightarrow> (\<exists>h'. hash_add_node (length t) a key h = Some h' \<and> table_ok h' (hash_add a key t)))
    \<and> (a \<in> set (hash_for_each t) \<longrightarrow>
        (\<exists>h'. hash_del a h = Some h' \<and> table_ok h' (map (removeAll a) t) \<and> hash_del a h' = Some h'))"
  using table_init table_loops [OF assms(1)] table_add [OF assms] table_del [OF assms(1)] assms(2)
  by (auto simp: hash_for_each_def)

definition wit_hlist_heap :: hlist_heap where
  "wit_hlist_heap = \<lparr>h_first = (\<lambda>_. H_poison), h_next = (\<lambda>_. H_poison), h_pprev = (\<lambda>_. S_poison)\<rparr>"

theorem hash_chains_refine_buckets_witness:
  "\<exists>h'. hash_add_node 4 7 5 (hash_init 4 wit_hlist_heap) = Some h' \<and> table_ok h' [[], [7], [], []]"
proof -
  have "table_ok (hash_init 4 wit_hlist_heap) (HASHTABLE_DEFINE 4)" by (rule table_init)
  from hash_chains_refine_buckets [OF this, where a = 7 and key = 5]
  have "\<exists>h'. hash_add_node 4 7 5 (hash_init 4 wit_hlist_heap) = Some h' \<and> table_ok h' (hash_add 7 5 (HASHTABLE_DEFINE 4))"
    by (simp add: HASHTABLE_DEFINE_def hash_for_each_def)
  moreover have "hash_add (7 :: nat) 5 (HASHTABLE_DEFINE 4) = [[], [7], [], []]" by code_simp
  ultimately show ?thesis by simp
qed

section \<open>Further results\<close>

text \<open>
  \<open>expr_trans_compare(e, E_UNEQUAL, &symbol_no)\<close>, as \<open>menu_finalize\<close> calls it, gives an
  expression that is \<open>y\<close> when \<open>e\<close> is not \<open>n\<close> and \<open>n\<close> otherwise, for expressions over
  boolean and tristate symbols none of whose negated parts is \<open>m\<close>.
\<close>

lemma expr_trans_compare_unequal_no:
  assumes "consts_ok sy" and "plain_leaves sy (\<lambda>e. value_in sy (Some e)) e"
  shows "\<exists>e'. expr_trans_compare (Some e) T_UNEQUAL symbol_no = Some e'
    \<and> value_in sy (Some e') = (if value_in sy (Some e) \<noteq> tri_no then tri_yes else tri_no)"
  using expr_model.trans_compare_value [OF assms(1) disjI2 [OF refl] disjI2 [OF refl]] assms(2)
    expr_model.const_no [OF assms(1)]
  by (simp add: expr_trans_compare_def)

text \<open>
  \<open>sym_toggle_tristate_value\<close> outside a choice. It returns after at most three attempts.
  Either the value it reports is in the range of the symbol and now its user value, or no value
  at all is in the range, and it reports the old value and changes nothing.
\<close>

lemma sym_toggle_tristate_value_correct:
  assumes "settable n s" and "sym_get_choice_menu (syms s) (menus s) (syms s a) = Some None"
  shows "\<exists>w s'. sym_toggle_tristate_value (sym_calc_value n) a s = Some (w, s')
    \<and> ((sym_tristate_within_range s a w \<and> user_tri s' a = Some w)
       \<or> ((\<forall>v. \<not> sym_tristate_within_range s a v) \<and> w = sym_get_tristate_value (syms s a) \<and> s' = s))"
proof -
  obtain w s' where r: "sym_toggle_tristate_value (sym_calc_value n) a s = Some (w, s')"
    using toggle_returns [OF assms(1)] by blast
  then have "toggle_loop (sym_calc_value n) 3 a (sym_get_tristate_value (syms s a)) (sym_get_tristate_value (syms s a)) s
      = Some (w, s')"
    using assms(2) by (simp add: sym_toggle_tristate_value_def Let_def)
  from toggle_loop_result [OF this] r show ?thesis by blast
qed

text \<open>
  In a user-defined function, the printed number \<open>k\<close> stands for the \<open>k\<close>-th argument.
\<close>

lemma numbers_are_arguments:
  assumes "0 < k" "k \<le> length args" "length args < 2 ^ 64"
  shows "eval_clause ex w args (nat_text k) s = Some (Done (args ! (k - 1)) s)"
  by (rule eval_clause_argument [OF assms])

text \<open>
  \<open>make_parent_dir\<close> changes nothing but the set of directories, and adds only prefixes of the
  path. When it succeeds on a path that fits its buffer, every directory named in the path is
  there.
\<close>

lemma make_parent_dir_creates:
  assumes "make_parent_dir w path c = (b, c')"
  shows "only_dirs w path c c' \<and> (b \<and> length path \<le> 4096 \<longrightarrow> (\<forall>p. dir_of p path \<longrightarrow> is_dir w p c'))"
  using make_parent_dir_result [OF assms] by blast

text \<open>
  \<open>expr_eq\<close> is sound. Two expressions it calls equal (up to the order and grouping of
  operands) have the same value in every consistent symbol table.
\<close>

lemma expr_eq_same_value:
  assumes "consts_ok sy" and "expr_eq (Some e1) (Some e2)"
  shows "value_in sy (Some e1) = value_in sy (Some e2)"
  using expr_model.eq_leaves_sound(1) [OF assms(1)] assms(2) by (simp add: expr_eq_def)

text \<open>
  The texts \<open>sym_string_valid\<close> accepts for an integer are exactly an optional minus sign
  and decimal digits with no leading zero, and the scanner used for the range reads such a text
  to its end.
\<close>

lemma sym_string_valid_int:
  assumes "s_type y = S_INT"
  shows "(sym_string_valid y str \<longleftrightarrow> decimal str \<or> (\<exists>ds. str = CHR ''-'' # ds \<and> decimal ds))
    \<and> (sym_string_valid y str \<longrightarrow> fst (snd (strtoll_int 10 str)) = [])"
  using assms by (simp_all add: sym_string_valid_def int_string_valid_iff int_string_read)

end
